(* ===== verification/Prelude.thy ===== *)
theory Prelude
  imports Main "HOL-Library.Word"
begin

text \<open>
  Shared vocabulary of the development: the machine integers of the kernel, C strings held
  in byte buffers, little-endian encodings, and the small library of list and word facts
  that the component theories use through the simplifier and the collections below.
  The string helpers are those that \<open>simplefs.c\<close> and \<open>ramfs.c\<close> each define privately
  (\<open>str_len32\<close>, \<open>str_eq\<close>, \<open>str_copy\<close>); both copies are textually the same function.
\<close>

unbundle bit_operations_syntax

section \<open>Machine integers\<close>

type_synonym u8 = "8 word"
type_synonym u16 = "16 word"
type_synonym u32 = "32 word"
type_synonym u64 = "64 word"

text \<open>A signed \<open>int32_t\<close> is kept as its 32-bit pattern; \<open>sint\<close> reads it.\<close>

type_synonym i32 = "32 word"

named_theorems cstr_simps \<open>facts on NUL-terminated strings in byte buffers\<close>
named_theorems inv_intros \<open>preservation of component invariants\<close>
named_theorems codec_simps \<open>encode/decode round trips\<close>

section \<open>Words\<close>

lemma and_push_bit_1_eq_bit: "(w AND push_bit n 1 = 0) \<longleftrightarrow> \<not> bit w n" for w :: "'a::len word"
proof -
  have "w AND push_bit n 1 = (if bit w n then push_bit n 1 else 0)"
    by (rule bit_word_eqI) (auto simp: bit_simps bit_1_iff)
  moreover have "bit w n \<Longrightarrow> push_bit n (1 :: 'a word) \<noteq> 0"
    using bit_imp_le_length[of w n] by (auto simp: bit_eq_iff bit_simps bit_1_iff)
  ultimately show ?thesis
    by auto
qed

lemma and_pow2_eq_bit: "(w AND 2 ^ n = 0) \<longleftrightarrow> \<not> bit w n" for w :: "'a::len word"
  using and_push_bit_1_eq_bit[of w n] by (simp add: push_bit_eq_mult)

lemma div_mod_8_eq: "i div 8 = j div 8 \<Longrightarrow> i mod 8 = j mod 8 \<longleftrightarrow> i = j" for i j :: nat
  by (metis div_mult_mod_eq)

lemma unat_of_nat_small: "n < 2 ^ LENGTH('a) \<Longrightarrow> unat (of_nat n :: 'a::len word) = n"
  by (simp add: unat_of_nat take_bit_nat_eq_self)

lemma of_nat_word_inj:
  "i < 2 ^ LENGTH('a) \<Longrightarrow> j < 2 ^ LENGTH('a) \<Longrightarrow> (of_nat i :: 'a::len word) = of_nat j \<longleftrightarrow> i = j"
  by (metis unat_of_nat_small)

lemma unat_add_small:
  "unat a + unat b < 2 ^ LENGTH('a) \<Longrightarrow> unat (a + b) = unat a + unat b" for a b :: "'a::len word"
  by (simp add: unat_word_ariths)

lemma unat_mult_small:
  "unat a * unat b < 2 ^ LENGTH('a) \<Longrightarrow> unat (a * b) = unat a * unat b" for a b :: "'a::len word"
  by (simp add: unat_word_ariths)

lemma unat_sub_small: "b \<le> a \<Longrightarrow> unat (a - b) = unat a - unat b" for a b :: "'a::len word"
  by (rule unat_sub)

lemma unat_lt_2p: "unat (w :: 'a::len word) < 2 ^ LENGTH('a)"
  by (rule unsigned_less)

lemma unat_ucast_up:
  assumes "LENGTH('a) \<le> LENGTH('b)"
  shows "unat (ucast (w :: 'a::len word) :: 'b::len word) = unat w"
proof -
  have "unat w < 2 ^ LENGTH('b)"
    using unat_lt_2p[of w] power_increasing[OF assms, of "2 :: nat"] by linarith
  then show ?thesis by (simp add: unsigned_ucast_eq take_bit_nat_eq_self)
qed

text \<open>C's signed division rounds towards zero.\<close>

definition c_div :: "int \<Rightarrow> int \<Rightarrow> int" where
  "c_div a b = sgn a * sgn b * (\<bar>a\<bar> div \<bar>b\<bar>)"

lemma c_div_pos: "0 \<le> a \<Longrightarrow> 0 < b \<Longrightarrow> c_div a b = a div b"
  by (cases "a = 0") (simp_all add: c_div_def)

lemma sint_word_of_int_small:
  "- (2 ^ 31) \<le> i \<Longrightarrow> i < 2 ^ 31 \<Longrightarrow> sint (word_of_int i :: 32 word) = i"
  by (simp add: sint_sbintrunc' signed_take_bit_int_eq_self)

lemma sint_nonneg_uint: "uint (w :: 32 word) < 2 ^ 31 \<Longrightarrow> sint w = uint w"
  using sint_word_of_int_small[of "uint w"] uint_ge_0[of w] by (simp del: uint_ge_0)

section \<open>C strings\<close>

text \<open>
  A \<open>char *\<close> is the list of the bytes of the object it points to. The C code reads up
  to the first NUL byte; \<open>cstr\<close> is the text it sees. A list that holds no NUL stands for a
  string whose terminator is the next byte, as for a string literal.
\<close>

definition cstr :: "u8 list \<Rightarrow> u8 list" where
  "cstr s = takeWhile (\<lambda>c. c \<noteq> 0) s"

fun str_len32_loop :: "u8 list \<Rightarrow> u32 \<Rightarrow> u32" where
  "str_len32_loop [] n = n"
| "str_len32_loop (c # cs) n =
     (if c \<noteq> 0 \<and> n < 0x7FFFFFFF then str_len32_loop cs (n + 1) else n)"

definition str_len32 :: "u8 list option \<Rightarrow> u32" where
  "str_len32 s = (case s of None \<Rightarrow> 0 | Some cs \<Rightarrow> str_len32_loop cs 0)"

fun str_eq_loop :: "u8 list \<Rightarrow> u8 list \<Rightarrow> bool" where
  "str_eq_loop [] bs = (case bs of [] \<Rightarrow> True | cb # _ \<Rightarrow> cb = 0)"
| "str_eq_loop (ca # as) bs =
     (let cb = (case bs of [] \<Rightarrow> 0 | b # _ \<Rightarrow> b) in
      if ca \<noteq> cb then False else if ca = 0 then True else str_eq_loop as (tl bs))"

definition str_eq :: "u8 list option \<Rightarrow> u8 list option \<Rightarrow> bool" where
  "str_eq a b = (case (a, b) of (Some x, Some y) \<Rightarrow> str_eq_loop x y | _ \<Rightarrow> False)"

fun str_copy_loop :: "u8 list \<Rightarrow> u8 list \<Rightarrow> nat \<Rightarrow> nat \<Rightarrow> u8 list" where
  "str_copy_loop dst [] i cap = dst[i := 0]"
| "str_copy_loop dst (c # cs) i cap =
     (if i + 1 < cap \<and> c \<noteq> 0 then str_copy_loop (dst[i := c]) cs (i + 1) cap else dst[i := 0])"

definition str_copy :: "u8 list \<Rightarrow> u8 list option \<Rightarrow> nat \<Rightarrow> u8 list" where
  "str_copy dst src cap =
     (if cap = 0 then dst
      else str_copy_loop dst (case src of None \<Rightarrow> [] | Some s \<Rightarrow> s) 0 cap)"

lemma cstr_Nil [cstr_simps, simp]: "cstr [] = []"
  by (simp add: cstr_def)

lemma cstr_Cons [cstr_simps]: "cstr (c # cs) = (if c = 0 then [] else c # cstr cs)"
  by (simp add: cstr_def)

lemma cstr_length_le: "length (cstr s) \<le> length s"
  by (simp add: cstr_def length_takeWhile_le)

lemma cstr_nonzero: "0 \<notin> set (cstr s)"
  by (auto simp: cstr_def dest: set_takeWhileD)

lemma cstr_ident: "0 \<notin> set s \<Longrightarrow> cstr s = s"
  by (auto simp: cstr_def takeWhile_eq_all_conv)

lemma cstr_append_NUL: "0 \<notin> set s \<Longrightarrow> cstr (s @ 0 # r) = s"
  by (induction s) (auto simp: cstr_Cons)

lemma cstr_idem [simp]: "cstr (cstr s) = cstr s"
  by (simp add: cstr_ident cstr_nonzero)

lemma str_eq_loop_cstr: "str_eq_loop a b \<longleftrightarrow> cstr a = cstr b"
proof (induction a b rule: str_eq_loop.induct)
  case (1 bs)
  then show ?case by (cases bs) (auto simp: cstr_Cons)
next
  case (2 ca as bs)
  then show ?case by (cases bs) (auto simp: cstr_Cons Let_def)
qed

lemma str_eq_Some [cstr_simps, simp]: "str_eq (Some a) (Some b) \<longleftrightarrow> cstr a = cstr b"
  by (simp add: str_eq_def str_eq_loop_cstr)

lemma str_eq_None [simp]: "\<not> str_eq None b" "\<not> str_eq a None"
  by (auto simp: str_eq_def split: option.splits)

lemma str_len32_loop_eq:
  "unat n + length (cstr s) \<le> 0x7FFFFFFF \<Longrightarrow> str_len32_loop s n = n + of_nat (length (cstr s))"
proof (induction s n rule: str_len32_loop.induct)
  case (1 n)
  then show ?case by simp
next
  case (2 c cs n)
  show ?case
  proof (cases "c = 0")
    case True
    then show ?thesis by (simp add: cstr_Cons)
  next
    case False
    with 2(2) have lt: "unat n < 0x7FFFFFFF" by (simp add: cstr_Cons)
    then have lt': "n < 0x7FFFFFFF" by (simp add: word_less_nat_alt)
    from lt have s: "unat (n + 1) = unat n + 1"
      by (subst unat_add_small) auto
    with 2 False lt' have "str_len32_loop cs (n + 1) = n + 1 + of_nat (length (cstr cs))"
      by (simp add: cstr_Cons)
    with False lt' show ?thesis by (simp add: cstr_Cons algebra_simps)
  qed
qed

lemma str_len32_Some:
  "length (cstr s) \<le> 0x7FFFFFFF \<Longrightarrow> str_len32 (Some s) = of_nat (length (cstr s))"
  by (simp add: str_len32_def str_len32_loop_eq)

lemma str_len32_loop_ge: "n \<le> 0x7FFFFFFF \<Longrightarrow> 0x7FFFFFFF < unat n + length (cstr s)
    \<Longrightarrow> str_len32_loop s n = 0x7FFFFFFF"
proof (induction s n rule: str_len32_loop.induct)
  case (1 n)
  then show ?case by (auto simp: word_le_nat_alt)
next
  case (2 c cs n)
  show ?case
  proof (cases "c = 0 \<or> \<not> n < 0x7FFFFFFF")
    case True
    with 2 show ?thesis by (auto simp: cstr_Cons word_le_nat_alt word_less_nat_alt word_unat_eq_iff)
  next
    case False
    then have lt: "unat n < 0x7FFFFFFF" by (auto simp: word_less_nat_alt)
    then have s: "unat (n + 1) = unat n + 1"
      by (subst unat_add_small) auto
    from 2 False lt s show ?thesis by (auto simp: cstr_Cons word_le_nat_alt)
  qed
qed

text \<open>The two name tests the file systems make on a length.\<close>

lemma str_len32_valid_name:
  "\<not> (str_len32 (Some s) = 0 \<or> str_len32 (Some s) \<ge> 32) \<longleftrightarrow> cstr s \<noteq> [] \<and> length (cstr s) < 32"
proof (cases "length (cstr s) \<le> 0x7FFFFFFF")
  case True
  then have "unat (of_nat (length (cstr s)) :: u32) = length (cstr s)"
    by (intro unat_of_nat_small) simp
  with True show ?thesis
    by (auto simp: str_len32_Some word_le_nat_alt word_unat_eq_iff)
next
  case False
  then have "str_len32 (Some s) = 0x7FFFFFFF"
    by (auto simp: str_len32_def intro!: str_len32_loop_ge)
  moreover have "\<not> (0x7FFFFFFF :: u32) < 32" "(0x7FFFFFFF :: u32) \<noteq> 0" by simp_all
  ultimately show ?thesis using False by auto
qed

lemma length_str_copy_loop [simp]: "length (str_copy_loop dst s i cap) = length dst"
  by (induction dst s i cap rule: str_copy_loop.induct) auto

lemma length_str_copy [simp]: "length (str_copy dst s cap) = length dst"
  by (simp add: str_copy_def)

lemma str_copy_loop_eq:
  "i < cap \<Longrightarrow> cap \<le> length dst \<Longrightarrow>
   take (Suc (i + min (cap - 1 - i) (length (cstr s)))) (str_copy_loop dst s i cap) =
   take i dst @ take (cap - 1 - i) (cstr s) @ [0]"
proof (induction dst s i cap rule: str_copy_loop.induct)
  case (1 dst i cap)
  then show ?case by (simp add: take_Suc_conv_app_nth)
next
  case (2 dst c cs i cap)
  show ?case
  proof (cases "i + 1 < cap \<and> c \<noteq> 0")
    case True
    with 2 have IH: "take (Suc (i + 1 + min (cap - 1 - (i + 1)) (length (cstr cs))))
        (str_copy_loop (dst[i := c]) cs (i + 1) cap) =
        take (i + 1) (dst[i := c]) @ take (cap - 1 - (i + 1)) (cstr cs) @ [0]"
      by simp
    have "cap - 1 - i = Suc (cap - 1 - (i + 1))" using True by linarith
    moreover have "take (i + 1) (dst[i := c]) = take i dst @ [c]"
      using True 2 by (simp add: take_Suc_conv_app_nth)
    ultimately show ?thesis using IH True by (simp add: cstr_Cons)
  next
    case False
    with 2 have "min (cap - 1 - i) (length (cstr (c # cs))) = 0"
      by (auto simp: cstr_Cons)
    moreover have "take (cap - 1 - i) (cstr (c # cs)) = []"
      using False 2 by (auto simp: cstr_Cons)
    moreover have "str_copy_loop dst (c # cs) i cap = dst[i := 0]"
      using False by auto
    ultimately show ?thesis using 2 by (simp add: take_Suc_conv_app_nth)
  qed
qed

lemma cstr_take_NUL: "0 \<notin> set s \<Longrightarrow> take (Suc (length s)) b = s @ [0] \<Longrightarrow> cstr b = s"
  using append_take_drop_id[of "Suc (length s)" b] cstr_append_NUL[of s]
  by (metis append.assoc append_Cons append_Nil)

lemma cstr_str_copy [cstr_simps]:
  assumes "0 < cap" "cap \<le> length dst"
  shows "cstr (str_copy dst (Some s) cap) = take (cap - 1) (cstr s)"
proof (rule cstr_take_NUL)
  show "0 \<notin> set (take (cap - 1) (cstr s))"
    by (meson cstr_nonzero in_set_takeD)
  show "take (Suc (length (take (cap - 1) (cstr s)))) (str_copy dst (Some s) cap) =
        take (cap - 1) (cstr s) @ [0]"
    using str_copy_loop_eq[of 0 cap dst s] assms by (simp add: str_copy_def min.commute)
qed

lemma NUL_in_str_copy:
  assumes "0 < cap" "cap \<le> length dst"
  shows "0 \<in> set (str_copy dst (Some s) cap)"
proof -
  have "0 \<in> set (take (Suc (length (take (cap - 1) (cstr s)))) (str_copy dst (Some s) cap))"
    using str_copy_loop_eq[of 0 cap dst s] assms by (simp add: str_copy_def min.commute)
  then show ?thesis by (rule in_set_takeD)
qed

section \<open>Little-endian words in byte lists\<close>

definition le16 :: "u16 \<Rightarrow> u8 list" where
  "le16 w = [ucast w, ucast (drop_bit 8 w)]"

definition le32 :: "u32 \<Rightarrow> u8 list" where
  "le32 w = [ucast w, ucast (drop_bit 8 w), ucast (drop_bit 16 w), ucast (drop_bit 24 w)]"

definition rd16 :: "u8 list \<Rightarrow> nat \<Rightarrow> u16" where
  "rd16 p i = ucast (p ! i) OR push_bit 8 (ucast (p ! (i + 1)))"

definition rd32 :: "u8 list \<Rightarrow> nat \<Rightarrow> u32" where
  "rd32 p i = ucast (p ! i) OR push_bit 8 (ucast (p ! (i + 1))) OR
     push_bit 16 (ucast (p ! (i + 2))) OR push_bit 24 (ucast (p ! (i + 3)))"

lemma length_le [simp]: "length (le16 a) = 2" "length (le32 b) = 4"
  by (simp_all add: le16_def le32_def)

lemma rd16_le16 [codec_simps, simp]: "rd16 (le16 w) 0 = w"
  unfolding rd16_def le16_def
  by (rule bit_word_eqI) (auto simp: bit_simps le_less_Suc_eq)

lemma rd32_le32 [codec_simps, simp]: "rd32 (le32 w) 0 = w"
proof -
  have "bit (rd32 (le32 w) 0) n = bit w n" if n: "n < 32" for n
  proof -
    consider "n < 8" | "8 \<le> n" "n < 16" | "16 \<le> n" "n < 24" | "24 \<le> n" "n < 32"
      using n by linarith
    then show ?thesis
      by cases (auto simp: rd32_def le32_def bit_simps)
  qed
  then show ?thesis by (intro bit_word_eqI) auto
qed

lemma le16_rd16 [codec_simps]: "le16 (rd16 p i) = [p ! i, p ! (i + 1)]"
proof -
  have "ucast (rd16 p i) = p ! i" "ucast (drop_bit 8 (rd16 p i)) = p ! (i + 1)"
    by (auto simp: rd16_def bit_eq_iff bit_simps dest: bit_imp_le_length)
  then show ?thesis by (simp add: le16_def)
qed

definition words_of :: "u8 list \<Rightarrow> u16 list" where
  "words_of bs = map (\<lambda>i. rd16 bs (2 * i)) [0..<256]"

lemma length_words_of [simp]: "length (words_of bs) = 256"
  by (simp add: words_of_def)

lemma bytes_of_words_of [codec_simps]:
  assumes "512 \<le> length bs"
  shows "concat (map le16 (words_of bs)) = take 512 bs"
proof -
  have "2 * n \<le> length bs \<Longrightarrow> concat (map le16 (map (\<lambda>i. rd16 bs (2 * i)) [0..<n])) = take (2 * n) bs" for n
    by (induction n) (simp_all add: le16_rd16 take_Suc_conv_app_nth)
  from this[of 256] assms show ?thesis by (simp add: words_of_def)
qed

lemma rd32_append [codec_simps]: "rd32 (xs @ ys) (length xs + k) = rd32 ys k"
  by (simp add: rd32_def nth_append)

lemma rd32_append1: "i + 3 < length xs \<Longrightarrow> rd32 (xs @ ys) i = rd32 xs i"
  by (simp add: rd32_def nth_append)

section \<open>Lists\<close>

lemma take_drop_update_id: "take n xs @ drop n xs = xs"
  by simp

text \<open>Overwriting part of a buffer, as the byte loops \<open>dst[k + i] = src[i]\<close> do.\<close>

definition blit :: "nat \<Rightarrow> 'a list \<Rightarrow> 'a list \<Rightarrow> 'a list" where
  "blit k src dst = take k dst @ src @ drop (k + length src) dst"

lemma length_blit [simp]: "k + length src \<le> length dst \<Longrightarrow> length (blit k src dst) = length dst"
  by (simp add: blit_def)

lemma nth_blit:
  "k + length src \<le> length dst \<Longrightarrow> i < length dst \<Longrightarrow>
   blit k src dst ! i = (if k \<le> i \<and> i < k + length src then src ! (i - k) else dst ! i)"
  by (auto simp: blit_def nth_append min_def)

text \<open>The search loops: the first index at which a test holds.\<close>

fun find_index :: "('a \<Rightarrow> bool) \<Rightarrow> 'a list \<Rightarrow> nat option" where
  "find_index P [] = None"
| "find_index P (x # xs) = (if P x then Some 0 else map_option Suc (find_index P xs))"

lemma find_index_None_iff [simp]: "find_index P xs = None \<longleftrightarrow> (\<forall>x \<in> set xs. \<not> P x)"
  by (induction xs) auto

lemma find_index_Some_iff:
  "find_index P xs = Some i \<longleftrightarrow> i < length xs \<and> P (xs ! i) \<and> (\<forall>j < i. \<not> P (xs ! j))"
proof (induction xs arbitrary: i)
  case (Cons x xs)
  show ?case
  proof (cases i)
    case 0
    then show ?thesis by auto
  next
    case (Suc k)
    then show ?thesis using Cons[of k] by (auto simp: less_Suc_eq_0_disj)
  qed
qed simp

lemma find_index_SomeD:
  "find_index P xs = Some i \<Longrightarrow> i < length xs" "find_index P xs = Some i \<Longrightarrow> P (xs ! i)"
  by (simp_all add: find_index_Some_iff)

lemma find_index_nth:
  "find_index (\<lambda>i. P (xs ! i)) [0..<length xs] = find_index P xs"
proof (induction xs)
  case (Cons x xs)
  have "[0..<length (x # xs)] = 0 # map Suc [0..<length xs]"
    by (simp add: map_Suc_upt upt_conv_Cons del: upt_Suc)
  moreover have "find_index Q (map Suc ys) = find_index (\<lambda>i. Q (Suc i)) ys" for Q ys
    by (induction ys) auto
  ultimately show ?case using Cons.IH by simp
qed simp

lemma find_index_cong:
  "(\<And>x. x \<in> set xs \<Longrightarrow> P x = Q x) \<Longrightarrow> find_index P xs = find_index Q xs"
  by (induction xs) auto

lemma find_index_update_None:
  "\<not> P y \<Longrightarrow> \<not> P (xs ! i) \<Longrightarrow> find_index P (xs[i := y]) = find_index P xs"
  by (induction xs arbitrary: i) (auto split: nat.split)

lemma find_index_update_hit:
  "i < length xs \<Longrightarrow> P y \<Longrightarrow> (\<forall>j < i. \<not> P (xs ! j)) \<Longrightarrow> find_index P (xs[i := y]) = Some i"
  by (simp add: find_index_Some_iff)

section \<open>Byte memory\<close>

text \<open>The bytes of an object, and what it is for two address ranges not to meet.\<close>

definition bytes_at :: "(u64 \<Rightarrow> u8) \<Rightarrow> u64 \<Rightarrow> nat \<Rightarrow> u8 list" where
  "bytes_at m p n = map (\<lambda>i. m (p + of_nat i)) [0..<n]"

definition apart :: "u64 \<Rightarrow> nat \<Rightarrow> u64 \<Rightarrow> nat \<Rightarrow> bool" where
  "apart p n q k \<longleftrightarrow> (\<forall>i < n. \<forall>j < k. p + of_nat i \<noteq> q + of_nat j)"

lemma apartI:
  assumes "unat p + n < 2 ^ 64" "unat q + k < 2 ^ 64" "unat p + n \<le> unat q \<or> unat q + k \<le> unat p"
  shows "apart p n q k"
  unfolding apart_def
proof (intro allI impI)
  fix i j assume ij: "i < n" "j < k"
  have "unat (p + of_nat i) = unat p + i" "unat (q + of_nat j) = unat q + j"
    using assms ij by (simp_all add: unat_add_small unat_of_nat_small)
  then show "p + of_nat i \<noteq> q + of_nat j" using assms(3) ij by (auto simp: word_unat_eq_iff)
qed

definition le64 :: "u64 \<Rightarrow> u8 list" where
  "le64 w = le32 (ucast w) @ le32 (ucast (drop_bit 32 w))"

definition rd64 :: "u8 list \<Rightarrow> nat \<Rightarrow> u64" where
  "rd64 p i = ucast (rd32 p i) OR push_bit 32 (ucast (rd32 p (i + 4)))"

lemma length_le64 [simp]: "length (le64 w) = 8"
  by (simp add: le64_def)

lemma rd64_le64 [codec_simps, simp]: "rd64 (le64 w) 0 = w"
proof -
  have "rd32 (le64 w) 0 = ucast w" by (simp add: le64_def rd32_append1)
  moreover have "rd32 (le64 w) 4 = ucast (drop_bit 32 w)"
    using rd32_append[of "le32 (ucast w)" "le32 (ucast (drop_bit 32 w))" 0] by (simp add: le64_def)
  ultimately show ?thesis
    unfolding rd64_def
    by (intro bit_word_eqI) (auto simp: bit_simps)
qed

lemma length_bytes_at [simp]: "length (bytes_at m a n) = n"
  by (simp add: bytes_at_def)

text \<open>A loop that stores bytes at consecutive addresses.\<close>

definition store_bytes :: "u64 \<Rightarrow> u8 list \<Rightarrow> (u64 \<Rightarrow> u8) \<Rightarrow> (u64 \<Rightarrow> u8)" where
  "store_bytes p bs m = fold (\<lambda>i m. m(p + of_nat i := bs ! i)) [0..<length bs] m"

lemma store_bytes_at:
  assumes "unat p + length bs \<le> 2 ^ 64"
  shows "store_bytes p bs m x = (if unat p \<le> unat x \<and> unat x < unat p + length bs then bs ! (unat x - unat p) else m x)"
proof -
  have "n \<le> length bs \<Longrightarrow> fold (\<lambda>i m. m(p + of_nat i := bs ! i)) [0..<n] m x =
      (if unat p \<le> unat x \<and> unat x < unat p + n then bs ! (unat x - unat p) else m x)" for n
  proof (induction n)
    case (Suc n)
    have "unat (of_nat n :: u64) = n" using Suc.prems assms by (intro unat_of_nat_small) simp
    then have u: "unat (p + of_nat n) = unat p + n" using Suc.prems assms by (subst unat_add_small) simp_all
    have "x = p + of_nat n \<longleftrightarrow> unat x = unat p + n" using u by (simp add: word_unat_eq_iff)
    then show ?case using Suc by (auto simp: less_Suc_eq)
  qed auto
  then show ?thesis by (simp add: store_bytes_def)
qed

lemma bytes_at_nth: "unat a + n \<le> 2 ^ 64 \<Longrightarrow> i < n \<Longrightarrow> bytes_at m a n ! i = m (a + of_nat i) \<and> unat (a + of_nat i) = unat a + i"
proof -
  assume n: "unat a + n \<le> 2 ^ 64" "i < n"
  then have "unat (of_nat i :: u64) = i" by (intro unat_of_nat_small) simp
  then show ?thesis using n by (simp add: bytes_at_def unat_add_small)
qed

end
