(* ===== verification/Pmm.thy ===== *)
theory Pmm
  imports Prelude
begin

text \<open>
  The physical page allocator \<open>src/kernel/mem/pmm.c\<close>: one bit per page (set means used) in
  a byte bitmap that sits at the start of the managed region. The record holds the three
  file-scope variables; \<open>bitmap\<close> is the list of the \<open>(max_pages + 7) / 8\<close> bytes at
  \<open>bitmap_addr\<close>. The abstract view is the set of free page numbers (\<open>free_pages\<close>), and the
  allocator as its clients see it is the locale \<open>frame_allocator\<close> over page addresses, of
  which \<open>PMM_AllocatePage\<close> and \<open>PMM_FreePage\<close> are the interpretation. The serial traces of
  the C functions are not modelled.
\<close>

section \<open>State and operations\<close>

record pmm =
  bitmap :: "u8 list"
  max_pages :: u64
  base_paddr :: u64

definition PAGE_SIZE :: u64 where "PAGE_SIZE = 4096"

definition pmm_bit :: "nat \<Rightarrow> u8" where
  "pmm_bit page = push_bit (page mod 8) 1"

definition set_used :: "nat \<Rightarrow> pmm \<Rightarrow> pmm" where
  "set_used page p =
     p\<lparr>bitmap := (bitmap p)[page div 8 := (bitmap p ! (page div 8)) OR pmm_bit page]\<rparr>"

definition clear_used :: "nat \<Rightarrow> pmm \<Rightarrow> pmm" where
  "clear_used page p =
     p\<lparr>bitmap := (bitmap p)[page div 8 := (bitmap p ! (page div 8)) AND NOT (pmm_bit page)]\<rparr>"

definition PMM_Init :: "u64 \<Rightarrow> u64 \<Rightarrow> pmm" where
  "PMM_Init mem_size bitmap_addr =
     (let n = mem_size div PAGE_SIZE in
      \<lparr>bitmap = replicate (unat ((n + 7) div 8)) 0xFF, max_pages = n, base_paddr = bitmap_addr\<rparr>)"

fun PMM_FreePages_loop :: "nat \<Rightarrow> u64 \<Rightarrow> pmm \<Rightarrow> pmm" where
  "PMM_FreePages_loop 0 page p = p"
| "PMM_FreePages_loop (Suc n) page p =
     (if max_pages p \<le> page then p
      else PMM_FreePages_loop n (page + 1) (clear_used (unat page) p))"

definition PMM_FreePages :: "u64 \<Rightarrow> u64 \<Rightarrow> pmm \<Rightarrow> pmm" where
  "PMM_FreePages addr count p =
     PMM_FreePages_loop (unat count) ((addr - base_paddr p) div PAGE_SIZE) p"

function PMM_AllocatePage_loop :: "nat \<Rightarrow> pmm \<Rightarrow> u64 \<times> pmm" where
  "PMM_AllocatePage_loop i p =
     (if i < unat (max_pages p) then
        if (bitmap p ! (i div 8)) AND pmm_bit i = 0
        then (base_paddr p + of_nat i * PAGE_SIZE, set_used i p)
        else PMM_AllocatePage_loop (i + 1) p
      else (0, p))"
  by pat_completeness auto
termination
  by (relation "measure (\<lambda>(i, p). unat (max_pages p) - i)") auto

declare PMM_AllocatePage_loop.simps [simp del]

definition PMM_AllocatePage :: "pmm \<Rightarrow> u64 \<times> pmm" where
  "PMM_AllocatePage p = PMM_AllocatePage_loop 0 p"

definition PMM_FreePage :: "u64 \<Rightarrow> pmm \<Rightarrow> pmm" where
  "PMM_FreePage addr p =
     (let page = (addr - base_paddr p) div PAGE_SIZE in
      if page < max_pages p then clear_used (unat page) p else p)"

section \<open>Well-formedness and the abstract view\<close>

text \<open>
  \<open>pmm_wf\<close>: the bitmap has a bit for every page, the region starts at a page boundary other
  than address 0, and does not run past the top of the address space.
\<close>

definition pmm_wf :: "pmm \<Rightarrow> bool" where
  "pmm_wf p \<longleftrightarrow> unat (max_pages p) \<le> 8 * length (bitmap p) \<and> base_paddr p \<noteq> 0 \<and>
     unat (base_paddr p) mod 4096 = 0 \<and>
     unat (base_paddr p) + unat (max_pages p) * 4096 < 2 ^ 64"

definition used_page :: "pmm \<Rightarrow> nat \<Rightarrow> bool" where
  "used_page p i \<longleftrightarrow> bit (bitmap p ! (i div 8)) (i mod 8)"

definition free_pages :: "pmm \<Rightarrow> nat set" where
  "free_pages p = {i. i < unat (max_pages p) \<and> \<not> used_page p i}"

definition page_addr :: "pmm \<Rightarrow> nat \<Rightarrow> u64" where
  "page_addr p i = base_paddr p + of_nat i * PAGE_SIZE"

definition managed :: "pmm \<Rightarrow> u64 set" where
  "managed p = page_addr p ` {..<unat (max_pages p)}"

definition available :: "pmm \<Rightarrow> u64 set" where
  "available p = page_addr p ` free_pages p"

lemma used_page_iff: "((bitmap p ! (i div 8)) AND pmm_bit i = 0) \<longleftrightarrow> \<not> used_page p i"
  by (simp only: used_page_def pmm_bit_def and_push_bit_1_eq_bit)

lemma fields_set_used [simp]:
  "max_pages (set_used i p) = max_pages p" "base_paddr (set_used i p) = base_paddr p"
  "max_pages (clear_used i p) = max_pages p" "base_paddr (clear_used i p) = base_paddr p"
  "length (bitmap (set_used i p)) = length (bitmap p)"
  "length (bitmap (clear_used i p)) = length (bitmap p)"
  by (simp_all add: set_used_def clear_used_def)

lemma pmm_wf_set_used [inv_intros]: "pmm_wf p \<Longrightarrow> pmm_wf (set_used i p)"
  by (simp add: pmm_wf_def)

lemma pmm_wf_clear_used [inv_intros]: "pmm_wf p \<Longrightarrow> pmm_wf (clear_used i p)"
  by (simp add: pmm_wf_def)

lemma page_addr_cong [simp]:
  "page_addr (set_used i p) = page_addr p" "page_addr (clear_used i p) = page_addr p"
  by (simp_all add: page_addr_def fun_eq_iff)

lemma bit_pmm_bit: "n < 8 \<Longrightarrow> bit (pmm_bit i) n \<longleftrightarrow> n = i mod 8"
  by (auto simp: pmm_bit_def bit_simps bit_1_iff)

lemma used_page_set_used:
  assumes "i div 8 < length (bitmap p)"
  shows "used_page (set_used i p) j \<longleftrightarrow> j = i \<or> used_page p j"
proof (cases "j div 8 = i div 8")
  case True
  have "j mod 8 = i mod 8 \<longleftrightarrow> j = i" by (rule div_mod_8_eq[OF True])
  with True assms show ?thesis
    by (simp add: used_page_def set_used_def bit_or_iff bit_pmm_bit disj_commute)
next
  case False
  then show ?thesis by (auto simp: used_page_def set_used_def)
qed

lemma used_page_clear_used:
  assumes "i div 8 < length (bitmap p)"
  shows "used_page (clear_used i p) j \<longleftrightarrow> j \<noteq> i \<and> used_page p j"
proof (cases "j div 8 = i div 8")
  case True
  have "j mod 8 = i mod 8 \<longleftrightarrow> j = i" by (rule div_mod_8_eq[OF True])
  with True assms show ?thesis
    by (simp add: used_page_def clear_used_def bit_and_iff bit_not_iff bit_pmm_bit conj_commute)
next
  case False
  then show ?thesis by (auto simp: used_page_def clear_used_def)
qed

lemma pmm_wf_index: "pmm_wf p \<Longrightarrow> i < unat (max_pages p) \<Longrightarrow> i div 8 < length (bitmap p)"
  by (simp add: pmm_wf_def div_less_iff_less_mult)

lemma free_pages_set_used:
  "pmm_wf p \<Longrightarrow> i < unat (max_pages p) \<Longrightarrow> free_pages (set_used i p) = free_pages p - {i}"
  by (auto simp: free_pages_def used_page_set_used pmm_wf_index)

lemma free_pages_clear_used:
  "pmm_wf p \<Longrightarrow> i < unat (max_pages p) \<Longrightarrow> free_pages (clear_used i p) = insert i (free_pages p)"
  by (auto simp: free_pages_def used_page_clear_used pmm_wf_index)

lemma unat_page_addr:
  assumes "pmm_wf p" "i < unat (max_pages p)"
  shows "unat (page_addr p i) = unat (base_paddr p) + i * 4096"
proof -
  have b: "i * 4096 < 2 ^ 64" "unat (base_paddr p) + i * 4096 < 2 ^ 64"
    using assms by (auto simp: pmm_wf_def)
  have i: "unat (of_nat i :: u64) = i"
    using b by (intro unat_of_nat_small) simp
  have "unat (of_nat i * PAGE_SIZE) = i * 4096"
    using b i by (subst unat_mult_small) (auto simp: PAGE_SIZE_def)
  with b show ?thesis
    by (simp add: page_addr_def unat_add_small)
qed

lemma page_addr_inj: "pmm_wf p \<Longrightarrow> inj_on (page_addr p) {..<unat (max_pages p)}"
  by (rule inj_onI) (metis unat_page_addr lessThan_iff add_left_cancel mult_cancel2
      zero_neq_numeral)

lemma page_of_page_addr:
  assumes "pmm_wf p" "i < unat (max_pages p)"
  shows "(page_addr p i - base_paddr p) div PAGE_SIZE = of_nat i"
proof -
  have "base_paddr p \<le> page_addr p i"
    using unat_page_addr[OF assms] by (simp add: word_le_nat_alt)
  then have "unat (page_addr p i - base_paddr p) = i * 4096"
    using unat_page_addr[OF assms] by (simp add: unat_sub_small)
  then have "unat ((page_addr p i - base_paddr p) div PAGE_SIZE) = i"
    by (simp add: unat_div PAGE_SIZE_def)
  moreover have "unat (of_nat i :: u64) = i"
    using assms unat_lt_2p[of "max_pages p"] by (intro unat_of_nat_small) simp
  ultimately show ?thesis
    by (simp add: word_unat_eq_iff)
qed

section \<open>What the operations do\<close>

lemma AllocatePage_loop_none:
  "(\<forall>j < unat (max_pages p). i \<le> j \<longrightarrow> used_page p j) \<Longrightarrow> PMM_AllocatePage_loop i p = (0, p)"
proof (induction i p rule: PMM_AllocatePage_loop.induct)
  case (1 i p)
  then show ?case
    by (subst PMM_AllocatePage_loop.simps) (auto simp: used_page_iff)
qed

lemma AllocatePage_loop_some:
  "k < unat (max_pages p) \<Longrightarrow> i \<le> k \<Longrightarrow> \<not> used_page p k \<Longrightarrow> (\<forall>j < k. i \<le> j \<longrightarrow> used_page p j) \<Longrightarrow>
   PMM_AllocatePage_loop i p = (page_addr p k, set_used k p)"
proof (induction i p rule: PMM_AllocatePage_loop.induct)
  case (1 i p)
  show ?case
  proof (cases "i = k")
    case True
    with 1 show ?thesis
      by (subst PMM_AllocatePage_loop.simps) (auto simp: used_page_iff page_addr_def)
  next
    case False
    with 1 have "used_page p i" "i < unat (max_pages p)" "i + 1 \<le> k" by auto
    with 1 show ?thesis
      by (subst PMM_AllocatePage_loop.simps) (auto simp: used_page_iff)
  qed
qed

lemma AllocatePage_none: "free_pages p = {} \<Longrightarrow> PMM_AllocatePage p = (0, p)"
  unfolding PMM_AllocatePage_def
  by (rule AllocatePage_loop_none) (auto simp: free_pages_def)

lemma free_pages_Min:
  assumes "free_pages p \<noteq> {}"
  shows "Min (free_pages p) \<in> free_pages p" "\<And>j. j < Min (free_pages p) \<Longrightarrow> j \<notin> free_pages p"
proof -
  have fin: "finite (free_pages p)"
    by (rule finite_subset[of _ "{..<unat (max_pages p)}"]) (auto simp: free_pages_def)
  then show "Min (free_pages p) \<in> free_pages p" using assms by simp
  show "\<And>j. j < Min (free_pages p) \<Longrightarrow> j \<notin> free_pages p" using fin
    by (meson Min_le leD)
qed

lemma AllocatePage_some:
  assumes "free_pages p \<noteq> {}"
  shows "PMM_AllocatePage p = (page_addr p (Min (free_pages p)), set_used (Min (free_pages p)) p)"
  unfolding PMM_AllocatePage_def
proof (rule AllocatePage_loop_some)
  define k where "k = Min (free_pages p)"
  have k: "k \<in> free_pages p" "\<And>j. j < k \<Longrightarrow> j \<notin> free_pages p"
    using free_pages_Min[OF assms] by (auto simp: k_def)
  then have lt: "k < unat (max_pages p)" and free: "\<not> used_page p k"
    by (simp_all add: free_pages_def)
  show "Min (free_pages p) < unat (max_pages p)" "\<not> used_page p (Min (free_pages p))"
    using lt free unfolding k_def by blast+
  have "used_page p j" if "j < k" for j
    using k(2)[OF that] that lt by (simp add: free_pages_def)
  then show "\<forall>j < Min (free_pages p). 0 \<le> j \<longrightarrow> used_page p j"
    by (simp add: k_def)
qed simp

lemma FreePage_managed:
  assumes "pmm_wf p" "i < unat (max_pages p)"
  shows "PMM_FreePage (page_addr p i) p = clear_used i p"
proof -
  have "unat (of_nat i :: u64) = i"
    using assms unat_lt_2p[of "max_pages p"] by (intro unat_of_nat_small) simp
  with assms show ?thesis
    by (simp add: PMM_FreePage_def page_of_page_addr word_less_nat_alt Let_def)
qed

lemma FreePages_loop_spec:
  "pmm_wf p \<Longrightarrow> q = PMM_FreePages_loop n page p \<Longrightarrow> unat page + n < 2 ^ 64 \<Longrightarrow>
   free_pages q = free_pages p \<union> {unat page ..< min (unat page + n) (unat (max_pages p))} \<and>
   max_pages q = max_pages p \<and> base_paddr q = base_paddr p \<and> pmm_wf q"
proof (induction n page p arbitrary: q rule: PMM_FreePages_loop.induct)
  case (1 page p)
  then show ?case by auto
next
  case (2 n page p)
  show ?case
  proof (cases "max_pages p \<le> page")
    case True
    with 2 show ?thesis by (auto simp: word_le_nat_alt)
  next
    case False
    then have lt: "unat page < unat (max_pages p)" by (simp add: word_le_nat_alt)
    have u: "unat (page + 1) = unat page + 1" using 2 by (subst unat_add_small) auto
    let ?p = "clear_used (unat page) p"
    have q: "q = PMM_FreePages_loop n (page + 1) ?p" using 2(3) False by simp
    have b: "unat (page + 1) + n < 2 ^ 64" using 2(4) u by simp
    have IH: "free_pages q = free_pages ?p \<union> {unat (page + 1) ..<
        min (unat (page + 1) + n) (unat (max_pages ?p))} \<and>
        max_pages q = max_pages ?p \<and> base_paddr q = base_paddr ?p \<and> pmm_wf q"
      by (rule "2.IH"[OF False pmm_wf_clear_used[OF 2(2)] q b])
    have "{unat page ..< min (unat page + Suc n) (unat (max_pages p))} =
        insert (unat page) {unat (page + 1) ..< min (unat (page + 1) + n) (unat (max_pages p))}"
      using lt u by auto
    then show ?thesis
      using IH 2(2) lt by (simp add: free_pages_clear_used)
  qed
qed

lemma PMM_Init_fields [simp]:
  "max_pages (PMM_Init m b) = m div PAGE_SIZE" "base_paddr (PMM_Init m b) = b"
  "bitmap (PMM_Init m b) = replicate (unat ((m div PAGE_SIZE + 7) div 8)) 0xFF"
  by (simp_all add: PMM_Init_def Let_def)

lemma unat_max_pages: "unat (m div PAGE_SIZE) = unat m div 4096"
  by (simp add: unat_div PAGE_SIZE_def)

lemma length_Init_bitmap: "length (bitmap (PMM_Init m b)) = (unat m div 4096 + 7) div 8"
proof -
  have lt: "unat m div 4096 + 7 < 2 ^ 64" using unat_lt_2p[of m] by (simp add: less_mult_imp_div_less)
  then have "unat (m div PAGE_SIZE + 7) = unat m div 4096 + 7"
    by (subst unat_add_small) (auto simp: unat_max_pages)
  then show ?thesis by (simp add: unat_div)
qed

lemma Init_wf:
  assumes "b \<noteq> 0" "unat b mod 4096 = 0" "unat b + unat m < 2 ^ 64"
  shows "pmm_wf (PMM_Init m b)"
proof -
  have "unat m div 4096 \<le> 8 * ((unat m div 4096 + 7) div 8)" by linarith
  moreover have "unat m div 4096 * 4096 \<le> unat m" by simp
  ultimately show ?thesis
    using assms length_Init_bitmap[of m b] by (auto simp: pmm_wf_def unat_max_pages)
qed

lemma Init_nothing_free:
  assumes "pmm_wf (PMM_Init m b)"
  shows "free_pages (PMM_Init m b) = {}"
proof -
  have "used_page (PMM_Init m b) i" if "i < unat (max_pages (PMM_Init m b))" for i
  proof -
    have "i div 8 < length (bitmap (PMM_Init m b))"
      using assms that by (rule pmm_wf_index)
    then have "bitmap (PMM_Init m b) ! (i div 8) = 0xFF" by simp
    moreover have "bit (0xFF :: u8) (i mod 8)"
    proof -
      have "(0xFF :: u8) = mask 8" by (simp add: mask_eq_exp_minus_1)
      then show ?thesis by (simp only: bit_mask_iff) simp
    qed
    ultimately show ?thesis by (simp add: used_page_def)
  qed
  then show ?thesis by (auto simp: free_pages_def)
qed

section \<open>The allocator interface\<close>

text \<open>
  What a client of a frame allocator may rely on: NULL exactly when nothing is available,
  otherwise a page-aligned non-NULL frame that is taken out of the available set; freeing
  puts it back.
\<close>

locale frame_allocator =
  fixes alloc :: "'s \<Rightarrow> u64 \<times> 's"
    and free :: "u64 \<Rightarrow> 's \<Rightarrow> 's"
    and avail :: "'s \<Rightarrow> u64 set"
    and frames :: "'s \<Rightarrow> u64 set"
    and inv :: "'s \<Rightarrow> bool"
  assumes alloc_empty: "inv s \<Longrightarrow> avail s = {} \<Longrightarrow> alloc s = (0, s)"
    and alloc_avail: "inv s \<Longrightarrow> avail s \<noteq> {} \<Longrightarrow> fst (alloc s) \<in> avail s"
    and avail_alloc: "inv s \<Longrightarrow> avail (snd (alloc s)) = avail s - {fst (alloc s)}"
    and frames_alloc: "inv s \<Longrightarrow> frames (snd (alloc s)) = frames s"
    and inv_alloc: "inv s \<Longrightarrow> inv (snd (alloc s))"
    and avail_frames: "inv s \<Longrightarrow> avail s \<subseteq> frames s"
    and frames_aligned: "inv s \<Longrightarrow> a \<in> frames s \<Longrightarrow> unat a mod 4096 = 0 \<and> a \<noteq> 0"
    and finite_frames: "inv s \<Longrightarrow> finite (frames s)"
    and avail_free: "inv s \<Longrightarrow> a \<in> frames s \<Longrightarrow> avail (free a s) = insert a (avail s)"
    and frames_free: "inv s \<Longrightarrow> frames (free a s) = frames s"
    and inv_free: "inv s \<Longrightarrow> inv (free a s)"
begin

lemma alloc_null_iff: "inv s \<Longrightarrow> fst (alloc s) = 0 \<longleftrightarrow> avail s = {}"
  using alloc_empty alloc_avail avail_frames frames_aligned by fastforce

lemma alloc_not_avail: "inv s \<Longrightarrow> fst (alloc s) \<notin> avail (snd (alloc s))"
  by (simp add: avail_alloc)

fun alloc_n :: "nat \<Rightarrow> 's \<Rightarrow> u64 list \<times> 's" where
  "alloc_n 0 s = ([], s)"
| "alloc_n (Suc n) s = (let (a, s1) = alloc s; (as, s2) = alloc_n n s1 in (a # as, s2))"

lemma alloc_n_spec:
  "inv s \<Longrightarrow> n \<le> card (avail s) \<Longrightarrow> alloc_n n s = (as, s') \<Longrightarrow>
   length as = n \<and> distinct as \<and> set as \<subseteq> avail s \<and> avail s' = avail s - set as \<and> inv s' \<and>
   frames s' = frames s"
proof (induction n arbitrary: s as s')
  case 0
  then show ?case by simp
next
  case (Suc n)
  obtain a s1 where a: "alloc s = (a, s1)" by fastforce
  obtain bs where r: "alloc_n n s1 = (bs, s')" "as = a # bs"
    using Suc.prems a by (auto simp: split: prod.splits)
  have fin: "finite (avail s)"
    using avail_frames finite_frames Suc.prems finite_subset by blast
  have ne: "avail s \<noteq> {}" using Suc.prems by auto
  have s1: "inv s1" "avail s1 = avail s - {a}" "a \<in> avail s" "frames s1 = frames s"
    using inv_alloc[of s] avail_alloc[of s] alloc_avail[of s] frames_alloc[of s] Suc.prems ne a
    by auto
  have "n \<le> card (avail s1)" using Suc.prems fin s1 by simp
  from Suc.IH[OF s1(1) this r(1)] s1 r(2) show ?case by auto
qed

lemma free_alloc_restores:
  "inv s \<Longrightarrow> avail s \<noteq> {} \<Longrightarrow> avail (free (fst (alloc s)) (snd (alloc s))) = avail s"
  using alloc_avail[of s] avail_frames[of s]
  by (auto simp: avail_free inv_alloc frames_alloc avail_alloc)

end

lemma available_alloc:
  assumes "pmm_wf p"
  shows "available (snd (PMM_AllocatePage p)) = available p - {fst (PMM_AllocatePage p)}"
proof (cases "free_pages p = {}")
  case True
  then show ?thesis by (simp add: AllocatePage_none available_def)
next
  case False
  let ?k = "Min (free_pages p)"
  have k: "?k \<in> free_pages p" using False by (rule free_pages_Min)
  then have kb: "?k < unat (max_pages p)" by (simp add: free_pages_def)
  have "page_addr p ` (free_pages p - {?k}) = page_addr p ` free_pages p - page_addr p ` {?k}"
    using page_addr_inj[OF assms] k
    by (intro inj_on_image_set_diff[of _ "{..<unat (max_pages p)}"]) (auto simp: free_pages_def)
  with False kb assms show ?thesis
    by (simp add: AllocatePage_some available_def free_pages_set_used)
qed

lemma fields_AllocatePage [simp]:
  "max_pages (snd (PMM_AllocatePage p)) = max_pages p"
  "base_paddr (snd (PMM_AllocatePage p)) = base_paddr p"
  "length (bitmap (snd (PMM_AllocatePage p))) = length (bitmap p)"
  by (cases "free_pages p = {}"; simp add: AllocatePage_none AllocatePage_some)+

lemma fields_FreePage [simp]:
  "max_pages (PMM_FreePage a p) = max_pages p" "base_paddr (PMM_FreePage a p) = base_paddr p"
  "length (bitmap (PMM_FreePage a p)) = length (bitmap p)"
  by (simp_all add: PMM_FreePage_def Let_def)

lemma page_addr_fields:
  "base_paddr p = base_paddr q \<Longrightarrow> page_addr p = page_addr q"
  by (simp add: page_addr_def fun_eq_iff)

interpretation pmm: frame_allocator PMM_AllocatePage PMM_FreePage available managed pmm_wf
proof unfold_locales
  fix s :: pmm and a :: u64
  assume wf: "pmm_wf s"
  show "available s = {} \<Longrightarrow> PMM_AllocatePage s = (0, s)"
    by (simp add: available_def AllocatePage_none)
  show "available s \<noteq> {} \<Longrightarrow> fst (PMM_AllocatePage s) \<in> available s"
    by (auto simp: available_def AllocatePage_some free_pages_Min(1))
  show "available (snd (PMM_AllocatePage s)) = available s - {fst (PMM_AllocatePage s)}"
    using wf by (rule available_alloc)
  show "managed (snd (PMM_AllocatePage s)) = managed s"
    by (simp add: managed_def page_addr_fields[of "snd (PMM_AllocatePage s)" s])
  show "pmm_wf (snd (PMM_AllocatePage s))" "pmm_wf (PMM_FreePage a s)"
    using wf by (simp_all add: pmm_wf_def)
  show "available s \<subseteq> managed s"
    by (auto simp: available_def managed_def free_pages_def)
  show "unat a mod 4096 = 0 \<and> a \<noteq> 0" if "a \<in> managed s"
  proof -
    from that obtain i where "i < unat (max_pages s)" "a = page_addr s i"
      by (auto simp: managed_def)
    with unat_page_addr[OF wf] wf show ?thesis
      by (auto simp: pmm_wf_def word_unat_eq_iff)
  qed
  show "finite (managed s)" by (simp add: managed_def)
  show "available (PMM_FreePage a s) = insert a (available s)" if "a \<in> managed s"
  proof -
    from that obtain i where i: "i < unat (max_pages s)" "a = page_addr s i"
      by (auto simp: managed_def)
    then show ?thesis
      using wf by (simp add: FreePage_managed available_def free_pages_clear_used)
  qed
  show "managed (PMM_FreePage a s) = managed s"
    by (simp add: managed_def page_addr_fields[of "PMM_FreePage a s" s])
qed

section \<open>Properties\<close>

lemma FreePages_boot:
  assumes "b \<noteq> 0" "unat b mod 4096 = 0" "unat b + unat m < 2 ^ 64" "unat b \<le> unat a"
    "unat count < 2 ^ 51"
  shows "pmm_wf (PMM_FreePages a count (PMM_Init m b))"
    "free_pages (PMM_FreePages a count (PMM_Init m b)) =
      {i. (unat a - unat b) div 4096 \<le> i \<and> i < (unat a - unat b) div 4096 + unat count \<and>
          i < unat m div 4096}"
proof -
  have i: "pmm_wf (PMM_Init m b)" by (rule Init_wf[OF assms(1-3)])
  have u: "unat ((a - b) div PAGE_SIZE) = (unat a - unat b) div 4096"
    using assms(4) by (simp add: unat_div PAGE_SIZE_def unat_sub_small word_le_nat_alt)
  have "(unat a - unat b) div 4096 < 2 ^ 52" using unat_lt_2p[of a] by (simp add: less_mult_imp_div_less)
  then have "unat ((a - b) div PAGE_SIZE) + unat count < 2 ^ 64" using u assms(5) by simp
  from FreePages_loop_spec[OF i refl this] Init_nothing_free[OF i] u
  show "pmm_wf (PMM_FreePages a count (PMM_Init m b))"
    "free_pages (PMM_FreePages a count (PMM_Init m b)) =
      {i. (unat a - unat b) div 4096 \<le> i \<and> i < (unat a - unat b) div 4096 + unat count \<and>
          i < unat m div 4096}"
    unfolding PMM_FreePages_def PMM_Init_fields unat_max_pages u by auto
qed

lemma card_available: "pmm_wf p \<Longrightarrow> card (available p) = card (free_pages p)"
  unfolding available_def
  by (intro card_image inj_on_subset[OF page_addr_inj]) (auto simp: free_pages_def)

definition pmm_example :: pmm where
  "pmm_example = PMM_FreePages 0x110000 4 (PMM_Init 0x40000 0x100000)"

lemma pmm_example_wf: "pmm_wf pmm_example" "0x113000 \<in> managed pmm_example"
proof -
  have i: "pmm_wf (PMM_Init 0x40000 0x100000)" by (rule Init_wf) simp_all
  from FreePages_loop_spec[OF i refl, of "0x10" 4] show "pmm_wf pmm_example"
    by (simp add: pmm_example_def PMM_FreePages_def PAGE_SIZE_def)
  from FreePages_loop_spec[OF i refl, of "0x10" 4] have "max_pages pmm_example = 64" "base_paddr pmm_example = 0x100000"
    by (simp_all add: pmm_example_def PMM_FreePages_def PAGE_SIZE_def)
  then show "0x113000 \<in> managed pmm_example"
    by (auto simp: managed_def page_addr_def PAGE_SIZE_def intro!: image_eqI[of _ _ 19])
qed

text \<open>
  PMM_AllocatePage returns the address of the lowest free page and marks that page used, and
  nothing else; when no page is free it returns NULL and changes nothing.
\<close>

theorem alloc_lowest_free_page:
  assumes "pmm_wf p"
  shows "case PMM_AllocatePage p of (a, q) \<Rightarrow> pmm_wf q \<and> max_pages q = max_pages p \<and>
    base_paddr q = base_paddr p \<and>
    (if free_pages p = {} then a = 0 \<and> q = p
     else unat a = unat (base_paddr p) + 4096 * Min (free_pages p) \<and>
       free_pages q = free_pages p - {Min (free_pages p)})"
proof (cases "free_pages p = {}")
  case True
  with assms show ?thesis by (simp add: AllocatePage_none)
next
  case False
  then have "Min (free_pages p) < unat (max_pages p)"
    using free_pages_Min(1)[OF False] by (simp add: free_pages_def)
  with False assms show ?thesis
    by (simp add: AllocatePage_some unat_page_addr free_pages_set_used inv_intros)
qed

theorem alloc_lowest_free_page_witness:
  "pmm_wf pmm_example \<and> (case PMM_AllocatePage pmm_example of (a, q) \<Rightarrow> pmm_wf q \<and>
    max_pages q = max_pages pmm_example \<and> base_paddr q = base_paddr pmm_example \<and>
    (if free_pages pmm_example = {} then a = 0 \<and> q = pmm_example
     else unat a = unat (base_paddr pmm_example) + 4096 * Min (free_pages pmm_example) \<and>
       free_pages q = free_pages pmm_example - {Min (free_pages pmm_example)}))"
  using alloc_lowest_free_page[OF pmm_example_wf(1)] pmm_example_wf(1) by blast

text \<open>
  C7. Any run of n allocations, with n pages available, hands out n different page-aligned non-
  NULL frames of the managed region and takes exactly these out of the available set.
\<close>

theorem allocations_exclusive:
  assumes "pmm_wf p" "n \<le> card (available p)"
  shows "case pmm.alloc_n n p of (as, q) \<Rightarrow> length as = n \<and> distinct as \<and> set as \<subseteq> managed p \<and>
    (\<forall>a \<in> set as. a \<noteq> 0 \<and> unat a mod 4096 = 0) \<and> available q = available p - set as"
proof -
  obtain as q where r: "pmm.alloc_n n p = (as, q)" by fastforce
  from pmm.alloc_n_spec[OF assms r] pmm.avail_frames[OF assms(1)] pmm.frames_aligned[OF assms(1)]
  show ?thesis by (auto simp: r)
qed

theorem allocations_exclusive_witness:
  "case pmm.alloc_n 1 (PMM_FreePage 0x113000 pmm_example) of (as, q) \<Rightarrow> length as = 1 \<and>
    0 \<notin> set as \<and> set as \<inter> available q = {}"
proof -
  have "0x113000 \<in> available (PMM_FreePage 0x113000 pmm_example)"
    using pmm.avail_free[OF pmm_example_wf] by simp
  moreover have "pmm_wf (PMM_FreePage 0x113000 pmm_example)"
    using pmm.inv_free[OF pmm_example_wf(1)] .
  ultimately show ?thesis
    using allocations_exclusive[of "PMM_FreePage 0x113000 pmm_example" 1]
      finite_subset[OF pmm.avail_frames pmm.finite_frames]
    by (fastforce simp: Suc_le_eq card_gt_0_iff)
qed

text \<open>
  PMM_FreePage makes exactly the given managed page available again, and freeing the page
  PMM_AllocatePage has just returned restores the available set.
\<close>

theorem free_page_restores:
  assumes "pmm_wf p" "a \<in> managed p"
  shows "available (PMM_FreePage a p) = insert a (available p) \<and>
    (available p \<noteq> {} \<longrightarrow> (case PMM_AllocatePage p of (b, q) \<Rightarrow> available (PMM_FreePage b q) = available p))"
  using pmm.avail_free[OF assms] pmm.free_alloc_restores[OF assms(1)] by (simp add: split_beta)

theorem free_page_restores_witness:
  "available (PMM_FreePage 0x113000 pmm_example) = insert 0x113000 (available pmm_example)"
  using free_page_restores[OF pmm_example_wf] by blast

text \<open>
  PMM_Init reserves every page of the region, and PMM_FreePages then frees exactly the
  pages of the given range that lie in the region.
\<close>

theorem boot_region_free:
  assumes "b \<noteq> 0" "unat b mod 4096 = 0" "unat b + unat m < 2 ^ 64" "unat b \<le> unat a"
    "unat count < 2 ^ 51"
  shows "pmm_wf (PMM_Init m b) \<and> free_pages (PMM_Init m b) = {} \<and>
    pmm_wf (PMM_FreePages a count (PMM_Init m b)) \<and>
    free_pages (PMM_FreePages a count (PMM_Init m b)) =
      {i. (unat a - unat b) div 4096 \<le> i \<and> i < (unat a - unat b) div 4096 + unat count \<and>
          i < unat m div 4096}"
  using Init_wf[OF assms(1-3)] Init_nothing_free[OF Init_wf[OF assms(1-3)]] FreePages_boot[OF assms]
  by blast

theorem boot_region_free_witness:
  "free_pages (PMM_FreePages 0x110000 4 (PMM_Init 0x40000 0x100000)) = {i. 16 \<le> i \<and> i < 20 \<and> i < 64}"
  using boot_region_free[of "0x100000" "0x40000" "0x110000" 4] by simp

end
