(* ===== verification/Heap.thy ===== *)
theory Heap
  imports Prelude
begin

text \<open>
  The kernel heap \<open>src/kernel/mem/heap.c\<close>: a singly linked list of headers, each in front
  of the block it describes, searched first-fit. The record keeps the headers as a store
  from addresses to \<open>HeapNode\<close>s, so the pointer surgery of splitting and merging is modelled
  as it is written; a walk over an arbitrary store need not end, hence
  \<^theory_text>\<open>partial_function (option)\<close>. The refinement relates a store that holds a well-formed list
  (\<open>heap_rel\<close>) to the list of its blocks, on which allocation is \<open>first_fit\<close> and release is
  \<open>mark_free\<close> followed by \<open>coalesce\<close>. \<open>byte_heap\<close> is the contract the clients use.
\<close>

section \<open>State and operations\<close>

record heap_node =
  hn_size :: u64
  hn_next :: u64
  hn_free :: u32

record kheap =
  nodes :: "u64 \<Rightarrow> heap_node"
  head :: u64

definition sizeof_HeapNode :: u64 where "sizeof_HeapNode = 24"

definition set_node :: "u64 \<Rightarrow> heap_node \<Rightarrow> kheap \<Rightarrow> kheap" where
  "set_node a n h = h\<lparr>nodes := (nodes h)(a := n)\<rparr>"

definition Heap_Init :: "u64 \<Rightarrow> u64 \<Rightarrow> kheap \<Rightarrow> kheap" where
  "Heap_Init addr sz h =
     set_node addr \<lparr>hn_size = sz - sizeof_HeapNode, hn_next = 0, hn_free = 1\<rparr> (h\<lparr>head := addr\<rparr>)"

partial_function (option) kmalloc_loop :: "u64 \<Rightarrow> u64 \<Rightarrow> kheap \<Rightarrow> (u64 \<times> kheap) option" where
  "kmalloc_loop sz current h =
     (if current = 0 then Some (0, h)
      else let n = nodes h current in
        if hn_free n \<noteq> 0 \<and> sz \<le> hn_size n then
          let h1 =
            (if sz + sizeof_HeapNode + 16 < hn_size n then
               let next = current + sizeof_HeapNode + sz;
                   h' = set_node next \<lparr>hn_size = hn_size n - sz - sizeof_HeapNode,
                          hn_next = hn_next n, hn_free = 1\<rparr> h
               in set_node current ((nodes h' current)\<lparr>hn_size := sz, hn_next := next\<rparr>) h'
             else h)
          in Some (current + sizeof_HeapNode,
                   set_node current ((nodes h1 current)\<lparr>hn_free := 0\<rparr>) h1)
        else kmalloc_loop sz (hn_next n) h)"

definition kmalloc :: "u64 \<Rightarrow> kheap \<Rightarrow> (u64 \<times> kheap) option" where
  "kmalloc sz h = kmalloc_loop sz (head h) h"

partial_function (option) kfree_loop :: "u64 \<Rightarrow> kheap \<Rightarrow> kheap option" where
  "kfree_loop current h =
     (if current = 0 then Some h
      else let n = nodes h current; m = nodes h (hn_next n) in
        if hn_free n \<noteq> 0 \<and> hn_next n \<noteq> 0 \<and> hn_free m \<noteq> 0 then
          kfree_loop current
            (set_node current (n\<lparr>hn_size := hn_size n + (hn_size m + sizeof_HeapNode),
                                 hn_next := hn_next m\<rparr>) h)
        else kfree_loop (hn_next n) h)"

definition kfree :: "u64 \<Rightarrow> kheap \<Rightarrow> kheap option" where
  "kfree ptr h =
     (if ptr = 0 then Some h
      else let node = ptr - sizeof_HeapNode in
        kfree_loop (head h) (set_node node ((nodes h node)\<lparr>hn_free := 1\<rparr>) h))"

section \<open>The abstract heap: a list of blocks\<close>

text \<open>A block is its header address, its payload size and whether it is free.\<close>

type_synonym blk = "u64 \<times> u64 \<times> bool"

fun first_fit :: "u64 \<Rightarrow> blk list \<Rightarrow> u64 \<times> blk list" where
  "first_fit sz [] = (0, [])"
| "first_fit sz ((a, s, f) # bs) =
     (if f \<and> sz \<le> s then
        (a + 24, if sz + 40 < s then (a, sz, False) # (a + 24 + sz, s - sz - 24, True) # bs
                 else (a, s, False) # bs)
      else let (r, bs') = first_fit sz bs in (r, (a, s, f) # bs'))"

fun coalesce :: "blk list \<Rightarrow> blk list" where
  "coalesce [] = []"
| "coalesce [b] = [b]"
| "coalesce ((a, s, f) # (b, t, g) # bs) =
     (if f \<and> g then coalesce ((a, s + (t + 24), True) # bs)
      else (a, s, f) # coalesce ((b, t, g) # bs))"

definition mark_free :: "u64 \<Rightarrow> blk list \<Rightarrow> blk list" where
  "mark_free p bs = map (\<lambda>(a, s, f). (a, s, f \<or> a + 24 = p)) bs"

text \<open>
  \<open>layout lo bs hi\<close>: the blocks with their 24-byte headers tile the addresses from \<open>lo\<close> to
  \<open>hi\<close> without gap or overlap.
\<close>

fun layout :: "nat \<Rightarrow> blk list \<Rightarrow> nat \<Rightarrow> bool" where
  "layout lo [] hi = (lo = hi)"
| "layout lo ((a, s, f) # bs) hi = (unat a = lo \<and> layout (lo + 24 + unat s) bs hi)"

fun chain :: "(u64 \<Rightarrow> heap_node) \<Rightarrow> u64 \<Rightarrow> blk list \<Rightarrow> bool" where
  "chain m p [] = (p = 0)"
| "chain m p ((a, s, f) # bs) =
     (p = a \<and> a \<noteq> 0 \<and> hn_size (m a) = s \<and> (hn_free (m a) \<noteq> 0) = f \<and> chain m (hn_next (m a)) bs)"

definition heap_rel :: "nat \<Rightarrow> nat \<Rightarrow> kheap \<Rightarrow> blk list \<Rightarrow> bool" where
  "heap_rel lo hi h bs \<longleftrightarrow> chain (nodes h) (head h) bs \<and> layout lo bs hi \<and> 16 \<le> lo \<and> hi < 2 ^ 64"

lemma layout_le: "layout lo bs hi \<Longrightarrow> lo \<le> hi"
  by (induction lo bs hi rule: layout.induct) auto

lemma layout_mem:
  "layout lo bs hi \<Longrightarrow> (a, s, f) \<in> set bs \<Longrightarrow> lo \<le> unat a \<and> unat a + 24 + unat s \<le> hi"
  by (induction lo bs hi rule: layout.induct) (auto dest: layout_le)

lemma layout_append:
  "layout lo (xs @ ys) hi \<longleftrightarrow> (\<exists>mid. layout lo xs mid \<and> layout mid ys hi)"
  by (induction lo xs hi rule: layout.induct) auto

lemma chain_upd: "(\<forall>s f. (a, s, f) \<notin> set bs) \<Longrightarrow> chain (m(a := n)) p bs = chain m p bs"
  by (induction m p bs rule: chain.induct) auto

lemma layout_fresh: "layout lo bs hi \<Longrightarrow> unat a < lo \<Longrightarrow> (a, s, f) \<notin> set bs"
  using layout_mem by fastforce

lemma set_node_simps [simp]:
  "nodes (set_node a n h) = (nodes h)(a := n)" "head (set_node a n h) = head h"
  by (simp_all add: set_node_def)

section \<open>Allocation refines first fit\<close>

lemma split_sizes:
  fixes sz s a :: u64
  assumes "sz \<le> s" "sz + 40 < s" "unat a + 24 + unat s < 2 ^ 64" "16 \<le> unat a"
  shows "unat (a + 24 + sz) = unat a + 24 + unat sz" "unat (s - sz - 24) = unat s - unat sz - 24"
    "unat sz + 40 < unat s"
proof -
  have le: "unat sz \<le> unat s" using assms(1) by (simp add: word_le_nat_alt)
  have small: "unat sz + 40 < 2 ^ 64" using le assms(3,4) by simp
  have s40: "unat (sz + 40) = unat sz + 40" using small by (subst unat_add_small) auto
  then show lt: "unat sz + 40 < unat s" using assms(2) by (simp add: word_less_nat_alt)
  have "unat (a + 24) = unat a + 24" using assms(3) by (subst unat_add_small) auto
  moreover have "unat (a + 24 + sz) = unat (a + 24) + unat sz"
    using assms(3) le calculation by (intro unat_add_small) auto
  ultimately show "unat (a + 24 + sz) = unat a + 24 + unat sz" by simp
  have "unat (s - sz) = unat s - unat sz" using assms(1) by (rule unat_sub_small)
  moreover have "24 \<le> s - sz"
    using lt calculation by (simp add: word_le_nat_alt)
  ultimately show "unat (s - sz - 24) = unat s - unat sz - 24" by (simp add: unat_sub_small)
qed

lemma kmalloc_loop_refines:
  assumes "chain (nodes h) p bs" "layout lo bs hi" "16 \<le> lo" "hi < 2 ^ 64"
    "first_fit sz bs = (r, bs')"
  shows "\<exists>h'. kmalloc_loop sz p h = Some (r, h') \<and> chain (nodes h') p bs' \<and> layout lo bs' hi \<and>
    head h' = head h \<and> (\<forall>a. unat a < lo \<longrightarrow> nodes h' a = nodes h a)"
  using assms
proof (induction bs arbitrary: p lo r bs')
  case Nil
  then show ?case by (subst kmalloc_loop.simps) auto
next
  case (Cons b bs)
  obtain a s f where b: "b = (a, s, f)" by (cases b) auto
  have ch: "p = a" "a \<noteq> 0" "hn_size (nodes h a) = s" "(hn_free (nodes h a) \<noteq> 0) = f"
    "chain (nodes h) (hn_next (nodes h a)) bs" and lay: "unat a = lo" "layout (lo + 24 + unat s) bs hi"
    using Cons.prems b by auto
  have hi: "unat a + 24 + unat s < 2 ^ 64" using layout_le[OF lay(2)] lay(1) Cons.prems by simp
  have a_fresh: "\<forall>s f. (a, s, f) \<notin> set bs" using layout_fresh[OF lay(2), of a] lay(1) by auto
  show ?case
  proof (cases "f \<and> sz \<le> s")
    case fits: True
    show ?thesis
    proof (cases "sz + 40 < s")
      case True
      have "16 \<le> unat a" using lay(1) Cons.prems(3) by simp
      note szs = split_sizes[OF conjunct2[OF fits] True hi this]
      let ?next = "a + 24 + sz"
      have nf: "\<forall>s f. (?next, s, f) \<notin> set bs"
        using layout_fresh[OF lay(2), of ?next] szs lay(1) by auto
      have ne: "?next \<noteq> a" "?next \<noteq> 0"
        using szs(1) unat_0 by (metis add_is_0 less_irrefl_nat not_add_less1 numeral_neq_zero
            add_less_cancel_left less_add_same_cancel1 zero_less_numeral trans_less_add1)+
      have bs': "r = a + 24" "bs' = (a, sz, False) # (?next, s - sz - 24, True) # bs"
        using Cons.prems(5) b fits True by auto
      have "layout lo bs' hi" using lay szs bs' by (simp add: algebra_simps)
      then show ?thesis
        using ch fits True bs' ne nf a_fresh lay(1) szs(1)
        by (subst kmalloc_loop.simps)
          (auto simp: sizeof_HeapNode_def Let_def chain_upd add.assoc)
    next
      case False
      then show ?thesis
        using ch fits b Cons.prems(5) a_fresh lay
        by (subst kmalloc_loop.simps)
          (auto simp: sizeof_HeapNode_def Let_def chain_upd add.assoc)
    qed
  next
    case False
    obtain bs1 where ff: "first_fit sz bs = (r, bs1)" "bs' = (a, s, f) # bs1"
      using Cons.prems(5) b False by (auto split: prod.splits)
    obtain h' where h': "kmalloc_loop sz (hn_next (nodes h a)) h = Some (r, h')"
      "chain (nodes h') (hn_next (nodes h a)) bs1" "layout (lo + 24 + unat s) bs1 hi"
      "head h' = head h" "\<forall>c. unat c < lo + 24 + unat s \<longrightarrow> nodes h' c = nodes h c"
      using Cons.IH[OF ch(5) lay(2) _ Cons.prems(4) ff(1)] by auto
    have "kmalloc_loop sz p h = Some (r, h')"
      using ch False h'(1) by (subst kmalloc_loop.simps) (auto simp: Let_def)
    then show ?thesis using h' ch lay ff by auto
  qed
qed

lemma kmalloc_refines:
  assumes "heap_rel lo hi h bs" "first_fit sz bs = (r, bs')"
  shows "\<exists>h'. kmalloc sz h = Some (r, h') \<and> heap_rel lo hi h' bs'"
  using kmalloc_loop_refines[of h "head h" bs lo hi sz r bs'] assms
  by (auto simp: heap_rel_def kmalloc_def)

text \<open>A free block of the size asked for; without one \<open>kmalloc\<close> walks the list and writes nothing.\<close>

definition fits :: "blk list \<Rightarrow> u64 \<Rightarrow> bool" where
  "fits bs sz \<longleftrightarrow> (\<exists>(a, s, f) \<in> set bs. f \<and> sz \<le> s)"

lemma fits_simps [simp]: "\<not> fits [] sz" "fits ((a, s, f) # bs) sz \<longleftrightarrow> f \<and> sz \<le> s \<or> fits bs sz"
  by (auto simp: fits_def)

lemma kmalloc_loop_full:
  "chain (nodes h) p bs \<Longrightarrow> \<not> fits bs sz \<Longrightarrow> kmalloc_loop sz p h = Some (0, h)"
proof (induction bs arbitrary: p)
  case Nil
  then show ?case by (subst kmalloc_loop.simps) simp
next
  case (Cons b bs)
  obtain a s f where b: "b = (a, s, f)" by (cases b) auto
  then have "kmalloc_loop sz (hn_next (nodes h a)) h = Some (0, h)" using Cons by simp
  then show ?case using Cons.prems b by (subst kmalloc_loop.simps) (auto simp: Let_def)
qed

lemma kmalloc_full: "heap_rel lo hi h bs \<Longrightarrow> \<not> fits bs sz \<Longrightarrow> kmalloc sz h = Some (0, h)"
  by (auto simp: kmalloc_def heap_rel_def intro: kmalloc_loop_full)

lemma first_fit_zero: "fst (first_fit sz bs) = 0 \<Longrightarrow> layout lo bs hi \<Longrightarrow> hi < 2 ^ 64 \<Longrightarrow> \<not> fits bs sz"
proof (induction bs arbitrary: lo)
  case (Cons b bs)
  obtain a s f where b: "b = (a, s, f)" by (cases b) auto
  have "unat a + 24 < 2 ^ 64" using layout_le[of "lo + 24 + unat s" bs hi] Cons.prems(2,3) b by simp
  then have "unat (a + 24) = unat a + 24" by (subst unat_add_small) auto
  then have "a + 24 \<noteq> 0" by (metis add_is_0 unat_0 zero_neq_numeral)
  then show ?case using Cons b by (auto split: if_splits prod.splits)
qed simp

section \<open>Release refines coalescing\<close>

lemma kfree_loop_refines:
  assumes "chain (nodes h) p bs" "layout lo bs hi" "hi < 2 ^ 64"
  shows "\<exists>h'. kfree_loop p h = Some h' \<and> chain (nodes h') p (coalesce bs) \<and>
    layout lo (coalesce bs) hi \<and> head h' = head h \<and> (\<forall>a. unat a < lo \<longrightarrow> nodes h' a = nodes h a)"
  using assms
proof (induction bs arbitrary: p lo h rule: coalesce.induct)
  case 1
  then show ?case by (subst kfree_loop.simps) auto
next
  case (2 b)
  obtain a s f where b: "b = (a, s, f)" by (cases b) auto
  have "hn_next (nodes h p) = 0" "p = a" using 2 b by auto
  then have "kfree_loop p h = Some h"
    using 2 b by (subst kfree_loop.simps) (auto simp: Let_def kfree_loop.simps[of 0])
  with 2 b show ?case by auto
next
  case (3 a s f b t g bs)
  have ch: "p = a" "a \<noteq> 0" "hn_size (nodes h a) = s" "(hn_free (nodes h a) \<noteq> 0) = f"
    "hn_next (nodes h a) = b" "b \<noteq> 0" "hn_size (nodes h b) = t" "(hn_free (nodes h b) \<noteq> 0) = g"
    "chain (nodes h) (hn_next (nodes h b)) bs" using 3(3) by auto
  have lay: "unat a = lo" "unat b = lo + 24 + unat s" "layout (lo + 24 + unat s + 24 + unat t) bs hi"
    using 3(4) by auto
  show ?case
  proof (cases "f \<and> g")
    case True
    have le: "lo + 24 + unat s + 24 + unat t \<le> hi" using layout_le[OF lay(3)] .
    have "unat (t + 24) = unat t + 24" using le 3(5) by (subst unat_add_small) auto
    then have sum: "unat (s + (t + 24)) = unat s + unat t + 24"
      using le 3(5) by (subst unat_add_small) auto
    have a_fresh: "\<forall>s f. (a, s, f) \<notin> set bs" using layout_fresh[OF lay(3), of a] lay(1) by auto
    let ?h = "set_node a ((nodes h a)\<lparr>hn_size := s + (t + 24), hn_next := hn_next (nodes h b)\<rparr>) h"
    have "chain (nodes ?h) p ((a, s + (t + 24), True) # bs)"
      using ch a_fresh True by (simp add: chain_upd)
    moreover have "layout lo ((a, s + (t + 24), True) # bs) hi"
      using lay sum by (simp add: algebra_simps)
    ultimately obtain h' where h': "kfree_loop p ?h = Some h'"
      "chain (nodes h') p (coalesce ((a, s + (t + 24), True) # bs))"
      "layout lo (coalesce ((a, s + (t + 24), True) # bs)) hi" "head h' = head ?h"
      "\<forall>c. unat c < lo \<longrightarrow> nodes h' c = nodes ?h c"
      using "3.IH"(1)[OF True, of ?h p lo] 3(5) by blast
    have "kfree_loop p h = kfree_loop p ?h"
      using ch True by (subst kfree_loop.simps) (simp add: Let_def sizeof_HeapNode_def)
    with h' lay True show ?thesis by auto
  next
    case False
    let ?bs = "(b, t, g) # bs"
    obtain h' where h': "kfree_loop b h = Some h'"
      "chain (nodes h') b (coalesce ?bs)" "layout (lo + 24 + unat s) (coalesce ?bs) hi"
      "head h' = head h" "\<forall>c. unat c < lo + 24 + unat s \<longrightarrow> nodes h' c = nodes h c"
      using "3.IH"(2)[OF False, of h b "lo + 24 + unat s"] ch lay 3(5) by auto
    have "kfree_loop p h = Some h'"
      using ch h' False by (subst kfree_loop.simps) (auto simp: Let_def)
    moreover have "nodes h' a = nodes h a" using h'(5) lay by simp
    ultimately show ?thesis using h' ch lay False by auto
  qed
qed

lemma layout_mark_free: "layout lo (mark_free p bs) hi = layout lo bs hi"
  by (induction lo bs hi rule: layout.induct) (auto simp: mark_free_def)

lemma chain_mark_free:
  assumes "chain m q bs" "layout lo bs hi" "(a, s, f) \<in> set bs" "m' = m(a := (m a)\<lparr>hn_free := 1\<rparr>)"
  shows "chain m' q (mark_free (a + 24) bs)"
  using assms
proof (induction bs arbitrary: q lo)
  case Nil
  then show ?case by simp
next
  case (Cons b bs)
  obtain c t g where b: "b = (c, t, g)" by (cases b) auto
  have ch: "q = c" "c \<noteq> 0" "hn_size (m c) = t" "(hn_free (m c) \<noteq> 0) = g" "chain m (hn_next (m c)) bs"
    and lay: "unat c = lo" "layout (lo + 24 + unat t) bs hi" using Cons.prems b by auto
  show ?case
  proof (cases "c = a")
    case True
    have fresh: "\<forall>s f. (a, s, f) \<notin> set bs" using layout_fresh[OF lay(2), of a] lay(1) True by auto
    then have "mark_free (a + 24) bs = bs" by (force simp: mark_free_def intro: map_idI)
    moreover have "chain m' (hn_next (m a)) bs"
      unfolding Cons.prems(4) using ch True fresh by (simp add: chain_upd del: fun_upd_apply)
    moreover have "mark_free (a + 24) (b # bs) = (a, t, True) # mark_free (a + 24) bs"
      using b True by (simp add: mark_free_def)
    ultimately show ?thesis using ch True Cons.prems(4) by simp
  next
    case False
    then have "(a, s, f) \<in> set bs" using Cons.prems b by auto
    then show ?thesis using Cons.IH[OF ch(5) lay(2)] False ch b Cons.prems(4)
      by (auto simp: mark_free_def)
  qed
qed

lemma kfree_refines:
  assumes "heap_rel lo hi h bs" "(a, s, f) \<in> set bs" "a + 24 \<noteq> 0"
  shows "\<exists>h'. kfree (a + 24) h = Some h' \<and> heap_rel lo hi h' (coalesce (mark_free (a + 24) bs))"
proof -
  let ?h = "set_node a ((nodes h a)\<lparr>hn_free := 1\<rparr>) h"
  have "chain (nodes ?h) (head h) (mark_free (a + 24) bs)"
    using assms chain_mark_free[of "nodes h" "head h" bs lo hi a s f] by (simp add: heap_rel_def)
  moreover have "layout lo (mark_free (a + 24) bs) hi"
    using assms by (simp add: heap_rel_def layout_mark_free)
  ultimately obtain h' where "kfree_loop (head h) ?h = Some h'"
    "chain (nodes h') (head h) (coalesce (mark_free (a + 24) bs))"
    "layout lo (coalesce (mark_free (a + 24) bs)) hi" "head h' = head ?h"
    using kfree_loop_refines[of ?h "head h" "mark_free (a + 24) bs" lo hi] assms(1)
    by (auto simp: heap_rel_def)
  then show ?thesis
    using assms by (auto simp: kfree_def heap_rel_def Let_def sizeof_HeapNode_def)
qed

lemma Heap_Init_rel:
  assumes "16 \<le> unat addr" "24 \<le> unat sz" "unat addr + unat sz < 2 ^ 64"
  shows "heap_rel (unat addr) (unat addr + unat sz) (Heap_Init addr sz h)
    [(addr, sz - 24, True)]"
proof -
  have "unat (sz - 24) = unat sz - 24"
    using assms by (intro unat_sub_small[THEN trans]) (auto simp: word_le_nat_alt)
  moreover have "addr \<noteq> 0" using assms(1) by auto
  ultimately show ?thesis
    using assms by (auto simp: heap_rel_def Heap_Init_def sizeof_HeapNode_def)
qed

section \<open>Live blocks\<close>

definition live :: "blk list \<Rightarrow> (u64 \<times> nat) set" where
  "live bs = {(a + 24, unat s) | a s. (a, s, False) \<in> set bs}"

lemma live_simps [simp]:
  "live [] = {}" "live ((a, s, True) # bs) = live bs"
  "live ((a, s, False) # bs) = insert (a + 24, unat s) (live bs)"
  by (auto simp: live_def)

lemma live_Cons: "live ((a, s, f) # bs) = (if f then live bs else insert (a + 24, unat s) (live bs))"
  by simp

lemma live_coalesce: "live (coalesce bs) = live bs"
  by (induction bs rule: coalesce.induct) (auto simp: live_Cons)

lemma unat_payload:
  "layout lo bs hi \<Longrightarrow> hi < 2 ^ 64 \<Longrightarrow> (a, s, f) \<in> set bs \<Longrightarrow> unat (a + 24) = unat a + 24"
  using layout_mem[of lo bs hi a s f] by (subst unat_add_small) auto

lemma live_bounds:
  assumes "layout lo bs hi" "hi < 2 ^ 64" "(p, m) \<in> live bs"
  shows "lo + 24 \<le> unat p" "unat p + m \<le> hi"
proof -
  obtain a s where a: "(a, s, False) \<in> set bs" "p = a + 24" "m = unat s"
    using assms(3) by (auto simp: live_def)
  with layout_mem[OF assms(1) a(1)] unat_payload[OF assms(1,2) a(1)]
  show "lo + 24 \<le> unat p" "unat p + m \<le> hi" by auto
qed

lemma live_disjoint:
  assumes "layout lo bs hi" "hi < 2 ^ 64" "(p, m) \<in> live bs" "(q, k) \<in> live bs" "(p, m) \<noteq> (q, k)"
  shows "unat p + m < unat q \<or> unat q + k < unat p"
  using assms
proof (induction bs arbitrary: lo)
  case Nil
  then show ?case by simp
next
  case (Cons b bs)
  obtain a s f where b: "b = (a, s, f)" by (cases b) auto
  have lay: "unat a = lo" "layout (lo + 24 + unat s) bs hi" using Cons.prems b by auto
  have a24: "unat (a + 24) = lo + 24" using unat_payload[OF Cons.prems(1,2), of a s f] b lay by simp
  show ?case
  proof (cases "(p, m) \<in> live bs \<and> (q, k) \<in> live bs")
    case True
    with Cons.IH[OF lay(2)] Cons.prems show ?thesis by blast
  next
    case False
    then show ?thesis
      using Cons.prems(3-5) b a24 live_bounds(1)[OF lay(2) Cons.prems(2), of p m]
        live_bounds(1)[OF lay(2) Cons.prems(2), of q k]
      by (auto simp: live_Cons split: if_splits)
  qed
qed

lemma live_mark_free:
  assumes "layout lo bs hi" "hi < 2 ^ 64" "(p, m) \<in> live bs"
  shows "live (mark_free p bs) = live bs - {(p, m)}"
proof -
  have sub: "live (mark_free p bs) = {x \<in> live bs. fst x \<noteq> p}"
    by (force simp: live_def mark_free_def)
  have "fst x \<noteq> p" if x: "x \<in> live bs" "x \<noteq> (p, m)" for x
  proof
    assume "fst x = p"
    with x obtain k where "x = (p, k)" "k \<noteq> m" by (cases x) auto
    with live_disjoint[OF assms(1,2), of p k p m] x assms(3) show False by auto
  qed
  with sub show ?thesis by auto
qed

lemma first_fit_live:
  assumes "layout lo bs hi" "hi < 2 ^ 64" "first_fit sz bs = (r, bs')" "16 \<le> lo"
  shows "(r = 0 \<and> bs' = bs \<and> (\<forall>a s. (a, s, True) \<in> set bs \<longrightarrow> s < sz)) \<or>
    (r \<noteq> 0 \<and> (\<exists>m. unat sz \<le> m \<and> live bs' = insert (r, m) (live bs)) \<and> lo + 24 \<le> unat r)"
  using assms
proof (induction bs arbitrary: lo r bs')
  case Nil
  then show ?case by simp
next
  case (Cons b bs)
  obtain a s f where b: "b = (a, s, f)" by (cases b) auto
  have lay: "unat a = lo" "layout (lo + 24 + unat s) bs hi" using Cons.prems b by auto
  have a24: "unat (a + 24) = lo + 24" using unat_payload[OF Cons.prems(1,2), of a s f] b lay by simp
  then have nz: "a + 24 \<noteq> 0" by (metis add_is_0 unat_0 zero_neq_numeral)
  show ?case
  proof (cases "f \<and> sz \<le> s")
    case True
    then show ?thesis
      using Cons.prems(3) b a24 nz by (auto simp: word_le_nat_alt split: if_splits)
  next
    case False
    then obtain bs1 where ff: "first_fit sz bs = (r, bs1)" "bs' = (a, s, f) # bs1"
      using Cons.prems(3) b by (auto split: prod.splits)
    with Cons.IH[OF lay(2) Cons.prems(2) ff(1)] Cons.prems(4) False b show ?thesis
      by (auto simp: live_Cons not_le)
  qed
qed

lemma first_fit_new:
  assumes "layout lo bs hi" "hi < 2 ^ 64" "first_fit sz bs = (r, bs')" "r \<noteq> 0"
  shows "(r, m) \<notin> live bs"
  using assms
proof (induction bs arbitrary: lo bs')
  case Nil
  then show ?case by simp
next
  case (Cons b bs)
  obtain a s f where b: "b = (a, s, f)" by (cases b) auto
  have lay: "unat a = lo" "layout (lo + 24 + unat s) bs hi" using Cons.prems b by auto
  have a24: "unat (a + 24) = lo + 24" using unat_payload[OF Cons.prems(1,2), of a s f] b lay by simp
  have notin: "(a + 24, k) \<notin> live bs" for k
    using live_bounds(1)[OF lay(2) Cons.prems(2), of "a + 24" k] a24 by auto
  show ?case
  proof (cases "f \<and> sz \<le> s")
    case True
    then show ?thesis using Cons.prems(3) b notin by (auto split: if_splits)
  next
    case False
    then obtain bs1 where ff: "first_fit sz bs = (r, bs1)" "bs' = (a, s, f) # bs1"
      using Cons.prems(3) b by (auto split: prod.splits)
    have "\<exists>c t. (c, t, True) \<in> set bs \<and> r = c + 24" using ff(1) Cons.prems(4)
      by (induction bs arbitrary: bs1) (fastforce split: if_splits prod.splits)+
    then obtain c t where c: "(c, t, True) \<in> set bs" "r = c + 24" by auto
    have "unat r = unat c + 24" "lo + 24 + unat s \<le> unat c"
      using unat_payload[OF lay(2) Cons.prems(2) c(1)] layout_mem[OF lay(2) c(1)] c(2) by auto
    then have "r \<noteq> a + 24" using a24 by auto
    with Cons.IH[OF lay(2) Cons.prems(2) ff(1) Cons.prems(4)] b show ?thesis
      by (auto simp: live_Cons)
  qed
qed

section \<open>The heap interface\<close>

text \<open>
  What a client of the kernel heap relies on: the calls return; a non-NULL result is a new
  block of at least the requested size; live blocks are pairwise disjoint byte ranges; freeing
  a live block removes exactly that block. \<open>rel\<close> relates the heap to a ghost description.
\<close>

locale byte_heap =
  fixes malloc :: "u64 \<Rightarrow> 'h \<Rightarrow> (u64 \<times> 'h) option"
    and mfree :: "u64 \<Rightarrow> 'h \<Rightarrow> 'h option"
    and rel :: "'h \<Rightarrow> 'b \<Rightarrow> bool"
    and blocks :: "'b \<Rightarrow> (u64 \<times> nat) set"
    and range :: "'b \<Rightarrow> nat \<times> nat"
  assumes malloc_spec: "rel h b \<Longrightarrow> \<exists>p h' b'. malloc n h = Some (p, h') \<and> rel h' b' \<and> range b' = range b \<and>
      (if p = 0 then blocks b' = blocks b
       else \<exists>m. unat n \<le> m \<and> (p, m) \<notin> blocks b \<and> blocks b' = insert (p, m) (blocks b))"
    and blocks_apart: "rel h b \<Longrightarrow> (p, m) \<in> blocks b \<Longrightarrow> (q, k) \<in> blocks b \<Longrightarrow> (p, m) \<noteq> (q, k) \<Longrightarrow>
      unat p + m < unat q \<or> unat q + k < unat p"
    and blocks_bounds: "rel h b \<Longrightarrow> (p, m) \<in> blocks b \<Longrightarrow>
      p \<noteq> 0 \<and> fst (range b) \<le> unat p \<and> unat p + m \<le> snd (range b) \<and> snd (range b) < 2 ^ 64"
    and mfree_spec: "rel h b \<Longrightarrow> (p, m) \<in> blocks b \<Longrightarrow>
      \<exists>h' b'. mfree p h = Some h' \<and> rel h' b' \<and> range b' = range b \<and> blocks b' = blocks b - {(p, m)}"
begin

lemma malloc_returns: "rel h b \<Longrightarrow> malloc n h \<noteq> None"
  using malloc_spec[of h b n] by auto

lemma malloc_new_apart:
  assumes "rel h b" "malloc n h = Some (p, h')" "p \<noteq> 0"
  obtains b' m where "rel h' b'" "range b' = range b" "unat n \<le> m" "blocks b' = insert (p, m) (blocks b)"
    "\<And>q k. (q, k) \<in> blocks b \<Longrightarrow> unat p + m < unat q \<or> unat q + k < unat p"
    "fst (range b) \<le> unat p" "unat p + m \<le> snd (range b)" "snd (range b) < 2 ^ 64"
proof -
  obtain b' m where b': "rel h' b'" "range b' = range b" "unat n \<le> m" "(p, m) \<notin> blocks b"
    "blocks b' = insert (p, m) (blocks b)"
    using malloc_spec[OF assms(1), of n] assms by auto
  have "unat p + m < unat q \<or> unat q + k < unat p" if "(q, k) \<in> blocks b" for q k
    using blocks_apart[OF b'(1), of p m q k] that b' by auto
  moreover have "fst (range b) \<le> unat p" "unat p + m \<le> snd (range b)" "snd (range b) < 2 ^ 64"
    using blocks_bounds[OF b'(1), of p m] b' by auto
  ultimately show thesis using that b' by blast
qed

lemma malloc_null:
  "rel h b \<Longrightarrow> malloc n h = Some (0, h') \<Longrightarrow> \<exists>b'. rel h' b' \<and> range b' = range b \<and> blocks b' = blocks b"
  using malloc_spec[of h b n] by auto

end

text \<open>The ghost of the VexOS heap: the managed range and the block list.\<close>

type_synonym heap_ghost = "nat \<times> nat \<times> blk list"

definition kheap_rel :: "kheap \<Rightarrow> heap_ghost \<Rightarrow> bool" where
  "kheap_rel h g = (case g of (lo, hi, bs) \<Rightarrow> heap_rel lo hi h bs)"

definition ghost_live :: "heap_ghost \<Rightarrow> (u64 \<times> nat) set" where
  "ghost_live g = (case g of (lo, hi, bs) \<Rightarrow> live bs)"

definition ghost_range :: "heap_ghost \<Rightarrow> nat \<times> nat" where
  "ghost_range g = (case g of (lo, hi, bs) \<Rightarrow> (lo, hi))"

interpretation kh: byte_heap kmalloc kfree kheap_rel ghost_live ghost_range
proof unfold_locales
  fix h :: kheap and g :: heap_ghost and n p q :: u64 and m k :: nat
  obtain lo hi bs where g: "g = (lo, hi, bs)" by (cases g) auto
  assume "kheap_rel h g"
  then have hr: "heap_rel lo hi h bs" by (simp add: kheap_rel_def g)
  then have lay: "layout lo bs hi" "hi < 2 ^ 64" "16 \<le> lo" by (auto simp: heap_rel_def)
  show "\<exists>p h' b'. kmalloc n h = Some (p, h') \<and> kheap_rel h' b' \<and> ghost_range b' = ghost_range g \<and>
      (if p = 0 then ghost_live b' = ghost_live g
       else \<exists>m. unat n \<le> m \<and> (p, m) \<notin> ghost_live g \<and> ghost_live b' = insert (p, m) (ghost_live g))"
  proof -
    obtain r bs' where ff: "first_fit n bs = (r, bs')" by fastforce
    obtain h' where h': "kmalloc n h = Some (r, h')" "heap_rel lo hi h' bs'"
      using kmalloc_refines[OF hr ff] by auto
    have "kheap_rel h' (lo, hi, bs')" using h' by (simp add: kheap_rel_def)
    moreover have "if r = 0 then live bs' = live bs
      else \<exists>m. unat n \<le> m \<and> (r, m) \<notin> live bs \<and> live bs' = insert (r, m) (live bs)"
      using first_fit_live[OF lay(1,2) ff lay(3)] first_fit_new[OF lay(1,2) ff] by auto
    ultimately show ?thesis
      using h'(1) by (intro exI[of _ r] exI[of _ h'] exI[of _ "(lo, hi, bs')"])
        (simp add: ghost_live_def ghost_range_def g)
  qed
  show "(p, m) \<in> ghost_live g \<Longrightarrow> (q, k) \<in> ghost_live g \<Longrightarrow> (p, m) \<noteq> (q, k) \<Longrightarrow>
      unat p + m < unat q \<or> unat q + k < unat p"
    using live_disjoint[OF lay(1,2)] by (simp add: ghost_live_def g)
  show "p \<noteq> 0 \<and> fst (ghost_range g) \<le> unat p \<and> unat p + m \<le> snd (ghost_range g) \<and>
      snd (ghost_range g) < 2 ^ 64" if "(p, m) \<in> ghost_live g"
    using live_bounds[OF lay(1,2), of p m] lay that by (auto simp: ghost_live_def ghost_range_def g)
  show "\<exists>h' b'. kfree p h = Some h' \<and> kheap_rel h' b' \<and> ghost_range b' = ghost_range g \<and>
      ghost_live b' = ghost_live g - {(p, m)}" if live: "(p, m) \<in> ghost_live g"
  proof -
    from live have l: "(p, m) \<in> live bs" by (simp add: ghost_live_def g)
    then obtain a s where a: "(a, s, False) \<in> set bs" "p = a + 24" by (auto simp: live_def)
    have "p \<noteq> 0" using live_bounds(1)[OF lay(1,2) l] by auto
    then obtain h' where h': "kfree p h = Some h'" "heap_rel lo hi h' (coalesce (mark_free p bs))"
      using kfree_refines[OF hr a(1)] a(2) by auto
    then show ?thesis
      using live_mark_free[OF lay(1,2) l]
      by (intro exI[of _ h'] exI[of _ "(lo, hi, coalesce (mark_free p bs))"])
        (simp add: kheap_rel_def ghost_live_def ghost_range_def g live_coalesce)
  qed
qed

section \<open>Merged heaps\<close>

text \<open>No two neighbouring free blocks: the state \<open>kfree\<close> leaves and \<open>Heap_Init\<close> starts from.\<close>

fun merged :: "blk list \<Rightarrow> bool" where
  "merged ((a, s, f) # (b, t, g) # bs) = (\<not> (f \<and> g) \<and> merged ((b, t, g) # bs))"
| "merged _ = True"

lemma merged_coalesce: "merged (coalesce bs)"
proof (induction bs rule: coalesce.induct)
  case (3 a s f b t g bs)
  show ?case
  proof (cases "f \<and> g")
    case True
    with "3.IH"(1) show ?thesis by simp
  next
    case False
    have "\<exists>t' bs'. coalesce ((b, t, g) # bs) = (b, t', g) # bs'"
      by (induction "(b, t, g) # bs" arbitrary: t bs rule: coalesce.induct) auto
    with "3.IH"(2)[OF False] False show ?thesis by auto
  qed
qed simp_all

lemma coalesce_merged: "merged bs \<Longrightarrow> coalesce bs = bs"
  by (induction bs rule: coalesce.induct) auto

lemma mark_free_other:
  "layout lo bs hi \<Longrightarrow> hi < 2 ^ 64 \<Longrightarrow> unat r < lo + 24 \<Longrightarrow> mark_free r bs = bs"
  unfolding mark_free_def
proof (rule map_idI)
  fix x assume lay: "layout lo bs hi" "hi < 2 ^ 64" "unat r < lo + 24" and x: "x \<in> set bs"
  obtain a s f where a: "x = (a, s, f)" by (cases x) auto
  have "a + 24 \<noteq> r" using unat_payload[OF lay(1,2)] layout_mem[OF lay(1)] x a lay(3) by force
  with a show "(\<lambda>(a, s, f). (a, s, f \<or> a + 24 = r)) x = x" by simp
qed

lemma first_fit_undo:
  assumes "merged bs" "layout lo bs hi" "hi < 2 ^ 64" "16 \<le> lo" "first_fit sz bs = (r, bs')" "r \<noteq> 0"
  shows "coalesce (mark_free r bs') = bs"
  using assms
proof (induction bs arbitrary: lo bs')
  case Nil
  then show ?case by simp
next
  case (Cons b bs)
  obtain a s f where b: "b = (a, s, f)" by (cases b) auto
  have lay: "unat a = lo" "layout (lo + 24 + unat s) bs hi" using Cons.prems b by auto
  have a24: "unat (a + 24) = lo + 24"
    using unat_payload[OF Cons.prems(2,3), of a s f] b lay by simp
  have mg: "merged bs" using Cons.prems(1) by (cases bs) (auto simp: b elim: merged.elims)
  show ?case
  proof (cases "f \<and> sz \<le> s")
    case True
    have same: "mark_free (a + 24) bs = bs"
      using mark_free_other[OF lay(2) Cons.prems(3)] a24 by simp
    have "(s - sz - 24) + 24 + sz = s" by (simp add: algebra_simps)
    then have "sz + (s - sz - 24 + 24) = s" by (metis add.commute)
    moreover have "mark_free (a + 24) ((x, y, z) # bs) = (x, y, z \<or> x = a) # bs" for x y z
      using same by (simp add: mark_free_def)
    moreover have "bs' = (if sz + 40 < s then (a, sz, False) # (a + 24 + sz, s - sz - 24, True) # bs
      else (a, s, False) # bs)" "r = a + 24"
      using Cons.prems(5) b True by auto
    ultimately show ?thesis
      using Cons.prems(1) b True by (auto simp: mark_free_def coalesce_merged)
  next
    case False
    then obtain bs1 where ff: "first_fit sz bs = (r, bs1)" "bs' = (a, s, f) # bs1"
      using Cons.prems(5) b by (auto split: prod.splits)
    have IH: "coalesce (mark_free r bs1) = bs"
      using Cons.IH[OF mg lay(2) Cons.prems(3) _ ff(1) Cons.prems(6)] Cons.prems(4) by simp
    have "unat r \<ge> lo + 48" using first_fit_live[OF lay(2) Cons.prems(3) ff(1)] Cons.prems(4,6) by auto
    then have ne: "a + 24 \<noteq> r" using a24 by auto
    have "coalesce ((a, s, f) # mark_free r bs1) = (a, s, f) # coalesce (mark_free r bs1)"
    proof (cases "mark_free r bs1")
      case (Cons c cs)
      obtain d t g where c: "c = (d, t, g)" by (cases c) auto
      have hd: "\<exists>t' cs'. coalesce (c # cs) = (d, t', g) # cs'"
        unfolding c by (induction "(d, t, g) # cs" arbitrary: t cs rule: coalesce.induct) auto
      with IH Cons obtain t' cs' where "bs = (d, t', g) # cs'" by auto
      then have ng: "\<not> (f \<and> g)" using Cons.prems(1) b by auto
      show ?thesis unfolding Cons c coalesce.simps(3) using ng by (simp only: if_False)
    qed simp
    with IH ff ne b show ?thesis by (simp add: mark_free_def)
  qed
qed

section \<open>Properties\<close>

definition heap_example :: kheap where
  "heap_example = Heap_Init 0x1000 0x100 \<lparr>nodes = (\<lambda>a. \<lparr>hn_size = 0, hn_next = 0, hn_free = 0\<rparr>), head = 0\<rparr>"

lemma heap_example_rel: "heap_rel 0x1000 0x1100 heap_example [(0x1000, 0xE8, True)]"
  using Heap_Init_rel[of "0x1000" "0x100"] by (simp add: heap_example_def)

lemma heap_example_malloc:
  "first_fit 64 [(0x1000, 0xE8, True)] = (0x1018, [(0x1000, 64, False), (0x1058, 144, True)])"
  by simp

text \<open>
  C4. kmalloc on the linked list of headers implements first fit on the list of blocks: it
  returns, with the address first fit computes (0 when no free block is large enough), and the
  new list represents the new block list.
\<close>

theorem kmalloc_first_fit:
  assumes "heap_rel lo hi h bs"
  shows "case first_fit sz bs of (r, bs') \<Rightarrow> \<exists>h'. kmalloc sz h = Some (r, h') \<and> heap_rel lo hi h' bs'"
  using kmalloc_refines[OF assms] by (auto split: prod.splits)

theorem kmalloc_first_fit_witness:
  "\<exists>h'. kmalloc 64 heap_example = Some (0x1018, h') \<and>
     heap_rel 0x1000 0x1100 h' [(0x1000, 64, False), (0x1058, 144, True)]"
  using kmalloc_first_fit[OF heap_example_rel, of 64] by simp

text \<open>
  C5. A non-NULL result of kmalloc is a block of at least the requested size, inside the managed
  region and disjoint from every live block, the others being kept; NULL is returned exactly
  when no free block is large enough, and then the heap is unchanged, headers included.
\<close>

theorem kmalloc_blocks_apart:
  assumes "heap_rel lo hi h bs"
  shows "if fits bs sz
    then \<exists>r h' bs' m. kmalloc sz h = Some (r, h') \<and> heap_rel lo hi h' bs' \<and> r \<noteq> 0 \<and> unat sz \<le> m \<and>
      live bs' = insert (r, m) (live bs) \<and> lo < unat r \<and> unat r + m \<le> hi \<and>
      (\<forall>q k. (q, k) \<in> live bs \<longrightarrow> unat r + m < unat q \<or> unat q + k < unat r)
    else kmalloc sz h = Some (0, h)"
proof (cases "fits bs sz")
  case True
  obtain r bs' where ff: "first_fit sz bs = (r, bs')" by fastforce
  obtain h' where h': "kmalloc sz h = Some (r, h')" "heap_rel lo hi h' bs'"
    using kmalloc_refines[OF assms ff] by auto
  have lay: "layout lo bs hi" "layout lo bs' hi" "hi < 2 ^ 64" "16 \<le> lo" using assms h'(2) by (auto simp: heap_rel_def)
  have nz: "r \<noteq> 0" using first_fit_zero[OF _ lay(1,3), of sz] ff True by auto
  then obtain m where m: "unat sz \<le> m" "live bs' = insert (r, m) (live bs)" "lo < unat r"
    using first_fit_live[OF lay(1,3) ff lay(4)] by auto
  have "unat r + m < unat q \<or> unat q + k < unat r" if "(q, k) \<in> live bs" for q k
    using live_disjoint[OF lay(2,3), of r m q k] first_fit_new[OF lay(1,3) ff nz, of m] that m(2) by auto
  moreover have "unat r + m \<le> hi" using live_bounds[OF lay(2,3), of r m] m(2) by simp
  ultimately show ?thesis
    using True nz h' m by (simp only: if_True) blast
next
  case False
  then show ?thesis using kmalloc_full[OF assms] by simp
qed

theorem kmalloc_blocks_apart_witness:
  "\<exists>h r h' m. heap_rel 0x1000 0x1100 h [(0x1000, 64, False), (0x1058, 144, True)] \<and>
     kmalloc 100 h = Some (r, h') \<and> r \<noteq> 0 \<and> 100 \<le> m \<and> unat r + m \<le> 0x1100 \<and>
     (unat r + m < 0x1018 \<or> 0x1018 + 64 < unat r) \<and> kmalloc 145 h = Some (0, h)"
proof -
  obtain h where h: "heap_rel 0x1000 0x1100 h [(0x1000, 64, False), (0x1058, 144, True)]"
    using kmalloc_refines[OF heap_example_rel heap_example_malloc] by auto
  have l: "(0x1018, 64) \<in> live [(0x1000, 64, False), (0x1058, 144, True)]" by (simp add: live_Cons)
  obtain r h' m where r: "kmalloc 100 h = Some (r, h')" "r \<noteq> 0" "100 \<le> m" "unat r + m \<le> 0x1100"
    "\<forall>q k. (q, k) \<in> live [(0x1000, 64, False), (0x1058, 144, True)] \<longrightarrow> unat r + m < unat q \<or> unat q + k < unat r"
    using kmalloc_blocks_apart[OF h, of 100] by auto
  have "kmalloc 145 h = Some (0, h)" using kmalloc_blocks_apart[OF h, of 145] by simp
  moreover have "unat r + m < 0x1018 \<or> 0x1018 + 64 < unat r" using r(5) l by fastforce
  ultimately show ?thesis using h r(1-4) by blast
qed

text \<open>
  C6. kfree of a live block returns, removes exactly that block from the live ones and leaves a
  well-formed heap in which no two neighbouring blocks are free.
\<close>

theorem kfree_coalesces:
  assumes "heap_rel lo hi h bs" "(p, m) \<in> live bs"
  shows "\<exists>h' bs'. kfree p h = Some h' \<and> heap_rel lo hi h' bs' \<and> merged bs' \<and> live bs' = live bs - {(p, m)}"
proof -
  have lay: "layout lo bs hi" "hi < 2 ^ 64" using assms(1) by (auto simp: heap_rel_def)
  obtain a s where a: "(a, s, False) \<in> set bs" "p = a + 24" using assms(2) by (auto simp: live_def)
  have "p \<noteq> 0" using live_bounds(1)[OF lay assms(2)] by auto
  with kfree_refines[OF assms(1) a(1)] a(2) obtain h' where
    "kfree p h = Some h'" "heap_rel lo hi h' (coalesce (mark_free p bs))" by auto
  with live_mark_free[OF lay assms(2)] merged_coalesce[of "mark_free p bs"] show ?thesis
    by (intro exI[of _ h'] exI[of _ "coalesce (mark_free p bs)"]) (simp add: live_coalesce)
qed

theorem kfree_coalesces_witness:
  "\<exists>h h' bs'. heap_rel 0x1000 0x1100 h [(0x1000, 64, False), (0x1058, 144, True)] \<and>
     kfree 0x1018 h = Some h' \<and> heap_rel 0x1000 0x1100 h' bs' \<and> merged bs' \<and> live bs' = {}"
proof -
  obtain h where h: "heap_rel 0x1000 0x1100 h [(0x1000, 64, False), (0x1058, 144, True)]"
    using kmalloc_refines[OF heap_example_rel heap_example_malloc] by auto
  moreover have "live [(0x1000, 64, False), (0x1058, 144, True)] = {(0x1018, 64)}" by (auto simp: live_def)
  ultimately show ?thesis using kfree_coalesces[OF h, of "0x1018" 64] by auto
qed

text \<open>
  On a heap without neighbouring free blocks, freeing what kmalloc just returned gives back
  the block list there was before.
\<close>

theorem kfree_undoes_kmalloc:
  assumes "heap_rel lo hi h bs" "merged bs" "kmalloc sz h = Some (r, h1)" "r \<noteq> 0"
  shows "\<exists>h2. kfree r h1 = Some h2 \<and> heap_rel lo hi h2 bs"
proof -
  obtain r' bs' where ff: "first_fit sz bs = (r', bs')" by fastforce
  with kmalloc_refines[OF assms(1) ff] assms(3) have h1: "r' = r" "heap_rel lo hi h1 bs'" by auto
  have lay: "layout lo bs hi" "hi < 2 ^ 64" "16 \<le> lo" using assms(1) by (auto simp: heap_rel_def)
  from first_fit_live[OF lay(1,2) ff lay(3)] h1(1) assms(4) obtain m where "(r, m) \<in> live bs'" by auto
  then obtain a s where a: "(a, s, False) \<in> set bs'" "r = a + 24" by (auto simp: live_def)
  with kfree_refines[OF h1(2) a(1)] assms(4) first_fit_undo[OF assms(2) lay ff] h1(1) show ?thesis by auto
qed

theorem kfree_undoes_kmalloc_witness:
  "\<exists>h1 h2. kmalloc 64 heap_example = Some (0x1018, h1) \<and> kfree 0x1018 h1 = Some h2 \<and>
     heap_rel 0x1000 0x1100 h2 [(0x1000, 0xE8, True)]"
proof -
  obtain h1 where "kmalloc 64 heap_example = Some (0x1018, h1)"
    using kmalloc_refines[OF heap_example_rel heap_example_malloc] by auto
  with kfree_undoes_kmalloc[OF heap_example_rel _ this] show ?thesis by simp
qed

end
