(* ===== verification/Vmm.thy ===== *)
theory Vmm
  imports Pmm
begin

text \<open>
  The page-table code \<open>src/kernel/mem/vmm.c\<close>. Physical memory holds the page tables as 64-bit
  cells (\<open>vm_mem\<close>, addressed in bytes; the code only touches 8-byte aligned cells), \<open>vm_pmm\<close> is
  the frame allocator the code draws new tables from, \<open>vm_cr3\<close> the register \<open>VMM_Activate\<close>
  loads and \<open>vm_invlpg\<close> the addresses flushed, latest first. The three blocks of \<open>VMM_MapPage\<close>
  that descend one level are one definition, \<open>vmm_descend\<close>.

  The specification is the walk of the four-level tables, \<open>walk\<close>, and the invariant
  \<open>vmm_wf\<close>: the tables reachable from the root form a tree of distinct frames that the
  allocator has handed out.
\<close>

section \<open>State and operations\<close>

record vmm =
  vm_pmm :: pmm
  vm_mem :: "u64 \<Rightarrow> u64"
  kernel_pml4 :: u64
  vm_cr3 :: u64
  vm_invlpg :: "u64 list"

definition PAGE_PRESENT :: u64 where "PAGE_PRESENT = 1"
definition PAGE_WRITE :: u64 where "PAGE_WRITE = 2"
definition PAGE_USER :: u64 where "PAGE_USER = 4"

definition entry :: "u64 \<Rightarrow> nat \<Rightarrow> u64" where
  "entry t i = t + of_nat (8 * i)"

definition clear_page :: "u64 \<Rightarrow> (u64 \<Rightarrow> u64) \<Rightarrow> (u64 \<Rightarrow> u64)" where
  "clear_page addr m = fold (\<lambda>i m. m(entry addr i := 0)) [0..<512] m"

definition VMM_Init :: "vmm \<Rightarrow> vmm" where
  "VMM_Init s =
     (let (t, p) = PMM_AllocatePage (vm_pmm s) in
      s\<lparr>vm_pmm := p, kernel_pml4 := t, vm_mem := clear_page t (vm_mem s)\<rparr>)"

definition table_of :: "u64 \<Rightarrow> u64" where
  "table_of e = e AND NOT 0xFFF"

definition vmm_descend :: "u64 \<Rightarrow> u64 \<Rightarrow> u64 \<Rightarrow> nat \<Rightarrow> vmm \<Rightarrow> u64 \<times> vmm" where
  "vmm_descend flags table_flags t i s =
     (let e = vm_mem s (entry t i);
          s1 = (if e AND PAGE_PRESENT = 0 then
                  let (new_table, p) = PMM_AllocatePage (vm_pmm s);
                      m = clear_page new_table (vm_mem s)
                  in s\<lparr>vm_pmm := p, vm_mem := m(entry t i := new_table OR table_flags)\<rparr>
                else if flags AND PAGE_USER \<noteq> 0 then
                  s\<lparr>vm_mem := (vm_mem s)(entry t i := e OR PAGE_USER)\<rparr>
                else s)
      in (table_of (vm_mem s1 (entry t i)), s1))"

definition vidx :: "nat \<Rightarrow> u64 \<Rightarrow> nat" where
  "vidx sh v = unat (drop_bit sh v AND 0x1FF)"

definition VMM_MapPage :: "u64 \<Rightarrow> u64 \<Rightarrow> u64 \<Rightarrow> vmm \<Rightarrow> vmm" where
  "VMM_MapPage v p flags s =
     (let table_flags = (if flags AND PAGE_USER \<noteq> 0 then (PAGE_PRESENT OR PAGE_WRITE) OR PAGE_USER
                         else PAGE_PRESENT OR PAGE_WRITE);
          (pdp, s1) = vmm_descend flags table_flags (kernel_pml4 s) (vidx 39 v) s;
          (pd, s2) = vmm_descend flags table_flags pdp (vidx 30 v) s1;
          (pt, s3) = vmm_descend flags table_flags pd (vidx 21 v) s2
      in s3\<lparr>vm_mem := (vm_mem s3)(entry pt (vidx 12 v) := p OR flags OR PAGE_PRESENT),
            vm_invlpg := v # vm_invlpg s3\<rparr>)"

definition VMM_Activate :: "vmm \<Rightarrow> vmm" where
  "VMM_Activate s = s\<lparr>vm_cr3 := kernel_pml4 s\<rparr>"

definition VMM_GetKernelPML4 :: "vmm \<Rightarrow> u64" where
  "VMM_GetKernelPML4 s = kernel_pml4 s"

section \<open>The walk and the invariant\<close>

fun table_at :: "(u64 \<Rightarrow> u64) \<Rightarrow> u64 \<Rightarrow> nat list \<Rightarrow> u64 option" where
  "table_at m t [] = Some t"
| "table_at m t (i # is) =
     (let e = m (entry t i) in
      if e AND PAGE_PRESENT = 0 then None else table_at m (table_of e) is)"

definition vpath :: "u64 \<Rightarrow> nat list" where
  "vpath v = [vidx 39 v, vidx 30 v, vidx 21 v]"

definition walk :: "(u64 \<Rightarrow> u64) \<Rightarrow> u64 \<Rightarrow> u64 \<Rightarrow> u64 option" where
  "walk m root v =
     (case table_at m root (vpath v) of
        None \<Rightarrow> None
      | Some pt \<Rightarrow> let e = m (entry pt (vidx 12 v)) in if e AND PAGE_PRESENT = 0 then None else Some e)"

definition paths :: "nat list set" where
  "paths = {q. length q \<le> 3 \<and> (\<forall>i \<in> set q. i < 512)}"

definition vmm_wf :: "vmm \<Rightarrow> bool" where
  "vmm_wf s \<longleftrightarrow> pmm_wf (vm_pmm s) \<and>
     (\<forall>q \<in> paths. \<forall>a. table_at (vm_mem s) (kernel_pml4 s) q = Some a \<longrightarrow>
        a \<in> managed (vm_pmm s) \<and> a \<notin> available (vm_pmm s) \<and>
        (\<forall>r \<in> paths. table_at (vm_mem s) (kernel_pml4 s) r = Some a \<longrightarrow> r = q))"

subsection \<open>Frames and entries\<close>

lemma aligned_bits: "unat (t :: u64) mod 4096 = 0 \<Longrightarrow> n < 12 \<Longrightarrow> \<not> bit t n"
proof -
  assume "unat t mod 4096 = 0" and n: "n < 12"
  then have "take_bit 12 (unat t) = 0" by (simp add: take_bit_eq_mod)
  then have "\<not> bit (take_bit 12 (unat t)) n" by simp
  then show ?thesis using n by (simp add: bit_take_bit_iff bit_unsigned_iff)
qed

lemma bit_table_of: "bit (table_of e) n \<longleftrightarrow> bit e n \<and> 12 \<le> n"
proof -
  have "(0xFFF :: u64) = mask 12" by (simp add: mask_eq_exp_minus_1)
  then have "table_of e = e AND NOT (mask 12)" by (simp only: table_of_def)
  then show ?thesis
    using bit_imp_le_length[of e n]
    by (auto simp only: bit_and_iff bit_not_iff bit_mask_iff possible_bit_word not_less)
qed

lemma table_of_flags:
  assumes "unat t mod 4096 = 0" "\<And>n. bit f n \<Longrightarrow> n < 12"
  shows "table_of (t OR f) = t"
proof (rule bit_word_eqI)
  fix n :: nat
  have "bit f n \<Longrightarrow> n < 12" "bit t n \<Longrightarrow> 12 \<le> n"
    using assms(2)[of n] aligned_bits[OF assms(1), of n] by (auto simp: not_le[symmetric])
  then show "bit (table_of (t OR f)) n = bit t n"
    by (auto simp: bit_table_of bit_or_iff)
qed

lemma bit_PAGE [simp]:
  "bit PAGE_PRESENT n \<longleftrightarrow> n = 0" "bit PAGE_WRITE n \<longleftrightarrow> n = 1" "bit PAGE_USER n \<longleftrightarrow> n = 2"
proof -
  have pow: "bit (2 ^ k :: u64) n \<longleftrightarrow> n = k" if "k < 64" for k
    using that by (auto simp: bit_exp_iff possible_bit_word)
  show "bit PAGE_PRESENT n \<longleftrightarrow> n = 0" using pow[of 0] by (simp add: PAGE_PRESENT_def)
  show "bit PAGE_WRITE n \<longleftrightarrow> n = 1" using pow[of 1] by (simp add: PAGE_WRITE_def)
  show "bit PAGE_USER n \<longleftrightarrow> n = 2" using pow[of 2] by (simp add: PAGE_USER_def)
qed

lemma table_of_user [simp]: "table_of (e OR PAGE_USER) = table_of e"
  by (rule bit_word_eqI) (auto simp: bit_table_of bit_or_iff)

lemma present_or [simp]: "(e OR PAGE_USER) AND PAGE_PRESENT = e AND PAGE_PRESENT"
  by (rule bit_word_eqI) (auto simp: bit_and_iff bit_or_iff)

lemma present_bit: "(e AND PAGE_PRESENT = 0) \<longleftrightarrow> \<not> bit e 0"
  using and_pow2_eq_bit[of e 0] by (simp add: PAGE_PRESENT_def)

lemma unat_entry:
  assumes "unat t mod 4096 = 0" "i < 512"
  shows "unat (entry t i) = unat t + 8 * i"
proof -
  have "unat t \<le> 2 ^ 64 - 4096"
  proof -
    obtain k where "unat t = 4096 * k" using assms(1) by auto
    moreover have "unat t < 2 ^ 64" using unat_lt_2p[of t] by simp
    ultimately show ?thesis by simp
  qed
  moreover have "unat (of_nat (8 * i) :: u64) = 8 * i" using assms(2) by (intro unat_of_nat_small) simp
  ultimately show ?thesis unfolding entry_def using assms(2) by (subst unat_add_small) auto
qed

lemma entry_inj:
  assumes "unat t mod 4096 = 0" "unat u mod 4096 = 0" "i < 512" "j < 512" "entry t i = entry u j"
  shows "t = u \<and> i = j"
proof -
  have e: "unat t + 8 * i = unat u + 8 * j"
    using unat_entry[OF assms(1,3)] unat_entry[OF assms(2,4)] assms(5) by simp
  then have "(unat t + 8 * i) mod 4096 = (unat u + 8 * j) mod 4096" by simp
  then have "(8 * i) mod 4096 = (8 * j) mod 4096"
    using assms(1,2) by (metis mod_add_left_eq add_0)
  then have "i = j" using assms(3,4) by simp
  with e show ?thesis by (simp add: word_unat_eq_iff)
qed

lemma clear_page_apply:
  "clear_page addr m x = (if \<exists>i<512. x = entry addr i then 0 else m x)"
proof -
  have "fold (\<lambda>i m. m(entry addr i := 0)) [0..<n] m x = (if \<exists>i<n. x = entry addr i then 0 else m x)" for n
    by (induction n) (auto simp: less_Suc_eq)
  then show ?thesis by (simp add: clear_page_def)
qed

lemma clear_page_entry: "i < 512 \<Longrightarrow> clear_page n m (entry n i) = 0"
  by (auto simp: clear_page_apply)

lemma vpath_nonempty [simp]: "vpath v \<noteq> []"
  by (simp add: vpath_def)

lemma vidx_less [simp]: "vidx sh v < 512"
proof -
  have "drop_bit sh v AND 0x1FF \<le> (0x1FF :: u64)" by (rule word_and_le1)
  then show ?thesis by (simp add: vidx_def word_le_nat_alt)
qed

lemma vpath_paths [simp]: "vpath v \<in> paths" "length (vpath v) = 3"
  by (simp_all add: vpath_def paths_def)

lemma table_at_append:
  "table_at m r (xs @ ys) = (case table_at m r xs of None \<Rightarrow> None | Some a \<Rightarrow> table_at m a ys)"
  by (induction m r xs rule: table_at.induct) (auto simp: Let_def)

text \<open>Two entries that lead the walk to the same place.\<close>

definition same_ptr :: "u64 \<Rightarrow> u64 \<Rightarrow> bool" where
  "same_ptr e e' \<longleftrightarrow> (e AND PAGE_PRESENT = 0) = (e' AND PAGE_PRESENT = 0) \<and> table_of e = table_of e'"

lemma same_ptr_refl [simp]: "same_ptr e e"
  by (simp add: same_ptr_def)

lemma table_at_agree:
  assumes "\<And>q1 j q2 a. q = q1 @ j # q2 \<Longrightarrow> table_at m r q1 = Some a \<Longrightarrow>
    same_ptr (m' (entry a j)) (m (entry a j))"
  shows "table_at m' r q = table_at m r q"
  using assms
proof (induction q rule: rev_induct)
  case Nil
  show ?case by simp
next
  case (snoc j q)
  have q: "table_at m' r q = table_at m r q"
  proof (rule snoc.IH)
    fix q1 k q2 a
    assume "q = q1 @ k # q2" "table_at m r q1 = Some a"
    then show "same_ptr (m' (entry a k)) (m (entry a k))"
      using snoc.prems[of q1 k "q2 @ [j]" a] by simp
  qed
  show ?case
  proof (cases "table_at m r q")
    case None
    with q show ?thesis by (simp add: table_at_append)
  next
    case (Some a)
    with snoc.prems[of q j "[]" a] q show ?thesis
      by (simp add: table_at_append same_ptr_def Let_def)
  qed
qed

lemma paths_prefix: "q1 @ j # q2 \<in> paths \<Longrightarrow> q1 \<in> paths \<and> j < 512 \<and> length q1 < 3"
  by (auto simp: paths_def)

lemma vmm_wf_table:
  assumes "vmm_wf s" "q \<in> paths" "table_at (vm_mem s) (kernel_pml4 s) q = Some a"
  shows "a \<in> managed (vm_pmm s)" "a \<notin> available (vm_pmm s)" "unat a mod 4096 = 0"
    "\<And>q'. q' \<in> paths \<Longrightarrow> table_at (vm_mem s) (kernel_pml4 s) q' = Some a \<Longrightarrow> q' = q"
  using assms pmm.frames_aligned[of "vm_pmm s" a] by (auto simp: vmm_wf_def)

section \<open>Descending one level\<close>

text \<open>What one block of \<open>VMM_MapPage\<close> guarantees, whichever branch it takes.\<close>

definition descends :: "vmm \<Rightarrow> nat list \<Rightarrow> u64 \<Rightarrow> vmm \<Rightarrow> bool" where
  "descends s q t' s' \<longleftrightarrow> vmm_wf s' \<and> kernel_pml4 s' = kernel_pml4 s \<and>
     table_at (vm_mem s') (kernel_pml4 s') q = Some t' \<and>
     (\<forall>v. walk (vm_mem s') (kernel_pml4 s') v = walk (vm_mem s) (kernel_pml4 s) v) \<and>
     card (available (vm_pmm s)) \<le> Suc (card (available (vm_pmm s'))) \<and>
     max_pages (vm_pmm s') = max_pages (vm_pmm s) \<and> base_paddr (vm_pmm s') = base_paddr (vm_pmm s) \<and>
     available (vm_pmm s') \<subseteq> available (vm_pmm s) \<and>
     (\<forall>r \<in> paths. \<forall>a. table_at (vm_mem s') (kernel_pml4 s') r = Some a \<longrightarrow>
        table_at (vm_mem s) (kernel_pml4 s) r = Some a \<or> a \<in> available (vm_pmm s))"

lemma walk_agree:
  assumes "table_at m' r (vpath v) = table_at m r (vpath v)"
    "\<And>pt. table_at m r (vpath v) = Some pt \<Longrightarrow> m' (entry pt (vidx 12 v)) = m (entry pt (vidx 12 v))"
  shows "walk m' r v = walk m r v"
  using assms by (auto simp: walk_def split: option.splits)

lemma descend_present:
  assumes wf: "vmm_wf s" and p: "p @ [i] \<in> paths" "table_at (vm_mem s) (kernel_pml4 s) p = Some t"
    and pres: "vm_mem s (entry t i) AND PAGE_PRESENT \<noteq> 0"
    and d: "vmm_descend flags tf t i s = (t', s')"
  shows "descends s (p @ [i]) t' s'"
proof -
  let ?m = "vm_mem s" and ?r = "kernel_pml4 s" and ?e = "entry t i"
  have pp: "p \<in> paths" "i < 512" "length p < 3" using p(1) by (auto simp: paths_def)
  define x where "x = (if flags AND PAGE_USER \<noteq> 0 then ?m ?e OR PAGE_USER else ?m ?e)"
  have x: "same_ptr x (?m ?e)" by (simp add: x_def same_ptr_def)
  have "s\<lparr>vm_mem := ?m(?e := ?m ?e)\<rparr> = s" by simp
  then have s': "s' = s\<lparr>vm_mem := ?m(?e := x)\<rparr>" "t' = table_of x"
    using d pres by (auto simp: vmm_descend_def Let_def x_def split: if_splits)
  note s' = s'(1) x s'(2)
  have at: "table_at (vm_mem s') ?r q = table_at ?m ?r q" for q
    using s'(2) by (intro table_at_agree) (auto simp: s'(1))
  have f: "kernel_pml4 s' = ?r" "vm_pmm s' = vm_pmm s" by (simp_all add: s'(1))
  have "vmm_wf s'" using wf unfolding vmm_wf_def at f .
  moreover have "walk (vm_mem s') ?r v = walk ?m ?r v" for v
  proof (rule walk_agree[OF at])
    fix pt assume pt: "table_at ?m ?r (vpath v) = Some pt"
    have "pt \<noteq> t"
      using vmm_wf_table(4)[OF wf pp(1) p(2), of "vpath v"] pt pp(3) vpath_paths(2)[of v] by auto
    then have "entry pt (vidx 12 v) \<noteq> ?e"
      using entry_inj[of pt t "vidx 12 v" i] vmm_wf_table(3)[OF wf pp(1) p(2)]
        vmm_wf_table(3)[OF wf vpath_paths(1) pt] pp(2) vidx_less by blast
    then show "vm_mem s' (entry pt (vidx 12 v)) = ?m (entry pt (vidx 12 v))" by (simp add: s'(1))
  qed
  moreover have "table_at (vm_mem s') ?r (p @ [i]) = Some t'"
    using at[of "p @ [i]"] p(2) pres s'(2,3) by (simp add: table_at_append Let_def same_ptr_def)
  ultimately show ?thesis using at by (simp add: descends_def s'(1) del: fun_upd_apply)
qed

lemma entry_other_page:
  "unat t mod 4096 = 0 \<Longrightarrow> unat n mod 4096 = 0 \<Longrightarrow> t \<noteq> n \<Longrightarrow> i < 512 \<Longrightarrow>
   clear_page n m (entry t i) = m (entry t i)"
  using entry_inj[of t n i] by (auto simp: clear_page_apply)

lemma descend_absent:
  assumes wf: "vmm_wf s" and p: "p @ [i] \<in> paths" "table_at (vm_mem s) (kernel_pml4 s) p = Some t"
    and absent: "vm_mem s (entry t i) AND PAGE_PRESENT = 0"
    and av: "available (vm_pmm s) \<noteq> {}"
    and tf: "bit tf 0" "\<And>n. bit tf n \<Longrightarrow> n < 12"
    and d: "vmm_descend flags tf t i s = (t', s')"
  shows "descends s (p @ [i]) t' s'"
proof -
  let ?m = "vm_mem s" and ?r = "kernel_pml4 s" and ?e = "entry t i" and ?P = "vm_pmm s"
  have pp: "p \<in> paths" "i < 512" "length p < 3" using p(1) by (auto simp: paths_def)
  have pwf: "pmm_wf ?P" using wf by (simp add: vmm_wf_def)
  obtain n P' where al: "PMM_AllocatePage ?P = (n, P')" by fastforce
  have n: "n \<in> available ?P" "available P' = available ?P - {n}" "managed P' = managed ?P" "pmm_wf P'"
    "n \<in> managed ?P" "max_pages P' = max_pages ?P" "base_paddr P' = base_paddr ?P"
    using pmm.alloc_avail[OF pwf av] pmm.avail_alloc[OF pwf] pmm.frames_alloc[OF pwf]
      pmm.inv_alloc[OF pwf] pmm.avail_frames[OF pwf] fields_AllocatePage[of ?P] al by auto
  have n0: "unat n mod 4096 = 0" using pmm.frames_aligned[OF pwf n(5)] by simp
  have t0: "unat t mod 4096 = 0" and tn: "t \<noteq> n"
    using vmm_wf_table[OF wf pp(1) p(2)] n(1) by auto
  let ?m' = "(clear_page n ?m)(?e := n OR tf)"
  have tb: "table_of (n OR tf) = n" using n0 tf(2) by (rule table_of_flags)
  have s': "s' = s\<lparr>vm_pmm := P', vm_mem := ?m'\<rparr>" "t' = n"
    using d absent al tb by (auto simp: vmm_descend_def)
  have pres: "(n OR tf) AND PAGE_PRESENT \<noteq> 0" using tf(1) by (simp add: present_bit bit_or_iff)
  have keep: "?m' (entry a j) = ?m (entry a j)"
    if "q \<in> paths" "table_at ?m ?r q = Some a" "j < 512" "\<not> (q = p \<and> j = i)" for q a j
  proof -
    note a = vmm_wf_table[OF wf that(1,2)]
    have "a \<noteq> n" using a(2) n(1) by auto
    moreover have "entry a j \<noteq> ?e"
      using entry_inj[OF a(3) t0 that(3) pp(2)] a(4)[OF pp(1)] p(2) that(4) by blast
    ultimately show ?thesis using entry_other_page[OF a(3) n0 _ that(3)] by simp
  qed
  have old: "table_at ?m' ?r q = table_at ?m ?r q" if q: "q \<in> paths" "take (Suc (length p)) q \<noteq> p @ [i]" for q
  proof (rule table_at_agree)
    fix q1 j q2 a assume e: "q = q1 @ j # q2" "table_at ?m ?r q1 = Some a"
    have "q1 \<in> paths" "j < 512" using paths_prefix q(1) e(1) by auto
    moreover have "\<not> (q1 = p \<and> j = i)" using q(2) e(1) by auto
    ultimately show "same_ptr (?m' (entry a j)) (?m (entry a j))"
      using keep[of q1 a j] e(2) by simp
  qed
  have new: "table_at ?m' ?r (p @ i # ys) = (if ys = [] then Some n else None)"
    if "p @ i # ys \<in> paths" for ys
  proof -
    have "table_at ?m' ?r p = Some t" using old[OF pp(1)] p(2) by simp
    then have "table_at ?m' ?r (p @ i # ys) = table_at ?m' n ys"
      using pres tb by (simp add: table_at_append Let_def)
    also have "\<dots> = (if ys = [] then Some n else None)"
    proof (cases ys)
      case (Cons j zs)
      then have j: "j < 512" using that by (auto simp: paths_def)
      then have "entry n j \<noteq> ?e" using entry_inj[OF n0 t0 j pp(2)] tn by auto
      then have "?m' (entry n j) = 0" using clear_page_entry[OF j, of n ?m] by simp
      then show ?thesis using Cons by (simp add: Let_def)
    qed simp
    finally show ?thesis .
  qed
  have gone: "table_at ?m ?r (p @ i # ys) = None" for ys
    using p(2) absent by (simp add: table_at_append Let_def)
  have split: "take (Suc (length p)) q \<noteq> p @ [i] \<or> (\<exists>ys. q = p @ i # ys)" for q
    by (metis append.assoc append_Cons append_Nil append_take_drop_id)
  have at: "table_at ?m' ?r q = Some a \<longleftrightarrow> q = p @ [i] \<and> a = n \<or> table_at ?m ?r q = Some a"
    if "q \<in> paths" for q a
    using split[of q] old[OF that] new that gone by (cases "\<exists>ys. q = p @ i # ys") (auto split: if_splits)
  have wf': "vmm_wf s'"
    unfolding vmm_wf_def
  proof (intro conjI ballI allI impI)
    show "pmm_wf (vm_pmm s')" using n(4) by (simp add: s'(1))
    fix q a assume q: "q \<in> paths" and "table_at (vm_mem s') (kernel_pml4 s') q = Some a"
    then have qa: "q = p @ [i] \<and> a = n \<or> table_at ?m ?r q = Some a"
      using at[OF q] by (simp add: s'(1) del: fun_upd_apply)
    have nn: "table_at ?m ?r q' \<noteq> Some n" if "q' \<in> paths" for q'
      using vmm_wf_table(2)[OF wf that] n(1) by auto
    show "a \<in> managed (vm_pmm s')" "a \<notin> available (vm_pmm s')"
      using qa vmm_wf_table(1,2)[OF wf q] n by (auto simp: s'(1))
    fix q' assume q': "q' \<in> paths" and "table_at (vm_mem s') (kernel_pml4 s') q' = Some a"
    then have "q' = p @ [i] \<and> a = n \<or> table_at ?m ?r q' = Some a"
      using at[OF q'] by (simp add: s'(1) del: fun_upd_apply)
    with qa show "q' = q" using nn[OF q] nn[OF q'] vmm_wf_table(4)[OF wf q _ q'] by auto
  qed
  have walk: "walk ?m' ?r v = walk ?m ?r v" for v
  proof (cases "\<exists>ys. vpath v = p @ i # ys")
    case True
    then obtain ys where ys: "vpath v = p @ i # ys" by auto
    have pv: "p @ i # ys \<in> paths" using vpath_paths(1)[of v] by (simp only: ys)
    have l: "vidx 12 v < 512" by simp
    have "entry n (vidx 12 v) \<noteq> ?e" using entry_inj[OF n0 t0 l pp(2)] tn by auto
    then have "?m' (entry n (vidx 12 v)) = 0" using clear_page_entry[OF l, of n ?m] by simp
    then show ?thesis using new[OF pv] gone[of ys]
      by (simp add: walk_def ys Let_def del: fun_upd_apply)
  next
    case False
    then have o: "table_at ?m' ?r (vpath v) = table_at ?m ?r (vpath v)"
      using split[of "vpath v"] old by auto
    show ?thesis
    proof (rule walk_agree[OF o])
      fix pt assume "table_at ?m ?r (vpath v) = Some pt"
      moreover have "vpath v \<noteq> p" using pp(3) vpath_paths(2)[of v] by auto
      ultimately show "?m' (entry pt (vidx 12 v)) = ?m (entry pt (vidx 12 v))"
        using keep[of "vpath v" pt "vidx 12 v"] by simp
    qed
  qed
  have fin: "finite (available ?P)"
    using pmm.avail_frames[OF pwf] pmm.finite_frames[OF pwf] finite_subset by blast
  have card: "card (available ?P) = Suc (card (available P'))"
    using card.remove[OF fin n(1)] by (simp only: n(2))
  have here: "table_at ?m' ?r (p @ [i]) = Some n" using new[of "[]"] p(1) by simp
  have tables: "\<forall>q \<in> paths. \<forall>a. table_at ?m' ?r q = Some a \<longrightarrow> table_at ?m ?r q = Some a \<or> a \<in> available ?P"
  proof (intro ballI allI impI)
    fix q a assume q: "q \<in> paths" "table_at ?m' ?r q = Some a"
    have "a = n \<or> table_at ?m ?r q = Some a" using iffD1[OF at[OF q(1)] q(2)] by (elim disjE conjE) (rule disjI1, assumption, rule disjI2)
    then show "table_at ?m ?r q = Some a \<or> a \<in> available ?P" using n(1) by auto
  qed
  have sub: "available P' \<subseteq> available ?P" using n(2) by blast
  have f: "vm_pmm s' = P'" "vm_mem s' = ?m'" "kernel_pml4 s' = ?r" by (simp_all add: s'(1))
  show ?thesis
    unfolding descends_def f s'(2)
    by (intro conjI allI wf' refl here walk n(6) n(7) sub tables) (simp only: card)
qed

lemma descend_spec:
  assumes "vmm_wf s" "p @ [i] \<in> paths" "table_at (vm_mem s) (kernel_pml4 s) p = Some t"
    "available (vm_pmm s) \<noteq> {}" "bit tf 0" "\<And>n. bit tf n \<Longrightarrow> n < 12"
    "vmm_descend flags tf t i s = (t', s')"
  shows "descends s (p @ [i]) t' s'"
  using descend_present[OF assms(1-3) _ assms(7)] descend_absent[OF assms(1-3) _ assms(4-7)]
  by blast

section \<open>Mapping a page\<close>

text \<open>Two virtual addresses with the same 36 index bits select the same page-table entry.\<close>

definition same_page :: "u64 \<Rightarrow> u64 \<Rightarrow> bool" where
  "same_page v w \<longleftrightarrow> vpath v = vpath w \<and> vidx 12 v = vidx 12 w"

definition map_flags :: "u64 \<Rightarrow> u64" where
  "map_flags flags = (if flags AND PAGE_USER \<noteq> 0 then (PAGE_PRESENT OR PAGE_WRITE) OR PAGE_USER
                      else PAGE_PRESENT OR PAGE_WRITE)"

lemma map_flags_bits: "bit (map_flags f) 0" "bit (map_flags f) n \<Longrightarrow> n < 12"
  by (auto simp: map_flags_def bit_or_iff split: if_splits)

lemma descend_map:
  assumes "vmm_wf s" "p @ [i] \<in> paths" "table_at (vm_mem s) (kernel_pml4 s) p = Some t"
    "0 < card (available (vm_pmm s))" "vmm_descend flags (map_flags flags) t i s = (t', s')"
  shows "descends s (p @ [i]) t' s'"
proof (rule descend_spec[OF assms(1-3) _ _ _ assms(5)])
  show "available (vm_pmm s) \<noteq> {}" using assms(4) by auto
qed (auto intro: map_flags_bits)

lemma descendsD:
  assumes "descends s q t s'"
  shows "vmm_wf s'" "kernel_pml4 s' = kernel_pml4 s"
    "table_at (vm_mem s') (kernel_pml4 s') q = Some t"
    "card (available (vm_pmm s)) \<le> Suc (card (available (vm_pmm s')))"
    "walk (vm_mem s') (kernel_pml4 s') v = walk (vm_mem s) (kernel_pml4 s) v"
    "managed (vm_pmm s') = managed (vm_pmm s)"
    "available (vm_pmm s') \<subseteq> available (vm_pmm s)"
    "q' \<in> paths \<Longrightarrow> table_at (vm_mem s') (kernel_pml4 s') q' = Some a \<Longrightarrow>
       table_at (vm_mem s) (kernel_pml4 s) q' = Some a \<or> a \<in> available (vm_pmm s)"
  using assms page_addr_fields[of "vm_pmm s'" "vm_pmm s"]
  unfolding descends_def managed_def by metis+

lemma MapPage_spec:
  assumes wf: "vmm_wf s" and av: "3 \<le> card (available (vm_pmm s))"
  shows "vmm_wf (VMM_MapPage v p flags s) \<and> kernel_pml4 (VMM_MapPage v p flags s) = kernel_pml4 s \<and>
    (\<forall>w. walk (vm_mem (VMM_MapPage v p flags s)) (kernel_pml4 s) w =
      (if same_page v w then Some (p OR flags OR PAGE_PRESENT)
       else walk (vm_mem s) (kernel_pml4 s) w)) \<and>
    card (available (vm_pmm s)) \<le> card (available (vm_pmm (VMM_MapPage v p flags s))) + 3 \<and>
    managed (vm_pmm (VMM_MapPage v p flags s)) = managed (vm_pmm s)"
proof -
  let ?tf = "map_flags flags"
  obtain pdp s1 where d1: "vmm_descend flags ?tf (kernel_pml4 s) (vidx 39 v) s = (pdp, s1)" by fastforce
  obtain pd s2 where d2: "vmm_descend flags ?tf pdp (vidx 30 v) s1 = (pd, s2)" by fastforce
  obtain pt s3 where d3: "vmm_descend flags ?tf pd (vidx 21 v) s2 = (pt, s3)" by fastforce
  have ps: "[] @ [vidx 39 v] \<in> paths" "[vidx 39 v] @ [vidx 30 v] \<in> paths"
    "[vidx 39 v, vidx 30 v] @ [vidx 21 v] \<in> paths" by (auto simp: paths_def)
  have 1: "descends s ([] @ [vidx 39 v]) pdp s1"
    using av by (intro descend_map[OF wf ps(1) _ _ d1]) simp_all
  have 2: "descends s1 ([vidx 39 v] @ [vidx 30 v]) pd s2"
    using av descendsD(3,4)[OF 1]
    by (intro descend_map[OF descendsD(1)[OF 1] ps(2) _ _ d2]) (simp_all del: table_at.simps)
  have 3: "descends s2 ([vidx 39 v, vidx 30 v] @ [vidx 21 v]) pt s3"
    using av descendsD(4)[OF 1] descendsD(3,4)[OF 2]
    by (intro descend_map[OF descendsD(1)[OF 2] ps(3) _ _ d3]) (simp_all del: table_at.simps)
  have path: "[vidx 39 v, vidx 30 v] @ [vidx 21 v] = vpath v" by (simp add: vpath_def)
  note D = descendsD[OF 1] descendsD[OF 2] descendsD[OF 3[unfolded path]]
  let ?e = "entry pt (vidx 12 v)" and ?x = "p OR flags OR PAGE_PRESENT" and ?r = "kernel_pml4 s"
  have s': "VMM_MapPage v p flags s = s3\<lparr>vm_mem := (vm_mem s3)(?e := ?x), vm_invlpg := v # vm_invlpg s3\<rparr>"
    using d1 d2 d3 by (simp add: VMM_MapPage_def map_flags_def[symmetric] Let_def)
  have wf3: "vmm_wf s3" and r3: "kernel_pml4 s3 = ?r" and at3: "table_at (vm_mem s3) ?r (vpath v) = Some pt"
    using D by simp_all
  note pt = vmm_wf_table[OF wf3 vpath_paths(1)[of v], unfolded r3, OF at3]
  have leaf: "entry a j \<noteq> ?e" if "q \<in> paths" "table_at (vm_mem s3) ?r q = Some a" "j < 512"
      "q \<noteq> vpath v \<or> j \<noteq> vidx 12 v" for q a j
    using entry_inj[of a pt j "vidx 12 v"] pt(3) pt(4)[OF that(1)] that(2-4)
      vmm_wf_table(3)[OF wf3 that(1), unfolded r3, OF that(2)] by auto
  have at: "table_at ((vm_mem s3)(?e := ?x)) ?r q = table_at (vm_mem s3) ?r q" if "q \<in> paths" for q
  proof (rule table_at_agree)
    fix q1 j q2 a assume e: "q = q1 @ j # q2" "table_at (vm_mem s3) ?r q1 = Some a"
    then have "q1 \<in> paths" "j < 512" "length q1 < 3" using paths_prefix that by auto
    moreover from this have "q1 \<noteq> vpath v" using vpath_paths(2)[of v] by auto
    ultimately have "entry a j \<noteq> ?e" using leaf[OF _ e(2)] by blast
    then show "same_ptr (((vm_mem s3)(?e := ?x)) (entry a j)) (vm_mem s3 (entry a j))" by simp
  qed
  have "vmm_wf (VMM_MapPage v p flags s)"
    using wf3 by (simp add: vmm_wf_def s' at r3 del: fun_upd_apply)
  moreover have "walk ((vm_mem s3)(?e := ?x)) ?r w =
      (if same_page v w then Some ?x else walk (vm_mem s3) ?r w)" for w
  proof (cases "same_page v w")
    case True
    then have "vpath w = vpath v" "vidx 12 w = vidx 12 v" by (auto simp: same_page_def)
    moreover have "?x AND PAGE_PRESENT \<noteq> 0" by (simp add: present_bit bit_or_iff)
    ultimately show ?thesis
      using at[OF vpath_paths(1), of v] at3 True by (simp add: walk_def)
  next
    case False
    have "walk ((vm_mem s3)(?e := ?x)) ?r w = walk (vm_mem s3) ?r w"
    proof (rule walk_agree[OF at[OF vpath_paths(1)]])
      fix a assume "table_at (vm_mem s3) ?r (vpath w) = Some a"
      then have "entry a (vidx 12 w) \<noteq> ?e"
        using leaf[of "vpath w" a "vidx 12 w"] False by (auto simp: same_page_def)
      then show "((vm_mem s3)(?e := ?x)) (entry a (vidx 12 w)) = vm_mem s3 (entry a (vidx 12 w))"
        by simp
    qed
    with False show ?thesis by simp
  qed
  moreover have "walk (vm_mem s3) (kernel_pml4 s3) w = walk (vm_mem s) (kernel_pml4 s) w" for w
    using descendsD(5)[OF 1, of w] descendsD(5)[OF 2, of w] descendsD(5)[OF 3, of w] r3 by simp
  moreover have "card (available (vm_pmm s)) \<le> card (available (vm_pmm s3)) + 3"
    using D by simp
  moreover have "managed (vm_pmm s3) = managed (vm_pmm s)"
    using D by simp
  ultimately show ?thesis using s' r3 by (simp del: fun_upd_apply)
qed

lemma VMM_Init_spec:
  assumes "pmm_wf (vm_pmm s)" "available (vm_pmm s) \<noteq> {}"
  shows "vmm_wf (VMM_Init s) \<and> (\<forall>v. walk (vm_mem (VMM_Init s)) (kernel_pml4 (VMM_Init s)) v = None) \<and>
    managed (vm_pmm (VMM_Init s)) = managed (vm_pmm s) \<and>
    card (available (vm_pmm s)) = Suc (card (available (vm_pmm (VMM_Init s))))"
proof -
  let ?P = "vm_pmm s"
  obtain n P' where al: "PMM_AllocatePage ?P = (n, P')" by fastforce
  have n: "n \<in> available ?P" "available P' = available ?P - {n}" "managed P' = managed ?P" "pmm_wf P'"
    using pmm.alloc_avail[OF assms] pmm.avail_alloc[OF assms(1)] pmm.frames_alloc[OF assms(1)]
      pmm.inv_alloc[OF assms(1)] al by auto
  have nm: "n \<in> managed ?P" using n(1) pmm.avail_frames[OF assms(1)] by blast
  have n0: "unat n mod 4096 = 0" using pmm.frames_aligned[OF assms(1) nm] by simp
  have s': "VMM_Init s = s\<lparr>vm_pmm := P', kernel_pml4 := n, vm_mem := clear_page n (vm_mem s)\<rparr>"
    using al by (simp add: VMM_Init_def)
  have zero: "clear_page n (vm_mem s) (entry n i) = 0" if "i < 512" for i
    using that by (rule clear_page_entry)
  have at: "table_at (clear_page n (vm_mem s)) n q = (if q = [] then Some n else None)" if "q \<in> paths" for q
    using that by (cases q) (auto simp: zero paths_def Let_def)
  have f: "vm_pmm (VMM_Init s) = P'" "kernel_pml4 (VMM_Init s) = n"
    "vm_mem (VMM_Init s) = clear_page n (vm_mem s)" by (simp_all add: s')
  have "vmm_wf (VMM_Init s)"
    unfolding vmm_wf_def f using n nm by (auto simp: at split: if_splits)
  moreover have "walk (vm_mem (VMM_Init s)) (kernel_pml4 (VMM_Init s)) v = None" for v
    using at[OF vpath_paths(1), of v] vpath_paths(2)[of v] by (auto simp: walk_def s' split: if_splits)
  moreover have fin: "finite (available ?P)"
    using pmm.avail_frames[OF assms(1)] pmm.finite_frames[OF assms(1)] finite_subset by blast
  have "card (available ?P) = Suc (card (available P'))"
    using card.remove[OF fin n(1)] by (simp only: n(2))
  moreover have "vm_pmm (VMM_Init s) = P'" by (simp add: s')
  ultimately show ?thesis using n(3) by (simp only: simp_thms)
qed

section \<open>Properties\<close>

definition vmm_example :: vmm where
  "vmm_example = \<lparr>vm_pmm = PMM_FreePages 0x110000 16 (PMM_Init 0x40000 0x100000), vm_mem = (\<lambda>a. 0),
     kernel_pml4 = 0, vm_cr3 = 0, vm_invlpg = []\<rparr>"

lemma vmm_example_ok:
  "pmm_wf (vm_pmm vmm_example)" "card (available (vm_pmm vmm_example)) = 16"
  "vmm_wf (VMM_Init vmm_example)" "3 \<le> card (available (vm_pmm (VMM_Init vmm_example)))"
proof -
  note b = FreePages_boot[of "0x100000" "0x40000" "0x110000" 16, simplified]
  show wf: "pmm_wf (vm_pmm vmm_example)" using b(1) by (simp add: vmm_example_def)
  have "{i::nat. 16 \<le> i \<and> i < 32 \<and> i < 64} = {16..<32}" by auto
  then show c: "card (available (vm_pmm vmm_example)) = 16"
    using card_available[OF wf] b(2) by (simp add: vmm_example_def)
  then have "available (vm_pmm vmm_example) \<noteq> {}" by auto
  from VMM_Init_spec[OF wf this] c
  show "vmm_wf (VMM_Init vmm_example)" "3 \<le> card (available (vm_pmm (VMM_Init vmm_example)))" by auto
qed

text \<open>
  C8. With three frames available, VMM_MapPage makes the four-level walk of the given virtual
  page end in the given physical address and flags, and changes the translation of no other
  page; the page tables stay a tree of allocated frames.
\<close>

theorem map_page_translation:
  assumes "vmm_wf s" "3 \<le> card (available (vm_pmm s))"
  shows "vmm_wf (VMM_MapPage v p flags s) \<and> kernel_pml4 (VMM_MapPage v p flags s) = kernel_pml4 s \<and>
    (\<forall>w. walk (vm_mem (VMM_MapPage v p flags s)) (kernel_pml4 s) w =
      (if same_page v w then Some (p OR flags OR PAGE_PRESENT)
       else walk (vm_mem s) (kernel_pml4 s) w)) \<and>
    card (available (vm_pmm s)) \<le> card (available (vm_pmm (VMM_MapPage v p flags s))) + 3"
  using MapPage_spec[OF assms] by blast

theorem map_page_translation_witness:
  "walk (vm_mem (VMM_MapPage 0x400000 0x200000 2 (VMM_Init vmm_example)))
     (kernel_pml4 (VMM_Init vmm_example)) 0x400000 = Some 0x200003"
  using map_page_translation[OF vmm_example_ok(3,4), of "0x400000" "0x200000" 2]
  by (simp add: same_page_def PAGE_PRESENT_def)

text \<open>
  VMM_Init takes one frame and establishes the page-table invariant with an address space
  in which nothing is mapped.
\<close>

theorem vmm_init_empty:
  assumes "pmm_wf (vm_pmm s)" "available (vm_pmm s) \<noteq> {}"
  shows "vmm_wf (VMM_Init s) \<and> (\<forall>v. walk (vm_mem (VMM_Init s)) (kernel_pml4 (VMM_Init s)) v = None) \<and>
    card (available (vm_pmm s)) = Suc (card (available (vm_pmm (VMM_Init s))))"
  using VMM_Init_spec[OF assms] by blast

theorem vmm_init_empty_witness:
  "card (available (vm_pmm (VMM_Init vmm_example))) = 15"
proof -
  have "available (vm_pmm vmm_example) \<noteq> {}" using vmm_example_ok(2) by auto
  from vmm_init_empty[OF vmm_example_ok(1) this] vmm_example_ok(2) show ?thesis by simp
qed

end
