(* ===== verification/Io.thy ===== *)
theory Io
  imports Prelude
begin

text \<open>
  The machine as the drivers reach it: the x86 port instructions, which several files wrap
  in the same inline assembly (\<open>outb\<close>, \<open>inb\<close>, \<open>outw\<close>, \<open>inw\<close>, \<open>outl\<close>, \<open>inl\<close>). What lies behind
  the ports is hardware, so it is a parameter: a state type \<open>'d\<close> and one function per
  instruction. Reading a port may change the device, so reads return the device too.
\<close>

record 'd port_io =
  io_inb :: "u16 \<Rightarrow> 'd \<Rightarrow> u8 \<times> 'd"
  io_outb :: "u16 \<Rightarrow> u8 \<Rightarrow> 'd \<Rightarrow> 'd"
  io_inw :: "u16 \<Rightarrow> 'd \<Rightarrow> u16 \<times> 'd"
  io_outw :: "u16 \<Rightarrow> u16 \<Rightarrow> 'd \<Rightarrow> 'd"
  io_inl :: "u16 \<Rightarrow> 'd \<Rightarrow> u32 \<times> 'd"
  io_outl :: "u16 \<Rightarrow> u32 \<Rightarrow> 'd \<Rightarrow> 'd"

end
