(* ===== verification/Interrupts.thy ===== *)
theory Interrupts
  imports Io
begin

text \<open>
  The legacy interrupt controller and timer code \<open>src/kernel/cpu/interrupts.c\<close> over the port
  instructions of \<open>Io\<close>, and the masking sequence of \<open>kernel_main\<close>. \<open>pic_protocol\<close> states the
  documented behaviour of the two 8259 controllers the code relies on: a command byte with bit 4 set
  starts an initialisation, the data port then takes the other initialisation words, and only when
  none of them is due is a byte written there the interrupt mask.
\<close>

definition PIC_EndMaster :: "'d port_io \<Rightarrow> 'd \<Rightarrow> 'd" where
  "PIC_EndMaster io d = io_outb io 0x20 0x20 d"

definition PIC_Remap :: "'d port_io \<Rightarrow> 'd \<Rightarrow> 'd" where
  "PIC_Remap io d =
     (let (a1, d) = io_inb io 0x21 d;
          (a2, d) = io_inb io 0xA1 d;
          d = io_outb io 0x20 0x11 d; d = io_outb io 0xA0 0x11 d;
          d = io_outb io 0x21 0x20 d; d = io_outb io 0xA1 0x28 d;
          d = io_outb io 0x21 0x04 d; d = io_outb io 0xA1 0x02 d;
          d = io_outb io 0x21 0x01 d; d = io_outb io 0xA1 0x01 d;
          d = io_outb io 0x21 a1 d
      in io_outb io 0xA1 a2 d)"

definition PIC_SetMask :: "'d port_io \<Rightarrow> u8 \<Rightarrow> 'd \<Rightarrow> 'd" where
  "PIC_SetMask io irq_line d =
     (if irq_line < 8 then
        let (v, d) = io_inb io 0x21 d in io_outb io 0x21 (v OR push_bit (unat irq_line) 1) d
      else
        let irq_line = irq_line - 8; (v, d) = io_inb io 0xA1 d
        in io_outb io 0xA1 (v OR push_bit (unat irq_line) 1) d)"

definition PIC_ClearMask :: "'d port_io \<Rightarrow> u8 \<Rightarrow> 'd \<Rightarrow> 'd" where
  "PIC_ClearMask io irq_line d =
     (if irq_line < 8 then
        let (v, d) = io_inb io 0x21 d in io_outb io 0x21 (v AND NOT (push_bit (unat irq_line) 1)) d
      else
        let irq_line = irq_line - 8; (v, d) = io_inb io 0xA1 d
        in io_outb io 0xA1 (v AND NOT (push_bit (unat irq_line) 1)) d)"

text \<open>\<open>PIT_Init\<close> divides by its argument: a zero frequency faults, which is \<open>None\<close>.\<close>

definition PIT_Init :: "'d port_io \<Rightarrow> u32 \<Rightarrow> 'd \<Rightarrow> 'd option" where
  "PIT_Init io frequency d =
     (if frequency = 0 then None
      else let divisor = 1193182 div frequency;
               d = io_outb io 0x43 0x36 d;
               d = io_outb io 0x40 (ucast (divisor AND 0xFF)) d
           in Some (io_outb io 0x40 (ucast (drop_bit 8 divisor AND 0xFF)) d))"

definition Timer_OnTick :: "u64 \<Rightarrow> u64" where
  "Timer_OnTick ticks = ticks + 1"

text \<open>The loop of \<open>kernel_main\<close> that masks IRQs 1 to 15, then unmasks IRQ 0.\<close>

definition mask_all_but_timer :: "'d port_io \<Rightarrow> 'd \<Rightarrow> 'd" where
  "mask_all_but_timer io d = PIC_ClearMask io 0 (fold (\<lambda>irq. PIC_SetMask io irq) (map of_nat [1..<16]) d)"

section \<open>The interrupt controllers\<close>

text \<open>
  One 8259: the mask, the vector of its first line, and the initialisation words it still waits for. The
  second word is always due, the third in a cascade (bit 1 of the first clear), the fourth when bit 0 says so.
\<close>

datatype icw = ICW2 | ICW3 | ICW4

record pic =
  pic_mask :: u8
  pic_base :: u8
  pic_due :: "icw list"

definition pic_command :: "u8 \<Rightarrow> pic \<Rightarrow> pic" where
  "pic_command v c =
     (if bit v 4
      then c\<lparr>pic_mask := 0, pic_due := ICW2 # (if bit v 1 then [] else [ICW3]) @ (if bit v 0 then [ICW4] else [])\<rparr>
      else c)"

definition pic_data :: "u8 \<Rightarrow> pic \<Rightarrow> pic" where
  "pic_data v c =
     (case pic_due c of
        [] \<Rightarrow> c\<lparr>pic_mask := v\<rparr>
      | ICW2 # r \<Rightarrow> c\<lparr>pic_base := v AND 0xF8, pic_due := r\<rparr>
      | _ # r \<Rightarrow> c\<lparr>pic_due := r\<rparr>)"

text \<open>Two controllers behind ports 0x20 and 0x21, and behind 0xA0 and 0xA1.\<close>

definition pic_protocol :: "'d port_io \<Rightarrow> ('d \<Rightarrow> pic) \<Rightarrow> ('d \<Rightarrow> pic) \<Rightarrow> bool" where
  "pic_protocol io c1 c2 \<longleftrightarrow> (\<forall>d v.
     fst (io_inb io 0x21 d) = pic_mask (c1 d) \<and> fst (io_inb io 0xA1 d) = pic_mask (c2 d) \<and>
     c1 (snd (io_inb io 0x21 d)) = c1 d \<and> c2 (snd (io_inb io 0x21 d)) = c2 d \<and>
     c1 (snd (io_inb io 0xA1 d)) = c1 d \<and> c2 (snd (io_inb io 0xA1 d)) = c2 d \<and>
     c1 (io_outb io 0x20 v d) = pic_command v (c1 d) \<and> c2 (io_outb io 0x20 v d) = c2 d \<and>
     c1 (io_outb io 0x21 v d) = pic_data v (c1 d) \<and> c2 (io_outb io 0x21 v d) = c2 d \<and>
     c1 (io_outb io 0xA0 v d) = c1 d \<and> c2 (io_outb io 0xA0 v d) = pic_command v (c2 d) \<and>
     c1 (io_outb io 0xA1 v d) = c1 d \<and> c2 (io_outb io 0xA1 v d) = pic_data v (c2 d))"

text \<open>Both controllers are initialised, with their lines at vectors 32 and 40.\<close>

definition pics_remapped :: "pic \<Rightarrow> pic \<Rightarrow> bool" where
  "pics_remapped c1 c2 \<longleftrightarrow> pic_due c1 = [] \<and> pic_due c2 = [] \<and> pic_base c1 = 0x20 \<and> pic_base c2 = 0x28"

text \<open>Whatever state the controllers are in, \<open>PIC_Remap\<close> initialises them and restores their masks.\<close>

lemma PIC_Remap_spec:
  assumes "pic_protocol io c1 c2"
  shows "pics_remapped (c1 (PIC_Remap io d)) (c2 (PIC_Remap io d))"
    "pic_mask (c1 (PIC_Remap io d)) = pic_mask (c1 d)" "pic_mask (c2 (PIC_Remap io d)) = pic_mask (c2 d)"
  using assms unfolding pic_protocol_def PIC_Remap_def pics_remapped_def
  by (simp_all add: split_beta Let_def pic_command_def pic_data_def)

text \<open>A mask write on an initialised controller.\<close>

lemma pic_data_mask: "pic_due c = [] \<Longrightarrow> pic_data v c = c\<lparr>pic_mask := v\<rparr>"
  by (simp add: pic_data_def)

text \<open>The sixteen mask bits together: bit \<open>n\<close> set means IRQ \<open>n\<close> is masked.\<close>

definition masked :: "u8 \<Rightarrow> u8 \<Rightarrow> nat \<Rightarrow> bool" where
  "masked v1 v2 n = (if n < 8 then bit v1 n else bit v2 (n - 8))"

lemma bit_push1: "bit (push_bit k 1 :: u8) n \<longleftrightarrow> n = k \<and> n < 8"
  by (auto simp: push_bit_of_1 bit_exp_iff possible_bit_word)

text \<open>What a step leaves of the controllers: initialised as before, with the mask bits \<open>P\<close>.\<close>

definition masks_to :: "('d \<Rightarrow> pic) \<Rightarrow> ('d \<Rightarrow> pic) \<Rightarrow> 'd \<Rightarrow> 'd \<Rightarrow> (nat \<Rightarrow> bool) \<Rightarrow> bool" where
  "masks_to c1 c2 d t P \<longleftrightarrow>
     pic_due (c1 t) = pic_due (c1 d) \<and> pic_due (c2 t) = pic_due (c2 d) \<and>
     pic_base (c1 t) = pic_base (c1 d) \<and> pic_base (c2 t) = pic_base (c2 d) \<and>
     (\<forall>n < 16. masked (pic_mask (c1 t)) (pic_mask (c2 t)) n \<longleftrightarrow> P n)"

lemma unat_slave_line: "\<not> irq < (8 :: u8) \<Longrightarrow> irq < 16 \<Longrightarrow> unat (irq - 8) = unat irq - 8 \<and> 8 \<le> unat irq \<and> unat irq < 16"
  by (auto simp: unat_sub_small word_less_nat_alt word_le_nat_alt not_less)

lemma PIC_SetMask_spec:
  assumes "pic_protocol io c1 c2" "pic_due (c1 d) = []" "pic_due (c2 d) = []" "irq < 16"
  shows "masks_to c1 c2 d (PIC_SetMask io irq d)
    (\<lambda>n. n = unat irq \<or> masked (pic_mask (c1 d)) (pic_mask (c2 d)) n)"
proof (cases "irq < 8")
  case True
  then have "unat irq < 8" by (simp add: word_less_nat_alt)
  moreover have "c1 (PIC_SetMask io irq d) = (c1 d)\<lparr>pic_mask := pic_mask (c1 d) OR push_bit (unat irq) 1\<rparr>"
    "c2 (PIC_SetMask io irq d) = c2 d"
    using assms(1,2) True unfolding pic_protocol_def PIC_SetMask_def
    by (simp_all del: push_bit_of_1 add: split_beta Let_def pic_data_mask)
  ultimately show ?thesis by (auto simp: masks_to_def masked_def bit_or_iff bit_push1 simp del: push_bit_of_1)
next
  case False
  moreover have "c2 (PIC_SetMask io irq d) = (c2 d)\<lparr>pic_mask := pic_mask (c2 d) OR push_bit (unat (irq - 8)) 1\<rparr>"
    "c1 (PIC_SetMask io irq d) = c1 d"
    using assms(1,3) False unfolding pic_protocol_def PIC_SetMask_def
    by (simp_all del: push_bit_of_1 add: split_beta Let_def pic_data_mask)
  ultimately show ?thesis using unat_slave_line[OF _ assms(4)]
    by (auto simp: masks_to_def masked_def bit_or_iff bit_push1 simp del: push_bit_of_1)
qed

lemma PIC_ClearMask_spec:
  assumes "pic_protocol io c1 c2" "pic_due (c1 d) = []" "pic_due (c2 d) = []" "irq < 16"
  shows "masks_to c1 c2 d (PIC_ClearMask io irq d)
    (\<lambda>n. n \<noteq> unat irq \<and> masked (pic_mask (c1 d)) (pic_mask (c2 d)) n)"
proof (cases "irq < 8")
  case True
  then have "unat irq < 8" by (simp add: word_less_nat_alt)
  moreover have "c1 (PIC_ClearMask io irq d) = (c1 d)\<lparr>pic_mask := pic_mask (c1 d) AND NOT (push_bit (unat irq) 1)\<rparr>"
    "c2 (PIC_ClearMask io irq d) = c2 d"
    using assms(1,2) True unfolding pic_protocol_def PIC_ClearMask_def
    by (simp_all del: push_bit_of_1 add: split_beta Let_def pic_data_mask)
  ultimately show ?thesis
    by (auto simp: masks_to_def masked_def bit_and_iff bit_not_iff bit_push1 possible_bit_word simp del: push_bit_of_1)
next
  case False
  moreover have "c2 (PIC_ClearMask io irq d) = (c2 d)\<lparr>pic_mask := pic_mask (c2 d) AND NOT (push_bit (unat (irq - 8)) 1)\<rparr>"
    "c1 (PIC_ClearMask io irq d) = c1 d"
    using assms(1,3) False unfolding pic_protocol_def PIC_ClearMask_def
    by (simp_all del: push_bit_of_1 add: split_beta Let_def pic_data_mask)
  ultimately show ?thesis using unat_slave_line[OF _ assms(4)]
    by (auto simp: masks_to_def masked_def bit_and_iff bit_not_iff bit_push1 possible_bit_word simp del: push_bit_of_1)
qed

lemma fold_SetMask_spec:
  "pic_protocol io c1 c2 \<Longrightarrow> (\<forall>irq \<in> set irqs. irq < 16) \<Longrightarrow> pic_due (c1 d) = [] \<Longrightarrow> pic_due (c2 d) = [] \<Longrightarrow>
   masks_to c1 c2 d (fold (PIC_SetMask io) irqs d)
     (\<lambda>n. n \<in> unat ` set irqs \<or> masked (pic_mask (c1 d)) (pic_mask (c2 d)) n)"
proof (induction irqs arbitrary: d)
  case (Cons irq irqs)
  have 1: "masks_to c1 c2 d (PIC_SetMask io irq d) (\<lambda>n. n = unat irq \<or> masked (pic_mask (c1 d)) (pic_mask (c2 d)) n)"
    by (rule PIC_SetMask_spec) (use Cons.prems in simp_all)
  then have "pic_due (c1 (PIC_SetMask io irq d)) = []" "pic_due (c2 (PIC_SetMask io irq d)) = []"
    using Cons.prems by (simp_all add: masks_to_def)
  from Cons.IH[OF Cons.prems(1) _ this] show ?case using 1 Cons.prems(2) by (auto simp: masks_to_def)
qed (simp add: masks_to_def)

section \<open>Properties\<close>

lemma mask_all_spec:
  assumes "pic_protocol io c1 c2" "pic_due (c1 d) = []" "pic_due (c2 d) = []"
  shows "masks_to c1 c2 d (mask_all_but_timer io d) (\<lambda>n. n \<noteq> 0)"
proof -
  let ?d = "fold (PIC_SetMask io) (map of_nat [1..<16]) d"
  have r: "\<forall>irq \<in> set (map of_nat [1..<16]). (irq :: u8) < 16"
    by (auto simp: word_less_nat_alt unat_of_nat_small)
  have img: "unat ` set (map of_nat [1..<16] :: u8 list) = {1..<16}"
    by (force simp: unat_of_nat_small image_iff)
  have m: "masks_to c1 c2 d ?d (\<lambda>n. n \<in> {1..<16} \<or> masked (pic_mask (c1 d)) (pic_mask (c2 d)) n)"
    using fold_SetMask_spec[OF assms(1) r assms(2,3)] unfolding img .
  then have "pic_due (c1 ?d) = []" "pic_due (c2 ?d) = []" using assms(2,3) by (simp_all add: masks_to_def)
  from PIC_ClearMask_spec[OF assms(1) this, of 0] show ?thesis
    using m by (auto simp: masks_to_def mask_all_but_timer_def)
qed

text \<open>The sequence of \<open>kernel_main\<close>: the controllers are initialised and only the timer line is open.\<close>

lemma remap_and_mask_spec:
  assumes "pic_protocol io c1 c2" "t = mask_all_but_timer io (PIC_Remap io d)"
  shows "pics_remapped (c1 t) (c2 t) \<and> (\<forall>n < 16. masked (pic_mask (c1 t)) (pic_mask (c2 t)) n \<longleftrightarrow> n \<noteq> 0)"
  using mask_all_spec[OF assms(1), of "PIC_Remap io d"] PIC_Remap_spec(1)[OF assms(1), of d]
  by (simp add: masks_to_def pics_remapped_def assms(2))

text \<open>
  On initialised controllers PIC_SetMask and PIC_ClearMask set and clear the mask bit of one
  interrupt line on either controller and leave the other fifteen alone; from any state, the boot
  sequence of kernel_main moves the lines to vectors 32 to 47 and leaves only the timer unmasked.
\<close>

theorem only_timer_unmasked:
  assumes "pic_protocol io c1 c2" "pic_due (c1 d) = []" "pic_due (c2 d) = []" "irq < 16" "n < 16"
  shows "(masked (pic_mask (c1 (PIC_SetMask io irq d))) (pic_mask (c2 (PIC_SetMask io irq d))) n \<longleftrightarrow>
      n = unat irq \<or> masked (pic_mask (c1 d)) (pic_mask (c2 d)) n) \<and>
    (masked (pic_mask (c1 (PIC_ClearMask io irq d))) (pic_mask (c2 (PIC_ClearMask io irq d))) n \<longleftrightarrow>
      n \<noteq> unat irq \<and> masked (pic_mask (c1 d)) (pic_mask (c2 d)) n) \<and>
    pics_remapped (c1 (mask_all_but_timer io (PIC_Remap io e))) (c2 (mask_all_but_timer io (PIC_Remap io e))) \<and>
    (masked (pic_mask (c1 (mask_all_but_timer io (PIC_Remap io e)))) (pic_mask (c2 (mask_all_but_timer io (PIC_Remap io e)))) n
      \<longleftrightarrow> n \<noteq> 0)"
  using PIC_SetMask_spec[OF assms(1-4)] PIC_ClearMask_spec[OF assms(1-4)] remap_and_mask_spec[OF assms(1) refl, of e] assms(5)
  by (simp add: masks_to_def)

text \<open>Two controllers, one of them in the middle of an initialisation.\<close>

definition pic_example :: "(pic \<times> pic) port_io" where
  "pic_example = \<lparr>io_inb = (\<lambda>p d. (if p = 0x21 then pic_mask (fst d) else if p = 0xA1 then pic_mask (snd d) else 0, d)),
     io_outb = (\<lambda>p v d. if p = 0x20 then (pic_command v (fst d), snd d) else if p = 0x21 then (pic_data v (fst d), snd d)
       else if p = 0xA0 then (fst d, pic_command v (snd d)) else if p = 0xA1 then (fst d, pic_data v (snd d)) else d),
     io_inw = (\<lambda>p d. (0, d)), io_outw = (\<lambda>p v d. d), io_inl = (\<lambda>p d. (0, d)), io_outl = (\<lambda>p v d. d)\<rparr>"

lemma pic_example_protocol: "pic_protocol pic_example fst snd"
  by (simp add: pic_protocol_def pic_example_def)

definition pics_ready :: "pic \<times> pic" where
  "pics_ready = (\<lparr>pic_mask = 0, pic_base = 8, pic_due = []\<rparr>, \<lparr>pic_mask = 0, pic_base = 0x70, pic_due = []\<rparr>)"

definition pics_busy :: "pic \<times> pic" where
  "pics_busy = (\<lparr>pic_mask = 0, pic_base = 8, pic_due = [ICW3, ICW4]\<rparr>, \<lparr>pic_mask = 0xFF, pic_base = 0x70, pic_due = []\<rparr>)"

theorem only_timer_unmasked_witness:
  "masked (pic_mask (fst (PIC_SetMask pic_example 9 pics_ready))) (pic_mask (snd (PIC_SetMask pic_example 9 pics_ready))) 9 \<and>
   pic_base (fst (mask_all_but_timer pic_example (PIC_Remap pic_example pics_busy))) = 0x20"
  using only_timer_unmasked[OF pic_example_protocol, of pics_ready 9 9 pics_busy]
  by (simp add: pics_ready_def pics_remapped_def)

end
