(* ===== verification/Tasks.thy ===== *)
theory Tasks
  imports Interrupts
begin

text \<open>
  The preemptive scheduler \<open>src/kernel/tasking/task.c\<close> and its caller \<open>irq0_handler\<close> of
  \<open>src/kernel/cpu/idt.c\<close>. The task table has ten slots; a task is its saved stack pointer and
  whether it is active. \<open>Task_Create\<close> builds the initial frame of a task in memory, here a
  store of 64-bit cells. \<open>Task_Exit\<close> halts the machine when no task is left: \<open>None\<close>.
\<close>

section \<open>State and operations\<close>

record task =
  t_rsp :: u64
  t_active :: u8

record sched =
  tasks :: "task list"
  task_count :: nat
  current_task :: nat

definition set_task :: "nat \<Rightarrow> task \<Rightarrow> sched \<Rightarrow> sched" where
  "set_task i t s = s\<lparr>tasks := (tasks s)[i := t]\<rparr>"

definition Task_Init :: "sched \<Rightarrow> sched" where
  "Task_Init s = set_task 0 ((tasks s ! 0)\<lparr>t_active := 1\<rparr>) (s\<lparr>task_count := 1, current_task := 0\<rparr>)"

definition push :: "u64 \<Rightarrow> u64 \<times> (u64 \<Rightarrow> u64) \<Rightarrow> u64 \<times> (u64 \<Rightarrow> u64)" where
  "push v sm = (let (stack, m) = sm; stack = stack - 8 in (stack, m(stack := v)))"

definition Task_Create :: "u64 \<Rightarrow> u64 \<Rightarrow> (u64 \<Rightarrow> u64) \<times> sched \<Rightarrow> (u64 \<Rightarrow> u64) \<times> sched" where
  "Task_Create entry stack_top ms =
     (let (m, s) = ms in
      if 10 \<le> task_count s then (m, s)
      else
        let st = push 0x10 (stack_top, m);
            st = push stack_top st;
            st = push 0x202 st;
            st = push 0x08 st;
            st = push entry st;
            (stack, m') = (push 0 ^^ 15) st
        in (m', (set_task (task_count s) \<lparr>t_rsp = stack, t_active = 1\<rparr> s)\<lparr>task_count := task_count s + 1\<rparr>))"

text \<open>The search both \<open>Task_Schedule\<close> and \<open>Task_Exit\<close> make: \<open>k\<close> iterations are left.\<close>

fun next_active_loop :: "nat \<Rightarrow> nat \<Rightarrow> sched \<Rightarrow> nat option" where
  "next_active_loop 0 i s = None"
| "next_active_loop (Suc k) i s =
     (let next = (current_task s + 1 + i) mod task_count s in
      if t_active (tasks s ! next) \<noteq> 0 then Some next else next_active_loop k (i + 1) s)"

definition Task_Schedule :: "u64 \<Rightarrow> sched \<Rightarrow> u64 \<times> sched" where
  "Task_Schedule current_rsp s =
     (let s = set_task (current_task s) ((tasks s ! current_task s)\<lparr>t_rsp := current_rsp\<rparr>) s in
      case next_active_loop (task_count s) 0 s of
        Some next \<Rightarrow> (t_rsp (tasks s ! next), s\<lparr>current_task := next\<rparr>)
      | None \<Rightarrow> (current_rsp, s))"

definition Task_Exit :: "sched \<Rightarrow> (u64 \<times> sched) option" where
  "Task_Exit s =
     (let s = set_task (current_task s) ((tasks s ! current_task s)\<lparr>t_active := 0\<rparr>) s in
      case next_active_loop (task_count s) 0 s of
        Some next \<Rightarrow> Some (t_rsp (tasks s ! next), s\<lparr>current_task := next\<rparr>)
      | None \<Rightarrow> None)"

text \<open>The timer interrupt: count the tick, pick the next task, acknowledge the interrupt.\<close>

definition irq0_handler :: "'d port_io \<Rightarrow> u64 \<Rightarrow> u64 \<times> sched \<times> 'd \<Rightarrow> u64 \<times> u64 \<times> sched \<times> 'd" where
  "irq0_handler io rsp st =
     (let (ticks, s, d) = st; ticks = Timer_OnTick ticks; (rsp, s) = Task_Schedule rsp s
      in (rsp, ticks, s, PIC_EndMaster io d))"

section \<open>The search\<close>

definition active :: "sched \<Rightarrow> nat \<Rightarrow> bool" where
  "active s i \<longleftrightarrow> i < task_count s \<and> t_active (tasks s ! i) \<noteq> 0"

definition sched_wf :: "sched \<Rightarrow> bool" where
  "sched_wf s \<longleftrightarrow> length (tasks s) = 10 \<and> task_count s \<le> 10 \<and> current_task s < task_count s"

text \<open>How many steps after the current task the round robin reaches task \<open>k\<close>, minus one.\<close>

definition dist :: "sched \<Rightarrow> nat \<Rightarrow> nat" where
  "dist s k = (k + task_count s - current_task s - 1) mod task_count s"

lemma dist_less: "current_task s < task_count s \<Longrightarrow> dist s k < task_count s"
  by (simp add: dist_def)

lemma nth_dist:
  assumes "current_task s < task_count s" "k < task_count s"
  shows "(current_task s + 1 + dist s k) mod task_count s = k"
proof -
  have "(current_task s + 1 + dist s k) mod task_count s =
      (current_task s + 1 + (k + task_count s - current_task s - 1)) mod task_count s"
    unfolding dist_def by (rule mod_add_right_eq)
  also have "current_task s + 1 + (k + task_count s - current_task s - 1) = k + task_count s"
    using assms by linarith
  finally show ?thesis using assms by simp
qed

lemma dist_nth:
  assumes "current_task s < task_count s" "i < task_count s"
  shows "dist s ((current_task s + 1 + i) mod task_count s) = i"
proof (cases "current_task s + 1 + i < task_count s")
  case True
  then show ?thesis using assms by (simp add: dist_def)
next
  case False
  then have "(current_task s + 1 + i) mod task_count s = current_task s + 1 + i - task_count s"
    using assms by (subst mod_if) (simp add: le_mod_geq)
  then show ?thesis using False assms by (simp add: dist_def)
qed

lemma next_active_loop_None:
  "next_active_loop k i s = None \<longleftrightarrow>
     (\<forall>j. i \<le> j \<and> j < i + k \<longrightarrow> t_active (tasks s ! ((current_task s + 1 + j) mod task_count s)) = 0)"
proof (induction k i s rule: next_active_loop.induct)
  case (2 k i s)
  have "(\<forall>j. i \<le> j \<and> j < i + Suc k \<longrightarrow> P j) \<longleftrightarrow> P i \<and> (\<forall>j. i + 1 \<le> j \<and> j < i + 1 + k \<longrightarrow> P j)" for P
    by (auto simp: le_less Suc_le_eq) (metis Suc_leI le_eq_less_or_eq)
  with 2 show ?case by (simp add: Let_def)
qed auto

lemma next_active_loop_Some:
  "next_active_loop k i s = Some n \<Longrightarrow> \<exists>j. i \<le> j \<and> j < i + k \<and> n = (current_task s + 1 + j) mod task_count s \<and>
     t_active (tasks s ! n) \<noteq> 0 \<and>
     (\<forall>l. i \<le> l \<and> l < j \<longrightarrow> t_active (tasks s ! ((current_task s + 1 + l) mod task_count s)) = 0)"
proof (induction k i s rule: next_active_loop.induct)
  case (2 k i s)
  show ?case
  proof (cases "t_active (tasks s ! ((current_task s + 1 + i) mod task_count s)) \<noteq> 0")
    case True
    with 2 show ?thesis by (intro exI[of _ i]) (auto simp: Let_def)
  next
    case False
    with 2 obtain j where j: "i + 1 \<le> j" "j < i + 1 + k" "n = (current_task s + 1 + j) mod task_count s"
      "t_active (tasks s ! n) \<noteq> 0"
      "\<forall>l. i + 1 \<le> l \<and> l < j \<longrightarrow> t_active (tasks s ! ((current_task s + 1 + l) mod task_count s)) = 0"
      by (auto simp: Let_def)
    have "t_active (tasks s ! ((current_task s + 1 + l) mod task_count s)) = 0" if "i \<le> l" "l < j" for l
      using j(5) False that by (cases "l = i") auto
    with j show ?thesis by (intro exI[of _ j]) auto
  qed
qed simp

text \<open>The search picks the active task the round robin reaches first.\<close>

lemma next_active_spec:
  assumes "sched_wf s"
  shows "(next_active_loop (task_count s) 0 s = None \<and> (\<forall>k. \<not> active s k)) \<or>
    (\<exists>n. next_active_loop (task_count s) 0 s = Some n \<and> active s n \<and> (\<forall>k. active s k \<longrightarrow> dist s n \<le> dist s k))"
proof -
  have cur: "current_task s < task_count s" using assms by (simp add: sched_wf_def)
  show ?thesis
  proof (cases "next_active_loop (task_count s) 0 s")
    case None
    have "\<not> active s k" for k
      using None nth_dist[OF cur, of k] dist_less[OF cur, of k]
      by (auto simp: next_active_loop_None active_def)
    with None show ?thesis by simp
  next
    case (Some n)
    from next_active_loop_Some[OF Some] obtain j where j: "j < task_count s"
      "n = (current_task s + 1 + j) mod task_count s" "t_active (tasks s ! n) \<noteq> 0"
      "\<forall>l < j. t_active (tasks s ! ((current_task s + 1 + l) mod task_count s)) = 0" by auto
    have n: "active s n" using j cur by (simp add: active_def)
    have "dist s n = j" using dist_nth[OF cur j(1)] j(2) by simp
    moreover have "j \<le> dist s k" if "active s k" for k
    proof (rule ccontr)
      assume "\<not> j \<le> dist s k"
      then have "t_active (tasks s ! ((current_task s + 1 + dist s k) mod task_count s)) = 0" using j(4) by simp
      with nth_dist[OF cur, of k] that show False by (simp add: active_def)
    qed
    ultimately show ?thesis using Some n by auto
  qed
qed

section \<open>Scheduling\<close>

lemma save_fields [simp]:
  "task_count (set_task i t s) = task_count s" "current_task (set_task i t s) = current_task s"
  "length (tasks (set_task i t s)) = length (tasks s)"
  by (simp_all add: set_task_def)

lemma active_save:
  "sched_wf s \<Longrightarrow> active (set_task (current_task s) ((tasks s ! current_task s)\<lparr>t_rsp := r\<rparr>) s) k = active s k"
  by (cases "k = current_task s") (auto simp: active_def set_task_def sched_wf_def)

lemma dist_save [simp]: "dist (set_task i t s) k = dist s k"
  by (simp add: dist_def)

lemma Task_Schedule_spec:
  assumes wf: "sched_wf s" and sch: "Task_Schedule r s = (r', s')"
  shows "sched_wf s'" "\<And>k. active s' k = active s k" "task_count s' = task_count s"
    "\<And>k. k < 10 \<Longrightarrow> t_rsp (tasks s' ! k) = (if k = current_task s then r else t_rsp (tasks s ! k))"
    "(\<exists>k. active s k) \<Longrightarrow> active s (current_task s') \<and> r' = t_rsp (tasks s' ! current_task s') \<and>
       (\<forall>k. active s k \<longrightarrow> dist s (current_task s') \<le> dist s k)"
    "\<not> (\<exists>k. active s k) \<Longrightarrow> current_task s' = current_task s \<and> r' = r"
proof -
  let ?s = "set_task (current_task s) ((tasks s ! current_task s)\<lparr>t_rsp := r\<rparr>) s"
  have wf': "sched_wf ?s" using wf by (simp add: sched_wf_def)
  have len: "length (tasks s) = 10" using wf by (simp add: sched_wf_def)
  have cases: "(s' = ?s \<and> r' = r \<and> (\<forall>k. \<not> active s k)) \<or>
    (\<exists>n. s' = ?s\<lparr>current_task := n\<rparr> \<and> r' = t_rsp (tasks ?s ! n) \<and> active s n \<and>
      (\<forall>k. active s k \<longrightarrow> dist s n \<le> dist s k))"
    using next_active_spec[OF wf'] sch active_save[OF wf] by (auto simp: Task_Schedule_def Let_def)
  have "active (?s\<lparr>current_task := n\<rparr>) k = active ?s k" for n k by (simp add: active_def)
  with cases show "\<And>k. active s' k = active s k" using active_save[OF wf] by auto
  from cases show "sched_wf s'" using wf' by (auto simp: sched_wf_def active_def)
  from cases show "task_count s' = task_count s" by auto
  from cases show "\<And>k. k < 10 \<Longrightarrow> t_rsp (tasks s' ! k) = (if k = current_task s then r else t_rsp (tasks s ! k))"
    using len by (auto simp: set_task_def nth_list_update)
  from cases show "(\<exists>k. active s k) \<Longrightarrow> active s (current_task s') \<and> r' = t_rsp (tasks s' ! current_task s') \<and>
       (\<forall>k. active s k \<longrightarrow> dist s (current_task s') \<le> dist s k)" by auto
  from cases show "\<not> (\<exists>k. active s k) \<Longrightarrow> current_task s' = current_task s \<and> r' = r" by auto
qed

text \<open>A run of timer ticks: each tick hands the scheduler the interrupted stack pointer.\<close>

fun run_ticks :: "u64 list \<Rightarrow> sched \<Rightarrow> sched" where
  "run_ticks [] s = s"
| "run_ticks (r # rs) s = run_ticks rs (snd (Task_Schedule r s))"

lemma dist_step:
  assumes "sched_wf s" "active s k" "Task_Schedule r s = (r', s')" "current_task s' \<noteq> k"
  shows "dist s' k < dist s k"
proof -
  note sp = Task_Schedule_spec[OF assms(1,3)]
  let ?n = "current_task s'"
  have n: "active s ?n" "dist s ?n \<le> dist s k" using sp(5) assms(2) by auto
  have cur: "current_task s < task_count s" using assms(1) by (simp add: sched_wf_def)
  have kb: "k < task_count s" "?n < task_count s" using assms(2) n(1) by (simp_all add: active_def)
  have e: "(current_task s + 1 + dist s ?n) mod task_count s = ?n"
    "(current_task s + 1 + dist s k) mod task_count s = k"
    using nth_dist[OF cur] kb by auto
  have "dist s ?n \<noteq> dist s k" using e assms(4) by auto
  then have lt: "dist s ?n < dist s k" using n(2) by simp
  have cur': "current_task s' < task_count s'" using kb sp(3) by simp
  have "?n + 1 + (dist s k - dist s ?n - 1) = ?n + (dist s k - dist s ?n)" using lt by simp
  then have "(?n + 1 + (dist s k - dist s ?n - 1)) mod task_count s =
      ((current_task s + 1 + dist s ?n) mod task_count s + (dist s k - dist s ?n)) mod task_count s"
    using e(1) by (simp only:)
  also have "\<dots> = (current_task s + 1 + dist s ?n + (dist s k - dist s ?n)) mod task_count s"
    by (rule mod_add_left_eq)
  also have "\<dots> = k" using lt e(2) by simp
  finally have "(?n + 1 + (dist s k - dist s ?n - 1)) mod task_count s' = k" using sp(3) by simp
  moreover have "dist s k - dist s ?n - 1 < task_count s'"
    using dist_less[OF cur, of k] sp(3) by simp
  ultimately have "dist s' k = dist s k - dist s ?n - 1" using dist_nth[OF cur'] by metis
  with lt show ?thesis by simp
qed

lemma run_ticks_reaches:
  "sched_wf s \<Longrightarrow> active s k \<Longrightarrow> dist s k < length rs \<Longrightarrow>
   \<exists>n \<le> dist s k. current_task (run_ticks (take (Suc n) rs) s) = k"
proof (induction "dist s k" arbitrary: s rs rule: less_induct)
  case less
  then obtain r rs' where rs: "rs = r # rs'" by (cases rs) auto
  obtain r' s' where st: "Task_Schedule r s = (r', s')" by fastforce
  note sp = Task_Schedule_spec[OF less.prems(1) st]
  show ?case
  proof (cases "current_task s' = k")
    case True
    then show ?thesis using rs st by (intro exI[of _ 0]) simp
  next
    case False
    have d: "dist s' k < dist s k" using dist_step[OF less.prems(1,2) st False] .
    then obtain n where "n \<le> dist s' k" "current_task (run_ticks (take (Suc n) rs') s') = k"
      using less.hyps[of s' rs'] sp less.prems rs by auto
    then show ?thesis using rs st d by (intro exI[of _ "Suc n"]) simp
  qed
qed

section \<open>Creating and ending tasks\<close>

lemma push_n_mem:
  "(push 0 ^^ n) (stack, m) = (stack - of_nat (8 * n),
     \<lambda>a. if \<exists>i<n. a = stack - of_nat (8 * (i + 1)) then 0 else m a)"
proof (induction n)
  case (Suc n)
  have "(\<exists>i<Suc n. P i) \<longleftrightarrow> P n \<or> (\<exists>i<n. P i)" for P by (auto simp: less_Suc_eq)
  with Suc show ?case by (auto simp: push_def Let_def algebra_simps fun_eq_iff)
qed simp

lemma sched_wf_Create:
  "sched_wf s \<Longrightarrow> sched_wf (snd (Task_Create e t (m, s)))"
  by (auto simp: Task_Create_def sched_wf_def Let_def split: prod.splits)

section \<open>Properties\<close>

definition sched_example :: sched where
  "sched_example = \<lparr>tasks = map (\<lambda>i. \<lparr>t_rsp = of_nat (0x1000 * i), t_active = (if i < 3 then 1 else 0)\<rparr>) [0..<10],
     task_count = 3, current_task = 1\<rparr>"

lemma sched_example_ok: "sched_wf sched_example" "active sched_example 0" "dist sched_example 0 = 1"
  by (simp_all add: sched_wf_def sched_example_def active_def dist_def)

text \<open>
  C9. Task_Schedule saves the interrupted stack pointer in the current task's slot only and
  switches to the active task that comes next in round-robin order, with the stack pointer saved
  for it; without an active task it stays where it is.
\<close>

theorem schedule_round_robin:
  assumes "sched_wf s"
  shows "case Task_Schedule r s of (r', s') \<Rightarrow>
    sched_wf s' \<and> (\<forall>k. active s' k = active s k) \<and>
    (\<forall>k < 10. t_rsp (tasks s' ! k) = (if k = current_task s then r else t_rsp (tasks s ! k))) \<and>
    (if \<exists>k. active s k
     then active s (current_task s') \<and> r' = t_rsp (tasks s' ! current_task s') \<and>
       (\<forall>k. active s k \<longrightarrow> dist s (current_task s') \<le> dist s k)
     else current_task s' = current_task s \<and> r' = r)"
proof -
  obtain r' s' where "Task_Schedule r s = (r', s')" by fastforce
  from Task_Schedule_spec[OF assms this] this show ?thesis by (simp only: prod.case) simp
qed

theorem schedule_round_robin_witness:
  "active sched_example (current_task (snd (Task_Schedule 0x9000 sched_example)))"
proof -
  have "\<exists>k. active sched_example k" using sched_example_ok(2) by blast
  with schedule_round_robin[OF sched_example_ok(1), of "0x9000"] show ?thesis by (simp add: split_beta)
qed

text \<open>
  C10. Under the timer every active task gets the processor within as many ticks as there are
  tasks.
\<close>

theorem every_task_runs:
  assumes "sched_wf s" "active s k" "task_count s \<le> length rs"
  shows "\<exists>n < task_count s. current_task (run_ticks (take (Suc n) rs) s) = k"
proof -
  have "dist s k < task_count s" using assms(1) by (intro dist_less) (simp add: sched_wf_def)
  with run_ticks_reaches[OF assms(1,2), of rs] assms(3) show ?thesis by (meson le_less_trans less_le_trans)
qed

theorem every_task_runs_witness:
  "\<exists>n < 3. current_task (run_ticks (take (Suc n) [0x10, 0x20, 0x30]) sched_example) = 0"
  using every_task_runs[OF sched_example_ok(1,2), of "[0x10, 0x20, 0x30]"] by (simp add: sched_example_def)

lemma push_15: "(push 0 ^^ 15) sm = push 0 (push 0 (push 0 (push 0 (push 0 (push 0 (push 0 (push 0
    (push 0 (push 0 (push 0 (push 0 (push 0 (push 0 (push 0 sm))))))))))))))"
  by (simp add: numeral_eq_Suc)

lemma replicate_15: "replicate 15 (0 :: u64) = [0, 0, 0, 0, 0, 0, 0, 0, 0, 0, 0, 0, 0, 0, 0]"
  by (simp add: numeral_eq_Suc)

lemma Task_Create_eq:
  assumes "task_count s < 10"
  shows "Task_Create e st (m, s) = (m(st - 8 := 0x10, st - 16 := st, st - 24 := 0x202, st - 32 := 0x08, st - 40 := e,
      st - 48 := 0, st - 56 := 0, st - 64 := 0, st - 72 := 0, st - 80 := 0, st - 88 := 0, st - 96 := 0, 
      st - 104 := 0, st - 112 := 0, st - 120 := 0, st - 128 := 0, st - 136 := 0, st - 144 := 0, st - 152 := 0, st - 160 := 0),
    (set_task (task_count s) \<lparr>t_rsp = st - 160, t_active = 1\<rparr> s)\<lparr>task_count := task_count s + 1\<rparr>)"
  using assms by (simp add: Task_Create_def push_15 push_def Let_def)

text \<open>
  Task_Create fills the next free slot with an active task whose stack holds the frame the
  interrupt return pops (15 zero registers, entry point, code selector, flags, stack top, data
  selector), writes no other memory, and does nothing when the table is full.
\<close>

theorem create_initial_frame:
  assumes "sched_wf s"
  shows "case Task_Create e st (m, s) of (m', s') \<Rightarrow> sched_wf s' \<and>
    (if task_count s = 10 then m' = m \<and> s' = s
     else task_count s' = task_count s + 1 \<and> current_task s' = current_task s \<and>
       tasks s' ! task_count s = \<lparr>t_rsp = st - 160, t_active = 1\<rparr> \<and>
       (\<forall>k < 10. k \<noteq> task_count s \<longrightarrow> tasks s' ! k = tasks s ! k) \<and>
       map (\<lambda>i. m' (st - 160 + 8 * of_nat i)) [0..<20] = replicate 15 0 @ [e, 0x08, 0x202, st, 0x10] \<and>
       (\<forall>a. a \<notin> set (map (\<lambda>i. st - 160 + 8 * of_nat i) [0..<20]) \<longrightarrow> m' a = m a))"
proof (cases "task_count s = 10")
  case True
  with assms show ?thesis by (simp add: Task_Create_def)
next
  case False
  then have lt: "task_count s < 10" using assms by (simp add: sched_wf_def)
  show ?thesis
    unfolding Task_Create_eq[OF lt] using False assms
    by (simp add: sched_wf_def set_task_def upt_rec replicate_15)
qed


lemma Task_Exit_spec:
  assumes "sched_wf s"
  shows "case Task_Exit s of
      None \<Rightarrow> \<forall>k. active s k \<longrightarrow> k = current_task s
    | Some (r, s') \<Rightarrow> sched_wf s' \<and> (\<forall>k. active s' k \<longleftrightarrow> active s k \<and> k \<noteq> current_task s) \<and>
        active s' (current_task s') \<and> r = t_rsp (tasks s ! current_task s') \<and>
        (\<forall>k. active s' k \<longrightarrow> dist s (current_task s') \<le> dist s k)"
proof -
  let ?s = "set_task (current_task s) ((tasks s ! current_task s)\<lparr>t_active := 0\<rparr>) s"
  have wf: "sched_wf ?s" using assms by (simp add: sched_wf_def)
  have act: "active ?s k \<longleftrightarrow> active s k \<and> k \<noteq> current_task s" for k
    using assms by (cases "k = current_task s") (auto simp: active_def set_task_def sched_wf_def)
  have rsp: "t_rsp (tasks ?s ! k) = t_rsp (tasks s ! k)" for k
    using assms by (cases "k = current_task s") (auto simp: set_task_def sched_wf_def)
  have act': "active (?s\<lparr>current_task := n\<rparr>) k = active ?s k" for n k by (simp add: active_def)
  from next_active_spec[OF wf] show ?thesis
  proof (elim disjE conjE exE)
    assume "next_active_loop (task_count ?s) 0 ?s = None" "\<forall>k. \<not> active ?s k"
    then show ?thesis using act by (auto simp: Task_Exit_def Let_def)
  next
    fix n assume n: "next_active_loop (task_count ?s) 0 ?s = Some n" "active ?s n"
      "\<forall>k. active ?s k \<longrightarrow> dist ?s n \<le> dist ?s k"
    then have "Task_Exit s = Some (t_rsp (tasks ?s ! n), ?s\<lparr>current_task := n\<rparr>)"
      by (simp add: Task_Exit_def Let_def)
    moreover have "sched_wf (?s\<lparr>current_task := n\<rparr>)"
      using wf n(2) by (simp add: sched_wf_def active_def)
    ultimately show ?thesis using n(2,3) act act' rsp by simp
  qed
qed

theorem create_initial_frame_witness:
  "t_rsp (tasks (snd (Task_Create 0x5000 0x80000 (\<lambda>a. 0, sched_example))) ! 3) = 0x7FF60"
proof -
  have "task_count sched_example = 3" by (simp add: sched_example_def)
  with create_initial_frame[OF sched_example_ok(1), where e = "0x5000" and st = "0x80000" and m = "\<lambda>a. 0"] show ?thesis
    by (simp add: split_beta)
qed

text \<open>
  Task_Exit deactivates the current task and resumes the next active one in round-robin
  order; it halts only when no other task is active.
\<close>

theorem exit_switches:
  assumes "sched_wf s"
  shows "case Task_Exit s of
      None \<Rightarrow> \<forall>k. active s k \<longrightarrow> k = current_task s
    | Some (r, s') \<Rightarrow> sched_wf s' \<and> (\<forall>k. active s' k \<longleftrightarrow> active s k \<and> k \<noteq> current_task s) \<and>
        active s' (current_task s') \<and> r = t_rsp (tasks s ! current_task s') \<and>
        (\<forall>k. active s' k \<longrightarrow> dist s (current_task s') \<le> dist s k)"
  by (rule Task_Exit_spec[OF assms])

theorem exit_switches_witness:
  "Task_Exit sched_example \<noteq> None"
  using exit_switches[OF sched_example_ok(1)] sched_example_ok(2)
  by (auto simp: sched_example_def split: option.splits)

end
