(* ===== verification/Input.thy ===== *)
theory Input
  imports Prelude
begin

text \<open>
  The input layer \<open>src/kernel/core/input.c\<close>: the pointer state the USB drivers update and the
  desktop reads, and the keyboard ring buffer. \<open>int32_t\<close> values are 32-bit patterns compared
  through \<open>sint\<close>; sums and differences wrap, as the compiled code does. The ring of 256
  slots holds at most 255 characters; its abstract view is the list \<open>kbd_list\<close>, and
  \<open>fifo_queue\<close> is the contract the producers (USB keyboard) and the consumer (desktop) share.
\<close>

section \<open>State and operations\<close>

record pointer =
  ptr_x :: i32
  ptr_y :: i32
  ptr_dx :: i32
  ptr_dy :: i32
  ptr_buttons :: u32
  ptr_is_absolute :: u8

record input =
  g_ptr :: pointer
  g_w :: u32
  g_h :: u32
  g_kbd_q :: "u8 list"
  g_kbd_r :: u32
  g_kbd_w :: u32

definition clamp_i32 :: "i32 \<Rightarrow> i32 \<Rightarrow> i32 \<Rightarrow> i32" where
  "clamp_i32 v lo hi = (if sint v < sint lo then lo else if sint hi < sint v then hi else v)"

definition input_init :: "u32 \<Rightarrow> u32 \<Rightarrow> input \<Rightarrow> input" where
  "input_init screen_w screen_h s =
     s\<lparr>g_w := screen_w, g_h := screen_h,
       g_ptr := \<lparr>ptr_x = screen_w div 2, ptr_y = screen_h div 2, ptr_dx = 0, ptr_dy = 0,
                 ptr_buttons = 0, ptr_is_absolute = 0\<rparr>,
       g_kbd_r := 0, g_kbd_w := 0\<rparr>"

definition input_pointer_set_abs :: "i32 \<Rightarrow> i32 \<Rightarrow> u32 \<Rightarrow> input \<Rightarrow> input" where
  "input_pointer_set_abs x y buttons s =
     s\<lparr>g_ptr := \<lparr>ptr_x = clamp_i32 x 0 (g_w s - 1), ptr_y = clamp_i32 y 0 (g_h s - 1),
                 ptr_dx = x - ptr_x (g_ptr s), ptr_dy = y - ptr_y (g_ptr s),
                 ptr_buttons = buttons, ptr_is_absolute = 1\<rparr>\<rparr>"

definition input_pointer_set_abs_scaled :: "i32 \<Rightarrow> i32 \<Rightarrow> i32 \<Rightarrow> i32 \<Rightarrow> u32 \<Rightarrow> input \<Rightarrow> input" where
  "input_pointer_set_abs_scaled x y x_max y_max buttons s =
     (let x_max = (if sint x_max \<le> 0 then 1 else x_max);
          y_max = (if sint y_max \<le> 0 then 1 else y_max);
          px = word_of_int (c_div (sint x * sint (g_w s - 1)) (sint x_max));
          py = word_of_int (c_div (sint y * sint (g_h s - 1)) (sint y_max))
      in input_pointer_set_abs px py buttons s)"

definition input_pointer_add_rel :: "i32 \<Rightarrow> i32 \<Rightarrow> u32 \<Rightarrow> input \<Rightarrow> input" where
  "input_pointer_add_rel dx dy buttons s =
     s\<lparr>g_ptr := \<lparr>ptr_x = clamp_i32 (ptr_x (g_ptr s) + dx) 0 (g_w s - 1),
                 ptr_y = clamp_i32 (ptr_y (g_ptr s) + dy) 0 (g_h s - 1),
                 ptr_dx = dx, ptr_dy = dy, ptr_buttons = buttons, ptr_is_absolute = 0\<rparr>\<rparr>"

definition input_pointer_get :: "input \<Rightarrow> pointer" where
  "input_pointer_get s = g_ptr s"

definition input_kbd_push_char :: "u8 \<Rightarrow> input \<Rightarrow> input" where
  "input_kbd_push_char c s =
     (let next = (g_kbd_w s + 1) AND 0xFF in
      if next = g_kbd_r s AND 0xFF then s
      else s\<lparr>g_kbd_q := (g_kbd_q s)[unat (g_kbd_w s AND 0xFF) := c], g_kbd_w := next\<rparr>)"

text \<open>The flag says whether the caller passed a place for the character (\<open>out\<close> not NULL).\<close>

definition input_kbd_pop_char :: "bool \<Rightarrow> input \<Rightarrow> u8 option \<times> input" where
  "input_kbd_pop_char out s =
     (if \<not> out then (None, s)
      else if g_kbd_r s AND 0xFF = g_kbd_w s AND 0xFF then (None, s)
      else (Some (g_kbd_q s ! unat (g_kbd_r s AND 0xFF)), s\<lparr>g_kbd_r := (g_kbd_r s + 1) AND 0xFF\<rparr>))"

section \<open>The pointer stays on the screen\<close>

definition screen_ok :: "input \<Rightarrow> bool" where
  "screen_ok s \<longleftrightarrow> 0 < uint (g_w s) \<and> uint (g_w s) < 2 ^ 31 \<and> 0 < uint (g_h s) \<and> uint (g_h s) < 2 ^ 31"

definition on_screen :: "input \<Rightarrow> bool" where
  "on_screen s \<longleftrightarrow> 0 \<le> sint (ptr_x (g_ptr s)) \<and> sint (ptr_x (g_ptr s)) < uint (g_w s) \<and>
     0 \<le> sint (ptr_y (g_ptr s)) \<and> sint (ptr_y (g_ptr s)) < uint (g_h s)"

lemma sint_pred:
  "0 < uint (w :: u32) \<Longrightarrow> uint w < 2 ^ 31 \<Longrightarrow> sint (w - 1) = uint w - 1"
proof -
  assume a: "0 < uint w" "uint w < 2 ^ 31"
  have "w - 1 = word_of_int (uint w - 1)" by simp
  then show ?thesis using a sint_word_of_int_small[of "uint w - 1"] by simp
qed

lemma clamp_i32_bounds:
  "0 < uint w \<Longrightarrow> uint w < 2 ^ 31 \<Longrightarrow>
   0 \<le> sint (clamp_i32 v 0 (w - 1)) \<and> sint (clamp_i32 v 0 (w - 1)) < uint w"
  by (auto simp: clamp_i32_def sint_pred)

lemma clamp_i32_id:
  "0 < uint w \<Longrightarrow> uint w < 2 ^ 31 \<Longrightarrow> 0 \<le> sint v \<Longrightarrow> sint v < uint w \<Longrightarrow> clamp_i32 v 0 (w - 1) = v"
  by (auto simp: clamp_i32_def sint_pred)

lemma on_screen_set_abs [inv_intros]:
  "screen_ok s \<Longrightarrow> on_screen (input_pointer_set_abs x y b s)"
  by (simp add: on_screen_def screen_ok_def input_pointer_set_abs_def clamp_i32_bounds)

lemma on_screen_add_rel [inv_intros]:
  "screen_ok s \<Longrightarrow> on_screen (input_pointer_add_rel dx dy b s)"
  by (simp add: on_screen_def screen_ok_def input_pointer_add_rel_def clamp_i32_bounds)

lemma on_screen_scaled [inv_intros]:
  "screen_ok s \<Longrightarrow> on_screen (input_pointer_set_abs_scaled x y xm ym b s)"
  by (simp add: input_pointer_set_abs_scaled_def Let_def on_screen_set_abs)

lemma scale_bounds:
  fixes x w m :: int
  assumes "0 \<le> x" "x \<le> m" "0 < m" "0 < w"
  shows "0 \<le> x * (w - 1) div m" "x * (w - 1) div m < w"
proof -
  show "0 \<le> x * (w - 1) div m" using assms by (simp add: pos_imp_zdiv_nonneg_iff)
  have "x * (w - 1) \<le> m * (w - 1)" using assms by (intro mult_right_mono) auto
  then have "x * (w - 1) div m \<le> m * (w - 1) div m" using assms by (intro zdiv_mono1) auto
  then show "x * (w - 1) div m < w" using assms by simp
qed

lemma scaled_position:
  assumes "screen_ok s" "0 \<le> sint x" "sint x \<le> sint xm" "0 < sint xm"
    "0 \<le> sint y" "sint y \<le> sint ym" "0 < sint ym"
  shows "sint (ptr_x (g_ptr (input_pointer_set_abs_scaled x y xm ym b s))) =
      sint x * (uint (g_w s) - 1) div sint xm"
    "sint (ptr_y (g_ptr (input_pointer_set_abs_scaled x y xm ym b s))) =
      sint y * (uint (g_h s) - 1) div sint ym"
proof -
  have w: "0 < uint (g_w s)" "uint (g_w s) < 2 ^ 31" "0 < uint (g_h s)" "uint (g_h s) < 2 ^ 31"
    using assms(1) by (auto simp: screen_ok_def)
  have cd: "c_div (sint x * sint (g_w s - 1)) (sint xm) = sint x * (uint (g_w s) - 1) div sint xm"
    "c_div (sint y * sint (g_h s - 1)) (sint ym) = sint y * (uint (g_h s) - 1) div sint ym"
    using assms w by (simp_all add: sint_pred c_div_pos)
  note bx = scale_bounds[OF assms(2-4), of "uint (g_w s)"]
  note by' = scale_bounds[OF assms(5-7), of "uint (g_h s)"]
  have "sint (word_of_int (sint x * (uint (g_w s) - 1) div sint xm) :: i32) =
      sint x * (uint (g_w s) - 1) div sint xm"
    using bx w by (intro sint_word_of_int_small) linarith+
  moreover have "sint (word_of_int (sint y * (uint (g_h s) - 1) div sint ym) :: i32) =
      sint y * (uint (g_h s) - 1) div sint ym"
    using by' w by (intro sint_word_of_int_small) linarith+
  ultimately show "sint (ptr_x (g_ptr (input_pointer_set_abs_scaled x y xm ym b s))) =
      sint x * (uint (g_w s) - 1) div sint xm"
    "sint (ptr_y (g_ptr (input_pointer_set_abs_scaled x y xm ym b s))) =
      sint y * (uint (g_h s) - 1) div sint ym"
    using assms w bx by' cd
    by (simp_all add: input_pointer_set_abs_scaled_def input_pointer_set_abs_def Let_def clamp_i32_id)
qed

section \<open>The keyboard queue\<close>

definition kbd_wf :: "input \<Rightarrow> bool" where
  "kbd_wf s \<longleftrightarrow> length (g_kbd_q s) = 256 \<and> unat (g_kbd_r s) < 256 \<and> unat (g_kbd_w s) < 256"

definition kbd_len :: "input \<Rightarrow> nat" where
  "kbd_len s = (unat (g_kbd_w s) + 256 - unat (g_kbd_r s)) mod 256"

definition kbd_list :: "input \<Rightarrow> u8 list" where
  "kbd_list s = map (\<lambda>i. g_kbd_q s ! ((unat (g_kbd_r s) + i) mod 256)) [0..<kbd_len s]"

lemma unat_and_FF: "unat (w AND 0xFF :: u32) = unat w mod 256"
proof -
  have "(0xFF :: u32) = mask 8" by (simp add: mask_eq_exp_minus_1)
  then have "w AND 0xFF = take_bit 8 w" by (simp only: take_bit_eq_mask)
  then have "unat (w AND 0xFF) = take_bit 8 (unat w)" by (simp only: unsigned_take_bit_eq)
  then show ?thesis by (simp only: take_bit_eq_mod) simp
qed

lemma unat_incr_and_FF: "unat w < 256 \<Longrightarrow> unat ((w + 1) AND 0xFF :: u32) = (unat w + 1) mod 256"
  by (simp add: unat_and_FF unat_add_small)

lemma kbd_len_less: "kbd_len s < 256"
  by (simp add: kbd_len_def)

lemma length_kbd_list [simp]: "length (kbd_list s) = kbd_len s"
  by (simp add: kbd_list_def)

lemma kbd_len_alt:
  "kbd_wf s \<Longrightarrow> kbd_len s = (if unat (g_kbd_r s) \<le> unat (g_kbd_w s) then unat (g_kbd_w s) - unat (g_kbd_r s)
     else unat (g_kbd_w s) + 256 - unat (g_kbd_r s))"
  by (auto simp: kbd_len_def kbd_wf_def le_mod_geq)

lemma kbd_full_iff:
  assumes "kbd_wf s"
  shows "(g_kbd_w s + 1) AND 0xFF = g_kbd_r s AND 0xFF \<longleftrightarrow> kbd_len s = 255"
proof -
  have b: "unat (g_kbd_r s) < 256" "unat (g_kbd_w s) < 256" using assms by (auto simp: kbd_wf_def)
  have "(g_kbd_w s + 1) AND 0xFF = g_kbd_r s AND 0xFF \<longleftrightarrow>
      (unat (g_kbd_w s) + 1) mod 256 = unat (g_kbd_r s)"
    using b by (simp add: word_unat_eq_iff unat_incr_and_FF) (simp add: unat_and_FF)
  also have "\<dots> \<longleftrightarrow> kbd_len s = 255"
    using b by (cases "unat (g_kbd_w s) = 255") (auto simp: kbd_len_alt[OF assms])
  finally show ?thesis .
qed

lemma kbd_push_wf [inv_intros]: "kbd_wf s \<Longrightarrow> kbd_wf (input_kbd_push_char c s)"
  by (auto simp: kbd_wf_def input_kbd_push_char_def Let_def unat_and_FF)

lemma kbd_pop_wf [inv_intros]: "kbd_wf s \<Longrightarrow> kbd_wf (snd (input_kbd_pop_char b s))"
  by (auto simp: kbd_wf_def input_kbd_pop_char_def unat_and_FF)

lemma kbd_push_list:
  assumes wf: "kbd_wf s"
  shows "kbd_list (input_kbd_push_char c s) =
    (if kbd_len s < 255 then kbd_list s @ [c] else kbd_list s)"
proof (cases "kbd_len s = 255")
  case True
  then show ?thesis using kbd_full_iff[OF wf] by (simp add: input_kbd_push_char_def)
next
  case False
  let ?s = "input_kbd_push_char c s" and ?r = "unat (g_kbd_r s)" and ?w = "unat (g_kbd_w s)"
  have b: "?r < 256" "?w < 256" "length (g_kbd_q s) = 256" using wf by (auto simp: kbd_wf_def)
  have lt: "kbd_len s < 255" using False kbd_len_less[of s] by simp
  have s: "?s = s\<lparr>g_kbd_q := (g_kbd_q s)[?w := c], g_kbd_w := (g_kbd_w s + 1) AND 0xFF\<rparr>"
    using kbd_full_iff[OF wf] False b by (simp add: input_kbd_push_char_def unat_and_FF)
  have w': "unat (g_kbd_w ?s) = (?w + 1) mod 256" using b by (simp add: s unat_incr_and_FF)
  have wi: "(?r + kbd_len s) mod 256 = ?w"
    using b by (auto simp: kbd_len_alt[OF wf])
  have "kbd_len ?s = kbd_len s + 1"
    using lt b w' kbd_len_alt[OF wf] kbd_len_alt[OF kbd_push_wf[OF wf, of c]]
    by (cases "?w = 255") (auto simp: s split: if_splits)
  moreover have "?w \<noteq> (?r + i) mod 256" if "i < kbd_len s" for i
    using that b kbd_len_alt[OF wf] by (cases "?r + i < 256") (auto simp: le_mod_geq split: if_splits)
  ultimately show ?thesis
    using lt wi b by (auto simp: kbd_list_def s)
qed

lemma kbd_pop_list:
  assumes wf: "kbd_wf s"
  shows "fst (input_kbd_pop_char True s) = (case kbd_list s of [] \<Rightarrow> None | c # _ \<Rightarrow> Some c)"
    "kbd_list (snd (input_kbd_pop_char True s)) = tl (kbd_list s)"
proof -
  let ?r = "unat (g_kbd_r s)" and ?w = "unat (g_kbd_w s)" and ?s = "snd (input_kbd_pop_char True s)"
  have b: "?r < 256" "?w < 256" using wf by (auto simp: kbd_wf_def)
  have eq: "g_kbd_r s AND 0xFF = g_kbd_w s AND 0xFF \<longleftrightarrow> kbd_len s = 0"
    using b by (auto simp: word_unat_eq_iff unat_and_FF kbd_len_alt[OF wf])
  have "fst (input_kbd_pop_char True s) = (case kbd_list s of [] \<Rightarrow> None | c # _ \<Rightarrow> Some c) \<and>
    kbd_list ?s = tl (kbd_list s)"
  proof (cases "kbd_len s")
    case 0
    then show ?thesis using eq by (simp add: input_kbd_pop_char_def kbd_list_def)
  next
    case (Suc n)
    then have p: "input_kbd_pop_char True s =
        (Some (g_kbd_q s ! ?r), s\<lparr>g_kbd_r := (g_kbd_r s + 1) AND 0xFF\<rparr>)"
      using eq b by (simp add: input_kbd_pop_char_def unat_and_FF)
    have r': "unat ((g_kbd_r s + 1) AND 0xFF) = (?r + 1) mod 256" using b by (simp add: unat_incr_and_FF)
    have "kbd_len ?s = n"
      using Suc b kbd_len_alt[OF wf] kbd_len_alt[OF kbd_pop_wf[OF wf, of True]] r'
      by (cases "?r = 255") (auto simp: p split: if_splits)
    moreover have "((?r + 1) mod 256 + i) mod 256 = (?r + Suc i) mod 256" for i
      by (simp add: mod_add_left_eq)
    moreover have "[0..<Suc n] = 0 # map Suc [0..<n]" by (simp add: map_Suc_upt upt_conv_Cons)
    ultimately show ?thesis using Suc b by (simp add: kbd_list_def p r' comp_def del: upt_Suc)
  qed
  then show "fst (input_kbd_pop_char True s) = (case kbd_list s of [] \<Rightarrow> None | c # _ \<Rightarrow> Some c)"
    "kbd_list ?s = tl (kbd_list s)" by auto
qed

section \<open>The queue interface\<close>

text \<open>A bounded first-in first-out queue that drops what does not fit.\<close>

locale fifo_queue =
  fixes enq :: "'a \<Rightarrow> 'q \<Rightarrow> 'q"
    and deq :: "'q \<Rightarrow> 'a option \<times> 'q"
    and contents :: "'q \<Rightarrow> 'a list"
    and cap :: nat
    and inv :: "'q \<Rightarrow> bool"
  assumes contents_enq: "inv q \<Longrightarrow> contents (enq x q) =
      (if length (contents q) < cap then contents q @ [x] else contents q)"
    and inv_enq: "inv q \<Longrightarrow> inv (enq x q)"
    and deq_fst: "inv q \<Longrightarrow> fst (deq q) = (case contents q of [] \<Rightarrow> None | c # _ \<Rightarrow> Some c)"
    and deq_snd: "inv q \<Longrightarrow> contents (snd (deq q)) = tl (contents q)"
    and inv_deq: "inv q \<Longrightarrow> inv (snd (deq q))"
    and contents_cap: "inv q \<Longrightarrow> length (contents q) \<le> cap"
begin

lemma contents_enq_all:
  "inv q \<Longrightarrow> contents (fold enq xs q) = contents q @ take (cap - length (contents q)) xs \<and> inv (fold enq xs q)"
proof (induction xs arbitrary: q)
  case (Cons x xs)
  note IH = Cons.IH[OF inv_enq[OF Cons.prems, of x]]
  show ?case
  proof (cases "length (contents q) < cap")
    case True
    then have "cap - length (contents q) = Suc (cap - Suc (length (contents q)))" by simp
    with IH True Cons.prems show ?thesis by (simp add: contents_enq)
  next
    case False
    with IH Cons.prems show ?thesis by (simp add: contents_enq)
  qed
qed simp

text \<open>Reading with a budget, as the desktop does once per frame.\<close>

fun drain :: "nat \<Rightarrow> 'q \<Rightarrow> 'a list \<times> 'q" where
  "drain 0 q = ([], q)"
| "drain (Suc n) q =
     (case deq q of (None, q') \<Rightarrow> ([], q') | (Some x, q') \<Rightarrow> let (xs, q'') = drain n q' in (x # xs, q''))"

lemma drain_spec:
  "inv q \<Longrightarrow> drain n q = (xs, q') \<Longrightarrow> xs = take n (contents q) \<and> contents q' = drop n (contents q) \<and> inv q'"
proof (induction n arbitrary: q xs q')
  case (Suc n)
  obtain r q1 where d: "deq q = (r, q1)" by fastforce
  note dq = deq_fst[OF Suc.prems(1)] deq_snd[OF Suc.prems(1)] inv_deq[OF Suc.prems(1)]
  show ?case
  proof (cases "contents q")
    case Nil
    with dq d Suc.prems show ?thesis by auto
  next
    case (Cons c cs)
    then have r: "r = Some c" "contents q1 = cs" "inv q1" using dq d by auto
    obtain ys q2 where y: "drain n q1 = (ys, q2)" by fastforce
    have "xs = c # ys" "q' = q2" using Suc.prems(2) d r y by auto
    with Suc.IH[OF r(3) y] r Cons show ?thesis by auto
  qed
qed simp

lemma enq_drain:
  assumes "inv q" "contents q = []"
  shows "fst (drain n (fold enq xs q)) = take n (take cap xs)"
proof -
  obtain ys q' where d: "drain n (fold enq xs q) = (ys, q')" by fastforce
  have "contents (fold enq xs q) = take cap xs" "inv (fold enq xs q)"
    using contents_enq_all[OF assms(1), of xs] assms(2) by simp_all
  with drain_spec[OF _ d] show ?thesis by (simp add: d)
qed

end

interpretation kbd: fifo_queue input_kbd_push_char "input_kbd_pop_char True" kbd_list 255 kbd_wf
proof unfold_locales
  fix q :: input and x :: u8
  assume wf: "kbd_wf q"
  show "kbd_list (input_kbd_push_char x q) = (if length (kbd_list q) < 255 then kbd_list q @ [x] else kbd_list q)"
    by (simp only: length_kbd_list kbd_push_list[OF wf])
  show "kbd_wf (input_kbd_push_char x q)" "kbd_wf (snd (input_kbd_pop_char True q))"
    using wf by (auto intro: inv_intros)
  show "fst (input_kbd_pop_char True q) = (case kbd_list q of [] \<Rightarrow> None | c # _ \<Rightarrow> Some c)"
    "kbd_list (snd (input_kbd_pop_char True q)) = tl (kbd_list q)"
    using kbd_pop_list[OF wf] by auto
  show "length (kbd_list q) \<le> 255" using kbd_len_less[of q] by simp
qed

section \<open>Properties\<close>

text \<open>What can happen to the pointer: the three update entry points of the drivers.\<close>

datatype pointer_event =
  SetAbs i32 i32 u32
| SetScaled i32 i32 i32 i32 u32
| AddRel i32 i32 u32

fun pointer_update :: "pointer_event \<Rightarrow> input \<Rightarrow> input" where
  "pointer_update (SetAbs x y b) s = input_pointer_set_abs x y b s"
| "pointer_update (SetScaled x y xm ym b) s = input_pointer_set_abs_scaled x y xm ym b s"
| "pointer_update (AddRel dx dy b) s = input_pointer_add_rel dx dy b s"

lemma pointer_update_size [simp]:
  "g_w (pointer_update e s) = g_w s" "g_h (pointer_update e s) = g_h s"
  by (cases e; simp add: input_pointer_set_abs_def input_pointer_set_abs_scaled_def
      input_pointer_add_rel_def Let_def)+

lemma pointer_update_screen:
  "screen_ok s \<Longrightarrow> screen_ok (pointer_update e s) \<and> on_screen (pointer_update e s)"
  by (cases e) (simp_all add: inv_intros, simp_all add: screen_ok_def input_pointer_set_abs_def
      input_pointer_set_abs_scaled_def input_pointer_add_rel_def Let_def)

lemma init_on_screen:
  assumes "0 < uint w" "uint w < 2 ^ 31" "0 < uint h" "uint h < 2 ^ 31"
  shows "screen_ok (input_init w h s) \<and> on_screen (input_init w h s)"
proof -
  have u: "uint (x div 2) = uint x div 2" for x :: u32 by (simp add: uint_div)
  have s: "sint (x div 2) = uint x div 2" if "uint x < 2 ^ 31" for x :: u32
    using sint_nonneg_uint[of "x div 2"] that u[of x] by simp
  have "uint x div 2 < uint x" if "0 < uint x" for x :: u32 using that by linarith
  then show ?thesis using assms by (simp add: screen_ok_def on_screen_def input_init_def s)
qed

text \<open>
  C11. Whatever sequence of absolute, scaled and relative pointer updates follows input_init,
  with any coordinates, the pointer stays inside the screen.
\<close>

theorem pointer_stays_on_screen:
  assumes "0 < uint w" "uint w < 2 ^ 31" "0 < uint h" "uint h < 2 ^ 31"
  shows "on_screen (fold pointer_update evs (input_init w h s)) \<and>
    g_w (fold pointer_update evs (input_init w h s)) = w \<and>
    g_h (fold pointer_update evs (input_init w h s)) = h"
proof -
  have "screen_ok q \<and> on_screen q \<Longrightarrow> on_screen (fold pointer_update evs q) \<and>
    g_w (fold pointer_update evs q) = g_w q \<and> g_h (fold pointer_update evs q) = g_h q" for q
  proof (induction evs arbitrary: q)
    case (Cons e es)
    with pointer_update_screen[of q e] show ?case by simp
  qed simp
  from this[OF init_on_screen[OF assms]] show ?thesis by (simp add: input_init_def)
qed

definition input_example :: input where
  "input_example = \<lparr>g_ptr = \<lparr>ptr_x = 0, ptr_y = 0, ptr_dx = 0, ptr_dy = 0, ptr_buttons = 0, ptr_is_absolute = 0\<rparr>,
     g_w = 0, g_h = 0, g_kbd_q = replicate 256 0, g_kbd_r = 0, g_kbd_w = 0\<rparr>"

theorem pointer_stays_on_screen_witness:
  "on_screen (fold pointer_update [AddRel (-5000) 9 1, SetScaled 40000 7 0x7FFF 0x7FFF 0]
     (input_init 1024 768 input_example))"
  using pointer_stays_on_screen[of 1024 768 "[AddRel (-5000) 9 1, SetScaled 40000 7 0x7FFF 0x7FFF 0]" input_example]
  by simp

text \<open>
  Tablet coordinates within the device's range are mapped linearly onto the screen, without
  overflow in the intermediate product.
\<close>

theorem tablet_maps_linearly:
  assumes "screen_ok s" "0 \<le> sint x" "sint x \<le> sint xm" "0 < sint xm"
    "0 \<le> sint y" "sint y \<le> sint ym" "0 < sint ym"
  shows "sint (ptr_x (input_pointer_get (input_pointer_set_abs_scaled x y xm ym b s))) =
      sint x * (uint (g_w s) - 1) div sint xm \<and>
    sint (ptr_y (input_pointer_get (input_pointer_set_abs_scaled x y xm ym b s))) =
      sint y * (uint (g_h s) - 1) div sint ym"
  using scaled_position[OF assms] by (simp add: input_pointer_get_def)

theorem tablet_maps_linearly_witness:
  "sint (ptr_x (input_pointer_get
     (input_pointer_set_abs_scaled 0x7FFF 0 0x7FFF 0x7FFF 0 (input_init 1024 768 input_example)))) = 1023"
  using tablet_maps_linearly[of "input_init 1024 768 input_example" "0x7FFF" "0x7FFF" 0 "0x7FFF"]
    init_on_screen[of 1024 768 input_example] by (simp add: input_init_def)

text \<open>
  C12. The keyboard ring buffer is a first-in first-out queue of 255 characters: what is popped
  is what was pushed, in order, with the characters beyond the capacity dropped.
\<close>

theorem keyboard_fifo:
  assumes "kbd_wf s" "kbd_list s = []"
  shows "fst (kbd.drain n (fold input_kbd_push_char cs s)) = take n (take 255 cs)"
  by (rule kbd.enq_drain[OF assms])

theorem keyboard_fifo_witness:
  "fst (kbd.drain 32 (fold input_kbd_push_char [0x68, 0x69, 0x0A] input_example)) = [0x68, 0x69, 0x0A]"
  using keyboard_fifo[of input_example 32 "[0x68, 0x69, 0x0A]"]
  by (simp add: kbd_wf_def input_example_def kbd_list_def kbd_len_def)

end
