(* ===== verification/Ramfs.thy ===== *)
theory Ramfs
  imports Heap
begin

text \<open>
  The RAM file store \<open>src/kernel/core/ramfs.c\<close>: a table of 32 named entries whose contents
  are copied into blocks of the kernel heap. Memory contents are a map from addresses to
  bytes; the heap's block headers are kept apart from it, in the heap state of \<open>Heap\<close>, which
  is sound because the payload of a block never overlaps a header (\<open>live_disjoint\<close>).
  The 32-entry search loops that leave with \<open>break\<close> are \<open>find_index\<close>; its \<open>None\<close> is the
  sentinel \<open>0xFFFFFFFF\<close> of the code.
\<close>

section \<open>State and operations\<close>

record ramfs_entry =
  re_used :: u8
  re_name :: "u8 list"
  re_data :: u64
  re_size :: u32

record ramfs =
  g_ramfs :: "ramfs_entry list"
  g_inited :: u8
  rf_heap :: kheap
  rf_mem :: "u64 \<Rightarrow> u8"

definition ramfs_init :: "ramfs \<Rightarrow> u32 \<times> ramfs" where
  "ramfs_init s =
     (1, s\<lparr>g_ramfs := map (\<lambda>e. \<lparr>re_used = 0, re_name = (re_name e)[0 := 0], re_data = 0, re_size = 0\<rparr>)
                       (g_ramfs s),
            g_inited := 1\<rparr>)"

fun copy_bytes :: "u64 \<Rightarrow> u64 \<Rightarrow> nat \<Rightarrow> nat \<Rightarrow> (u64 \<Rightarrow> u8) \<Rightarrow> (u64 \<Rightarrow> u8)" where
  "copy_bytes dst src i 0 m = m"
| "copy_bytes dst src i (Suc n) m =
     copy_bytes dst src (Suc i) n (m(dst + of_nat i := m (src + of_nat i)))"

text \<open>The result is the C return value and the new state; \<open>None\<close> would be a heap walk that does not end.\<close>

definition ramfs_slot :: "u8 list option \<Rightarrow> ramfs \<Rightarrow> nat option" where
  "ramfs_slot name s =
     (case find_index (\<lambda>e. re_used e \<noteq> 0 \<and> str_eq (Some (re_name e)) name) (g_ramfs s) of
        Some i \<Rightarrow> Some i
      | None \<Rightarrow> find_index (\<lambda>e. re_used e = 0) (g_ramfs s))"

definition ramfs_put_copy ::
  "u8 list option \<Rightarrow> u64 \<Rightarrow> u32 \<Rightarrow> ramfs \<Rightarrow> (u32 \<times> ramfs) option" where
  "ramfs_put_copy name data sz s0 =
     (let s = (if g_inited s0 = 0 then snd (ramfs_init s0) else s0) in
      if name = None \<or> data = 0 then Some (0, s)
      else if str_len32 name = 0 \<or> str_len32 name \<ge> 32 then Some (0, s)
      else
        case ramfs_slot name s of
          None \<Rightarrow> Some (0, s)
        | Some i \<Rightarrow>
            (case kmalloc (ucast sz) (rf_heap s) of
               None \<Rightarrow> None
             | Some (buf, h) \<Rightarrow>
                 if buf = 0 then Some (0, s\<lparr>rf_heap := h\<rparr>)
                 else Some (1, s\<lparr>rf_heap := h,
                   rf_mem := copy_bytes buf data 0 (unat sz) (rf_mem s),
                   g_ramfs := (g_ramfs s)[i :=
                     \<lparr>re_used = 1, re_name = str_copy (re_name (g_ramfs s ! i)) name 32,
                      re_data = buf, re_size = sz\<rparr>]\<rparr>)))"

text \<open>\<open>ramfs_get\<close>: the pair is what the two out-parameters receive when the result is 1.\<close>

definition ramfs_get :: "u8 list option \<Rightarrow> ramfs \<Rightarrow> (u64 \<times> u32) option" where
  "ramfs_get name s =
     (if g_inited s = 0 then None
      else if name = None then None
      else case find_index (\<lambda>e. re_used e \<noteq> 0 \<and> str_eq (Some (re_name e)) name) (g_ramfs s) of
             None \<Rightarrow> None
           | Some i \<Rightarrow> Some (re_data (g_ramfs s ! i), re_size (g_ramfs s ! i)))"

section \<open>The copy loop\<close>

lemma copy_bytes_frame:
  "(\<And>j. i \<le> j \<Longrightarrow> j < i + n \<Longrightarrow> a \<noteq> dst + of_nat j) \<Longrightarrow> copy_bytes dst src i n m a = m a"
  by (induction n arbitrary: i m) auto

lemma copy_bytes_value:
  assumes "i \<le> j" "j < i + n" "i + n < 2 ^ 64"
    "\<And>j k. j < i + n \<Longrightarrow> k < i + n \<Longrightarrow> dst + of_nat j \<noteq> src + of_nat k"
  shows "copy_bytes dst src i n m (dst + of_nat j) = m (src + of_nat j)"
  using assms
proof (induction n arbitrary: i m)
  case (Suc n)
  let ?m = "m(dst + of_nat i := m (src + of_nat i))"
  show ?case
  proof (cases "i = j")
    case True
    have "(of_nat j :: u64) \<noteq> of_nat k" if "Suc i \<le> k" "k < Suc i + n" for k
      using that Suc.prems(3) True by (subst of_nat_word_inj) auto
    then have "copy_bytes dst src (Suc i) n ?m (dst + of_nat j) = ?m (dst + of_nat j)"
      by (intro copy_bytes_frame) simp
    then show ?thesis using True by simp
  next
    case False
    then have "copy_bytes dst src (Suc i) n ?m (dst + of_nat j) = ?m (src + of_nat j)"
      using Suc.prems by (intro Suc.IH) auto
    moreover have "dst + of_nat i \<noteq> src + of_nat j" using Suc.prems(2) by (intro Suc.prems(4)) auto
    ultimately show ?thesis by (simp add: eq_commute)
  qed
qed simp

lemma copy_bytes_same:
  assumes "n < 2 ^ 64" "apart p n src n"
  shows "bytes_at (copy_bytes p src 0 n m) p n = bytes_at m src n"
  using assms by (auto simp: bytes_at_def apart_def intro!: copy_bytes_value)

lemma copy_bytes_other:
  "apart p n q k \<Longrightarrow> bytes_at (copy_bytes p src 0 n m) q k = bytes_at m q k"
  by (auto simp: bytes_at_def apart_def intro!: copy_bytes_frame dest: sym)

section \<open>Files\<close>

text \<open>Every used entry points to a live block of the heap that is large enough for it.\<close>

definition ramfs_ok :: "ramfs \<Rightarrow> heap_ghost \<Rightarrow> bool" where
  "ramfs_ok s g \<longleftrightarrow> length (g_ramfs s) = 32 \<and> (\<forall>e \<in> set (g_ramfs s). length (re_name e) = 32) \<and>
     kheap_rel (rf_heap s) g \<and>
     (g_inited s \<noteq> 0 \<longrightarrow> (\<forall>e \<in> set (g_ramfs s). re_used e \<noteq> 0 \<longrightarrow>
        (\<exists>m. (re_data e, m) \<in> ghost_live g \<and> unat (re_size e) \<le> m)))"

definition ramfs_file :: "ramfs \<Rightarrow> u8 list \<Rightarrow> u8 list option" where
  "ramfs_file s nm = map_option (\<lambda>(p, n). bytes_at (rf_mem s) p (unat n)) (ramfs_get (Some nm) s)"

text \<open>A caller's buffer: inside a live block, or outside the heap.\<close>

definition readable :: "heap_ghost \<Rightarrow> u64 \<Rightarrow> nat \<Rightarrow> bool" where
  "readable g p n \<longleftrightarrow> unat p + n < 2 ^ 64 \<and>
     ((\<exists>(q, k) \<in> ghost_live g. unat q \<le> unat p \<and> unat p + n \<le> unat q + k) \<or>
      unat p + n \<le> fst (ghost_range g) \<or> snd (ghost_range g) \<le> unat p)"

abbreviation entry_is :: "u8 list \<Rightarrow> ramfs_entry \<Rightarrow> bool" where
  "entry_is nm \<equiv> (\<lambda>e. re_used e \<noteq> 0 \<and> str_eq (Some (re_name e)) (Some nm))"

lemma ramfs_file_alt:
  "ramfs_file s nm = (if g_inited s = 0 then None
     else map_option (\<lambda>i. bytes_at (rf_mem s) (re_data (g_ramfs s ! i)) (unat (re_size (g_ramfs s ! i))))
       (find_index (entry_is nm) (g_ramfs s)))"
  by (auto simp: ramfs_file_def ramfs_get_def split: option.splits)

lemma ramfs_init_ok: "ramfs_ok s g \<Longrightarrow> ramfs_ok (snd (ramfs_init s)) g"
  by (auto simp: ramfs_ok_def ramfs_init_def)

lemma ramfs_init_file: "ramfs_file (snd (ramfs_init s)) nm = None"
  by (auto simp: ramfs_file_alt ramfs_init_def)

text \<open>What one allocation gives the store: a block apart from every readable range.\<close>

lemma malloc_for_file:
  assumes rel: "kheap_rel h g" and m: "kmalloc n h = Some (p, h')" "p \<noteq> 0"
  obtains g' k where "kheap_rel h' g'" "unat n \<le> k" "ghost_live g' = insert (p, k) (ghost_live g)"
    "\<And>q j. readable g q j \<Longrightarrow> apart p (unat n) q j"
proof -
  obtain g' k where g': "kheap_rel h' g'" "ghost_range g' = ghost_range g" "unat n \<le> k"
    "ghost_live g' = insert (p, k) (ghost_live g)"
    "\<And>q k'. (q, k') \<in> ghost_live g \<Longrightarrow> unat p + k < unat q \<or> unat q + k' < unat p"
    "fst (ghost_range g) \<le> unat p" "unat p + k \<le> snd (ghost_range g)" "snd (ghost_range g) < 2 ^ 64"
    using kh.malloc_new_apart[OF rel m] by metis
  show thesis
  proof (rule that[OF g'(1,3,4)])
    fix q j assume "readable g q j"
    then have "unat q + j < 2 ^ 64" "unat p + unat n \<le> unat q \<or> unat q + j \<le> unat p"
      using g'(3,5,6,7) by (fastforce simp: readable_def)+
    then show "apart p (unat n) q j" using g'(3,7,8) by (intro apartI) auto
  qed
qed

lemma readable_live: "kheap_rel h g \<Longrightarrow> (q, k) \<in> ghost_live g \<Longrightarrow> n \<le> k \<Longrightarrow> readable g q n"
  using kh.blocks_bounds[of h g q k] by (fastforce simp: readable_def)

text \<open>Writing one slot with an entry for \<open>nm\<close>: that file is the new block, the others are unchanged.\<close>

lemma slot_cases:
  assumes "ramfs_slot (Some nm) s = Some i"
  shows "i < length (g_ramfs s)" "entry_is nm (g_ramfs s ! i) \<or> re_used (g_ramfs s ! i) = 0"
    "j < i \<Longrightarrow> \<not> entry_is nm (g_ramfs s ! j)"
  using assms by (auto simp: ramfs_slot_def find_index_Some_iff split: option.splits)

lemma find_after_put:
  assumes "ramfs_slot (Some nm) s = Some i" "re_used e \<noteq> 0" "cstr (re_name e) = cstr nm"
  shows "find_index (entry_is nm) ((g_ramfs s)[i := e]) = Some i"
    "cstr nm' \<noteq> cstr nm \<Longrightarrow>
      find_index (entry_is nm') ((g_ramfs s)[i := e]) = find_index (entry_is nm') (g_ramfs s)"
    "cstr nm' \<noteq> cstr nm \<Longrightarrow> find_index (entry_is nm') (g_ramfs s) \<noteq> Some i"
proof -
  show "find_index (entry_is nm) ((g_ramfs s)[i := e]) = Some i"
    using slot_cases[OF assms(1)] assms(2,3) by (intro find_index_update_hit) auto
  assume ne: "cstr nm' \<noteq> cstr nm"
  show "find_index (entry_is nm') ((g_ramfs s)[i := e]) = find_index (entry_is nm') (g_ramfs s)"
    using slot_cases(2)[OF assms(1)] assms(3) ne by (intro find_index_update_None) auto
  show "find_index (entry_is nm') (g_ramfs s) \<noteq> Some i"
    using slot_cases(2)[OF assms(1)] ne by (auto dest!: find_index_SomeD(2))
qed

text \<open>
  When a file can be stored: a name of 1 to 31 characters, a file of that name or a free entry, and
  a free block of the heap that is large enough.
\<close>

definition ramfs_can_put :: "ramfs \<Rightarrow> heap_ghost \<Rightarrow> u8 list \<Rightarrow> u32 \<Rightarrow> bool" where
  "ramfs_can_put s g nm sz \<longleftrightarrow> cstr nm \<noteq> [] \<and> length (cstr nm) < 32 \<and>
     (g_inited s = 0 \<or> ramfs_file s nm \<noteq> None \<or> (\<exists>e \<in> set (g_ramfs s). re_used e = 0)) \<and>
     fits (snd (snd g)) (ucast sz)"

lemma slot_exists:
  assumes "g_inited s \<noteq> 0"
  shows "ramfs_slot (Some nm) s \<noteq> None \<longleftrightarrow> ramfs_file s nm \<noteq> None \<or> (\<exists>e \<in> set (g_ramfs s). re_used e = 0)"
proof -
  have a: "ramfs_slot (Some nm) s = None \<longleftrightarrow>
      find_index (entry_is nm) (g_ramfs s) = None \<and> find_index (\<lambda>e. re_used e = 0) (g_ramfs s) = None"
    by (simp add: ramfs_slot_def del: find_index_None_iff split: option.split)
  have b: "ramfs_file s nm = None \<longleftrightarrow> find_index (entry_is nm) (g_ramfs s) = None"
    using assms by (simp add: ramfs_file_alt del: find_index_None_iff)
  have c: "find_index (\<lambda>e. re_used e = 0) (g_ramfs s) = None \<longleftrightarrow> \<not> (\<exists>e \<in> set (g_ramfs s). re_used e = 0)"
    by simp
  show ?thesis by (simp only: a b c de_Morgan_conj not_not)
qed

lemma malloc_zero_iff:
  assumes "kheap_rel h g" "kmalloc n h = Some (p, h')"
  shows "p = 0 \<longleftrightarrow> \<not> fits (snd (snd g)) n"
proof -
  obtain lo hi bs where g: "g = (lo, hi, bs)" by (cases g) auto
  have r: "heap_rel lo hi h bs" using assms(1) by (simp add: kheap_rel_def g)
  then have lay: "layout lo bs hi" "hi < 2 ^ 64" by (auto simp: heap_rel_def)
  obtain q bs' where ff: "first_fit n bs = (q, bs')" by fastforce
  have "q = p" using kmalloc_refines[OF r ff] assms(2) by auto
  then show ?thesis using kmalloc_full[OF r, of n] first_fit_zero[OF _ lay, of n] ff assms(2) g by auto
qed

lemma put_initialised:
  assumes ok: "ramfs_ok s g" and ini: "g_inited s \<noteq> 0" and src: "data \<noteq> 0" "readable g data (unat sz)"
  shows "\<exists>r s' g'. ramfs_put_copy (Some nm) data sz s = Some (r, s') \<and> ramfs_ok s' g' \<and>
    (r \<noteq> 0) = ramfs_can_put s g nm sz \<and>
    (if r = 0 then \<forall>nm'. ramfs_file s' nm' = ramfs_file s nm'
     else r = 1 \<and> ramfs_file s' nm = Some (bytes_at (rf_mem s) data (unat sz)) \<and>
       (\<forall>nm'. cstr nm' \<noteq> cstr nm \<longrightarrow> ramfs_file s' nm' = ramfs_file s nm'))"
proof (cases "str_len32 (Some nm) = 0 \<or> str_len32 (Some nm) \<ge> 32 \<or> ramfs_slot (Some nm) s = None")
  case True
  then have "ramfs_put_copy (Some nm) data sz s = Some (0, s)"
    using ini src by (auto simp: ramfs_put_copy_def Let_def)
  moreover have "\<not> ramfs_can_put s g nm sz"
    using True str_len32_valid_name[of nm] slot_exists[OF ini, of nm] ini by (auto simp: ramfs_can_put_def)
  ultimately show ?thesis using ok by (intro exI[of _ 0] exI[of _ s] exI[of _ g]) simp
next
  case False
  then obtain i where slot: "ramfs_slot (Some nm) s = Some i" by auto
  have nm: "length (cstr nm) < 32" using False str_len32_valid_name[of nm] by auto
  have rel: "kheap_rel (rf_heap s) g" using ok by (simp add: ramfs_ok_def)
  obtain p h where m: "kmalloc (ucast sz) (rf_heap s) = Some (p, h)"
    using kh.malloc_spec[OF rel] by blast
  have can: "ramfs_can_put s g nm sz \<longleftrightarrow> p \<noteq> 0"
    using False str_len32_valid_name[of nm] slot_exists[OF ini, of nm] malloc_zero_iff[OF rel m] ini
    by (auto simp: ramfs_can_put_def)
  show ?thesis
  proof (cases "p = 0")
    case True
    with m obtain g' where "kheap_rel h g'" "ghost_live g' = ghost_live g"
      using kh.malloc_null[OF rel] by blast
    then have "ramfs_ok (s\<lparr>rf_heap := h\<rparr>) g'" using ok by (simp add: ramfs_ok_def)
    moreover have "ramfs_put_copy (Some nm) data sz s = Some (0, s\<lparr>rf_heap := h\<rparr>)"
      using False slot m ini src True by (simp add: ramfs_put_copy_def)
    ultimately show ?thesis
      by (intro exI[of _ 0] exI[of _ "s\<lparr>rf_heap := h\<rparr>"] exI[of _ g']) (simp add: ramfs_file_alt can True)
  next
    case False': False
    obtain g' k where g': "kheap_rel h g'" "unat sz \<le> k" "ghost_live g' = insert (p, k) (ghost_live g)"
      "\<And>q j. readable g q j \<Longrightarrow> apart p (unat sz) q j"
      using malloc_for_file[OF rel m False'] unfolding unat_ucast_up[of sz, where 'b = 64, simplified]
      by blast
    define e where "e = \<lparr>re_used = 1, re_name = str_copy (re_name (g_ramfs s ! i)) (Some nm) 32,
      re_data = p, re_size = sz\<rparr>"
    define s' where "s' = s\<lparr>rf_heap := h, rf_mem := copy_bytes p data 0 (unat sz) (rf_mem s),
      g_ramfs := (g_ramfs s)[i := e]\<rparr>"
    have i: "i < length (g_ramfs s)" "length (re_name (g_ramfs s ! i)) = 32"
      using slot_cases(1)[OF slot] ok by (auto simp: ramfs_ok_def)
    have e: "re_used e \<noteq> 0" "cstr (re_name e) = cstr nm"
      using nm i by (simp_all add: e_def cstr_str_copy)
    note fi = find_after_put[OF slot e]
    have put: "ramfs_put_copy (Some nm) data sz s = Some (1, s')"
      using False slot m ini src False' by (simp add: ramfs_put_copy_def s'_def e_def)
    have "ramfs_ok s' g'"
      using ok g'(1,2,3) i by (auto simp: ramfs_ok_def s'_def e_def dest!: set_update_subset_insert[THEN subsetD])
    moreover have "ramfs_file s' nm = Some (bytes_at (rf_mem s) data (unat sz))"
      using fi(1) i ini copy_bytes_same[OF _ g'(4)[OF src(2)]] unat_lt_2p[of sz]
      by (simp add: ramfs_file_alt s'_def e_def)
    moreover have "ramfs_file s' nm' = ramfs_file s nm'" if ne: "cstr nm' \<noteq> cstr nm" for nm'
    proof (cases "find_index (entry_is nm') (g_ramfs s)")
      case None
      with fi(2)[OF ne] have "find_index (entry_is nm') ((g_ramfs s)[i := e]) = None" by metis
      with None show ?thesis by (simp add: ramfs_file_alt s'_def del: find_index_None_iff)
    next
      case (Some j)
      then have j: "j \<noteq> i" "j < length (g_ramfs s)" "entry_is nm' (g_ramfs s ! j)"
        using fi(3)[OF ne] find_index_SomeD[OF Some] by auto
      moreover have "g_ramfs s ! j \<in> set (g_ramfs s)" using j(2) by (rule nth_mem)
      ultimately obtain b where "(re_data (g_ramfs s ! j), b) \<in> ghost_live g" "unat (re_size (g_ramfs s ! j)) \<le> b"
        using ok ini unfolding ramfs_ok_def by blast
      from copy_bytes_other[OF g'(4)[OF readable_live[OF rel this]]]
      show ?thesis using Some fi(2)[OF ne] ini j by (simp add: ramfs_file_alt s'_def)
    qed
    ultimately show ?thesis
      by (intro exI[of _ 1] exI[of _ s'] exI[of _ g'] conjI put) (auto simp: can False')
  qed
qed

lemma put_uninitialised:
  "g_inited s = 0 \<Longrightarrow> ramfs_put_copy name data sz s = ramfs_put_copy name data sz (snd (ramfs_init s))"
  by (simp add: ramfs_put_copy_def ramfs_init_def)

lemma put_spec:
  assumes ok: "ramfs_ok s g" and src: "data \<noteq> 0" "readable g data (unat sz)"
  shows "\<exists>r s' g'. ramfs_put_copy (Some nm) data sz s = Some (r, s') \<and> ramfs_ok s' g' \<and>
    (r \<noteq> 0) = ramfs_can_put s g nm sz \<and>
    (if r = 0 then \<forall>nm'. ramfs_file s' nm' = ramfs_file s nm'
     else r = 1 \<and> ramfs_file s' nm = Some (bytes_at (rf_mem s) data (unat sz)) \<and>
       (\<forall>nm'. cstr nm' \<noteq> cstr nm \<longrightarrow> ramfs_file s' nm' = ramfs_file s nm'))"
proof (cases "g_inited s = 0")
  case True
  let ?i = "snd (ramfs_init s)"
  have f: "ramfs_file s nm' = None" for nm' using True by (simp add: ramfs_file_alt)
  have i: "g_inited ?i \<noteq> 0" "rf_mem ?i = rf_mem s" by (simp_all add: ramfs_init_def)
  have "\<exists>e \<in> set (g_ramfs ?i). re_used e = 0" using ok by (cases "g_ramfs s") (auto simp: ramfs_ok_def ramfs_init_def)
  then have c: "ramfs_can_put ?i g nm sz = ramfs_can_put s g nm sz" using True i(1) by (auto simp: ramfs_can_put_def)
  show ?thesis
    using put_initialised[OF ramfs_init_ok[OF ok] i(1) src, of nm]
    by (simp only: put_uninitialised[OF True] f ramfs_init_file i(2) c)
next
  case False
  then show ?thesis by (rule put_initialised[OF ok _ src])
qed

section \<open>Properties\<close>

text \<open>
  C13. ramfs_put_copy returns, with success exactly when the name has 1 to 31 characters, the
  file exists or a slot is free, and the heap has a block for the copy; on success the store
  holds a private copy of the caller's bytes under that name and every other file is unchanged,
  on failure no file changes.
\<close>

theorem ramfs_put_get:
  assumes "ramfs_ok s g" "data \<noteq> 0" "readable g data (unat sz)"
  shows "\<exists>r s' g'. ramfs_put_copy (Some nm) data sz s = Some (r, s') \<and> ramfs_ok s' g' \<and>
    (r \<noteq> 0) = ramfs_can_put s g nm sz \<and>
    (if r = 0 then \<forall>nm'. ramfs_file s' nm' = ramfs_file s nm'
     else r = 1 \<and> ramfs_file s' nm = Some (bytes_at (rf_mem s) data (unat sz)) \<and>
       (\<forall>nm'. cstr nm' \<noteq> cstr nm \<longrightarrow> ramfs_file s' nm' = ramfs_file s nm'))"
  by (rule put_spec[OF assms])

definition ramfs_example :: ramfs where
  "ramfs_example = \<lparr>g_ramfs = replicate 32 \<lparr>re_used = 0, re_name = replicate 32 0, re_data = 0, re_size = 0\<rparr>,
     g_inited = 0, rf_heap = heap_example, rf_mem = (\<lambda>a. ucast a)\<rparr>"

theorem ramfs_put_get_witness:
  "\<exists>s'. ramfs_put_copy (Some [0x61, 0]) 0x2000 4 ramfs_example = Some (1, s') \<and>
     ramfs_file s' [0x61, 0] = Some (bytes_at (\<lambda>a. ucast a) 0x2000 4)"
proof -
  let ?g = "(0x1000, 0x1100, [(0x1000, 0xE8, True)])"
  have ok: "ramfs_ok ramfs_example ?g"
    using heap_example_rel by (simp add: ramfs_ok_def ramfs_example_def kheap_rel_def)
  have r: "readable ?g 0x2000 (unat (4 :: u32))" by (simp add: readable_def ghost_range_def)
  have c: "ramfs_can_put ramfs_example ?g [0x61, 0] 4"
    by (simp add: ramfs_can_put_def cstr_Cons) (simp add: ramfs_example_def)
  from ramfs_put_get[OF ok _ r, of "[0x61, 0]"] c show ?thesis
    by (fastforce simp: ramfs_example_def split: if_splits)
qed

end
