(* ===== verification/BlockDevice.thy ===== *)
theory BlockDevice
  imports Prelude
begin

text \<open>
  The storage interface of \<open>src/include/ata_pio.h\<close> as the file systems use it: the four
  functions of the driver, over the state of the machine it drives, and the contract
  \<open>block_device\<close> their clients are proved against. \<open>Ata\<close> provides it.
\<close>

record ('v, 's) blk_driver =
  bd_init :: "'s \<Rightarrow> bool \<times> 's"
  bd_device :: "'s \<Rightarrow> 'v option"
  bd_read28 :: "'v option \<Rightarrow> u32 \<Rightarrow> u8 \<Rightarrow> 's \<Rightarrow> (bool \<times> u8 list) \<times> 's"
  bd_write28 :: "'v option \<Rightarrow> u32 \<Rightarrow> u8 \<Rightarrow> u8 list \<Rightarrow> 's \<Rightarrow> bool \<times> 's"

text \<open>
  What a medium can do, sector by sector: it can be read; a write to it is reported as done; a
  write to it is stored. The last two differ, because the driver does not look at the status behind
  the data of its last sector.
\<close>

record medium =
  md_reads :: "nat \<Rightarrow> bool"
  md_takes :: "nat \<Rightarrow> bool"
  md_stores :: "nat \<Rightarrow> bool"

text \<open>
  \<open>block\<close> is what the medium holds, \<open>med\<close> what it can do. A read succeeds exactly on readable
  sectors and returns them; a write of one sector reports success exactly on sectors that take
  it, the sectors that store it then hold the data, and no other sector changes.
\<close>

locale block_device =
  fixes dr :: "('v, 's) blk_driver"
    and inv :: "'s \<Rightarrow> bool"
    and handle :: "'s \<Rightarrow> 'v option \<Rightarrow> bool"
    and block :: "'s \<Rightarrow> nat \<Rightarrow> u8 list"
    and med :: "'s \<Rightarrow> medium"
  assumes init_keeps: "inv s \<Longrightarrow> bd_init dr s = (r, s') \<Longrightarrow> inv s' \<and> block s' = block s \<and> med s' = med s"
    and init_device: "inv s \<Longrightarrow> bd_init dr s = (r, s') \<Longrightarrow> if r then handle s' (bd_device dr s') else bd_device dr s' = None"
    and init_finds: "inv s \<Longrightarrow> md_reads (med s) l \<Longrightarrow> fst (bd_init dr s)"
    and rd_keeps: "inv s \<Longrightarrow> handle s v \<Longrightarrow> bd_read28 dr v lba n s = ((r, bs), s') \<Longrightarrow>
      inv s' \<and> handle s' v \<and> block s' = block s \<and> med s' = med s"
    and rd_ok: "inv s \<Longrightarrow> handle s v \<Longrightarrow> bd_read28 dr v lba n s = ((r, bs), s') \<Longrightarrow> unat lba + unat n \<le> 2 ^ 28 \<Longrightarrow>
      r = (n \<noteq> 0 \<and> (\<forall>i < unat n. md_reads (med s) (unat lba + i)))"
    and rd_data: "inv s \<Longrightarrow> handle s v \<Longrightarrow> bd_read28 dr v lba n s = ((True, bs), s') \<Longrightarrow>
      bs = concat (map (block s) [unat lba..<unat lba + unat n])"
    and rd_high: "inv s \<Longrightarrow> handle s v \<Longrightarrow> bd_read28 dr v lba n s = ((True, bs), s') \<Longrightarrow> unat lba < 2 ^ 28"
    and wr_keeps: "inv s \<Longrightarrow> handle s v \<Longrightarrow> 512 * unat n \<le> length buf \<Longrightarrow> bd_write28 dr v lba n buf s = (r, s') \<Longrightarrow>
      inv s' \<and> handle s' v \<and> med s' = med s"
    and wr_ok: "inv s \<Longrightarrow> handle s v \<Longrightarrow> 512 \<le> length buf \<Longrightarrow> bd_write28 dr v lba 1 buf s = (r, s') \<Longrightarrow>
      r = md_takes (med s) (unat lba)"
    and wr_data: "inv s \<Longrightarrow> handle s v \<Longrightarrow> 512 * unat n \<le> length buf \<Longrightarrow> bd_write28 dr v lba n buf s = (True, s') \<Longrightarrow>
      i < unat n \<Longrightarrow> md_stores (med s) (unat lba + i) \<Longrightarrow> block s' (unat lba + i) = take 512 (drop (512 * i) buf)"
    and wr_frame: "inv s \<Longrightarrow> handle s v \<Longrightarrow> 512 * unat n \<le> length buf \<Longrightarrow> bd_write28 dr v lba n buf s = (r, s') \<Longrightarrow>
      j < unat lba \<or> unat lba + unat n \<le> j \<Longrightarrow> block s' j = block s j"
    and reads_high: "md_reads (med s) l \<Longrightarrow> l < 2 ^ 28"
    and takes_high: "md_takes (med s) l \<Longrightarrow> l < 2 ^ 28"
    and stores_takes: "md_stores (med s) l \<Longrightarrow> md_takes (med s) l"
    and handle_dev: "handle s v \<Longrightarrow> v \<noteq> None"
    and block_length: "inv s \<Longrightarrow> handle s v \<Longrightarrow> length (block s l) = 512"
begin

text \<open>One sector, as the file systems use it.\<close>

lemma rd1:
  assumes "inv s" "handle s v" "bd_read28 dr v lba 1 s = ((r, bs), s')"
  shows "r = md_reads (med s) (unat lba)" "r \<Longrightarrow> bs = block s (unat lba)"
    "inv s'" "handle s' v" "block s' = block s" "med s' = med s"
proof -
  show "r = md_reads (med s) (unat lba)"
  proof (cases "unat lba < 2 ^ 28")
    case True
    then show ?thesis using rd_ok[OF assms] by simp
  next
    case False
    then show ?thesis using rd_high[OF assms(1,2), of lba 1 bs s'] assms(3) reads_high by (cases r) auto
  qed
  show "r \<Longrightarrow> bs = block s (unat lba)" using rd_data[OF assms(1,2), of lba 1 bs s'] assms(3) by auto
  show "inv s'" "handle s' v" "block s' = block s" "med s' = med s" using rd_keeps[OF assms] by auto
qed

lemma wr1:
  assumes "inv s" "handle s v" "length buf = 512" "bd_write28 dr v lba 1 buf s = (r, s')"
  shows "r = md_takes (med s) (unat lba)" "md_stores (med s) (unat lba) \<Longrightarrow> block s' = (block s)(unat lba := buf)"
    "j \<noteq> unat lba \<Longrightarrow> block s' j = block s j"
    "inv s'" "handle s' v" "med s' = med s"
proof -
  have len: "512 * unat (1 :: u8) \<le> length buf" using assms(3) by simp
  show r: "r = md_takes (med s) (unat lba)" using wr_ok[OF assms(1,2) _ assms(4)] assms(3) by simp
  show fr: "j \<noteq> unat lba \<Longrightarrow> block s' j = block s j" for j
    using wr_frame[OF assms(1,2) len assms(4), of j] by (cases "j < unat lba") auto
  show "md_stores (med s) (unat lba) \<Longrightarrow> block s' = (block s)(unat lba := buf)"
    using wr_data[OF assms(1,2) len, of lba s' 0] stores_takes[of s "unat lba"] r assms(3,4) fr by (auto simp: fun_eq_iff)
  show "inv s'" "handle s' v" "med s' = med s" using wr_keeps[OF assms(1,2) len assms(4)] by auto
qed

end

end
