(* ===== verification/Ata.thy ===== *)
theory Ata
  imports Io BlockDevice
begin

text \<open>
  The ATA driver \<open>src/kernel/drivers/ata_pio.c\<close>, written over the port instructions of \<open>Io\<close>:
  every \<open>inb\<close>/\<open>outb\<close>/\<open>inw\<close>/\<open>outw\<close> of the C file is a call on the device, in the same order.
  The output buffer of a read is the list of the bytes stored from its start on (a failed read
  leaves a shorter list); a \<open>uint16_t\<close> is stored low byte first. The log lines sent to the
  serial port are left out.

  The disk behind the ports is described by \<open>ata_port_model\<close>: a register-level reading of
  the ATA command protocol (task file, BSY/DRQ/ERR, PIO data phases, one latency per
  command and per sector, unreadable sectors, sectors that cannot be written, end of medium). A
  sector that cannot be read is reported before its data. A sector that cannot be written may be
  reported before its data is asked for, after its data was taken (the ordinary case of the PIO data-out
  protocol), or only by the cache flush. The driver checks the status before each
  sector and never after the last one, nor after the flush, so what it returns
  for a write is \<open>write_reported\<close>, which is not that the data was stored. The driver is
  a \<open>block_device\<close> on every such device.
\<close>

section \<open>The driver\<close>

record ata_pio_device =
  dv_io_base :: u16
  dv_ctrl_base :: u16
  dv_is_slave :: u8
  dv_present :: u8

definition io_delay_400ns :: "'d port_io \<Rightarrow> u16 \<Rightarrow> 'd \<Rightarrow> 'd" where
  "io_delay_400ns io ctrl_base d =
     (let d = snd (io_inb io (ctrl_base + 0) d);
          d = snd (io_inb io (ctrl_base + 0) d);
          d = snd (io_inb io (ctrl_base + 0) d);
          d = snd (io_inb io (ctrl_base + 0) d) in d)"

fun ata_wait_not_bsy :: "'d port_io \<Rightarrow> u16 \<Rightarrow> u16 \<Rightarrow> nat \<Rightarrow> 'd \<Rightarrow> bool \<times> 'd" where
  "ata_wait_not_bsy io io_base ctrl_base spins d =
     (if spins = 0 then (False, d)
      else let (s, d) = io_inb io (io_base + 7) d in
           if s AND 0x80 = 0 then (True, d)
           else ata_wait_not_bsy io io_base ctrl_base (spins - 1) d)"

fun ata_wait_drq :: "'d port_io \<Rightarrow> u16 \<Rightarrow> u16 \<Rightarrow> nat \<Rightarrow> 'd \<Rightarrow> bool \<times> 'd" where
  "ata_wait_drq io io_base ctrl_base spins d =
     (if spins = 0 then (False, d)
      else let (s, d) = io_inb io (io_base + 7) d in
           if s AND 0x01 \<noteq> 0 then (False, d)
           else if s AND 0x80 = 0 \<and> s AND 0x08 \<noteq> 0 then (True, d)
           else ata_wait_drq io io_base ctrl_base (spins - 1) d)"

declare ata_wait_not_bsy.simps [simp del] ata_wait_drq.simps [simp del]

definition ata_select_drive :: "'d port_io \<Rightarrow> u16 \<Rightarrow> u16 \<Rightarrow> u8 \<Rightarrow> 'd \<Rightarrow> 'd" where
  "ata_select_drive io io_base ctrl_base is_slave d =
     (let sel = 0xE0 OR (if is_slave \<noteq> 0 then 0x10 else 0);
          d = io_outb io (io_base + 6) sel d
      in io_delay_400ns io ctrl_base d)"

text \<open>The loop \<open>for i < 256: *dst++ = inw(data)\<close> and its counterpart with \<open>outw\<close>.\<close>

fun read_words :: "'d port_io \<Rightarrow> u16 \<Rightarrow> nat \<Rightarrow> 'd \<Rightarrow> u16 list \<times> 'd" where
  "read_words io port 0 d = ([], d)"
| "read_words io port (Suc n) d =
     (let (w, d) = io_inw io port d; (ws, d) = read_words io port n d in (w # ws, d))"

fun write_words :: "'d port_io \<Rightarrow> u16 \<Rightarrow> u16 list \<Rightarrow> 'd \<Rightarrow> 'd" where
  "write_words io port [] d = d"
| "write_words io port (w # ws) d = write_words io port ws (io_outw io port w d)"

definition ata_identify :: "'d port_io \<Rightarrow> u16 \<Rightarrow> u16 \<Rightarrow> u8 \<Rightarrow> 'd \<Rightarrow> u16 list option \<times> 'd" where
  "ata_identify io io_base ctrl_base is_slave d =
     (let d = ata_select_drive io io_base ctrl_base is_slave d;
          d = io_outb io (io_base + 2) 0 d;
          d = io_outb io (io_base + 3) 0 d;
          d = io_outb io (io_base + 4) 0 d;
          d = io_outb io (io_base + 5) 0 d;
          d = io_outb io (io_base + 7) 0xEC d;
          d = io_delay_400ns io ctrl_base d;
          (status, d) = io_inb io (io_base + 7) d in
      if status = 0 \<or> status = 0xFF then (None, d)
      else let (ok, d) = ata_wait_not_bsy io io_base ctrl_base 1000000 d in
      if \<not> ok then (None, d)
      else let (lba1, d) = io_inb io (io_base + 4) d;
               (lba2, d) = io_inb io (io_base + 5) d in
      if lba1 \<noteq> 0 \<or> lba2 \<noteq> 0 then (None, d)
      else let (ok, d) = ata_wait_drq io io_base ctrl_base 1000000 d in
      if \<not> ok then (None, d)
      else let (ws, d) = read_words io (io_base + 0) 256 d in (Some ws, d))"

text \<open>The static \<open>g_storage\<close> is passed and returned beside the hardware.\<close>

definition ata_pio_init :: "'d port_io \<Rightarrow> ata_pio_device \<Rightarrow> 'd \<Rightarrow> bool \<times> ata_pio_device \<times> 'd" where
  "ata_pio_init io g_storage d =
     (let io_base = 0x1F0; ctrl_base = 0x3F6;
          (r, d) = ata_identify io io_base ctrl_base 1 d in
      if r \<noteq> None then
        (True, g_storage\<lparr>dv_io_base := io_base, dv_ctrl_base := ctrl_base,
                         dv_is_slave := 1, dv_present := 1\<rparr>, d)
      else let (r, d) = ata_identify io io_base ctrl_base 0 d in
      if r \<noteq> None then
        (True, g_storage\<lparr>dv_io_base := io_base, dv_ctrl_base := ctrl_base,
                         dv_is_slave := 0, dv_present := 1\<rparr>, d)
      else (False, g_storage\<lparr>dv_present := 0\<rparr>, d))"

definition ata_pio_get_storage_device :: "ata_pio_device \<Rightarrow> ata_pio_device option" where
  "ata_pio_get_storage_device g_storage = (if dv_present g_storage \<noteq> 0 then Some g_storage else None)"

text \<open>The task file programming that both transfer commands start with.\<close>

definition ata_setup28 :: "'d port_io \<Rightarrow> ata_pio_device \<Rightarrow> u32 \<Rightarrow> u8 \<Rightarrow> u8 \<Rightarrow> 'd \<Rightarrow> 'd" where
  "ata_setup28 io dev lba cnt cmd d =
     (let p = dv_io_base dev; ctrl = dv_ctrl_base dev;
          d = ata_select_drive io p ctrl (dv_is_slave dev) d;
          d = io_outb io (p + 6)
                (ucast (0xE0 OR (if dv_is_slave dev \<noteq> 0 then 0x10 else 0) OR (drop_bit 24 lba AND 0x0F))) d;
          d = io_delay_400ns io ctrl d;
          d = io_outb io (p + 1) 0 d;
          d = io_outb io (p + 2) cnt d;
          d = io_outb io (p + 3) (ucast (lba AND 0xFF)) d;
          d = io_outb io (p + 4) (ucast (drop_bit 8 lba AND 0xFF)) d;
          d = io_outb io (p + 5) (ucast (drop_bit 16 lba AND 0xFF)) d
      in io_outb io (p + 7) cmd d)"

fun read_sectors :: "'d port_io \<Rightarrow> u16 \<Rightarrow> u16 \<Rightarrow> nat \<Rightarrow> 'd \<Rightarrow> (bool \<times> u8 list) \<times> 'd" where
  "read_sectors io p ctrl 0 d = ((True, []), d)"
| "read_sectors io p ctrl (Suc n) d =
     (let (ok, d) = ata_wait_drq io p ctrl 1000000 d in
      if \<not> ok then ((False, []), d)
      else let (ws, d) = read_words io (p + 0) 256 d;
               d = io_delay_400ns io ctrl d;
               ((ok, bs), d) = read_sectors io p ctrl n d
           in ((ok, concat (map le16 ws) @ bs), d))"

fun write_sectors :: "'d port_io \<Rightarrow> u16 \<Rightarrow> u16 \<Rightarrow> nat \<Rightarrow> u8 list \<Rightarrow> 'd \<Rightarrow> bool \<times> 'd" where
  "write_sectors io p ctrl 0 buf d = (True, d)"
| "write_sectors io p ctrl (Suc n) buf d =
     (let (ok, d) = ata_wait_drq io p ctrl 1000000 d in
      if \<not> ok then (False, d)
      else let d = write_words io (p + 0) (words_of buf) d;
               d = io_delay_400ns io ctrl d
           in write_sectors io p ctrl n (drop 512 buf) d)"

definition ata_pio_read28 ::
  "'d port_io \<Rightarrow> ata_pio_device option \<Rightarrow> u32 \<Rightarrow> u8 \<Rightarrow> 'd \<Rightarrow> (bool \<times> u8 list) \<times> 'd" where
  "ata_pio_read28 io dev lba cnt d =
     (case dev of None \<Rightarrow> ((False, []), d)
      | Some dv \<Rightarrow>
          if dv_present dv = 0 \<or> cnt = 0 then ((False, []), d)
          else if lba AND 0xF0000000 \<noteq> 0 then ((False, []), d)
          else let d = ata_setup28 io dv lba cnt 0x20 d
               in read_sectors io (dv_io_base dv) (dv_ctrl_base dv) (unat cnt) d)"

definition ata_pio_write28 ::
  "'d port_io \<Rightarrow> ata_pio_device option \<Rightarrow> u32 \<Rightarrow> u8 \<Rightarrow> u8 list \<Rightarrow> 'd \<Rightarrow> bool \<times> 'd" where
  "ata_pio_write28 io dev lba cnt in_buf d =
     (case dev of None \<Rightarrow> (False, d)
      | Some dv \<Rightarrow>
          if dv_present dv = 0 \<or> cnt = 0 then (False, d)
          else if lba AND 0xF0000000 \<noteq> 0 then (False, d)
          else let d = ata_setup28 io dv lba cnt 0x30 d;
                   (ok, d) = write_sectors io (dv_io_base dv) (dv_ctrl_base dv) (unat cnt) in_buf d
               in if \<not> ok then (False, d)
                  else let d = io_outb io (dv_io_base dv + 7) 0xE7 d;
                           d = snd (ata_wait_not_bsy io (dv_io_base dv) (dv_ctrl_base dv) 1000000 d)
                       in (True, d))"

section \<open>The device\<close>

text \<open>When a disk tells that a sector it is to write cannot be written.\<close>

datatype write_report = Refused | Afterwards | AtFlush

text \<open>
  The contents, the capacity, the sectors that cannot be read, those that cannot be written, how
  the failure of such a write shows, and what it leaves of the old and the new contents.
\<close>

record ata_disk =
  dk_sector :: "nat \<Rightarrow> u8 list"
  dk_cap :: nat
  dk_bad :: "nat \<Rightarrow> bool"
  dk_wbad :: "nat \<Rightarrow> bool"
  dk_report :: "nat \<Rightarrow> write_report"
  dk_torn :: "nat \<Rightarrow> u8 list \<Rightarrow> u8 list \<Rightarrow> u8 list"
  dk_ident :: "u16 list"

definition dk_writable :: "ata_disk \<Rightarrow> nat \<Rightarrow> bool" where
  "dk_writable dk l \<longleftrightarrow> l < dk_cap dk \<and> \<not> dk_wbad dk l"

text \<open>The disk asks for the data of the sector; it goes on to the sector behind it.\<close>

definition dk_accepts :: "ata_disk \<Rightarrow> nat \<Rightarrow> bool" where
  "dk_accepts dk l \<longleftrightarrow> dk_writable dk l \<or> dk_report dk l \<noteq> Refused"

definition dk_passes :: "ata_disk \<Rightarrow> nat \<Rightarrow> bool" where
  "dk_passes dk l \<longleftrightarrow> dk_writable dk l \<or> dk_report dk l = AtFlush"

text \<open>
  A data phase holds the words of the current sector still to be read (or received so far),
  the block address of the next sector (or of this one) and the number of sectors after it.
\<close>

datatype ata_phase = Idle | Failed | DataIn "u16 list" nat nat | DataOut "u16 list" nat nat

record ata_hw =
  hw_disk :: "bool \<Rightarrow> ata_disk option"
  hw_seccount :: u8
  hw_lba0 :: u8
  hw_lba1 :: u8
  hw_lba2 :: u8
  hw_devsel :: u8
  hw_phase :: ata_phase
  hw_busy :: nat
  hw_lat :: "nat \<Rightarrow> nat"
  hw_ops :: nat
  hw_wfail :: bool

definition hw_slave :: "ata_hw \<Rightarrow> bool" where
  "hw_slave h = (hw_devsel h AND 0x10 \<noteq> 0)"

definition hw_cur :: "ata_hw \<Rightarrow> ata_disk option" where
  "hw_cur h = hw_disk h (hw_slave h)"

text \<open>The device goes busy for a number of status reads and then shows the new phase.\<close>

definition hw_start :: "ata_phase \<Rightarrow> ata_hw \<Rightarrow> ata_hw" where
  "hw_start ph h = h\<lparr>hw_phase := ph, hw_busy := hw_lat h (hw_ops h), hw_ops := Suc (hw_ops h)\<rparr>"

definition hw_good :: "ata_hw \<Rightarrow> nat \<Rightarrow> bool" where
  "hw_good h l = (case hw_cur h of None \<Rightarrow> False | Some dk \<Rightarrow> l < dk_cap dk \<and> \<not> dk_bad dk l)"

definition hw_sector :: "ata_hw \<Rightarrow> nat \<Rightarrow> u8 list" where
  "hw_sector h l = (case hw_cur h of None \<Rightarrow> [] | Some dk \<Rightarrow> dk_sector dk l)"

definition hw_on :: "(ata_disk \<Rightarrow> nat \<Rightarrow> bool) \<Rightarrow> ata_hw \<Rightarrow> nat \<Rightarrow> bool" where
  "hw_on P h l = (case hw_cur h of None \<Rightarrow> False | Some dk \<Rightarrow> P dk l)"

definition hw_in_next :: "nat \<Rightarrow> nat \<Rightarrow> ata_hw \<Rightarrow> ata_hw" where
  "hw_in_next l n h =
     (if n = 0 then h\<lparr>hw_phase := Idle\<rparr>
      else if \<not> hw_good h l then hw_start Failed h
      else hw_start (DataIn (words_of (hw_sector h l)) (l + 1) (n - 1)) h)"

definition hw_out_next :: "nat \<Rightarrow> nat \<Rightarrow> ata_hw \<Rightarrow> ata_hw" where
  "hw_out_next l n h =
     (if n = 0 then hw_start Idle h
      else if \<not> hw_on dk_accepts h l then hw_start Failed h
      else hw_start (DataOut [] l (n - 1)) h)"

definition hw_lba :: "ata_hw \<Rightarrow> nat" where
  "hw_lba h = unat (hw_lba0 h) + 2 ^ 8 * unat (hw_lba1 h) + 2 ^ 16 * unat (hw_lba2 h) +
     2 ^ 24 * unat (hw_devsel h AND 0x0F)"

definition hw_count :: "ata_hw \<Rightarrow> nat" where
  "hw_count h = (if hw_seccount h = 0 then 256 else unat (hw_seccount h))"

definition hw_command :: "u8 \<Rightarrow> ata_hw \<Rightarrow> ata_hw" where
  "hw_command v h =
     (case hw_cur h of None \<Rightarrow> h
      | Some dk \<Rightarrow>
          if v = 0xEC then hw_start (DataIn (dk_ident dk) 0 0) (h\<lparr>hw_lba1 := 0, hw_lba2 := 0\<rparr>)
          else if v = 0x20 then hw_in_next (hw_lba h) (hw_count h) h
          else if v = 0x30 then hw_out_next (hw_lba h) (hw_count h) h
          else if v = 0xE7 then hw_start (if hw_wfail h then Failed else Idle) (h\<lparr>hw_wfail := False\<rparr>)
          else hw_start Failed h)"

definition hw_store :: "nat \<Rightarrow> u8 list \<Rightarrow> ata_hw \<Rightarrow> ata_hw" where
  "hw_store l bs h = h\<lparr>hw_disk := (hw_disk h)(hw_slave h :=
     map_option (\<lambda>dk. dk\<lparr>dk_sector := (dk_sector dk)(l := bs)\<rparr>) (hw_cur h))\<rparr>"

text \<open>The data of sector \<open>l\<close> is complete and \<open>n\<close> sectors are to follow.\<close>

definition hw_written :: "nat \<Rightarrow> nat \<Rightarrow> u8 list \<Rightarrow> ata_hw \<Rightarrow> ata_hw" where
  "hw_written l n bs h =
     (case hw_cur h of None \<Rightarrow> h
      | Some dk \<Rightarrow>
          if dk_writable dk l then hw_out_next (l + 1) n (hw_store l bs h)
          else let h' = hw_store l (dk_torn dk l (dk_sector dk l) bs) h in
               if dk_report dk l = AtFlush then hw_out_next (l + 1) n (h'\<lparr>hw_wfail := True\<rparr>)
               else hw_start Failed h')"

definition hw_status :: "ata_hw \<Rightarrow> u8" where
  "hw_status h =
     (if hw_cur h = None then 0
      else if 0 < hw_busy h then 0x80
      else case hw_phase h of Idle \<Rightarrow> 0x40 | Failed \<Rightarrow> 0x41 | DataIn _ _ _ \<Rightarrow> 0x48 | DataOut _ _ _ \<Rightarrow> 0x48)"

definition hw_inb :: "u16 \<Rightarrow> ata_hw \<Rightarrow> u8 \<times> ata_hw" where
  "hw_inb p h =
     (if p = 0x1F7 then (hw_status h, h\<lparr>hw_busy := hw_busy h - 1\<rparr>)
      else if p = 0x3F6 then (hw_status h, h)
      else if p = 0x1F4 then (hw_lba1 h, h)
      else if p = 0x1F5 then (hw_lba2 h, h)
      else (0, h))"

definition hw_outb :: "u16 \<Rightarrow> u8 \<Rightarrow> ata_hw \<Rightarrow> ata_hw" where
  "hw_outb p v h =
     (if p = 0x1F2 then h\<lparr>hw_seccount := v\<rparr>
      else if p = 0x1F3 then h\<lparr>hw_lba0 := v\<rparr>
      else if p = 0x1F4 then h\<lparr>hw_lba1 := v\<rparr>
      else if p = 0x1F5 then h\<lparr>hw_lba2 := v\<rparr>
      else if p = 0x1F6 then h\<lparr>hw_devsel := v\<rparr>
      else if p = 0x1F7 then hw_command v h
      else h)"

definition hw_inw :: "u16 \<Rightarrow> ata_hw \<Rightarrow> u16 \<times> ata_hw" where
  "hw_inw p h =
     (if p \<noteq> 0x1F0 \<or> 0 < hw_busy h then (0, h)
      else case hw_phase h of
        DataIn (w # ws) l n \<Rightarrow>
          (w, if ws = [] then hw_in_next l n h else h\<lparr>hw_phase := DataIn ws l n\<rparr>)
      | _ \<Rightarrow> (0, h))"

definition hw_outw :: "u16 \<Rightarrow> u16 \<Rightarrow> ata_hw \<Rightarrow> ata_hw" where
  "hw_outw p w h =
     (if p \<noteq> 0x1F0 \<or> 0 < hw_busy h then h
      else case hw_phase h of
        DataOut ws l n \<Rightarrow>
          (if length ws = 255 then hw_written l n (concat (map le16 (ws @ [w]))) h
           else h\<lparr>hw_phase := DataOut (ws @ [w]) l n\<rparr>)
      | _ \<Rightarrow> h)"

text \<open>Hardware whose observable behaviour at the ATA ports is that of the device above.\<close>

definition ata_ports :: "u16 set" where
  "ata_ports = {0x1F0, 0x1F1, 0x1F2, 0x1F3, 0x1F4, 0x1F5, 0x1F6, 0x1F7, 0x3F6}"

definition ata_port_model :: "'d port_io \<Rightarrow> ('d \<Rightarrow> ata_hw) \<Rightarrow> bool" where
  "ata_port_model io view \<longleftrightarrow> (\<forall>p \<in> ata_ports. \<forall>d.
     (fst (io_inb io p d), view (snd (io_inb io p d))) = hw_inb p (view d) \<and>
     (fst (io_inw io p d), view (snd (io_inw io p d))) = hw_inw p (view d) \<and>
     (\<forall>v. view (io_outb io p v d) = hw_outb p v (view d)) \<and>
     (\<forall>w. view (io_outw io p w d) = hw_outw p w (view d)))"

definition hw_ok :: "ata_hw \<Rightarrow> bool" where
  "hw_ok h \<longleftrightarrow> (\<forall>i. hw_lat h i < 1000000) \<and>
     (\<forall>b dk. hw_disk h b = Some dk \<longrightarrow> (\<forall>l. length (dk_sector dk l) = 512) \<and> length (dk_ident dk) = 256 \<and>
       (\<forall>l a c. length a = 512 \<longrightarrow> length c = 512 \<longrightarrow> length (dk_torn dk l a c) = 512))"

lemma in_ata_ports [simp]:
  "0x1F0 \<in> ata_ports" "0x1F1 \<in> ata_ports" "0x1F2 \<in> ata_ports" "0x1F3 \<in> ata_ports" "0x1F4 \<in> ata_ports"
  "0x1F5 \<in> ata_ports" "0x1F6 \<in> ata_ports" "0x1F7 \<in> ata_ports" "0x3F6 \<in> ata_ports"
  by (simp_all add: ata_ports_def)

lemma port_simps:
  assumes "ata_port_model io view" "p \<in> ata_ports"
  shows "fst (io_inb io p d) = fst (hw_inb p (view d))" "view (snd (io_inb io p d)) = snd (hw_inb p (view d))"
    "fst (io_inw io p d) = fst (hw_inw p (view d))" "view (snd (io_inw io p d)) = snd (hw_inw p (view d))"
    "view (io_outb io p v d) = hw_outb p v (view d)" "view (io_outw io p w d) = hw_outw p w (view d)"
  using assms unfolding ata_port_model_def by (metis fst_conv snd_conv)+

section \<open>The protocol steps\<close>

lemma delay_view:
  "ata_port_model io view \<Longrightarrow> view (io_delay_400ns io 0x3F6 d) = view d"
  by (simp add: io_delay_400ns_def port_simps hw_inb_def)

lemma hw_status_busy: "hw_cur h \<noteq> None \<Longrightarrow> 0 < hw_busy h \<Longrightarrow> hw_status h = 0x80"
  by (simp add: hw_status_def)

lemma hw_upd_busy [simp]:
  "hw_cur (h\<lparr>hw_busy := n\<rparr>) = hw_cur h" "hw_cur (h\<lparr>hw_phase := ph\<rparr>) = hw_cur h"
  "hw_cur (hw_start ph h) = hw_cur h"
  by (simp_all add: hw_cur_def hw_slave_def hw_start_def)

text \<open>Polling counts the latency down and stops at the phase behind it.\<close>

lemma wait_drq_view:
  assumes M: "ata_port_model io view"
    and "hw_cur (view d) \<noteq> None" "hw_busy (view d) < n" "hw_phase (view d) \<noteq> Idle"
  shows "view (snd (ata_wait_drq io 0x1F0 c n d)) = (view d)\<lparr>hw_busy := 0\<rparr> \<and>
    fst (ata_wait_drq io 0x1F0 c n d) = (hw_phase (view d) \<noteq> Failed)"
  using assms(2-)
proof (induction n arbitrary: d)
  case (Suc n)
  obtain s d' where r: "io_inb io 0x1F7 d = (s, d')" by fastforce
  then have s: "s = hw_status (view d)" "view d' = (view d)\<lparr>hw_busy := hw_busy (view d) - 1\<rparr>"
    using port_simps(1,2)[OF M in_ata_ports(8), of d] by (simp_all add: hw_inb_def)
  show ?case
  proof (cases "hw_busy (view d) = 0")
    case True
    then have v: "view d' = (view d)\<lparr>hw_busy := 0\<rparr>" using s by simp
    show ?thesis
      using Suc.prems True r s(1) v
      by (subst (1 2) ata_wait_drq.simps) (auto simp: hw_status_def Let_def split: ata_phase.splits)
  next
    case False
    then have "s = 0x80" using s Suc.prems by (simp add: hw_status_busy)
    then have "ata_wait_drq io 0x1F0 c (Suc n) d = ata_wait_drq io 0x1F0 c n d'"
      using r by (subst ata_wait_drq.simps) simp
    moreover have "hw_busy (view d') < n" "hw_cur (view d') \<noteq> None" "hw_phase (view d') = hw_phase (view d)"
      using Suc.prems False s(2) by simp_all
    ultimately show ?thesis using Suc.IH[of d'] Suc.prems(3) s(2) by simp
  qed
qed simp

lemma wait_not_bsy_view:
  assumes M: "ata_port_model io view"
    and "hw_cur (view d) \<noteq> None" "hw_busy (view d) < n"
  shows "view (snd (ata_wait_not_bsy io 0x1F0 c n d)) = (view d)\<lparr>hw_busy := 0\<rparr> \<and>
    fst (ata_wait_not_bsy io 0x1F0 c n d)"
  using assms(2-)
proof (induction n arbitrary: d)
  case (Suc n)
  obtain s d' where r: "io_inb io 0x1F7 d = (s, d')" by fastforce
  then have s: "s = hw_status (view d)" "view d' = (view d)\<lparr>hw_busy := hw_busy (view d) - 1\<rparr>"
    using port_simps(1,2)[OF M in_ata_ports(8), of d] by (simp_all add: hw_inb_def)
  show ?case
  proof (cases "hw_busy (view d) = 0")
    case True
    then have v: "view d' = (view d)\<lparr>hw_busy := 0\<rparr>" using s by simp
    show ?thesis
      using Suc.prems True r s(1) v
      by (subst (1 2) ata_wait_not_bsy.simps) (auto simp: hw_status_def Let_def split: ata_phase.splits)
  next
    case False
    then have "s = 0x80" using s Suc.prems by (simp add: hw_status_busy)
    then have "ata_wait_not_bsy io 0x1F0 c (Suc n) d = ata_wait_not_bsy io 0x1F0 c n d'"
      using r by (subst ata_wait_not_bsy.simps) simp
    moreover have "hw_busy (view d') < n" "hw_cur (view d') \<noteq> None"
      using Suc.prems False s(2) by simp_all
    ultimately show ?thesis using Suc.IH[of d'] s(2) by simp
  qed
qed simp

lemma hw_next_phase [simp]:
  "hw_in_next l n (h\<lparr>hw_phase := ph\<rparr>) = hw_in_next l n h"
  "hw_out_next l n (h\<lparr>hw_phase := ph\<rparr>) = hw_out_next l n h"
  by (simp_all add: hw_in_next_def hw_out_next_def hw_start_def hw_good_def hw_sector_def hw_on_def)

lemma read_words_view:
  assumes M: "ata_port_model io view"
    and "hw_phase (view d) = DataIn ws l k" "hw_busy (view d) = 0" "ws \<noteq> []"
  shows "fst (read_words io 0x1F0 (length ws) d) = ws \<and>
    view (snd (read_words io 0x1F0 (length ws) d)) = hw_in_next l k (view d)"
  using assms(2-)
proof (induction ws arbitrary: d)
  case (Cons w ws)
  obtain v d' where r: "io_inw io 0x1F0 d = (v, d')" by fastforce
  then have v: "v = w"
    "view d' = (if ws = [] then hw_in_next l k (view d) else (view d)\<lparr>hw_phase := DataIn ws l k\<rparr>)"
    using port_simps(3,4)[OF M in_ata_ports(1), of d] Cons.prems by (simp_all add: hw_inw_def)
  show ?case
  proof (cases "ws = []")
    case True
    then show ?thesis using r v by simp
  next
    case False
    then show ?thesis using Cons.IH[of d'] Cons.prems r v by (simp add: split_beta)
  qed
qed simp

lemma hw_store_phase [simp]: "hw_store l b (h\<lparr>hw_phase := ph\<rparr>) = (hw_store l b h)\<lparr>hw_phase := ph\<rparr>"
  by (simp add: hw_store_def hw_cur_def hw_slave_def)

lemma hw_written_phase [simp]:
  "hw_cur h \<noteq> None \<Longrightarrow> hw_written l n b (h\<lparr>hw_phase := ph\<rparr>) = hw_written l n b h"
proof -
  assume "hw_cur h \<noteq> None"
  have w: "h\<lparr>hw_phase := q, hw_wfail := True\<rparr> = h\<lparr>hw_wfail := True, hw_phase := q\<rparr>" for q and h :: ata_hw by simp
  have f: "hw_start Failed (h\<lparr>hw_phase := q\<rparr>) = hw_start Failed h" for q h by (simp add: hw_start_def)
  show ?thesis using \<open>hw_cur h \<noteq> None\<close>
    by (auto simp: hw_written_def Let_def w f split: option.split)
qed

lemma write_words_view:
  assumes M: "ata_port_model io view"
    and "hw_phase (view d) = DataOut us l k" "hw_busy (view d) = 0" "ws \<noteq> []" "length us + length ws = 256"
      "hw_cur (view d) \<noteq> None"
  shows "view (write_words io 0x1F0 ws d) = hw_written l k (concat (map le16 (us @ ws))) (view d)"
  using assms(2-)
proof (induction ws arbitrary: d us)
  case (Cons w ws)
  note v = port_simps(6)[OF M in_ata_ports(1), of w d]
  show ?case
  proof (cases "ws = []")
    case True
    then show ?thesis using v Cons.prems by (simp add: hw_outw_def)
  next
    case False
    then have "view (io_outw io 0x1F0 w d) = (view d)\<lparr>hw_phase := DataOut (us @ [w]) l k\<rparr>"
      using v Cons.prems by (cases ws) (simp_all add: hw_outw_def)
    then show ?thesis using Cons.IH[of "io_outw io 0x1F0 w d" "us @ [w]"] Cons.prems False by simp
  qed
qed simp

section \<open>The sector loops\<close>

text \<open>What a command keeps: the selected drive, the latencies, and all of a disk but its contents.\<close>

definition dk_like :: "ata_disk \<Rightarrow> ata_disk \<Rightarrow> bool" where
  "dk_like a b \<longleftrightarrow> b = a\<lparr>dk_sector := dk_sector b\<rparr>"

definition hw_kept :: "ata_hw \<Rightarrow> ata_hw \<Rightarrow> bool" where
  "hw_kept h h' \<longleftrightarrow> hw_slave h' = hw_slave h \<and> hw_lat h' = hw_lat h \<and>
     hw_disk h' (\<not> hw_slave h) = hw_disk h (\<not> hw_slave h) \<and> rel_option dk_like (hw_cur h) (hw_cur h')"

lemma dk_like_refl [simp]: "dk_like a a"
  by (simp add: dk_like_def)

lemma dk_like_simps:
  assumes "dk_like a b"
  shows "dk_cap b = dk_cap a" "dk_bad b = dk_bad a" "dk_writable b = dk_writable a" "dk_accepts b = dk_accepts a"
    "dk_passes b = dk_passes a"
  by (simp_all add: fun_eq_iff dk_writable_def dk_accepts_def dk_passes_def,
      (subst assms[unfolded dk_like_def], simp)+)

lemma dk_like_trans: "dk_like a b \<Longrightarrow> dk_like b c \<Longrightarrow> dk_like a c"
  unfolding dk_like_def by (metis ata_disk.update_convs(1) ata_disk.surjective ata_disk.select_convs(1))

lemma hw_kept_simps:
  assumes "hw_kept h h'"
  shows "hw_good h' = hw_good h" "hw_on dk_writable h' = hw_on dk_writable h" "hw_on dk_accepts h' = hw_on dk_accepts h"
    "hw_on dk_passes h' = hw_on dk_passes h" "hw_cur h' = None \<longleftrightarrow> hw_cur h = None"
  using assms dk_like_simps
  by (auto simp: hw_kept_def fun_eq_iff hw_good_def hw_on_def option_rel_Some1 split: option.splits)

definition hw_same :: "ata_hw \<Rightarrow> ata_hw \<Rightarrow> bool" where
  "hw_same h h' \<longleftrightarrow> hw_slave h' = hw_slave h \<and> hw_lat h' = hw_lat h \<and> hw_disk h' = hw_disk h"

lemma hw_same_trans: "hw_same h h' \<Longrightarrow> hw_same h' h'' \<Longrightarrow> hw_same h h''"
  by (simp add: hw_same_def)

lemma hw_same_simps:
  assumes "hw_same h h'"
  shows "hw_cur h' = hw_cur h" "hw_good h' = hw_good h" "hw_sector h' = hw_sector h" "hw_ok h' = hw_ok h"
    "hw_on P h' = hw_on P h"
proof -
  show c: "hw_cur h' = hw_cur h" using assms by (simp add: hw_same_def hw_cur_def)
  then show "hw_good h' = hw_good h" "hw_sector h' = hw_sector h" "hw_on P h' = hw_on P h"
    by (simp_all add: fun_eq_iff hw_good_def hw_sector_def hw_on_def)
  show "hw_ok h' = hw_ok h" using assms by (simp add: hw_ok_def hw_same_def)
qed

lemma hw_same_kept: "hw_same h h' \<Longrightarrow> hw_kept h h'"
  using hw_same_simps[of h h'] by (simp add: hw_kept_def option.rel_refl) (simp add: hw_same_def)

lemma hw_kept_trans: "hw_kept h h' \<Longrightarrow> hw_kept h' h'' \<Longrightarrow> hw_kept h h''"
  by (auto simp: hw_kept_def option.rel_sel intro: dk_like_trans)

lemma hw_same_busy [simp]:
  "hw_same h (h\<lparr>hw_busy := n\<rparr>)" "hw_same h (hw_start ph h)" "hw_same h (h\<lparr>hw_phase := ph\<rparr>)"
  "hw_same h ((hw_start ph h)\<lparr>hw_busy := n\<rparr>)" "hw_same h (h\<lparr>hw_wfail := w\<rparr>)"
  "hw_same h (hw_start ph (h\<lparr>hw_wfail := w\<rparr>))" "hw_same h ((hw_start ph (h\<lparr>hw_wfail := w\<rparr>))\<lparr>hw_busy := n\<rparr>)"
  by (simp_all add: hw_same_def hw_start_def hw_slave_def)

lemma hw_start_simps [simp]:
  "hw_phase (hw_start ph h) = ph" "hw_busy (hw_start ph h) = hw_lat h (hw_ops h)"
  by (simp_all add: hw_start_def)

lemma hw_ok_simps: "hw_ok h \<Longrightarrow> hw_lat h i < 1000000"
  "hw_ok h \<Longrightarrow> hw_cur h \<noteq> None \<Longrightarrow> length (hw_sector h l) = 512"
  by (auto simp: hw_ok_def hw_cur_def hw_sector_def)

lemma hw_good_cur: "hw_good h l \<Longrightarrow> hw_cur h \<noteq> None"
  by (auto simp: hw_good_def split: option.splits)

lemma read_sectors_view:
  assumes M: "ata_port_model io view" and "view d = hw_in_next l n h" "hw_ok h" "hw_cur h \<noteq> None"
  shows "hw_same h (view (snd (read_sectors io 0x1F0 0x3F6 n d))) \<and>
    fst (fst (read_sectors io 0x1F0 0x3F6 n d)) = (\<forall>i < n. hw_good h (l + i)) \<and>
    ((\<forall>i < n. hw_good h (l + i)) \<longrightarrow>
      snd (fst (read_sectors io 0x1F0 0x3F6 n d)) = concat (map (hw_sector h) [l..<l + n]))"
  using assms(2-)
proof (induction n arbitrary: d l h)
  case 0
  then show ?case by (simp add: hw_in_next_def)
next
  case (Suc n)
  obtain ok d1 where w: "ata_wait_drq io 0x1F0 0x3F6 1000000 d = (ok, d1)" by fastforce
  have pre: "hw_cur (view d) \<noteq> None" "hw_busy (view d) < 1000000" "hw_phase (view d) \<noteq> Idle"
    using Suc.prems by (auto simp: hw_in_next_def hw_ok_simps)
  have w': "view d1 = (view d)\<lparr>hw_busy := 0\<rparr>" "ok = (hw_phase (view d) \<noteq> Failed)"
    using wait_drq_view[OF M pre, where c = "0x3F6"] w by auto
  show ?case
  proof (cases "hw_good h l")
    case False
    then have "hw_same h (view d1)" "\<not> ok" using Suc.prems w' by (simp_all add: hw_in_next_def)
    then show ?thesis using w False by (auto intro!: exI[of _ 0])
  next
    case True
    then have v: "view d = hw_start (DataIn (words_of (hw_sector h l)) (l + 1) n) h" and ok: "ok"
      using Suc.prems w' by (simp_all add: hw_in_next_def)
    let ?ws = "words_of (hw_sector h l)"
    obtain ws d2 where r: "read_words io 0x1F0 256 d1 = (ws, d2)" by fastforce
    have "?ws \<noteq> []" by (metis length_words_of list.size(3) zero_neq_numeral)
    then have r': "ws = ?ws" "view d2 = hw_in_next (l + 1) n (view d1)"
      using read_words_view[OF M, where d = d1 and ws = ?ws and l = "l + 1" and k = n] v w' r by simp_all
    have same: "hw_same h (view d1)" using v w' by simp
    note IH = Suc.IH[of "io_delay_400ns io 0x3F6 d2" "l + 1" "view d1"]
    have bytes: "concat (map le16 ws) = hw_sector h l"
      using bytes_of_words_of[of "hw_sector h l"] hw_ok_simps(2)[OF Suc.prems(2,3), where l = l] r' by simp
    have all: "(\<forall>i < Suc n. hw_good h (l + i)) \<longleftrightarrow> (\<forall>i < n. hw_good h (l + 1 + i))"
      using True by (auto simp: less_Suc_eq_0_disj)
    have "[l..<l + Suc n] = l # [l + 1..<l + 1 + n]" by (simp add: upt_conv_Cons)
    then show ?thesis
      using IH delay_view[OF M, where d = d2] r' Suc.prems hw_same_simps[OF same] w r ok bytes
        hw_same_trans[OF same] by (simp add: split_beta Let_def all del: upt_Suc)
  qed
qed

lemma hw_store_simps:
  assumes "hw_cur h \<noteq> None"
  shows "hw_kept h (hw_store l b h)" "hw_sector (hw_store l b h) = (hw_sector h)(l := b)"
    "hw_ok h \<Longrightarrow> length b = 512 \<Longrightarrow> hw_ok (hw_store l b h)"
proof -
  obtain dk where dk: "hw_cur h = Some dk" using assms by auto
  then have cur: "hw_cur (hw_store l b h) = Some (dk\<lparr>dk_sector := (dk_sector dk)(l := b)\<rparr>)"
    by (simp add: hw_cur_def hw_store_def hw_slave_def)
  then show "hw_sector (hw_store l b h) = (hw_sector h)(l := b)"
    using dk by (simp add: fun_eq_iff hw_sector_def)
  have "dk_like dk (dk\<lparr>dk_sector := (dk_sector dk)(l := b)\<rparr>)" by (simp add: dk_like_def)
  then show "hw_kept h (hw_store l b h)"
    using cur dk by (simp add: hw_kept_def) (simp add: hw_store_def hw_slave_def)
  show "hw_ok h \<Longrightarrow> length b = 512 \<Longrightarrow> hw_ok (hw_store l b h)"
    using dk by (auto simp: hw_ok_def hw_store_def hw_cur_def split: if_splits)
qed

text \<open>One sector of a write command: the device that has taken its data goes on or has failed.\<close>

lemma hw_written_step:
  assumes "hw_cur h \<noteq> None" "hw_ok h" "length b = 512"
  obtains h1 where "hw_kept h h1" "hw_ok h1"
    "hw_written l n b h = (if hw_on dk_passes h l then hw_out_next (l + 1) n h1 else hw_start Failed h1)"
    "hw_on dk_writable h l \<Longrightarrow> hw_sector h1 l = b" "\<And>j. j \<noteq> l \<Longrightarrow> hw_sector h1 j = hw_sector h j"
proof -
  obtain dk where dk: "hw_cur h = Some dk" using assms by auto
  show thesis
  proof (cases "dk_writable dk l")
    case True
    show ?thesis
      using hw_store_simps[OF assms(1), where l = l and b = b] assms True dk
      by (intro that[of "hw_store l b h"]) (simp_all add: hw_written_def hw_on_def dk_passes_def)
  next
    case False
    let ?t = "dk_torn dk l (dk_sector dk l) b"
    let ?h = "hw_store l ?t h" and ?q = "dk_report dk l = AtFlush"
    have tl: "length ?t = 512" using assms dk by (simp add: hw_ok_def hw_cur_def)
    note st = hw_store_simps[OF assms(1), where l = l and b = ?t]
    have same: "hw_same ?h (?h\<lparr>hw_wfail := True\<rparr>)" by simp
    show ?thesis
      using st assms False dk tl hw_same_simps[OF same] hw_kept_trans[OF st(1) hw_same_kept[OF same]]
      by (intro that[of "if ?q then ?h\<lparr>hw_wfail := True\<rparr> else ?h"])
         (simp_all add: hw_written_def hw_on_def dk_passes_def Let_def)
  qed
qed

text \<open>
  A command whose device has failed: the status is looked at only when a sector is still to be sent.
\<close>

lemma write_sectors_failed:
  assumes M: "ata_port_model io view" and v: "view d = hw_start Failed h" and ok: "hw_ok h" "hw_cur h \<noteq> None"
  shows "hw_same h (view (snd (write_sectors io 0x1F0 0x3F6 n buf d))) \<and>
    fst (write_sectors io 0x1F0 0x3F6 n buf d) = (n = 0) \<and>
    hw_busy (view (snd (write_sectors io 0x1F0 0x3F6 n buf d))) < 1000000"
proof (cases n)
  case 0
  then show ?thesis using v ok by (simp add: hw_ok_simps)
next
  case (Suc m)
  obtain r d1 where w: "ata_wait_drq io 0x1F0 0x3F6 1000000 d = (r, d1)" by fastforce
  have "view d1 = (view d)\<lparr>hw_busy := 0\<rparr>" "r = (hw_phase (view d) \<noteq> Failed)"
    using wait_drq_view[OF M, where d = d and n = 1000000 and c = "0x3F6"] w v ok by (auto simp: hw_ok_simps)
  then show ?thesis using Suc w v by simp
qed

lemma write_sectors_view:
  assumes M: "ata_port_model io view" and "view d = hw_out_next l n h" "hw_ok h" "hw_cur h \<noteq> None"
    "512 * n \<le> length buf"
  shows "hw_kept h (view (snd (write_sectors io 0x1F0 0x3F6 n buf d))) \<and>
    hw_ok (view (snd (write_sectors io 0x1F0 0x3F6 n buf d))) \<and>
    fst (write_sectors io 0x1F0 0x3F6 n buf d) =
      (\<forall>i < n. hw_on dk_accepts h (l + i) \<and> (i + 1 < n \<longrightarrow> hw_on dk_passes h (l + i))) \<and>
    (\<forall>j. j < l \<or> l + n \<le> j \<longrightarrow> hw_sector (view (snd (write_sectors io 0x1F0 0x3F6 n buf d))) j = hw_sector h j) \<and>
    (fst (write_sectors io 0x1F0 0x3F6 n buf d) \<longrightarrow> (\<forall>i < n. hw_on dk_writable h (l + i) \<longrightarrow>
       hw_sector (view (snd (write_sectors io 0x1F0 0x3F6 n buf d))) (l + i) = take 512 (drop (512 * i) buf))) \<and>
    hw_busy (view (snd (write_sectors io 0x1F0 0x3F6 n buf d))) < 1000000"
  using assms(2-)
proof (induction n arbitrary: d l h buf)
  case 0
  have "hw_same h (hw_start Idle h)" by simp
  then show ?case using 0 hw_same_simps[of h "hw_start Idle h"]
    by (auto simp: hw_out_next_def hw_same_kept hw_ok_simps)
next
  case (Suc n)
  obtain ok d1 where w: "ata_wait_drq io 0x1F0 0x3F6 1000000 d = (ok, d1)" by fastforce
  have pre: "hw_cur (view d) \<noteq> None" "hw_busy (view d) < 1000000" "hw_phase (view d) \<noteq> Idle"
    using Suc.prems by (auto simp: hw_out_next_def hw_ok_simps)
  have w': "view d1 = (view d)\<lparr>hw_busy := 0\<rparr>" "ok = (hw_phase (view d) \<noteq> Failed)"
    using wait_drq_view[OF M pre, where c = "0x3F6"] w by auto
  show ?case
  proof (cases "hw_on dk_accepts h l")
    case False
    then have "hw_same h (view d1)" "\<not> ok" "hw_busy (view d1) = 0"
      using Suc.prems w' by (simp_all add: hw_out_next_def)
    then show ?thesis using w False hw_same_simps[of h "view d1"] Suc.prems(2)
      by (auto simp: hw_same_kept intro!: exI[of _ 0])
  next
    case acc: True
    then have v: "view d = hw_start (DataOut [] l n) h" and ok: "ok"
      using Suc.prems w' by (simp_all add: hw_out_next_def)
    let ?d2 = "io_delay_400ns io 0x3F6 (write_words io 0x1F0 (words_of buf) d1)"
    have same: "hw_same h (view d1)" using v w' by simp
    note s1 = hw_same_simps[OF same]
    have cur: "hw_cur (view d1) \<noteq> None" "hw_ok (view d1)" using Suc.prems s1 by auto
    have bytes: "concat (map le16 (words_of buf)) = take 512 buf"
      using bytes_of_words_of[of buf] Suc.prems(4) by simp
    have "words_of buf \<noteq> []" by (metis length_words_of list.size(3) zero_neq_numeral)
    then have d2: "view ?d2 = hw_written l n (take 512 buf) (view d1)"
      using write_words_view[OF M, where d = d1 and us = "[]" and ws = "words_of buf" and l = l and k = n]
        v w' delay_view[OF M] bytes cur by simp
    have tl: "length (take 512 buf) = 512" using Suc.prems(4) by simp
    obtain h1 where h1: "hw_kept (view d1) h1" "hw_ok h1"
      "view ?d2 = (if hw_on dk_passes h l then hw_out_next (l + 1) n h1 else hw_start Failed h1)"
      "hw_on dk_writable h l \<Longrightarrow> hw_sector h1 l = take 512 buf" "\<And>j. j \<noteq> l \<Longrightarrow> hw_sector h1 j = hw_sector h j"
      using hw_written_step[OF cur tl, where l = l and n = n] s1 d2 by metis
    have kept: "hw_kept h h1" by (rule hw_kept_trans[OF hw_same_kept[OF same] h1(1)])
    note k = hw_kept_simps[OF kept]
    have cur1: "hw_cur h1 \<noteq> None" using k(5) Suc.prems(3) by simp
    have step: "write_sectors io 0x1F0 0x3F6 (Suc n) buf d = write_sectors io 0x1F0 0x3F6 n (drop 512 buf) ?d2"
      using w ok by (simp add: Let_def)
    have all: "(\<forall>i < Suc n. P i) \<longleftrightarrow> P 0 \<and> (\<forall>i < n. P (i + 1))" for P :: "nat \<Rightarrow> bool"
      by (auto simp: less_Suc_eq_0_disj)
    show ?thesis
    proof (cases "hw_on dk_passes h l")
      case False
      then have "view ?d2 = hw_start Failed h1" using h1(3) by simp
      note F = write_sectors_failed[OF M this h1(2) cur1, of n "drop 512 buf"]
      let ?h' = "view (snd (write_sectors io 0x1F0 0x3F6 n (drop 512 buf) ?d2))"
      have same': "hw_same h1 ?h'" using F by simp
      note f = hw_same_simps[OF same']
      have "\<not> hw_on dk_writable h l" using False by (auto simp: hw_on_def dk_passes_def split: option.splits)
      moreover have "fst (write_sectors io 0x1F0 0x3F6 n (drop 512 buf) ?d2) =
          (\<forall>i < Suc n. hw_on dk_accepts h (l + i) \<and> (i + 1 < Suc n \<longrightarrow> hw_on dk_passes h (l + i)))"
        using F False acc by (auto simp: all)
      moreover have "\<forall>i < Suc n. hw_on dk_writable h (l + i) \<longrightarrow> hw_sector ?h' (l + i) = take 512 (drop (512 * i) buf)"
        if "n = 0" using calculation(1) that by simp
      moreover have "hw_kept h ?h'" by (rule hw_kept_trans[OF kept hw_same_kept[OF same']])
      ultimately show ?thesis unfolding step using F f h1(2,5) by auto
    next
      case True
      then have d2': "view ?d2 = hw_out_next (l + 1) n h1" using h1(3) by simp
      have IH': "512 * n \<le> length (drop 512 buf)" using Suc.prems(4) by simp
      note IH = Suc.IH[OF d2' h1(2) cur1 IH', unfolded k]
      let ?r' = "write_sectors io 0x1F0 0x3F6 n (drop 512 buf) ?d2"
      let ?h' = "view (snd ?r')"
      have "fst ?r' = (\<forall>i < Suc n. hw_on dk_accepts h (l + i) \<and> (i + 1 < Suc n \<longrightarrow> hw_on dk_passes h (l + i)))"
        using IH acc True unfolding all by (simp add: add.assoc)
      moreover have "hw_sector ?h' j = hw_sector h j" if "j < l \<or> l + Suc n \<le> j" for j
        using IH h1(5)[of j] that by auto
      moreover have "hw_sector ?h' (l + i) = take 512 (drop (512 * i) buf)"
        if "fst ?r'" "i < Suc n" "hw_on dk_writable h (l + i)" for i
      proof (cases i)
        case 0
        then show ?thesis using that IH h1(4) by simp
      next
        case (Suc k)
        then show ?thesis using that IH by (simp add: add.commute)
      qed
      ultimately show ?thesis unfolding step using IH hw_kept_trans[OF kept] by blast
    qed
  qed
qed

section \<open>The commands\<close>

text \<open>A device the driver's probe can have stored, and the drive it selects.\<close>

definition dev_ok :: "ata_pio_device \<Rightarrow> bool" where
  "dev_ok dv \<longleftrightarrow> dv_io_base dv = 0x1F0 \<and> dv_ctrl_base dv = 0x3F6 \<and> dv_present dv \<noteq> 0"

definition disk_good :: "ata_hw \<Rightarrow> bool \<Rightarrow> nat \<Rightarrow> bool" where
  "disk_good h b l = (case hw_disk h b of None \<Rightarrow> False | Some dk \<Rightarrow> l < dk_cap dk \<and> \<not> dk_bad dk l)"

definition disk_sector :: "ata_hw \<Rightarrow> bool \<Rightarrow> nat \<Rightarrow> u8 list" where
  "disk_sector h b l = (case hw_disk h b of None \<Rightarrow> [] | Some dk \<Rightarrow> dk_sector dk l)"

lemma unat_and_0F: "unat (w AND 0x0F :: 'a::len word) = unat w mod 16"
proof -
  have "(0x0F :: 'a word) = mask 4" by (simp add: mask_eq_exp_minus_1)
  then have "unat (w AND 0x0F) = take_bit 4 (unat w)"
    by (simp only: flip: take_bit_eq_mask) (simp only: unsigned_take_bit_eq)
  then show ?thesis by (simp only: take_bit_eq_mod) simp
qed

lemma four_bytes: "x mod 256 + 256 * (x div 256 mod 256) + 65536 * (x div 65536 mod 256) +
    16777216 * (x div 16777216) = x" for x :: nat
proof -
  have "x div 65536 = x div 256 div 256" "x div 16777216 = x div 256 div 256 div 256"
    by (simp_all add: div_mult2_eq[symmetric])
  moreover have "a + 256 * b + 65536 * c + 16777216 * w = x"
    if "256 * y + a = x" "256 * z + b = y" "256 * w + c = z" for a b c y z w :: nat
    using that by simp
  ultimately show ?thesis
    using mult_div_mod_eq[of 256 x] mult_div_mod_eq[of 256 "x div 256"]
      mult_div_mod_eq[of 256 "x div 256 div 256"] by metis
qed

lemma unat_ucast_u8: "unat (ucast (w :: u32) :: u8) = unat w mod 256"
  by (simp add: unsigned_ucast_eq take_bit_eq_mod)

lemma ucast_and_FF: "(ucast (w AND 0xFF :: u32) :: u8) = ucast w"
proof -
  have c: "(0xFF :: u32) = mask 8" by (simp add: mask_eq_exp_minus_1)
  show ?thesis unfolding c by (rule bit_word_eqI) (auto simp: bit_simps)
qed

lemma sel_bits:
  fixes lba :: u32 and s :: bool
  defines "sel \<equiv> ucast (0xE0 OR (if s then 0x10 else 0) OR (drop_bit 24 lba AND 0x0F) :: u32) :: u8"
  shows "sel AND 0x0F = ucast (drop_bit 24 lba AND 0x0F)" "(sel AND 0x10 \<noteq> 0) = s"
proof -
  have c: "(0xE0 :: u32) = push_bit 5 7" "(0x0F :: u32) = mask 4" "(0x0F :: u8) = mask 4"
    "(if s then 0x10 else 0 :: u32) = push_bit 4 (of_bool s)"
    by (simp_all add: mask_eq_exp_minus_1 push_bit_eq_mult)
  have z: "n < 5 \<Longrightarrow> \<not> bit (push_bit 5 7 :: u32) n" for n
    by (simp only: bit_push_bit_iff) simp
  have sel: "bit sel n \<longleftrightarrow> n < 8 \<and> (bit (push_bit 5 7 :: u32) n \<or> n = 4 \<and> s \<or> n < 4 \<and> bit lba (24 + n))" for n
    unfolding sel_def c by (auto simp: bit_simps)
  show "sel AND 0x0F = ucast (drop_bit 24 lba AND 0x0F)"
    unfolding c by (rule bit_word_eqI) (use z in \<open>auto simp: sel bit_simps\<close>)
  show "(sel AND 0x10 \<noteq> 0) = s"
    using and_push_bit_1_eq_bit[of sel 4] sel[of 4] z[of 4] by (simp add: bit_simps)
qed

lemma and_top_nibble: "(lba :: u32) AND 0xF0000000 = 0 \<longleftrightarrow> unat lba < 2 ^ 28"
proof -
  have "(0xF0000000 :: u32) = push_bit 28 (mask 4)" by (simp add: mask_eq_exp_minus_1 push_bit_eq_mult)
  then have "lba AND 0xF0000000 = 0 \<longleftrightarrow> (\<forall>n. 28 \<le> n \<and> n < 32 \<longrightarrow> \<not> bit lba n)"
    by (auto simp: bit_eq_iff bit_simps)
  also have "\<dots> \<longleftrightarrow> take_bit 28 lba = lba"
    by (auto simp: bit_eq_iff bit_simps not_less dest: leI)
  also have "\<dots> \<longleftrightarrow> take_bit 28 (unat lba) = unat lba"
    by (simp only: word_unat_eq_iff unsigned_take_bit_eq)
  also have "\<dots> \<longleftrightarrow> unat lba < 2 ^ 28" by (rule take_bit_nat_eq_self_iff)
  finally show ?thesis .
qed
lemma setup28_view:
  assumes M: "ata_port_model io view" and "dev_ok dv" "lba AND 0xF0000000 = 0" "cnt \<noteq> 0"
  obtains h where "view (ata_setup28 io dv lba cnt cmd d) = hw_command cmd h"
    "hw_slave h = (dv_is_slave dv \<noteq> 0)" "hw_lba h = unat lba" "hw_count h = unat cnt"
    "hw_disk h = hw_disk (view d)" "hw_lat h = hw_lat (view d)"
proof -
  let ?sel = "ucast (0xE0 OR (if dv_is_slave dv \<noteq> 0 then 0x10 else 0) OR (drop_bit 24 lba AND 0x0F) :: u32) :: u8"
  define h where "h = (view d)\<lparr>hw_devsel := ?sel, hw_seccount := cnt, hw_lba0 := ucast (lba AND 0xFF),
    hw_lba1 := ucast (drop_bit 8 lba AND 0xFF), hw_lba2 := ucast (drop_bit 16 lba AND 0xFF)\<rparr>"
  have "view (ata_setup28 io dv lba cnt cmd d) = hw_command cmd h"
    using assms(2) unfolding h_def
    by (simp add: ata_setup28_def ata_select_drive_def dev_ok_def Let_def port_simps[OF M] delay_view[OF M]
        hw_outb_def)
  moreover have "hw_lba h = unat lba"
  proof -
    have b: "unat lba < 2 ^ 28" using assms(3) by (simp only: and_top_nibble)
    then have "unat lba div 16777216 < 16" by (simp add: div_less_iff_less_mult)
    then have top: "unat (?sel AND 0x0F) = unat lba div 16777216"
      unfolding sel_bits(1) by (simp add: unat_ucast_u8 unat_and_0F drop_bit_eq_div unat_div)
    have "unat (ucast (drop_bit 8 lba AND 0xFF) :: u8) = unat lba div 256 mod 256"
      "unat (ucast (drop_bit 16 lba AND 0xFF) :: u8) = unat lba div 65536 mod 256"
      "unat (ucast (lba AND 0xFF) :: u8) = unat lba mod 256"
      unfolding ucast_and_FF unat_ucast_u8 by (simp_all add: drop_bit_eq_div unat_div)
    then show ?thesis using four_bytes[of "unat lba"] top unfolding hw_lba_def h_def by simp
  qed
  moreover have "hw_slave h = (dv_is_slave dv \<noteq> 0)"
    unfolding hw_slave_def h_def using sel_bits(2)[of "dv_is_slave dv \<noteq> 0" lba] by simp
  ultimately show thesis using that[of h] assms(4) by (simp add: h_def hw_count_def)
qed

definition disk_on :: "(ata_disk \<Rightarrow> nat \<Rightarrow> bool) \<Rightarrow> ata_hw \<Rightarrow> bool \<Rightarrow> nat \<Rightarrow> bool" where
  "disk_on P h b l = (case hw_disk h b of None \<Rightarrow> False | Some dk \<Rightarrow> P dk l)"

lemma disk_cur: "hw_good h l = disk_good h (hw_slave h) l" "hw_sector h l = disk_sector h (hw_slave h) l"
  "hw_on P h l = disk_on P h (hw_slave h) l"
  by (simp_all add: hw_good_def disk_good_def hw_sector_def disk_sector_def hw_cur_def hw_on_def disk_on_def)

text \<open>What the driver can serve: the 28-bit block addresses that are good on its drive.\<close>

definition served :: "ata_pio_device \<Rightarrow> ata_hw \<Rightarrow> u32 \<Rightarrow> u8 \<Rightarrow> bool" where
  "served dv h lba cnt \<longleftrightarrow> cnt \<noteq> 0 \<and> unat lba < 2 ^ 28 \<and>
     (\<forall>i < unat cnt. disk_good h (dv_is_slave dv \<noteq> 0) (unat lba + i))"

text \<open>
  When the driver reports a write as done: the drive asks for the data of every sector, and goes
  on behind every sector but the last, whose outcome the driver does not look at.
\<close>

definition write_reported :: "ata_pio_device \<Rightarrow> ata_hw \<Rightarrow> u32 \<Rightarrow> u8 \<Rightarrow> bool" where
  "write_reported dv h lba cnt \<longleftrightarrow> cnt \<noteq> 0 \<and> unat lba < 2 ^ 28 \<and>
     (\<forall>i < unat cnt. disk_on dk_accepts h (dv_is_slave dv \<noteq> 0) (unat lba + i) \<and>
        (i + 1 < unat cnt \<longrightarrow> disk_on dk_passes h (dv_is_slave dv \<noteq> 0) (unat lba + i)))"

lemma read28_view:
  assumes M: "ata_port_model io view" and dv: "dev_ok dv" and ok: "hw_ok (view d)"
    and present: "hw_disk (view d) (dv_is_slave dv \<noteq> 0) \<noteq> None"
    and r: "ata_pio_read28 io (Some dv) lba cnt d = ((r, bs), d')"
  shows "hw_disk (view d') = hw_disk (view d)" "hw_ok (view d')" "r = served dv (view d) lba cnt"
    "r \<Longrightarrow> bs = concat (map (disk_sector (view d) (dv_is_slave dv \<noteq> 0)) [unat lba..<unat lba + unat cnt])"
proof -
  have "hw_disk (view d') = hw_disk (view d) \<and> hw_ok (view d') \<and> r = served dv (view d) lba cnt \<and>
    (r \<longrightarrow> bs = concat (map (disk_sector (view d) (dv_is_slave dv \<noteq> 0)) [unat lba..<unat lba + unat cnt]))"
  proof (cases "cnt \<noteq> 0 \<and> lba AND 0xF0000000 = 0")
    case False
    then have "d' = d" "\<not> r" using r dv by (auto simp: ata_pio_read28_def split: if_splits)
    then show ?thesis using ok False and_top_nibble[of lba] by (auto simp: served_def)
  next
    case True
    obtain h where h: "view (ata_setup28 io dv lba cnt 0x20 d) = hw_command 0x20 h"
      "hw_slave h = (dv_is_slave dv \<noteq> 0)" "hw_lba h = unat lba" "hw_count h = unat cnt"
      "hw_disk h = hw_disk (view d)" "hw_lat h = hw_lat (view d)"
      using setup28_view[OF M dv] True by blast
    have cur: "hw_cur h \<noteq> None" using present h by (simp add: hw_cur_def)
    have hok: "hw_ok h" using ok h by (simp add: hw_ok_def)
    have v: "view (ata_setup28 io dv lba cnt 0x20 d) = hw_in_next (unat lba) (unat cnt) h"
      using cur h by (auto simp: hw_command_def)
    have dvs: "dv_io_base dv = 0x1F0" "dv_ctrl_base dv = 0x3F6" "dv_present dv \<noteq> 0"
      using dv by (simp_all add: dev_ok_def)
    have rs: "read_sectors io 0x1F0 0x3F6 (unat cnt) (ata_setup28 io dv lba cnt 0x20 d) = ((r, bs), d')"
      using r True dvs by (simp add: ata_pio_read28_def)
    have good: "hw_good h l = disk_good (view d) (dv_is_slave dv \<noteq> 0) l" for l
      using h by (simp add: disk_cur disk_good_def)
    have sec: "hw_sector h = disk_sector (view d) (dv_is_slave dv \<noteq> 0)"
      using h by (simp add: fun_eq_iff disk_cur disk_sector_def)
    have "hw_same h (view d')" "r = (\<forall>i < unat cnt. hw_good h (unat lba + i))"
      "r \<longrightarrow> bs = concat (map (hw_sector h) [unat lba..<unat lba + unat cnt])"
      using read_sectors_view[OF M v hok cur] rs by simp_all
    then show ?thesis
      using h hok hw_same_simps(4)[of h "view d'"] True and_top_nibble[of lba]
      by (simp add: served_def good sec hw_same_def)
  qed
  then show "hw_disk (view d') = hw_disk (view d)" "hw_ok (view d')" "r = served dv (view d) lba cnt"
    "r \<Longrightarrow> bs = concat (map (disk_sector (view d) (dv_is_slave dv \<noteq> 0)) [unat lba..<unat lba + unat cnt])"
    by auto
qed

lemma flush_view:
  assumes M: "ata_port_model io view" and "hw_cur (view d) \<noteq> None" "hw_ok (view d)"
  shows "hw_same (view d) (view (snd (ata_wait_not_bsy io 0x1F0 0x3F6 1000000 (io_outb io 0x1F7 0xE7 d))))"
proof -
  obtain dk where dk: "hw_cur (view d) = Some dk" using assms(2) by auto
  let ?ph = "if hw_wfail (view d) then Failed else Idle"
  let ?h = "(view d)\<lparr>hw_wfail := False\<rparr>"
  have v: "view (io_outb io 0x1F7 0xE7 d) = hw_start ?ph ?h"
    using port_simps(5)[OF M in_ata_ports(8)] dk by (simp add: hw_outb_def hw_command_def)
  have same: "hw_same (view d) ?h" by simp
  note s = hw_same_simps[OF same]
  have "view (snd (ata_wait_not_bsy io 0x1F0 0x3F6 1000000 (io_outb io 0x1F7 0xE7 d))) = (hw_start ?ph ?h)\<lparr>hw_busy := 0\<rparr>"
    using wait_not_bsy_view[OF M, where d = "io_outb io 0x1F7 0xE7 d" and n = 1000000] dk s assms(3)
      hw_ok_simps(1)[of ?h] by (simp add: v)
  then show ?thesis by simp
qed

lemma write28_view:
  assumes M: "ata_port_model io view" and dv: "dev_ok dv" and ok: "hw_ok (view d)"
    and present: "hw_disk (view d) (dv_is_slave dv \<noteq> 0) \<noteq> None" and len: "512 * unat cnt \<le> length buf"
    and r: "ata_pio_write28 io (Some dv) lba cnt buf d = (r, d')"
  defines "b \<equiv> dv_is_slave dv \<noteq> 0"
  shows "hw_ok (view d')" "r = write_reported dv (view d) lba cnt"
    "rel_option dk_like (hw_disk (view d) b) (hw_disk (view d') b)" "hw_disk (view d') (\<not> b) = hw_disk (view d) (\<not> b)"
    "hw_disk (view d') b \<noteq> None"
    "j < unat lba \<or> unat lba + unat cnt \<le> j \<Longrightarrow> disk_sector (view d') b j = disk_sector (view d) b j"
    "r \<Longrightarrow> i < unat cnt \<Longrightarrow> disk_on dk_writable (view d) b (unat lba + i) \<Longrightarrow>
      disk_sector (view d') b (unat lba + i) = take 512 (drop (512 * i) buf)"
proof -
  have main: "hw_ok (view d') \<and> r = write_reported dv (view d) lba cnt \<and>
    rel_option dk_like (hw_disk (view d) b) (hw_disk (view d') b) \<and>
    hw_disk (view d') (\<not> b) = hw_disk (view d) (\<not> b) \<and> hw_disk (view d') b \<noteq> None \<and>
    (\<forall>j. j < unat lba \<or> unat lba + unat cnt \<le> j \<longrightarrow> disk_sector (view d') b j = disk_sector (view d) b j) \<and>
    (r \<longrightarrow> (\<forall>i < unat cnt. disk_on dk_writable (view d) b (unat lba + i) \<longrightarrow>
      disk_sector (view d') b (unat lba + i) = take 512 (drop (512 * i) buf)))"
  proof (cases "cnt \<noteq> 0 \<and> lba AND 0xF0000000 = 0")
    case False
    then have "d' = d" "\<not> r" using r dv by (auto simp: ata_pio_write28_def split: if_splits)
    then show ?thesis using ok False and_top_nibble[of lba] present
      by (auto simp: write_reported_def b_def intro!: option.rel_refl)
  next
    case True
    let ?d1 = "ata_setup28 io dv lba cnt 0x30 d"
    obtain h where h: "view ?d1 = hw_command 0x30 h" "hw_slave h = b" "hw_lba h = unat lba"
      "hw_count h = unat cnt" "hw_disk h = hw_disk (view d)" "hw_lat h = hw_lat (view d)"
      using setup28_view[OF M dv] True b_def by blast
    have cur: "hw_cur h \<noteq> None" using present h by (simp add: hw_cur_def b_def)
    have hok: "hw_ok h" using ok h by (simp add: hw_ok_def)
    have v: "view ?d1 = hw_out_next (unat lba) (unat cnt) h" using cur h by (auto simp: hw_command_def)
    have dvs: "dv_io_base dv = 0x1F0" "dv_ctrl_base dv = 0x3F6" "dv_present dv \<noteq> 0"
      using dv by (simp_all add: dev_ok_def)
    obtain r1 d2 where ws: "write_sectors io 0x1F0 0x3F6 (unat cnt) buf ?d1 = (r1, d2)" by fastforce
    have r1: "r1 = r" "if r then d' = snd (ata_wait_not_bsy io 0x1F0 0x3F6 1000000 (io_outb io 0x1F7 0xE7 d2))
        else d' = d2"
      using r ws True dvs by (auto simp: ata_pio_write28_def Let_def split_beta split: if_splits)
    note W = write_sectors_view[OF M v hok cur len, unfolded ws fst_conv snd_conv r1(1)]
    have k2: "hw_kept h (view d2)" "hw_ok (view d2)" using W by auto
    have "hw_cur (view d2) \<noteq> None" using cur hw_kept_simps(5)[OF k2(1)] by simp
    then have same: "hw_same (view d2) (view d')"
      using flush_view[OF M _ k2(2)] r1(2) by (auto simp: hw_same_def split: if_splits)
    note s = hw_same_simps[OF same]
    have kept: "hw_kept h (view d')" by (rule hw_kept_trans[OF k2(1) hw_same_kept[OF same]])
    have slave: "hw_slave (view d') = b" using kept h by (simp add: hw_kept_def)
    have at: "hw_on P h = disk_on P (view d) b" "hw_sector h = disk_sector (view d) b"
      "hw_sector (view d2) = disk_sector (view d') b" for P
      using h slave s(3) by (simp_all add: fun_eq_iff disk_cur) (simp_all add: disk_on_def disk_sector_def)
    have cur': "hw_disk (view d') b \<noteq> None" "hw_disk (view d') (\<not> b) = hw_disk (view d) (\<not> b)"
      "rel_option dk_like (hw_disk (view d) b) (hw_disk (view d') b)"
      using kept cur slave h hw_kept_simps(5)[OF kept] by (simp_all add: hw_kept_def hw_cur_def)
    have "r = write_reported dv (view d) lba cnt"
      using W True and_top_nibble[of lba] by (simp add: write_reported_def at b_def)
    then show ?thesis using cur' W s(4) by (simp add: at)
  qed
  then show "hw_ok (view d')" "r = write_reported dv (view d) lba cnt"
    "rel_option dk_like (hw_disk (view d) b) (hw_disk (view d') b)" "hw_disk (view d') (\<not> b) = hw_disk (view d) (\<not> b)"
    "hw_disk (view d') b \<noteq> None"
    "j < unat lba \<or> unat lba + unat cnt \<le> j \<Longrightarrow> disk_sector (view d') b j = disk_sector (view d) b j"
    "r \<Longrightarrow> i < unat cnt \<Longrightarrow> disk_on dk_writable (view d) b (unat lba + i) \<Longrightarrow>
      disk_sector (view d') b (unat lba + i) = take 512 (drop (512 * i) buf)" by blast+
qed

section \<open>The probe\<close>

lemma identify_view:
  assumes M: "ata_port_model io view" and ok: "hw_ok (view d)"
    and r: "ata_identify io 0x1F0 0x3F6 (if b then 1 else 0) d = (r, d')"
  shows "(r \<noteq> None) = (hw_disk (view d) b \<noteq> None) \<and> hw_disk (view d') = hw_disk (view d) \<and> hw_ok (view d')"
proof -
  define d1 where "d1 = io_delay_400ns io 0x3F6 (io_outb io 0x1F7 0xEC (io_outb io 0x1F5 0 (io_outb io 0x1F4 0
    (io_outb io 0x1F3 0 (io_outb io 0x1F2 0 (ata_select_drive io 0x1F0 0x3F6 (if b then 1 else 0) d))))))"
  define h where "h = (view d)\<lparr>hw_devsel := (if b then 0xF0 else 0xE0), hw_seccount := 0, hw_lba0 := 0,
    hw_lba1 := 0, hw_lba2 := 0\<rparr>"
  have v1: "view d1 = hw_command 0xEC h" unfolding d1_def h_def
    by (simp add: ata_select_drive_def Let_def port_simps[OF M] delay_view[OF M] hw_outb_def)
  have hs: "hw_slave h = b" "hw_disk h = hw_disk (view d)" "hw_lat h = hw_lat (view d)"
    by (simp_all add: h_def hw_slave_def)
  have hok: "hw_ok h" using ok hs by (simp add: hw_ok_def)
  obtain s d2 where s: "io_inb io 0x1F7 d1 = (s, d2)" by fastforce
  then have s': "s = hw_status (view d1)" "view d2 = (view d1)\<lparr>hw_busy := hw_busy (view d1) - 1\<rparr>"
    using port_simps(1,2)[OF M in_ata_ports(8), of d1] by (simp_all add: hw_inb_def)
  have st: "ata_identify io 0x1F0 0x3F6 (if b then 1 else 0) d =
      (if s = 0 \<or> s = 0xFF then (None, d2)
       else let (ok, d) = ata_wait_not_bsy io 0x1F0 0x3F6 1000000 d2 in
      if \<not> ok then (None, d)
      else let (lba1, d) = io_inb io 0x1F4 d; (lba2, d) = io_inb io 0x1F5 d in
      if lba1 \<noteq> 0 \<or> lba2 \<noteq> 0 then (None, d)
      else let (ok, d) = ata_wait_drq io 0x1F0 0x3F6 1000000 d in
      if \<not> ok then (None, d)
      else let (ws, d) = read_words io 0x1F0 256 d in (Some ws, d))"
    using s unfolding ata_identify_def d1_def Let_def by (simp add: split_beta)
  show ?thesis
  proof (cases "hw_disk (view d) b")
    case None
    then have "view d1 = h" "s = 0"
      using v1 s' hs by (simp_all add: hw_command_def hw_cur_def hw_status_def)
    then show ?thesis using r st None s' hs hok by (auto simp: hw_ok_def)
  next
    case (Some dk)
    then have cur: "hw_cur h = Some dk" using hs by (simp add: hw_cur_def)
    then have v1': "view d1 = hw_start (DataIn (dk_ident dk) 0 0) h"
      using v1 by (simp add: hw_command_def h_def hw_start_def)
    obtain ok3 d3 where w3: "ata_wait_not_bsy io 0x1F0 0x3F6 1000000 d2 = (ok3, d3)" by fastforce
    have b2: "hw_busy (view d2) < 1000000" "hw_cur (view d2) \<noteq> None"
      using s' v1' hok cur hw_ok_simps(1)[OF hok, of "hw_ops h"] by auto
    have v3: "view d3 = (view d1)\<lparr>hw_busy := 0\<rparr>" "ok3"
      using wait_not_bsy_view[OF M b2(2,1), where c = "0x3F6"] w3 s' by simp_all
    obtain l1 d4 where l1: "io_inb io 0x1F4 d3 = (l1, d4)" by fastforce
    obtain l2 d5 where l2: "io_inb io 0x1F5 d4 = (l2, d5)" by fastforce
    have v5: "l1 = 0" "l2 = 0" "view d5 = view d3"
      using port_simps(1,2)[OF M in_ata_ports(5), of d3] port_simps(1,2)[OF M in_ata_ports(6), of d4] l1 l2 v3 v1'
      by (simp_all add: hw_inb_def hw_start_def h_def)
    obtain ok6 d6 where w6: "ata_wait_drq io 0x1F0 0x3F6 1000000 d5 = (ok6, d6)" by fastforce
    have v6: "view d6 = view d3" "ok6"
      using wait_drq_view[OF M, where d = d5 and n = 1000000 and c = "0x3F6"] w6 v5 v3 v1' cur by simp_all
    obtain ws d7 where r7: "read_words io 0x1F0 256 d6 = (ws, d7)" by fastforce
    have len: "length (dk_ident dk) = 256" using hok Some hs by (auto simp: hw_ok_def)
    then have "dk_ident dk \<noteq> []" by auto
    then have v7: "view d7 = hw_in_next 0 0 (view d6)"
      using read_words_view[OF M, where d = d6 and ws = "dk_ident dk" and l = 0 and k = 0] r7 v6 v3 v1' len by simp
    have "s \<noteq> 0 \<and> s \<noteq> 0xFF" using s' v1' cur by (auto simp: hw_status_def)
    then have "r = Some ws" "d' = d7" using r st w3 v3 l1 l2 v5 w6 v6 r7 by simp_all
    moreover have "hw_same h (view d7)" using v7 v6 v3 v1'
      by (simp add: hw_in_next_def hw_same_def hw_start_def hw_slave_def)
    ultimately show ?thesis using Some hok hs hw_same_simps(4)[of h "view d7"] by (simp add: hw_same_def)
  qed
qed

text \<open>The probe takes the slave disk when there is one, else the master, else it fails.\<close>

definition probe_drive :: "ata_hw \<Rightarrow> bool" where
  "probe_drive h = (hw_disk h True \<noteq> None)"

lemma init_view:
  assumes M: "ata_port_model io view" and ok: "hw_ok (view d)"
    and r: "ata_pio_init io st d = (r, st', d')"
  shows "hw_disk (view d') = hw_disk (view d)" "hw_ok (view d')"
    "r = (hw_disk (view d) (probe_drive (view d)) \<noteq> None)"
    "r \<Longrightarrow> dev_ok st' \<and> (dv_is_slave st' \<noteq> 0) = probe_drive (view d)"
    "\<not> r \<Longrightarrow> dv_present st' = 0"
proof -
  obtain r1 d1 where i1: "ata_identify io 0x1F0 0x3F6 1 d = (r1, d1)" by fastforce
  obtain r2 d2 where i2: "ata_identify io 0x1F0 0x3F6 0 d1 = (r2, d2)" by fastforce
  note v1 = identify_view[OF M ok, of True, simplified, OF i1]
  then have "hw_ok (view d1)" by simp
  note v2 = identify_view[OF M this, of False, simplified, OF i2]
  show "hw_disk (view d') = hw_disk (view d)" "hw_ok (view d')"
    "r = (hw_disk (view d) (probe_drive (view d)) \<noteq> None)"
    "r \<Longrightarrow> dev_ok st' \<and> (dv_is_slave st' \<noteq> 0) = probe_drive (view d)"
    "\<not> r \<Longrightarrow> dv_present st' = 0"
    using r v1 v2 i1 i2
    by (auto simp: ata_pio_init_def Let_def probe_drive_def dev_ok_def split: if_splits)
qed

section \<open>The driver as a block device\<close>

text \<open>
  The driver as its clients call it, on a machine that holds the ports, the static \<open>g_storage\<close>
  and the hardware state. The reading \<open>mc_view\<close> of the hardware is a ghost: no operation uses it.
\<close>

record 'd machine =
  mc_io :: "'d port_io"
  mc_view :: "'d \<Rightarrow> ata_hw"
  mc_storage :: ata_pio_device
  mc_dev :: 'd

definition mc_init :: "'d machine \<Rightarrow> bool \<times> 'd machine" where
  "mc_init m = (let (r, st, d) = ata_pio_init (mc_io m) (mc_storage m) (mc_dev m)
                in (r, m\<lparr>mc_storage := st, mc_dev := d\<rparr>))"

definition mc_device :: "'d machine \<Rightarrow> ata_pio_device option" where
  "mc_device m = ata_pio_get_storage_device (mc_storage m)"

definition mc_read28 ::
  "ata_pio_device option \<Rightarrow> u32 \<Rightarrow> u8 \<Rightarrow> 'd machine \<Rightarrow> (bool \<times> u8 list) \<times> 'd machine" where
  "mc_read28 dv lba n m = (let (r, d) = ata_pio_read28 (mc_io m) dv lba n (mc_dev m) in (r, m\<lparr>mc_dev := d\<rparr>))"

definition mc_write28 ::
  "ata_pio_device option \<Rightarrow> u32 \<Rightarrow> u8 \<Rightarrow> u8 list \<Rightarrow> 'd machine \<Rightarrow> bool \<times> 'd machine" where
  "mc_write28 dv lba n buf m =
     (let (r, d) = ata_pio_write28 (mc_io m) dv lba n buf (mc_dev m) in (r, m\<lparr>mc_dev := d\<rparr>))"

definition mc_hw :: "'d machine \<Rightarrow> ata_hw" where
  "mc_hw m = mc_view m (mc_dev m)"

definition mc_inv :: "'d machine \<Rightarrow> bool" where
  "mc_inv m \<longleftrightarrow> ata_port_model (mc_io m) (mc_view m) \<and> hw_ok (mc_hw m)"

text \<open>A handle for the disk the probe finds.\<close>

definition mc_handle :: "'d machine \<Rightarrow> ata_pio_device option \<Rightarrow> bool" where
  "mc_handle m dv \<longleftrightarrow> (\<exists>v. dv = Some v \<and> dev_ok v \<and> (dv_is_slave v \<noteq> 0) = probe_drive (mc_hw m) \<and>
     hw_disk (mc_hw m) (probe_drive (mc_hw m)) \<noteq> None)"

definition mc_block :: "'d machine \<Rightarrow> nat \<Rightarrow> u8 list" where
  "mc_block m = disk_sector (mc_hw m) (probe_drive (mc_hw m))"

definition mc_good :: "'d machine \<Rightarrow> nat \<Rightarrow> bool" where
  "mc_good m l \<longleftrightarrow> l < 2 ^ 28 \<and> disk_good (mc_hw m) (probe_drive (mc_hw m)) l"

definition mc_takes :: "'d machine \<Rightarrow> nat \<Rightarrow> bool" where
  "mc_takes m l \<longleftrightarrow> l < 2 ^ 28 \<and> disk_on dk_accepts (mc_hw m) (probe_drive (mc_hw m)) l"

definition mc_stores :: "'d machine \<Rightarrow> nat \<Rightarrow> bool" where
  "mc_stores m l \<longleftrightarrow> l < 2 ^ 28 \<and> disk_on dk_writable (mc_hw m) (probe_drive (mc_hw m)) l"

definition mc_medium :: "'d machine \<Rightarrow> medium" where
  "mc_medium m = \<lparr>md_reads = mc_good m, md_takes = mc_takes m, md_stores = mc_stores m\<rparr>"

lemma mc_medium_simps [simp]:
  "md_reads (mc_medium m) = mc_good m" "md_takes (mc_medium m) = mc_takes m" "md_stores (mc_medium m) = mc_stores m"
  by (simp_all add: mc_medium_def)

definition ata_driver :: "(ata_pio_device, 'd machine) blk_driver" where
  "ata_driver = \<lparr>bd_init = mc_init, bd_device = mc_device, bd_read28 = mc_read28, bd_write28 = mc_write28\<rparr>"

lemma ata_driver_simps [simp]:
  "bd_init ata_driver = mc_init" "bd_device ata_driver = mc_device"
  "bd_read28 ata_driver = mc_read28" "bd_write28 ata_driver = mc_write28"
  by (simp_all add: ata_driver_def)

lemma range28: "n \<noteq> 0 \<Longrightarrow> unat lba + unat n \<le> 2 ^ 28 \<Longrightarrow> unat lba < 2 ^ 28"
  for lba :: u32 and n :: u8
  using unat_gt_0[of n] by linarith

lemma mc_read_facts:
  assumes "mc_inv m" "mc_handle m v" "mc_read28 v lba n m = ((r, bs), m')"
  shows "mc_inv m'" "mc_handle m' v" "mc_block m' = mc_block m" "mc_medium m' = mc_medium m"
    "r \<Longrightarrow> unat lba < 2 ^ 28" "unat lba + unat n \<le> 2 ^ 28 \<Longrightarrow> r = (n \<noteq> 0 \<and> (\<forall>i < unat n. mc_good m (unat lba + i)))"
    "r \<Longrightarrow> bs = concat (map (mc_block m) [unat lba..<unat lba + unat n])"
proof -
  obtain dv where dv: "v = Some dv" "dev_ok dv" "(dv_is_slave dv \<noteq> 0) = probe_drive (mc_hw m)"
    "hw_disk (mc_hw m) (probe_drive (mc_hw m)) \<noteq> None" using assms(2) by (auto simp: mc_handle_def)
  obtain d' where r: "ata_pio_read28 (mc_io m) (Some dv) lba n (mc_dev m) = ((r, bs), d')" "m' = m\<lparr>mc_dev := d'\<rparr>"
    using assms(3) dv(1) by (auto simp: mc_read28_def split: prod.splits)
  have M: "ata_port_model (mc_io m) (mc_view m)" "hw_ok (mc_view m (mc_dev m))"
    using assms(1) by (simp_all add: mc_inv_def mc_hw_def)
  note R = read28_view[OF M(1) dv(2) M(2) _ r(1)]
  have R': "hw_disk (mc_hw m') = hw_disk (mc_hw m)" "hw_ok (mc_hw m')" "r = served dv (mc_hw m) lba n"
    "r \<Longrightarrow> bs = concat (map (disk_sector (mc_hw m) (probe_drive (mc_hw m))) [unat lba..<unat lba + unat n])"
    using R dv(3,4) by (simp_all add: mc_hw_def r(2))
  have p: "probe_drive (mc_hw m') = probe_drive (mc_hw m)" using R'(1) by (simp add: probe_drive_def)
  show "mc_inv m'" using M R'(2) r(2) by (simp add: mc_inv_def)
  show "mc_handle m' v" using dv p R'(1) by (simp add: mc_handle_def)
  show "mc_block m' = mc_block m" using p R'(1) by (simp add: mc_block_def fun_eq_iff disk_sector_def)
  show "mc_medium m' = mc_medium m" using p R'(1)
    by (simp add: mc_medium_def mc_good_def mc_takes_def mc_stores_def fun_eq_iff disk_good_def disk_on_def)
  show "r \<Longrightarrow> unat lba < 2 ^ 28" using R'(3) by (simp add: served_def)
  show "unat lba + unat n \<le> 2 ^ 28 \<Longrightarrow> r = (n \<noteq> 0 \<and> (\<forall>i < unat n. mc_good m (unat lba + i)))"
    using R'(3) dv(3) range28[of n lba] by (cases "n = 0") (auto simp: served_def mc_good_def)
  show "r \<Longrightarrow> bs = concat (map (mc_block m) [unat lba..<unat lba + unat n])"
    using R'(4) by (simp add: mc_block_def)
qed

lemma mc_write_facts:
  assumes "mc_inv m" "mc_handle m v" "512 * unat n \<le> length buf" "mc_write28 v lba n buf m = (r, m')"
  shows "mc_inv m'" "mc_handle m' v" "mc_medium m' = mc_medium m"
    "n = 1 \<Longrightarrow> r = mc_takes m (unat lba)"
    "r \<Longrightarrow> i < unat n \<Longrightarrow> mc_stores m (unat lba + i) \<Longrightarrow> mc_block m' (unat lba + i) = take 512 (drop (512 * i) buf)"
    "j < unat lba \<or> unat lba + unat n \<le> j \<Longrightarrow> mc_block m' j = mc_block m j"
proof -
  obtain dv where dv: "v = Some dv" "dev_ok dv" "(dv_is_slave dv \<noteq> 0) = probe_drive (mc_hw m)"
    "hw_disk (mc_hw m) (probe_drive (mc_hw m)) \<noteq> None" using assms(2) by (auto simp: mc_handle_def)
  obtain d' where r: "ata_pio_write28 (mc_io m) (Some dv) lba n buf (mc_dev m) = (r, d')" "m' = m\<lparr>mc_dev := d'\<rparr>"
    using assms(4) dv(1) by (auto simp: mc_write28_def split: prod.splits)
  have M: "ata_port_model (mc_io m) (mc_view m)" "hw_ok (mc_view m (mc_dev m))"
    using assms(1) by (simp_all add: mc_inv_def mc_hw_def)
  have pr: "hw_disk (mc_view m (mc_dev m)) (dv_is_slave dv \<noteq> 0) \<noteq> None" using dv by (simp add: mc_hw_def)
  let ?b = "probe_drive (mc_hw m)"
  note W = write28_view[OF M(1) dv(2) M(2) pr assms(3) r(1), unfolded dv(3)]
  have h: "mc_view m (mc_dev m) = mc_hw m" "mc_view m d' = mc_hw m'" by (simp_all add: mc_hw_def r(2))
  note W' = W[unfolded h]
  have p: "probe_drive (mc_hw m') = ?b"
    using W'(4,5) dv(4) by (cases ?b) (simp_all add: probe_drive_def)
  show "mc_inv m'" using M W'(1) r(2) by (simp add: mc_inv_def)
  show "mc_handle m' v" using dv p W'(5) by (simp add: mc_handle_def)
  have "disk_good (mc_hw m') ?b = disk_good (mc_hw m) ?b" "disk_on dk_accepts (mc_hw m') ?b = disk_on dk_accepts (mc_hw m) ?b"
    "disk_on dk_writable (mc_hw m') ?b = disk_on dk_writable (mc_hw m) ?b"
    using W'(3) dk_like_simps by (auto simp: fun_eq_iff disk_good_def disk_on_def option_rel_Some1 split: option.splits)
  then show "mc_medium m' = mc_medium m"
    by (simp add: mc_medium_def fun_eq_iff mc_good_def mc_takes_def mc_stores_def p)
  show "n = 1 \<Longrightarrow> r = mc_takes m (unat lba)"
    using W'(2) dv(3) by (simp add: write_reported_def mc_takes_def)
  show "r \<Longrightarrow> i < unat n \<Longrightarrow> mc_stores m (unat lba + i) \<Longrightarrow> mc_block m' (unat lba + i) = take 512 (drop (512 * i) buf)"
    using W'(7) p by (simp add: mc_block_def mc_stores_def)
  show "j < unat lba \<or> unat lba + unat n \<le> j \<Longrightarrow> mc_block m' j = mc_block m j"
    using W'(6) p by (simp add: mc_block_def)
qed

lemma mc_init_facts:
  assumes "mc_inv m" "mc_init m = (r, m')"
  shows "mc_inv m'" "mc_block m' = mc_block m" "mc_medium m' = mc_medium m"
    "if r then mc_handle m' (mc_device m') else mc_device m' = None"
    "r = (hw_disk (mc_hw m) (probe_drive (mc_hw m)) \<noteq> None)"
proof -
  obtain st d' where r: "ata_pio_init (mc_io m) (mc_storage m) (mc_dev m) = (r, st, d')"
    "m' = m\<lparr>mc_storage := st, mc_dev := d'\<rparr>"
    using assms(2) by (auto simp: mc_init_def split: prod.splits)
  have M: "ata_port_model (mc_io m) (mc_view m)" "hw_ok (mc_view m (mc_dev m))"
    using assms(1) by (simp_all add: mc_inv_def mc_hw_def)
  have h: "mc_view m (mc_dev m) = mc_hw m" "mc_view m d' = mc_hw m'" by (simp_all add: mc_hw_def r(2))
  note I = init_view[OF M r(1), unfolded h]
  have p: "probe_drive (mc_hw m') = probe_drive (mc_hw m)" using I(1) by (simp add: probe_drive_def)
  show "mc_inv m'" using M I(2) r(2) by (simp add: mc_inv_def)
  show "mc_block m' = mc_block m" using p I(1) by (simp add: mc_block_def fun_eq_iff disk_sector_def)
  show "mc_medium m' = mc_medium m" using p I(1)
    by (simp add: mc_medium_def mc_good_def mc_takes_def mc_stores_def fun_eq_iff disk_good_def disk_on_def)
  show "r = (hw_disk (mc_hw m) (probe_drive (mc_hw m)) \<noteq> None)" by (rule I(3))
  show "if r then mc_handle m' (mc_device m') else mc_device m' = None"
    using I p r(2) by (auto simp: mc_device_def ata_pio_get_storage_device_def mc_handle_def dev_ok_def)
qed

interpretation ata: block_device ata_driver mc_inv mc_handle mc_block mc_medium
proof (unfold_locales, unfold ata_driver_simps mc_medium_simps, goal_cases)
  case (1 s r s') then show ?case using mc_init_facts(1-3)[OF 1] by simp
next
  case (2 s r s') then show ?case using mc_init_facts(4)[OF 2] by simp
next
  case (3 s l)
  then have "hw_disk (mc_hw s) (probe_drive (mc_hw s)) \<noteq> None" by (auto simp: mc_good_def disk_good_def split: option.splits)
  then show ?case using mc_init_facts(5)[OF 3(1), of "fst (mc_init s)" "snd (mc_init s)"] by simp
next
  case (4 s v lba n r bs s') then show ?case using mc_read_facts(1-4)[OF 4] by simp
next
  case (5 s v lba n r bs s') then show ?case using mc_read_facts(6)[OF 5(1-3)] 5(4) by simp
next
  case (6 s v lba n bs s') then show ?case using mc_read_facts(7)[OF 6] by simp
next
  case (7 s v lba n bs s') then show ?case using mc_read_facts(5)[OF 7] by simp
next
  case (8 s v n buf lba r s') then show ?case using mc_write_facts(1-3)[OF 8] by simp
next
  case (9 s v buf lba r s') then show ?case using mc_write_facts(4)[OF 9(1,2) _ 9(4)] by simp
next
  case (10 s v n buf lba s' i) then show ?case using mc_write_facts(5)[OF 10(1-4)] by simp
next
  case (11 s v n buf lba r s' j) then show ?case using mc_write_facts(6)[OF 11(1-4)] by simp
next
  case (12 s l) then show ?case by (simp add: mc_good_def)
next
  case (13 s l) then show ?case by (simp add: mc_takes_def)
next
  case (14 s l) then show ?case by (auto simp: mc_takes_def mc_stores_def disk_on_def dk_accepts_def split: option.splits)
next
  case (15 s v) then show ?case by (auto simp: mc_handle_def)
next
  case (16 s v l)
  then show ?case by (auto simp: mc_handle_def mc_inv_def mc_block_def disk_sector_def hw_ok_def split: option.splits)
qed

section \<open>A concrete disk\<close>

text \<open>
  The reference device itself as the hardware behind the ports, with a small master disk that
  takes the data of a sector behind its end and reports the error afterwards, leaving the medium
  as it was.
\<close>

definition ref_io :: "ata_hw port_io" where
  "ref_io = \<lparr>io_inb = hw_inb, io_outb = hw_outb, io_inw = hw_inw, io_outw = hw_outw,
     io_inl = (\<lambda>p d. (0, d)), io_outl = (\<lambda>p v d. d)\<rparr>"

definition ref_hw :: "(nat \<Rightarrow> u8 list) \<Rightarrow> nat \<Rightarrow> ata_hw" where
  "ref_hw sectors cap = \<lparr>hw_disk = (\<lambda>slave. if slave then None
       else Some \<lparr>dk_sector = sectors, dk_cap = cap, dk_bad = (\<lambda>l. False), dk_wbad = (\<lambda>l. False),
         dk_report = (\<lambda>l. Afterwards), dk_torn = (\<lambda>l old new. old), dk_ident = replicate 256 0\<rparr>),
     hw_seccount = 0, hw_lba0 = 0, hw_lba1 = 0, hw_lba2 = 0, hw_devsel = 0xE0, hw_phase = Idle,
     hw_busy = 0, hw_lat = (\<lambda>i. i mod 3), hw_ops = 0, hw_wfail = False\<rparr>"

lemma ref_port_model: "ata_port_model ref_io id"
  by (simp add: ata_port_model_def ref_io_def)


lemma ref_hw_ok: "(\<And>l. length (sectors l) = 512) \<Longrightarrow> hw_ok (ref_hw sectors cap)"
  by (auto simp: hw_ok_def ref_hw_def intro: order.strict_trans2[OF mod_less_divisor])

section \<open>Properties\<close>

text \<open>
  C14. ata_pio_read28 returns the sectors of the selected drive, and succeeds exactly when the
  count is not zero, the address fits 28 bits and every sector is readable; it writes nothing.
\<close>

theorem ata_read_returns_sectors:
  assumes "ata_port_model io view" "dev_ok dv" "hw_ok (view d)" "hw_disk (view d) (dv_is_slave dv \<noteq> 0) \<noteq> None"
  shows "case ata_pio_read28 io (Some dv) lba cnt d of ((r, bs), d') \<Rightarrow>
    hw_disk (view d') = hw_disk (view d) \<and> hw_ok (view d') \<and> r = served dv (view d) lba cnt \<and>
    (r \<longrightarrow> bs = concat (map (disk_sector (view d) (dv_is_slave dv \<noteq> 0)) [unat lba..<unat lba + unat cnt]))"
proof -
  obtain r bs d' where r: "ata_pio_read28 io (Some dv) lba cnt d = ((r, bs), d')" by (metis surj_pair)
  show ?thesis using read28_view[OF assms r] by (simp add: r)
qed

theorem ata_read_returns_sectors_witness:
  "fst (ata_pio_read28 ref_io (Some \<lparr>dv_io_base = 0x1F0, dv_ctrl_base = 0x3F6, dv_is_slave = 0, dv_present = 1\<rparr>)
     5 2 (ref_hw (\<lambda>l. replicate 512 (of_nat l)) 100)) = (True, replicate 512 5 @ replicate 512 6)"
proof -
  let ?dv = "\<lparr>dv_io_base = 0x1F0, dv_ctrl_base = 0x3F6, dv_is_slave = 0, dv_present = 1\<rparr>"
  let ?h = "ref_hw (\<lambda>l. replicate 512 (of_nat l)) 100"
  have "dev_ok ?dv" by (simp add: dev_ok_def)
  moreover have "served ?dv ?h 5 2" by (simp add: served_def disk_good_def ref_hw_def)
  moreover have "[unat (5 :: u32)..<unat (5 :: u32) + unat (2 :: u8)] = [5, 6]" by (simp add: upt_rec)
  ultimately show ?thesis
    using ata_read_returns_sectors[OF ref_port_model, of ?dv ?h 5 2] ref_hw_ok[of "\<lambda>l. replicate 512 (of_nat l)" 100]
    by (simp add: split_beta prod_eq_iff disk_sector_def ref_hw_def)
qed

text \<open>
  C15. ata_pio_write28 touches no sector outside the range and not the other drive, and on
  success every writable sector of the range holds the caller's data. It succeeds exactly when
  the count is not zero, the address fits 28 bits, the device accepts the data of every sector
  and goes on to the next after all but the last: a sector whose write error is reported only
  after its data, or at the flush, makes the command fail only when another sector follows and
  the device stops there.
\<close>

theorem ata_write_stores_sectors:
  assumes "ata_port_model io view" "dev_ok dv" "hw_ok (view d)" "hw_disk (view d) (dv_is_slave dv \<noteq> 0) \<noteq> None"
    "512 * unat cnt \<le> length buf"
  shows "case ata_pio_write28 io (Some dv) lba cnt buf d of (r, d') \<Rightarrow>
    hw_ok (view d') \<and> r = write_reported dv (view d) lba cnt \<and>
    hw_disk (view d') (dv_is_slave dv = 0) = hw_disk (view d) (dv_is_slave dv = 0) \<and>
    (\<forall>j. j < unat lba \<or> unat lba + unat cnt \<le> j \<longrightarrow>
       disk_sector (view d') (dv_is_slave dv \<noteq> 0) j = disk_sector (view d) (dv_is_slave dv \<noteq> 0) j) \<and>
    (r \<longrightarrow> (\<forall>i < unat cnt. disk_on dk_writable (view d) (dv_is_slave dv \<noteq> 0) (unat lba + i) \<longrightarrow>
       disk_sector (view d') (dv_is_slave dv \<noteq> 0) (unat lba + i) = take 512 (drop (512 * i) buf)))"
proof -
  obtain r d' where r: "ata_pio_write28 io (Some dv) lba cnt buf d = (r, d')" by fastforce
  show ?thesis using write28_view[OF assms r] by (simp add: r)
qed

theorem ata_write_stores_sectors_witness:
  "(let dv = \<lparr>dv_io_base = 0x1F0, dv_ctrl_base = 0x3F6, dv_is_slave = 0, dv_present = 1\<rparr>;
        (r, d) = ata_pio_write28 ref_io (Some dv) 99 2 (replicate 512 7 @ replicate 512 8) (ref_hw (\<lambda>l. replicate 512 0) 100)
    in r \<and> disk_sector d False 99 = replicate 512 7 \<and> disk_sector d False 98 = replicate 512 0)"
proof -
  let ?dv = "\<lparr>dv_io_base = 0x1F0, dv_ctrl_base = 0x3F6, dv_is_slave = 0, dv_present = 1\<rparr>"
  let ?h = "ref_hw (\<lambda>l. replicate 512 0) 100" and ?b = "replicate 512 7 @ replicate 512 8"
  have d: "dev_ok ?dv" by (simp add: dev_ok_def)
  have w: "write_reported ?dv ?h 99 2"
    by (simp add: write_reported_def disk_on_def ref_hw_def dk_accepts_def dk_passes_def dk_writable_def)
  have o: "disk_on dk_writable ?h False 99" "disk_sector ?h False 98 = replicate 512 0" "hw_disk ?h False \<noteq> None"
    by (simp_all add: disk_on_def dk_writable_def ref_hw_def disk_sector_def)
  note T = ata_write_stores_sectors[OF ref_port_model d, of ?h 2 ?b 99]
  obtain r d where x: "ata_pio_write28 ref_io (Some ?dv) 99 2 ?b ?h = (r, d)" by fastforce
  have "r = write_reported ?dv ?h 99 2"
    "\<forall>j. j < 99 \<or> 101 \<le> j \<longrightarrow> disk_sector d False j = disk_sector ?h False j"
    "r \<longrightarrow> (\<forall>i < 2. disk_on dk_writable ?h False (99 + i) \<longrightarrow> disk_sector d False (99 + i) = take 512 (drop (512 * i) ?b))"
    using T o(3) ref_hw_ok[of "\<lambda>l. replicate 512 0" 100] by (simp_all add: x)
  then show ?thesis using w o(1,2) by (force simp: x)
qed

text \<open>
  ata_pio_init finds a disk when one is attached, prefers the slave, leaves the disks
  alone, and ata_pio_get_storage_device then returns a usable handle, or NULL when no disk
  answered.
\<close>

theorem ata_probe_finds_disk:
  assumes "ata_port_model io view" "hw_ok (view d)"
  shows "case ata_pio_init io st d of (r, st', d') \<Rightarrow> hw_disk (view d') = hw_disk (view d) \<and> hw_ok (view d') \<and>
    r = (hw_disk (view d) True \<noteq> None \<or> hw_disk (view d) False \<noteq> None) \<and>
    (if r then ata_pio_get_storage_device st' = Some st' \<and> dev_ok st' \<and>
       (dv_is_slave st' \<noteq> 0) = (hw_disk (view d) True \<noteq> None)
     else ata_pio_get_storage_device st' = None)"
proof -
  obtain r st' d' where r: "ata_pio_init io st d = (r, st', d')" by (metis surj_pair)
  show ?thesis using init_view[OF assms r]
    by (cases "hw_disk (view d) True") (auto simp: r probe_drive_def ata_pio_get_storage_device_def dev_ok_def)
qed

theorem ata_probe_finds_disk_witness:
  "fst (ata_pio_init ref_io \<lparr>dv_io_base = 0, dv_ctrl_base = 0, dv_is_slave = 0, dv_present = 0\<rparr>
     (ref_hw (\<lambda>l. replicate 512 0) 100))"
  using ata_probe_finds_disk[OF ref_port_model, of "ref_hw (\<lambda>l. replicate 512 0) 100"
      "\<lparr>dv_io_base = 0, dv_ctrl_base = 0, dv_is_slave = 0, dv_present = 0\<rparr>"]
    ref_hw_ok[of "\<lambda>l. replicate 512 0" 100] by (simp add: split_beta ref_hw_def)

end
