(* ===== verification/FsState.thy ===== *)
theory FsState
  imports BlockDevice
begin

text \<open>
  The data of \<open>src/kernel/core/simplefs.c\<close>: the on-disk structures, their packed byte
  encodings (the C code copies the structs byte by byte), the file system kind, and the static variables of the
  file together with the machine the driver works on. Both file systems of the file, the
  read-only FAT32 reader (\<open>Fat32\<close>) and the SFS (\<open>SimpleFs\<close>), work on this state.
\<close>

datatype storage_fs_kind = STORAGE_FS_NONE | STORAGE_FS_SFS | STORAGE_FS_FAT32

text \<open>The enumeration's values order the kinds, as the C integers do.\<close>

primrec kind_code :: "storage_fs_kind \<Rightarrow> u32" where
  "kind_code STORAGE_FS_NONE = 0"
| "kind_code STORAGE_FS_SFS = 1"
| "kind_code STORAGE_FS_FAT32 = 2"

lemma kind_code_inject: "kind_code a = kind_code b \<longleftrightarrow> a = b"
  by (cases a; cases b) simp_all

instantiation storage_fs_kind :: linorder
begin

definition less_eq_storage_fs_kind :: "storage_fs_kind \<Rightarrow> storage_fs_kind \<Rightarrow> bool" where
  "a \<le> b \<longleftrightarrow> kind_code a \<le> kind_code b"

definition less_storage_fs_kind :: "storage_fs_kind \<Rightarrow> storage_fs_kind \<Rightarrow> bool" where
  "a < b \<longleftrightarrow> kind_code a < kind_code b"

instance
  by standard (auto simp: less_eq_storage_fs_kind_def less_storage_fs_kind_def kind_code_inject less_le)

end

section \<open>On-disk structures\<close>

record sfs_superblock =
  sb_magic :: u32
  sb_version :: u32
  sb_table_lba :: u32
  sb_table_sectors :: u32
  sb_data_lba :: u32
  sb_next_free_lba :: u32
  sb_file_count :: u32
  sb_rsvd :: u32

record sfs_file =
  sf_used :: u8
  sf_name :: "u8 list"
  sf_start_lba :: u32
  sf_size_bytes :: u32
  sf_rsvd :: u32

definition sb_bytes :: "sfs_superblock \<Rightarrow> u8 list" where
  "sb_bytes b = le32 (sb_magic b) @ le32 (sb_version b) @ le32 (sb_table_lba b) @ le32 (sb_table_sectors b) @
     le32 (sb_data_lba b) @ le32 (sb_next_free_lba b) @ le32 (sb_file_count b) @ le32 (sb_rsvd b)"

definition sb_of :: "u8 list \<Rightarrow> sfs_superblock" where
  "sb_of p = \<lparr>sb_magic = rd32 p 0, sb_version = rd32 p 4, sb_table_lba = rd32 p 8,
     sb_table_sectors = rd32 p 12, sb_data_lba = rd32 p 16, sb_next_free_lba = rd32 p 20,
     sb_file_count = rd32 p 24, sb_rsvd = rd32 p 28\<rparr>"

definition file_bytes :: "sfs_file \<Rightarrow> u8 list" where
  "file_bytes f = sf_used f # sf_name f @ le32 (sf_start_lba f) @ le32 (sf_size_bytes f) @ le32 (sf_rsvd f)"

definition file_of :: "u8 list \<Rightarrow> sfs_file" where
  "file_of p = \<lparr>sf_used = p ! 0, sf_name = take 32 (drop 1 p), sf_start_lba = rd32 p 33,
     sf_size_bytes = rd32 p 37, sf_rsvd = rd32 p 41\<rparr>"

definition zero_sb :: sfs_superblock where
  "zero_sb = \<lparr>sb_magic = 0, sb_version = 0, sb_table_lba = 0, sb_table_sectors = 0, sb_data_lba = 0,
     sb_next_free_lba = 0, sb_file_count = 0, sb_rsvd = 0\<rparr>"

definition zero_file :: sfs_file where
  "zero_file = \<lparr>sf_used = 0, sf_name = replicate 32 0, sf_start_lba = 0, sf_size_bytes = 0, sf_rsvd = 0\<rparr>"

record fat32_info =
  fi_bytes_per_sector :: u16
  fi_sectors_per_cluster :: u8
  fi_reserved_sector_count :: u16
  fi_num_fats :: u8
  fi_fat_size_sectors :: u32
  fi_root_cluster :: u32
  fi_fat_start_lba :: u32
  fi_data_start_lba :: u32

record fat32_file =
  ff_name :: "u8 list"
  ff_first_cluster :: u32
  ff_size_bytes :: u32
  ff_attr :: u8

section \<open>The static variables\<close>

record ('v, 's) fs =
  g_dev :: "'v option"
  g_sb :: sfs_superblock
  g_table :: "sfs_file list"
  g_kind :: storage_fs_kind
  g_fat :: fat32_info
  g_fat_files :: "fat32_file list"
  g_fat_file_count :: u32
  fs_blk :: 's

text \<open>The static variables before \<open>simplefs_init\<close>: all zero bytes.\<close>

definition fs_start :: "'s \<Rightarrow> ('v, 's) fs" where
  "fs_start b = \<lparr>g_dev = None, g_sb = zero_sb, g_table = replicate 64 zero_file, g_kind = STORAGE_FS_NONE,
     g_fat = \<lparr>fi_bytes_per_sector = 0, fi_sectors_per_cluster = 0, fi_reserved_sector_count = 0,
       fi_num_fats = 0, fi_fat_size_sectors = 0, fi_root_cluster = 0, fi_fat_start_lba = 0, fi_data_start_lba = 0\<rparr>,
     g_fat_files = replicate 128 \<lparr>ff_name = replicate 32 0, ff_first_cluster = 0, ff_size_bytes = 0, ff_attr = 0\<rparr>,
     g_fat_file_count = 0, fs_blk = b\<rparr>"

text \<open>\<open>sfs_read_sector\<close> and \<open>fat_read_sector\<close> are the same call, as is the store.\<close>

definition fs_read_sector :: "('v, 's) blk_driver \<Rightarrow> u32 \<Rightarrow> ('v, 's) fs \<Rightarrow> (bool \<times> u8 list) \<times> ('v, 's) fs" where
  "fs_read_sector dr lba s = (let (r, b) = bd_read28 dr (g_dev s) lba 1 (fs_blk s) in (r, s\<lparr>fs_blk := b\<rparr>))"

definition sfs_write_sector :: "('v, 's) blk_driver \<Rightarrow> u32 \<Rightarrow> u8 list \<Rightarrow> ('v, 's) fs \<Rightarrow> bool \<times> ('v, 's) fs" where
  "sfs_write_sector dr lba buf s =
     (let (r, b) = bd_write28 dr (g_dev s) lba 1 buf (fs_blk s) in (r, s\<lparr>fs_blk := b\<rparr>))"

text \<open>Only the machine differs: what a sector transfer does to the state.\<close>

definition only_blk :: "('v, 's) fs \<Rightarrow> ('v, 's) fs \<Rightarrow> bool" where
  "only_blk s s' \<longleftrightarrow> s' = s\<lparr>fs_blk := fs_blk s'\<rparr>"

lemma only_blk_refl [simp]: "only_blk s s"
  by (simp add: only_blk_def)

lemma only_blk_upd [simp]: "only_blk s (s\<lparr>fs_blk := b\<rparr>)"
  by (simp add: only_blk_def)

lemma only_blkD:
  assumes "only_blk s s'"
  shows "g_dev s' = g_dev s" "g_sb s' = g_sb s" "g_table s' = g_table s" "g_kind s' = g_kind s"
    "g_fat s' = g_fat s" "g_fat_files s' = g_fat_files s" "g_fat_file_count s' = g_fat_file_count s"
  by (subst assms[unfolded only_blk_def], simp)+

lemma only_blk_trans:
  assumes "only_blk s s1" "only_blk s1 s'"
  shows "only_blk s s'"
proof -
  have "s' = (s\<lparr>fs_blk := fs_blk s1\<rparr>)\<lparr>fs_blk := fs_blk s'\<rparr>"
    using assms unfolding only_blk_def by metis
  then show ?thesis by (simp add: only_blk_def)
qed

section \<open>The encodings\<close>

lemma length_sb_bytes [simp]: "length (sb_bytes b) = 32"
  by (simp add: sb_bytes_def)

lemma rd32_app4: "rd32 (le32 w @ r) 0 = w"
  using rd32_append1[of 0 "le32 w" r] by simp

lemma rd32_skip4: "rd32 (le32 w @ r) (k + 4) = rd32 r k"
  using rd32_append[of "le32 w" r k] by (simp add: add.commute)

lemma rd32_at:
  "rd32 (le32 a @ r) 4 = rd32 r 0" "rd32 (le32 a @ r) 8 = rd32 r 4" "rd32 (le32 a @ r) 12 = rd32 r 8"
  "rd32 (le32 a @ r) 16 = rd32 r 12" "rd32 (le32 a @ r) 20 = rd32 r 16" "rd32 (le32 a @ r) 24 = rd32 r 20"
  "rd32 (le32 a @ r) 28 = rd32 r 24"
  using rd32_skip4[of a r 0] rd32_skip4[of a r 4] rd32_skip4[of a r 8] rd32_skip4[of a r 12]
    rd32_skip4[of a r 16] rd32_skip4[of a r 20] rd32_skip4[of a r 24] by simp_all

lemma sb_of_bytes [codec_simps]: "sb_of (sb_bytes b @ r) = b"
  by (simp add: sb_of_def sb_bytes_def rd32_app4 rd32_at)

lemma length_file_bytes: "length (sf_name f) = 32 \<Longrightarrow> length (file_bytes f) = 45"
  by (simp add: file_bytes_def)

lemma file_of_bytes [codec_simps]:
  assumes "length (sf_name f) = 32"
  shows "file_of (file_bytes f) = f"
proof -
  have r: "rd32 (file_bytes f) (33 + k) = rd32 (le32 (sf_start_lba f) @ le32 (sf_size_bytes f) @ le32 (sf_rsvd f)) k" for k
    using rd32_append[of "sf_used f # sf_name f" _ k] assms by (simp add: file_bytes_def)
  show ?thesis
    using r[of 0] r[of 4] r[of 8] assms
    by (simp add: file_of_def rd32_app4 rd32_at) (simp add: file_bytes_def)
qed

lemma length_zero_file [simp]: "length (sf_name zero_file) = 32"
  by (simp add: zero_file_def)

section \<open>Sector access through the device\<close>

text \<open>
  The client side of the device contract: the file systems are proved here, against the laws
  of \<open>block_device\<close> alone.
\<close>

locale storage_client = block_device dr inv handle block med
  for dr :: "('v, 's) blk_driver" and inv handle block med
begin

definition ready :: "('v, 's) fs \<Rightarrow> bool" where
  "ready s \<longleftrightarrow> inv (fs_blk s) \<and> handle (fs_blk s) (g_dev s)"

definition blocks :: "('v, 's) fs \<Rightarrow> nat \<Rightarrow> u8 list" where
  "blocks s = block (fs_blk s)"

definition media :: "('v, 's) fs \<Rightarrow> medium" where
  "media s = med (fs_blk s)"

text \<open>The sectors that can be read, that take a write, and that store it.\<close>

abbreviation usable :: "('v, 's) fs \<Rightarrow> nat \<Rightarrow> bool" where
  "usable s \<equiv> md_reads (media s)"

abbreviation accepts :: "('v, 's) fs \<Rightarrow> nat \<Rightarrow> bool" where
  "accepts s \<equiv> md_takes (media s)"

abbreviation holds :: "('v, 's) fs \<Rightarrow> nat \<Rightarrow> bool" where
  "holds s \<equiv> md_stores (media s)"

lemma fs_read:
  assumes "ready s" "fs_read_sector dr lba s = ((r, bs), s')"
  shows "only_blk s s'" "ready s'" "blocks s' = blocks s" "media s' = media s"
    "r = usable s (unat lba)" "r \<Longrightarrow> bs = blocks s (unat lba)"
proof -
  obtain b where b: "bd_read28 dr (g_dev s) lba 1 (fs_blk s) = ((r, bs), b)" "s' = s\<lparr>fs_blk := b\<rparr>"
    using assms(2) by (auto simp: fs_read_sector_def split: prod.splits)
  note R = rd1[OF _ _ b(1)]
  have "inv (fs_blk s)" "handle (fs_blk s) (g_dev s)" using assms(1) by (auto simp: ready_def)
  note R = R[OF this]
  show "only_blk s s'" using b(2) by simp
  show "ready s'" using R b(2) by (simp add: ready_def)
  show "blocks s' = blocks s" "media s' = media s" "r = usable s (unat lba)" "r \<Longrightarrow> bs = blocks s (unat lba)"
    using R b(2) by (simp_all add: blocks_def media_def)
qed

lemma fs_write:
  assumes "ready s" "length buf = 512" "sfs_write_sector dr lba buf s = (r, s')"
  shows "only_blk s s'" "ready s'" "media s' = media s" "r = accepts s (unat lba)"
    "j \<noteq> unat lba \<Longrightarrow> blocks s' j = blocks s j" "holds s (unat lba) \<Longrightarrow> blocks s' (unat lba) = buf"
proof -
  obtain b where b: "bd_write28 dr (g_dev s) lba 1 buf (fs_blk s) = (r, b)" "s' = s\<lparr>fs_blk := b\<rparr>"
    using assms(3) by (auto simp: sfs_write_sector_def split: prod.splits)
  have "inv (fs_blk s)" "handle (fs_blk s) (g_dev s)" using assms(1) by (auto simp: ready_def)
  note W = wr1[OF this assms(2) b(1)]
  show "only_blk s s'" using b(2) by simp
  show "ready s'" using W b(2) by (simp add: ready_def)
  show "media s' = media s" "r = accepts s (unat lba)" "j \<noteq> unat lba \<Longrightarrow> blocks s' j = blocks s j"
    "holds s (unat lba) \<Longrightarrow> blocks s' (unat lba) = buf"
    using W b(2) by (simp_all add: blocks_def media_def)
qed

end

end
