(* ===== verification/Fat32.thy ===== *)
theory Fat32
  imports FsState
begin

text \<open>
  The FAT32 reader of \<open>src/kernel/core/simplefs.c\<close> (lines 81-270 and the FAT32 branch of
  \<open>simplefs_read_file\<close>): boot sector test, cluster arithmetic, short names, the scan of the root
  directory and the walk of a cluster chain. A sector buffer is the list of its 512 bytes.
  The two loops over clusters run on the code's own budgets (256 and 4096).
\<close>

section \<open>Operations\<close>

definition fat_cluster_to_lba :: "fat32_info \<Rightarrow> u32 \<Rightarrow> u32" where
  "fat_cluster_to_lba g cluster =
     (let cluster = (if cluster < 2 then 2 else cluster)
      in fi_data_start_lba g + (cluster - 2) * ucast (fi_sectors_per_cluster g))"

definition fat_get_fat_entry ::
  "('v, 's) blk_driver \<Rightarrow> u32 \<Rightarrow> ('v, 's) fs \<Rightarrow> u32 option \<times> ('v, 's) fs" where
  "fat_get_fat_entry dr cluster s =
     (let fat_off = cluster * 4;
          sec = fi_fat_start_lba (g_fat s) + fat_off div 512;
          off = fat_off mod 512;
          ((ok, buf), s) = fs_read_sector dr sec s
      in if \<not> ok then (None, s) else (Some (rd32 buf (unat off) AND 0x0FFFFFFF), s))"

fun trim_loop :: "u8 list \<Rightarrow> nat \<Rightarrow> u8 list" where
  "trim_loop s 0 = s"
| "trim_loop s (Suc n) = (if s ! n = 0x20 then trim_loop (s[n := 0]) n else s)"

definition fat_trim_space :: "u8 list \<Rightarrow> u8 list" where
  "fat_trim_space s = trim_loop s (length (cstr s))"

text \<open>Copying a C string to the end of what is written so far, up to the capacity.\<close>

fun put_str :: "u8 list \<Rightarrow> nat \<Rightarrow> u8 list \<Rightarrow> u8 list" where
  "put_str [] cap w = w"
| "put_str (c # cs) cap w = (if c \<noteq> 0 \<and> length w + 1 < cap then put_str cs cap (w @ [c]) else w)"

definition fat_build_short_name :: "nat \<Rightarrow> u8 list \<Rightarrow> u8 list" where
  "fat_build_short_name out_cap ent =
     (let base = fat_trim_space (take 8 ent @ [0]);
          ext = fat_trim_space (take 3 (drop 8 ent) @ [0]);
          w = put_str base out_cap [];
          w = (if ext ! 0 \<noteq> 0 \<and> length w + 1 < out_cap then put_str ext out_cap (w @ [0x2E]) else w)
      in w @ [0])"

definition fat_is_fat32_boot_sector :: "u8 list \<Rightarrow> bool" where
  "fat_is_fat32_boot_sector b =
     (if b ! 510 \<noteq> 0x55 \<or> b ! 511 \<noteq> 0xAA then False
      else if rd16 b 11 \<noteq> 512 then False
      else if rd16 b 17 \<noteq> 0 then False
      else if rd16 b 22 \<noteq> 0 then False
      else if rd32 b 36 = 0 then False
      else if b ! 82 \<noteq> 0x46 \<or> b ! 83 \<noteq> 0x41 \<or> b ! 84 \<noteq> 0x54 \<or> b ! 85 \<noteq> 0x33 \<or> b ! 86 \<noteq> 0x32 then False
      else True)"

text \<open>The loop that fills \<open>f->name\<close> after clearing it.\<close>

fun copy_name :: "u8 list \<Rightarrow> u8 list \<Rightarrow> nat \<Rightarrow> u8 list" where
  "copy_name dst [] i = dst"
| "copy_name dst (c # cs) i =
     (if i + 1 < 32 \<and> c \<noteq> 0 then copy_name (dst[i := c, i + 1 := 0]) cs (i + 1) else dst)"

definition fat_add_entry :: "u8 list \<Rightarrow> ('v, 's) fs \<Rightarrow> ('v, 's) fs" where
  "fat_add_entry ent s =
     (if \<not> g_fat_file_count s < 128 then s
      else let name = fat_build_short_name 32 ent in
      if name ! 0 = 0 then s
      else let hi = ucast (rd16 ent 20) :: u32; lo = ucast (rd16 ent 26) :: u32;
               fc = push_bit 16 hi OR lo;
               sz = rd32 ent 28;
               i = unat (g_fat_file_count s)
           in s\<lparr>g_fat_file_count := g_fat_file_count s + 1,
                g_fat_files := (g_fat_files s)[i := \<lparr>ff_name = copy_name (replicate 32 0) name 0,
                  ff_first_cluster = fc, ff_size_bytes = sz, ff_attr = ent ! 11\<rparr>]\<rparr>)"

text \<open>One directory sector; the flag is set when the end marker was met (\<open>return 1\<close>).\<close>

function fat_scan_sector :: "u8 list \<Rightarrow> nat \<Rightarrow> ('v, 's) fs \<Rightarrow> bool \<times> ('v, 's) fs" where
  "fat_scan_sector sec off s =
     (if \<not> off + 32 \<le> 512 then (False, s)
      else let ent = drop off sec; first = ent ! 0 in
      if first = 0x00 then (True, s)
      else if first = 0xE5 then fat_scan_sector sec (off + 32) s
      else let attr = ent ! 11 in
      if attr = 0x0F then fat_scan_sector sec (off + 32) s
      else if attr AND 0x08 \<noteq> 0 then fat_scan_sector sec (off + 32) s
      else if attr AND 0x10 \<noteq> 0 then fat_scan_sector sec (off + 32) s
      else fat_scan_sector sec (off + 32) (fat_add_entry ent s))"
  by pat_completeness auto
termination
  by (relation "measure (\<lambda>(_, off, _). 512 - off)") auto

declare fat_scan_sector.simps [simp del]

text \<open>The sectors of one cluster; \<open>Some r\<close> is a return from the scan, \<open>None\<close> goes on.\<close>

fun fat_scan_cluster ::
  "('v, 's) blk_driver \<Rightarrow> u32 \<Rightarrow> nat \<Rightarrow> u32 \<Rightarrow> ('v, 's) fs \<Rightarrow> bool option \<times> ('v, 's) fs" where
  "fat_scan_cluster dr lba0 0 k s = (None, s)"
| "fat_scan_cluster dr lba0 (Suc n) k s =
     (let ((ok, sec), s) = fs_read_sector dr (lba0 + k) s in
      if \<not> ok then (Some False, s)
      else let (fin, s) = fat_scan_sector sec 0 s in
      if fin then (Some True, s) else fat_scan_cluster dr lba0 n (k + 1) s)"

fun fat_scan_chain :: "('v, 's) blk_driver \<Rightarrow> nat \<Rightarrow> u32 \<Rightarrow> ('v, 's) fs \<Rightarrow> bool \<times> ('v, 's) fs" where
  "fat_scan_chain dr 0 cluster s = (True, s)"
| "fat_scan_chain dr (Suc budget) cluster s =
     (let lba0 = fat_cluster_to_lba (g_fat s) cluster;
          (r, s) = fat_scan_cluster dr lba0 (unat (fi_sectors_per_cluster (g_fat s))) 0 s in
      case r of Some b \<Rightarrow> (b, s)
      | None \<Rightarrow>
          let (e, s) = fat_get_fat_entry dr cluster s in
          case e of None \<Rightarrow> (False, s)
          | Some next \<Rightarrow>
              if next \<ge> 0x0FFFFFF8 then (True, s)
              else if next < 2 then (False, s)
              else fat_scan_chain dr budget next s)"

definition fat_mount_and_scan_root :: "('v, 's) blk_driver \<Rightarrow> ('v, 's) fs \<Rightarrow> bool \<times> ('v, 's) fs" where
  "fat_mount_and_scan_root dr s =
     (let ((ok, b), s) = fs_read_sector dr 0 s in
      if \<not> ok then (False, s)
      else if \<not> fat_is_fat32_boot_sector b then (False, s)
      else let s = s\<lparr>g_fat := (g_fat s)\<lparr>fi_bytes_per_sector := rd16 b 11, fi_sectors_per_cluster := b ! 13,
                 fi_reserved_sector_count := rd16 b 14, fi_num_fats := b ! 16,
                 fi_fat_size_sectors := rd32 b 36, fi_root_cluster := rd32 b 44\<rparr>\<rparr>; g = g_fat s in
      if fi_bytes_per_sector g \<noteq> 512 \<or> fi_sectors_per_cluster g = 0 \<or> fi_num_fats g = 0 \<or>
         fi_fat_size_sectors g = 0 \<or> fi_root_cluster g < 2 then (False, s)
      else let fs = ucast (fi_reserved_sector_count g);
               s = s\<lparr>g_fat := g\<lparr>fi_fat_start_lba := fs,
                        fi_data_start_lba := fs + ucast (fi_num_fats g) * fi_fat_size_sectors g\<rparr>,
                     g_fat_file_count := 0,
                     g_fat_files := map (\<lambda>f. \<lparr>ff_name = (ff_name f)[0 := 0], ff_first_cluster = 0,
                       ff_size_bytes = 0, ff_attr = 0\<rparr>) (g_fat_files s)\<rparr>
           in fat_scan_chain dr 256 (fi_root_cluster g) s)"

definition fat_find :: "u8 list option \<Rightarrow> ('v, 's) fs \<Rightarrow> nat option" where
  "fat_find name s =
     (if name = None then None
      else find_index (\<lambda>f. str_eq (Some (ff_name f)) name) (take (unat (g_fat_file_count s)) (g_fat_files s)))"

text \<open>Reading a chain: \<open>acc\<close> is what has been stored in the caller's buffer, so \<open>copied\<close> is its length.\<close>

fun fat_read_cluster ::
  "('v, 's) blk_driver \<Rightarrow> u32 \<Rightarrow> nat \<Rightarrow> u32 \<Rightarrow> nat \<Rightarrow> u8 list \<Rightarrow> ('v, 's) fs \<Rightarrow> (bool \<times> u8 list) \<times> ('v, 's) fs" where
  "fat_read_cluster dr lba0 0 k want acc s = ((True, acc), s)"
| "fat_read_cluster dr lba0 (Suc n) k want acc s =
     (if \<not> length acc < want then ((True, acc), s)
      else let ((ok, sec), s) = fs_read_sector dr (lba0 + k) s in
      if \<not> ok then ((False, acc), s)
      else fat_read_cluster dr lba0 n (k + 1) want (acc @ take (min (want - length acc) 512) sec) s)"

fun fat_read_chain ::
  "('v, 's) blk_driver \<Rightarrow> nat \<Rightarrow> u32 \<Rightarrow> nat \<Rightarrow> u8 list \<Rightarrow> ('v, 's) fs \<Rightarrow> (bool \<times> u8 list) \<times> ('v, 's) fs" where
  "fat_read_chain dr 0 cluster want acc s = ((True, acc), s)"
| "fat_read_chain dr (Suc budget) cluster want acc s =
     (if \<not> length acc < want then ((True, acc), s)
      else let lba0 = fat_cluster_to_lba (g_fat s) cluster;
               ((ok, acc), s) =
                 fat_read_cluster dr lba0 (unat (fi_sectors_per_cluster (g_fat s))) 0 want acc s in
      if \<not> ok then ((False, acc), s)
      else if length acc \<ge> want then ((True, acc), s)
      else let (e, s) = fat_get_fat_entry dr cluster s in
           case e of None \<Rightarrow> ((False, acc), s)
           | Some next \<Rightarrow>
               if next \<ge> 0x0FFFFFF8 then ((True, acc), s)
               else if next < 2 then ((False, acc), s)
               else fat_read_chain dr budget next want acc s)"

section \<open>The scan only reads\<close>

definition fat_ro :: "('v, 's) fs \<Rightarrow> ('v, 's) fs \<Rightarrow> bool" where
  "fat_ro s s' \<longleftrightarrow> g_dev s' = g_dev s \<and> g_sb s' = g_sb s \<and> g_table s' = g_table s \<and> g_kind s' = g_kind s"

lemma fat_ro_add: "fat_ro s (fat_add_entry ent s) \<and> fs_blk (fat_add_entry ent s) = fs_blk s \<and>
    g_fat (fat_add_entry ent s) = g_fat s"
  by (simp add: fat_ro_def fat_add_entry_def Let_def)

lemma fat_ro_scan_sector:
  "fat_ro s (snd (fat_scan_sector sec off s)) \<and> fs_blk (snd (fat_scan_sector sec off s)) = fs_blk s \<and>
   g_fat (snd (fat_scan_sector sec off s)) = g_fat s"
proof (induction sec off s rule: fat_scan_sector.induct)
  case (1 sec off s)
  let ?e = "drop off sec"
  consider "\<not> off + 32 \<le> 512 \<or> ?e ! 0 = 0"
    | "off + 32 \<le> 512" "?e ! 0 \<noteq> 0" "?e ! 0 = 0xE5 \<or> ?e ! 11 = 0x0F \<or> ?e ! 11 AND 0x08 \<noteq> 0 \<or> ?e ! 11 AND 0x10 \<noteq> 0"
    | "off + 32 \<le> 512" "?e ! 0 \<noteq> 0" "?e ! 0 \<noteq> 0xE5" "?e ! 11 \<noteq> 0x0F" "?e ! 11 AND 0x08 = 0" "?e ! 11 AND 0x10 = 0"
    by blast
  then show ?case
  proof cases
    case 1
    then show ?thesis by (subst (1 2 3) fat_scan_sector.simps) (auto simp: fat_ro_def Let_def)
  next
    case 2
    then have "fat_scan_sector sec off s = fat_scan_sector sec (off + 32) s"
      by (subst fat_scan_sector.simps) (auto simp: Let_def)
    then show ?thesis using 1(1-4)[OF _ refl refl] 2 by (auto simp: Let_def)
  next
    case 3
    then have "fat_scan_sector sec off s = fat_scan_sector sec (off + 32) (fat_add_entry ?e s)"
      by (subst fat_scan_sector.simps) (simp add: Let_def)
    then show ?thesis using 1(5)[OF _ refl refl _ _ refl] 3 fat_ro_add[of s ?e] by (simp add: fat_ro_def)
  qed
qed

section \<open>Directory entries\<close>

text \<open>The entries of a directory sector the reader lists: those before the end marker that are plain files.\<close>

definition dir_entries :: "u8 list \<Rightarrow> nat \<Rightarrow> u8 list list" where
  "dir_entries sec i = map (\<lambda>k. drop (32 * k) sec) [i..<16]"

definition plain_file :: "u8 list \<Rightarrow> bool" where
  "plain_file ent \<longleftrightarrow> ent ! 0 \<noteq> 0xE5 \<and> ent ! 11 \<noteq> 0x0F \<and> ent ! 11 AND 0x08 = 0 \<and> ent ! 11 AND 0x10 = 0"

lemma fat_scan_sector_eq:
  fixes s :: "('v, 's) fs"
  shows "i \<le> 16 \<Longrightarrow> fat_scan_sector sec (32 * i) s =
     (\<exists>ent \<in> set (dir_entries sec i). ent ! 0 = 0,
      fold fat_add_entry (filter plain_file (takeWhile (\<lambda>ent. ent ! 0 \<noteq> 0) (dir_entries sec i))) s)"
proof (induction "16 - i" arbitrary: i s)
  case 0
  then show ?case by (subst fat_scan_sector.simps) (simp add: dir_entries_def)
next
  case (Suc n)
  let ?e = "drop (32 * i) sec"
  have i: "i < 16" using Suc(2) by simp
  then have d: "dir_entries sec i = ?e # dir_entries sec (Suc i)" by (simp add: dir_entries_def upt_conv_Cons)
  have IH: "fat_scan_sector sec (32 * i + 32) s' =
     (\<exists>ent \<in> set (dir_entries sec (Suc i)). ent ! 0 = 0,
      fold fat_add_entry (filter plain_file (takeWhile (\<lambda>ent. ent ! 0 \<noteq> 0) (dir_entries sec (Suc i)))) s')" for s' :: "('v, 's) fs"
    using Suc(1)[of "Suc i" s'] Suc(2) i by (simp add: add.commute)
  have "fat_scan_sector sec (32 * i) s =
      (if ?e ! 0 = 0 then (True, s)
       else if plain_file ?e then fat_scan_sector sec (32 * i + 32) (fat_add_entry ?e s)
       else fat_scan_sector sec (32 * i + 32) s)"
    using i by (subst fat_scan_sector.simps) (auto simp: plain_file_def Let_def)
  then show ?case using IH by (simp add: d)
qed

text \<open>Short names: at most eight characters, a dot and three more.\<close>

lemma length_trim_loop [simp]: "length (trim_loop s n) = length s"
  by (induction s n rule: trim_loop.induct) auto

lemma put_str_eq: "put_str s cap w = w @ take (cap - 1 - length w) (cstr s)"
proof (induction s cap w rule: put_str.induct)
  case (2 c cs cap w)
  have "cap - 1 - length w = Suc (cap - 1 - length (w @ [c]))" if "length w + 1 < cap" using that by simp
  then show ?case using 2 by (auto simp: cstr_Cons)
qed simp

lemma trim_loop_cstr:
  "n \<le> length s \<Longrightarrow> take n (trim_loop s n) = rev (dropWhile (\<lambda>c. c = 0x20) (rev (take n s))) @
     replicate (n - length (dropWhile (\<lambda>c. c = 0x20) (rev (take n s)))) 0"
proof (induction s n rule: trim_loop.induct)
  case (2 s n)
  show ?case
  proof (cases "s ! n = 0x20")
    case True
    have "take (Suc n) (trim_loop (s[n := 0]) n) = take n (trim_loop (s[n := 0]) n) @ [trim_loop (s[n := 0]) n ! n]"
      using 2(2) by (simp add: take_Suc_conv_app_nth)
    moreover have "trim_loop t m ! k = t ! k" if "m \<le> k" for t m k
      using that by (induction t m rule: trim_loop.induct) auto
    ultimately have "take (Suc n) (trim_loop s (Suc n)) = take n (trim_loop (s[n := 0]) n) @ [0]"
      using True 2(2) by simp
    moreover have "length (dropWhile (\<lambda>c. c = 0x20) (rev (take n s))) \<le> n"
      using length_dropWhile_le[of "\<lambda>c. c = 0x20" "rev (take n s)"] by simp
    then have "Suc n - length (dropWhile (\<lambda>c. c = 0x20) (rev (take n s))) =
        Suc (n - length (dropWhile (\<lambda>c. c = 0x20) (rev (take n s))))" by simp
    ultimately show ?thesis using 2 True
      by (simp add: take_Suc_conv_app_nth replicate_append_same)
  next
    case False
    then show ?thesis using 2(2) by (simp add: take_Suc_conv_app_nth)
  qed
qed simp

definition rtrim :: "u8 list \<Rightarrow> u8 list" where
  "rtrim s = rev (dropWhile (\<lambda>c. c = 0x20) (rev s))"

lemma set_rtrim: "set (rtrim s) \<subseteq> set s"
  using set_dropWhileD by (fastforce simp: rtrim_def)

lemma length_rtrim: "length (rtrim s) \<le> length s"
  using length_dropWhile_le[of "\<lambda>c. c = 0x20" "rev s"] by (simp add: rtrim_def)

lemma nth_trim_loop: "m \<le> k \<Longrightarrow> trim_loop t m ! k = t ! k"
  by (induction t m rule: trim_loop.induct) auto

lemma cstr_trim_space:
  assumes "0 \<in> set s"
  shows "cstr (fat_trim_space s) = rtrim (cstr s)"
proof -
  let ?n = "length (cstr s)" and ?t = "trim_loop s (length (cstr s))"
  have n: "?n < length s" "s ! ?n = 0" "take ?n s = cstr s"
  proof -
    obtain x y where "s = x @ 0 # y" "0 \<notin> set x" using split_list_first[OF assms] by blast
    then show "?n < length s" "s ! ?n = 0" "take ?n s = cstr s" by (simp_all add: cstr_append_NUL)
  qed
  have tk: "take ?n ?t = rtrim (cstr s) @ replicate (?n - length (rtrim (cstr s))) 0"
    using trim_loop_cstr[of ?n s] n by (simp add: rtrim_def)
  have "0 \<notin> set (rtrim (cstr s))" using set_rtrim cstr_nonzero by blast
  moreover have "?t = rtrim (cstr s) @ 0 # r" if "r = tl (drop (length (rtrim (cstr s))) ?t)" for r
  proof -
    let ?m = "length (rtrim (cstr s))"
    have m: "?m \<le> ?n" by (rule length_rtrim)
    have tm: "take ?m ?t = rtrim (cstr s)"
      using arg_cong[OF tk, of "take ?m"] m by (simp add: min_absorb1)
    have "?t ! ?m = 0"
    proof (cases "?m = ?n")
      case True
      then show ?thesis using nth_trim_loop[of ?n ?n s] n by simp
    next
      case False
      then have "?t ! ?m = take ?n ?t ! ?m" using m by simp
      then show ?thesis using tk m False by (simp add: nth_append)
    qed
    moreover have "drop ?m ?t = ?t ! ?m # drop (Suc ?m) ?t" using m n(1) by (simp add: Cons_nth_drop_Suc)
    ultimately show ?thesis using tm that append_take_drop_id[of ?m ?t] by (metis list.sel(3))
  qed
  ultimately show ?thesis by (metis fat_trim_space_def cstr_append_NUL)
qed

text \<open>The listed name of a directory entry.\<close>

definition short_name :: "u8 list \<Rightarrow> u8 list" where
  "short_name ent =
     (let b = rtrim (cstr (take 8 ent)); e = rtrim (cstr (take 3 (drop 8 ent)))
      in b @ (if e = [] then [] else 0x2E # e))"

lemma cstr_snoc0: "cstr (s @ [0]) = cstr s"
  by (induction s) (auto simp: cstr_Cons)

lemma length_short: "length (rtrim (cstr (take n s))) \<le> n"
  using length_rtrim[of "cstr (take n s)"] cstr_length_le[of "take n s"] by simp

lemma build_short_name_eq: "fat_build_short_name 32 ent = short_name ent @ [0]"
proof -
  let ?b = "rtrim (cstr (take 8 ent))" and ?e = "rtrim (cstr (take 3 (drop 8 ent)))"
  let ?x = "fat_trim_space (take 3 (drop 8 ent) @ [0])"
  have cb: "cstr (fat_trim_space (take 8 ent @ [0])) = ?b" and ce: "cstr ?x = ?e"
    by (simp_all add: cstr_trim_space cstr_snoc0)
  have "?x \<noteq> []" by (metis fat_trim_space_def length_trim_loop snoc_eq_iff_butlast length_0_conv)
  then have x0: "?x ! 0 \<noteq> 0 \<longleftrightarrow> ?e \<noteq> []" using ce by (cases ?x) (auto simp: cstr_Cons split: if_splits)
  show ?thesis
    using length_short[of 8 ent] length_short[of 3 "drop 8 ent"] x0
    unfolding fat_build_short_name_def short_name_def Let_def put_str_eq cb ce by simp
qed

lemma short_name_bound: "length (short_name ent) \<le> 12" "0 \<notin> set (short_name ent)"
proof -
  show "length (short_name ent) \<le> 12"
    using length_short[of 8 ent] length_short[of 3 "drop 8 ent"] by (simp add: short_name_def Let_def)
  show "0 \<notin> set (short_name ent)"
    using set_rtrim[of "cstr (take 8 ent)"] set_rtrim[of "cstr (take 3 (drop 8 ent))"]
      cstr_nonzero[of "take 8 ent"] cstr_nonzero[of "take 3 (drop 8 ent)"]
    by (auto simp: short_name_def Let_def)
qed

section \<open>The list of files\<close>

type_synonym fat_info = "u8 list \<times> u32 \<times> u32"

definition entry_info :: "u8 list \<Rightarrow> fat_info" where
  "entry_info ent = (short_name ent,
     push_bit 16 (ucast (rd16 ent 20)) OR ucast (rd16 ent 26), rd32 ent 28)"

definition fat_wf :: "('v, 's) fs \<Rightarrow> bool" where
  "fat_wf s \<longleftrightarrow> length (g_fat_files s) = 128 \<and> unat (g_fat_file_count s) \<le> 128"

definition fat_listing :: "('v, 's) fs \<Rightarrow> fat_info list" where
  "fat_listing s = map (\<lambda>f. (cstr (ff_name f), ff_first_cluster f, ff_size_bytes f))
     (take (unat (g_fat_file_count s)) (g_fat_files s))"

text \<open>The search by name, against the listing.\<close>

lemma fat_find_listing:
  assumes "i < length (fat_listing s)" "fat_listing s ! i = (cstr nm, c, sz)" "\<forall>j < i. fst (fat_listing s ! j) \<noteq> cstr nm"
  shows "fat_find (Some nm) s = Some i" "ff_first_cluster (g_fat_files s ! i) = c" "ff_size_bytes (g_fat_files s ! i) = sz"
  using assms by (auto simp: fat_find_def fat_listing_def find_index_Some_iff)

lemma copy_name_cstr:
  "length dst = 32 \<Longrightarrow> i < 32 \<Longrightarrow> dst ! i = 0 \<Longrightarrow> 0 \<notin> set (take i dst) \<Longrightarrow>
   cstr (copy_name dst s i) = take i dst @ take (31 - i) (cstr s)"
proof (induction dst s i rule: copy_name.induct)
  case (1 dst i)
  have "cstr (take i dst @ 0 # drop (Suc i) dst) = take i dst" using 1(4) by (rule cstr_append_NUL)
  then show ?case using 1(1-3) id_take_nth_drop[of i dst] by simp
next
  case (2 dst c cs i)
  show ?case
  proof (cases "i + 1 < 32 \<and> c \<noteq> 0")
    case True
    have "take (i + 1) (dst[i := c, i + 1 := 0]) = take i dst @ [c]"
      using 2(2,3) by (simp add: take_Suc_conv_app_nth take_update_swap list_update_append)
    moreover have "31 - i = Suc (31 - (i + 1))" using True by linarith
    ultimately show ?thesis using 2 True by (simp add: cstr_Cons)
  next
    case False
    have "cstr (take i dst @ 0 # drop (Suc i) dst) = take i dst" using 2(5) by (rule cstr_append_NUL)
    then have "cstr dst = take i dst" using 2(2-4) id_take_nth_drop[of i dst] by simp
    moreover have "take (31 - i) (cstr (c # cs)) = []" using False 2(3) by (auto simp: cstr_Cons)
    ultimately show ?thesis using False by auto
  qed
qed

definition listed :: "u8 list \<Rightarrow> bool" where
  "listed ent \<longleftrightarrow> plain_file ent \<and> short_name ent \<noteq> []"

lemma add_entry_listing:
  assumes "fat_wf s"
  shows "fat_wf (fat_add_entry ent s) \<and> fat_listing (fat_add_entry ent s) =
    (if short_name ent \<noteq> [] then take 128 (fat_listing s @ [entry_info ent]) else fat_listing s)"
proof -
  let ?n = "unat (g_fat_file_count s)"
  have w: "length (g_fat_files s) = 128" "?n \<le> 128" using assms by (auto simp: fat_wf_def)
  have ll: "length (fat_listing s) = ?n" using w by (simp add: fat_listing_def)
  have nm: "(fat_build_short_name 32 ent ! 0 = 0) = (short_name ent = [])"
    using short_name_bound(2)[of ent] by (cases "short_name ent") (auto simp: build_short_name_eq)
  show ?thesis
  proof (cases "g_fat_file_count s < 128 \<and> short_name ent \<noteq> []")
    case False
    then have "fat_add_entry ent s = s" using nm by (auto simp: fat_add_entry_def Let_def)
    moreover have "?n = 128" if "\<not> g_fat_file_count s < 128" using that w by (simp add: word_less_nat_alt)
    ultimately show ?thesis using False assms ll by auto
  next
    case True
    then have lt: "?n < 128" by (simp add: word_less_nat_alt)
    let ?f = "\<lparr>ff_name = copy_name (replicate 32 0) (short_name ent @ [0]) 0,
      ff_first_cluster = push_bit 16 (ucast (rd16 ent 20)) OR ucast (rd16 ent 26),
      ff_size_bytes = rd32 ent 28, ff_attr = ent ! 11\<rparr>"
    have e: "fat_add_entry ent s = s\<lparr>g_fat_file_count := g_fat_file_count s + 1, g_fat_files := (g_fat_files s)[?n := ?f]\<rparr>"
      using True nm by (simp add: fat_add_entry_def Let_def build_short_name_eq)
    have un: "unat (g_fat_file_count s + 1) = ?n + 1" using lt by (subst unat_add_small) auto
    have "cstr (short_name ent @ [0]) = short_name ent"
      using short_name_bound(2)[of ent] by (simp add: cstr_snoc0 cstr_ident)
    then have "cstr (ff_name ?f) = short_name ent"
      using copy_name_cstr[of "replicate 32 0" 0 "short_name ent @ [0]"] short_name_bound(1)[of ent] by simp
    then show ?thesis
      using True lt w ll un unfolding e
      by (simp add: fat_wf_def fat_listing_def entry_info_def take_Suc_conv_app_nth)
  qed
qed

text \<open>Scanning entries one by one, and what that lists.\<close>

definition scan_entries :: "u8 list list \<Rightarrow> ('v, 's) fs \<Rightarrow> bool \<times> ('v, 's) fs" where
  "scan_entries es s = (\<exists>ent \<in> set es. ent ! 0 = 0,
     fold fat_add_entry (filter plain_file (takeWhile (\<lambda>ent. ent ! 0 \<noteq> 0) es)) s)"

definition files_of :: "u8 list list \<Rightarrow> fat_info list" where
  "files_of es = map entry_info (filter listed (takeWhile (\<lambda>ent. ent ! 0 \<noteq> 0) es))"

lemma scan_entries_append:
  "scan_entries (es @ fs) s =
    (let (fin, s') = scan_entries es s in if fin then (True, s') else scan_entries fs s')"
proof (cases "\<exists>ent \<in> set es. ent ! 0 = 0")
  case False
  then have tw: "takeWhile (\<lambda>ent. ent ! 0 \<noteq> 0) es = es" by (auto simp: takeWhile_eq_all_conv)
  then have "takeWhile (\<lambda>ent. ent ! 0 \<noteq> 0) (es @ fs) = es @ takeWhile (\<lambda>ent. ent ! 0 \<noteq> 0) fs"
    using False by (simp add: takeWhile_append)
  moreover have "scan_entries es s = (False, fold fat_add_entry (filter plain_file es) s)"
    unfolding scan_entries_def tw using False by auto
  moreover have "(\<exists>ent \<in> set (es @ fs). ent ! 0 = 0) = (\<exists>ent \<in> set fs. ent ! 0 = 0)" using False by auto
  ultimately show ?thesis unfolding scan_entries_def[of "es @ fs"] by (simp add: scan_entries_def del: set_append)
qed (auto simp: scan_entries_def takeWhile_append)

lemma take_append_take: "take n (take n a @ b) = take n (a @ b)"
  by (cases "n \<le> length a") simp_all

lemma fold_add_listing:
  "fat_wf s \<Longrightarrow> fat_wf (fold fat_add_entry (filter plain_file es) s) \<and>
   fat_listing (fold fat_add_entry (filter plain_file es) s) = take 128 (fat_listing s @ map entry_info (filter listed es))"
proof (induction es arbitrary: s)
  case Nil
  then show ?case by (auto simp: fat_listing_def fat_wf_def)
next
  case (Cons e es)
  note A = add_entry_listing[OF Cons.prems, of e]
  have "take 128 (take 128 (fat_listing s @ [x]) @ ys) = take 128 (fat_listing s @ x # ys)" for x ys
    using take_append_take[of 128 "fat_listing s @ [x]" ys] by (simp del: take_append)
  then show ?case
    using Cons.IH[of "fat_add_entry e s"] Cons.IH[of s] A Cons.prems
    by (auto simp: listed_def simp del: take_append)
qed

lemma scan_entries_listing:
  "fat_wf s \<Longrightarrow> fat_wf (snd (scan_entries es s)) \<and>
   fat_listing (snd (scan_entries es s)) = take 128 (fat_listing s @ files_of es)"
  using fold_add_listing[of s "takeWhile (\<lambda>ent. ent ! 0 \<noteq> 0) es"] by (simp add: scan_entries_def files_of_def)

lemma scan_sector_entries: "fat_scan_sector sec 0 s = scan_entries (dir_entries sec 0) s"
  using fat_scan_sector_eq[of 0 sec s] by (simp add: scan_entries_def)

section \<open>Cluster chains\<close>

text \<open>The FAT entry of a cluster, and the chains it links: each ends at an end-of-chain mark.\<close>

definition fat_next :: "(nat \<Rightarrow> u8 list) \<Rightarrow> fat32_info \<Rightarrow> u32 \<Rightarrow> u32" where
  "fat_next disk g c =
     rd32 (disk (unat (fi_fat_start_lba g + (c * 4) div 512))) (unat ((c * 4) mod 512)) AND 0x0FFFFFFF"

inductive fat_chain :: "(u32 \<Rightarrow> u32) \<Rightarrow> u32 \<Rightarrow> u32 list \<Rightarrow> bool" for nxt :: "u32 \<Rightarrow> u32" where
  last: "nxt c \<ge> 0x0FFFFFF8 \<Longrightarrow> fat_chain nxt c [c]"
| step: "2 \<le> nxt c \<Longrightarrow> nxt c < 0x0FFFFFF8 \<Longrightarrow> fat_chain nxt (nxt c) cs \<Longrightarrow> fat_chain nxt c (c # cs)"

inductive_cases fat_chain_ConsE: "fat_chain nxt c (d # cs)"
inductive_simps fat_chain_simps: "fat_chain nxt c (d # cs)" "fat_chain nxt c []"

text \<open>A cluster's sectors, and the sectors that must be readable to follow it.\<close>

definition cluster_sectors :: "(nat \<Rightarrow> u8 list) \<Rightarrow> fat32_info \<Rightarrow> u32 \<Rightarrow> u8 list list" where
  "cluster_sectors disk g c =
     map (\<lambda>k. disk (unat (fat_cluster_to_lba g c + of_nat k))) [0..<unat (fi_sectors_per_cluster g)]"

definition cluster_ok :: "(nat \<Rightarrow> bool) \<Rightarrow> fat32_info \<Rightarrow> u32 \<Rightarrow> bool" where
  "cluster_ok ok g c \<longleftrightarrow> ok (unat (fi_fat_start_lba g + (c * 4) div 512)) \<and>
     (\<forall>k < unat (fi_sectors_per_cluster g). ok (unat (fat_cluster_to_lba g c + of_nat k)))"

definition chain_entries :: "(nat \<Rightarrow> u8 list) \<Rightarrow> fat32_info \<Rightarrow> u32 list \<Rightarrow> u8 list list" where
  "chain_entries disk g cs = concat (map (\<lambda>sec. dir_entries sec 0) (concat (map (cluster_sectors disk g) cs)))"

definition chain_bytes :: "(nat \<Rightarrow> u8 list) \<Rightarrow> fat32_info \<Rightarrow> u32 list \<Rightarrow> u8 list" where
  "chain_bytes disk g cs = concat (concat (map (cluster_sectors disk g) cs))"

lemma files_of_append:
  "files_of (es @ fs) = files_of es @ (if \<exists>ent \<in> set es. ent ! 0 = 0 then [] else files_of fs)"
proof (cases "\<exists>ent \<in> set es. ent ! 0 = 0")
  case False
  then have tw: "takeWhile (\<lambda>ent. ent ! 0 \<noteq> 0) es = es" by (auto simp: takeWhile_eq_all_conv)
  have "takeWhile (\<lambda>ent. ent ! 0 \<noteq> 0) (es @ fs) = es @ takeWhile (\<lambda>ent. ent ! 0 \<noteq> 0) fs"
    using False by (simp add: takeWhile_append)
  then show ?thesis using False unfolding files_of_def tw by auto
qed (auto simp: files_of_def takeWhile_append)

lemma fat_wf_blk: "only_blk s s' \<Longrightarrow> fat_wf s' = fat_wf s" "only_blk s s' \<Longrightarrow> fat_listing s' = fat_listing s"
  using only_blkD[of s s'] by (simp_all add: fat_wf_def fat_listing_def)

text \<open>The geometry a boot sector describes, and the plausibility test on it.\<close>

definition fat_geometry :: "u8 list \<Rightarrow> fat32_info" where
  "fat_geometry b = \<lparr>fi_bytes_per_sector = rd16 b 11, fi_sectors_per_cluster = b ! 13,
     fi_reserved_sector_count = rd16 b 14, fi_num_fats = b ! 16, fi_fat_size_sectors = rd32 b 36,
     fi_root_cluster = rd32 b 44, fi_fat_start_lba = ucast (rd16 b 14),
     fi_data_start_lba = ucast (rd16 b 14) + ucast (b ! 16) * rd32 b 36\<rparr>"

definition fat_boot_ok :: "u8 list \<Rightarrow> bool" where
  "fat_boot_ok b \<longleftrightarrow> fat_is_fat32_boot_sector b \<and> b ! 13 \<noteq> 0 \<and> b ! 16 \<noteq> 0 \<and> 2 \<le> rd32 b 44"

lemma fat_boot_okD:
  "fat_boot_ok b \<Longrightarrow> fat_is_fat32_boot_sector b \<and> rd16 b 11 = 512 \<and> b ! 13 \<noteq> 0 \<and> b ! 16 \<noteq> 0 \<and>
     rd32 b 36 \<noteq> 0 \<and> \<not> rd32 b 44 < 2"
  by (auto simp: fat_boot_ok_def fat_is_fat32_boot_sector_def split: if_splits)

context storage_client begin

definition reads :: "('v, 's) fs \<Rightarrow> ('v, 's) fs \<Rightarrow> bool" where
  "reads s s' \<longleftrightarrow> ready s' \<and> blocks s' = blocks s \<and> media s' = media s \<and> fat_ro s s'"

lemma reads_trans: "reads s s1 \<Longrightarrow> reads s1 s' \<Longrightarrow> reads s s'"
  by (simp add: reads_def fat_ro_def)

lemma reads_sector:
  assumes "ready s" "fs_read_sector dr lba s = ((r, bs), s')"
  shows "reads s s'"
  using fs_read[OF assms] only_blkD[OF fs_read(1)[OF assms]] by (simp add: reads_def fat_ro_def)

lemma reads_scan_sector: "ready s \<Longrightarrow> reads s (snd (fat_scan_sector sec off s))"
  using fat_ro_scan_sector[of s sec off] by (auto simp: reads_def ready_def blocks_def media_def fat_ro_def)

lemma get_fat_entry_spec:
  assumes "ready s" "fat_get_fat_entry dr c s = (e, s')"
  shows "only_blk s s'" "ready s'" "blocks s' = blocks s" "media s' = media s"
    "e = (if usable s (unat (fi_fat_start_lba (g_fat s) + (c * 4) div 512))
          then Some (fat_next (blocks s) (g_fat s) c) else None)"
proof -
  obtain ok bs where r: "fs_read_sector dr (fi_fat_start_lba (g_fat s) + (c * 4) div 512) s = ((ok, bs), s')"
    using assms(2) by (auto simp: fat_get_fat_entry_def Let_def split: prod.splits if_splits)
  note R = fs_read[OF assms(1) r]
  show "only_blk s s'" "ready s'" "blocks s' = blocks s" "media s' = media s" by (rule R)+
  show "e = (if usable s (unat (fi_fat_start_lba (g_fat s) + (c * 4) div 512))
          then Some (fat_next (blocks s) (g_fat s) c) else None)"
    using assms(2) r R(5,6) by (auto simp: fat_get_fat_entry_def fat_next_def Let_def)
qed

lemma reads_only_blk:
  assumes "only_blk s s'" "ready s'" "blocks s' = blocks s" "media s' = media s"
  shows "reads s s'"
  using assms(2-) only_blkD[OF assms(1)] by (simp add: reads_def fat_ro_def)

lemma reads_scan_cluster: "ready s \<Longrightarrow> reads s (snd (fat_scan_cluster dr lba0 n k s))"
proof (induction n arbitrary: k s)
  case 0
  then show ?case by (simp add: reads_def fat_ro_def)
next
  case (Suc n)
  obtain ok sec s1 where r: "fs_read_sector dr (lba0 + k) s = ((ok, sec), s1)" by (metis surj_pair)
  note R = reads_sector[OF Suc.prems r]
  then have "ready s1" by (simp add: reads_def)
  note S = reads_scan_sector[OF this, of sec 0]
  then have "ready (snd (fat_scan_sector sec 0 s1))" by (simp add: reads_def)
  note IH = Suc.IH[OF this, of "k + 1"]
  note t1 = reads_trans[OF R S] and t2 = reads_trans[OF reads_trans[OF R S] IH]
  show ?case using r R t1 t2 by (simp add: split_beta)
qed

lemma reads_scan_chain: "ready s \<Longrightarrow> reads s (snd (fat_scan_chain dr budget c s))"
proof (induction budget arbitrary: c s)
  case 0
  then show ?case by (simp add: reads_def fat_ro_def)
next
  case (Suc n)
  obtain r s1 where c: "fat_scan_cluster dr (fat_cluster_to_lba (g_fat s) c)
    (unat (fi_sectors_per_cluster (g_fat s))) 0 s = (r, s1)" by fastforce
  then have R: "reads s s1" using reads_scan_cluster[OF Suc.prems] by (metis snd_conv)
  then have rd: "ready s1" by (simp add: reads_def)
  obtain e s2 where g: "fat_get_fat_entry dr c s1 = (e, s2)" by fastforce
  note G = get_fat_entry_spec[OF rd g]
  have R2: "reads s1 s2" by (rule reads_only_blk[OF G(1-4)])
  note t2 = reads_trans[OF R R2]
  note t3 = reads_trans[OF t2 Suc.IH[OF G(2)]]
  show ?case using c g R t2 t3 by (simp add: Let_def split: option.splits)
qed

lemma reads_mount:
  assumes "ready s"
  shows "reads s (snd (fat_mount_and_scan_root dr s))"
proof -
  obtain ok b s1 where r: "fs_read_sector dr 0 s = ((ok, b), s1)" by (metis surj_pair)
  note R = reads_sector[OF assms r]
  then have rd: "ready s1" by (simp add: reads_def)
  have "reads s1 (s1\<lparr>g_fat := g\<rparr>)" "reads s1 (s1\<lparr>g_fat := g, g_fat_file_count := n, g_fat_files := f\<rparr>)" for g n f
    using rd by (simp_all add: reads_def fat_ro_def ready_def blocks_def media_def)
  moreover have "reads s2 (snd (fat_scan_chain dr 256 c s2))" if "reads s1 s2" for c s2
    using that by (intro reads_scan_chain) (simp add: reads_def)
  ultimately show ?thesis using R r reads_trans
    by (simp add: fat_mount_and_scan_root_def Let_def) (meson reads_trans)
qed

lemma scan_cluster_spec:
  assumes "ready s" "fat_wf s" "\<And>i. i < n \<Longrightarrow> usable s (unat (lba0 + k + of_nat i))"
    "fat_scan_cluster dr lba0 n k s = (r, s')"
  defines "es \<equiv> concat (map (\<lambda>i. dir_entries (blocks s (unat (lba0 + k + of_nat i))) 0) [0..<n])"
  shows "reads s s' \<and> g_fat s' = g_fat s \<and> fat_wf s' \<and> fat_listing s' = take 128 (fat_listing s @ files_of es) \<and>
    r = (if \<exists>ent \<in> set es. ent ! 0 = 0 then Some True else None)"
  using assms(1-4) unfolding es_def
proof (induction n arbitrary: k s)
  case 0
  then show ?case by (auto simp: reads_def fat_ro_def files_of_def fat_listing_def fat_wf_def)
next
  case (Suc n)
  let ?b = "\<lambda>i. blocks s (unat (lba0 + k + of_nat i))"
  obtain ok sec s1 where w: "fs_read_sector dr (lba0 + k) s = ((ok, sec), s1)" by (metis surj_pair)
  note R = fs_read[OF Suc.prems(1) w]
  have ok: ok "sec = ?b 0" using R(5,6) Suc.prems(3)[of 0] by auto
  obtain fin s2 where sc: "fat_scan_sector sec 0 s1 = (fin, s2)" by fastforce
  have S: "fin = (\<exists>ent \<in> set (dir_entries sec 0). ent ! 0 = 0)" "fat_wf s2"
    "fat_listing s2 = take 128 (fat_listing s @ files_of (dir_entries sec 0))"
    using scan_entries_listing[of s1 "dir_entries sec 0"] sc Suc.prems(2) fat_wf_blk[OF R(1)]
    by (auto simp: scan_sector_entries) (auto simp: scan_entries_def)
  have rd: "reads s s2" "g_fat s2 = g_fat s"
    using reads_trans[OF reads_sector[OF Suc.prems(1) w]] reads_scan_sector[OF R(2), of sec 0] sc
      fat_ro_scan_sector[of s1 sec 0] only_blkD[OF R(1)] by auto
  have b: "blocks s2 = blocks s" "media s2 = media s" "ready s2" using rd by (auto simp: reads_def)
  have split: "concat (map (\<lambda>i. dir_entries (?b i) 0) [0..<Suc n]) =
      dir_entries sec 0 @ concat (map (\<lambda>i. dir_entries (blocks s2 (unat (lba0 + (k + 1) + of_nat i))) 0) [0..<n])"
    using ok b by (simp add: upt_conv_Cons map_Suc_upt[symmetric] comp_def add.assoc del: upt_Suc)
  show ?case
  proof (cases fin)
    case True
    then have "r = Some True" "s' = s2" using Suc.prems(4) w ok sc by auto
    then show ?thesis using rd S True unfolding split files_of_append by auto
  next
    case False
    have us: "usable s2 (unat (lba0 + (k + 1) + of_nat i))" if "i < n" for i
      using Suc.prems(3)[of "Suc i"] that b by (simp add: add.assoc)
    have "fat_scan_cluster dr lba0 n (k + 1) s2 = (r, s')" using Suc.prems(4) w ok sc False by simp
    note IH = Suc.IH[OF b(3) S(2) us this]
    then show ?thesis
      using reads_trans[OF rd(1)] rd(2) S False unfolding split files_of_append
      by (auto simp: take_append_take simp del: take_append)
  qed
qed

text \<open>The scan of the root directory lists its files in order, the first 128 of them.\<close>

lemma scan_chain_spec:
  assumes "fat_chain (fat_next (blocks s) (g_fat s)) c cs" "ready s" "fat_wf s" "length cs \<le> budget"
    "\<And>d. d \<in> set cs \<Longrightarrow> cluster_ok (usable s) (g_fat s) d"
    "fat_scan_chain dr budget c s = (r, s')"
  shows "r \<and> reads s s' \<and> g_fat s' = g_fat s \<and> fat_wf s' \<and>
    fat_listing s' = take 128 (fat_listing s @ files_of (chain_entries (blocks s) (g_fat s) cs))"
  using assms
proof (induction cs arbitrary: c s budget rule: list.induct)
  case Nil
  then show ?case by (simp add: fat_chain_simps)
next
  case (Cons d cs)
  have d: "d = c" using Cons.prems(1) by (auto simp: fat_chain_simps)
  obtain b where b: "budget = Suc b" using Cons.prems(4) by (cases budget) auto
  let ?n = "unat (fi_sectors_per_cluster (g_fat s))" and ?nx = "fat_next (blocks s) (g_fat s) c"
  obtain r1 s1 where sc: "fat_scan_cluster dr (fat_cluster_to_lba (g_fat s) c) ?n 0 s = (r1, s1)" by fastforce
  let ?es = "concat (map (\<lambda>sec. dir_entries sec 0) (cluster_sectors (blocks s) (g_fat s) c))"
  have cok: "cluster_ok (usable s) (g_fat s) c" using Cons.prems(5) d by simp
  have es: "?es = concat (map (\<lambda>i. dir_entries (blocks s (unat (fat_cluster_to_lba (g_fat s) c + 0 + of_nat i))) 0) [0..<?n])"
    by (simp add: cluster_sectors_def comp_def)
  have C: "reads s s1" "g_fat s1 = g_fat s" "fat_wf s1" "fat_listing s1 = take 128 (fat_listing s @ files_of ?es)"
    "r1 = (if \<exists>ent \<in> set ?es. ent ! 0 = 0 then Some True else None)"
    using scan_cluster_spec[OF Cons.prems(2,3) _ sc] cok unfolding es by (auto simp: cluster_ok_def)
  have rb: "ready s1" "blocks s1 = blocks s" "media s1 = media s" using C(1) by (auto simp: reads_def)
  have split: "chain_entries (blocks s) (g_fat s) (d # cs) = ?es @ chain_entries (blocks s) (g_fat s) cs"
    by (simp add: chain_entries_def d)
  show ?case
  proof (cases "\<exists>ent \<in> set ?es. ent ! 0 = 0")
    case True
    then have "r" "s' = s1" using Cons.prems(6) sc C(5) b by (auto simp: Let_def)
    then show ?thesis using C True unfolding split files_of_append by auto
  next
    case False
    then have r1: "r1 = None" using C(5) by simp
    obtain e s2 where g: "fat_get_fat_entry dr c s1 = (e, s2)" by fastforce
    note G = get_fat_entry_spec[OF rb(1) g]
    have e: "e = Some ?nx" using G(5) C(2) rb cok by (simp add: cluster_ok_def)
    have R2: "reads s s2" by (rule reads_trans[OF C(1) reads_only_blk[OF G(1-4)]])
    have s2: "g_fat s2 = g_fat s" "fat_wf s2" "fat_listing s2 = take 128 (fat_listing s @ files_of ?es)"
      using C only_blkD[OF G(1)] fat_wf_blk[OF G(1)] by auto
    have sb: "blocks s2 = blocks s" "media s2 = media s" "ready s2" using R2 by (auto simp: reads_def)
    have step: "fat_scan_chain dr budget c s = (if ?nx \<ge> 0x0FFFFFF8 then (True, s2)
        else if ?nx < 2 then (False, s2) else fat_scan_chain dr b ?nx s2)"
      using sc r1 g e b by (simp add: Let_def)
    consider "0x0FFFFFF8 \<le> ?nx" "cs = []"
      | "2 \<le> ?nx" "?nx < 0x0FFFFFF8" "fat_chain (fat_next (blocks s) (g_fat s)) ?nx cs"
      using Cons.prems(1) by (elim fat_chain_ConsE) auto
    then show ?thesis
    proof cases
      case 1
      have "0x0FFFFFF8 \<le> ?nx" using 1 by simp
      then have "r" "s' = s2" using step Cons.prems(6) by simp_all
      then show ?thesis using 1 R2 s2 unfolding split files_of_append by (auto simp: chain_entries_def files_of_def)
    next
      case 2
      have "\<not> ?nx \<ge> 0x0FFFFFF8" "\<not> ?nx < 2" using 2 d by auto
      then have "fat_scan_chain dr b ?nx s2 = (r, s')" using step Cons.prems(6) by simp
      moreover have "fat_chain (fat_next (blocks s2) (g_fat s2)) ?nx cs" using 2 d sb s2 by simp
      ultimately have "r \<and> reads s2 s' \<and> g_fat s' = g_fat s2 \<and> fat_wf s' \<and>
        fat_listing s' = take 128 (fat_listing s2 @ files_of (chain_entries (blocks s2) (g_fat s2) cs))"
        using Cons.IH[of s2 ?nx b] sb s2 Cons.prems(4,5) b by auto
      then show ?thesis
        using reads_trans[OF R2] s2 sb False unfolding split files_of_append
        by (auto simp: take_append_take simp del: take_append)
    qed
  qed
qed

lemma read_cluster_spec:
  assumes "ready s" "\<And>i. i < n \<Longrightarrow> usable s (unat (lba0 + k + of_nat i))" "length acc \<le> want"
    "fat_read_cluster dr lba0 n k want acc s = ((r, bs), s')"
  shows "r \<and> only_blk s s' \<and> ready s' \<and> blocks s' = blocks s \<and> media s' = media s \<and>
    bs = acc @ take (want - length acc) (concat (map (\<lambda>i. blocks s (unat (lba0 + k + of_nat i))) [0..<n]))"
  using assms
proof (induction n arbitrary: k acc s)
  case (Suc n)
  let ?b = "\<lambda>i. blocks s (unat (lba0 + k + of_nat i))"
  show ?case
  proof (cases "length acc < want")
    case False
    then show ?thesis using Suc.prems by simp
  next
    case True
    obtain ok sec s1 where w: "fs_read_sector dr (lba0 + k) s = ((ok, sec), s1)" by (metis surj_pair)
    note R = fs_read[OF Suc.prems(1) w]
    have ok: ok "sec = ?b 0" using R(5,6) Suc.prems(2)[of 0] by auto
    have "length sec = 512" using ok Suc.prems(1) by (auto simp: ready_def blocks_def intro: block_length)
    let ?acc = "acc @ take (min (want - length acc) 512) sec"
    have us: "usable s1 (unat (lba0 + (k + 1) + of_nat i))" if "i < n" for i
      using Suc.prems(2)[of "Suc i"] that R(4) by (simp add: add.assoc)
    have "fat_read_cluster dr lba0 n (k + 1) want ?acc s1 = ((r, bs), s')"
      using Suc.prems(4) w ok True by simp
    moreover have "length ?acc \<le> want" using True \<open>length sec = 512\<close> by simp
    ultimately have IH: "r \<and> only_blk s1 s' \<and> ready s' \<and> blocks s' = blocks s1 \<and> media s' = media s1 \<and>
      bs = ?acc @ take (want - length ?acc) (concat (map (\<lambda>i. blocks s1 (unat (lba0 + (k + 1) + of_nat i))) [0..<n]))"
      using Suc.IH[OF R(2) us] by blast
    have "concat (map ?b [0..<Suc n]) = sec @ concat (map (\<lambda>i. blocks s1 (unat (lba0 + (k + 1) + of_nat i))) [0..<n])"
      using ok R(3) by (simp add: upt_conv_Cons map_Suc_upt[symmetric] comp_def add.assoc del: upt_Suc)
    then show ?thesis using IH R only_blk_trans[OF R(1)] \<open>length sec = 512\<close>
      by (auto simp: min_def simp del: upt_Suc)
  qed
qed simp

text \<open>Reading follows the chain: what comes back is the chain's bytes, cut at the wanted length.\<close>

lemma read_chain_spec:
  assumes "fat_chain (fat_next (blocks s) (g_fat s)) c cs" "ready s" "length cs \<le> budget" "length acc \<le> want"
    "\<And>d. d \<in> set cs \<Longrightarrow> cluster_ok (usable s) (g_fat s) d"
    "fat_read_chain dr budget c want acc s = ((r, bs), s')"
  shows "r \<and> reads s s' \<and> bs = acc @ take (want - length acc) (chain_bytes (blocks s) (g_fat s) cs)"
  using assms
proof (induction cs arbitrary: c s budget acc rule: list.induct)
  case Nil
  then show ?case by (simp add: fat_chain_simps)
next
  case (Cons d cs)
  have d: "d = c" using Cons.prems(1) by (auto simp: fat_chain_simps)
  obtain b where b: "budget = Suc b" using Cons.prems(3) by (cases budget) auto
  let ?n = "unat (fi_sectors_per_cluster (g_fat s))" and ?nx = "fat_next (blocks s) (g_fat s) c"
  let ?cl = "concat (cluster_sectors (blocks s) (g_fat s) c)"
  have split: "chain_bytes (blocks s) (g_fat s) (d # cs) = ?cl @ chain_bytes (blocks s) (g_fat s) cs"
    by (simp add: chain_bytes_def d)
  have cok: "cluster_ok (usable s) (g_fat s) c" using Cons.prems(5) d by simp
  show ?case
  proof (cases "length acc < want")
    case False
    then show ?thesis using Cons.prems b by (simp add: reads_def fat_ro_def)
  next
    case True
    obtain r1 acc1 s1 where rc: "fat_read_cluster dr (fat_cluster_to_lba (g_fat s) c) ?n 0 want acc s = ((r1, acc1), s1)"
      by (metis surj_pair)
    have C: "r1" "only_blk s s1" "ready s1" "blocks s1 = blocks s" "media s1 = media s"
      "acc1 = acc @ take (want - length acc) ?cl"
      using read_cluster_spec[OF Cons.prems(2) _ Cons.prems(4) rc] cok
      by (auto simp: cluster_ok_def cluster_sectors_def)
    have R1: "reads s s1" by (rule reads_only_blk[OF C(2-5)])
    have l1: "length acc1 \<le> want" using C(6) True by simp
    show ?thesis
    proof (cases "length acc1 \<ge> want")
      case True': True
      then have "r" "s' = s1" "bs = acc1" using Cons.prems(6) rc C(1) b True by (auto simp: Let_def)
      moreover have "want - length acc \<le> length ?cl" using True' C(6) True by simp
      ultimately show ?thesis using R1 C(6) unfolding split by simp
    next
      case False
      obtain e s2 where g: "fat_get_fat_entry dr c s1 = (e, s2)" by fastforce
      note G = get_fat_entry_spec[OF C(3) g]
      have gf: "g_fat s1 = g_fat s" "g_fat s2 = g_fat s" using only_blkD[OF C(2)] only_blkD[OF G(1)] by auto
      have e: "e = Some ?nx" using G(5) gf C cok by (simp add: cluster_ok_def)
      have R2: "reads s s2" by (rule reads_trans[OF R1 reads_only_blk[OF G(1-4)]])
      have sb: "blocks s2 = blocks s" "media s2 = media s" "ready s2" using R2 by (auto simp: reads_def)
      have acc1: "acc1 = acc @ ?cl" "length ?cl \<le> want - length acc" using C(6) False by auto
      have step: "fat_read_chain dr budget c want acc s = (if ?nx \<ge> 0x0FFFFFF8 then ((True, acc1), s2)
          else if ?nx < 2 then ((False, acc1), s2) else fat_read_chain dr b ?nx want acc1 s2)"
        using rc C(1) g e b True False by (simp add: Let_def)
      consider "0x0FFFFFF8 \<le> ?nx" "cs = []"
        | "2 \<le> ?nx" "?nx < 0x0FFFFFF8" "fat_chain (fat_next (blocks s) (g_fat s)) ?nx cs"
        using Cons.prems(1) by (elim fat_chain_ConsE) auto
      then show ?thesis
      proof cases
        case 1
        have "0x0FFFFFF8 \<le> ?nx" using 1 by simp
        then have "r" "s' = s2" "bs = acc1" using step Cons.prems(6) by simp_all
        then show ?thesis using 1 R2 acc1 unfolding split by (simp add: chain_bytes_def)
      next
        case 2
        have "\<not> ?nx \<ge> 0x0FFFFFF8" "\<not> ?nx < 2" using 2 d by auto
        then have "fat_read_chain dr b ?nx want acc1 s2 = ((r, bs), s')" using step Cons.prems(6) by simp
        moreover have "fat_chain (fat_next (blocks s2) (g_fat s2)) ?nx cs" using 2 d sb gf by simp
        ultimately have "r \<and> reads s2 s' \<and>
          bs = acc1 @ take (want - length acc1) (chain_bytes (blocks s2) (g_fat s2) cs)"
          using Cons.IH[of s2 ?nx b acc1] sb gf Cons.prems(3,5) b l1 by auto
        then show ?thesis using reads_trans[OF R2] sb gf acc1 unfolding split by simp
      qed
    qed
  qed
qed

text \<open>Mounting, from the state the scan starts in.\<close>

lemma mount_scan:
  assumes "ready s" "usable s 0" "fat_boot_ok (blocks s 0)" "length (g_fat_files s) = 128"
  obtains s1 where "reads s s1" "ready s1" "g_fat s1 = fat_geometry (blocks s 0)" "fat_wf s1" "fat_listing s1 = []"
    "fat_mount_and_scan_root dr s = fat_scan_chain dr 256 (fi_root_cluster (fat_geometry (blocks s 0))) s1"
proof -
  obtain ok b s0 where r: "fs_read_sector dr 0 s = ((ok, b), s0)" by (metis surj_pair)
  note R = fs_read[OF assms(1) r]
  have b: ok "b = blocks s 0" using R(5,6) assms(2) by auto
  define s1 where "s1 = s0\<lparr>g_fat := fat_geometry b, g_fat_file_count := 0,
    g_fat_files := map (\<lambda>f. \<lparr>ff_name = (ff_name f)[0 := 0], ff_first_cluster = 0, ff_size_bytes = 0, ff_attr = 0\<rparr>)
      (g_fat_files s0)\<rparr>"
  have o: "g_fat_files s0 = g_fat_files s" "fat_ro s s0" using only_blkD[OF R(1)] by (simp_all add: fat_ro_def)
  show thesis
  proof (rule that[of s1])
    show "ready s1" using R(2) by (simp add: s1_def ready_def)
    then show "reads s s1" using R(3,4) o(2) by (simp add: reads_def s1_def blocks_def media_def fat_ro_def)
    show "g_fat s1 = fat_geometry (blocks s 0)" "fat_wf s1" "fat_listing s1 = []"
      using b assms(4) o by (simp_all add: s1_def fat_wf_def fat_listing_def)
    show "fat_mount_and_scan_root dr s = fat_scan_chain dr 256 (fi_root_cluster (fat_geometry (blocks s 0))) s1"
      using r b fat_boot_okD[OF assms(3)]
      by (cases "g_fat s0") (simp add: fat_mount_and_scan_root_def Let_def s1_def fat_geometry_def)
  qed
qed

lemma mount_spec:
  assumes "ready s" "usable s 0" "fat_boot_ok (blocks s 0)" "length (g_fat_files s) = 128"
    and ch: "fat_chain (fat_next (blocks s) (fat_geometry (blocks s 0)))
      (fi_root_cluster (fat_geometry (blocks s 0))) cs" "length cs \<le> 256"
    and ok: "\<And>d. d \<in> set cs \<Longrightarrow> cluster_ok (usable s) (fat_geometry (blocks s 0)) d"
    and r: "fat_mount_and_scan_root dr s = (r, s')"
  shows "r \<and> reads s s' \<and> g_fat s' = fat_geometry (blocks s 0) \<and> fat_wf s' \<and>
    fat_listing s' = take 128 (files_of (chain_entries (blocks s) (fat_geometry (blocks s 0)) cs))"
proof -
  obtain s1 where s1: "reads s s1" "ready s1" "g_fat s1 = fat_geometry (blocks s 0)" "fat_wf s1" "fat_listing s1 = []"
    "fat_mount_and_scan_root dr s = fat_scan_chain dr 256 (fi_root_cluster (fat_geometry (blocks s 0))) s1"
    by (rule mount_scan[OF assms(1-4)])
  have b: "blocks s1 = blocks s" "media s1 = media s" using s1(1) by (auto simp: reads_def)
  show ?thesis
    using scan_chain_spec[of s1 "fi_root_cluster (fat_geometry (blocks s 0))" cs 256 r s'] s1 b ch ok r
      reads_trans[OF s1(1)] by auto
qed

text \<open>A volume whose first sector is not a FAT32 boot sector is refused after that one read.\<close>

lemma mount_rejects:
  assumes "ready s" "\<not> fat_is_fat32_boot_sector (blocks s 0)" "fat_mount_and_scan_root dr s = (r, s')"
  shows "\<not> r" "only_blk s s'" "ready s'" "blocks s' = blocks s" "media s' = media s"
proof -
  obtain ok b s1 where w: "fs_read_sector dr 0 s = ((ok, b), s1)" by (metis surj_pair)
  note R = fs_read[OF assms(1) w]
  have "r = False \<and> s' = s1"
    using assms(3) w R(6) assms(2) by (auto simp: fat_mount_and_scan_root_def split: if_splits)
  then show "\<not> r" "only_blk s s'" "ready s'" "blocks s' = blocks s" "media s' = media s" using R by auto
qed

text \<open>A root directory whose first sector cannot be read makes the mount fail.\<close>

lemma mount_dead_root:
  assumes "ready s" "usable s 0" "fat_boot_ok (blocks s 0)" "length (g_fat_files s) = 128"
    and dead: "\<not> usable s (unat (fat_cluster_to_lba (fat_geometry (blocks s 0))
      (fi_root_cluster (fat_geometry (blocks s 0)))))"
  shows "\<not> fst (fat_mount_and_scan_root dr s)"
proof -
  let ?g = "fat_geometry (blocks s 0)"
  obtain s1 where s1: "reads s s1" "ready s1" "g_fat s1 = ?g" "fat_wf s1" "fat_listing s1 = []"
    "fat_mount_and_scan_root dr s = fat_scan_chain dr 256 (fi_root_cluster ?g) s1"
    by (rule mount_scan[OF assms(1-4)])
  obtain n where n: "unat (fi_sectors_per_cluster ?g) = Suc n"
    using fat_boot_okD[OF assms(3)] by (cases "unat (fi_sectors_per_cluster ?g)") (auto simp: fat_geometry_def unat_eq_zero)
  obtain ok b s2 where r: "fs_read_sector dr (fat_cluster_to_lba ?g (fi_root_cluster ?g) + 0) s1 = ((ok, b), s2)"
    by (metis surj_pair)
  have "\<not> ok" using fs_read(5)[OF s1(2) r] dead s1(1) by (simp add: reads_def)
  then have "fst (fat_scan_cluster dr (fat_cluster_to_lba ?g (fi_root_cluster ?g)) (Suc n) 0 s1) = Some False"
    using r by simp
  moreover have "(256 :: nat) = Suc 255" by simp
  ultimately show ?thesis unfolding s1(6)
    using n s1(3) by (simp only: fat_scan_chain.simps(2) Let_def) (simp add: split_beta)
qed

end

end
