(* ===== verification/SimpleFs.thy ===== *)
theory SimpleFs
  imports Fat32
begin

text \<open>
  The SFS of \<open>src/kernel/core/simplefs.c\<close> and the public interface of that file: a superblock
  in sector 0, a table of 64 files, and file data in runs of consecutive sectors handed out by
  a counter that only grows. Out-parameters are part of the results; the bytes stored in a
  caller's buffer are returned as a list. Text sent to the serial port is left out, except for
  \<open>simplefs_list\<close>, which consists of it. The second half defines what a file holds and proves
  the operations against \<open>block_device\<close>.
\<close>

section \<open>The table and the superblock on disk\<close>

text \<open>
  \<open>g_table[i].name\<close> as a \<open>char *\<close>: the bytes of the packed table from there on, so that a name
  with no NUL in its 32 bytes is read on into the fields behind it, as in the C code.
\<close>

definition name_ptr :: "sfs_file list \<Rightarrow> nat \<Rightarrow> u8 list" where
  "name_ptr tbl i = drop 1 (concat (map file_bytes (drop i tbl)))"

text \<open>The inner loop of \<open>sfs_load_table\<close>; the flag is its \<open>return 1\<close>.\<close>

function load_row :: "u8 list \<Rightarrow> nat \<Rightarrow> nat \<Rightarrow> sfs_file list \<Rightarrow> bool \<times> nat \<times> sfs_file list" where
  "load_row sector off idx tbl =
     (if \<not> off + 45 \<le> 512 then (False, idx, tbl)
      else if idx \<ge> 64 then (True, idx, tbl)
      else load_row sector (off + 45) (idx + 1) (tbl[idx := file_of (take 45 (drop off sector))]))"
  by pat_completeness auto
termination
  by (relation "measure (\<lambda>(_, off, _, _). 512 - off)") auto

declare load_row.simps [simp del]

fun sfs_load_table_loop ::
  "('v, 's) blk_driver \<Rightarrow> nat \<Rightarrow> u32 \<Rightarrow> nat \<Rightarrow> ('v, 's) fs \<Rightarrow> bool \<times> ('v, 's) fs" where
  "sfs_load_table_loop dr 0 k idx s = (True, s)"
| "sfs_load_table_loop dr (Suc n) k idx s =
     (let ((ok, sector), s) = fs_read_sector dr (sb_table_lba (g_sb s) + k) s in
      if \<not> ok then (False, s)
      else let (fin, idx, tbl) = load_row sector 0 idx (g_table s); s = s\<lparr>g_table := tbl\<rparr> in
      if fin then (True, s) else sfs_load_table_loop dr n (k + 1) idx s)"

definition sfs_load_table :: "('v, 's) blk_driver \<Rightarrow> ('v, 's) fs \<Rightarrow> bool \<times> ('v, 's) fs" where
  "sfs_load_table dr s = sfs_load_table_loop dr (unat (sb_table_sectors (g_sb s))) 0 0 s"

function store_row :: "sfs_file list \<Rightarrow> nat \<Rightarrow> nat \<Rightarrow> u8 list \<Rightarrow> nat \<times> u8 list" where
  "store_row tbl off idx sector =
     (if \<not> off + 45 \<le> 512 then (idx, sector)
      else if idx \<ge> 64 then (idx, sector)
      else store_row tbl (off + 45) (idx + 1) (blit off (file_bytes (tbl ! idx)) sector))"
  by pat_completeness auto
termination
  by (relation "measure (\<lambda>(_, off, _, _). 512 - off)") auto

declare store_row.simps [simp del]

fun sfs_store_table_loop ::
  "('v, 's) blk_driver \<Rightarrow> nat \<Rightarrow> u32 \<Rightarrow> nat \<Rightarrow> ('v, 's) fs \<Rightarrow> bool \<times> ('v, 's) fs" where
  "sfs_store_table_loop dr 0 k idx s = (True, s)"
| "sfs_store_table_loop dr (Suc n) k idx s =
     (let (idx, sector) = store_row (g_table s) 0 idx (replicate 512 0);
          (ok, s) = sfs_write_sector dr (sb_table_lba (g_sb s) + k) sector s in
      if \<not> ok then (False, s) else sfs_store_table_loop dr n (k + 1) idx s)"

definition sfs_store_table :: "('v, 's) blk_driver \<Rightarrow> ('v, 's) fs \<Rightarrow> bool \<times> ('v, 's) fs" where
  "sfs_store_table dr s = sfs_store_table_loop dr (unat (sb_table_sectors (g_sb s))) 0 0 s"

definition sfs_store_superblock :: "('v, 's) blk_driver \<Rightarrow> ('v, 's) fs \<Rightarrow> bool \<times> ('v, 's) fs" where
  "sfs_store_superblock dr s = sfs_write_sector dr 0 (blit 0 (sb_bytes (g_sb s)) (replicate 512 0)) s"

definition sfs_load_superblock :: "('v, 's) blk_driver \<Rightarrow> ('v, 's) fs \<Rightarrow> bool \<times> ('v, 's) fs" where
  "sfs_load_superblock dr s =
     (let ((ok, sector), s) = fs_read_sector dr 0 s in
      if \<not> ok then (False, s) else (True, s\<lparr>g_sb := sb_of (take 32 sector)\<rparr>))"

definition sfs_format :: "('v, 's) blk_driver \<Rightarrow> ('v, 's) fs \<Rightarrow> bool \<times> ('v, 's) fs" where
  "sfs_format dr s =
     (let s = s\<lparr>g_sb := zero_sb\<lparr>sb_magic := 0x31465353, sb_version := 1, sb_table_lba := 1,
                  sb_table_sectors := 8, sb_data_lba := 1 + 8, sb_next_free_lba := 1 + 8,
                  sb_file_count := 0\<rparr>,
                g_table := replicate 64 zero_file\<rparr>;
          (ok, s) = sfs_store_superblock dr s in
      if \<not> ok then (False, s)
      else let (ok, s) = sfs_store_table dr s in
      if \<not> ok then (False, s) else (True, s))"

definition simplefs_init :: "('v, 's) blk_driver \<Rightarrow> ('v, 's) fs \<Rightarrow> bool \<times> ('v, 's) fs" where
  "simplefs_init dr s =
     (let (ok, b) = bd_init dr (fs_blk s); s = s\<lparr>fs_blk := b\<rparr> in
      if \<not> ok then (False, s)
      else let s = s\<lparr>g_dev := bd_device dr (fs_blk s)\<rparr> in
      if g_dev s = None then (False, s)
      else let (fat, s) = fat_mount_and_scan_root dr s in
      if fat then (True, s\<lparr>g_kind := STORAGE_FS_FAT32\<rparr>)
      else let s = s\<lparr>g_kind := STORAGE_FS_SFS\<rparr>; (ok, s) = sfs_load_superblock dr s in
      if \<not> ok then (False, s)
      else if sb_magic (g_sb s) \<noteq> 0x31465353 \<or> sb_version (g_sb s) \<noteq> 1 \<or>
              sb_table_sectors (g_sb s) = 0 \<or> sb_table_sectors (g_sb s) > 64
      then sfs_format dr s
      else let (ok, s) = sfs_load_table dr s in
           if \<not> ok then sfs_format dr s else (True, s))"

section \<open>The public interface\<close>

text \<open>What \<open>simplefs_list\<close> prints.\<close>

definition simplefs_list :: "('v, 's) fs \<Rightarrow> u8 list" where
  "simplefs_list s =
     (if g_kind s = STORAGE_FS_FAT32 then
        map (\<lambda>c. of_nat (of_char c)) ''[FAT32] files:'' @ [10] @
        concat (map (\<lambda>f. [0x20, 0x2D, 0x20] @ cstr (ff_name f) @ [10])
          (take (unat (g_fat_file_count s)) (g_fat_files s)))
      else map (\<lambda>c. of_nat (of_char c)) ''[SFS] files:'' @ [10] @
        concat (map (\<lambda>i. if sf_used (g_table s ! i) = 0 then []
                         else [0x20, 0x2D, 0x20] @ cstr (name_ptr (g_table s) i) @ [10]) [0..<64]))"

definition sfs_find :: "u8 list option \<Rightarrow> ('v, 's) fs \<Rightarrow> nat option" where
  "sfs_find name s =
     find_index (\<lambda>i. sf_used (g_table s ! i) \<noteq> 0 \<and> str_eq (Some (name_ptr (g_table s) i)) name) [0..<64]"

definition sfs_alloc_entry :: "('v, 's) fs \<Rightarrow> nat option" where
  "sfs_alloc_entry s = find_index (\<lambda>i. sf_used (g_table s ! i) = 0) [0..<64]"

definition simplefs_file_size :: "u8 list option \<Rightarrow> ('v, 's) fs \<Rightarrow> u32 option" where
  "simplefs_file_size name s =
     (if g_dev s = None \<or> name = None then None
      else if g_kind s = STORAGE_FS_FAT32 then
        map_option (\<lambda>i. ff_size_bytes (g_fat_files s ! i)) (fat_find name s)
      else if g_kind s = STORAGE_FS_SFS then
        map_option (\<lambda>i. sf_size_bytes (g_table s ! i)) (sfs_find name s)
      else None)"

definition simplefs_file_count :: "('v, 's) fs \<Rightarrow> u32" where
  "simplefs_file_count s =
     (if g_kind s = STORAGE_FS_FAT32 then g_fat_file_count s
      else if g_kind s = STORAGE_FS_SFS then
        fold (\<lambda>i n. if sf_used (g_table s ! i) \<noteq> 0 then n + 1 else n) [0..<64] 0
      else 0)"

text \<open>The counting loop of \<open>simplefs_file_name_at\<close>: the table index of the used entry number \<open>index\<close>.\<close>

fun nth_used :: "sfs_file list \<Rightarrow> nat list \<Rightarrow> u32 \<Rightarrow> u32 \<Rightarrow> nat option" where
  "nth_used tbl [] n index = None"
| "nth_used tbl (i # is) n index =
     (if sf_used (tbl ! i) = 0 then nth_used tbl is n index
      else if n = index then Some i
      else nth_used tbl is (n + 1) index)"

definition simplefs_file_name_at ::
  "u32 \<Rightarrow> u8 list option \<Rightarrow> u32 \<Rightarrow> ('v, 's) fs \<Rightarrow> bool \<times> u8 list option" where
  "simplefs_file_name_at index out_name out_cap s =
     (case out_name of None \<Rightarrow> (False, out_name)
      | Some out \<Rightarrow>
          if out_cap = 0 then (False, out_name)
          else if g_kind s = STORAGE_FS_FAT32 then
            (if index \<ge> g_fat_file_count s then (False, Some (out[0 := 0]))
             else (True, Some (str_copy out (Some (ff_name (g_fat_files s ! unat index))) (unat out_cap))))
          else case nth_used (g_table s) [0..<64] 0 index of
            Some i \<Rightarrow> (True, Some (str_copy out (Some (name_ptr (g_table s) i)) (unat out_cap)))
          | None \<Rightarrow> (False, Some (out[0 := 0])))"

text \<open>The listing: the bytes stored from \<open>out\<close> on (terminator included) and the returned length.\<close>

definition put_line :: "nat \<Rightarrow> u8 list \<Rightarrow> u8 list \<Rightarrow> u8 list" where
  "put_line cap name w =
     (let w = put_str name cap w in if length w + 1 < cap then w @ [10] else w)"

definition simplefs_list_to_buffer :: "bool \<Rightarrow> u32 \<Rightarrow> ('v, 's) fs \<Rightarrow> u8 list \<times> u32" where
  "simplefs_list_to_buffer out out_cap s =
     (if \<not> out \<or> out_cap = 0 then ([], 0)
      else let cap = unat out_cap;
               w = (if g_kind s = STORAGE_FS_FAT32 then
                      fold (\<lambda>f. put_line cap (ff_name f)) (take (unat (g_fat_file_count s)) (g_fat_files s)) []
                    else fold (\<lambda>i w. if sf_used (g_table s ! i) = 0 then w
                                     else put_line cap (name_ptr (g_table s) i) w) [0..<64] [])
           in (w @ [0], of_nat (length w)))"

text \<open>Sector \<open>k\<close> of the data to write, zero-filled behind its end.\<close>

definition data_sector :: "u8 list \<Rightarrow> u32 \<Rightarrow> u32 \<Rightarrow> u8 list" where
  "data_sector data len k =
     (let remain = len - k * 512; copy = (if remain < 512 then remain else 512)
      in map (\<lambda>i. if i < unat copy then data ! unat (k * 512 + of_nat i) else 0) [0..<512])"

fun write_data ::
  "('v, 's) blk_driver \<Rightarrow> u32 \<Rightarrow> u8 list \<Rightarrow> u32 \<Rightarrow> nat \<Rightarrow> u32 \<Rightarrow> ('v, 's) fs \<Rightarrow> bool \<times> ('v, 's) fs" where
  "write_data dr start_lba data len 0 k s = (True, s)"
| "write_data dr start_lba data len (Suc n) k s =
     (let (ok, s) = sfs_write_sector dr (start_lba + k) (data_sector data len k) s in
      if \<not> ok then (False, s) else write_data dr start_lba data len n (k + 1) s)"

definition simplefs_write_file ::
  "('v, 's) blk_driver \<Rightarrow> u8 list option \<Rightarrow> u8 list option \<Rightarrow> u32 \<Rightarrow> ('v, 's) fs \<Rightarrow> bool \<times> ('v, 's) fs" where
  "simplefs_write_file dr name data len s =
     (if g_kind s = STORAGE_FS_FAT32 then (False, s)
      else case (g_dev s, name, data) of
        (Some _, Some _, Some src) \<Rightarrow>
          if str_len32 name = 0 \<or> str_len32 name \<ge> 32 then (False, s)
          else (case (case sfs_find name s of Some i \<Rightarrow> Some i | None \<Rightarrow> sfs_alloc_entry s) of
            None \<Rightarrow> (False, s)
          | Some idx \<Rightarrow>
              let sectors = (len + 511) div 512;
                  sectors = (if sectors = 0 then 1 else sectors);
                  start_lba = sb_next_free_lba (g_sb s);
                  (ok, s) = write_data dr start_lba src len (unat sectors) 0 s in
              if \<not> ok then (False, s)
              else let f = g_table s ! idx;
                       f = f\<lparr>sf_used := 1, sf_name := str_copy (sf_name f) name 32,
                             sf_start_lba := start_lba, sf_size_bytes := len\<rparr>;
                       s = s\<lparr>g_table := (g_table s)[idx := f],
                             g_sb := (g_sb s)\<lparr>sb_next_free_lba := start_lba + sectors\<rparr>\<rparr>;
                       (ok, s) = sfs_store_table dr s in
              if \<not> ok then (False, s)
              else let (ok, s) = sfs_store_superblock dr s in
              if \<not> ok then (False, s) else (True, s))
      | _ \<Rightarrow> (False, s))"

fun read_data ::
  "('v, 's) blk_driver \<Rightarrow> u32 \<Rightarrow> nat \<Rightarrow> u32 \<Rightarrow> nat \<Rightarrow> u8 list \<Rightarrow> ('v, 's) fs \<Rightarrow> (bool \<times> u8 list) \<times> ('v, 's) fs" where
  "read_data dr start_lba 0 k len acc s = ((True, acc), s)"
| "read_data dr start_lba (Suc n) k len acc s =
     (if \<not> length acc < len then ((True, acc), s)
      else let ((ok, sector), s) = fs_read_sector dr (start_lba + k) s in
      if \<not> ok then ((False, acc), s)
      else read_data dr start_lba n (k + 1) len (acc @ take (min (len - length acc) 512) sector) s)"

record read_result =
  rr_ok :: bool
  rr_len :: "u32 option"
  rr_bytes :: "u8 list"

definition simplefs_read_file ::
  "('v, 's) blk_driver \<Rightarrow> u8 list option \<Rightarrow> bool \<Rightarrow> u32 \<Rightarrow> ('v, 's) fs \<Rightarrow> read_result \<times> ('v, 's) fs" where
  "simplefs_read_file dr name out maxlen s =
     (let fail = \<lparr>rr_ok = False, rr_len = None, rr_bytes = []\<rparr> in
      if g_dev s = None \<or> name = None \<or> \<not> out then (fail, s)
      else if g_kind s = STORAGE_FS_FAT32 then
        (case fat_find name s of None \<Rightarrow> (fail, s)
         | Some idx \<Rightarrow>
             let f = g_fat_files s ! idx;
                 full_len = ff_size_bytes f;
                 want = (if full_len > maxlen then maxlen else full_len);
                 ((ok, bs), s) = fat_read_chain dr 4096 (ff_first_cluster f) (unat want) [] s
             in (\<lparr>rr_ok = ok, rr_len = Some full_len, rr_bytes = bs\<rparr>, s))
      else if g_kind s = STORAGE_FS_SFS then
        (case sfs_find name s of None \<Rightarrow> (fail, s)
         | Some idx \<Rightarrow>
             let f = g_table s ! idx;
                 size = sf_size_bytes f;
                 len = (if size > maxlen then maxlen else size);
                 sectors = (size + 511) div 512;
                 ((ok, bs), s) = read_data dr (sf_start_lba f) (unat sectors) 0 (unat len) [] s
             in (\<lparr>rr_ok = ok, rr_len = Some size, rr_bytes = bs\<rparr>, s))
      else (fail, s))"

definition simplefs_is_mounted :: "('v, 's) fs \<Rightarrow> bool" where
  "simplefs_is_mounted s \<longleftrightarrow> g_kind s \<noteq> STORAGE_FS_NONE"

section \<open>Rows of the table\<close>

text \<open>A table that fits its packed form; used names are terminated inside their 32 bytes.\<close>

definition table_wf :: "sfs_file list \<Rightarrow> bool" where
  "table_wf tbl \<longleftrightarrow> length tbl = 64 \<and> (\<forall>f \<in> set tbl. length (sf_name f) = 32)"

definition row_sector :: "sfs_file list \<Rightarrow> nat \<Rightarrow> u8 list" where
  "row_sector tbl idx = snd (store_row tbl 0 idx (replicate 512 0))"

lemma table_wf_file: "table_wf tbl \<Longrightarrow> i < 64 \<Longrightarrow> length (file_bytes (tbl ! i)) = 45"
  by (auto simp: table_wf_def intro!: length_file_bytes)

lemma blit_blit:
  "k + length a + length b \<le> length s \<Longrightarrow> blit (k + length a) b (blit k a s) = blit k (a @ b) s"
  by (simp add: blit_def ac_simps)

lemma store_row_spec:
  assumes "table_wf tbl" "length sector = 512" "j + n = 11" "idx \<le> 64"
  shows "store_row tbl (45 * j) idx sector =
    (idx + min n (64 - idx), blit (45 * j) (concat (map file_bytes (take n (drop idx tbl)))) sector)"
  using assms
proof (induction n arbitrary: j idx sector)
  case 0
  then show ?case by (subst store_row.simps) (simp add: blit_def)
next
  case (Suc n)
  show ?case
  proof (cases "idx < 64")
    case False
    then have "idx = 64" "length tbl = 64" using Suc.prems by (auto simp: table_wf_def)
    then show ?thesis using Suc.prems by (subst store_row.simps) (simp add: blit_def)
  next
    case True
    let ?b = "file_bytes (tbl ! idx)" and ?c = "concat (map file_bytes (take n (drop (Suc idx) tbl)))"
    have lb: "length ?b = 45" using table_wf_file[OF Suc.prems(1) True] .
    have lc: "length ?c \<le> 45 * n"
    proof -
      have "length ?c = (\<Sum>f \<leftarrow> take n (drop (Suc idx) tbl). length (file_bytes f))" by (simp add: length_concat comp_def)
      also have "\<dots> \<le> (\<Sum>f \<leftarrow> take n (drop (Suc idx) tbl). 45)"
        using Suc.prems(1) by (intro sum_list_mono) (auto simp: table_wf_def length_file_bytes dest!: in_set_takeD in_set_dropD)
      finally show ?thesis by (simp add: sum_list_triv)
    qed
    have step: "store_row tbl (45 * j) idx sector = store_row tbl (45 * Suc j) (Suc idx) (blit (45 * j) ?b sector)"
      using Suc.prems True by (subst store_row.simps) (simp add: add.commute)
    have IH: "store_row tbl (45 * Suc j) (Suc idx) (blit (45 * j) ?b sector) =
      (Suc idx + min n (64 - Suc idx), blit (45 * Suc j) ?c (blit (45 * j) ?b sector))"
      using Suc.prems True lb by (intro Suc.IH) auto
    have "blit (45 * Suc j) ?c (blit (45 * j) ?b sector) = blit (45 * j) (?b @ ?c) sector"
      using blit_blit[of "45 * j" ?b ?c sector] lb lc Suc.prems by (simp add: add.commute)
    moreover have "take (Suc n) (drop idx tbl) = tbl ! idx # take n (drop (Suc idx) tbl)"
      using True Suc.prems(1) by (simp add: table_wf_def Cons_nth_drop_Suc[symmetric])
    ultimately show ?thesis using step IH True by simp
  qed
qed

lemma row_sector_eq:
  "table_wf tbl \<Longrightarrow> idx \<le> 64 \<Longrightarrow>
   row_sector tbl idx = blit 0 (concat (map file_bytes (take 11 (drop idx tbl)))) (replicate 512 0)"
  using store_row_spec[of tbl "replicate 512 0" 0 11 idx] by (simp add: row_sector_def)

lemma store_row_idx:
  "table_wf tbl \<Longrightarrow> idx \<le> 64 \<Longrightarrow> store_row tbl 0 idx (replicate 512 0) = (min 64 (idx + 11), row_sector tbl idx)"
  using store_row_spec[of tbl "replicate 512 0" 0 11 idx] by (auto simp: row_sector_def)

lemma take_drop_concat:
  "\<forall>b \<in> set bs. length b = n \<Longrightarrow> i < length bs \<Longrightarrow> take n (drop (n * i) (concat bs @ r)) = bs ! i"
proof (induction bs arbitrary: i)
  case (Cons b bs)
  then show ?case by (cases i) (simp_all add: drop_append)
qed simp

lemma row_sector_entry:
  assumes "table_wf tbl" "idx + i < 64" "i < 11"
  shows "take 45 (drop (45 * i) (row_sector tbl idx)) = file_bytes (tbl ! (idx + i))"
proof -
  let ?bs = "map file_bytes (take 11 (drop idx tbl))"
  have l: "length tbl = 64" using assms(1) by (simp add: table_wf_def)
  have "\<forall>b \<in> set ?bs. length b = 45"
    using assms(1) by (auto simp: table_wf_def length_file_bytes dest!: in_set_takeD in_set_dropD)
  then have "take 45 (drop (45 * i) (concat ?bs @ drop (length (concat ?bs)) (replicate 512 0))) = ?bs ! i"
    using assms l by (intro take_drop_concat) auto
  then show ?thesis using assms l row_sector_eq[of tbl idx] by (simp add: blit_def)
qed

lemma load_row_spec:
  assumes "table_wf tbl" "length t = 64" "j + n = 11" "idx \<le> 64"
    "\<And>i. i < n \<Longrightarrow> idx + i < 64 \<Longrightarrow> take 45 (drop (45 * (j + i)) sector) = file_bytes (tbl ! (idx + i))"
  shows "load_row sector (45 * j) idx t =
    (64 < idx + n, min 64 (idx + n), take idx t @ take n (drop idx tbl) @ drop (idx + n) t)"
  using assms
proof (induction n arbitrary: j idx t)
  case 0
  then show ?case by (subst load_row.simps) simp
next
  case (Suc n)
  have l: "length tbl = 64" using Suc.prems(1) by (simp add: table_wf_def)
  show ?case
  proof (cases "idx < 64")
    case False
    then have "idx = 64" using Suc.prems by simp
    then show ?thesis using Suc.prems l by (subst load_row.simps) simp
  next
    case True
    have "file_of (take 45 (drop (45 * j) sector)) = tbl ! idx"
      using Suc.prems(5)[of 0] True Suc.prems(1) l by (simp add: file_of_bytes table_wf_def)
    then have step: "load_row sector (45 * j) idx t = load_row sector (45 * Suc j) (Suc idx) (t[idx := tbl ! idx])"
      using Suc.prems True by (subst load_row.simps) (simp add: add.commute)
    have "load_row sector (45 * Suc j) (Suc idx) (t[idx := tbl ! idx]) =
      (64 < Suc idx + n, min 64 (Suc idx + n),
       take (Suc idx) (t[idx := tbl ! idx]) @ take n (drop (Suc idx) tbl) @ drop (Suc idx + n) (t[idx := tbl ! idx]))"
    proof (intro Suc.IH)
      show "take 45 (drop (45 * (Suc j + i)) sector) = file_bytes (tbl ! (Suc idx + i))"
        if "i < n" "Suc idx + i < 64" for i
        using Suc.prems(5)[of "Suc i"] that by simp
    qed (use Suc.prems True in auto)
    moreover have "take (Suc idx) (t[idx := tbl ! idx]) = take idx t @ [tbl ! idx]"
      using True Suc.prems by (simp add: take_Suc_conv_app_nth)
    moreover have "take (Suc n) (drop idx tbl) = tbl ! idx # take n (drop (Suc idx) tbl)"
      using True l by (simp add: Cons_nth_drop_Suc[symmetric])
    ultimately show ?thesis using step by simp
  qed
qed

lemma load_row_sector:
  "table_wf tbl \<Longrightarrow> length t = 64 \<Longrightarrow> idx \<le> 64 \<Longrightarrow>
   load_row (row_sector tbl idx) 0 idx t =
     (64 < idx + 11, min 64 (idx + 11), take idx t @ take 11 (drop idx tbl) @ drop (idx + 11) t)"
  using load_row_spec[of tbl t 0 11 idx "row_sector tbl idx"] row_sector_entry[of tbl idx] by simp

lemma length_row_sector: "table_wf tbl \<Longrightarrow> idx \<le> 64 \<Longrightarrow> length (row_sector tbl idx) = 512"
proof -
  have "length (snd (store_row tbl off idx s)) = length s" if "table_wf tbl" "length s = 512" for off idx s
    using that
  proof (induction tbl off idx s rule: store_row.induct)
    case (1 tbl off idx s)
    then show ?case
      using table_wf_file[OF 1(2), of idx] by (subst store_row.simps) auto
  qed
  then show "table_wf tbl \<Longrightarrow> idx \<le> 64 \<Longrightarrow> length (row_sector tbl idx) = 512"
    by (simp add: row_sector_def)
qed

section \<open>What a file holds\<close>

definition sb_sector :: "sfs_superblock \<Rightarrow> u8 list" where
  "sb_sector sb = blit 0 (sb_bytes sb) (replicate 512 0)"

definition run_bytes :: "(nat \<Rightarrow> u8 list) \<Rightarrow> nat \<Rightarrow> nat \<Rightarrow> u8 list" where
  "run_bytes disk a n = concat (map disk [a..<a + n])"

definition sectors_for :: "nat \<Rightarrow> nat" where
  "sectors_for n = (n + 511) div 512"

definition entry_data :: "(nat \<Rightarrow> u8 list) \<Rightarrow> sfs_file \<Rightarrow> u8 list" where
  "entry_data disk f = take (unat (sf_size_bytes f))
     (run_bytes disk (unat (sf_start_lba f)) (sectors_for (unat (sf_size_bytes f))))"

definition named :: "u8 list \<Rightarrow> sfs_file \<Rightarrow> bool" where
  "named nm f \<longleftrightarrow> sf_used f \<noteq> 0 \<and> cstr (sf_name f) = cstr nm"

text \<open>The contents of the file of a given name, read off the table and the medium.\<close>

definition sfs_data :: "(nat \<Rightarrow> u8 list) \<Rightarrow> sfs_file list \<Rightarrow> u8 list \<Rightarrow> u8 list option" where
  "sfs_data disk tbl nm = map_option (\<lambda>i. entry_data disk (tbl ! i)) (find_index (named nm) tbl)"

text \<open>The layout: superblock, table, and the files below the allocation counter.\<close>

definition file_ok :: "sfs_superblock \<Rightarrow> sfs_file \<Rightarrow> bool" where
  "file_ok sb f \<longleftrightarrow> sf_used f \<noteq> 0 \<longrightarrow> 0 \<in> set (sf_name f) \<and>
     unat (sf_size_bytes f) + 511 < 2 ^ 32 \<and> unat (sb_data_lba sb) \<le> unat (sf_start_lba f) \<and>
     unat (sf_start_lba f) + sectors_for (unat (sf_size_bytes f)) \<le> unat (sb_next_free_lba sb)"

definition sfs_wf :: "sfs_superblock \<Rightarrow> sfs_file list \<Rightarrow> bool" where
  "sfs_wf sb tbl \<longleftrightarrow> table_wf tbl \<and> sb_magic sb = 0x31465353 \<and> sb_version sb = 1 \<and>
     1 \<le> unat (sb_table_lba sb) \<and> 6 \<le> unat (sb_table_sectors sb) \<and> unat (sb_table_sectors sb) \<le> 64 \<and>
     unat (sb_table_lba sb) + unat (sb_table_sectors sb) \<le> unat (sb_data_lba sb) \<and>
     unat (sb_data_lba sb) \<le> unat (sb_next_free_lba sb) \<and> unat (sb_next_free_lba sb) \<le> 2 ^ 28 \<and>
     (\<forall>f \<in> set tbl. file_ok sb f)"

text \<open>The medium agrees with the state in memory.\<close>

definition sfs_synced :: "(nat \<Rightarrow> u8 list) \<Rightarrow> sfs_superblock \<Rightarrow> sfs_file list \<Rightarrow> bool" where
  "sfs_synced disk sb tbl \<longleftrightarrow> disk 0 = sb_sector sb \<and>
     (\<forall>i < unat (sb_table_sectors sb). disk (unat (sb_table_lba sb) + i) = row_sector tbl (min 64 (11 * i)))"

lemma sfs_wf_table: "sfs_wf sb tbl \<Longrightarrow> table_wf tbl" "sfs_wf sb tbl \<Longrightarrow> length tbl = 64"
  by (auto simp: sfs_wf_def table_wf_def)

lemma cstr_append_term: "0 \<in> set a \<Longrightarrow> cstr (a @ b) = cstr a"
  by (induction a) (auto simp: cstr_Cons)

lemma cstr_name_ptr:
  assumes "length tbl = 64" "i < 64" "0 \<in> set (sf_name (tbl ! i))"
  shows "cstr (name_ptr tbl i) = cstr (sf_name (tbl ! i))"
proof -
  have "drop i tbl = tbl ! i # drop (Suc i) tbl" using assms by (simp add: Cons_nth_drop_Suc)
  then have "name_ptr tbl i = sf_name (tbl ! i) @ le32 (sf_start_lba (tbl ! i)) @ le32 (sf_size_bytes (tbl ! i)) @
      le32 (sf_rsvd (tbl ! i)) @ concat (map file_bytes (drop (Suc i) tbl))"
    by (simp add: name_ptr_def file_bytes_def)
  then show ?thesis using assms(3) by (simp add: cstr_append_term)
qed

lemma sfs_find_eq:
  assumes "sfs_wf sb (g_table s)"
  shows "sfs_find (Some nm) s = find_index (named nm) (g_table s)"
proof -
  have l: "length (g_table s) = 64" using assms by (rule sfs_wf_table)
  have "sfs_find (Some nm) s = find_index (\<lambda>i. named nm (g_table s ! i)) [0..<64]"
    unfolding sfs_find_def
  proof (rule find_index_cong)
    fix i :: nat assume "i \<in> set [0..<64]"
    then have "i < 64" "g_table s ! i \<in> set (g_table s)" using l by auto
    then show "(sf_used (g_table s ! i) \<noteq> 0 \<and> str_eq (Some (name_ptr (g_table s) i)) (Some nm)) = named nm (g_table s ! i)"
      using assms cstr_name_ptr[OF l] by (auto simp: sfs_wf_def file_ok_def named_def)
  qed
  then show ?thesis using find_index_nth[of "named nm" "g_table s"] l by simp
qed

lemma alloc_eq: "length (g_table s) = 64 \<Longrightarrow> sfs_alloc_entry s = find_index (\<lambda>f. sf_used f = 0) (g_table s)"
  using find_index_nth[of "\<lambda>f. sf_used f = 0" "g_table s"] by (simp add: sfs_alloc_entry_def)

lemma sectors_word:
  assumes "unat (n :: u32) + 511 < 2 ^ 32"
  shows "unat ((n + 511) div 512) = sectors_for (unat n)"
proof -
  have "unat (n + 511) = unat n + 511" using assms by (subst unat_add_small) auto
  then show ?thesis by (simp add: unat_div sectors_for_def)
qed

lemma length_run: "(\<And>i. length (disk i) = 512) \<Longrightarrow> length (run_bytes disk a n) = 512 * n"
  by (induction n) (simp_all add: run_bytes_def)

lemma run_Suc: "run_bytes disk a (Suc n) = disk a @ run_bytes disk (Suc a) n"
  by (simp add: run_bytes_def upt_conv_Cons del: upt_Suc)

lemma run_cong: "(\<And>i. a \<le> i \<Longrightarrow> i < a + n \<Longrightarrow> d i = d' i) \<Longrightarrow> run_bytes d a n = run_bytes d' a n"
  by (auto simp: run_bytes_def intro!: arg_cong[where f = concat])

text \<open>The sectors written for a buffer hold the buffer.\<close>

lemma nth_concat_blocks:
  "(\<And>i. length (f i) = 512) \<Longrightarrow> m < 512 * n \<Longrightarrow>
   concat (map f [0..<n]) ! m = f (m div 512) ! (m mod 512)"
proof (induction n)
  case (Suc n)
  have l: "length (concat (map f [0..<n])) = 512 * n"
    using Suc.prems(1) by (induction n) simp_all
  show ?case
  proof (cases "m < 512 * n")
    case True
    then show ?thesis using Suc l by (simp add: nth_append)
  next
    case False
    then have q: "m div 512 = n" using Suc.prems(2) by simp
    then have "m mod 512 = m - 512 * n" using minus_mult_div_eq_mod[of m 512] by simp
    with q show ?thesis using False l by (simp add: nth_append)
  qed
qed simp

lemma nth_data_sector:
  assumes "512 * i \<le> unat len" "j < 512"
  shows "data_sector data len (of_nat i) ! j = (if 512 * i + j < unat len then data ! (512 * i + j) else 0)"
proof -
  have b: "512 * i < 2 ^ 32" using assms(1) unat_lt_2p[of len] by simp
  then have ui: "unat (of_nat i * 512 :: u32) = 512 * i"
    by (subst unat_mult_small) (simp_all add: unat_of_nat_small)
  then have le: "of_nat i * 512 \<le> len" using assms(1) by (simp add: word_le_nat_alt)
  have ur: "unat (len - of_nat i * 512) = unat len - 512 * i" using unat_sub_small[OF le] ui by simp
  have cp: "unat (if len - of_nat i * 512 < 512 then len - of_nat i * 512 else 512) = min (unat len - 512 * i) 512"
    using ur by (simp add: word_less_nat_alt min_def)
  have "unat (of_nat i * 512 + of_nat j :: u32) = 512 * i + j" if "512 * i + j < unat len"
    using that ui unat_lt_2p[of len] assms(2) by (subst unat_add_small) (simp_all add: unat_of_nat_small)
  then show ?thesis using assms(2) cp by (auto simp: data_sector_def Let_def)
qed

lemma data_sectors_hold:
  assumes "unat len \<le> length data" "unat len \<le> 512 * n" "\<And>i. i < n \<Longrightarrow> 512 * i \<le> unat len"
  shows "take (unat len) (concat (map (\<lambda>i. data_sector data len (of_nat i)) [0..<n])) = take (unat len) data"
proof (rule nth_equalityI)
  have f: "\<And>i. length (data_sector data len (of_nat i)) = 512" by (simp add: data_sector_def Let_def)
  then have l: "length (concat (map (\<lambda>i. data_sector data len (of_nat i)) [0..<n])) = 512 * n"
    by (induction n) simp_all
  show "length (take (unat len) (concat (map (\<lambda>i. data_sector data len (of_nat i)) [0..<n]))) =
      length (take (unat len) data)" using assms l by simp
  fix m assume "m < length (take (unat len) (concat (map (\<lambda>i. data_sector data len (of_nat i)) [0..<n])))"
  then have m: "m < unat len" by simp
  have i: "m div 512 < n" using m assms(2) by (simp add: less_mult_imp_div_less)
  have "concat (map (\<lambda>i. data_sector data len (of_nat i)) [0..<n]) ! m =
      data_sector data len (of_nat (m div 512)) ! (m mod 512)"
    using nth_concat_blocks[of "\<lambda>i. data_sector data len (of_nat i)" m n] f m assms(2) by simp
  also have "\<dots> = data ! m" using nth_data_sector[OF assms(3)[OF i], of "m mod 512" data] m by simp
  finally show "take (unat len) (concat (map (\<lambda>i. data_sector data len (of_nat i)) [0..<n])) ! m =
      take (unat len) data ! m" using m by simp
qed

lemma file_data_cong:
  assumes "sfs_wf sb tbl" "\<And>j. unat (sb_data_lba sb) \<le> j \<Longrightarrow> j < unat (sb_next_free_lba sb) \<Longrightarrow> d j = d' j"
    "f \<in> set tbl" "sf_used f \<noteq> 0"
  shows "entry_data d f = entry_data d' f"
proof -
  have "file_ok sb f" using assms(1,3) by (simp add: sfs_wf_def)
  then have "run_bytes d (unat (sf_start_lba f)) (sectors_for (unat (sf_size_bytes f))) =
      run_bytes d' (unat (sf_start_lba f)) (sectors_for (unat (sf_size_bytes f)))"
    using assms(2,4) by (intro run_cong) (simp add: file_ok_def)
  then show ?thesis by (simp add: entry_data_def)
qed

lemma sfs_data_cong:
  assumes "sfs_wf sb tbl" "\<And>j. unat (sb_data_lba sb) \<le> j \<Longrightarrow> j < unat (sb_next_free_lba sb) \<Longrightarrow> d j = d' j"
  shows "sfs_data d tbl nm = sfs_data d' tbl nm"
proof (cases "find_index (named nm) tbl")
  case (Some i)
  then have "tbl ! i \<in> set tbl" "sf_used (tbl ! i) \<noteq> 0" by (auto simp: find_index_Some_iff named_def)
  then show ?thesis using Some file_data_cong[OF assms] by (simp add: sfs_data_def)
qed (simp add: sfs_data_def del: find_index_None_iff)

text \<open>The table slot and the run of sectors a write uses, and the state it is to reach.\<close>

definition write_slot :: "sfs_file list \<Rightarrow> u8 list \<Rightarrow> nat option" where
  "write_slot tbl nm = (case find_index (named nm) tbl of Some i \<Rightarrow> Some i
     | None \<Rightarrow> find_index (\<lambda>f. sf_used f = 0) tbl)"

definition write_run :: "u32 \<Rightarrow> u32" where
  "write_run len = (if (len + 511) div 512 = 0 then 1 else (len + 511) div 512)"

definition new_file :: "u8 list \<Rightarrow> u32 \<Rightarrow> u32 \<Rightarrow> sfs_file \<Rightarrow> sfs_file" where
  "new_file nm start len f = f\<lparr>sf_used := 1, sf_name := str_copy (sf_name f) (Some nm) 32,
     sf_start_lba := start, sf_size_bytes := len\<rparr>"

lemma unat_write_run:
  "unat len + 511 < 2 ^ 32 \<Longrightarrow> unat (write_run len) = max 1 (sectors_for (unat len))"
proof -
  assume "unat len + 511 < 2 ^ 32"
  then have "unat ((len + 511) div 512) = sectors_for (unat len)" by (rule sectors_word)
  then show ?thesis by (auto simp: write_run_def word_unat_eq_iff)
qed

lemma write_slotD:
  assumes "write_slot tbl nm = Some i"
  shows "i < length tbl" "named nm (tbl ! i) \<or> sf_used (tbl ! i) = 0" "j < i \<Longrightarrow> \<not> named nm (tbl ! j)"
  using assms by (auto simp: write_slot_def find_index_Some_iff named_def split: option.splits)

lemma find_after_write:
  assumes "write_slot tbl nm = Some i" "named nm f"
  shows "find_index (named nm) (tbl[i := f]) = Some i"
    "cstr nm' \<noteq> cstr nm \<Longrightarrow> find_index (named nm') (tbl[i := f]) = find_index (named nm') tbl"
    "cstr nm' \<noteq> cstr nm \<Longrightarrow> find_index (named nm') tbl \<noteq> Some i"
proof -
  show "find_index (named nm) (tbl[i := f]) = Some i"
    using write_slotD[OF assms(1)] assms(2) by (intro find_index_update_hit) auto
  assume ne: "cstr nm' \<noteq> cstr nm"
  show "find_index (named nm') (tbl[i := f]) = find_index (named nm') tbl"
    using write_slotD(2)[OF assms(1)] assms(2) ne by (intro find_index_update_None) (auto simp: named_def)
  show "find_index (named nm') tbl \<noteq> Some i"
    using write_slotD(2)[OF assms(1)] ne by (auto simp: named_def dest!: find_index_SomeD(2))
qed

lemma named_new_file:
  "length (sf_name f) = 32 \<Longrightarrow> length (cstr nm) < 32 \<Longrightarrow> named nm (new_file nm start len f)"
  by (simp add: named_def new_file_def cstr_str_copy)

lemma sfs_wf_write:
  assumes wf: "sfs_wf sb tbl" and i: "i < 64" and len: "unat len + 511 < 2 ^ 32"
    and room: "unat (sb_next_free_lba sb) + unat (write_run len) \<le> 2 ^ 28"
  shows "sfs_wf (sb\<lparr>sb_next_free_lba := sb_next_free_lba sb + write_run len\<rparr>)
    (tbl[i := new_file nm (sb_next_free_lba sb) len (tbl ! i)])"
proof -
  let ?sb = "sb\<lparr>sb_next_free_lba := sb_next_free_lba sb + write_run len\<rparr>"
  have un: "unat (sb_next_free_lba sb + write_run len) = unat (sb_next_free_lba sb) + unat (write_run len)"
    using room by (subst unat_add_small) auto
  have ln: "length (sf_name (tbl ! i)) = 32" using wf i by (simp add: sfs_wf_def table_wf_def)
  have "0 \<in> set (str_copy (sf_name (tbl ! i)) (Some nm) 32)" using ln by (intro NUL_in_str_copy) auto
  moreover have "sectors_for (unat len) \<le> unat (write_run len)" using unat_write_run[OF len] by simp
  ultimately have "file_ok ?sb (new_file nm (sb_next_free_lba sb) len (tbl ! i))"
    using wf len un by (auto simp: file_ok_def new_file_def sfs_wf_def)
  moreover have "file_ok ?sb f" if "file_ok sb f" for f using that un by (auto simp: file_ok_def)
  moreover have "length (sf_name (new_file nm (sb_next_free_lba sb) len (tbl ! i))) = 32"
    using ln by (simp add: new_file_def)
  ultimately show ?thesis
    using wf un room by (auto simp: sfs_wf_def table_wf_def dest!: set_update_subset_insert[THEN subsetD])
qed

lemma data_after_write:
  assumes wf: "sfs_wf sb tbl" and i: "write_slot tbl nm = Some i" and nm: "length (cstr nm) < 32"
    and len: "unat len + 511 < 2 ^ 32" "unat len \<le> length data"
    and new: "\<And>k. k < unat (write_run len) \<Longrightarrow> d1 (unat (sb_next_free_lba sb) + k) = data_sector data len (of_nat k)"
  defines "tbl' \<equiv> tbl[i := new_file nm (sb_next_free_lba sb) len (tbl ! i)]"
  shows "sfs_data d1 tbl' nm = Some (take (unat len) data)"
proof -
  have il: "i < length tbl" "length (sf_name (tbl ! i)) = 32"
    using write_slotD(1)[OF i] wf by (auto simp: sfs_wf_def table_wf_def)
  note fi = find_after_write[OF i named_new_file[OF il(2) nm, of "sb_next_free_lba sb" len]]
  let ?n = "sectors_for (unat len)"
  have r: "run_bytes d1 (unat (sb_next_free_lba sb)) ?n = concat (map (\<lambda>k. data_sector data len (of_nat k)) [0..<?n])"
  proof -
    have "[unat (sb_next_free_lba sb)..<unat (sb_next_free_lba sb) + ?n] = map (\<lambda>k. unat (sb_next_free_lba sb) + k) [0..<?n]"
      using map_add_upt[of "unat (sb_next_free_lba sb)" ?n] by (simp add: add.commute)
    then show ?thesis using new unat_write_run[OF len(1)] by (auto simp: run_bytes_def intro!: arg_cong[where f = concat])
  qed
  have b: "unat len \<le> 512 * ?n" "512 * k \<le> unat len" if "k < ?n" for k
    using that by (auto simp: sectors_for_def)
  have "take (unat len) (concat (map (\<lambda>k. data_sector data len (of_nat k)) [0..<?n])) = take (unat len) data"
    using len(2) by (intro data_sectors_hold) (auto simp: sectors_for_def)
  then show "sfs_data d1 tbl' nm = Some (take (unat len) data)"
    using fi(1) il r by (simp add: sfs_data_def tbl'_def entry_data_def new_file_def)
qed

lemma others_after_write:
  fixes len :: u32
  assumes wf: "sfs_wf sb tbl" and i: "write_slot tbl nm = Some i" and nm: "length (cstr nm) < 32"
    and old: "\<And>j. j < unat (sb_next_free_lba sb) \<Longrightarrow> d1 j = d j" and ne: "cstr nm' \<noteq> cstr nm"
  defines "tbl' \<equiv> tbl[i := new_file nm (sb_next_free_lba sb) len (tbl ! i)]"
  shows "sfs_data d1 tbl' nm' = sfs_data d tbl nm'"
proof -
  have il: "length (sf_name (tbl ! i)) = 32"
    using write_slotD(1)[OF i] wf by (auto simp: sfs_wf_def table_wf_def)
  note fi = find_after_write[OF i named_new_file[OF il nm, of "sb_next_free_lba sb" len]]
  show ?thesis
  proof (cases "find_index (named nm') tbl")
    case None
    then have "find_index (named nm') tbl' = None" using fi(2)[OF ne] by (simp only: tbl'_def)
    then show ?thesis using None by (simp add: sfs_data_def del: find_index_None_iff)
  next
    case (Some j)
    then have j: "j \<noteq> i" "tbl ! j \<in> set tbl" "sf_used (tbl ! j) \<noteq> 0"
      using fi(3)[OF ne] by (auto simp: find_index_Some_iff named_def)
    then have "entry_data d1 (tbl ! j) = entry_data d (tbl ! j)" using old by (intro file_data_cong[OF wf]) auto
    then show ?thesis using Some fi(2)[OF ne] j(1) by (simp add: sfs_data_def tbl'_def)
  qed
qed

text \<open>When a write succeeds, over the sectors that take a write.\<close>

definition can_write :: "(nat \<Rightarrow> bool) \<Rightarrow> sfs_superblock \<Rightarrow> sfs_file list \<Rightarrow> u8 list \<Rightarrow> u32 \<Rightarrow> bool" where
  "can_write ok sb tbl nm len \<longleftrightarrow> cstr nm \<noteq> [] \<and> length (cstr nm) < 32 \<and> write_slot tbl nm \<noteq> None \<and>
     (\<forall>k < unat (write_run len). ok (unat (sb_next_free_lba sb) + k)) \<and>
     (\<forall>k < unat (sb_table_sectors sb). ok (unat (sb_table_lba sb) + k)) \<and> ok 0"

text \<open>The sectors a write stores the data in, and those it stores the table and superblock in.\<close>

definition run_on :: "(nat \<Rightarrow> bool) \<Rightarrow> sfs_superblock \<Rightarrow> u32 \<Rightarrow> bool" where
  "run_on ok sb len \<longleftrightarrow> (\<forall>k < unat (write_run len). ok (unat (sb_next_free_lba sb) + k))"

definition meta_on :: "(nat \<Rightarrow> bool) \<Rightarrow> sfs_superblock \<Rightarrow> bool" where
  "meta_on ok sb \<longleftrightarrow> (\<forall>k < unat (sb_table_sectors sb). ok (unat (sb_table_lba sb) + k)) \<and> ok 0"

lemma length_entry_data:
  "(\<And>i. length (d i) = 512) \<Longrightarrow> length (entry_data d f) = unat (sf_size_bytes f)"
  by (auto simp: entry_data_def length_run sectors_for_def min_def)

text \<open>A superblock sector is never taken for a FAT32 boot sector, and it decodes to itself.\<close>

lemma sb_sector_not_fat: "\<not> fat_is_fat32_boot_sector (sb_sector sb)"
  by (simp add: fat_is_fat32_boot_sector_def sb_sector_def blit_def nth_append)

lemma sb_of_sector: "sb_of (take 32 (sb_sector sb)) = sb"
  using sb_of_bytes[of sb "[]"] by (simp add: sb_sector_def blit_def)

text \<open>A freshly formatted disk.\<close>

definition fresh_sb :: sfs_superblock where
  "fresh_sb = zero_sb\<lparr>sb_magic := 0x31465353, sb_version := 1, sb_table_lba := 1, sb_table_sectors := 8,
     sb_data_lba := 1 + 8, sb_next_free_lba := 1 + 8, sb_file_count := 0\<rparr>"

lemma fresh_wf: "sfs_wf fresh_sb (replicate 64 zero_file)"
  by (auto simp: sfs_wf_def table_wf_def fresh_sb_def file_ok_def zero_file_def)

lemma fresh_empty: "sfs_data d (replicate 64 zero_file) nm = None"
  by (auto simp: sfs_data_def named_def zero_file_def)

text \<open>What the mount refuses.\<close>

definition sb_invalid :: "sfs_superblock \<Rightarrow> bool" where
  "sb_invalid sb \<longleftrightarrow> sb_magic sb \<noteq> 0x31465353 \<or> sb_version sb \<noteq> 1 \<or> sb_table_sectors sb = 0 \<or> sb_table_sectors sb > 64"

section \<open>The table and the superblock through the device\<close>

context storage_client begin

lemma store_table_loop_spec:
  assumes "ready s" "table_wf (g_table s)" "idx \<le> 64"
    "unat (sb_table_lba (g_sb s)) + unat k + n < 2 ^ 32"
    "sfs_store_table_loop dr n k idx s = (r, s')"
  defines "t0 \<equiv> unat (sb_table_lba (g_sb s)) + unat k"
  shows "only_blk s s' \<and> ready s' \<and> media s' = media s \<and>
    r = (\<forall>i < n. accepts s (t0 + i)) \<and>
    (\<forall>j. j < t0 \<or> t0 + n \<le> j \<longrightarrow> blocks s' j = blocks s j) \<and>
    (r \<longrightarrow> (\<forall>i < n. holds s (t0 + i) \<longrightarrow> blocks s' (t0 + i) = row_sector (g_table s) (min 64 (idx + 11 * i))))"
  using assms(1-5) unfolding t0_def
proof (induction n arbitrary: k idx s)
  case 0
  then show ?case by simp
next
  case (Suc n)
  let ?t = "unat (sb_table_lba (g_sb s)) + unat k"
  obtain ok s1 where w: "sfs_write_sector dr (sb_table_lba (g_sb s) + k) (row_sector (g_table s) idx) s = (ok, s1)"
    by fastforce
  have ul: "unat (sb_table_lba (g_sb s) + k) = ?t" using Suc.prems(4) by (subst unat_add_small) auto
  note W = fs_write[OF Suc.prems(1) length_row_sector[OF Suc.prems(2,3)] w, unfolded ul]
  have step: "sfs_store_table_loop dr (Suc n) k idx s =
      (if \<not> ok then (False, s1) else sfs_store_table_loop dr n (k + 1) (min 64 (idx + 11)) s1)"
    using w store_row_idx[OF Suc.prems(2,3)] by simp
  show ?case
  proof (cases ok)
    case False
    then have "r = False" "s' = s1" using step Suc.prems(5) by auto
    then show ?thesis using W False by (auto intro!: exI[of _ 0])
  next
    case True
    note s1 = only_blkD[OF W(1)]
    have uk: "unat (k + 1) = unat k + 1" using Suc.prems(4) by (subst unat_add_small) auto
    have IH: "only_blk s1 s' \<and> ready s' \<and> media s' = media s1 \<and>
      r = (\<forall>i < n. accepts s1 (?t + 1 + i)) \<and>
      (\<forall>j. j < ?t + 1 \<or> ?t + 1 + n \<le> j \<longrightarrow> blocks s' j = blocks s1 j) \<and>
      (r \<longrightarrow> (\<forall>i < n. holds s1 (?t + 1 + i) \<longrightarrow> blocks s' (?t + 1 + i) = row_sector (g_table s) (min 64 (min 64 (idx + 11) + 11 * i))))"
      using Suc.IH[of s1 "min 64 (idx + 11)" "k + 1"] Suc.prems step True W(2) s1 uk by (simp add: add.assoc)
    have all: "(\<forall>i < Suc n. P (?t + i)) \<longleftrightarrow> P ?t \<and> (\<forall>i < n. P (?t + 1 + i))" for P
      by (auto simp: less_Suc_eq_0_disj)
    have mm: "min 64 (min 64 (idx + 11) + 11 * i) = min 64 (idx + 11 * Suc i)" for i by simp
    have "only_blk s s'" using W(1) IH only_blk_trans by blast
    moreover have "r = (\<forall>i < Suc n. accepts s (?t + i))" using IH W(3,4) True by (simp only: all) simp
    moreover have "\<forall>j. j < ?t \<or> ?t + Suc n \<le> j \<longrightarrow> blocks s' j = blocks s j" using IH W(5) by simp
    moreover have "\<forall>i < Suc n. holds s (?t + i) \<longrightarrow> blocks s' (?t + i) = row_sector (g_table s) (min 64 (idx + 11 * i))" if r
    proof (intro allI impI)
      fix i assume i: "i < Suc n" and h: "holds s (?t + i)"
      show "blocks s' (?t + i) = row_sector (g_table s) (min 64 (idx + 11 * i))"
      proof (cases i)
        case 0
        then show ?thesis using IH W(6) h Suc.prems(3) by simp
      next
        case (Suc j)
        then show ?thesis using IH that i h W(3) by (simp add: mm[of j])
      qed
    qed
    ultimately show ?thesis using IH W(3) by simp
  qed
qed

lemma load_table_loop_spec:
  assumes "ready s" "table_wf tbl" "length (g_table s) = 64" "idx \<le> 64"
    "unat (sb_table_lba (g_sb s)) + unat k + n < 2 ^ 32"
    "\<And>i. i < n \<Longrightarrow> usable s (unat (sb_table_lba (g_sb s)) + unat k + i)"
    "\<And>i. i < n \<Longrightarrow> blocks s (unat (sb_table_lba (g_sb s)) + unat k + i) = row_sector tbl (min 64 (idx + 11 * i))"
    "sfs_load_table_loop dr n k idx s = (r, s')"
  shows "r \<and> ready s' \<and> blocks s' = blocks s \<and> media s' = media s \<and>
    only_blk (s\<lparr>g_table := take idx (g_table s) @ take (11 * n) (drop idx tbl) @ drop (idx + 11 * n) (g_table s)\<rparr>) s'"
  using assms
proof (induction n arbitrary: k idx s)
  case 0
  then show ?case by (auto simp: only_blk_def)
next
  case (Suc n)
  let ?t = "unat (sb_table_lba (g_sb s)) + unat k"
  have l: "length tbl = 64" using Suc.prems(2) by (simp add: table_wf_def)
  obtain ok bs s1 where w: "fs_read_sector dr (sb_table_lba (g_sb s) + k) s = ((ok, bs), s1)" by (metis surj_pair)
  have ul: "unat (sb_table_lba (g_sb s) + k) = ?t" using Suc.prems(5) by (subst unat_add_small) auto
  note R = fs_read[OF Suc.prems(1) w, unfolded ul]
  have ok: ok and bs: "bs = row_sector tbl idx"
    using R(5,6) Suc.prems(6)[of 0] Suc.prems(7)[of 0] Suc.prems(4) by auto
  note s1 = only_blkD[OF R(1)]
  let ?tb = "take idx (g_table s) @ take 11 (drop idx tbl) @ drop (idx + 11) (g_table s)"
  have ltb: "length ?tb = 64" using Suc.prems(3,4) l by (auto simp: min_def)
  have step: "sfs_load_table_loop dr (Suc n) k idx s =
      (if 64 < idx + 11 then (True, s1\<lparr>g_table := ?tb\<rparr>)
       else sfs_load_table_loop dr n (k + 1) (min 64 (idx + 11)) (s1\<lparr>g_table := ?tb\<rparr>))"
    using w ok bs load_row_sector[OF Suc.prems(2,3,4)] s1 by simp
  have keep: "ready (s1\<lparr>g_table := t'\<rparr>)" "blocks (s1\<lparr>g_table := t'\<rparr>) = blocks s" "media (s1\<lparr>g_table := t'\<rparr>) = media s" for t'
    using R by (simp_all add: ready_def blocks_def media_def)
  show ?case
  proof (cases "64 < idx + 11")
    case True
    then have d: "take (11 * Suc n) (drop idx tbl) = take 11 (drop idx tbl)"
      "drop (idx + 11 * Suc n) (g_table s) = drop (idx + 11) (g_table s)"
      using l Suc.prems(3) by auto
    have "r" "s' = s1\<lparr>g_table := ?tb\<rparr>" using step Suc.prems(8) True by auto
    moreover have "only_blk (s\<lparr>g_table := ?tb\<rparr>) (s1\<lparr>g_table := ?tb\<rparr>)"
      by (subst R(1)[unfolded only_blk_def]) (simp add: only_blk_def)
    ultimately show ?thesis using keep d by simp
  next
    case False
    let ?s1 = "s1\<lparr>g_table := ?tb\<rparr>"
    have uk: "unat (k + 1) = unat k + 1" using Suc.prems(5) by (subst unat_add_small) auto
    have IH: "r \<and> ready s' \<and> blocks s' = blocks ?s1 \<and> media s' = media ?s1 \<and>
      only_blk (?s1\<lparr>g_table := take (idx + 11) (g_table ?s1) @ take (11 * n) (drop (idx + 11) tbl) @
        drop (idx + 11 + 11 * n) (g_table ?s1)\<rparr>) s'"
    proof (rule Suc.IH)
      show "sfs_load_table_loop dr n (k + 1) (idx + 11) ?s1 = (r, s')"
        using step Suc.prems(8) False by simp
      show "blocks ?s1 (unat (sb_table_lba (g_sb ?s1)) + unat (k + 1) + i) = row_sector tbl (min 64 (idx + 11 + 11 * i))"
        if "i < n" for i
        using Suc.prems(7)[of "Suc i"] that keep(2) s1 uk by (simp add: add.assoc)
      show "usable ?s1 (unat (sb_table_lba (g_sb ?s1)) + unat (k + 1) + i)" if "i < n" for i
        using Suc.prems(6)[of "Suc i"] that keep(3) s1 uk by (simp add: add.assoc)
    qed (use Suc.prems False keep s1 uk ltb in \<open>simp_all del: length_append\<close>)
    have tb: "take (idx + 11) ?tb @ take (11 * n) (drop (idx + 11) tbl) @ drop (idx + 11 + 11 * n) ?tb =
      take idx (g_table s) @ take (11 * Suc n) (drop idx tbl) @ drop (idx + 11 * Suc n) (g_table s)"
      using False l Suc.prems(3,4) by (simp add: take_add ac_simps)
    have "only_blk (s\<lparr>g_table := t'\<rparr>) (s1\<lparr>g_table := t'\<rparr>)" for t'
      by (subst R(1)[unfolded only_blk_def]) (simp add: only_blk_def)
    then show ?thesis using IH keep tb only_blk_trans by (simp del: mult_Suc_right) blast
  qed
qed

lemma store_table_spec:
  assumes "ready s" "table_wf (g_table s)"
    "unat (sb_table_lba (g_sb s)) + unat (sb_table_sectors (g_sb s)) < 2 ^ 32"
    "sfs_store_table dr s = (r, s')"
  defines "t0 \<equiv> unat (sb_table_lba (g_sb s))" and "n \<equiv> unat (sb_table_sectors (g_sb s))"
  shows "only_blk s s'" "ready s'" "media s' = media s" "r = (\<forall>i < n. accepts s (t0 + i))"
    "j < t0 \<or> t0 + n \<le> j \<Longrightarrow> blocks s' j = blocks s j"
    "r \<Longrightarrow> i < n \<Longrightarrow> holds s (t0 + i) \<Longrightarrow> blocks s' (t0 + i) = row_sector (g_table s) (min 64 (11 * i))"
  using store_table_loop_spec[OF assms(1,2), of 0 0 n r s'] assms(3,4)
  by (auto simp: sfs_store_table_def t0_def n_def)

lemma length_sb_sector: "length (sb_sector sb) = 512"
  by (simp add: sb_sector_def)

lemma store_superblock_spec:
  assumes "ready s" "sfs_store_superblock dr s = (r, s')"
  shows "only_blk s s'" "ready s'" "media s' = media s" "r = accepts s 0"
    "j \<noteq> 0 \<Longrightarrow> blocks s' j = blocks s j" "holds s 0 \<Longrightarrow> blocks s' 0 = sb_sector (g_sb s)"
  using fs_write[OF assms(1) length_sb_sector, of 0 "g_sb s" r s'] assms(2)
  by (simp_all add: sfs_store_superblock_def sb_sector_def)

lemma length_blocks: "ready s \<Longrightarrow> length (blocks s l) = 512"
  by (auto simp: ready_def blocks_def intro: block_length)

lemma length_data_sector: "length (data_sector data len k) = 512"
  by (simp add: data_sector_def Let_def)

lemma write_data_spec:
  assumes "ready s" "unat start + unat k + n < 2 ^ 32" "write_data dr start data len n k s = (r, s')"
  defines "t0 \<equiv> unat start + unat k"
  shows "only_blk s s' \<and> ready s' \<and> media s' = media s \<and> r = (\<forall>i < n. accepts s (t0 + i)) \<and>
    (\<forall>j. j < t0 \<or> t0 + n \<le> j \<longrightarrow> blocks s' j = blocks s j) \<and>
    (r \<longrightarrow> (\<forall>i < n. holds s (t0 + i) \<longrightarrow> blocks s' (t0 + i) = data_sector data len (k + of_nat i)))"
  using assms(1-3) unfolding t0_def
proof (induction n arbitrary: k s)
  case 0
  then show ?case by simp
next
  case (Suc n)
  let ?t = "unat start + unat k"
  obtain ok s1 where w: "sfs_write_sector dr (start + k) (data_sector data len k) s = (ok, s1)" by fastforce
  have ul: "unat (start + k) = ?t" using Suc.prems(2) by (subst unat_add_small) auto
  note W = fs_write[OF Suc.prems(1) length_data_sector w, unfolded ul]
  show ?case
  proof (cases ok)
    case False
    then have "r = False" "s' = s1" using w Suc.prems(3) by auto
    then show ?thesis using W False by (auto intro!: exI[of _ 0])
  next
    case True
    have uk: "unat (k + 1) = unat k + 1" using Suc.prems(2) by (subst unat_add_small) auto
    have IH: "only_blk s1 s' \<and> ready s' \<and> media s' = media s1 \<and> r = (\<forall>i < n. accepts s1 (?t + 1 + i)) \<and>
      (\<forall>j. j < ?t + 1 \<or> ?t + 1 + n \<le> j \<longrightarrow> blocks s' j = blocks s1 j) \<and>
      (r \<longrightarrow> (\<forall>i < n. holds s1 (?t + 1 + i) \<longrightarrow> blocks s' (?t + 1 + i) = data_sector data len (k + 1 + of_nat i)))"
      using Suc.IH[of s1 "k + 1"] Suc.prems w True W(2) uk by (simp add: add.assoc)
    have all: "(\<forall>i < Suc n. P (?t + i)) \<longleftrightarrow> P ?t \<and> (\<forall>i < n. P (?t + 1 + i))" for P
      by (auto simp: less_Suc_eq_0_disj)
    have "only_blk s s'" using W(1) IH only_blk_trans by blast
    moreover have "r = (\<forall>i < Suc n. accepts s (?t + i))" using IH W(3,4) True by (simp only: all) simp
    moreover have "\<forall>j. j < ?t \<or> ?t + Suc n \<le> j \<longrightarrow> blocks s' j = blocks s j" using IH W(5) by simp
    moreover have "\<forall>i < Suc n. holds s (?t + i) \<longrightarrow> blocks s' (?t + i) = data_sector data len (k + of_nat i)" if r
    proof (intro allI impI)
      fix i assume i: "i < Suc n" and h: "holds s (?t + i)"
      show "blocks s' (?t + i) = data_sector data len (k + of_nat i)"
      proof (cases i)
        case 0
        then show ?thesis using IH W(6) h by simp
      next
        case (Suc j)
        then show ?thesis using IH that i h W(3) by (simp add: add.assoc)
      qed
    qed
    ultimately show ?thesis using IH W(3) by simp
  qed
qed

lemma read_data_spec:
  assumes "ready s" "unat start + unat k + n < 2 ^ 32"
    "\<And>i. i < n \<Longrightarrow> usable s (unat start + unat k + i)"
    "read_data dr start n k len acc s = ((r, bs), s')" "length acc \<le> len"
  shows "r \<and> only_blk s s' \<and> ready s' \<and> blocks s' = blocks s \<and> media s' = media s \<and>
    bs = acc @ take (len - length acc) (run_bytes (blocks s) (unat start + unat k) n)"
  using assms
proof (induction n arbitrary: k acc s)
  case 0
  then show ?case by (simp add: run_bytes_def)
next
  case (Suc n)
  let ?t = "unat start + unat k"
  show ?case
  proof (cases "length acc < len")
    case False
    then show ?thesis using Suc.prems by simp
  next
    case True
    obtain ok sec s1 where w: "fs_read_sector dr (start + k) s = ((ok, sec), s1)" by (metis surj_pair)
    have ul: "unat (start + k) = ?t" using Suc.prems(2) by (subst unat_add_small) auto
    note R = fs_read[OF Suc.prems(1) w, unfolded ul]
    have ok: ok and sec: "sec = blocks s ?t" using R(5,6) Suc.prems(3)[of 0] by auto
    have l: "length sec = 512" using length_blocks[OF Suc.prems(1)] sec by simp
    let ?acc = "acc @ take (min (len - length acc) 512) sec"
    have uk: "unat (k + 1) = unat k + 1" using Suc.prems(2) by (subst unat_add_small) auto
    have IH: "r \<and> only_blk s1 s' \<and> ready s' \<and> blocks s' = blocks s1 \<and> media s' = media s1 \<and>
      bs = ?acc @ take (len - length ?acc) (run_bytes (blocks s1) (unat start + unat (k + 1)) n)"
    proof (rule Suc.IH)
      show "usable s1 (unat start + unat (k + 1) + i)" if "i < n" for i
        using Suc.prems(3)[of "Suc i"] that R(4) uk by simp
    qed (use Suc.prems w True ok R uk l in auto)
    moreover have "?acc @ take (len - length ?acc) (run_bytes (blocks s) (Suc ?t) n) =
        acc @ take (len - length acc) (run_bytes (blocks s) ?t (Suc n))"
      using l sec by (auto simp: run_Suc min_def)
    ultimately show ?thesis using R uk only_blk_trans by auto
  qed
qed

text \<open>The whole of \<open>simplefs_write_file\<close> on a mounted SFS, device errors included.\<close>

lemma write_file_spec:
  assumes s: "ready s" "g_kind s = STORAGE_FS_SFS" and wf: "sfs_wf (g_sb s) (g_table s)"
    and len: "unat len + 511 < 2 ^ 32" "unat len \<le> length data"
    and r: "simplefs_write_file dr (Some nm) (Some data) len s = (r, s')"
  shows "ready s' \<and> media s' = media s \<and> g_kind s' = g_kind s \<and> sfs_wf (g_sb s') (g_table s') \<and>
    r = can_write (accepts s) (g_sb s) (g_table s) nm len \<and>
    (\<forall>nm'. cstr nm' \<noteq> cstr nm \<longrightarrow>
       sfs_data (blocks s') (g_table s') nm' = sfs_data (blocks s) (g_table s) nm') \<and>
    (run_on (holds s) (g_sb s) len \<longrightarrow> sfs_data (blocks s') (g_table s') nm \<in>
      {sfs_data (blocks s) (g_table s) nm, Some (take (unat len) data)}) \<and>
    (r \<longrightarrow> (run_on (holds s) (g_sb s) len \<longrightarrow> sfs_data (blocks s') (g_table s') nm = Some (take (unat len) data)) \<and>
       (meta_on (holds s) (g_sb s) \<longrightarrow> sfs_synced (blocks s') (g_sb s') (g_table s')) \<and>
       g_sb s' = (g_sb s)\<lparr>sb_next_free_lba := sb_next_free_lba (g_sb s) + write_run len\<rparr> \<and>
       unat (sb_next_free_lba (g_sb s')) = unat (sb_next_free_lba (g_sb s)) + unat (write_run len) \<and>
       (\<exists>i. write_slot (g_table s) nm = Some i \<and>
          g_table s' = (g_table s)[i := new_file nm (sb_next_free_lba (g_sb s)) len (g_table s ! i)]))"
proof -
  let ?sb = "g_sb s" and ?tbl = "g_table s"
  let ?next = "unat (sb_next_free_lba ?sb)" and ?R = "unat (write_run len)"
  obtain dv where dv: "g_dev s = Some dv" using s(1) handle_dev by (auto simp: ready_def)
  have lt: "length ?tbl = 64" using wf by (rule sfs_wf_table)
  have slot: "(case sfs_find (Some nm) s of Some i \<Rightarrow> Some i | None \<Rightarrow> sfs_alloc_entry s) = write_slot ?tbl nm"
    unfolding write_slot_def sfs_find_eq[OF wf] alloc_eq[OF lt] by (rule refl)
  show ?thesis
  proof (cases "cstr nm \<noteq> [] \<and> length (cstr nm) < 32 \<and> write_slot ?tbl nm \<noteq> None")
    case False
    then have "r = False" "s' = s"
      using r s(2) dv slot str_len32_valid_name[of nm] by (auto simp: simplefs_write_file_def split: if_splits)
    then show ?thesis using False s wf by (auto simp: can_write_def)
  next
    case True
    then obtain i where i: "write_slot ?tbl nm = Some i" by auto
    have len_ok: "\<not> (str_len32 (Some nm) = 0 \<or> str_len32 (Some nm) \<ge> 32)"
      using True str_len32_valid_name[of nm] by blast
    let ?f = "new_file nm (sb_next_free_lba ?sb) len (?tbl ! i)"
    let ?tbl' = "?tbl[i := ?f]" and ?sb' = "?sb\<lparr>sb_next_free_lba := sb_next_free_lba ?sb + write_run len\<rparr>"
    obtain ok1 s1 where w1: "write_data dr (sb_next_free_lba ?sb) data len ?R 0 s = (ok1, s1)" by fastforce
    have nx: "?next \<le> 2 ^ 28" using wf by (simp add: sfs_wf_def)
    have R: "1 \<le> ?R" "?R \<le> 2 ^ 23" using unat_write_run[OF len(1)] len(1) by (auto simp: sectors_for_def)
    have W1: "only_blk s s1" "ready s1" "media s1 = media s" "ok1 = (\<forall>k < ?R. accepts s (?next + k))"
      "\<And>j. j < ?next \<or> ?next + ?R \<le> j \<Longrightarrow> blocks s1 j = blocks s j"
      "ok1 \<Longrightarrow> k < ?R \<Longrightarrow> holds s (?next + k) \<Longrightarrow> blocks s1 (?next + k) = data_sector data len (of_nat k)" for k
      using write_data_spec[OF s(1) _ w1] nx R by auto
    show ?thesis
    proof (cases ok1)
      case False
      then have "r = False" "s' = s1"
        using r s(2) dv slot len_ok i w1 by (auto simp: simplefs_write_file_def write_run_def Let_def)
      moreover have "sfs_data (blocks s1) ?tbl nm' = sfs_data (blocks s) ?tbl nm'" for nm'
        using W1(5) by (intro sfs_data_cong[OF wf]) auto
      moreover have "\<not> can_write (accepts s) ?sb ?tbl nm len" using False W1(4) by (auto simp: can_write_def)
      ultimately show ?thesis using W1(2,3) only_blkD[OF W1(1)] s wf by simp
    next
      case True1: True
      have "\<And>k. k < ?R \<Longrightarrow> accepts s (?next + k)" using True1 W1(4) by blast
      from this[of "?R - 1"] have "accepts s (?next + (?R - 1))" using R(1) by simp
      then have "?next + (?R - 1) < 2 ^ 28" unfolding media_def by (rule takes_high)
      then have room: "?next + ?R \<le> 2 ^ 28" using R(1) by linarith
      then have un: "unat (sb_next_free_lba ?sb + write_run len) = ?next + ?R" by (subst unat_add_small) auto
      define s2 where "s2 = s1\<lparr>g_table := ?tbl', g_sb := ?sb'\<rparr>"
      have s2: "ready s2" "blocks s2 = blocks s1" "media s2 = media s" "g_kind s2 = g_kind s"
        "g_sb s2 = ?sb'" "g_table s2 = ?tbl'"
        using W1(2,3) only_blkD[OF W1(1)] by (simp_all add: s2_def ready_def blocks_def media_def)
      have wf': "sfs_wf ?sb' ?tbl'"
        using sfs_wf_write[OF wf _ len(1) room, of i nm] write_slotD(1)[OF i] lt by simp
      obtain ok3 s3 where w3: "sfs_store_table dr s2 = (ok3, s3)" by fastforce
      obtain ok4 s4 where w4: "sfs_store_superblock dr s3 = (ok4, s4)" by fastforce
      have e: "r = (ok3 \<and> ok4)" "s' = (if ok3 then s4 else s3)"
        using r s(2) dv slot len_ok i w1 True1 w3 w4 only_blkD[OF W1(1)]
        by (auto simp: simplefs_write_file_def write_run_def Let_def s2_def new_file_def split: if_splits)
      have tb: "unat (sb_table_lba (g_sb s2)) + unat (sb_table_sectors (g_sb s2)) < 2 ^ 32"
        using wf by (simp add: s2 sfs_wf_def)
      have tw: "table_wf (g_table s2)" using wf' s2 by (simp add: sfs_wf_def)
      note T = store_table_spec[OF s2(1) tw tb w3, unfolded s2]
      note S = store_superblock_spec[OF T(2) w4]
      have s': "ready s'" "media s' = media s" "g_sb s' = ?sb'" "g_table s' = ?tbl'" "g_kind s' = g_kind s"
        using T S e(2) only_blkD[OF T(1)] only_blkD[OF S(1)] s2 by auto
      have "blocks s' j = blocks s1 j" if "unat (sb_data_lba ?sb') \<le> j" for j
        using that e(2) T(5)[of j] S(5)[of j] wf s2(2) by (auto simp: sfs_wf_def)
      then have cong: "sfs_data (blocks s') ?tbl' nm' = sfs_data (blocks s1) ?tbl' nm'" for nm'
        by (intro sfs_data_cong[OF wf']) auto
      have D: "run_on (holds s) ?sb len \<Longrightarrow> sfs_data (blocks s1) ?tbl' nm = Some (take (unat len) data)"
        using data_after_write[OF wf i _ len, of "blocks s1"] True W1(6) True1 by (simp add: run_on_def)
      have O: "cstr nm' \<noteq> cstr nm \<Longrightarrow> sfs_data (blocks s1) ?tbl' nm' = sfs_data (blocks s) ?tbl nm'" for nm'
        using others_after_write[OF wf i, of "blocks s1" "blocks s"] True W1(5) by simp
      have "sfs_synced (blocks s') ?sb' ?tbl'" if r "meta_on (holds s) ?sb"
      proof -
        have ok: ok3 ok4 using that e(1) by auto
        have t1: "1 \<le> unat (sb_table_lba ?sb)" using wf by (simp add: sfs_wf_def)
        have h: "holds s 0" "k < unat (sb_table_sectors ?sb) \<Longrightarrow> holds s (unat (sb_table_lba ?sb) + k)" for k
          using that(2) by (simp_all add: meta_on_def)
        have "blocks s4 0 = sb_sector ?sb'" using S(6) ok h(1) T(3) only_blkD[OF T(1)] s2 by simp
        moreover have "blocks s4 (unat (sb_table_lba ?sb) + k) = row_sector ?tbl' (min 64 (11 * k))"
          if "k < unat (sb_table_sectors ?sb)" for k
          using T(6)[of k] that h(2)[of k] S(5) t1 ok by simp
        ultimately show ?thesis using ok e(2) by (simp add: sfs_synced_def)
      qed
      moreover have "r = can_write (accepts s) ?sb ?tbl nm len"
        using e(1) T(4) S(4) T(3) True True1 W1(4) by (simp add: can_write_def)
      ultimately show ?thesis using s' wf' cong D O un i by simp
    qed
  qed
qed

lemma read_file_spec:
  assumes s: "ready s" "g_kind s = STORAGE_FS_SFS" and wf: "sfs_wf (g_sb s) (g_table s)"
    and us: "\<And>j. unat (sb_data_lba (g_sb s)) \<le> j \<Longrightarrow> j < unat (sb_next_free_lba (g_sb s)) \<Longrightarrow> usable s j"
    and r: "simplefs_read_file dr (Some nm) True maxlen s = (res, s')"
  shows "only_blk s s' \<and> ready s' \<and> blocks s' = blocks s \<and> media s' = media s \<and>
    (case sfs_data (blocks s) (g_table s) nm of None \<Rightarrow> \<not> rr_ok res
     | Some d \<Rightarrow> rr_ok res \<and> rr_len res = Some (of_nat (length d)) \<and> rr_bytes res = take (unat maxlen) d)"
proof -
  obtain dv where dv: "g_dev s = Some dv" using s(1) handle_dev by (auto simp: ready_def)
  note fi = sfs_find_eq[OF wf, of nm]
  show ?thesis
  proof (cases "find_index (named nm) (g_table s)")
    case None
    then show ?thesis using r dv s fi
      by (auto simp: simplefs_read_file_def sfs_data_def Let_def simp del: find_index_None_iff)
  next
    case (Some i)
    let ?f = "g_table s ! i"
    let ?size = "sf_size_bytes ?f" and ?a = "unat (sf_start_lba ?f)"
    let ?len = "if ?size > maxlen then maxlen else ?size" and ?n = "sectors_for (unat ?size)"
    have f: "?f \<in> set (g_table s)" "sf_used ?f \<noteq> 0" using Some by (auto simp: find_index_Some_iff named_def)
    then have ok: "unat ?size + 511 < 2 ^ 32" "unat (sb_data_lba (g_sb s)) \<le> ?a"
      "?a + ?n \<le> unat (sb_next_free_lba (g_sb s))" using wf by (auto simp: sfs_wf_def file_ok_def)
    have nx: "unat (sb_next_free_lba (g_sb s)) \<le> 2 ^ 28" using wf by (simp add: sfs_wf_def)
    have n: "unat ((?size + 511) div 512) = ?n" by (rule sectors_word[OF ok(1)])
    obtain r1 bs where rd: "read_data dr (sf_start_lba ?f) ?n 0 (unat ?len) [] s = ((r1, bs), s')"
      and res: "res = \<lparr>rr_ok = r1, rr_len = Some ?size, rr_bytes = bs\<rparr>"
      using r dv s fi Some n
      by (auto simp: simplefs_read_file_def Let_def split: prod.splits)
    have R: "r1" "only_blk s s'" "ready s'" "blocks s' = blocks s" "media s' = media s"
      "bs = take (unat ?len) (run_bytes (blocks s) ?a ?n)"
      using read_data_spec[OF s(1) _ _ rd] us ok nx by auto
    have len: "unat ?len = min (unat maxlen) (unat ?size)" by (auto simp: word_less_nat_alt min_def)
    have "bs = take (unat maxlen) (entry_data (blocks s) ?f)"
      unfolding R(6) len entry_data_def by (simp add: min.commute)
    then show ?thesis
      using R res Some length_entry_data[of "blocks s" ?f] length_blocks[OF s(1)]
      by (simp add: sfs_data_def)
  qed
qed

text \<open>A file whose first sector cannot be read.\<close>

lemma read_file_dead:
  assumes s: "ready s" "g_kind s = STORAGE_FS_SFS" and wf: "sfs_wf (g_sb s) (g_table s)"
    and i: "find_index (named nm) (g_table s) = Some i" and n: "sf_size_bytes (g_table s ! i) \<noteq> 0" "maxlen \<noteq> 0"
    and dead: "\<not> usable s (unat (sf_start_lba (g_table s ! i)))"
    and r: "simplefs_read_file dr (Some nm) True maxlen s = (res, s')"
  shows "\<not> rr_ok res"
proof -
  let ?f = "g_table s ! i"
  let ?size = "sf_size_bytes ?f"
  let ?len = "if ?size > maxlen then maxlen else ?size"
  obtain dv where dv: "g_dev s = Some dv" using s(1) handle_dev by (auto simp: ready_def)
  have f: "?f \<in> set (g_table s)" "sf_used ?f \<noteq> 0" using i by (auto simp: find_index_Some_iff named_def)
  then have sz: "unat ?size + 511 < 2 ^ 32" using wf by (auto simp: sfs_wf_def file_ok_def)
  have "0 < unat ?size" "0 < unat maxlen" using n by (simp_all add: unat_gt_0)
  then have "sectors_for (unat ?size) \<noteq> 0" "0 < unat ?len" by (auto simp: sectors_for_def)
  then obtain k where k: "unat ((?size + 511) div 512) = Suc k" using sectors_word[OF sz] by (metis not0_implies_Suc)
  obtain ok sec s1 where w: "fs_read_sector dr (sf_start_lba ?f) s = ((ok, sec), s1)" by (metis surj_pair)
  have "\<not> ok" using fs_read(5)[OF s(1) w] dead by simp
  then have "read_data dr (sf_start_lba ?f) (Suc k) 0 (unat ?len) [] s = ((False, []), s1)"
    using w \<open>0 < unat ?len\<close> by simp
  then show ?thesis
    using r s dv sfs_find_eq[OF wf, of nm] i k by (auto simp: simplefs_read_file_def Let_def simp del: read_data.simps)
qed

lemma load_table_spec:
  assumes "ready s" "length (g_table s) = 64" "sfs_wf (g_sb s) tbl" "sfs_synced (blocks s) (g_sb s) tbl"
    "\<And>i. i < unat (sb_table_sectors (g_sb s)) \<Longrightarrow> usable s (unat (sb_table_lba (g_sb s)) + i)"
    "sfs_load_table dr s = (r, s')"
  shows "r" "ready s'" "blocks s' = blocks s" "media s' = media s" "only_blk (s\<lparr>g_table := tbl\<rparr>) s'"
proof -
  let ?n = "unat (sb_table_sectors (g_sb s))"
  have wf: "table_wf tbl" "length tbl = 64" "6 \<le> ?n" "unat (sb_table_lba (g_sb s)) + ?n < 2 ^ 32"
    using assms(3) by (auto simp: sfs_wf_def table_wf_def)
  have "take (11 * ?n) tbl @ drop (11 * ?n) (g_table s) = tbl" using wf assms(2) by simp
  then show "r" "ready s'" "blocks s' = blocks s" "media s' = media s" "only_blk (s\<lparr>g_table := tbl\<rparr>) s'"
    using load_table_loop_spec[OF assms(1) wf(1) assms(2), of 0 0 ?n r s'] wf assms(4-6)
    by (auto simp: sfs_load_table_def sfs_synced_def)
qed

lemma fat_mount_sfs:
  assumes "ready s" "blocks s 0 = sb_sector sb" "fat_mount_and_scan_root dr s = (r, s')"
  shows "\<not> r" "only_blk s s'" "ready s'" "blocks s' = blocks s" "media s' = media s"
  using mount_rejects[OF assms(1) _ assms(3)] sb_sector_not_fat[of sb] assms(2) by simp_all

text \<open>Mounting a disk on which an SFS was left: the same superblock and table come back.\<close>

lemma init_remount:
  assumes inv: "inv (fs_blk s)" and t: "length (g_table s) = 64"
    and wf: "sfs_wf sb tbl" and syn: "sfs_synced (block (fs_blk s)) sb tbl"
    and us: "md_reads (med (fs_blk s)) 0" "\<And>i. i < unat (sb_table_sectors sb) \<Longrightarrow> md_reads (med (fs_blk s)) (unat (sb_table_lba sb) + i)"
    and r: "simplefs_init dr s = (r, s')"
  shows "r \<and> ready s' \<and> g_kind s' = STORAGE_FS_SFS \<and> g_sb s' = sb \<and> g_table s' = tbl \<and>
    blocks s' = block (fs_blk s) \<and> media s' = med (fs_blk s)"
proof -
  obtain ok b where i: "bd_init dr (fs_blk s) = (ok, b)" by fastforce
  have ok: ok using init_finds[OF inv us(1)] i by simp
  then have b: "inv b" "block b = block (fs_blk s)" "med b = med (fs_blk s)" "handle b (bd_device dr b)"
    using init_keeps[OF inv i] init_device[OF inv i] by auto
  define s1 where "s1 = s\<lparr>fs_blk := b, g_dev := bd_device dr b\<rparr>"
  have s1: "ready s1" "blocks s1 = block (fs_blk s)" "media s1 = med (fs_blk s)" "g_dev s1 \<noteq> None"
    "g_table s1 = g_table s"
    using b handle_dev by (auto simp: s1_def ready_def blocks_def media_def)
  obtain f s2 where m: "fat_mount_and_scan_root dr s1 = (f, s2)" by fastforce
  have b0: "blocks s1 0 = sb_sector sb" using syn s1(2) by (simp add: sfs_synced_def)
  note M = fat_mount_sfs[OF s1(1) b0 m]
  define s3 where "s3 = s2\<lparr>g_kind := STORAGE_FS_SFS\<rparr>"
  have s3: "ready s3" "blocks s3 = blocks s1" "media s3 = media s1" "g_table s3 = g_table s"
    using M only_blkD[OF M(2)] s1 by (simp_all add: s3_def ready_def blocks_def media_def)
  obtain ok4 bs s4 where w: "fs_read_sector dr 0 s3 = ((ok4, bs), s4)" by (metis surj_pair)
  note R = fs_read[OF s3(1) w]
  have ok4: ok4 "bs = sb_sector sb" using R(5,6) s3 s1 us(1) b0 by auto
  define s5 where "s5 = s4\<lparr>g_sb := sb\<rparr>"
  have s5: "ready s5" "blocks s5 = block (fs_blk s)" "media s5 = med (fs_blk s)" "g_sb s5 = sb"
    "g_table s5 = g_table s" "g_kind s5 = STORAGE_FS_SFS"
    using R s3 s1 only_blkD[OF R(1)] by (simp_all add: s5_def s3_def ready_def blocks_def media_def)
  obtain r6 s6 where l: "sfs_load_table dr s5 = (r6, s6)" by fastforce
  have tl: "length (g_table s5) = 64" using t s5 by simp
  note L = load_table_spec[OF s5(1) tl, of tbl r6 s6]
  have L': "r6" "ready s6" "blocks s6 = blocks s5" "media s6 = media s5" "only_blk (s5\<lparr>g_table := tbl\<rparr>) s6"
    using L s5 wf syn us(2) l by auto
  have "bd_device dr b \<noteq> None" using b(4) handle_dev by auto
  moreover have "sb_table_sectors sb \<noteq> 0" "\<not> (64 :: u32) < sb_table_sectors sb" "sb_magic sb = 0x31465353" "sb_version sb = 1"
    using wf by (auto simp: sfs_wf_def word_less_nat_alt)
  ultimately have "simplefs_init dr s = (True, s6)"
    using i ok s1(4) m M(1) w ok4 l L'(1) sb_of_sector[of sb] s5(4)
    by (simp add: simplefs_init_def s1_def[symmetric] s3_def[symmetric] s5_def[symmetric] sfs_load_superblock_def)
  then show ?thesis using r L' only_blkD[OF L'(5)] s5 by simp
qed

text \<open>Formatting: an empty, synchronised file system on the first nine sectors.\<close>

lemma format_spec:
  assumes s: "ready s" and r: "sfs_format dr s = (r, s')"
  shows "ready s' \<and> media s' = media s \<and> g_kind s' = g_kind s \<and> g_dev s' = g_dev s \<and>
    g_sb s' = fresh_sb \<and> g_table s' = replicate 64 zero_file \<and> r = (\<forall>i < 9. accepts s i) \<and>
    (\<forall>j \<ge> 9. blocks s' j = blocks s j) \<and>
    (r \<longrightarrow> (\<forall>i < 9. holds s i) \<longrightarrow> sfs_synced (blocks s') fresh_sb (replicate 64 zero_file))"
proof -
  define s1 where "s1 = s\<lparr>g_sb := fresh_sb, g_table := replicate 64 zero_file\<rparr>"
  have s1: "ready s1" "blocks s1 = blocks s" "media s1 = media s" "g_sb s1 = fresh_sb"
    "g_table s1 = replicate 64 zero_file" "g_kind s1 = g_kind s" "g_dev s1 = g_dev s"
    using s by (simp_all add: s1_def ready_def blocks_def media_def)
  obtain ok2 s2 where w2: "sfs_store_superblock dr s1 = (ok2, s2)" by fastforce
  obtain ok3 s3 where w3: "sfs_store_table dr s2 = (ok3, s3)" by fastforce
  note S = store_superblock_spec[OF s1(1) w2]
  note o2 = only_blkD[OF S(1)]
  have e: "r = (ok2 \<and> ok3)" "s' = (if ok2 then s3 else s2)"
    using r w2 w3 by (auto simp: sfs_format_def Let_def s1_def fresh_sb_def split: if_splits)
  have tw: "table_wf (g_table s2)" using o2 s1 fresh_wf by (simp add: sfs_wf_def)
  have fs: "unat (sb_table_lba fresh_sb) = 1" "unat (sb_table_sectors fresh_sb) = 8" by (simp_all add: fresh_sb_def)
  have T: "only_blk s2 s3" "ready s3" "media s3 = media s2" "ok3 = (\<forall>i < 8. accepts s2 (1 + i))"
    "j < 1 \<or> 1 + 8 \<le> j \<Longrightarrow> blocks s3 j = blocks s2 j"
    "ok3 \<Longrightarrow> i < 8 \<Longrightarrow> holds s2 (1 + i) \<Longrightarrow> blocks s3 (1 + i) = row_sector (replicate 64 zero_file) (min 64 (11 * i))" for i j
    using store_table_spec[OF S(2) tw _ w3] o2 s1 fs by simp_all
  note o3 = only_blkD[OF T(1)]
  have "(\<forall>i < 9. accepts s i) \<longleftrightarrow> accepts s 0 \<and> (\<forall>i < 8. accepts s (1 + i))"
    by (auto simp: less_Suc_eq_0_disj eval_nat_numeral)
  then have "r = (\<forall>i < 9. accepts s i)" using e(1) S(3,4) T(4) s1(3) by simp
  moreover have "\<forall>j \<ge> 9. blocks s' j = blocks s j" using e(2) T(5) S(5) s1(2) by simp
  moreover have "sfs_synced (blocks s') fresh_sb (replicate 64 zero_file)" if r "\<forall>i < 9. holds s i"
    using that e T(5)[of 0] T(6) S(3,6) s1 fs by (simp add: sfs_synced_def)
  ultimately show ?thesis using e(2) S(2,3) T(2,3) o2 o3 s1 by simp
qed

text \<open>The start of \<open>simplefs_init\<close>: a device is found and the FAT32 reader is tried on it.\<close>

definition mount_sfs :: "('v, 's) fs \<Rightarrow> bool \<times> ('v, 's) fs" where
  "mount_sfs s2 =
     (let s3 = s2\<lparr>g_kind := STORAGE_FS_SFS\<rparr>; (ok, s4) = sfs_load_superblock dr s3 in
          if \<not> ok then (False, s4)
          else if sb_magic (g_sb s4) \<noteq> 0x31465353 \<or> sb_version (g_sb s4) \<noteq> 1 \<or>
                  sb_table_sectors (g_sb s4) = 0 \<or> sb_table_sectors (g_sb s4) > 64
          then sfs_format dr s4
          else let (ok, s5) = sfs_load_table dr s4 in if \<not> ok then sfs_format dr s5 else (True, s5))"

lemma init_start:
  assumes inv: "inv (fs_blk s)" and us: "md_reads (med (fs_blk s)) 0"
  obtains s1 where "ready s1" "blocks s1 = block (fs_blk s)" "media s1 = med (fs_blk s)" "g_dev s1 \<noteq> None"
    "g_table s1 = g_table s" "g_fat_files s1 = g_fat_files s"
    "\<And>s2. fat_mount_and_scan_root dr s1 = (True, s2) \<Longrightarrow>
       simplefs_init dr s = (True, s2\<lparr>g_kind := STORAGE_FS_FAT32\<rparr>)"
    "\<And>s2. fat_mount_and_scan_root dr s1 = (False, s2) \<Longrightarrow> simplefs_init dr s = mount_sfs s2"
proof -
  obtain ok b where i: "bd_init dr (fs_blk s) = (ok, b)" by fastforce
  have ok: ok using init_finds[OF inv us] i by simp
  then have b: "inv b" "block b = block (fs_blk s)" "med b = med (fs_blk s)" "handle b (bd_device dr b)"
    using init_keeps[OF inv i] init_device[OF inv i] by auto
  define s1 where "s1 = s\<lparr>fs_blk := b, g_dev := bd_device dr b\<rparr>"
  have dv: "bd_device dr b \<noteq> None" using b(4) handle_dev by auto
  show thesis
  proof (rule that[of s1])
    show "ready s1" "blocks s1 = block (fs_blk s)" "media s1 = med (fs_blk s)" "g_dev s1 \<noteq> None"
      "g_table s1 = g_table s" "g_fat_files s1 = g_fat_files s"
      using b dv by (auto simp: s1_def ready_def blocks_def media_def)
  next
    fix s2 assume "fat_mount_and_scan_root dr s1 = (True, s2)"
    then show "simplefs_init dr s = (True, s2\<lparr>g_kind := STORAGE_FS_FAT32\<rparr>)"
      using i ok dv by (simp add: simplefs_init_def Let_def s1_def)
  next
    fix s2 assume "fat_mount_and_scan_root dr s1 = (False, s2)"
    then show "simplefs_init dr s = mount_sfs s2"
      using i ok dv by (auto simp: simplefs_init_def mount_sfs_def Let_def s1_def)
  qed
qed

text \<open>A disk that neither file system accepts is formatted.\<close>

lemma init_formats:
  assumes inv: "inv (fs_blk s)" and us: "md_reads (med (fs_blk s)) 0"
    and ws: "\<And>i. i < 9 \<Longrightarrow> md_stores (med (fs_blk s)) i"
    and nofat: "\<And>s1. ready s1 \<Longrightarrow> blocks s1 = block (fs_blk s) \<Longrightarrow> media s1 = med (fs_blk s) \<Longrightarrow>
      g_fat_files s1 = g_fat_files s \<Longrightarrow> \<not> fst (fat_mount_and_scan_root dr s1)"
    and nosfs: "sb_invalid (sb_of (take 32 (block (fs_blk s) 0)))"
    and r: "simplefs_init dr s = (r, s')"
  shows "r \<and> ready s' \<and> g_kind s' = STORAGE_FS_SFS \<and> g_sb s' = fresh_sb \<and> g_table s' = replicate 64 zero_file \<and>
    sfs_synced (blocks s') fresh_sb (replicate 64 zero_file) \<and> media s' = med (fs_blk s)"
proof -
  obtain s1 where s1: "ready s1" "blocks s1 = block (fs_blk s)" "media s1 = med (fs_blk s)"
    "g_fat_files s1 = g_fat_files s"
    and st: "\<And>s2. fat_mount_and_scan_root dr s1 = (False, s2) \<Longrightarrow> simplefs_init dr s = mount_sfs s2"
    by (rule init_start[OF inv us]) blast
  obtain s2 where m: "fat_mount_and_scan_root dr s1 = (False, s2)"
    using nofat[OF s1] by (cases "fat_mount_and_scan_root dr s1") auto
  have R: "ready s2" "blocks s2 = blocks s1" "media s2 = media s1"
    using reads_mount[OF s1(1)] m by (simp_all add: reads_def)
  define s3 where "s3 = s2\<lparr>g_kind := STORAGE_FS_SFS\<rparr>"
  have s3: "ready s3" "blocks s3 = block (fs_blk s)" "media s3 = med (fs_blk s)" "g_kind s3 = STORAGE_FS_SFS"
    using R s1 by (simp_all add: s3_def ready_def blocks_def media_def)
  obtain ok bs s4 where w: "fs_read_sector dr 0 s3 = ((ok, bs), s4)" by (metis surj_pair)
  note RD = fs_read[OF s3(1) w]
  have ok: ok "bs = block (fs_blk s) 0" using RD(5,6) s3 us by auto
  define s5 where "s5 = s4\<lparr>g_sb := sb_of (take 32 bs)\<rparr>"
  have s5: "ready s5" "media s5 = med (fs_blk s)" "g_kind s5 = STORAGE_FS_SFS"
    using RD s3 only_blkD[OF RD(1)] by (simp_all add: s5_def ready_def media_def)
  have "simplefs_init dr s = sfs_format dr s5"
    using st[OF m] w ok nosfs by (auto simp: mount_sfs_def sfs_load_superblock_def s3_def s5_def sb_invalid_def)
  moreover have "md_takes (med (fs_blk s)) i" if "i < 9" for i using ws[OF that] by (rule stores_takes)
  ultimately show ?thesis using format_spec[OF s5(1), of r s'] r s5 ws by auto
qed

lemma init_mounts_fat:
  assumes inv: "inv (fs_blk s)" and us: "md_reads (med (fs_blk s)) 0" and t: "length (g_fat_files s) = 128"
    and b: "fat_boot_ok (block (fs_blk s) 0)"
  defines "g \<equiv> fat_geometry (block (fs_blk s) 0)"
  assumes ch: "fat_chain (fat_next (block (fs_blk s)) g) (fi_root_cluster g) cs" "length cs \<le> 256"
    and ok: "\<And>d. d \<in> set cs \<Longrightarrow> cluster_ok (md_reads (med (fs_blk s))) g d"
    and r: "simplefs_init dr s = (r, s')"
  shows "r \<and> ready s' \<and> g_kind s' = STORAGE_FS_FAT32 \<and> blocks s' = block (fs_blk s) \<and> media s' = med (fs_blk s) \<and>
    g_fat s' = g \<and> fat_wf s' \<and> fat_listing s' = take 128 (files_of (chain_entries (block (fs_blk s)) g cs))"
proof -
  obtain s1 where s1: "ready s1" "blocks s1 = block (fs_blk s)" "media s1 = med (fs_blk s)"
    "g_fat_files s1 = g_fat_files s"
    and st: "\<And>s2. fat_mount_and_scan_root dr s1 = (True, s2) \<Longrightarrow>
       simplefs_init dr s = (True, s2\<lparr>g_kind := STORAGE_FS_FAT32\<rparr>)"
    by (rule init_start[OF inv us]) blast
  obtain f s2 where m: "fat_mount_and_scan_root dr s1 = (f, s2)" by fastforce
  have M: "f \<and> reads s1 s2 \<and> g_fat s2 = g \<and> fat_wf s2 \<and>
      fat_listing s2 = take 128 (files_of (chain_entries (block (fs_blk s)) g cs))"
    using mount_spec[of s1 cs f s2] s1 b t us ch ok m by (simp add: g_def)
  then have "r" "s' = s2\<lparr>g_kind := STORAGE_FS_FAT32\<rparr>" using st[of s2] m r by auto
  then show ?thesis using M s1
    by (simp add: reads_def ready_def blocks_def media_def fat_wf_def fat_listing_def)
qed

text \<open>Reading a file of a mounted FAT32 volume.\<close>

lemma fat_read_file_spec:
  assumes s: "ready s" "g_kind s = STORAGE_FS_FAT32" and f: "fat_find (Some nm) s = Some i"
    and ch: "fat_chain (fat_next (blocks s) (g_fat s)) (ff_first_cluster (g_fat_files s ! i)) cs" "length cs \<le> 4096"
    and ok: "\<And>d. d \<in> set cs \<Longrightarrow> cluster_ok (usable s) (g_fat s) d"
    and r: "simplefs_read_file dr (Some nm) True maxlen s = (res, s')"
  shows "reads s s' \<and> rr_ok res \<and> rr_len res = Some (ff_size_bytes (g_fat_files s ! i)) \<and>
    rr_bytes res = take (min (unat maxlen) (unat (ff_size_bytes (g_fat_files s ! i)))) (chain_bytes (blocks s) (g_fat s) cs)"
proof -
  let ?f = "g_fat_files s ! i"
  let ?want = "if ff_size_bytes ?f > maxlen then maxlen else ff_size_bytes ?f"
  have dv: "g_dev s \<noteq> None" using s(1) handle_dev by (auto simp: ready_def)
  obtain b bs where rc: "fat_read_chain dr 4096 (ff_first_cluster ?f) (unat ?want) [] s = ((b, bs), s')"
    and res: "res = \<lparr>rr_ok = b, rr_len = Some (ff_size_bytes ?f), rr_bytes = bs\<rparr>"
    using r s(2) dv f by (auto simp: simplefs_read_file_def Let_def split: prod.splits)
  have "unat ?want = min (unat maxlen) (unat (ff_size_bytes ?f))" by (auto simp: word_less_nat_alt min_def)
  then show ?thesis
    using read_chain_spec[OF ch(1) s(1) ch(2) _ ok rc] res by simp
qed

end

end
