(* ===== verification/Storage.thy ===== *)
theory Storage
  imports Ata SimpleFs
begin

text \<open>
  The storage stack put together: \<open>simplefs.c\<close> on \<open>ata_pio.c\<close> on a disk. The file system
  lemmas proved against \<open>block_device\<close> are taken through its interpretation on the ATA
  driver, so these properties speak of the port-level driver of the repository, for all
  hardware that follows the ATA command protocol (\<open>ata_port_model\<close>), with any latencies below the
  driver's polling budget, any set of unreadable sectors and any set of sectors that cannot be
  written. Three sets of sectors matter: \<open>sector_ok\<close>, which can be read, \<open>sector_accepts\<close>, whose
  write the driver reports as done, and \<open>sector_writable\<close>, whose write is stored. The driver does not look
  at the status behind the last sector of a write, so a sector may be in the second set and not in the third.
\<close>

section \<open>Mounted states\<close>

type_synonym 'd ata_fs = "(ata_pio_device, 'd machine) fs"

definition fs_ready :: "'d ata_fs \<Rightarrow> bool" where
  "fs_ready s \<longleftrightarrow> mc_inv (fs_blk s) \<and> mc_handle (fs_blk s) (g_dev s)"

definition disk :: "'d ata_fs \<Rightarrow> nat \<Rightarrow> u8 list" where
  "disk s = mc_block (fs_blk s)"

definition sector_ok :: "'d ata_fs \<Rightarrow> nat \<Rightarrow> bool" where
  "sector_ok s = mc_good (fs_blk s)"

definition sector_accepts :: "'d ata_fs \<Rightarrow> nat \<Rightarrow> bool" where
  "sector_accepts s = mc_takes (fs_blk s)"

definition sector_writable :: "'d ata_fs \<Rightarrow> nat \<Rightarrow> bool" where
  "sector_writable s = mc_stores (fs_blk s)"

definition fs_medium :: "'d ata_fs \<Rightarrow> medium" where
  "fs_medium s = mc_medium (fs_blk s)"

lemma fs_medium_simps:
  "md_reads (fs_medium s) = sector_ok s" "md_takes (fs_medium s) = sector_accepts s"
  "md_stores (fs_medium s) = sector_writable s"
  by (simp_all add: fs_medium_def sector_ok_def sector_accepts_def sector_writable_def)

lemma fs_medium_eq:
  assumes "fs_medium s' = fs_medium s"
  shows "sector_ok s' = sector_ok s" "sector_accepts s' = sector_accepts s" "sector_writable s' = sector_writable s"
  using assms by (simp_all flip: fs_medium_simps)

definition sfs_mounted :: "'d ata_fs \<Rightarrow> bool" where
  "sfs_mounted s \<longleftrightarrow> fs_ready s \<and> g_kind s = STORAGE_FS_SFS \<and> sfs_wf (g_sb s) (g_table s)"

text \<open>The contents of a file of the mounted SFS.\<close>

definition file_data :: "'d ata_fs \<Rightarrow> u8 list \<Rightarrow> u8 list option" where
  "file_data s nm = sfs_data (disk s) (g_table s) nm"

text \<open>The clients' lemmas, on the provider \<open>Ata\<close> interprets the contract with.\<close>

interpretation store: storage_client ata_driver mc_inv mc_handle mc_block mc_medium
  by (rule storage_client.intro) (rule ata.block_device_axioms)

lemma ata_simps: "store.ready s = fs_ready s" "store.blocks s = disk s" "store.media s = fs_medium s"
  by (simp_all add: store.ready_def store.blocks_def store.media_def fs_ready_def disk_def fs_medium_def)

lemmas ata_write_file = store.write_file_spec[unfolded ata_simps fs_medium_simps mc_medium_simps]
lemmas ata_read_file = store.read_file_spec[unfolded ata_simps fs_medium_simps mc_medium_simps]
lemmas ata_remount = store.init_remount[unfolded ata_simps fs_medium_simps mc_medium_simps]
lemmas ata_formats = store.init_formats[unfolded ata_simps fs_medium_simps mc_medium_simps]
lemmas ata_mounts_fat = store.init_mounts_fat[unfolded ata_simps fs_medium_simps mc_medium_simps]
lemmas ata_rejects = store.mount_rejects[unfolded ata_simps fs_medium_simps mc_medium_simps]
lemmas ata_dead_root = store.mount_dead_root[unfolded ata_simps fs_medium_simps mc_medium_simps]
lemmas ata_fat_read = store.fat_read_file_spec[unfolded ata_simps fs_medium_simps mc_medium_simps]
lemmas ata_reads = store.reads_def[unfolded ata_simps fs_medium_simps mc_medium_simps]

section \<open>A concrete disk\<close>

definition ref_machine :: "(nat \<Rightarrow> u8 list) \<Rightarrow> nat \<Rightarrow> ata_hw machine" where
  "ref_machine sectors cap = \<lparr>mc_io = ref_io, mc_view = id,
     mc_storage = \<lparr>dv_io_base = 0x1F0, dv_ctrl_base = 0x3F6, dv_is_slave = 0, dv_present = 1\<rparr>,
     mc_dev = ref_hw sectors cap\<rparr>"

lemma ref_machine_ok:
  assumes "\<And>l. length (sectors l) = 512"
  shows "mc_inv (ref_machine sectors cap)"
    "mc_handle (ref_machine sectors cap) (Some (mc_storage (ref_machine sectors cap)))"
    "mc_block (ref_machine sectors cap) = sectors"
    "mc_good (ref_machine sectors cap) l \<longleftrightarrow> l < 2 ^ 28 \<and> l < cap"
    "mc_takes (ref_machine sectors cap) l \<longleftrightarrow> l < 2 ^ 28"
    "mc_stores (ref_machine sectors cap) l \<longleftrightarrow> l < 2 ^ 28 \<and> l < cap"
  using assms ref_port_model
  by (auto simp: mc_inv_def ref_machine_def hw_ok_def mc_hw_def ref_hw_def mc_handle_def dev_ok_def
      probe_drive_def mc_block_def disk_sector_def fun_eq_iff mc_good_def disk_good_def less_imp_le
      mc_takes_def mc_stores_def disk_on_def dk_accepts_def dk_writable_def
      intro: order.strict_trans2[OF mod_less_divisor])

text \<open>A mounted, empty SFS on a zeroed disk; the disk may end before the data area.\<close>

definition empty_fs_on :: "nat \<Rightarrow> ata_hw ata_fs" where
  "empty_fs_on cap = (fs_start (ref_machine (\<lambda>l. replicate 512 0) cap))\<lparr>g_kind := STORAGE_FS_SFS,
     g_dev := Some (mc_storage (ref_machine (\<lambda>l. replicate 512 0) cap)), g_sb := fresh_sb\<rparr>"

abbreviation empty_fs :: "ata_hw ata_fs" where
  "empty_fs \<equiv> empty_fs_on 1000"

lemma empty_fs_mounted: "sfs_mounted (empty_fs_on cap)"
  using ref_machine_ok(1,2)[of "\<lambda>l. replicate 512 0" cap] fresh_wf
  by (simp add: sfs_mounted_def fs_ready_def empty_fs_on_def fs_start_def)

lemma empty_fs_simps:
  "sector_ok (empty_fs_on cap) l \<longleftrightarrow> l < 2 ^ 28 \<and> l < cap" "sector_accepts (empty_fs_on cap) l \<longleftrightarrow> l < 2 ^ 28"
  "sector_writable (empty_fs_on cap) l \<longleftrightarrow> l < 2 ^ 28 \<and> l < cap"
  "g_sb (empty_fs_on cap) = fresh_sb" "g_table (empty_fs_on cap) = replicate 64 zero_file"
  using ref_machine_ok(4-6)[of "\<lambda>l. replicate 512 0" cap l]
  by (auto simp: sector_ok_def sector_accepts_def sector_writable_def empty_fs_on_def fs_start_def)

lemma fresh_slot: "write_slot (replicate 64 zero_file) nm = Some 0"
proof -
  have "find_index (named nm) (replicate 64 zero_file) = None" by (simp add: named_def zero_file_def)
  moreover have "find_index (\<lambda>f. sf_used f = 0) (replicate 64 zero_file) = Some 0"
    by (simp add: find_index_Some_iff zero_file_def)
  ultimately show ?thesis by (simp add: write_slot_def del: find_index_None_iff)
qed

lemma empty_fs_can_write:
  assumes "cstr nm \<noteq> []" "length (cstr nm) < 32" "unat len \<le> 1024"
  shows "can_write (sector_accepts (empty_fs_on cap)) (g_sb (empty_fs_on cap)) (g_table (empty_fs_on cap)) nm len"
    "run_on (sector_writable empty_fs) (g_sb empty_fs) len" "meta_on (sector_writable empty_fs) (g_sb empty_fs)"
    "run_on (sector_ok empty_fs) (g_sb empty_fs) len" "meta_on (sector_ok empty_fs) (g_sb empty_fs)"
proof -
  have "unat (write_run len) \<le> 3" using unat_write_run[of len] assms(3) by (simp add: sectors_for_def)
  then show "can_write (sector_accepts (empty_fs_on cap)) (g_sb (empty_fs_on cap)) (g_table (empty_fs_on cap)) nm len"
    "run_on (sector_writable empty_fs) (g_sb empty_fs) len" "meta_on (sector_writable empty_fs) (g_sb empty_fs)"
    "run_on (sector_ok empty_fs) (g_sb empty_fs) len" "meta_on (sector_ok empty_fs) (g_sb empty_fs)"
    using assms(1,2) by (simp_all add: can_write_def run_on_def meta_on_def empty_fs_simps fresh_sb_def fresh_slot)
qed

lemma empty_fs_writes:
  assumes "cstr nm \<noteq> []" "length (cstr nm) < 32" "unat len \<le> 1024" "unat len \<le> length data"
  obtains s1 where "simplefs_write_file ata_driver (Some nm) (Some data) len empty_fs = (True, s1)"
proof -
  obtain r s1 where w: "simplefs_write_file ata_driver (Some nm) (Some data) len empty_fs = (r, s1)" by fastforce
  have "r" using ata_write_file[OF _ _ _ _ assms(4) w] empty_fs_mounted[of 1000] empty_fs_can_write[OF assms(1-3)] assms(3)
    by (simp add: sfs_mounted_def)
  with w show thesis using that by simp
qed

section \<open>Properties\<close>

text \<open>
  C2. For a length that does not overflow the sector count, simplefs_write_file returns success
  exactly when the name is usable, a table slot is left and the device accepts the data of every
  sector it writes, which for a device that reports errors after the data includes sectors that
  cannot be written. In either case every other file of the volume keeps its contents and the
  volume stays well-formed; when the sectors of the new run are writable, the file has its old
  or its complete new contents, and the new ones on success.
\<close>

theorem write_succeeds_iff:
  assumes "sfs_mounted s" "unat len + 511 < 2 ^ 32" "unat len \<le> length data"
  shows "case simplefs_write_file ata_driver (Some nm) (Some data) len s of (r, s') \<Rightarrow>
    sfs_mounted s' \<and> r = can_write (sector_accepts s) (g_sb s) (g_table s) nm len \<and>
    (\<forall>nm'. cstr nm' \<noteq> cstr nm \<longrightarrow> file_data s' nm' = file_data s nm') \<and>
    (run_on (sector_writable s) (g_sb s) len \<longrightarrow>
       file_data s' nm \<in> {file_data s nm, Some (take (unat len) data)} \<and>
       (r \<longrightarrow> file_data s' nm = Some (take (unat len) data)))"
proof -
  obtain r s' where w: "simplefs_write_file ata_driver (Some nm) (Some data) len s = (r, s')" by fastforce
  from ata_write_file[OF _ _ _ assms(2,3) w] assms(1) show ?thesis
    by (simp add: w sfs_mounted_def file_data_def)
qed

theorem write_succeeds_iff_witness:
  "case simplefs_write_file ata_driver (Some [0x61, 0]) (Some [1, 2, 3]) 3 empty_fs of (r, s') \<Rightarrow>
     r \<and> file_data s' [0x61, 0] = Some [1, 2, 3] \<and> file_data s' [0x62, 0] = None"
proof -
  have n: "cstr [0x61, 0] = [0x61]" "cstr [0x62, 0] = [0x62]" by (simp_all add: cstr_Cons)
  have "file_data empty_fs [0x62, 0] = None" using fresh_empty by (simp add: file_data_def empty_fs_simps)
  with write_succeeds_iff[OF empty_fs_mounted[of 1000], of 3 "[1, 2, 3]" "[0x61, 0]"] empty_fs_can_write(1,2)[of "[0x61, 0]" 3] n
  show ?thesis by (auto split: prod.splits)
qed

text \<open>The whole data area of the volume is readable.\<close>

definition data_ok :: "'d ata_fs \<Rightarrow> bool" where
  "data_ok s \<longleftrightarrow> (\<forall>j. unat (sb_data_lba (g_sb s)) \<le> j \<and> j < unat (sb_next_free_lba (g_sb s)) \<longrightarrow> sector_ok s j)"

lemma write_data_ok:
  assumes "sfs_mounted s" "data_ok s" "run_on (sector_ok s) (g_sb s) len" "unat len + 511 < 2 ^ 32"
    "unat len \<le> length data" "simplefs_write_file ata_driver (Some nm) (Some data) len s = (True, s')"
  shows "data_ok s'"
proof -
  note W = ata_write_file[OF _ _ _ assms(4-6)]
  have us: "sector_ok s' = sector_ok s"
    and g: "g_sb s' = (g_sb s)\<lparr>sb_next_free_lba := sb_next_free_lba (g_sb s) + write_run len\<rparr>"
    and sb: "unat (sb_next_free_lba (g_sb s')) = unat (sb_next_free_lba (g_sb s)) + unat (write_run len)"
    using W assms(1) fs_medium_eq(1) unfolding sfs_mounted_def by blast+
  have "sector_ok s j" if "unat (sb_data_lba (g_sb s)) \<le> j" "j < unat (sb_next_free_lba (g_sb s)) + unat (write_run len)" for j
  proof (cases "j < unat (sb_next_free_lba (g_sb s))")
    case True
    then show ?thesis using assms(2) that(1) by (simp add: data_ok_def)
  next
    case False
    then show ?thesis using assms(3)[unfolded run_on_def, rule_format, of "j - unat (sb_next_free_lba (g_sb s))"] that(2) by simp
  qed
  moreover have "sb_data_lba (g_sb s') = sb_data_lba (g_sb s)" by (simp add: g)
  ultimately show ?thesis unfolding data_ok_def us sb by metis
qed

text \<open>
  C1. On a mounted SFS volume over the port-level ATA driver, reading a file back right after a
  successful simplefs_write_file returns exactly the bytes that were written, cut at the
  caller's buffer size, with the full length in out_len, on a device that follows the ATA
  command protocol and whose sectors on the way, those of the data area and of the new run, can
  be read and written; the read writes nothing. Writable is what is needed: success alone does
  not say that the data was stored.
\<close>

theorem write_then_read:
  assumes "sfs_mounted s" "data_ok s" "run_on (sector_ok s) (g_sb s) len" "run_on (sector_writable s) (g_sb s) len"
    "unat len + 511 < 2 ^ 32" "unat len \<le> length data"
    "simplefs_write_file ata_driver (Some nm) (Some data) len s = (True, s1)"
  shows "case simplefs_read_file ata_driver (Some nm) True maxlen s1 of (res, s2) \<Rightarrow>
    rr_ok res \<and> rr_len res = Some len \<and> rr_bytes res = take (unat maxlen) (take (unat len) data) \<and>
    sfs_mounted s2 \<and> disk s2 = disk s1"
proof -
  obtain res s2 where r: "simplefs_read_file ata_driver (Some nm) True maxlen s1 = (res, s2)" by fastforce
  note W = ata_write_file[OF _ _ _ assms(5-7)]
  have m: "fs_ready s1" "g_kind s1 = STORAGE_FS_SFS" "sfs_wf (g_sb s1) (g_table s1)"
    and d: "sfs_data (disk s1) (g_table s1) nm = Some (take (unat len) data)"
    using W assms(1,4) by (auto simp: sfs_mounted_def)
  have ok: "\<And>j. unat (sb_data_lba (g_sb s1)) \<le> j \<Longrightarrow> j < unat (sb_next_free_lba (g_sb s1)) \<Longrightarrow> sector_ok s1 j"
    using write_data_ok[OF assms(1-3,5-7)] by (simp add: data_ok_def)
  note R = ata_read_file[OF m ok r]
  have "length (take (unat len) data) = unat len" using assms(6) by simp
  then show ?thesis
    using R d m only_blkD[OF conjunct1[OF R]] by (simp add: r sfs_mounted_def)
qed

theorem write_then_read_witness:
  "\<exists>s1. simplefs_write_file ata_driver (Some [0x61, 0]) (Some [1, 2, 3]) 3 empty_fs = (True, s1) \<and>
     rr_bytes (fst (simplefs_read_file ata_driver (Some [0x61, 0]) True 2 s1)) = [1, 2]"
proof -
  have n: "cstr [0x61, 0] \<noteq> []" "length (cstr [0x61, 0]) < 32" by (simp_all add: cstr_Cons)
  obtain s1 where w: "simplefs_write_file ata_driver (Some [0x61, 0]) (Some [1, 2, 3]) 3 empty_fs = (True, s1)"
    using empty_fs_writes[OF n, of 3 "[1, 2, 3]"] by auto
  have d: "data_ok empty_fs" by (simp add: data_ok_def empty_fs_simps fresh_sb_def)
  note c = empty_fs_can_write[OF n, of 3, simplified]
  from write_then_read[OF empty_fs_mounted d c(4,2) _ _ w, of 2] w show ?thesis
    by (auto simp: split_beta)
qed

text \<open>
  C3. After a successful write to sectors that are writable, the table and superblock included,
  a fresh simplefs_init on the same disk, with a readable superblock and table, mounts the SFS
  volume again with every file as it was, the written one included.
\<close>

theorem files_survive_reboot:
  assumes "sfs_mounted s" "run_on (sector_writable s) (g_sb s) len" "meta_on (sector_writable s) (g_sb s)"
    "meta_on (sector_ok s) (g_sb s)" "unat len + 511 < 2 ^ 32" "unat len \<le> length data"
    "simplefs_write_file ata_driver (Some nm) (Some data) len s = (True, s1)"
    "fs_blk s0 = fs_blk s1" "length (g_table s0) = 64"
  shows "case simplefs_init ata_driver s0 of (r, s2) \<Rightarrow>
    r \<and> sfs_mounted s2 \<and> (\<forall>nm'. file_data s2 nm' = file_data s1 nm') \<and>
    file_data s2 nm = Some (take (unat len) data)"
proof -
  obtain r s2 where i: "simplefs_init ata_driver s0 = (r, s2)" by fastforce
  note W = ata_write_file[OF _ _ _ assms(5-7)]
  have m: "fs_ready s1" "g_kind s1 = STORAGE_FS_SFS" "sfs_wf (g_sb s1) (g_table s1)"
    and d: "sfs_data (disk s1) (g_table s1) nm = Some (take (unat len) data)"
    and sy: "sfs_synced (disk s1) (g_sb s1) (g_table s1)" and us: "sector_ok s1 = sector_ok s"
    and sb: "sb_table_sectors (g_sb s1) = sb_table_sectors (g_sb s)" "sb_table_lba (g_sb s1) = sb_table_lba (g_sb s)"
    using W assms(1-3) fs_medium_eq(1) by (auto simp: sfs_mounted_def)
  have I: "r \<and> fs_ready s2 \<and> g_kind s2 = STORAGE_FS_SFS \<and> g_sb s2 = g_sb s1 \<and> g_table s2 = g_table s1 \<and>
    disk s2 = mc_block (fs_blk s0) \<and> fs_medium s2 = mc_medium (fs_blk s0)"
  proof (rule ata_remount[OF _ _ m(3) _ _ _ i])
    show "mc_inv (fs_blk s0)" using m(1) assms(8) by (simp add: fs_ready_def)
    show "length (g_table s0) = 64" using assms(9) by simp
    show "sfs_synced (mc_block (fs_blk s0)) (g_sb s1) (g_table s1)" using sy assms(8) by (simp add: disk_def)
    show "mc_good (fs_blk s0) 0" using assms(4) us assms(8) by (simp add: meta_on_def sector_ok_def)
    show "\<And>i. i < unat (sb_table_sectors (g_sb s1)) \<Longrightarrow> mc_good (fs_blk s0) (unat (sb_table_lba (g_sb s1)) + i)"
      using assms(4) us assms(8) sb by (simp add: meta_on_def sector_ok_def)
  qed
  moreover have "mc_block (fs_blk s0) = disk s1" using assms(8) by (simp add: disk_def)
  ultimately show ?thesis using m d by (simp add: i sfs_mounted_def file_data_def)
qed

theorem files_survive_reboot_witness:
  "\<exists>s1. simplefs_write_file ata_driver (Some [0x61, 0]) (Some [1, 2, 3]) 3 empty_fs = (True, s1) \<and>
     file_data (snd (simplefs_init ata_driver (fs_start (fs_blk s1)))) [0x61, 0] = Some [1, 2, 3]"
proof -
  have n: "cstr [0x61, 0] \<noteq> []" "length (cstr [0x61, 0]) < 32" by (simp_all add: cstr_Cons)
  obtain s1 where w: "simplefs_write_file ata_driver (Some [0x61, 0]) (Some [1, 2, 3]) 3 empty_fs = (True, s1)"
    using empty_fs_writes[OF n, of 3 "[1, 2, 3]"] by auto
  note c = empty_fs_can_write[OF n, of 3, simplified]
  from files_survive_reboot[OF empty_fs_mounted c(2,3,5) _ _ w, of "fs_start (fs_blk s1)"] w show ?thesis
    by (auto simp: split_beta fs_start_def)
qed





text \<open>
  simplefs_init formats a disk that carries neither file system: the volume is mounted,
  empty, well-formed and in step with the disk.
\<close>

theorem blank_disk_formatted:
  assumes "mc_inv (fs_blk s)" "mc_good (fs_blk s) 0" "\<forall>i < 9. mc_stores (fs_blk s) i"
    "\<not> fat_is_fat32_boot_sector (mc_block (fs_blk s) 0)" "rd32 (mc_block (fs_blk s) 0) 0 \<noteq> 0x31465353"
  shows "case simplefs_init ata_driver s of (r, s') \<Rightarrow> r \<and> sfs_mounted s' \<and> (\<forall>nm. file_data s' nm = None) \<and>
    disk s' 0 = sb_sector fresh_sb \<and> sfs_synced (disk s') (g_sb s') (g_table s')"
proof -
  obtain r s' where i: "simplefs_init ata_driver s = (r, s')" by fastforce
  have inv: "sb_invalid (sb_of (take 32 (mc_block (fs_blk s) 0)))"
    using assms(5) by (simp add: sb_invalid_def sb_of_def rd32_def)
  have "r \<and> fs_ready s' \<and> g_kind s' = STORAGE_FS_SFS \<and> g_sb s' = fresh_sb \<and> g_table s' = replicate 64 zero_file \<and>
      sfs_synced (disk s') fresh_sb (replicate 64 zero_file) \<and> fs_medium s' = mc_medium (fs_blk s)"
  proof (rule ata_formats[OF assms(1,2) _ _ inv i])
    fix s1 :: "'a ata_fs"
    assume "fs_ready s1" "disk s1 = mc_block (fs_blk s)"
    then show "\<not> fst (fat_mount_and_scan_root ata_driver s1)"
      using ata_rejects[of s1 "fst (fat_mount_and_scan_root ata_driver s1)" "snd (fat_mount_and_scan_root ata_driver s1)"]
        assms(4) by simp
  qed (use assms(3) in auto)
  then show ?thesis
    using fresh_wf fresh_empty by (simp add: i sfs_mounted_def file_data_def sfs_synced_def)
qed

theorem blank_disk_formatted_witness:
  "fst (simplefs_init ata_driver (fs_start (ref_machine (\<lambda>l. replicate 512 0) 100)))"
proof -
  note ok = ref_machine_ok[of "\<lambda>l. replicate 512 0" 100, simplified]
  have "\<forall>i < 9. mc_stores (ref_machine (\<lambda>l. replicate 512 0) 100) i"
    using ok(6) by auto
  then show ?thesis
    using blank_disk_formatted[of "fs_start (ref_machine (\<lambda>l. replicate 512 0) 100)"] ok(1,3,4)
    by (simp add: fs_start_def fat_is_fat32_boot_sector_def rd32_def split_beta)
qed

text \<open>
  C16. On a FAT32 disk with a readable root directory chain simplefs_init mounts the volume
  without writing, and the file list is the plain files of the root directory in order, at most
  128, each with a name of at most 12 characters.
\<close>

theorem fat_mount_lists_root:
  assumes "mc_inv (fs_blk s)" "mc_good (fs_blk s) 0" "length (g_fat_files s) = 128"
    "fat_boot_ok (mc_block (fs_blk s) 0)" "g = fat_geometry (mc_block (fs_blk s) 0)"
    "fat_chain (fat_next (mc_block (fs_blk s)) g) (fi_root_cluster g) cs" "length cs \<le> 256"
    "\<forall>c \<in> set cs. cluster_ok (mc_good (fs_blk s)) g c"
  shows "case simplefs_init ata_driver s of (r, s') \<Rightarrow>
    r \<and> fs_ready s' \<and> g_kind s' = STORAGE_FS_FAT32 \<and> g_fat s' = g \<and> disk s' = mc_block (fs_blk s) \<and>
    fat_listing s' = take 128 (files_of (chain_entries (mc_block (fs_blk s)) g cs)) \<and>
    (\<forall>(nm, c, sz) \<in> set (fat_listing s'). length nm \<le> 12)"
proof -
  obtain r s' where i: "simplefs_init ata_driver s = (r, s')" by fastforce
  have ok: "\<And>c. c \<in> set cs \<Longrightarrow> cluster_ok (mc_good (fs_blk s)) g c" using assms(8) by blast
  note I = ata_mounts_fat[OF assms(1-4) assms(6)[unfolded assms(5)] assms(7) ok[unfolded assms(5)] i]
  have "length nm \<le> 12" if "(nm, c, sz) \<in> set (take 128 (files_of es))" for nm c sz es
    using set_take_subset[of 128 "files_of es"] that short_name_bound(1)
    by (auto simp: files_of_def entry_info_def)
  then show ?thesis using I by (auto simp: i assms(5))
qed

text \<open>A small FAT32 volume: boot sector, one FAT sector, the root directory in cluster 2.\<close>

definition fat_disk_example :: "nat \<Rightarrow> u8 list" where
  "fat_disk_example l =
     (if l = 0 then (replicate 512 0)[12 := 2, 13 := 1, 14 := 1, 16 := 1, 36 := 1, 44 := 2,
        82 := 0x46, 83 := 0x41, 84 := 0x54, 85 := 0x33, 86 := 0x32, 510 := 0x55, 511 := 0xAA]
      else if l = 1 then replicate 512 0xFF
      else if l = 2 then (replicate 512 0)[0 := 0x41, 8 := 0x54, 26 := 3, 28 := 5]
      else if l = 3 then replicate 512 7
      else replicate 512 8)"

lemma fat_disk_example_ok:
  "length (fat_disk_example l) = 512" "fat_boot_ok (fat_disk_example 0)"
  "fat_geometry (fat_disk_example 0) = \<lparr>fi_bytes_per_sector = 512, fi_sectors_per_cluster = 1,
     fi_reserved_sector_count = 1, fi_num_fats = 1, fi_fat_size_sectors = 1, fi_root_cluster = 2,
     fi_fat_start_lba = 1, fi_data_start_lba = 2\<rparr>"
  by (simp_all add: fat_disk_example_def fat_boot_ok_def fat_is_fat32_boot_sector_def rd16_def rd32_def
      fat_geometry_def)

lemma fat_disk_example_chain:
  "fat_chain (fat_next fat_disk_example (fat_geometry (fat_disk_example 0))) 2 [2]"
proof -
  have "fat_next fat_disk_example (fat_geometry (fat_disk_example 0)) 2 = 0x0FFFFFFF"
    unfolding fat_disk_example_ok(3) by (simp add: fat_next_def fat_disk_example_def rd32_def)
  then show ?thesis by (intro fat_chain.last) simp
qed

theorem fat_mount_lists_root_witness:
  "fat_listing (snd (simplefs_init ata_driver (fs_start (ref_machine fat_disk_example 100)))) =
     take 128 (files_of (chain_entries fat_disk_example (fat_geometry (fat_disk_example 0)) [2]))"
proof -
  note ok = ref_machine_ok[of fat_disk_example 100, OF fat_disk_example_ok(1)]
  let ?g = "fat_geometry (fat_disk_example 0)"
  have "cluster_ok (mc_good (ref_machine fat_disk_example 100)) ?g 2"
    by (simp add: cluster_ok_def fat_disk_example_ok(3) fat_cluster_to_lba_def ok(4))
  then show ?thesis
    using fat_mount_lists_root[of "fs_start (ref_machine fat_disk_example 100)" ?g "[2]"] ok(1,3,4)
      fat_disk_example_chain fat_disk_example_ok(2,3)
    by (simp add: fs_start_def split_beta)
qed

text \<open>
  C17. On a mounted FAT32 volume, reading the first file of the listing that has the given name,
  with a readable cluster chain of at most 4096 clusters, succeeds and returns the bytes of that
  file's chain, cut at its size in the listing and at the caller's buffer; it writes nothing.
\<close>

theorem fat_read_returns_chain:
  assumes "fs_ready s" "g_kind s = STORAGE_FS_FAT32"
    "i < length (fat_listing s)" "fat_listing s ! i = (cstr nm, c, sz)" "\<forall>j < i. fst (fat_listing s ! j) \<noteq> cstr nm"
    "fat_chain (fat_next (disk s) (g_fat s)) c cs" "length cs \<le> 4096"
    "\<forall>c \<in> set cs. cluster_ok (sector_ok s) (g_fat s) c"
  shows "case simplefs_read_file ata_driver (Some nm) True maxlen s of (res, s') \<Rightarrow>
    disk s' = disk s \<and> rr_ok res \<and> rr_len res = Some sz \<and>
    rr_bytes res = take (min (unat maxlen) (unat sz)) (chain_bytes (disk s) (g_fat s) cs)"
proof -
  obtain res s' where r: "simplefs_read_file ata_driver (Some nm) True maxlen s = (res, s')" by fastforce
  have ok: "\<And>c. c \<in> set cs \<Longrightarrow> cluster_ok (sector_ok s) (g_fat s) c" using assms(8) by blast
  note E = fat_find_listing[OF assms(3-5)]
  show ?thesis
    using ata_fat_read[OF assms(1,2) E(1) assms(6)[folded E(2)] assms(7) ok r] E(3) by (simp add: r ata_reads)
qed

definition fat_fs_example :: "ata_hw ata_fs" where
  "fat_fs_example = (fs_start (ref_machine fat_disk_example 100))\<lparr>g_kind := STORAGE_FS_FAT32,
     g_dev := Some (mc_storage (ref_machine fat_disk_example 100)),
     g_fat := fat_geometry (fat_disk_example 0),
     g_fat_files := (replicate 128 \<lparr>ff_name = replicate 32 0, ff_first_cluster = 0, ff_size_bytes = 0, ff_attr = 0\<rparr>)
       [0 := \<lparr>ff_name = (replicate 32 0)[0 := 0x41], ff_first_cluster = 3, ff_size_bytes = 5, ff_attr = 0\<rparr>,
        1 := \<lparr>ff_name = (replicate 32 0)[0 := 0x42], ff_first_cluster = 4, ff_size_bytes = 6, ff_attr = 0\<rparr>],
     g_fat_file_count := 2\<rparr>"

theorem fat_read_returns_chain_witness:
  "rr_bytes (fst (simplefs_read_file ata_driver (Some [0x42, 0]) True 100 fat_fs_example)) = replicate 6 8"
proof -
  note ok = ref_machine_ok[of fat_disk_example 100, OF fat_disk_example_ok(1)]
  let ?g = "fat_geometry (fat_disk_example 0)"
  have s: "fs_ready fat_fs_example" "g_kind fat_fs_example = STORAGE_FS_FAT32" "g_fat fat_fs_example = ?g"
    "disk fat_fs_example = fat_disk_example"
    using ok(1-3) by (simp_all add: fat_fs_example_def fs_ready_def disk_def fs_start_def)
  have so: "sector_ok fat_fs_example l" if "l < 100" for l
    using ok(4)[of l] that by (simp add: sector_ok_def fat_fs_example_def fs_start_def)
  have u: "take 2 ((replicate 128 z)[0 := a, 1 := b]) = [a, b]" for a b z :: fat32_file
  proof -
    have "replicate 128 z = z # z # replicate 126 z" by (simp flip: replicate_Suc)
    then show ?thesis by simp
  qed
  have n: "cstr ((replicate 32 (0 :: u8))[0 := b]) = [b]" if "b \<noteq> 0" for b
  proof -
    have "replicate 32 (0 :: u8) = 0 # 0 # replicate 30 0" by (simp flip: replicate_Suc)
    then show ?thesis using that by (simp add: cstr_Cons)
  qed
  have l: "fat_listing fat_fs_example = [([0x41], 3, 5), ([0x42], 4, 6)]"
    using n[of "0x41"] n[of "0x42"] by (simp add: fat_listing_def fat_fs_example_def fs_start_def u[simplified])
  have "fat_next fat_disk_example ?g 4 = 0x0FFFFFFF"
    unfolding fat_disk_example_ok(3) by (simp add: fat_next_def fat_disk_example_def rd32_def)
  then have c: "fat_chain (fat_next fat_disk_example ?g) 4 [4]" by (intro fat_chain.last) simp
  have k: "cluster_ok (sector_ok fat_fs_example) ?g 4"
    by (simp add: cluster_ok_def fat_disk_example_ok(3) fat_cluster_to_lba_def so)
  have "chain_bytes fat_disk_example ?g [4] = replicate 512 8"
    unfolding chain_bytes_def cluster_sectors_def fat_disk_example_ok(3) fat_cluster_to_lba_def
    by (simp add: fat_disk_example_def)
  then show ?thesis
    using fat_read_returns_chain[OF s(1,2), where i = 1 and nm = "[0x42, 0]" and c = 4 and sz = 6 and cs = "[4]"
      and maxlen = 100] c k s l by (simp add: split_beta cstr_Cons)
qed

text \<open>
  C18. A FAT32 disk whose root directory sector cannot be read, while its first nine sectors are
  writable, is not refused by simplefs_init: the mount falls through to the SFS path, the boot
  sector is overwritten by an SFS superblock and the volume comes up empty.
\<close>

theorem damaged_fat_is_formatted:
  assumes "mc_inv (fs_blk s)" "mc_good (fs_blk s) 0" "\<forall>i < 9. mc_stores (fs_blk s) i" "length (g_fat_files s) = 128"
    "fat_boot_ok (mc_block (fs_blk s) 0)" "g = fat_geometry (mc_block (fs_blk s) 0)"
    "\<not> mc_good (fs_blk s) (unat (fat_cluster_to_lba g (fi_root_cluster g)))"
    "rd32 (mc_block (fs_blk s) 0) 0 \<noteq> 0x31465353"
  shows "case simplefs_init ata_driver s of (r, s') \<Rightarrow>
    r \<and> g_kind s' = STORAGE_FS_SFS \<and> (\<forall>nm. file_data s' nm = None) \<and> disk s' 0 = sb_sector fresh_sb"
proof -
  obtain r s' where i: "simplefs_init ata_driver s = (r, s')" by fastforce
  have inv: "sb_invalid (sb_of (take 32 (mc_block (fs_blk s) 0)))"
    using assms(8) by (simp add: sb_invalid_def sb_of_def rd32_def)
  have "r \<and> fs_ready s' \<and> g_kind s' = STORAGE_FS_SFS \<and> g_sb s' = fresh_sb \<and> g_table s' = replicate 64 zero_file \<and>
      sfs_synced (disk s') fresh_sb (replicate 64 zero_file) \<and> fs_medium s' = mc_medium (fs_blk s)"
  proof (rule ata_formats[OF assms(1,2) _ _ inv i])
    fix s1 :: "'a ata_fs"
    assume "fs_ready s1" "disk s1 = mc_block (fs_blk s)" "fs_medium s1 = mc_medium (fs_blk s)"
      "g_fat_files s1 = g_fat_files s"
    moreover from this(3) have "sector_ok s1 = mc_good (fs_blk s)" by (metis fs_medium_simps(1) mc_medium_simps(1))
    ultimately show "\<not> fst (fat_mount_and_scan_root ata_driver s1)"
      using ata_dead_root[of s1] assms(2,4-7) by simp
  qed (use assms(3) in auto)
  then show ?thesis using fresh_empty by (simp add: i file_data_def sfs_synced_def)
qed


theorem damaged_fat_is_formatted_witness:
  "disk (snd (simplefs_init ata_driver (fs_start (ref_machine (fat_disk_example(0 := (fat_disk_example 0)[36 := 200])) 100)))) 0 =
     sb_sector fresh_sb"
proof -
  let ?d = "fat_disk_example(0 := (fat_disk_example 0)[36 := 200])"
  let ?s = "fs_start (ref_machine ?d 100)"
  have len: "length (?d l) = 512" for l by (simp add: fat_disk_example_ok(1))
  note ok = ref_machine_ok[of ?d 100, OF len]
  have g: "fat_geometry (?d 0) = \<lparr>fi_bytes_per_sector = 512, fi_sectors_per_cluster = 1,
     fi_reserved_sector_count = 1, fi_num_fats = 1, fi_fat_size_sectors = 200, fi_root_cluster = 2,
     fi_fat_start_lba = 1, fi_data_start_lba = 201\<rparr>"
    by (simp add: fat_geometry_def fat_disk_example_def rd16_def rd32_def)
  have b: "fat_boot_ok (?d 0)"
    by (simp add: fat_boot_ok_def fat_is_fat32_boot_sector_def fat_disk_example_def rd16_def rd32_def)
  have r: "rd32 (?d 0) 0 \<noteq> 0x31465353" by (simp add: fat_disk_example_def rd32_def)
  have "fat_cluster_to_lba (fat_geometry (?d 0)) (fi_root_cluster (fat_geometry (?d 0))) = 201"
    unfolding g by (simp add: fat_cluster_to_lba_def)
  then show ?thesis
    using damaged_fat_is_formatted[of ?s "fat_geometry (?d 0)"] ok b r
    by (simp add: fs_start_def split_beta del: fun_upd_apply)
qed

end
