(* ===== verification/XhciState.thy ===== *)
theory XhciState
  imports Vmm Input
begin

text \<open>
  The state of the xHCI driver (\<open>src/kernel/drivers/usb/xhci\<close>) and its view of the machine.
  The controller is a bus master: it shares the byte memory with the driver and has registers of
  its own. \<open>bus\<close> is that hardware as the driver sees it, over an arbitrary state \<open>'d\<close>: bytes of
  memory, memory-mapped registers, and \<open>b_turn\<close>, what the controller does by the time the driver
  looks again at memory it polls. Structures lie in memory as the packed C structs do. The
  file-scope variables are the fields of \<open>xhci\<close>; pages come from the page allocator of \<open>Vmm\<close>.
\<close>

section \<open>The bus\<close>

record 'd bus =
  b_ram :: "'d \<Rightarrow> u64 \<Rightarrow> u8"
  b_put :: "u64 \<Rightarrow> u8 \<Rightarrow> 'd \<Rightarrow> 'd"
  b_turn :: "'d \<Rightarrow> 'd"
  b_rd8 :: "u64 \<Rightarrow> 'd \<Rightarrow> u8 \<times> 'd"
  b_rd32 :: "u64 \<Rightarrow> 'd \<Rightarrow> u32 \<times> 'd"
  b_wr32 :: "u64 \<Rightarrow> u32 \<Rightarrow> 'd \<Rightarrow> 'd"
  b_wr64 :: "u64 \<Rightarrow> u64 \<Rightarrow> 'd \<Rightarrow> 'd"

section \<open>Driver state\<close>

record xhci_trb =
  trb_data :: u64
  trb_status :: u32
  trb_control :: u32

record xhci_device =
  xd_slot_id :: u32
  xd_ep0_mps :: u32
  xd_ep0_ring :: u64
  xd_ep0_index :: u32
  xd_ep0_cycle :: u8
  xd_dev_ctx :: u64
  xd_speed_code :: u8
  hid_ifnum :: u8
  hid_subclass :: u8
  hid_proto :: u8
  hid_report_desc_len :: u16
  hid_has_report_id :: u8
  hid_mouse_report_id :: u8
  hid_mouse_valid :: u8
  hid_buttons_bitoff :: u16
  hid_buttons_bits :: u16
  hid_x_bitoff :: u16
  hid_x_bits :: u8
  hid_x_is_relative :: u8
  hid_y_bitoff :: u16
  hid_y_bits :: u8
  hid_y_is_relative :: u8
  hid_wheel_bitoff :: u16
  hid_wheel_bits :: u8
  hid_wheel_is_relative :: u8
  hid_abs_have_last :: u8
  hid_abs_last_x :: i32
  hid_abs_last_y :: i32
  intr_epaddr :: u8
  intr_dci :: u8
  intr_mps :: u16
  intr_interval :: u8
  intr_ring :: u64
  intr_index :: u32
  intr_cycle :: u8
  intr_buf :: u64
  kbd_prev_mod :: u8
  kbd_prev_keys :: "u8 list"

record 'd xhci =
  cap_regs :: u64
  op_regs :: u64
  runtime_regs :: u64
  doorbell_regs :: u64
  command_ring :: u64
  command_ring_index :: u32
  command_ring_cycle :: u8
  event_ring :: u64
  event_ring_index :: u32
  event_ring_cycle :: u8
  x_erst :: u64
  x_dcbaa :: u64
  g_ctx_size :: u32
  g_devs :: "xhci_device list"
  x_vmm :: vmm
  x_input :: input
  x_hw :: 'd

text \<open>Offsets of the register structs.\<close>

definition cap_hcs_params1 :: u64 where "cap_hcs_params1 = 4"
definition cap_hcs_params2 :: u64 where "cap_hcs_params2 = 8"
definition cap_hcc_params1 :: u64 where "cap_hcc_params1 = 16"
definition cap_dboff :: u64 where "cap_dboff = 20"
definition cap_rtsoff :: u64 where "cap_rtsoff = 24"

definition op_usb_cmd :: u64 where "op_usb_cmd = 0"
definition op_usb_sts :: u64 where "op_usb_sts = 4"
definition op_crcr :: u64 where "op_crcr = 24"
definition op_dcbaap :: u64 where "op_dcbaap = 48"
definition op_config :: u64 where "op_config = 56"

definition rt_iman :: u64 where "rt_iman = 32"
definition rt_erstsz :: u64 where "rt_erstsz = 40"
definition rt_erstba :: u64 where "rt_erstba = 48"
definition rt_erdp :: u64 where "rt_erdp = 56"

section \<open>Access to devices, memory and registers\<close>

definition dev_at :: "nat \<Rightarrow> 'd xhci \<Rightarrow> xhci_device" where
  "dev_at i s = g_devs s ! i"

definition upd_dev :: "nat \<Rightarrow> (xhci_device \<Rightarrow> xhci_device) \<Rightarrow> 'd xhci \<Rightarrow> 'd xhci" where
  "upd_dev i f s = s\<lparr>g_devs := (g_devs s)[i := f (g_devs s ! i)]\<rparr>"

fun put_bytes :: "'d bus \<Rightarrow> u64 \<Rightarrow> u8 list \<Rightarrow> 'd \<Rightarrow> 'd" where
  "put_bytes b a [] d = d"
| "put_bytes b a (v # vs) d = put_bytes b (a + 1) vs (b_put b a v d)"

definition x_mem :: "'d bus \<Rightarrow> 'd xhci \<Rightarrow> u64 \<Rightarrow> u8" where
  "x_mem b s = b_ram b (x_hw s)"

definition x_put :: "'d bus \<Rightarrow> u64 \<Rightarrow> u8 list \<Rightarrow> 'd xhci \<Rightarrow> 'd xhci" where
  "x_put b a bs s = s\<lparr>x_hw := put_bytes b a bs (x_hw s)\<rparr>"

definition x_zero :: "'d bus \<Rightarrow> u64 \<Rightarrow> nat \<Rightarrow> 'd xhci \<Rightarrow> 'd xhci" where
  "x_zero b a n s = x_put b a (replicate n 0) s"

definition ld16 :: "(u64 \<Rightarrow> u8) \<Rightarrow> u64 \<Rightarrow> u16" where
  "ld16 m a = rd16 (bytes_at m a 2) 0"

definition ld32 :: "(u64 \<Rightarrow> u8) \<Rightarrow> u64 \<Rightarrow> u32" where
  "ld32 m a = rd32 (bytes_at m a 4) 0"

definition ld64 :: "(u64 \<Rightarrow> u8) \<Rightarrow> u64 \<Rightarrow> u64" where
  "ld64 m a = rd64 (bytes_at m a 8) 0"

definition st32 :: "'d bus \<Rightarrow> u64 \<Rightarrow> u32 \<Rightarrow> 'd xhci \<Rightarrow> 'd xhci" where
  "st32 b a v s = x_put b a (le32 v) s"

definition st64 :: "'d bus \<Rightarrow> u64 \<Rightarrow> u64 \<Rightarrow> 'd xhci \<Rightarrow> 'd xhci" where
  "st64 b a v s = x_put b a (le64 v) s"

definition trb_bytes :: "xhci_trb \<Rightarrow> u8 list" where
  "trb_bytes t = le64 (trb_data t) @ le32 (trb_status t) @ le32 (trb_control t)"

definition trb_at :: "(u64 \<Rightarrow> u8) \<Rightarrow> u64 \<Rightarrow> xhci_trb" where
  "trb_at m a = \<lparr>trb_data = ld64 m a, trb_status = ld32 m (a + 8), trb_control = ld32 m (a + 12)\<rparr>"

definition mm_rd8 :: "'d bus \<Rightarrow> u64 \<Rightarrow> 'd xhci \<Rightarrow> u8 \<times> 'd xhci" where
  "mm_rd8 b a s = (let (v, d) = b_rd8 b a (x_hw s) in (v, s\<lparr>x_hw := d\<rparr>))"

definition mm_rd32 :: "'d bus \<Rightarrow> u64 \<Rightarrow> 'd xhci \<Rightarrow> u32 \<times> 'd xhci" where
  "mm_rd32 b a s = (let (v, d) = b_rd32 b a (x_hw s) in (v, s\<lparr>x_hw := d\<rparr>))"

definition mm_wr32 :: "'d bus \<Rightarrow> u64 \<Rightarrow> u32 \<Rightarrow> 'd xhci \<Rightarrow> 'd xhci" where
  "mm_wr32 b a v s = s\<lparr>x_hw := b_wr32 b a v (x_hw s)\<rparr>"

definition mm_wr64 :: "'d bus \<Rightarrow> u64 \<Rightarrow> u64 \<Rightarrow> 'd xhci \<Rightarrow> 'd xhci" where
  "mm_wr64 b a v s = s\<lparr>x_hw := b_wr64 b a v (x_hw s)\<rparr>"

definition x_alloc :: "'d xhci \<Rightarrow> u64 \<times> 'd xhci" where
  "x_alloc s = (let (p, q) = PMM_AllocatePage (vm_pmm (x_vmm s))
     in (p, s\<lparr>x_vmm := (x_vmm s)\<lparr>vm_pmm := q\<rparr>\<rparr>))"

end
