(* ===== verification/XhciRing.thy ===== *)
theory XhciRing
  imports XhciState
begin

text \<open>
  The rings of the xHCI driver: transfer request blocks, the command, endpoint-0 and interrupt
  rings the driver produces, the event ring it consumes, and the control transfers on them
  (\<open>xhci.c\<close>, the first part of \<open>xhci_events.c\<close>, \<open>xhci_intr_ring_push\<close> of \<open>xhci_hid.c\<close>).
\<close>

section \<open>Transfer request blocks\<close>

definition trb_type :: "u32 \<Rightarrow> u32" where "trb_type control = drop_bit 10 control AND 0x3F"
definition trb_cc :: "u32 \<Rightarrow> u32" where "trb_cc status = drop_bit 24 status AND 0xFF"
definition trb_slot_id :: "u32 \<Rightarrow> u32" where "trb_slot_id control = drop_bit 24 control AND 0xFF"

definition make_trb_control :: "u32 \<Rightarrow> u8 \<Rightarrow> u32" where
  "make_trb_control ty cycle = (ucast cycle AND 1) OR push_bit 10 ty"

definition TRB_TYPE_NORMAL :: u32 where "TRB_TYPE_NORMAL = 1"
definition TRB_TYPE_SETUP_STAGE :: u32 where "TRB_TYPE_SETUP_STAGE = 2"
definition TRB_TYPE_DATA_STAGE :: u32 where "TRB_TYPE_DATA_STAGE = 3"
definition TRB_TYPE_STATUS_STAGE :: u32 where "TRB_TYPE_STATUS_STAGE = 4"
definition TRB_TYPE_LINK :: u32 where "TRB_TYPE_LINK = 6"
definition TRB_TYPE_ENABLE_SLOT_CMD :: u32 where "TRB_TYPE_ENABLE_SLOT_CMD = 9"
definition TRB_TYPE_ADDRESS_DEVICE_CMD :: u32 where "TRB_TYPE_ADDRESS_DEVICE_CMD = 11"
definition TRB_TYPE_CONFIGURE_EP_CMD :: u32 where "TRB_TYPE_CONFIGURE_EP_CMD = 12"
definition TRB_TYPE_EVALUATE_CTX_CMD :: u32 where "TRB_TYPE_EVALUATE_CTX_CMD = 13"
definition TRB_TYPE_COMMAND_COMPLETION :: u32 where "TRB_TYPE_COMMAND_COMPLETION = 33"
definition TRB_TYPE_TRANSFER_EVENT :: u32 where "TRB_TYPE_TRANSFER_EVENT = 32"

section \<open>Producing\<close>

text \<open>The store of one TRB with the producer's cycle bit, as each push writes it.\<close>

definition put_trb :: "'d bus \<Rightarrow> u64 \<Rightarrow> u32 \<Rightarrow> u8 \<Rightarrow> xhci_trb \<Rightarrow> 'd xhci \<Rightarrow> 'd xhci" where
  "put_trb b ring index cycle trb s =
     (let a = ring + 16 * ucast index;
          s = x_put b a (trb_bytes trb) s;
          s = st32 b (a + 12) (ld32 (x_mem b s) (a + 12) AND NOT 1) s
      in st32 b (a + 12) (ld32 (x_mem b s) (a + 12) OR ucast (cycle AND 1)) s)"

definition xhci_cmd_ring_push :: "'d bus \<Rightarrow> xhci_trb \<Rightarrow> 'd xhci \<Rightarrow> 'd xhci" where
  "xhci_cmd_ring_push b trb s =
     (let s = put_trb b (command_ring s) (command_ring_index s) (command_ring_cycle s) trb s;
          s = s\<lparr>command_ring_index := command_ring_index s + 1\<rparr>
      in if command_ring_index s = 256 - 1
         then s\<lparr>command_ring_index := 0, command_ring_cycle := command_ring_cycle s XOR 1\<rparr>
         else s)"

definition xhci_ep0_ring_push :: "'d bus \<Rightarrow> nat \<Rightarrow> xhci_trb \<Rightarrow> 'd xhci \<Rightarrow> 'd xhci" where
  "xhci_ep0_ring_push b i trb s =
     (let d = dev_at i s;
          s = put_trb b (xd_ep0_ring d) (xd_ep0_index d) (xd_ep0_cycle d) trb s;
          index = xd_ep0_index d + 1
      in if index = 255
         then upd_dev i (\<lambda>d. d\<lparr>xd_ep0_index := 0, xd_ep0_cycle := xd_ep0_cycle d XOR 1\<rparr>) s
         else upd_dev i (\<lambda>d. d\<lparr>xd_ep0_index := index\<rparr>) s)"

definition xhci_intr_ring_push :: "'d bus \<Rightarrow> nat \<Rightarrow> xhci_trb \<Rightarrow> 'd xhci \<Rightarrow> 'd xhci" where
  "xhci_intr_ring_push b i trb s =
     (let d = dev_at i s;
          s = put_trb b (intr_ring d) (intr_index d) (intr_cycle d) trb s;
          index = intr_index d + 1
      in if index = 255
         then upd_dev i (\<lambda>d. d\<lparr>intr_index := 0, intr_cycle := intr_cycle d XOR 1\<rparr>) s
         else upd_dev i (\<lambda>d. d\<lparr>intr_index := index\<rparr>) s)"

text \<open>A ring of 256 zeroed TRBs with a link back to its start, toggling the cycle, in the last.\<close>

definition link_trb :: "u64 \<Rightarrow> xhci_trb" where
  "link_trb ring = \<lparr>trb_data = ring, trb_status = 0,
     trb_control = make_trb_control TRB_TYPE_LINK 1 OR push_bit 1 1\<rparr>"

definition init_tr_ring :: "'d bus \<Rightarrow> u64 \<Rightarrow> 'd xhci \<Rightarrow> 'd xhci" where
  "init_tr_ring b ring s = x_put b (ring + 16 * 255) (trb_bytes (link_trb ring)) (x_zero b ring (16 * 256) s)"

definition xhci_alloc_tr_ring :: "'d bus \<Rightarrow> 'd xhci \<Rightarrow> u64 \<times> 'd xhci" where
  "xhci_alloc_tr_ring b s = (let (ring, s) = x_alloc s in (ring, init_tr_ring b ring s))"

definition xhci_ring_doorbell_cmd :: "'d bus \<Rightarrow> 'd xhci \<Rightarrow> 'd xhci" where
  "xhci_ring_doorbell_cmd b s = mm_wr32 b (doorbell_regs s) 0 s"

definition xhci_ring_doorbell_ep :: "'d bus \<Rightarrow> u32 \<Rightarrow> u32 \<Rightarrow> 'd xhci \<Rightarrow> 'd xhci" where
  "xhci_ring_doorbell_ep b slot_id dci s = mm_wr32 b (doorbell_regs s + 4 * ucast slot_id) dci s"

definition xhci_ring_doorbell_ep0 :: "'d bus \<Rightarrow> u32 \<Rightarrow> 'd xhci \<Rightarrow> 'd xhci" where
  "xhci_ring_doorbell_ep0 b slot_id s = mm_wr32 b (doorbell_regs s + 4 * ucast slot_id) 1 s"

section \<open>Consuming events\<close>

definition xhci_event_ring_update_erdp :: "'d bus \<Rightarrow> 'd xhci \<Rightarrow> 'd xhci" where
  "xhci_event_ring_update_erdp b s =
     (let next = event_ring s + 16 * ucast (event_ring_index s)
      in mm_wr64 b (runtime_regs s + rt_erdp) (next OR push_bit 3 1) s)"

definition xhci_poll_event :: "'d bus \<Rightarrow> 'd xhci \<Rightarrow> xhci_trb option \<times> 'd xhci" where
  "xhci_poll_event b s =
     (let s = s\<lparr>x_hw := b_turn b (x_hw s)\<rparr>;
          trb = trb_at (x_mem b s) (event_ring s + 16 * ucast (event_ring_index s))
      in if trb_control trb AND 1 \<noteq> ucast (event_ring_cycle s) then (None, s)
         else let s = s\<lparr>event_ring_index := event_ring_index s + 1\<rparr>;
                  s = (if event_ring_index s \<ge> 256
                       then s\<lparr>event_ring_index := 0, event_ring_cycle := event_ring_cycle s XOR 1\<rparr> else s)
              in (Some trb, xhci_event_ring_update_erdp b s))"

text \<open>The two waits poll a fixed number of times; the result is the slot id and completion code.\<close>

fun wait_command_loop :: "'d bus \<Rightarrow> nat \<Rightarrow> 'd xhci \<Rightarrow> (u32 \<times> u32) option \<times> 'd xhci" where
  "wait_command_loop b 0 s = (None, s)"
| "wait_command_loop b (Suc n) s =
     (case xhci_poll_event b s of
        (None, s) \<Rightarrow> wait_command_loop b n s
      | (Some evt, s) \<Rightarrow>
          if trb_type (trb_control evt) = TRB_TYPE_COMMAND_COMPLETION
          then (Some (trb_slot_id (trb_control evt), trb_cc (trb_status evt)), s)
          else wait_command_loop b n s)"

definition xhci_wait_for_command_completion :: "'d bus \<Rightarrow> 'd xhci \<Rightarrow> (u32 \<times> u32) option \<times> 'd xhci" where
  "xhci_wait_for_command_completion b s = wait_command_loop b 5000000 s"

fun wait_transfer_loop :: "'d bus \<Rightarrow> u32 \<Rightarrow> nat \<Rightarrow> 'd xhci \<Rightarrow> u32 option \<times> 'd xhci" where
  "wait_transfer_loop b slot_id 0 s = (None, s)"
| "wait_transfer_loop b slot_id (Suc n) s =
     (case xhci_poll_event b s of
        (None, s) \<Rightarrow> wait_transfer_loop b slot_id n s
      | (Some evt, s) \<Rightarrow>
          if trb_type (trb_control evt) = TRB_TYPE_TRANSFER_EVENT \<and> trb_slot_id (trb_control evt) = slot_id
          then (Some (trb_cc (trb_status evt)), s)
          else wait_transfer_loop b slot_id n s)"

definition xhci_wait_for_transfer_event :: "'d bus \<Rightarrow> u32 \<Rightarrow> 'd xhci \<Rightarrow> u32 option \<times> 'd xhci" where
  "xhci_wait_for_transfer_event b slot_id s = wait_transfer_loop b slot_id 50000000 s"

section \<open>Control transfers on endpoint 0\<close>

definition xhci_ep0_control_in :: "'d bus \<Rightarrow> nat \<Rightarrow> u64 \<Rightarrow> u64 \<Rightarrow> u32 \<Rightarrow> 'd xhci \<Rightarrow> bool \<times> 'd xhci" where
  "xhci_ep0_control_in b i setup buf len s =
     (let cycle = xd_ep0_cycle (dev_at i s);
          setup_trb = \<lparr>trb_data = setup, trb_status = 8, trb_control =
            make_trb_control TRB_TYPE_SETUP_STAGE cycle OR push_bit 16 2 OR push_bit 6 1 OR push_bit 5 1\<rparr>;
          data_trb = \<lparr>trb_data = buf, trb_status = len, trb_control =
            make_trb_control TRB_TYPE_DATA_STAGE cycle OR push_bit 16 1 OR push_bit 5 1\<rparr>;
          status_trb = \<lparr>trb_data = 0, trb_status = 0, trb_control =
            make_trb_control TRB_TYPE_STATUS_STAGE cycle OR push_bit 5 1\<rparr>;
          s = xhci_ep0_ring_push b i setup_trb s;
          s = xhci_ep0_ring_push b i data_trb s;
          s = xhci_ep0_ring_push b i status_trb s;
          s = xhci_ring_doorbell_ep0 b (xd_slot_id (dev_at i s)) s
      in case xhci_wait_for_transfer_event b (xd_slot_id (dev_at i s)) s of
           (None, s) \<Rightarrow> (False, s)
         | (Some cc, s) \<Rightarrow> (cc = 1, s))"

definition xhci_ep0_control_no_data_out :: "'d bus \<Rightarrow> nat \<Rightarrow> u64 \<Rightarrow> 'd xhci \<Rightarrow> bool \<times> 'd xhci" where
  "xhci_ep0_control_no_data_out b i setup s =
     (let cycle = xd_ep0_cycle (dev_at i s);
          setup_trb = \<lparr>trb_data = setup, trb_status = 8, trb_control =
            make_trb_control TRB_TYPE_SETUP_STAGE cycle OR push_bit 16 0 OR push_bit 6 1 OR push_bit 5 1\<rparr>;
          status_trb = \<lparr>trb_data = 0, trb_status = 0, trb_control =
            make_trb_control TRB_TYPE_STATUS_STAGE cycle OR push_bit 16 1 OR push_bit 5 1\<rparr>;
          s = xhci_ep0_ring_push b i setup_trb s;
          s = xhci_ep0_ring_push b i status_trb s;
          s = xhci_ring_doorbell_ep0 b (xd_slot_id (dev_at i s)) s
      in case xhci_wait_for_transfer_event b (xd_slot_id (dev_at i s)) s of
           (None, s) \<Rightarrow> (False, s)
         | (Some cc, s) \<Rightarrow> (cc = 1, s))"

end
