(* ===== verification/XhciHid.thy ===== *)
theory XhciHid
  imports XhciRing
begin

text \<open>
  The HID part of the driver, \<open>xhci_hid.c\<close>: bit fields of reports, the report descriptor parser
  that finds the mouse fields, the class requests, the set-up of the interrupt endpoint and the
  queueing of report transfers. The parser works on the bytes of the descriptor; its local
  variables are the fields of \<open>hid_parse\<close>. The descriptor length is a 16-bit field of at most
  4096, so the byte index cannot wrap and is a natural number here; bit positions are 32-bit.
\<close>

section \<open>Bit fields\<close>

text \<open>\<open>buf\<close> gives the byte at an index; the recursion counts the bits that are left.\<close>

fun hid_bits_loop :: "(u32 \<Rightarrow> u8) \<Rightarrow> u32 \<Rightarrow> nat \<Rightarrow> u32 \<Rightarrow> u32 \<Rightarrow> u32" where
  "hid_bits_loop buf bitoff 0 i v = v"
| "hid_bits_loop buf bitoff (Suc n) i v =
     (let bp = bitoff + i;
          byte = drop_bit 3 bp;
          bit = bp AND 7;
          bitv = ucast (drop_bit (unat bit) (buf byte)) AND (1 :: u32)
      in hid_bits_loop buf bitoff n (i + 1) (v OR push_bit (unat i) bitv))"

definition xhci_hid_get_bits_u32 :: "(u32 \<Rightarrow> u8) \<Rightarrow> u32 \<Rightarrow> u32 \<Rightarrow> u32" where
  "xhci_hid_get_bits_u32 buf bitoff bits = hid_bits_loop buf bitoff (min (unat bits) 32) 0 0"

definition xhci_hid_get_bits_s32 :: "(u32 \<Rightarrow> u8) \<Rightarrow> u32 \<Rightarrow> u32 \<Rightarrow> i32" where
  "xhci_hid_get_bits_s32 buf bitoff bits =
     (if bits = 0 \<or> bits > 32 then 0
      else let u = xhci_hid_get_bits_u32 buf bitoff bits in
        if bits < 32 then
          let sign = push_bit (unat (bits - 1)) 1 in
          if u AND sign \<noteq> 0 then u OR NOT (push_bit (unat bits) 1 - 1) else u
        else u)"

section \<open>The report descriptor\<close>

record hid_parse =
  usage_page :: u32
  report_size :: u32
  report_count :: u32
  bitpos :: u32
  report_id :: u32
  has_report_id :: bool
  usages :: "u32 list"
  usage_min :: u32
  usage_max :: u32
  has_range :: bool
  in_mouse_app :: bool
  in_mouse_phys :: bool
  seen_mouse_usage :: bool
  cur_is_relative :: u8
  pdev :: xhci_device

definition hid_global_item :: "u32 \<Rightarrow> u32 \<Rightarrow> hid_parse \<Rightarrow> hid_parse" where
  "hid_global_item tag v p =
     (if tag = 0x0 then p\<lparr>usage_page := v\<rparr>
      else if tag = 0x7 then p\<lparr>report_size := v\<rparr>
      else if tag = 0x9 then p\<lparr>report_count := v\<rparr>
      else if tag = 0x8 then p\<lparr>report_id := v, has_report_id := True, bitpos := 0\<rparr>
      else p)"

definition hid_local_item :: "u32 \<Rightarrow> u32 \<Rightarrow> hid_parse \<Rightarrow> hid_parse" where
  "hid_local_item tag v p =
     (if tag = 0x0 then (if length (usages p) < 16 then p\<lparr>usages := usages p @ [v]\<rparr> else p)
      else if tag = 0x1 then p\<lparr>usage_min := v, has_range := True\<rparr>
      else if tag = 0x2 then p\<lparr>usage_max := v, has_range := True\<rparr>
      else p)"

definition hid_collection :: "hid_parse \<Rightarrow> hid_parse" where
  "hid_collection p =
     (let u = (if usages p \<noteq> [] then usages p ! 0 else 0);
          p = (if usage_page p = 0x01 \<and> u = 0x02 then p\<lparr>seen_mouse_usage := True\<rparr> else p);
          p = (if seen_mouse_usage p then
                 (if \<not> in_mouse_app p then p\<lparr>in_mouse_app := True\<rparr> else p\<lparr>in_mouse_phys := True\<rparr>)
               else p)
      in p\<lparr>usages := [], has_range := False\<rparr>)"

definition hid_end_collection :: "hid_parse \<Rightarrow> hid_parse" where
  "hid_end_collection p =
     (let p = (if in_mouse_phys p then p\<lparr>in_mouse_phys := False\<rparr>
               else if in_mouse_app p then p\<lparr>in_mouse_app := False\<rparr> else p)
      in p\<lparr>usages := [], has_range := False\<rparr>)"

text \<open>The usage of field \<open>f\<close>, and what a field of the Generic Desktop page sets.\<close>

definition hid_field_usage :: "hid_parse \<Rightarrow> u32 \<Rightarrow> u32" where
  "hid_field_usage p f =
     (if has_range p then (let uu = usage_min p + f in if uu \<le> usage_max p then uu else 0)
      else if unat f < length (usages p) then usages p ! unat f else 0)"

definition hid_axis_field :: "hid_parse \<Rightarrow> u32 \<Rightarrow> u32 \<Rightarrow> xhci_device \<Rightarrow> xhci_device" where
  "hid_axis_field p f u d =
     (let off = ucast (bitpos p + f * report_size p); bits = ucast (report_size p); rel = cur_is_relative p in
      if u = 0x30 \<and> hid_x_bits d = 0
      then d\<lparr>hid_x_bitoff := off, hid_x_bits := bits, hid_x_is_relative := rel\<rparr>
      else if u = 0x31 \<and> hid_y_bits d = 0
      then d\<lparr>hid_y_bitoff := off, hid_y_bits := bits, hid_y_is_relative := rel\<rparr>
      else if u = 0x38 \<and> hid_wheel_bits d = 0
      then d\<lparr>hid_wheel_bitoff := off, hid_wheel_bits := bits, hid_wheel_is_relative := rel\<rparr>
      else d)"

fun hid_fields_loop :: "nat \<Rightarrow> u32 \<Rightarrow> hid_parse \<Rightarrow> hid_parse" where
  "hid_fields_loop 0 f p = p"
| "hid_fields_loop (Suc n) f p =
     (let u = hid_field_usage p f in
      if usage_page p = 0x09 then
        (if hid_buttons_bits (pdev p) = 0
         then p\<lparr>pdev := (pdev p)\<lparr>hid_buttons_bitoff := ucast (bitpos p),
                  hid_buttons_bits := ucast (report_count p * report_size p)\<rparr>\<rparr>
         else p)
      else hid_fields_loop n (f + 1)
             (if usage_page p = 0x01 then p\<lparr>pdev := hid_axis_field p f u (pdev p)\<rparr> else p))"

definition hid_data_item :: "u32 \<Rightarrow> hid_parse \<Rightarrow> hid_parse" where
  "hid_data_item v p =
     (let p = p\<lparr>cur_is_relative := (if v AND push_bit 2 1 \<noteq> 0 then 1 else 0)\<rparr>;
          count = report_count p; size_bits = report_size p in
      if count = 0 \<or> size_bits = 0 then p\<lparr>usages := [], has_range := False\<rparr>
      else (if in_mouse_app p \<or> in_mouse_phys p then hid_fields_loop (unat count) 0 p else p)
             \<lparr>bitpos := bitpos p + count * size_bits, usages := [], has_range := False\<rparr>)"

definition hid_item :: "u8 \<Rightarrow> u32 \<Rightarrow> hid_parse \<Rightarrow> hid_parse" where
  "hid_item pre v p =
     (let type = drop_bit 2 pre AND 0x3; tag = ucast (drop_bit 4 pre AND 0xF) :: u32 in
      if type = 1 then hid_global_item tag v p
      else if type = 2 then hid_local_item tag v p
      else if type = 0 then
        (if tag = 0xA then hid_collection p
         else if tag = 0xC then hid_end_collection p
         else if tag = 0x8 \<or> tag = 0x9 then hid_data_item v p
         else p)
      else p)"

text \<open>The value of an item: \<open>sz\<close> little-endian bytes at \<open>i\<close>.\<close>

fun hid_value_loop :: "u8 list \<Rightarrow> nat \<Rightarrow> nat \<Rightarrow> nat \<Rightarrow> u32 \<Rightarrow> u32" where
  "hid_value_loop d i 0 k v = v"
| "hid_value_loop d i (Suc n) k v = hid_value_loop d i n (k + 1) (v OR push_bit (8 * k) (ucast (d ! (i + k))))"

function hid_items_loop :: "u8 list \<Rightarrow> nat \<Rightarrow> nat \<Rightarrow> hid_parse \<Rightarrow> hid_parse" where
  "hid_items_loop d len i p =
     (if \<not> i < len then p
      else let pre = d ! i; i = i + 1 in
        if pre = 0xFE then
          (if i + 2 > len then p
           else let sz = unat (d ! i); i = i + 2 in
             if i + sz > len then p else hid_items_loop d len (i + sz) p)
        else
          let sz_code = pre AND 0x3; sz = (if sz_code = 3 then 4 else unat sz_code) in
          if i + sz > len then p
          else hid_items_loop d len (i + sz) (hid_item pre (hid_value_loop d i sz 0 0) p))"
  by pat_completeness auto
termination
  by (relation "measure (\<lambda>(d, len, i, p). len - i)") (auto simp: Let_def)

declare hid_items_loop.simps [simp del]

definition hid_reset_mouse :: "xhci_device \<Rightarrow> xhci_device" where
  "hid_reset_mouse d = d\<lparr>hid_mouse_valid := 0, hid_has_report_id := 0, hid_mouse_report_id := 0,
     hid_buttons_bitoff := 0, hid_buttons_bits := 0, hid_x_bitoff := 0, hid_x_bits := 0, hid_x_is_relative := 0,
     hid_y_bitoff := 0, hid_y_bits := 0, hid_y_is_relative := 0, hid_wheel_bitoff := 0, hid_wheel_bits := 0,
     hid_wheel_is_relative := 0\<rparr>"

definition hid_parse_start :: "xhci_device \<Rightarrow> hid_parse" where
  "hid_parse_start d = \<lparr>usage_page = 0, report_size = 0, report_count = 0, bitpos = 0, report_id = 0,
     has_report_id = False, usages = [], usage_min = 0, usage_max = 0, has_range = False,
     in_mouse_app = False, in_mouse_phys = False, seen_mouse_usage = False, cur_is_relative = 0,
     pdev = hid_reset_mouse d\<rparr>"

definition xhci_hid_parse_report_desc_mouse :: "u8 list \<Rightarrow> nat \<Rightarrow> xhci_device \<Rightarrow> xhci_device" where
  "xhci_hid_parse_report_desc_mouse d len dev =
     (let p = hid_items_loop d len 0 (hid_parse_start dev); dev = pdev p in
      if hid_x_bits dev \<noteq> 0 \<and> hid_y_bits dev \<noteq> 0
      then dev\<lparr>hid_has_report_id := (if has_report_id p then 1 else 0),
               hid_mouse_report_id := ucast (report_id p), hid_mouse_valid := 1\<rparr>
      else dev)"

section \<open>Requests\<close>

definition setup_packet :: "u64 \<Rightarrow> u64 \<Rightarrow> u64 \<Rightarrow> u64 \<Rightarrow> u64 \<Rightarrow> u64" where
  "setup_packet req_type req val idx len =
     0 OR req_type OR push_bit 8 req OR push_bit 16 val OR push_bit 32 idx OR push_bit 48 len"

definition xhci_hid_try_parse_mouse_report_desc :: "'d bus \<Rightarrow> nat \<Rightarrow> 'd xhci \<Rightarrow> 'd xhci" where
  "xhci_hid_try_parse_mouse_report_desc b i s =
     (let d = dev_at i s in
      if hid_ifnum d = 0xFF then s
      else if hid_report_desc_len d = 0 \<or> hid_report_desc_len d > 4096 then s
      else
        let (buf, s) = x_alloc s;
            s = x_zero b buf 4096 s;
            setup = setup_packet 0x81 0x06 0x2200 (ucast (hid_ifnum d)) (ucast (hid_report_desc_len d));
            (ok, s) = xhci_ep0_control_in b i setup buf (ucast (hid_report_desc_len d)) s
        in if \<not> ok then s
           else let len = unat (hid_report_desc_len (dev_at i s))
                in upd_dev i (xhci_hid_parse_report_desc_mouse (bytes_at (x_mem b s) buf len) len) s)"

definition xhci_hid_set_protocol_boot :: "'d bus \<Rightarrow> nat \<Rightarrow> 'd xhci \<Rightarrow> bool \<times> 'd xhci" where
  "xhci_hid_set_protocol_boot b i s =
     (let d = dev_at i s in
      if hid_ifnum d = 0xFF then (False, s)
      else xhci_ep0_control_no_data_out b i (setup_packet 0x21 0x0B 0 (ucast (hid_ifnum d)) 0) s)"

definition xhci_hid_set_idle :: "'d bus \<Rightarrow> nat \<Rightarrow> 'd xhci \<Rightarrow> bool \<times> 'd xhci" where
  "xhci_hid_set_idle b i s =
     (let d = dev_at i s in
      if hid_ifnum d = 0xFF then (False, s)
      else xhci_ep0_control_no_data_out b i (setup_packet 0x21 0x0A 0 (ucast (hid_ifnum d)) 0) s)"

section \<open>The interrupt endpoint\<close>

text \<open>Copy of \<open>n\<close> bytes between two structures in memory.\<close>

definition x_copy :: "'d bus \<Rightarrow> u64 \<Rightarrow> u64 \<Rightarrow> nat \<Rightarrow> 'd xhci \<Rightarrow> 'd xhci" where
  "x_copy b dst src n s = x_put b dst (bytes_at (x_mem b s) src n) s"

definition install_intr_ring :: "'d bus \<Rightarrow> nat \<Rightarrow> 'd xhci \<Rightarrow> 'd xhci" where
  "install_intr_ring b i s = (let (ring, s) = xhci_alloc_tr_ring b s in
     upd_dev i (\<lambda>d. d\<lparr>intr_ring := ring, intr_index := 0, intr_cycle := 1\<rparr>) s)"

definition xhci_cmd_configure_intr_in_ep :: "'d bus \<Rightarrow> nat \<Rightarrow> 'd xhci \<Rightarrow> bool \<times> 'd xhci" where
  "xhci_cmd_configure_intr_in_ep b i s =
     (let d = dev_at i s in
      if intr_epaddr d = 0 \<or> intr_mps d = 0 then (False, s)
      else let dci = ucast (intr_dci d) :: u32 in
      if dci = 0 then (False, s)
      else let ctx_index = dci + 1;
          s = install_intr_ring b i s;
          (input_ctx, s) = x_alloc s;
          s = x_zero b input_ctx 4096 s;
          s = st32 b (input_ctx + 4) (push_bit 0 1 OR push_bit (unat dci) 1) s;
          s = st32 b input_ctx 0 s;
          slot = input_ctx + ucast (g_ctx_size s);
          s = (if xd_dev_ctx (dev_at i s) \<noteq> 0 then x_copy b slot (xd_dev_ctx (dev_at i s)) 32 s
               else x_zero b slot 32 s);
          s = st32 b slot (ld32 (x_mem b s) slot AND NOT (push_bit 27 0x1F)) s;
          s = st32 b slot (ld32 (x_mem b s) slot OR push_bit 27 (dci AND 0x1F)) s;
          ep = input_ctx + ucast (ctx_index * g_ctx_size s);
          s = st32 b (ep + 4) (push_bit 16 (ucast (intr_mps (dev_at i s)) AND 0xFFFF) OR push_bit 8 0
                OR push_bit 3 (7 AND 0x7) OR 3) s;
          trdp = (intr_ring (dev_at i s) AND NOT 0xF) OR 1;
          s = st32 b (ep + 8) (ucast (trdp AND 0xFFFFFFFF)) s;
          s = st32 b (ep + 12) (ucast (drop_bit 32 trdp AND 0xFFFFFFFF)) s;
          interval = ucast (intr_interval (dev_at i s)) :: u32;
          s = st32 b ep (push_bit 16 (interval AND 0xFF)) s;
          s = st32 b (ep + 16) (8 OR push_bit 16 (ucast (intr_mps (dev_at i s)) AND 0xFFFF)) s;
          cmd = \<lparr>trb_data = input_ctx, trb_status = 0,
            trb_control = make_trb_control TRB_TYPE_CONFIGURE_EP_CMD (command_ring_cycle s)
              OR push_bit 24 (xd_slot_id (dev_at i s))\<rparr>;
          s = xhci_cmd_ring_push b cmd s;
          s = xhci_ring_doorbell_cmd b s
      in case xhci_wait_for_command_completion b s of
           (None, s) \<Rightarrow> (False, s)
         | (Some (evt_slot, cc), s) \<Rightarrow> (cc = 1, s))"

definition xhci_hid_start_polling :: "'d bus \<Rightarrow> nat \<Rightarrow> 'd xhci \<Rightarrow> 'd xhci" where
  "xhci_hid_start_polling b i s =
     (if intr_ring (dev_at i s) = 0 then s
      else let s = (if intr_buf (dev_at i s) = 0 then
                      let (buf, s) = x_alloc s; s = upd_dev i (\<lambda>d. d\<lparr>intr_buf := buf\<rparr>) s
                      in x_zero b buf 4096 s
                    else s);
               dci = ucast (intr_dci (dev_at i s)) :: u32 in
      if dci = 0 then s
      else let trb = \<lparr>trb_data = intr_buf (dev_at i s), trb_status = ucast (intr_mps (dev_at i s)) AND 0xFFFF,
                 trb_control = make_trb_control TRB_TYPE_NORMAL (intr_cycle (dev_at i s))
                   OR push_bit 5 1 OR push_bit 2 1\<rparr>;
               s = xhci_intr_ring_push b i trb s
           in xhci_ring_doorbell_ep b (xd_slot_id (dev_at i s)) dci s)"

end
