(* ===== verification/XhciEvents.thy ===== *)
theory XhciEvents
  imports XhciHid
begin

text \<open>
  What the driver does with the transfer events of its HID devices (\<open>xhci_events.c\<close>): decoding
  of mouse, tablet and keyboard reports into the input module, and re-queueing of the transfer.
  \<open>xhci_poll_events\<close> loops until the event ring is empty; as the controller can keep it filled,
  the loop is a \<^theory_text>\<open>partial_function\<close>.
\<close>

section \<open>Keyboard\<close>

definition xhci_kbd_has_key :: "u8 list \<Rightarrow> u8 \<Rightarrow> bool" where
  "xhci_kbd_has_key keys k \<longleftrightarrow> (if k = 0 then True else k \<in> set (take 6 keys))"

definition k_no_shift :: "u8 list" where
  "k_no_shift = [0x31, 0x32, 0x33, 0x34, 0x35, 0x36, 0x37, 0x38, 0x39, 0x30]"

definition k_shift :: "u8 list" where
  "k_shift = [0x21, 0x40, 0x23, 0x24, 0x25, 0x5E, 0x26, 0x2A, 0x28, 0x29]"

definition xhci_kbd_keycode_to_ascii :: "u8 \<Rightarrow> bool \<Rightarrow> u8" where
  "xhci_kbd_keycode_to_ascii key shift =
     (if 0x04 \<le> key \<and> key \<le> 0x1D then (if shift then 0x41 + (key - 0x04) else 0x61 + (key - 0x04))
      else if 0x1E \<le> key \<and> key \<le> 0x27 then
        (let idx = key - 0x1E in if shift then k_shift ! unat idx else k_no_shift ! unat idx)
      else if key = 0x28 then 0x0A
      else if key = 0x2A then 0x08
      else if key = 0x2B then 0x09
      else if key = 0x2C then 0x20
      else if key = 0x2D then (if shift then 0x5F else 0x2D)
      else if key = 0x2E then (if shift then 0x2B else 0x3D)
      else if key = 0x2F then (if shift then 0x7B else 0x5B)
      else if key = 0x30 then (if shift then 0x7D else 0x5D)
      else if key = 0x31 then (if shift then 0x7C else 0x5C)
      else if key = 0x33 then (if shift then 0x3A else 0x3B)
      else if key = 0x34 then (if shift then 0x22 else 0x27)
      else if key = 0x35 then (if shift then 0x7E else 0x60)
      else if key = 0x36 then (if shift then 0x3C else 0x2C)
      else if key = 0x37 then (if shift then 0x3E else 0x2E)
      else if key = 0x38 then (if shift then 0x3F else 0x2F)
      else 0)"

text \<open>One key of a report: its character is queued when the previous report did not hold it.\<close>

definition kbd_key :: "u8 list \<Rightarrow> bool \<Rightarrow> u8 \<Rightarrow> input \<Rightarrow> input" where
  "kbd_key prev shift k q =
     (if k = 0 then q
      else if \<not> xhci_kbd_has_key prev k then
        (let c = xhci_kbd_keycode_to_ascii k shift in if c \<noteq> 0 then input_kbd_push_char c q else q)
      else q)"

definition kbd_report :: "(u32 \<Rightarrow> u8) \<Rightarrow> nat \<Rightarrow> 'd xhci \<Rightarrow> 'd xhci" where
  "kbd_report r i s =
     (let modifiers = r 0;
          shift = (modifiers AND 0x02 \<noteq> 0 \<or> modifiers AND 0x20 \<noteq> 0);
          keys = map (\<lambda>j. r (2 + of_nat j)) [0..<6];
          s = s\<lparr>x_input := fold (kbd_key (kbd_prev_keys (dev_at i s)) shift) keys (x_input s)\<rparr>
      in upd_dev i (\<lambda>d. d\<lparr>kbd_prev_mod := modifiers, kbd_prev_keys := keys\<rparr>) s)"

section \<open>Pointer\<close>

text \<open>A signed field as the report decoder extracts it inline: no extension at 0 or 32 bits and above.\<close>

definition report_field :: "(u32 \<Rightarrow> u8) \<Rightarrow> u32 \<Rightarrow> u32 \<Rightarrow> i32" where
  "report_field r bitoff bits =
     (let u = hid_bits_loop r bitoff (min (unat bits) 32) 0 0 in
      if bits \<noteq> 0 \<and> bits < 32 then
        let sign = push_bit (unat (bits - 1)) 1 in
        if u AND sign \<noteq> 0 then u OR NOT (push_bit (unat bits) 1 - 1) else u
      else u)"

text \<open>A report by the parsed descriptor; the report id is checked before the fields are read.\<close>

definition mouse_report :: "(u32 \<Rightarrow> u8) \<Rightarrow> u32 \<Rightarrow> nat \<Rightarrow> 'd xhci \<Rightarrow> 'd xhci" where
  "mouse_report r xfer_len i s =
     (let d = dev_at i s in
      if hid_has_report_id d \<noteq> 0 \<and> (xfer_len < 1 \<or> r 0 \<noteq> hid_mouse_report_id d) then s
      else
        let base_bit = (if hid_has_report_id d \<noteq> 0 then 8 else 0);
            buttons = (if hid_buttons_bits d \<noteq> 0
                       then hid_bits_loop r (ucast (hid_buttons_bitoff d) + base_bit)
                              (min (unat (hid_buttons_bits d)) 32) 0 0
                       else 0);
            dx = report_field r (ucast (hid_x_bitoff d) + base_bit) (ucast (hid_x_bits d));
            dy = report_field r (ucast (hid_y_bitoff d) + base_bit) (ucast (hid_y_bits d))
        in if hid_x_is_relative d \<noteq> 0 \<and> hid_y_is_relative d \<noteq> 0
           then s\<lparr>x_input := input_pointer_add_rel dx dy buttons (x_input s)\<rparr>
           else let s = upd_dev i (\<lambda>d. d\<lparr>hid_abs_last_x := dx, hid_abs_last_y := dy, hid_abs_have_last := 1\<rparr>) s
                in s\<lparr>x_input := input_pointer_set_abs_scaled dx dy 0x7FFF 0x7FFF buttons (x_input s)\<rparr>)"

definition boot_mouse_report :: "(u32 \<Rightarrow> u8) \<Rightarrow> 'd xhci \<Rightarrow> 'd xhci" where
  "boot_mouse_report r s =
     s\<lparr>x_input := input_pointer_add_rel (scast (r 1)) (scast (r 2)) (ucast (r 0)) (x_input s)\<rparr>"

section \<open>Events\<close>

definition xhci_handle_report :: "'d bus \<Rightarrow> xhci_trb \<Rightarrow> nat \<Rightarrow> 'd xhci \<Rightarrow> 'd xhci" where
  "xhci_handle_report b evt i s =
     (let d = dev_at i s;
          cc = trb_cc (trb_status evt);
          trb_len_remaining = trb_status evt AND 0xFFFFFF;
          xfer_len = (if intr_mps d \<noteq> 0 \<and> trb_len_remaining \<le> ucast (intr_mps d)
                      then ucast (intr_mps d) - trb_len_remaining else ucast (intr_mps d));
          r = (\<lambda>k. x_mem b s (intr_buf d + ucast k))
      in if (cc = 1 \<or> cc = 13) \<and> intr_buf d \<noteq> 0 then
           (if hid_mouse_valid d \<noteq> 0 then mouse_report r xfer_len i s
            else if hid_proto d = 2 then boot_mouse_report r s
            else if hid_proto d = 1 then (if xfer_len \<ge> 8 then kbd_report r i s else s)
            else s)
         else s)"

definition xhci_handle_event :: "'d bus \<Rightarrow> xhci_trb \<Rightarrow> 'd xhci \<Rightarrow> 'd xhci" where
  "xhci_handle_event b evt s =
     (if trb_type (trb_control evt) \<noteq> TRB_TYPE_TRANSFER_EVENT then s
      else let slot_id = trb_slot_id (trb_control evt);
               ep_id = drop_bit 16 (trb_control evt) AND 0x1F;
               i = unat slot_id in
      if slot_id = 0 \<or> slot_id \<ge> 256 then s
      else if xd_slot_id (dev_at i s) \<noteq> slot_id then s
      else if intr_dci (dev_at i s) = 0 then s
      else if ep_id \<noteq> ucast (intr_dci (dev_at i s)) then s
      else let s = xhci_handle_report b evt i s in
        if intr_ring (dev_at i s) \<noteq> 0 \<and> intr_mps (dev_at i s) \<noteq> 0
        then xhci_hid_start_polling b i s else s)"

partial_function (option) xhci_poll_events_loop :: "'d bus \<Rightarrow> 'd xhci \<Rightarrow> 'd xhci option" where
  "xhci_poll_events_loop b s =
     (let r = xhci_poll_event b s in
      if fst r = None then Some (snd r)
      else xhci_poll_events_loop b (xhci_handle_event b (the (fst r)) (snd r)))"

definition xhci_poll_events :: "'d bus \<Rightarrow> 'd xhci \<Rightarrow> 'd xhci option" where
  "xhci_poll_events b s = (if event_ring s = 0 then Some s else xhci_poll_events_loop b s)"

end
