(* ===== verification/XhciEnum.thy ===== *)
theory XhciEnum
  imports XhciEvents
begin

text \<open>
  Device enumeration and controller bring-up, the rest of \<open>xhci.c\<close>: root-hub ports, the slot and
  address commands, descriptors and configuration, and \<open>xhci_init\<close>. The three waits of the reset
  sequence have no bound in the code, so they are \<^theory_text>\<open>partial_function\<close>s and \<open>xhci_init\<close> is
  partial; every other wait has the code's own spin count.
\<close>

section \<open>Ports\<close>

definition PORTSC_CCS :: u32 where "PORTSC_CCS = push_bit 0 1"
definition PORTSC_PED :: u32 where "PORTSC_PED = push_bit 1 1"
definition PORTSC_PR :: u32 where "PORTSC_PR = push_bit 4 1"
definition PORTSC_PLS_MASK :: u32 where "PORTSC_PLS_MASK = push_bit 5 0xF"
definition PORTSC_PP :: u32 where "PORTSC_PP = push_bit 9 1"
definition PORTSC_SPEED_MASK :: u32 where "PORTSC_SPEED_MASK = push_bit 10 0xF"
definition PORTSC_LWS :: u32 where "PORTSC_LWS = push_bit 16 1"
definition PORTSC_W1C :: u32 where
  "PORTSC_W1C = push_bit 17 1 OR push_bit 18 1 OR push_bit 19 1 OR push_bit 20 1 OR push_bit 21 1 OR push_bit 22 1"
definition PORTSC_WPR :: u32 where "PORTSC_WPR = push_bit 31 1"

definition xhci_port_speed :: "u32 \<Rightarrow> u32" where
  "xhci_port_speed portsc = drop_bit 10 (portsc AND PORTSC_SPEED_MASK)"

definition xhci_port_pls :: "u32 \<Rightarrow> u32" where
  "xhci_port_pls portsc = drop_bit 5 portsc AND 0xF"

definition xhci_port_ready :: "u32 \<Rightarrow> bool" where
  "xhci_port_ready ps \<longleftrightarrow> ps AND PORTSC_CCS \<noteq> 0 \<and> ps AND PORTSC_PED \<noteq> 0 \<and>
     xhci_port_speed ps \<noteq> 0 \<and> xhci_port_pls ps = 0"

text \<open>The port functions take the address of the register and the last value read of it.\<close>

definition xhci_port_power_on :: "'d bus \<Rightarrow> u64 \<Rightarrow> u32 \<Rightarrow> 'd xhci \<Rightarrow> u32 \<times> 'd xhci" where
  "xhci_port_power_on b portsc ps s =
     (if ps AND PORTSC_PP = 0
      then mm_rd32 b portsc (mm_wr32 b portsc ((ps OR PORTSC_PP) AND NOT PORTSC_W1C) s)
      else (ps, s))"

definition xhci_port_clear_w1c :: "'d bus \<Rightarrow> u64 \<Rightarrow> u32 \<Rightarrow> 'd xhci \<Rightarrow> u32 \<times> 'd xhci" where
  "xhci_port_clear_w1c b portsc ps s =
     (if ps AND PORTSC_W1C \<noteq> 0
      then mm_rd32 b portsc (mm_wr32 b portsc (ps OR PORTSC_W1C) s)
      else (ps, s))"

fun xhci_port_wait_ready :: "'d bus \<Rightarrow> u64 \<Rightarrow> nat \<Rightarrow> 'd xhci \<Rightarrow> (bool \<times> u32) \<times> 'd xhci" where
  "xhci_port_wait_ready b portsc 0 s = (let (ps, s) = mm_rd32 b portsc s in ((False, ps), s))"
| "xhci_port_wait_ready b portsc (Suc n) s =
     (let (ps, s) = mm_rd32 b portsc s in
      if xhci_port_ready ps then ((True, ps), s) else xhci_port_wait_ready b portsc n s)"

definition xhci_port_force_u0 :: "'d bus \<Rightarrow> u64 \<Rightarrow> 'd xhci \<Rightarrow> 'd xhci" where
  "xhci_port_force_u0 b portsc s =
     (let (ps, s) = mm_rd32 b portsc s in
      if ps AND PORTSC_CCS = 0 then s
      else if xhci_port_pls ps = 0 then s
      else mm_wr32 b portsc (((ps AND NOT PORTSC_PLS_MASK) OR PORTSC_LWS) AND NOT PORTSC_W1C) s)"

text \<open>Waiting until a reset bit reads as zero, or the spins are used up.\<close>

fun wait_clear :: "'d bus \<Rightarrow> u64 \<Rightarrow> u32 \<Rightarrow> nat \<Rightarrow> 'd xhci \<Rightarrow> 'd xhci" where
  "wait_clear b portsc rmask 0 s = s"
| "wait_clear b portsc rmask (Suc n) s =
     (let (ps, s) = mm_rd32 b portsc s in
      if ps AND rmask = 0 then s else wait_clear b portsc rmask n s)"

definition xhci_port_warm_reset :: "'d bus \<Rightarrow> u64 \<Rightarrow> 'd xhci \<Rightarrow> 'd xhci" where
  "xhci_port_warm_reset b portsc s =
     (let (ps, s) = mm_rd32 b portsc s;
          s = mm_wr32 b portsc ((ps AND NOT PORTSC_W1C) OR PORTSC_WPR) s
      in wait_clear b portsc PORTSC_WPR 20000000 s)"

definition xhci_port_cold_reset :: "'d bus \<Rightarrow> u64 \<Rightarrow> 'd xhci \<Rightarrow> 'd xhci" where
  "xhci_port_cold_reset b portsc s =
     (let (ps, s) = mm_rd32 b portsc s;
          s = mm_wr32 b portsc ((ps AND NOT PORTSC_W1C) OR PORTSC_PR) s
      in wait_clear b portsc PORTSC_PR 20000000 s)"

text \<open>Wait, force the link to U0, wait again: the two tries after each kind of reset.\<close>

definition ready_or_u0 :: "'d bus \<Rightarrow> u64 \<Rightarrow> 'd xhci \<Rightarrow> (bool \<times> u32) \<times> 'd xhci" where
  "ready_or_u0 b portsc s =
     (let ((ok, ps), s) = xhci_port_wait_ready b portsc 20000000 s in
      if ok then ((True, ps), s)
      else xhci_port_wait_ready b portsc 20000000 (xhci_port_force_u0 b portsc s))"

fun force_attempts :: "'d bus \<Rightarrow> u64 \<Rightarrow> nat \<Rightarrow> u32 \<Rightarrow> 'd xhci \<Rightarrow> (bool \<times> u32) \<times> 'd xhci" where
  "force_attempts b portsc 0 ps s = ((False, ps), s)"
| "force_attempts b portsc (Suc n) ps s =
     (if ps AND PORTSC_CCS = 0 then ((False, ps), s)
      else
        let ((ok, ps), s) =
              (if xhci_port_speed ps \<ge> 4 then
                 let s = xhci_port_warm_reset b portsc s;
                     (ps, s) = mm_rd32 b portsc s;
                     (ps, s) = xhci_port_clear_w1c b portsc ps s
                 in ready_or_u0 b portsc s
               else ((False, ps), s))
        in if ok then ((True, ps), s)
           else
             let s = xhci_port_cold_reset b portsc s;
                 (ps, s) = mm_rd32 b portsc s;
                 (ps, s) = xhci_port_clear_w1c b portsc ps s;
                 ((ok, ps), s) = ready_or_u0 b portsc s
             in if ok then ((True, ps), s)
                else let (ps, s) = mm_rd32 b portsc s in force_attempts b portsc n ps s)"

definition xhci_force_port_ready :: "'d bus \<Rightarrow> u64 \<Rightarrow> 'd xhci \<Rightarrow> (bool \<times> u32) \<times> 'd xhci" where
  "xhci_force_port_ready b portsc s =
     (let (ps, s) = mm_rd32 b portsc s;
          (ps, s) = xhci_port_power_on b portsc ps s;
          (ps, s) = xhci_port_clear_w1c b portsc ps s
      in if xhci_port_ready ps then ((True, xhci_port_speed ps), s)
         else let ((ok, ps), s) = force_attempts b portsc 4 ps s
              in ((ok, xhci_port_speed ps), s))"

section \<open>Commands\<close>

definition xhci_cmd_enable_slot :: "'d bus \<Rightarrow> 'd xhci \<Rightarrow> (bool \<times> u32) \<times> 'd xhci" where
  "xhci_cmd_enable_slot b s =
     (let cmd = \<lparr>trb_data = 0, trb_status = 0,
            trb_control = make_trb_control TRB_TYPE_ENABLE_SLOT_CMD (command_ring_cycle s)\<rparr>;
          s = xhci_cmd_ring_push b cmd s;
          s = xhci_ring_doorbell_cmd b s
      in case xhci_wait_for_command_completion b s of
           (None, s) \<Rightarrow> ((False, 0), s)
         | (Some (slot, cc), s) \<Rightarrow> ((cc = 1 \<and> slot \<noteq> 0, slot), s))"

definition xhci_cmd_evaluate_ctx_update_ep0_mps :: "'d bus \<Rightarrow> nat \<Rightarrow> u32 \<Rightarrow> 'd xhci \<Rightarrow> bool \<times> 'd xhci" where
  "xhci_cmd_evaluate_ctx_update_ep0_mps b i new_mps s =
     (if xd_slot_id (dev_at i s) = 0 then (False, s)
      else
        let (input_ctx, s) = x_alloc s;
            s = x_zero b input_ctx 4096 s;
            s = st32 b (input_ctx + 4) (push_bit 1 1) s;
            s = st32 b input_ctx 0 s;
            ep0 = input_ctx + ucast (2 * g_ctx_size s);
            s = st32 b (ep0 + 4) (push_bit 16 (new_mps AND 0xFFFF) OR push_bit 3 (4 AND 0x7)) s;
            cmd = \<lparr>trb_data = input_ctx, trb_status = 0,
              trb_control = make_trb_control TRB_TYPE_EVALUATE_CTX_CMD (command_ring_cycle s)
                OR push_bit 24 (xd_slot_id (dev_at i s))\<rparr>;
            s = xhci_cmd_ring_push b cmd s;
            s = xhci_ring_doorbell_cmd b s
        in case xhci_wait_for_command_completion b s of
             (None, s) \<Rightarrow> (False, s)
           | (Some (evt_slot, cc), s) \<Rightarrow>
               if cc \<noteq> 1 \<or> evt_slot \<noteq> xd_slot_id (dev_at i s) then (False, s)
               else (True, upd_dev i (\<lambda>d. d\<lparr>xd_ep0_mps := new_mps\<rparr>) s))"

section \<open>Descriptors\<close>

definition xhci_ep0_get_device_descriptor :: "'d bus \<Rightarrow> nat \<Rightarrow> 'd xhci \<Rightarrow> bool \<times> 'd xhci" where
  "xhci_ep0_get_device_descriptor b i s =
     (let (buf, s) = x_alloc s;
          s = x_zero b buf 4096 s;
          (ok, s) = xhci_ep0_control_in b i (setup_packet 0x80 0x06 0x0100 0 8) buf 8 s
      in if \<not> ok then (False, s)
         else
           let mps0 = x_mem b s (buf + 7);
               (ok, s) =
                 (if xd_speed_code (dev_at i s) = 1 then
                    (if mps0 = 8 \<or> mps0 = 16 \<or> mps0 = 32 \<or> mps0 = 64 then
                       (if xd_ep0_mps (dev_at i s) \<noteq> ucast mps0
                        then xhci_cmd_evaluate_ctx_update_ep0_mps b i (ucast mps0) s
                        else (True, s))
                     else (True, s))
                  else (True, s))
           in if \<not> ok then (False, s)
              else xhci_ep0_control_in b i (setup_packet 0x80 0x06 0x0100 0 18) buf 18 (x_zero b buf 4096 s))"

text \<open>The walk over the configuration: the current interface and the device being filled in.\<close>

record cfg_walk =
  cur_ifclass :: u8
  cur_ifsub :: u8
  cdev :: xhci_device

definition cfg_interface :: "u8 list \<Rightarrow> nat \<Rightarrow> cfg_walk \<Rightarrow> cfg_walk" where
  "cfg_interface buf off w =
     (let ifnum = buf ! (off + 2); cls = buf ! (off + 5); sub = buf ! (off + 6); proto = buf ! (off + 7);
          w = w\<lparr>cur_ifclass := cls, cur_ifsub := sub\<rparr>
      in if cls = 3 \<and> (sub = 0 \<or> sub = 1)
         then w\<lparr>cdev := (cdev w)\<lparr>hid_ifnum := ifnum, hid_subclass := sub, hid_proto := proto\<rparr>\<rparr>
         else w)"

definition cfg_hid :: "u8 list \<Rightarrow> nat \<Rightarrow> cfg_walk \<Rightarrow> cfg_walk" where
  "cfg_hid buf off w =
     (if cur_ifclass w = 3
      then w\<lparr>cdev := (cdev w)\<lparr>hid_report_desc_len := rd16 buf (off + 7)\<rparr>\<rparr>
      else w)"

definition cfg_endpoint :: "u8 list \<Rightarrow> nat \<Rightarrow> cfg_walk \<Rightarrow> cfg_walk" where
  "cfg_endpoint buf off w =
     (let epaddr = buf ! (off + 2); attr = buf ! (off + 3); mps = rd16 buf (off + 4); interval = buf ! (off + 6);
          xfertype = attr AND 0x3; dir_in = (epaddr AND 0x80 \<noteq> 0)
      in if intr_epaddr (cdev w) = 0 \<and> cur_ifclass w = 3 \<and> (cur_ifsub w = 0 \<or> cur_ifsub w = 1) \<and>
            dir_in \<and> xfertype = 3
         then w\<lparr>cdev := (cdev w)\<lparr>intr_epaddr := epaddr, intr_dci := 2 * (epaddr AND 0x0F) + 1,
                intr_mps := mps, intr_interval := interval\<rparr>\<rparr>
         else w)"

definition cfg_step :: "u8 list \<Rightarrow> nat \<Rightarrow> cfg_walk \<Rightarrow> cfg_walk" where
  "cfg_step buf off w =
     (let bLength = unat (buf ! off); bType = buf ! (off + 1) in
      if bType = 4 \<and> bLength \<ge> 9 then cfg_interface buf off w
      else if bType = 0x21 \<and> bLength \<ge> 9 then cfg_hid buf off w
      else if bType = 5 \<and> bLength \<ge> 7 then cfg_endpoint buf off w
      else w)"

function cfg_loop :: "u8 list \<Rightarrow> nat \<Rightarrow> nat \<Rightarrow> cfg_walk \<Rightarrow> cfg_walk" where
  "cfg_loop buf total_len off w =
     (if \<not> off + 2 \<le> total_len then w
      else let bLength = unat (buf ! off) in
        if bLength < 2 then w
        else if off + bLength > total_len then w
        else cfg_loop buf total_len (off + bLength) (cfg_step buf off w))"
  by pat_completeness auto
termination
  by (relation "measure (\<lambda>(buf, total_len, off, w). total_len - off)") auto

declare cfg_loop.simps [simp del]

definition cfg_reset :: "xhci_device \<Rightarrow> xhci_device" where
  "cfg_reset d = (hid_reset_mouse d)\<lparr>hid_ifnum := 0xFF, hid_subclass := 0, hid_proto := 0, hid_report_desc_len := 0,
     hid_abs_have_last := 0, hid_abs_last_x := 0, hid_abs_last_y := 0,
     intr_epaddr := 0, intr_dci := 0, intr_mps := 0, intr_interval := 0,
     kbd_prev_mod := 0, kbd_prev_keys := replicate 6 0\<rparr>"

definition cfg_parse :: "u8 list \<Rightarrow> nat \<Rightarrow> xhci_device \<Rightarrow> xhci_device" where
  "cfg_parse buf total_len d =
     cdev (cfg_loop buf total_len 0 \<lparr>cur_ifclass = 0, cur_ifsub = 0, cdev = cfg_reset d\<rparr>)"

definition xhci_ep0_get_config_and_set_config :: "'d bus \<Rightarrow> nat \<Rightarrow> 'd xhci \<Rightarrow> bool \<times> 'd xhci" where
  "xhci_ep0_get_config_and_set_config b i s =
     (let (buf, s) = x_alloc s;
          s = x_zero b buf 4096 s;
          (ok, s) = xhci_ep0_control_in b i (setup_packet 0x80 0x06 0x0200 0 9) buf 9 s
      in if \<not> ok then (False, s)
         else
           let total_len = ld16 (x_mem b s) (buf + 2);
               total_len = (if total_len = 0 \<or> total_len > 4096 then 4096 else total_len);
               s = x_zero b buf 4096 s;
               (ok, s) = xhci_ep0_control_in b i (setup_packet 0x80 0x06 0x0200 0 (ucast total_len)) buf (ucast total_len) s
           in if \<not> ok then (False, s)
              else
                let bytes = bytes_at (x_mem b s) buf 4096;
                    cfg_value = bytes ! 5;
                    s = upd_dev i (cfg_parse bytes (unat total_len)) s;
                    cfg_value = (if cfg_value = 0 then 1 else cfg_value)
                in xhci_ep0_control_no_data_out b i (setup_packet 0x00 0x09 (ucast cfg_value) 0 0) s)"

section \<open>Addressing a device\<close>

definition xhci_fresh_device ::
  "u32 \<Rightarrow> u32 \<Rightarrow> u64 \<Rightarrow> u64 \<Rightarrow> u32 \<Rightarrow> xhci_device \<Rightarrow> xhci_device" where
  "xhci_fresh_device slot_id mps ep0_ring dev_ctx speed_code d =
     d\<lparr>xd_slot_id := slot_id, xd_ep0_mps := mps, xd_ep0_ring := ep0_ring, xd_ep0_index := 0, xd_ep0_cycle := 1,
       xd_dev_ctx := dev_ctx, xd_speed_code := ucast (speed_code AND 0xFF),
       intr_ring := 0, intr_index := 0, intr_cycle := 1,
       hid_ifnum := 0xFF, hid_subclass := 0, hid_proto := 0, hid_report_desc_len := 0,
       hid_has_report_id := 0, hid_mouse_report_id := 0, hid_mouse_valid := 0,
       hid_buttons_bitoff := 0, hid_buttons_bits := 0, hid_x_bitoff := 0, hid_x_bits := 0,
       hid_y_bitoff := 0, hid_y_bits := 0, hid_wheel_bitoff := 0, hid_wheel_bits := 0,
       intr_epaddr := 0, intr_dci := 0, intr_mps := 0, intr_interval := 0,
       kbd_prev_mod := 0, kbd_prev_keys := replicate 6 0\<rparr>"

definition ep0_default_mps :: "u32 \<Rightarrow> u32" where
  "ep0_default_mps speed_code =
     (let mps = 64;
          mps = (if speed_code = 1 then 8 else mps);
          mps = (if speed_code = 2 then 8 else mps);
          mps = (if speed_code = 3 then 64 else mps)
      in if speed_code \<ge> 4 then 512 else mps)"

text \<open>What follows a successful address command: descriptors, configuration, HID set-up.\<close>

definition xhci_configure_device :: "'d bus \<Rightarrow> nat \<Rightarrow> 'd xhci \<Rightarrow> 'd xhci" where
  "xhci_configure_device b i s =
     (let s = snd (xhci_ep0_get_device_descriptor b i s);
          s = snd (xhci_ep0_get_config_and_set_config b i s)
      in if hid_ifnum (dev_at i s) \<noteq> 0xFF then
           let s = (if hid_subclass (dev_at i s) = 1 then snd (xhci_hid_set_protocol_boot b i s) else s);
               s = snd (xhci_hid_set_idle b i s);
               s = xhci_hid_try_parse_mouse_report_desc b i s;
               (ok, s) = xhci_cmd_configure_intr_in_ep b i s
           in if ok then xhci_hid_start_polling b i s else s
         else s)"

definition xhci_cmd_address_device :: "'d bus \<Rightarrow> u32 \<Rightarrow> u32 \<Rightarrow> u32 \<Rightarrow> 'd xhci \<Rightarrow> bool \<times> 'd xhci" where
  "xhci_cmd_address_device b slot_id port_id speed_code s =
     (let (dev_ctx, s) = x_alloc s;
          s = x_zero b dev_ctx 4096 s;
          (ep0_ring, s) = xhci_alloc_tr_ring b s;
          s = st64 b (x_dcbaa s + 8 * ucast slot_id) dev_ctx s;
          (input_ctx, s) = x_alloc s;
          s = x_zero b input_ctx 4096 s;
          s = st32 b (input_ctx + 4) (push_bit 0 1 OR push_bit 1 1) s;
          s = st32 b input_ctx 0 s;
          slot = input_ctx + ucast (g_ctx_size s);
          s = st32 b slot (push_bit 20 (speed_code AND 0xF) OR push_bit 27 (1 AND 0x1F)) s;
          s = st32 b (slot + 4) (push_bit 16 (port_id AND 0xFF)) s;
          s = st32 b (slot + 8) 0 s;
          s = st32 b (slot + 12) 0 s;
          ep0 = input_ctx + ucast (2 * g_ctx_size s);
          mps = ep0_default_mps speed_code;
          s = st32 b (ep0 + 4) (push_bit 16 (mps AND 0xFFFF) OR push_bit 3 (4 AND 0x7)) s;
          trdp = (ep0_ring AND NOT 0xF) OR 1;
          s = st32 b (ep0 + 8) (ucast (trdp AND 0xFFFFFFFF)) s;
          s = st32 b (ep0 + 12) (ucast (drop_bit 32 trdp AND 0xFFFFFFFF)) s;
          s = st32 b ep0 (push_bit 1 3) s;
          s = st32 b (ep0 + 16) 8 s;
          cmd = \<lparr>trb_data = input_ctx, trb_status = 0,
            trb_control = make_trb_control TRB_TYPE_ADDRESS_DEVICE_CMD (command_ring_cycle s)
              OR push_bit 24 slot_id\<rparr>;
          s = xhci_cmd_ring_push b cmd s;
          s = xhci_ring_doorbell_cmd b s
      in case xhci_wait_for_command_completion b s of
           (None, s) \<Rightarrow> (False, s)
         | (Some (evt_slot, cc), s) \<Rightarrow>
             if cc \<noteq> 1 then (False, s)
             else (True, xhci_configure_device b (unat slot_id)
                    (upd_dev (unat slot_id) (xhci_fresh_device slot_id mps ep0_ring dev_ctx speed_code) s)))"

section \<open>Bring-up\<close>

text \<open>The firmware hand-off: walk the extended capabilities to USB Legacy Support and claim it.\<close>

definition bios_claim :: "'d bus \<Rightarrow> u64 \<Rightarrow> 'd xhci \<Rightarrow> 'd xhci" where
  "bios_claim b ext s =
     (let (v, s) = mm_rd32 b ext s;
          s = mm_wr32 b ext (v OR push_bit 24 1) s
      in wait_clear b ext (push_bit 16 1) 50000000 s)"

partial_function (option) bios_handoff_loop :: "'d bus \<Rightarrow> u32 \<Rightarrow> 'd xhci \<Rightarrow> 'd xhci option" where
  "bios_handoff_loop b off s =
     (if off = 0 then Some s
      else let ext = cap_regs s + ucast off;
               r = mm_rd32 b ext s;
               cap_id = fst r AND 0xFF;
               nxt = drop_bit 8 (fst r) AND 0xFF
           in if cap_id = 1 then Some (bios_claim b ext (snd r))
              else if nxt = 0 then Some (snd r)
              else bios_handoff_loop b (off + nxt * 4) (snd r))"

definition xhci_bios_handoff :: "'d bus \<Rightarrow> 'd xhci \<Rightarrow> 'd xhci option" where
  "xhci_bios_handoff b s =
     (let (hcc1, s) = mm_rd32 b (cap_regs s + cap_hcc_params1) s;
          xecp = drop_bit 16 hcc1 AND 0xFFFF
      in if xecp = 0 then Some s else bios_handoff_loop b (xecp * 4) s)"

text \<open>\<open>while\<close> loops on a register bit: until it is set, or until it is clear.\<close>

partial_function (option) spin_until :: "'d bus \<Rightarrow> u64 \<Rightarrow> u32 \<Rightarrow> bool \<Rightarrow> 'd xhci \<Rightarrow> 'd xhci option" where
  "spin_until b a rmask on s =
     (let r = mm_rd32 b a s in
      if (fst r AND rmask \<noteq> 0) = on then Some (snd r) else spin_until b a rmask on (snd r))"

definition mm_update32 :: "'d bus \<Rightarrow> u64 \<Rightarrow> (u32 \<Rightarrow> u32) \<Rightarrow> 'd xhci \<Rightarrow> 'd xhci" where
  "mm_update32 b a f s = (let (v, s) = mm_rd32 b a s in mm_wr32 b a (f v) s)"

definition xhci_map_mmio :: "'d bus \<Rightarrow> u64 \<Rightarrow> 'd xhci \<Rightarrow> 'd xhci" where
  "xhci_map_mmio b mmio s =
     (let s = s\<lparr>x_vmm := fold (\<lambda>i. VMM_MapPage (mmio + 4096 * of_nat i) (mmio + 4096 * of_nat i)
            (PAGE_WRITE OR PAGE_PRESENT)) [0..<256] (x_vmm s)\<rparr>;
          s = s\<lparr>cap_regs := mmio\<rparr>;
          (cap_length, s) = mm_rd8 b mmio s;
          s = s\<lparr>op_regs := mmio + ucast cap_length\<rparr>;
          (dboff, s) = mm_rd32 b (mmio + cap_dboff) s;
          (rtsoff, s) = mm_rd32 b (mmio + cap_rtsoff) s
      in s\<lparr>doorbell_regs := mmio + ucast (dboff AND NOT 0x3), runtime_regs := mmio + ucast (rtsoff AND NOT 0x1F)\<rparr>)"

definition xhci_reset_controller :: "'d bus \<Rightarrow> 'd xhci \<Rightarrow> 'd xhci option" where
  "xhci_reset_controller b s =
     (case spin_until b (op_regs s + op_usb_sts) 1 True
             (mm_update32 b (op_regs s + op_usb_cmd) (\<lambda>v. v AND NOT 1) s) of
        None \<Rightarrow> None
      | Some s \<Rightarrow>
          (case spin_until b (op_regs s + op_usb_cmd) 2 False
                  (mm_update32 b (op_regs s + op_usb_cmd) (\<lambda>v. v OR 2) s) of
             None \<Rightarrow> None
           | Some s \<Rightarrow> spin_until b (op_regs s + op_usb_sts) (push_bit 11 1) False s))"

definition scratchpad_page :: "'d bus \<Rightarrow> u64 \<Rightarrow> nat \<Rightarrow> 'd xhci \<Rightarrow> 'd xhci" where
  "scratchpad_page b sp_array i s = (let (sp_buf, s) = x_alloc s in st64 b (sp_array + 8 * of_nat i) sp_buf s)"

definition xhci_setup_dcbaa :: "'d bus \<Rightarrow> 'd xhci \<Rightarrow> 'd xhci" where
  "xhci_setup_dcbaa b s =
     (let (dcbaa, s) = x_alloc s;
          s = x_zero b dcbaa 4096 (s\<lparr>x_dcbaa := dcbaa\<rparr>);
          (hcs2, s) = mm_rd32 b (cap_regs s + cap_hcs_params2) s;
          max_sp_lo = drop_bit 27 hcs2 AND 0x1F;
          max_sp_hi = drop_bit 21 hcs2 AND 0x1F;
          scratchpad_count = push_bit 5 max_sp_hi OR max_sp_lo;
          s = (if scratchpad_count > 0 then
                 let (sp_array, s) = x_alloc s;
                     s = x_zero b sp_array 4096 s;
                     s = fold (scratchpad_page b sp_array) [0..<unat scratchpad_count] s
                 in st64 b (x_dcbaa s) sp_array s
               else s)
      in mm_wr64 b (op_regs s + op_dcbaap) (x_dcbaa s) s)"

definition xhci_setup_command_ring :: "'d bus \<Rightarrow> 'd xhci \<Rightarrow> 'd xhci" where
  "xhci_setup_command_ring b s =
     (let (ring, s) = x_alloc s;
          s = init_tr_ring b ring (s\<lparr>command_ring := ring\<rparr>);
          s = s\<lparr>command_ring_index := 0, command_ring_cycle := 1\<rparr>
      in mm_wr64 b (op_regs s + op_crcr) (command_ring s OR 1) s)"

definition xhci_setup_event_ring :: "'d bus \<Rightarrow> 'd xhci \<Rightarrow> 'd xhci" where
  "xhci_setup_event_ring b s =
     (let (ring, s) = x_alloc s;
          s = x_zero b ring 4096 (s\<lparr>event_ring := ring\<rparr>);
          (erst, s) = x_alloc s;
          s = s\<lparr>x_erst := erst\<rparr>;
          s = st64 b erst (event_ring s) s;
          s = st32 b (erst + 8) 256 s;
          s = st32 b (erst + 12) 0 s;
          s = s\<lparr>event_ring_index := 0, event_ring_cycle := 1\<rparr>;
          s = mm_wr32 b (runtime_regs s + rt_erstsz) 1 s;
          s = mm_wr64 b (runtime_regs s + rt_erstba) (x_erst s) s;
          s = mm_wr64 b (runtime_regs s + rt_erdp) (event_ring s) s
      in mm_wr32 b (runtime_regs s + rt_iman) (push_bit 1 1 OR push_bit 0 1) s)"

definition portsc_addr :: "'d xhci \<Rightarrow> nat \<Rightarrow> u64" where
  "portsc_addr s i = op_regs s + 0x400 + of_nat i * 0x10"

definition xhci_power_port :: "'d bus \<Rightarrow> nat \<Rightarrow> 'd xhci \<Rightarrow> 'd xhci" where
  "xhci_power_port b i s =
     (let (ps, s) = mm_rd32 b (portsc_addr s i) s in
      if ps AND PORTSC_PP = 0 then mm_wr32 b (portsc_addr s i) ((ps OR PORTSC_PP) AND NOT PORTSC_W1C) s else s)"

definition xhci_scan_port :: "'d bus \<Rightarrow> nat \<Rightarrow> 'd xhci \<Rightarrow> 'd xhci" where
  "xhci_scan_port b i s =
     (let (ps, s) = mm_rd32 b (portsc_addr s i) s;
          port_id = of_nat (i + 1) :: u32
      in if ps AND PORTSC_CCS = 0 then s
         else
           let ((ready, speed), s) = xhci_force_port_ready b (portsc_addr s i) s;
               (ps, s) = mm_rd32 b (portsc_addr s i) s
           in if \<not> ready then s
              else
                let ((ok, slot_id), s) = xhci_cmd_enable_slot b s
                in if \<not> ok then s else snd (xhci_cmd_address_device b slot_id port_id speed s))"

definition xhci_init :: "'d bus \<Rightarrow> u64 \<Rightarrow> 'd xhci \<Rightarrow> 'd xhci option" where
  "xhci_init b mmio_phys s =
     (case xhci_bios_handoff b (xhci_map_mmio b mmio_phys s) of
        None \<Rightarrow> None
      | Some s \<Rightarrow>
          let (hcc1, s) = mm_rd32 b (cap_regs s + cap_hcc_params1) s;
              s = s\<lparr>g_ctx_size := (if hcc1 AND push_bit 2 1 \<noteq> 0 then 64 else 32)\<rparr>
          in case xhci_reset_controller b s of
               None \<Rightarrow> None
             | Some s \<Rightarrow>
                 let (hcs1, s) = mm_rd32 b (cap_regs s + cap_hcs_params1) s;
                     s = mm_wr32 b (op_regs s + op_config) (hcs1 AND 0xFF) s;
                     s = xhci_setup_dcbaa b s;
                     s = xhci_setup_command_ring b s;
                     s = xhci_setup_event_ring b s;
                     s = mm_update32 b (op_regs s + op_usb_cmd) (\<lambda>v. v OR (1 OR 4)) s;
                     s = xhci_event_ring_update_erdp b s;
                     (hcs1, s) = mm_rd32 b (cap_regs s + cap_hcs_params1) s;
                     num_ports = unat (drop_bit 24 hcs1 AND 0xFF);
                     s = fold (xhci_power_port b) [0..<num_ports] s;
                     s = fold (\<lambda>tries. fold (xhci_power_port b) [0..<num_ports]) [0..<20] s
                 in Some (fold (xhci_scan_port b) [0..<num_ports] s))"

end
