(* ===== verification/XhciRingSpec.thy ===== *)
theory XhciRingSpec
  imports XhciEnum
begin

text \<open>
  What the rings of the driver do against a controller. A transfer ring is seen as the list of its
  256 TRBs in memory; \<open>transfer_ring\<close> is the law all three producers of the driver obey, and
  \<open>ring_run\<close> the runs of such a producer with the reference consumer of the xHCI specification
  (section 4.9.2: a TRB is taken when its cycle bit equals the consumer's, a link TRB sends the
  consumer back to the start and toggles its cycle). The event ring is seen as the queue of the
  events the driver has not taken yet.
\<close>

section \<open>Memory behind the bus\<close>

text \<open>Bytes stored through the bus are the bytes read back: memory is memory.\<close>

definition dma_ram :: "'d bus \<Rightarrow> bool" where
  "dma_ram b \<longleftrightarrow> (\<forall>a v d. b_ram b (b_put b a v d) = (b_ram b d)(a := v))"

lemma ram_put_bytes:
  assumes "dma_ram b"
  shows "length bs < 2 ^ 64 \<Longrightarrow> b_ram b (put_bytes b a bs d) x =
    (if unat (x - a) < length bs then bs ! unat (x - a) else b_ram b d x)"
proof (induction bs arbitrary: a d)
  case (Cons v vs)
  have IH: "b_ram b (put_bytes b (a + 1) vs (b_put b a v d)) x =
      (if unat (x - (a + 1)) < length vs then vs ! unat (x - (a + 1)) else ((b_ram b d)(a := v)) x)"
    using Cons assms by (simp add: dma_ram_def)
  show ?case
  proof (cases "x = a")
    case True
    have "unat (- 1 :: u64) = 2 ^ 64 - 1" by (simp add: unsigned_minus_1_eq_mask mask_eq_exp_minus_1)
    then have "unat (x - (a + 1)) = 2 ^ 64 - 1" using True by simp
    then show ?thesis using IH True Cons.prems by simp
  next
    case False
    then have "unat (x - a) = Suc (unat (x - (a + 1)))"
      using unat_minus_one[of "x - a"] unat_gt_0[of "x - a"] by (simp add: diff_diff_eq)
    then show ?thesis using IH False by simp
  qed
qed simp

lemma bytes_at_cong: "(\<And>i. i < n \<Longrightarrow> m (a + of_nat i) = m' (c + of_nat i)) \<Longrightarrow> bytes_at m a n = bytes_at m' c n"
  by (simp add: bytes_at_def)

lemma bytes_at_put:
  assumes "dma_ram b" "length bs < 2 ^ 64"
  shows "bytes_at (b_ram b (put_bytes b a bs d)) a (length bs) = bs"
    "apart a (length bs) q k \<Longrightarrow> bytes_at (b_ram b (put_bytes b a bs d)) q k = bytes_at (b_ram b d) q k"
proof -
  have "a + of_nat i - a = of_nat i" for i by simp
  then show "bytes_at (b_ram b (put_bytes b a bs d)) a (length bs) = bs"
    using assms by (intro nth_equalityI) (simp_all add: bytes_at_def ram_put_bytes unat_of_nat_small)
  assume ap: "apart a (length bs) q k"
  show "bytes_at (b_ram b (put_bytes b a bs d)) q k = bytes_at (b_ram b d) q k"
  proof (rule bytes_at_cong)
    fix i assume "i < k"
    have "q + of_nat i = a + of_nat (unat (q + of_nat i - a))" by simp
    then have "\<not> unat (q + of_nat i - a) < length bs"
      using ap \<open>i < k\<close> unfolding apart_def by metis
    then show "b_ram b (put_bytes b a bs d) (q + of_nat i) = b_ram b d (q + of_nat i)"
      using assms by (simp add: ram_put_bytes)
  qed
qed

text \<open>TRBs in memory.\<close>

definition trb_of :: "u8 list \<Rightarrow> xhci_trb" where
  "trb_of bs = \<lparr>trb_data = rd64 bs 0, trb_status = rd32 bs 8, trb_control = rd32 bs 12\<rparr>"

lemma length_trb_bytes [simp]: "length (trb_bytes t) = 16"
  by (simp add: trb_bytes_def)

lemma trb_of_bytes [simp]: "trb_of (trb_bytes t) = t"
proof -
  have "rd64 (trb_bytes t) 0 = rd64 (le64 (trb_data t)) 0"
    by (simp add: trb_bytes_def rd64_def rd32_append1)
  moreover have "rd32 (trb_bytes t) 8 = rd32 (le32 (trb_status t)) 0"
    using rd32_append[of "le64 (trb_data t)" "le32 (trb_status t) @ le32 (trb_control t)" 0]
    by (simp add: trb_bytes_def rd32_append1)
  moreover have "rd32 (trb_bytes t) 12 = rd32 (le32 (trb_control t)) 0"
    using rd32_append[of "le64 (trb_data t) @ le32 (trb_status t)" "le32 (trb_control t)" 0]
    by (simp add: trb_bytes_def)
  ultimately show ?thesis by (simp add: trb_of_def)
qed

lemma trb_at_bytes: "trb_at m a = trb_of (bytes_at m a 16)"
  by (simp add: trb_at_def trb_of_def ld64_def ld32_def rd64_def rd32_def bytes_at_def add.assoc)

lemma trb_of_control:
  "length bs = 16 \<Longrightarrow> trb_of (take 12 bs @ le32 c) = trb_of bs\<lparr>trb_control := c\<rparr>"
  using rd32_append[of "take 12 bs" "le32 c" 0]
  by (simp add: trb_of_def rd64_def rd32_append1) (simp add: rd32_def)

lemma bytes_at_append: "bytes_at m a (n + k) = bytes_at m a n @ bytes_at m (a + of_nat n) k"
  by (rule nth_equalityI) (auto simp: bytes_at_def nth_append algebra_simps simp flip: of_nat_add)

lemma apart_offsets:
  assumes "i + n \<le> j \<or> j + k \<le> i" "i + n < 2 ^ 64" "j + k < 2 ^ 64"
  shows "apart (p + of_nat i) n (p + of_nat j) k"
  unfolding apart_def
proof (intro allI impI)
  fix x y assume xy: "x < n" "y < k"
  have "(of_nat (i + x) :: u64) \<noteq> of_nat (j + y)"
  proof
    assume "(of_nat (i + x) :: u64) = of_nat (j + y)"
    then have "unat (of_nat (i + x) :: u64) = unat (of_nat (j + y) :: u64)" by (rule arg_cong)
    then have "i + x = j + y" using assms(2,3) xy by (simp add: unat_of_nat_small del: of_nat_add)
    then show False using assms(1) xy by linarith
  qed
  then show "p + of_nat i + of_nat x \<noteq> p + of_nat j + of_nat y"
    by (simp add: add.assoc)
qed

section \<open>The store of a TRB\<close>

definition ring_list :: "(u64 \<Rightarrow> u8) \<Rightarrow> u64 \<Rightarrow> xhci_trb list" where
  "ring_list m base = map (\<lambda>j. trb_at m (base + 16 * of_nat j)) [0..<256]"

definition with_cycle :: "bool \<Rightarrow> xhci_trb \<Rightarrow> xhci_trb" where
  "with_cycle c t = t\<lparr>trb_control := (trb_control t AND NOT 1) OR (if c then 1 else 0)\<rparr>"

lemma length_ring_list [simp]: "length (ring_list m base) = 256"
  by (simp add: ring_list_def)

lemma x_put_bytes:
  assumes "dma_ram b" "length bs < 2 ^ 64"
  shows "bytes_at (x_mem b (x_put b a bs s)) a (length bs) = bs"
    and "apart a (length bs) q k \<Longrightarrow> bytes_at (x_mem b (x_put b a bs s)) q k = bytes_at (x_mem b s) q k"
  using bytes_at_put[OF assms] by (simp_all add: x_mem_def x_put_def)

text \<open>Overwriting the control word of a TRB in memory.\<close>

lemma trb_at_control:
  assumes "dma_ram b"
  shows "trb_at (x_mem b (st32 b (a + 12) c s)) a = (trb_at (x_mem b s) a)\<lparr>trb_control := c\<rparr>"
proof -
  let ?m = "x_mem b (st32 b (a + 12) c s)"
  have "apart (a + of_nat 12) 4 (a + of_nat 0) 12" by (rule apart_offsets) simp_all
  then have "bytes_at ?m a 12 = bytes_at (x_mem b s) a 12"
    using x_put_bytes(2)[OF assms, of "le32 c" "a + 12" a 12 s] by (simp add: st32_def)
  moreover have "bytes_at ?m (a + 12) 4 = le32 c"
    using x_put_bytes(1)[OF assms, of "le32 c" "a + 12" s] by (simp add: st32_def)
  ultimately have "bytes_at ?m a 16 = take 12 (bytes_at (x_mem b s) a 16) @ le32 c"
    using bytes_at_append[of ?m a 12 4] bytes_at_append[of "x_mem b s" a 12 4] by simp
  then show ?thesis by (simp add: trb_at_bytes trb_of_control)
qed

lemma trb_at_st32_other:
  assumes "dma_ram b" "apart a 4 q 16"
  shows "trb_at (x_mem b (st32 b a c s)) q = trb_at (x_mem b s) q"
  using x_put_bytes(2)[OF assms(1), of "le32 c" a q 16 s] assms(2) by (simp add: trb_at_bytes st32_def)

lemma cycle_bit: "(ucast (c AND 1 :: u8) :: u32) = (if odd c then 1 else 0)"
  by (simp add: and_one_eq mod_2_eq_odd)

lemma put_trb_ring:
  assumes dma: "dma_ram b" and i: "unat i < 256"
  shows "ring_list (x_mem b (put_trb b base i c t s)) base =
    (ring_list (x_mem b s) base)[unat i := with_cycle (odd c) t]"
proof (rule nth_equalityI)
  fix j assume "j < length (ring_list (x_mem b (put_trb b base i c t s)) base)"
  then have j: "j < 256" by simp
  define a where "a = base + 16 * (ucast i :: u64)"
  define s1 where "s1 = x_put b a (trb_bytes t) s"
  define s2 where "s2 = st32 b (a + 12) (ld32 (x_mem b s1) (a + 12) AND NOT 1) s1"
  have put: "put_trb b base i c t s = st32 b (a + 12) (ld32 (x_mem b s2) (a + 12) OR ucast (c AND 1)) s2"
    by (simp add: put_trb_def a_def s1_def s2_def Let_def)
  have a: "a = base + of_nat (16 * unat i)" by (simp add: a_def)
  have t1: "trb_at (x_mem b s1) a = t"
    using x_put_bytes(1)[OF dma, of "trb_bytes t" a s] by (simp add: s1_def trb_at_bytes)
  have ld: "ld32 m (a + 12) = trb_control (trb_at m a)" for m by (simp add: trb_at_def)
  show "ring_list (x_mem b (put_trb b base i c t s)) base ! j =
      (ring_list (x_mem b s) base)[unat i := with_cycle (odd c) t] ! j"
  proof (cases "j = unat i")
    case True
    have "trb_at (x_mem b (put_trb b base i c t s)) a = with_cycle (odd c) t"
      unfolding put s2_def by (simp add: trb_at_control[OF dma] ld t1 with_cycle_def cycle_bit)
    then show ?thesis using True j by (simp add: ring_list_def a)
  next
    case False
    let ?q = "base + of_nat (16 * j)"
    have ap: "apart a 16 ?q 16" "apart (a + 12) 4 ?q 16"
      using apart_offsets[of "16 * unat i" 16 "16 * j" 16 base] i
        apart_offsets[of "16 * unat i + 12" 4 "16 * j" 16 base] j False
      by (simp_all add: a add.assoc nat_neq_iff) (linarith+)?
    have "trb_at (x_mem b (put_trb b base i c t s)) ?q = trb_at (x_mem b s) ?q"
      unfolding put s2_def
      using trb_at_st32_other[OF dma ap(2)] x_put_bytes(2)[OF dma, of "trb_bytes t" a ?q 16 s] ap(1)
      by (simp add: s1_def trb_at_bytes)
    then show ?thesis using False j by (simp add: ring_list_def)
  qed
qed simp

section \<open>Rings and their consumer\<close>

text \<open>A transfer ring as the list of its TRBs, the producer's index and the producer's cycle state.\<close>

type_synonym ring = "xhci_trb list \<times> nat \<times> bool"

definition zero_trb :: xhci_trb where
  "zero_trb = \<lparr>trb_data = 0, trb_status = 0, trb_control = 0\<rparr>"

definition fresh_ring :: "u64 \<Rightarrow> ring" where
  "fresh_ring base = (replicate 255 zero_trb @ [link_trb base], 0, True)"

definition ring_put :: "xhci_trb \<Rightarrow> ring \<Rightarrow> ring" where
  "ring_put t r = (case r of (cs, i, c) \<Rightarrow>
     (cs[i := with_cycle c t], if i + 1 = 255 then 0 else i + 1, if i + 1 = 255 then \<not> c else c))"

text \<open>The consumer of the xHCI specification, with its dequeue index and cycle state: it takes a TRB
  (\<open>Some t\<close>), follows a link (\<open>None\<close>), or finds nothing to do.\<close>

definition hc_step :: "xhci_trb list \<Rightarrow> nat \<times> bool \<Rightarrow> (xhci_trb option \<times> nat \<times> bool) option" where
  "hc_step cs h = (case h of (d, ccs) \<Rightarrow>
     let t = cs ! d in
     if odd (trb_control t) \<noteq> ccs then None
     else if trb_type (trb_control t) = TRB_TYPE_LINK
     then Some (None, 0, if bit (trb_control t) 1 then \<not> ccs else ccs)
     else Some (Some t, d + 1, ccs))"

text \<open>Runs of a producer \<open>push\<close> on states \<open>'s\<close> with that consumer: what was pushed, what was taken.
  The producer is never a whole ring ahead; anything else may happen that leaves the ring alone.\<close>

inductive ring_run ::
  "(xhci_trb \<Rightarrow> 's \<Rightarrow> 's) \<Rightarrow> ('s \<Rightarrow> ring) \<Rightarrow> ('s \<Rightarrow> bool) \<Rightarrow> 's \<Rightarrow> 's \<Rightarrow> nat \<times> bool \<Rightarrow> xhci_trb list \<Rightarrow> xhci_trb list \<Rightarrow> bool"
  for push view inv s0 where
  ring_start: "ring_run push view inv s0 s0 (0, True) [] []"
| ring_push: "ring_run push view inv s0 s h ps ts \<Longrightarrow> trb_type (trb_control t) \<noteq> TRB_TYPE_LINK \<Longrightarrow>
    length ps < length ts + 255 \<Longrightarrow> ring_run push view inv s0 (push t s) h (ps @ [t]) ts"
| ring_other: "ring_run push view inv s0 s h ps ts \<Longrightarrow> view s' = view s \<Longrightarrow> inv s' \<Longrightarrow>
    ring_run push view inv s0 s' h ps ts"
| ring_take: "ring_run push view inv s0 s h ps ts \<Longrightarrow> hc_step (fst (view s)) h = Some (Some t, h') \<Longrightarrow>
    ring_run push view inv s0 s h' ps (ts @ [t])"
| ring_link: "ring_run push view inv s0 s h ps ts \<Longrightarrow> hc_step (fst (view s)) h = Some (None, h') \<Longrightarrow>
    ring_run push view inv s0 s h' ps ts"

text \<open>TRB \<open>k\<close> as the consumer sees it: with the cycle bit of its lap.\<close>

definition delivered :: "xhci_trb list \<Rightarrow> nat \<Rightarrow> xhci_trb" where
  "delivered ps k = with_cycle (even (k div 255)) (ps ! k)"

definition ring_cells :: "u64 \<Rightarrow> xhci_trb list \<Rightarrow> ring \<Rightarrow> bool" where
  "ring_cells base ps r \<longleftrightarrow> (case r of (cs, i, c) \<Rightarrow>
     length cs = 256 \<and> cs ! 255 = link_trb base \<and> i = length ps mod 255 \<and> c = even (length ps div 255) \<and>
     (\<forall>k < length ps. length ps \<le> k + 255 \<longrightarrow> cs ! (k mod 255) = delivered ps k) \<and>
     (\<forall>j < 255. length ps \<le> j \<longrightarrow> cs ! j = zero_trb))"

definition hc_at :: "nat \<times> bool \<Rightarrow> nat \<Rightarrow> bool" where
  "hc_at h n \<longleftrightarrow> (case h of (d, ccs) \<Rightarrow> d \<le> 255 \<and> n = (if ccs then d else 255 + d))"

lemma with_cycle_control [simp]:
  "odd (trb_control (with_cycle c t)) = c" "trb_type (trb_control (with_cycle c t)) = trb_type (trb_control t)"
proof -
  show "odd (trb_control (with_cycle c t)) = c"
    by (simp add: with_cycle_def flip: bit_0) (simp add: bit_simps)
  show "trb_type (trb_control (with_cycle c t)) = trb_type (trb_control t)"
  proof -
    have "drop_bit 10 (trb_control (with_cycle c t)) = drop_bit 10 (trb_control t)"
    proof (rule bit_word_eqI)
      fix n assume "n < LENGTH(32)"
      have "bit (NOT 1 :: u32) (10 + n) \<longleftrightarrow> 10 + n < 32" by (simp only: bit_not_iff) (simp add: bit_simps)
      then show "bit (drop_bit 10 (trb_control (with_cycle c t))) n = bit (drop_bit 10 (trb_control t)) n"
        unfolding with_cycle_def bit_drop_bit_eq o_def
        by (auto simp only: bit_or_iff bit_and_iff xhci_trb.simps) (auto simp: bit_simps dest: bit_imp_le_length split: if_splits)
    qed
    then show ?thesis by (simp add: trb_type_def)
  qed
qed

lemma link_trb_control [simp]:
  "odd (trb_control (link_trb base))" "trb_type (trb_control (link_trb base)) = TRB_TYPE_LINK"
  "bit (trb_control (link_trb base)) (Suc 0)"
  by (simp_all add: link_trb_def make_trb_control_def trb_type_def TRB_TYPE_LINK_def)

lemma ring_cells_fresh: "ring_cells base [] (fresh_ring base)"
  by (simp add: ring_cells_def fresh_ring_def nth_append)

lemma ring_cells_put:
  assumes "ring_cells base ps r"
  shows "ring_cells base (ps @ [t]) (ring_put t r)"
proof -
  obtain cs i c where r: "r = (cs, i, c)" by (metis surj_pair)
  have h: "length cs = 256" "cs ! 255 = link_trb base" "i = length ps mod 255" "c = even (length ps div 255)"
    "\<And>k. k < length ps \<Longrightarrow> length ps \<le> k + 255 \<Longrightarrow> cs ! (k mod 255) = delivered ps k"
    "\<And>j. j < 255 \<Longrightarrow> length ps \<le> j \<Longrightarrow> cs ! j = zero_trb"
    using assms by (simp_all add: ring_cells_def r)
  have wrap: "Suc (length ps) mod 255 = (if i + 1 = 255 then 0 else i + 1)"
    "Suc (length ps) div 255 = (if i + 1 = 255 then length ps div 255 + 1 else length ps div 255)"
    unfolding h(3) by (simp_all add: mod_Suc div_Suc)
  have old: "length ps mod 255 \<noteq> k mod 255" if "k < length ps" "length ps \<le> 254 + k" for k
    using that mod_eq_dvd_iff_nat[of k "length ps" 255] by (auto dest: dvd_imp_le)
  have "delivered (ps @ [t]) k = (if k < length ps then delivered ps k else with_cycle c t)"
    if "k \<le> length ps" for k
    using that h(4) by (simp add: delivered_def nth_append)
  then show ?thesis
    using h wrap old
    by (auto simp: ring_cells_def r ring_put_def nth_list_update less_Suc_eq)
qed

text \<open>What every run keeps: the ring holds the last lap of TRBs, and the consumer has taken the first
  ones in order; the second lap ends at the link, whose cycle bit stays that of the first lap.\<close>

definition run_inv :: "u64 \<Rightarrow> ring \<Rightarrow> nat \<times> bool \<Rightarrow> xhci_trb list \<Rightarrow> xhci_trb list \<Rightarrow> bool" where
  "run_inv base r h ps ts \<longleftrightarrow> ring_cells base ps r \<and> hc_at h (length ts) \<and>
     length ts \<le> length ps \<and> length ps \<le> length ts + 255 \<and>
     (\<forall>t \<in> set ps. trb_type (trb_control t) \<noteq> TRB_TYPE_LINK) \<and> ts = map (delivered ps) [0..<length ts]"

lemma run_inv_put:
  assumes "run_inv base r h ps ts" "trb_type (trb_control t) \<noteq> TRB_TYPE_LINK" "length ps < length ts + 255"
  shows "run_inv base (ring_put t r) h (ps @ [t]) ts"
proof -
  have e: "map (delivered (ps @ [t])) [0..<length ts] = map (delivered ps) [0..<length ts]"
    using assms(1) by (intro map_cong refl) (auto simp: run_inv_def delivered_def nth_append)
  have "ts = map (delivered ps) [0..<length ts]" using assms(1) unfolding run_inv_def by blast
  then have "ts = map (delivered (ps @ [t])) [0..<length ts]" by (rule trans[OF _ e[symmetric]])
  moreover have "ring_cells base (ps @ [t]) (ring_put t r)" using assms(1) by (simp add: run_inv_def ring_cells_put)
  ultimately show ?thesis using assms unfolding run_inv_def by simp
qed

lemma hc_step_cases:
  assumes inv: "run_inv base r h ps ts"
  shows "(length ts = length ps \<or> length ts = 510) \<and> hc_step (fst r) h = None \<or>
    h = (255, True) \<and> length ts = 255 \<and> hc_step (fst r) h = Some (None, 0, False) \<or>
    length ts < length ps \<and>
      hc_step (fst r) h = Some (Some (delivered ps (length ts)), fst h + 1, snd h) \<and> fst h < 255"
proof -
  obtain cs i c d ccs where r: "r = (cs, i, c)" and h: "h = (d, ccs)" by (metis surj_pair)
  let ?C = "length ts"
  have d: "d \<le> 255" "?C = (if ccs then d else 255 + d)" using inv by (simp_all add: run_inv_def hc_at_def h)
  have le: "?C \<le> length ps" "length ps \<le> ?C + 255" using inv by (simp_all add: run_inv_def)
  have cells: "cs ! 255 = link_trb base" "\<And>k. k < length ps \<Longrightarrow> length ps \<le> k + 255 \<Longrightarrow> cs ! (k mod 255) = delivered ps k"
    "\<And>j. j < 255 \<Longrightarrow> length ps \<le> j \<Longrightarrow> cs ! j = zero_trb"
    using inv by (simp_all add: run_inv_def ring_cells_def r)
  show ?thesis
  proof (cases "d = 255")
    case True
    then show ?thesis using d cells(1) by (cases ccs) (auto simp: hc_step_def r h)
  next
    case False
    have "(255 + d) div 255 = Suc (d div 255)" "d div 255 = 0" using d(1) False by simp_all
    then have C: "?C mod 255 = d" "even (?C div 255) = ccs" using d False by (auto simp del: div_eq_0_iff)
    show ?thesis
    proof (cases "?C = length ps")
      case True
      have "odd (trb_control (cs ! d)) \<noteq> ccs"
      proof (cases ccs)
        case t: True
        then show ?thesis using cells(3)[of d] d False True by (simp add: zero_trb_def)
      next
        case f: False
        then show ?thesis using cells(2)[of d] d False True by (auto simp: delivered_def)
      qed
      then show ?thesis using True by (simp add: hc_step_def r h)
    next
      case ne: False
      then have "cs ! d = delivered ps ?C" using cells(2)[of ?C] le C by simp
      moreover have "trb_type (trb_control (ps ! ?C)) \<noteq> TRB_TYPE_LINK"
        using inv ne le by (simp add: run_inv_def)
      ultimately show ?thesis using ne le C d False by (cases ccs) (simp_all add: hc_step_def Let_def r h delivered_def)
    qed
  qed
qed

lemma run_inv_take:
  assumes "run_inv base r h ps ts" "hc_step (fst r) h = Some (Some t, h')"
  shows "run_inv base r h' ps (ts @ [t])"
  using hc_step_cases[OF assms(1)] assms by (auto simp: run_inv_def hc_at_def split: if_splits)

lemma run_inv_link:
  assumes "run_inv base r h ps ts" "hc_step (fst r) h = Some (None, h')"
  shows "run_inv base r h' ps ts"
  using hc_step_cases[OF assms(1)] assms by (auto simp: run_inv_def hc_at_def)

text \<open>A producer of the driver, seen through \<open>view\<close> while \<open>inv\<close> holds.\<close>

locale transfer_ring =
  fixes push :: "xhci_trb \<Rightarrow> 's \<Rightarrow> 's"
    and view :: "'s \<Rightarrow> ring"
    and inv :: "'s \<Rightarrow> bool"
  assumes view_push: "inv s \<Longrightarrow> fst (snd (view s)) < 255 \<Longrightarrow> view (push t s) = ring_put t (view s)"
    and inv_push: "inv s \<Longrightarrow> inv (push t s)"
begin

lemma run_inv:
  assumes "ring_run push view inv s0 s h ps ts" "inv s0" "view s0 = fresh_ring base"
  shows "inv s \<and> run_inv base (view s) h ps ts"
  using assms(1)
proof (induction rule: ring_run.induct)
  case ring_start
  then show ?case using assms(2,3) by (simp add: run_inv_def ring_cells_fresh hc_at_def)
next
  case (ring_push s h ps ts t)
  have "fst (snd (view s)) < 255" using ring_push.IH by (auto simp: run_inv_def ring_cells_def split: prod.splits)
  then show ?case using run_inv_put ring_push by (simp add: view_push inv_push)
next
  case (ring_other s h ps ts s')
  then show ?case by simp
next
  case (ring_take s h ps ts t h')
  then show ?case using run_inv_take by blast
next
  case (ring_link s h ps ts h')
  then show ?case using run_inv_link by blast
qed

text \<open>What is taken is what was pushed, in order; a consumer with nothing to do has taken everything, or
  the first 510; and no consumer takes more than 510.\<close>

lemma in_order:
  assumes "ring_run push view inv s0 s h ps ts" "inv s0" "view s0 = fresh_ring base"
  shows "length ts \<le> length ps \<and> ts = map (delivered ps) [0..<length ts]"
  using run_inv[OF assms] unfolding run_inv_def by blast

lemma idle:
  assumes "ring_run push view inv s0 s h ps ts" "inv s0" "view s0 = fresh_ring base"
    and "hc_step (fst (view s)) h = None"
  shows "length ts = min (length ps) 510"
  using hc_step_cases[OF conjunct2[OF run_inv[OF assms(1-3)]]] run_inv[OF assms(1-3)] assms(4)
  by (auto simp: run_inv_def hc_at_def split: if_splits prod.splits)

lemma at_most_510:
  assumes "ring_run push view inv s0 s h ps ts" "inv s0" "view s0 = fresh_ring base"
  shows "length ts \<le> 510"
  using run_inv[OF assms] by (auto simp: run_inv_def hc_at_def split: if_splits prod.splits)

end

section \<open>The three rings of the driver\<close>

definition cmd_view :: "'d bus \<Rightarrow> 'd xhci \<Rightarrow> ring" where
  "cmd_view b s = (ring_list (x_mem b s) (command_ring s), unat (command_ring_index s), odd (command_ring_cycle s))"

definition ep0_view :: "'d bus \<Rightarrow> nat \<Rightarrow> 'd xhci \<Rightarrow> ring" where
  "ep0_view b i s = (let d = dev_at i s in
     (ring_list (x_mem b s) (xd_ep0_ring d), unat (xd_ep0_index d), odd (xd_ep0_cycle d)))"

definition intr_view :: "'d bus \<Rightarrow> nat \<Rightarrow> 'd xhci \<Rightarrow> ring" where
  "intr_view b i s = (let d = dev_at i s in
     (ring_list (x_mem b s) (intr_ring d), unat (intr_index d), odd (intr_cycle d)))"

definition has_dev :: "'d bus \<Rightarrow> nat \<Rightarrow> 'd xhci \<Rightarrow> bool" where
  "has_dev b i s \<longleftrightarrow> dma_ram b \<and> i < length (g_devs s)"

lemma put_trb_fields [simp]:
  "command_ring (put_trb b r i c t s) = command_ring s" "command_ring_index (put_trb b r i c t s) = command_ring_index s"
  "command_ring_cycle (put_trb b r i c t s) = command_ring_cycle s" "g_devs (put_trb b r i c t s) = g_devs s"
  "dev_at k (put_trb b r i c t s) = dev_at k s"
  by (simp_all add: put_trb_def Let_def st32_def x_put_def dev_at_def)

lemma dev_at_upd [simp]:
  "i < length (g_devs s) \<Longrightarrow> dev_at i (upd_dev i f s) = f (dev_at i s)"
  "x_mem b (upd_dev i f s) = x_mem b s" "length (g_devs (upd_dev i f s)) = length (g_devs s)"
  by (simp_all add: dev_at_def upd_dev_def x_mem_def)

lemma index_step:
  shows "unat (i :: u32) < 255 \<Longrightarrow> unat (i + 1) = Suc (unat i)" "i = 254 \<longleftrightarrow> unat i = 254"
  by (simp_all add: unat_add_small word_unat_eq_iff)

lemma odd_xor_one [simp]: "odd (c XOR 1 :: u8) = even c"
  by (simp add: even_xor_iff)

lemma cmd_ring_law:
  assumes "dma_ram b" "fst (snd (cmd_view b s)) < 255"
  shows "cmd_view b (xhci_cmd_ring_push b t s) = ring_put t (cmd_view b s)"
proof -
  have i: "unat (command_ring_index s) < 255" using assms(2) by (simp add: cmd_view_def)
  then show ?thesis
    using put_trb_ring[OF assms(1), of "command_ring_index s" "command_ring s" "command_ring_cycle s" t s]
    by (auto simp: cmd_view_def xhci_cmd_ring_push_def Let_def ring_put_def index_step x_mem_def)
qed

lemma ep0_ring_law:
  assumes "has_dev b i s" "fst (snd (ep0_view b i s)) < 255"
  shows "ep0_view b i (xhci_ep0_ring_push b i t s) = ring_put t (ep0_view b i s)"
proof -
  let ?d = "dev_at i s"
  have i: "unat (xd_ep0_index ?d) < 255" using assms(2) by (simp add: ep0_view_def Let_def)
  then show ?thesis
    using put_trb_ring[of b "xd_ep0_index ?d" "xd_ep0_ring ?d" "xd_ep0_cycle ?d" t s] assms(1)
    by (auto simp: ep0_view_def xhci_ep0_ring_push_def Let_def ring_put_def index_step has_dev_def)
qed

lemma intr_ring_law:
  assumes "has_dev b i s" "fst (snd (intr_view b i s)) < 255"
  shows "intr_view b i (xhci_intr_ring_push b i t s) = ring_put t (intr_view b i s)"
proof -
  let ?d = "dev_at i s"
  have i: "unat (intr_index ?d) < 255" using assms(2) by (simp add: intr_view_def Let_def)
  then show ?thesis
    using put_trb_ring[of b "intr_index ?d" "intr_ring ?d" "intr_cycle ?d" t s] assms(1)
    by (auto simp: intr_view_def xhci_intr_ring_push_def Let_def ring_put_def index_step has_dev_def)
qed

interpretation cmd_ring: transfer_ring "xhci_cmd_ring_push b" "cmd_view b" "\<lambda>_. dma_ram b" for b
  by unfold_locales (simp_all add: cmd_ring_law)

interpretation ep0_ring: transfer_ring "xhci_ep0_ring_push b i" "ep0_view b i" "has_dev b i" for b i
  by unfold_locales (simp_all add: ep0_ring_law, simp add: has_dev_def xhci_ep0_ring_push_def Let_def)

interpretation intr_ring: transfer_ring "xhci_intr_ring_push b i" "intr_view b i" "has_dev b i" for b i
  by unfold_locales (simp_all add: intr_ring_law, simp add: has_dev_def xhci_intr_ring_push_def Let_def)

section \<open>Setting up a ring\<close>

lemma bytes_at_slice: "i + k \<le> n \<Longrightarrow> bytes_at m (a + of_nat i) k = take k (drop i (bytes_at m a n))"
  by (rule nth_equalityI) (auto simp: bytes_at_def algebra_simps simp flip: of_nat_add)

lemma trb_of_zero [simp]: "trb_of (replicate 16 0) = zero_trb"
  by (simp add: trb_of_def zero_trb_def rd64_def rd32_def)

lemma init_tr_ring_list:
  assumes dma: "dma_ram b"
  shows "ring_list (x_mem b (init_tr_ring b ring s)) ring = replicate 255 zero_trb @ [link_trb ring]"
proof (rule nth_equalityI)
  let ?z = "x_zero b ring (16 * 256) s"
  fix j assume "j < length (ring_list (x_mem b (init_tr_ring b ring s)) ring)"
  then have j: "j < 256" by simp
  have z: "trb_at (x_mem b ?z) (ring + of_nat (16 * k)) = zero_trb" if "k < 256" for k
    using x_put_bytes(1)[OF dma, of "replicate 4096 0" ring s] that
      bytes_at_slice[of "16 * k" 16 4096 "x_mem b ?z" ring] by (simp add: trb_at_bytes x_zero_def)
  show "ring_list (x_mem b (init_tr_ring b ring s)) ring ! j = (replicate 255 zero_trb @ [link_trb ring]) ! j"
  proof (cases "j = 255")
    case True
    then show ?thesis
      using x_put_bytes(1)[OF dma, of "trb_bytes (link_trb ring)" "ring + 16 * 255" ?z]
      by (simp add: ring_list_def init_tr_ring_def trb_at_bytes nth_append)
  next
    case False
    then have "apart (ring + of_nat (16 * 255)) 16 (ring + of_nat (16 * j)) 16"
      using j by (intro apart_offsets) simp_all
    then show ?thesis
      using x_put_bytes(2)[OF dma, of "trb_bytes (link_trb ring)" "ring + 16 * 255" "ring + of_nat (16 * j)" 16 ?z]
        z[OF j] j False
      by (simp add: ring_list_def init_tr_ring_def trb_at_bytes nth_append)
  qed
qed simp

text \<open>Stores to registers reach the controller, which changes memory only by the time the driver looks
  at it again (\<open>b_turn\<close>).\<close>

definition quiet_regs :: "'d bus \<Rightarrow> bool" where
  "quiet_regs b \<longleftrightarrow> (\<forall>a v d. b_ram b (b_wr64 b a v d) = b_ram b d)"

lemma init_tr_ring_fields [simp]:
  "command_ring (init_tr_ring b r s) = command_ring s" "g_devs (init_tr_ring b r s) = g_devs s"
  "dev_at i (init_tr_ring b r s) = dev_at i s"
  by (simp_all add: init_tr_ring_def x_put_def x_zero_def dev_at_def)

lemma setup_command_ring_fresh:
  assumes "dma_ram b" "quiet_regs b"
  shows "cmd_view b (xhci_setup_command_ring b s) = fresh_ring (command_ring (xhci_setup_command_ring b s))"
proof -
  obtain ring q where a: "x_alloc s = (ring, q)" by (metis surj_pair)
  show ?thesis
    using init_tr_ring_list[OF assms(1), of ring "q\<lparr>command_ring := ring\<rparr>"] assms(2)
    by (simp add: xhci_setup_command_ring_def a cmd_view_def fresh_ring_def Let_def mm_wr64_def x_mem_def quiet_regs_def)
qed

lemma install_intr_ring_fresh:
  assumes "has_dev b i s"
  shows "has_dev b i (install_intr_ring b i s)"
    "intr_view b i (install_intr_ring b i s) = fresh_ring (intr_ring (dev_at i (install_intr_ring b i s)))"
proof -
  obtain ring q where a: "x_alloc s = (ring, q)" by (metis surj_pair)
  have g: "g_devs q = g_devs s" using a by (auto simp: x_alloc_def split: prod.splits)
  show "has_dev b i (install_intr_ring b i s)"
    using assms by (simp add: install_intr_ring_def xhci_alloc_tr_ring_def a has_dev_def g)
  show "intr_view b i (install_intr_ring b i s) = fresh_ring (intr_ring (dev_at i (install_intr_ring b i s)))"
    using assms init_tr_ring_list[of b ring q]
    by (simp add: install_intr_ring_def xhci_alloc_tr_ring_def a has_dev_def g intr_view_def fresh_ring_def Let_def)
qed

section \<open>The event ring\<close>

text \<open>The events the driver has not taken: from the index on, while the cycle bit is the driver's.\<close>

fun pending :: "xhci_trb list \<Rightarrow> nat \<Rightarrow> nat \<Rightarrow> bool \<Rightarrow> xhci_trb list" where
  "pending cs 0 i c = []"
| "pending cs (Suc n) i c =
     (if odd (trb_control (cs ! i)) = c
      then cs ! i # (if i + 1 = 256 then pending cs n 0 (\<not> c) else pending cs n (i + 1) c) else [])"

definition events :: "'d bus \<Rightarrow> 'd xhci \<Rightarrow> xhci_trb list" where
  "events b s = pending (ring_list (x_mem b s) (event_ring s)) 256 (unat (event_ring_index s)) (odd (event_ring_cycle s))"

definition event_wf :: "'d xhci \<Rightarrow> bool" where
  "event_wf s \<longleftrightarrow> unat (event_ring_index s) < 256 \<and> event_ring_cycle s \<le> 1"

text \<open>A slot just taken does not count again at the end of the lap.\<close>

lemma pending_lap:
  assumes "i < 256" "p < 256" "odd (trb_control (cs ! p)) = d"
    and "n = (if c = d then 256 + p - i else p - i)" "c = d \<longrightarrow> p < i" "c \<noteq> d \<longrightarrow> i \<le> p"
  shows "pending cs (Suc n) i c = pending cs n i c"
  using assms
proof (induction n arbitrary: i c)
  case 0
  then show ?case by (auto split: if_splits)
next
  case (Suc n)
  show ?case
  proof (cases "i + 1 = 256")
    case True
    then have "pending cs (Suc n) 0 (\<not> c) = pending cs n 0 (\<not> c)" 
      using Suc.prems by (intro Suc.IH) (auto split: if_splits)
    then show ?thesis using True by simp
  next
    case False
    then have "pending cs (Suc n) (i + 1) c = pending cs n (i + 1) c"
      using Suc.prems by (intro Suc.IH) (auto split: if_splits)
    then show ?thesis using False by simp
  qed
qed

lemma n256: "(256 :: nat) = Suc 255"
  by simp

lemma pending_next:
  assumes "i < 256" "odd (trb_control (cs ! i)) = c"
  shows "pending cs 256 i c = cs ! i # (if i + 1 = 256 then pending cs 256 0 (\<not> c) else pending cs 256 (i + 1) c)"
proof -
  have "pending cs (Suc 255) i c = cs ! i # (if i + 1 = 256 then pending cs 255 0 (\<not> c) else pending cs 255 (i + 1) c)"
    by (simp only: pending.simps(2) assms(2) if_True refl)
  moreover have "pending cs (Suc 255) 0 (\<not> c) = pending cs 255 0 (\<not> c)" if "i + 1 = 256"
    by (rule pending_lap[of 0 i cs c]) (use that assms in auto)
  moreover have "pending cs (Suc 255) (i + 1) c = pending cs 255 (i + 1) c" if "i + 1 \<noteq> 256"
    by (rule pending_lap[of "i + 1" i cs c]) (use that assms in auto)
  ultimately show ?thesis unfolding n256[symmetric] by (cases "i + 1 = 256") (simp_all only: if_True if_False simp_thms)
qed

lemma cycle_differs:
  assumes "(c :: u8) \<le> 1"
  shows "(w :: u32) AND 1 \<noteq> ucast c \<longleftrightarrow> odd w \<noteq> odd c"
proof -
  have "c = 0 \<or> c = 1" using assms by (simp add: word_le_nat_alt word_unat_eq_iff) linarith
  then show ?thesis by (auto simp: and_one_eq mod_2_eq_odd)
qed

text \<open>What the driver sees when it looks: the state after the controller's turn.\<close>

definition turned :: "'d bus \<Rightarrow> 'd xhci \<Rightarrow> 'd xhci" where
  "turned b s = s\<lparr>x_hw := b_turn b (x_hw s)\<rparr>"

lemma poll_event_spec:
  assumes "quiet_regs b" "event_wf s" "xhci_poll_event b s = (r, s')"
  shows "event_wf s' \<and> event_ring s' = event_ring s \<and> x_mem b s' = x_mem b (turned b s) \<and>
    (case events b (turned b s) of [] \<Rightarrow> r = None \<and> events b s' = []
     | e # es \<Rightarrow> r = Some e \<and> events b s' = es)"
proof -
  let ?t = "turned b s" and ?i = "unat (event_ring_index s)" and ?c = "odd (event_ring_cycle s)"
  define cs where "cs = ring_list (x_mem b ?t) (event_ring s)"
  have wf: "?i < 256" "event_ring_cycle s \<le> 1" using assms(2) by (simp_all add: event_wf_def)
  have e: "events b ?t = pending cs 256 ?i ?c" by (simp add: events_def turned_def cs_def)
  have cell: "trb_at (x_mem b ?t) (event_ring s + 16 * ucast (event_ring_index s)) = cs ! ?i"
    using wf(1) by (simp add: cs_def ring_list_def)
  show ?thesis
  proof (cases "odd (trb_control (cs ! ?i)) = ?c")
    case False
    then have "pending cs 256 ?i ?c = []" unfolding n256 pending.simps(2) by simp
    moreover have "r = None \<and> s' = ?t"
      using assms(3) False cell cycle_differs[OF wf(2)]
      by (simp add: xhci_poll_event_def Let_def turned_def)
    ultimately show ?thesis using assms(2) e by (simp add: event_wf_def turned_def)
  next
    case True
    define i' where "i' = (if ?i + 1 = 256 then 0 else event_ring_index s + 1)"
    define c' where "c' = (if ?i + 1 = 256 then event_ring_cycle s XOR 1 else event_ring_cycle s)"
    have step: "unat (event_ring_index s + 1) = ?i + 1" using wf(1) by (simp add: unat_add_small)
    then have ge: "event_ring_index s + 1 \<ge> 256 \<longleftrightarrow> ?i + 1 = 256" using wf(1) by (auto simp: word_le_nat_alt)
    have s': "r = Some (cs ! ?i) \<and>
        s' = xhci_event_ring_update_erdp b (?t\<lparr>event_ring_index := i', event_ring_cycle := c'\<rparr>)"
      using assms(3) True cell cycle_differs[OF wf(2)] 
      unfolding xhci_poll_event_def Let_def turned_def[symmetric] i'_def c'_def
      by (simp add: turned_def ge split: if_splits)
    have c01: "event_ring_cycle s = 0 \<or> event_ring_cycle s = 1"
      using wf(2) by (simp add: word_le_nat_alt word_unat_eq_iff) linarith
    have "event_wf s'" using s' wf c01 step by (auto simp: event_wf_def xhci_event_ring_update_erdp_def
          mm_wr64_def i'_def c'_def)
    moreover have m: "x_mem b s' = x_mem b ?t" "event_ring s' = event_ring s"
      using s' assms(1) by (simp_all add: xhci_event_ring_update_erdp_def mm_wr64_def x_mem_def quiet_regs_def turned_def Let_def)
    moreover have "events b s' = pending cs 256 (unat i') (odd c')"
      unfolding events_def m cs_def using s' by (simp add: xhci_event_ring_update_erdp_def mm_wr64_def Let_def)
    moreover have "pending cs 256 ?i ?c = cs ! ?i # pending cs 256 (unat i') (odd c')"
      using pending_next[OF wf(1) True] step by (simp add: i'_def c'_def del: pending.simps)
    ultimately show ?thesis using s' e by simp
  qed
qed

section \<open>Properties\<close>

text \<open>A machine for the examples: plain memory behind the bus.\<close>

definition ram_bus :: "(u64 \<Rightarrow> u8) bus" where
  "ram_bus = \<lparr>b_ram = (\<lambda>m. m), b_put = (\<lambda>a v m. m(a := v)), b_turn = (\<lambda>m. m), b_rd8 = (\<lambda>a m. (m a, m)),
     b_rd32 = (\<lambda>a m. (ld32 m a, m)), b_wr32 = (\<lambda>a v m. m), b_wr64 = (\<lambda>a v m. m)\<rparr>"

definition device_example :: xhci_device where
  "device_example = \<lparr>xd_slot_id = 0, xd_ep0_mps = 0, xd_ep0_ring = 0, xd_ep0_index = 0, xd_ep0_cycle = 0, xd_dev_ctx = 0,
     xd_speed_code = 0, hid_ifnum = 0, hid_subclass = 0, hid_proto = 0, hid_report_desc_len = 0, hid_has_report_id = 0,
     hid_mouse_report_id = 0, hid_mouse_valid = 0, hid_buttons_bitoff = 0, hid_buttons_bits = 0, hid_x_bitoff = 0,
     hid_x_bits = 0, hid_x_is_relative = 0, hid_y_bitoff = 0, hid_y_bits = 0, hid_y_is_relative = 0,
     hid_wheel_bitoff = 0, hid_wheel_bits = 0, hid_wheel_is_relative = 0, hid_abs_have_last = 0, hid_abs_last_x = 0,
     hid_abs_last_y = 0, intr_epaddr = 0, intr_dci = 0, intr_mps = 0, intr_interval = 0, intr_ring = 0, intr_index = 0,
     intr_cycle = 0, intr_buf = 0, kbd_prev_mod = 0, kbd_prev_keys = replicate 6 0\<rparr>"

definition xhci_example :: "(u64 \<Rightarrow> u8) xhci" where
  "xhci_example = \<lparr>cap_regs = 0, op_regs = 0, runtime_regs = 0, doorbell_regs = 0, command_ring = 0, command_ring_index = 0,
     command_ring_cycle = 1, event_ring = 0x2000, event_ring_index = 0, event_ring_cycle = 1, x_erst = 0, x_dcbaa = 0,
     g_ctx_size = 32, g_devs = replicate 256 device_example, x_vmm = vmm_example, x_input = input_example,
     x_hw = (\<lambda>a. 0)\<rparr>"

lemma ram_bus_ok: "dma_ram ram_bus" "quiet_regs ram_bus" "i < 256 \<Longrightarrow> has_dev ram_bus i xhci_example"
  by (simp_all add: dma_ram_def quiet_regs_def ram_bus_def has_dev_def xhci_example_def)

text \<open>One TRB through a fresh ring.\<close>

lemma hc_step_first:
  assumes "trb_type (trb_control t) \<noteq> TRB_TYPE_LINK"
  shows "hc_step (fst (ring_put t (fresh_ring base))) (0, True) = Some (Some (with_cycle True t), 1, True)"
  using assms by (simp add: ring_put_def fresh_ring_def hc_step_def Let_def)

text \<open>
  C19. On the command ring xhci_init sets up, a controller that follows the xHCI rules for cycle
  bits and link TRBs takes exactly the commands the driver pushes, in order and unchanged but
  for the cycle bit; when it has nothing to do it has taken all of them, or the first 510.
\<close>

theorem command_ring_in_order:
  assumes "dma_ram b" "quiet_regs b"
    and "ring_run (xhci_cmd_ring_push b) (cmd_view b) (\<lambda>_. dma_ram b) (xhci_setup_command_ring b s) s' h ps ts"
  shows "length ts \<le> length ps \<and> ts = map (delivered ps) [0..<length ts] \<and>
    (hc_step (fst (cmd_view b s')) h = None \<longrightarrow> length ts = min (length ps) 510)"
  using cmd_ring.in_order[OF assms(3,1) setup_command_ring_fresh[OF assms(1,2)]]
    cmd_ring.idle[OF assms(3,1) setup_command_ring_fresh[OF assms(1,2)]] by blast

definition command_example :: xhci_trb where
  "command_example = \<lparr>trb_data = 0, trb_status = 0, trb_control = make_trb_control TRB_TYPE_ENABLE_SLOT_CMD 1\<rparr>"

lemma command_example_type: "trb_type (trb_control command_example) \<noteq> TRB_TYPE_LINK"
  by (simp add: command_example_def make_trb_control_def trb_type_def TRB_TYPE_LINK_def TRB_TYPE_ENABLE_SLOT_CMD_def)

theorem command_ring_in_order_witness:
  "\<exists>s' ts. ring_run (xhci_cmd_ring_push ram_bus) (cmd_view ram_bus) (\<lambda>_. dma_ram ram_bus)
       (xhci_setup_command_ring ram_bus xhci_example) s' (1, True) [command_example] ts \<and>
     length ts = 1 \<and> ts = map (delivered [command_example]) [0..<1]"
proof -
  let ?s = "xhci_setup_command_ring ram_bus xhci_example"
  let ?run = "ring_run (xhci_cmd_ring_push ram_bus) (cmd_view ram_bus) (\<lambda>_. dma_ram ram_bus) ?s"
  let ?s' = "xhci_cmd_ring_push ram_bus command_example ?s"
  have "cmd_view ram_bus ?s' = ring_put command_example (fresh_ring (command_ring ?s))"
    using cmd_ring_law[OF ram_bus_ok(1)] setup_command_ring_fresh[OF ram_bus_ok(1,2)] by (simp add: fresh_ring_def)
  moreover have "?run ?s' (0, True) [command_example] []"
    using ring_push[OF ring_start, of command_example] command_example_type by simp
  ultimately have run: "?run ?s' (1, True) [command_example] [with_cycle True command_example]"
    using ring_take hc_step_first[OF command_example_type] by fastforce
  then show ?thesis using command_ring_in_order[OF ram_bus_ok(1,2) run] by auto
qed

text \<open>
  C20. The interrupt ring stops for good after 510 transfers: the cycle bit of the link TRB is
  never updated, so on the second lap the controller waits at the link, and no run takes more
  than 510 TRBs, however many the driver queues.
\<close>

theorem interrupt_ring_stalls:
  assumes "has_dev b i s"
    and "ring_run (xhci_intr_ring_push b i) (intr_view b i) (has_dev b i) (install_intr_ring b i s) s' h ps ts"
  shows "length ts \<le> 510 \<and> (hc_step (fst (intr_view b i s')) h = None \<and> 510 \<le> length ps \<longrightarrow> length ts = 510)"
  using intr_ring.at_most_510[OF assms(2) install_intr_ring_fresh[OF assms(1)]]
    intr_ring.idle[OF assms(2) install_intr_ring_fresh[OF assms(1)]] by (auto simp: min_def)

text \<open>Keeping one report in flight, as \<open>xhci_hid_start_polling\<close> does, runs into the stall.\<close>

lemma intr_ring_run_step:
  assumes "has_dev b i s0" "ring_run (xhci_intr_ring_push b i) (intr_view b i) (has_dev b i) (install_intr_ring b i s0) s h ps ts"
    and "length ts = length ps" "length ps < 510" "trb_type (trb_control t) \<noteq> TRB_TYPE_LINK"
  shows "\<exists>s' h' ts'. ring_run (xhci_intr_ring_push b i) (intr_view b i) (has_dev b i) (install_intr_ring b i s0) s' h' (ps @ [t]) ts' \<and>
    length ts' = length (ps @ [t])"
proof -
  let ?run = "ring_run (xhci_intr_ring_push b i) (intr_view b i) (has_dev b i) (install_intr_ring b i s0)"
  have p: "?run (xhci_intr_ring_push b i t s) h (ps @ [t]) ts" using ring_push[OF assms(2,5)] assms(3) by simp
  note i1 = conjunct2[OF intr_ring.run_inv[OF p install_intr_ring_fresh[OF assms(1)]]]
  show ?thesis
  proof (cases "h = (255, True)")
    case False
    then show ?thesis using hc_step_cases[OF i1] ring_take[OF p] assms(3,4) by fastforce
  next
    case True
    then have "hc_step (fst (intr_view b i (xhci_intr_ring_push b i t s))) h = Some (None, 0, False)"
      using hc_step_cases[OF i1] assms(3,4) by auto
    note l = ring_link[OF p this]
    note i2 = conjunct2[OF intr_ring.run_inv[OF l install_intr_ring_fresh[OF assms(1)]]]
    then show ?thesis using hc_step_cases[OF i2] ring_take[OF l] assms(3,4) by fastforce
  qed
qed

lemma intr_ring_reaches:
  assumes "has_dev b i s0" "trb_type (trb_control t) \<noteq> TRB_TYPE_LINK"
  shows "n \<le> 510 \<Longrightarrow> \<exists>s h ts. ring_run (xhci_intr_ring_push b i) (intr_view b i) (has_dev b i) (install_intr_ring b i s0)
    s h (replicate n t) ts \<and> length ts = n"
proof (induction n)
  case 0
  show ?case using ring_start by fastforce
next
  case (Suc n)
  then obtain s h ts where "ring_run (xhci_intr_ring_push b i) (intr_view b i) (has_dev b i) (install_intr_ring b i s0)
    s h (replicate n t) ts" "length ts = n" by auto
  from intr_ring_run_step[OF assms(1) this(1), of t] this(2) Suc.prems assms(2) show ?case
    by (simp flip: replicate_append_same)
qed

theorem interrupt_ring_stalls_witness:
  "\<exists>s' h ts. ring_run (xhci_intr_ring_push ram_bus 1) (intr_view ram_bus 1) (has_dev ram_bus 1)
     (install_intr_ring ram_bus 1 xhci_example) s' h (replicate 510 command_example) ts \<and> length ts = 510 \<and> length ts \<le> 510"
proof -
  have d: "has_dev ram_bus 1 xhci_example" by (rule ram_bus_ok(3)) simp
  from intr_ring_reaches[OF d command_example_type order_refl]
  obtain s h ts where r: "ring_run (xhci_intr_ring_push ram_bus 1) (intr_view ram_bus 1) (has_dev ram_bus 1)
     (install_intr_ring ram_bus 1 xhci_example) s h (replicate 510 command_example) ts" "length ts = 510" by blast
  with interrupt_ring_stalls[OF d r(1)] show ?thesis by blast
qed

text \<open>
  C21. xhci_poll_event takes the events the controller has put into the event ring one by one
  and in order, across the end of the ring, and reports none exactly when none is pending.
\<close>

theorem events_taken_in_order:
  assumes "quiet_regs b" "event_wf s" "xhci_poll_event b s = (r, s')"
  shows "event_wf s' \<and> event_ring s' = event_ring s \<and>
    (case events b (turned b s) of [] \<Rightarrow> r = None \<and> events b s' = []
     | e # es \<Rightarrow> r = Some e \<and> events b s' = es)"
  using poll_event_spec[OF assms] by blast

definition event_example :: "(u64 \<Rightarrow> u8) xhci" where
  "event_example = xhci_example\<lparr>x_hw := (\<lambda>a. if a = 0x200C then 1 else if a = 0x200F then 5 else 0)\<rparr>"

theorem events_taken_in_order_witness:
  "fst (xhci_poll_event ram_bus event_example) = Some \<lparr>trb_data = 0, trb_status = 0, trb_control = 0x05000001\<rparr>"
proof -
  let ?s = "event_example" and ?cs = "ring_list (x_mem ram_bus event_example) 0x2000"
  have c: "?cs ! 0 = \<lparr>trb_data = 0, trb_status = 0, trb_control = 0x05000001\<rparr>"
    by (simp add: ring_list_def trb_at_def ld64_def ld32_def rd64_def rd32_def bytes_at_def x_mem_def ram_bus_def event_example_def)
  have t: "turned ram_bus ?s = ?s" by (simp add: turned_def ram_bus_def)
  have wf: "event_wf ?s" by (simp add: event_wf_def event_example_def xhci_example_def)
  have "events ram_bus ?s = pending ?cs 256 0 True"
    by (simp add: events_def event_example_def xhci_example_def del: pending.simps)
  then have e: "\<exists>es. events ram_bus ?s = ?cs ! 0 # es" using pending_next[of 0 ?cs True] c by auto
  obtain r s' where p: "xhci_poll_event ram_bus ?s = (r, s')" by (metis surj_pair)
  from events_taken_in_order[OF ram_bus_ok(2) wf p] e c show ?thesis by (auto simp: t p)
qed

end
