(* ===== verification/XhciSpec.thy ===== *)
theory XhciSpec
  imports XhciRingSpec
begin

text \<open>
  What the driver makes of bytes that a device sends: report fields, report descriptors,
  configurations, keyboard reports; what its event loop keeps; and what its port reset does to a port.
\<close>

section \<open>Bit fields of reports\<close>

definition report_bit :: "(u32 \<Rightarrow> u8) \<Rightarrow> u32 \<Rightarrow> bool" where
  "report_bit r p = bit (r (drop_bit 3 p)) (unat (p AND 7))"

lemma hid_bits_loop_bit:
  "unat i + n \<le> 32 \<Longrightarrow> bit (hid_bits_loop r off n i v) k \<longleftrightarrow>
     bit v k \<or> (unat i \<le> k \<and> k < unat i + n \<and> report_bit r (off + of_nat k))"
proof (induction n arbitrary: i v)
  case (Suc n)
  let ?b = "ucast (drop_bit (unat (off + i AND 7)) (r (drop_bit 3 (off + i)))) AND (1 :: u32)"
  have "odd (ucast (drop_bit m x) :: u32) = bit x m" for x :: u8 and m
    by (simp add: bit_simps flip: bit_0)
  then have b: "?b = of_bool (report_bit r (off + i))"
    by (simp add: report_bit_def and_one_eq mod_2_eq_odd)
  have v: "bit (v OR push_bit (unat i) ?b) k \<longleftrightarrow> bit v k \<or> (k = unat i \<and> report_bit r (off + i))"
    using Suc.prems by (auto simp: b bit_simps)
  have i: "unat (i + 1) = unat i + 1" using Suc.prems by (simp add: unat_add_small)
  show ?case
    using Suc.IH[of "i + 1" "v OR push_bit (unat i) ?b"] Suc.prems i v
    by (auto simp: Let_def Suc_le_eq less_le)
qed auto

lemma sign_extend_bit:
  fixes u :: u32
  assumes "0 < n" "n < 32" "\<And>k. n \<le> k \<Longrightarrow> \<not> bit u k" "k < 32"
  shows "bit (if u AND push_bit (n - 1) 1 \<noteq> 0 then u OR NOT (push_bit n 1 - 1) else u) k \<longleftrightarrow>
    bit u (if k < n then k else n - 1)"
proof -
  have "push_bit n 1 - 1 = (mask n :: u32)" by (simp add: mask_eq_exp_minus_1)
  moreover have "u AND push_bit (n - 1) 1 \<noteq> 0 \<longleftrightarrow> bit u (n - 1)"
    by (simp add: and_exp_eq_0_iff_not_bit)
  ultimately show ?thesis using assms by (auto simp: bit_simps)
qed

lemma bits_s32_bit:
  assumes "0 < unat bits" "unat bits \<le> 32" "k < 32"
  shows "bit (xhci_hid_get_bits_s32 r off bits) k \<longleftrightarrow>
    report_bit r (off + of_nat (if k < unat bits then k else unat bits - 1))"
proof -
  let ?u = "hid_bits_loop r off (unat bits) 0 0"
  have u: "bit ?u j \<longleftrightarrow> j < unat bits \<and> report_bit r (off + of_nat j)" for j
    using hid_bits_loop_bit[of 0 "unat bits" r off 0 j] assms by simp
  have nz: "bits \<noteq> 0" "\<not> bits > 32" using assms by (auto simp: word_less_nat_alt)
  have m1: "unat (bits - 1) = unat bits - 1" using unat_minus_one[OF nz(1)] .
  have g: "xhci_hid_get_bits_u32 r off bits = ?u" using assms by (simp add: xhci_hid_get_bits_u32_def min_def)
  show ?thesis
  proof (cases "bits < 32")
    case True
    then have "unat bits < 32" by (simp add: word_less_nat_alt)
    then have "bit (if ?u AND push_bit (unat bits - 1) 1 \<noteq> 0 then ?u OR NOT (push_bit (unat bits) 1 - 1) else ?u) k
        \<longleftrightarrow> bit ?u (if k < unat bits then k else unat bits - 1)"
      using assms u by (intro sign_extend_bit) auto
    moreover have "xhci_hid_get_bits_s32 r off bits =
        (if ?u AND push_bit (unat bits - 1) 1 \<noteq> 0 then ?u OR NOT (push_bit (unat bits) 1 - 1) else ?u)"
      unfolding xhci_hid_get_bits_s32_def g Let_def m1 using nz True by simp
    ultimately show ?thesis using assms u by auto
  next
    case False
    then have "unat bits = 32" using assms by (simp add: word_less_nat_alt)
    then show ?thesis unfolding xhci_hid_get_bits_s32_def g Let_def using nz False assms u by simp
  qed
qed

lemma report_field_eq:
  assumes "unat bits \<le> 32"
  shows "report_field r off bits = xhci_hid_get_bits_s32 r off bits"
proof -
  have "\<not> bits > 32" using assms by (simp add: word_less_nat_alt)
  then show ?thesis
    by (simp add: report_field_def xhci_hid_get_bits_s32_def xhci_hid_get_bits_u32_def Let_def)
qed

text \<open>
  The report fields the event handler extracts inline are those of xhci_hid_get_bits_s32:
  the little-endian bit field at the given offset, sign-extended from its width to 32 bits.
\<close>

theorem report_field_sign_extended:
  assumes "0 < unat bits" "unat bits \<le> 32" "k < 32"
  shows "report_field r off bits = xhci_hid_get_bits_s32 r off bits \<and>
    (bit (report_field r off bits) k \<longleftrightarrow>
       report_bit r (off + of_nat (if k < unat bits then k else unat bits - 1)))"
  using report_field_eq[OF assms(2)] bits_s32_bit[OF assms] by simp

theorem report_field_sign_extended_witness:
  "report_field (\<lambda>a. if a = 1 then 0xF0 else 0) 8 8 = (- 16) \<and>
   bit (report_field (\<lambda>a. if a = 1 then 0xF0 else 0) 8 8) 31"
proof -
  let ?r = "\<lambda>a :: u32. if a = 1 then 0xF0 else (0 :: u8)"
  have "report_field ?r 8 8 = - 16" by code_simp
  moreover have "bit (report_field ?r 8 8) 31"
    by (rule iffD2[OF conjunct2[OF report_field_sign_extended]]) (simp_all add: report_bit_def)
  ultimately show ?thesis by simp
qed

section \<open>Report descriptors\<close>

text \<open>The parser looks at the first \<open>len\<close> bytes only.\<close>

lemma hid_value_loop_cong:
  "(\<And>j. j < n + k \<Longrightarrow> d ! (i + j) = d' ! (i + j)) \<Longrightarrow> hid_value_loop d i n k v = hid_value_loop d' i n k v"
  by (induction n arbitrary: k v) auto

lemma hid_items_loop_cong:
  assumes "\<And>j. j < len \<Longrightarrow> d ! j = d' ! j"
  shows "hid_items_loop d len i p = hid_items_loop d' len i p"
  using assms
proof (induction d len i p rule: hid_items_loop.induct)
  case (1 d len i p)
  show ?case
  proof (cases "i < len")
    case True
    have v: "hid_value_loop d (i + 1) sz 0 0 = hid_value_loop d' (i + 1) sz 0 0" if "i + 1 + sz \<le> len" for sz
      using that 1(3) by (intro hid_value_loop_cong) auto
    show ?thesis
      using 1 True v by (subst (1 2) hid_items_loop.simps) (simp add: Let_def)
  next
    case False
    then show ?thesis by (simp add: hid_items_loop.simps)
  qed
qed

text \<open>The loop as a tokeniser and an interpreter: the short items of a descriptor, with their values.\<close>

function hid_tokens :: "u8 list \<Rightarrow> nat \<Rightarrow> nat \<Rightarrow> (u8 \<times> u32) list" where
  "hid_tokens d len i =
     (if \<not> i < len then []
      else if d ! i = 0xFE then
        (if i + 3 > len then [] else if i + 3 + unat (d ! (i + 1)) > len then []
         else hid_tokens d len (i + 3 + unat (d ! (i + 1))))
      else let sz = (if d ! i AND 3 = 3 then 4 else unat (d ! i AND 3)) in
        if i + 1 + sz > len then []
        else (d ! i, hid_value_loop d (i + 1) sz 0 0) # hid_tokens d len (i + 1 + sz))"
  by pat_completeness auto
termination
  by (relation "measure (\<lambda>(d, len, i). len - i)") (auto simp: Let_def)

declare hid_tokens.simps [simp del]

lemma hid_items_tokens:
  "hid_items_loop d len i p = fold (\<lambda>(pre, v). hid_item pre v) (hid_tokens d len i) p"
proof (induction d len i p rule: hid_items_loop.induct)
  case (1 d len i p)
  have e: "Suc (Suc (Suc (i + k))) = i + 3 + k" for k by simp
  show ?case
  proof (cases "i < len")
    case True
    then show ?thesis
      using 1 by (subst hid_items_loop.simps, subst hid_tokens.simps) (simp add: Let_def e)
  next
    case False
    then show ?thesis by (simp add: hid_items_loop.simps hid_tokens.simps)
  qed
qed

text \<open>The report descriptor of a three-button mouse (HID 1.11, appendix E.10).\<close>

definition mouse_descriptor :: "u8 list" where
  "mouse_descriptor = [0x05, 0x01, 0x09, 0x02, 0xA1, 0x01, 0x09, 0x01, 0xA1, 0x00, 0x05, 0x09, 0x19, 0x01, 0x29, 0x03,
     0x15, 0x00, 0x25, 0x01, 0x95, 0x03, 0x75, 0x01, 0x81, 0x02, 0x95, 0x01, 0x75, 0x05, 0x81, 0x01, 0x05, 0x01,
     0x09, 0x30, 0x09, 0x31, 0x15, 0x81, 0x25, 0x7F, 0x75, 0x08, 0x95, 0x02, 0x81, 0x06, 0xC0, 0xC0]"

lemma mouse_tokens:
  "hid_tokens mouse_descriptor 50 0 =
    [(0x05, 1), (0x09, 2), (0xA1, 1), (0x09, 1), (0xA1, 0), (0x05, 9), (0x19, 1), (0x29, 3), (0x15, 0), (0x25, 1),
     (0x95, 3), (0x75, 1), (0x81, 2), (0x95, 1), (0x75, 5), (0x81, 1), (0x05, 1), (0x09, 0x30), (0x09, 0x31),
     (0x15, 0x81), (0x25, 0x7F), (0x75, 8), (0x95, 2), (0x81, 6), (0xC0, 0), (0xC0, 0)]"
  by code_simp

text \<open>The loops, in a form that evaluates on a known state.\<close>

lemma hid_fields_loop_numeral:
  "hid_fields_loop (numeral k) f p =
     (if usage_page p = 0x09 then
        (if hid_buttons_bits (pdev p) = 0
         then p\<lparr>pdev := (pdev p)\<lparr>hid_buttons_bitoff := ucast (bitpos p),
                  hid_buttons_bits := ucast (report_count p * report_size p)\<rparr>\<rparr>
         else p)
      else hid_fields_loop (pred_numeral k) (f + 1)
             (if usage_page p = 0x01 then p\<lparr>pdev := hid_axis_field p f (hid_field_usage p f) (pdev p)\<rparr> else p))"
  unfolding numeral_eq_Suc by (simp only: hid_fields_loop.simps Let_def)

lemma hid_data_item_unfold:
  "hid_data_item v p =
    (if report_count p = 0 \<or> report_size p = 0
     then p\<lparr>cur_is_relative := (if v AND 4 \<noteq> 0 then 1 else 0), usages := [], has_range := False\<rparr>
     else (if in_mouse_app p \<or> in_mouse_phys p
           then hid_fields_loop (unat (report_count p)) 0 (p\<lparr>cur_is_relative := (if v AND 4 \<noteq> 0 then 1 else 0)\<rparr>)
           else p\<lparr>cur_is_relative := (if v AND 4 \<noteq> 0 then 1 else 0)\<rparr>)
       \<lparr>bitpos := bitpos p + report_count p * report_size p, usages := [], has_range := False\<rparr>)"
  by (simp add: hid_data_item_def Let_def)

lemma mouse_descriptor_fields:
  "xhci_hid_parse_report_desc_mouse mouse_descriptor 50 d =
    (hid_reset_mouse d)\<lparr>hid_mouse_valid := 1, hid_buttons_bits := 3, hid_x_bitoff := 8, hid_x_bits := 8,
       hid_x_is_relative := 1, hid_y_bitoff := 16, hid_y_bits := 8, hid_y_is_relative := 1\<rparr>"
  unfolding xhci_hid_parse_report_desc_mouse_def hid_items_tokens mouse_tokens
  by (simp add: hid_parse_start_def hid_item_def hid_global_item_def hid_local_item_def hid_collection_def
      hid_end_collection_def hid_data_item_unfold hid_fields_loop_numeral hid_field_usage_def hid_axis_field_def
      hid_reset_mouse_def Let_def)

lemma report_byte_signed:
  assumes "unat off = 8 * n" "n < 2 ^ 16"
  shows "report_field r off 8 = scast (r (of_nat n))"
proof (rule bit_word_eqI)
  fix k assume "k < LENGTH(32)"
  then have k: "k < 32" by simp
  have "report_bit r (off + of_nat j) = bit (r (of_nat n)) j" if j: "j < 8" for j
  proof -
    have u: "unat (off + of_nat j) = 8 * n + j" using assms j by (simp add: unat_add_small unat_of_nat_small)
    have "drop_bit 3 (off + of_nat j) = of_nat n"
      unfolding word_unat_eq_iff unat_drop_bit_eq u using assms(2) j by (simp add: drop_bit_eq_div unat_of_nat_small)
    moreover have "unat (off + of_nat j AND 7) = j"
    proof -
      have "(8 * n + j) AND 7 = take_bit 3 (8 * n + j)" by (simp add: take_bit_eq_mask mask_eq_exp_minus_1)
      then show ?thesis using j by (simp add: unsigned_and_eq u take_bit_eq_mod)
    qed
    ultimately show ?thesis by (simp add: report_bit_def)
  qed
  then show "bit (report_field r off 8) k = bit (scast (r (of_nat n)) :: i32) k"
    using conjunct2[OF report_field_sign_extended[of 8 k r off]] k
    by (simp add: bit_simps)
qed

lemma report_buttons:
  "hid_bits_loop r 0 3 0 0 = ucast (r 0) AND 7"
proof (rule bit_word_eqI)
  fix k assume "k < LENGTH(32)"
  have "report_bit r (of_nat k) = bit (r 0) k" if k: "k < 3"
  proof -
    have "k = 0 \<or> k = 1 \<or> k = 2" using k by linarith
    then show ?thesis by (auto simp: report_bit_def)
  qed
  moreover have "bit (7 :: u32) k \<longleftrightarrow> k < 3"
    using bit_mask_iff[where 'a = "32 word", of 3 k] by (auto simp: mask_eq_exp_minus_1)
  ultimately show "bit (hid_bits_loop r 0 3 0 0) k = bit (ucast (r 0) AND 7 :: u32) k"
    using hid_bits_loop_bit[of 0 3 r 0 0 k] by (auto simp: bit_simps dest: bit_imp_le_length)
qed

text \<open>
  C22. For the standard three-button mouse the report descriptor parser and the report decoder
  together agree with the boot protocol: each report moves the pointer by its signed bytes 1 and
  2, with the three buttons of byte 0.
\<close>

theorem mouse_reports_decoded:
  assumes "dev_at i s = xhci_hid_parse_report_desc_mouse mouse_descriptor 50 d"
  shows "mouse_report r xfer_len i s =
    s\<lparr>x_input := input_pointer_add_rel (scast (r 1)) (scast (r 2)) (ucast (r 0) AND 7) (x_input s)\<rparr>"
  using report_byte_signed[of 8 1 r] report_byte_signed[of 16 2 r] report_buttons[of r]
  by (simp add: mouse_report_def assms mouse_descriptor_fields hid_reset_mouse_def Let_def)

definition mouse_example :: "(u64 \<Rightarrow> u8) xhci" where
  "mouse_example = upd_dev 1 (xhci_hid_parse_report_desc_mouse mouse_descriptor 50) xhci_example"

theorem mouse_reports_decoded_witness:
  "mouse_report (\<lambda>a. if a = 0 then 1 else 0xFF) 3 1 mouse_example =
     mouse_example\<lparr>x_input := input_pointer_add_rel (- 1) (- 1) 1 input_example\<rparr>"
proof -
  let ?r = "\<lambda>a :: u32. if a = 0 then 1 else 0xFF :: u8"
  have "dev_at 1 mouse_example = xhci_hid_parse_report_desc_mouse mouse_descriptor 50 device_example"
    by (simp add: mouse_example_def dev_at_def upd_dev_def xhci_example_def)
  from mouse_reports_decoded[OF this, of ?r 3] show ?thesis
    by (simp add: mouse_example_def upd_dev_def xhci_example_def)
qed

text \<open>What the items leave alone.\<close>

lemma hid_axis_field_keeps [simp]: "hid_mouse_valid (hid_axis_field p f u d) = hid_mouse_valid d"
  by (simp add: hid_axis_field_def Let_def)

lemma hid_fields_loop_keeps [simp]: "hid_mouse_valid (pdev (hid_fields_loop n f p)) = hid_mouse_valid (pdev p)"
  by (induction n f p rule: hid_fields_loop.induct) (simp_all add: Let_def)

lemma hid_item_keeps [simp]: "hid_mouse_valid (pdev (hid_item pre v p)) = hid_mouse_valid (pdev p)"
  by (simp add: hid_item_def hid_global_item_def hid_local_item_def hid_collection_def hid_end_collection_def
      hid_data_item_def Let_def)

lemma hid_items_keeps: "hid_mouse_valid (pdev (fold (\<lambda>(pre, v). hid_item pre v) its p)) = hid_mouse_valid (pdev p)"
  by (induction its arbitrary: p) (auto split: prod.splits)

text \<open>
  The report descriptor parser depends on the first len bytes of the buffer only, whatever
  they are, and marks the mouse as usable exactly when it found both an X and a Y field.
\<close>

theorem descriptor_parse_in_bounds:
  assumes "\<And>j. j < len \<Longrightarrow> d ! j = d' ! j"
  shows "xhci_hid_parse_report_desc_mouse d len dev = xhci_hid_parse_report_desc_mouse d' len dev \<and>
    (let q = xhci_hid_parse_report_desc_mouse d len dev in
       hid_mouse_valid q = (if hid_x_bits q \<noteq> 0 \<and> hid_y_bits q \<noteq> 0 then 1 else 0))"
proof -
  let ?q = "pdev (hid_items_loop d len 0 (hid_parse_start dev))"
  have "hid_mouse_valid ?q = 0"
    by (simp add: hid_items_tokens hid_items_keeps hid_parse_start_def hid_reset_mouse_def)
  moreover have "hid_items_loop d len 0 (hid_parse_start dev) = hid_items_loop d' len 0 (hid_parse_start dev)"
    using assms by (rule hid_items_loop_cong)
  ultimately show ?thesis by (simp add: xhci_hid_parse_report_desc_mouse_def Let_def)
qed

theorem descriptor_parse_in_bounds_witness:
  "xhci_hid_parse_report_desc_mouse (mouse_descriptor @ [0x05, 0x01]) 50 device_example =
     xhci_hid_parse_report_desc_mouse mouse_descriptor 50 device_example"
proof -
  have "length mouse_descriptor = 50" by (simp add: mouse_descriptor_def)
  then have "(mouse_descriptor @ [0x05, 0x01]) ! j = mouse_descriptor ! j" if "j < 50" for j
    using that by (simp add: nth_append)
  from descriptor_parse_in_bounds[OF this] show ?thesis by blast
qed

section \<open>Configurations\<close>

text \<open>The descriptors of a configuration by their offsets, and what the driver looks for among them.\<close>

function cfg_offsets :: "u8 list \<Rightarrow> nat \<Rightarrow> nat \<Rightarrow> nat list" where
  "cfg_offsets buf n off =
     (if off + 2 \<le> n \<and> 2 \<le> unat (buf ! off) \<and> off + unat (buf ! off) \<le> n
      then off # cfg_offsets buf n (off + unat (buf ! off)) else [])"
  by pat_completeness auto
termination
  by (relation "measure (\<lambda>(buf, n, off). n - off)") auto

declare cfg_offsets.simps [simp del]

definition is_interface :: "u8 list \<Rightarrow> nat \<Rightarrow> bool" where
  "is_interface buf o1 \<longleftrightarrow> buf ! (o1 + 1) = 4 \<and> 9 \<le> unat (buf ! o1)"

definition hid_class :: "u8 \<Rightarrow> u8 \<Rightarrow> bool" where
  "hid_class cls sub \<longleftrightarrow> cls = 3 \<and> (sub = 0 \<or> sub = 1)"

definition is_hid_interface :: "u8 list \<Rightarrow> nat \<Rightarrow> bool" where
  "is_hid_interface buf o1 \<longleftrightarrow> is_interface buf o1 \<and> hid_class (buf ! (o1 + 5)) (buf ! (o1 + 6))"

definition is_interrupt_in :: "u8 list \<Rightarrow> nat \<Rightarrow> bool" where
  "is_interrupt_in buf o1 \<longleftrightarrow> buf ! (o1 + 1) = 5 \<and> 7 \<le> unat (buf ! o1) \<and>
     buf ! (o1 + 2) AND 0x80 \<noteq> 0 \<and> buf ! (o1 + 3) AND 3 = 3"

text \<open>The interrupt-IN endpoints that follow an interface of the HID class.\<close>

fun hid_endpoints :: "u8 list \<Rightarrow> bool \<Rightarrow> nat list \<Rightarrow> nat list" where
  "hid_endpoints buf h [] = []"
| "hid_endpoints buf h (o1 # os) =
     (if is_interface buf o1 then hid_endpoints buf (is_hid_interface buf o1) os
      else if h \<and> is_interrupt_in buf o1 then o1 # hid_endpoints buf h os
      else hid_endpoints buf h os)"

lemma cfg_loop_offsets: "cfg_loop buf n off w = fold (cfg_step buf) (cfg_offsets buf n off) w"
proof (induction buf n off w rule: cfg_loop.induct)
  case (1 buf n off w)
  then show ?case
    by (subst cfg_loop.simps, subst cfg_offsets.simps) (simp add: Let_def not_less)
qed

lemma cfg_offsets_bound: "x \<in> set (cfg_offsets buf n off) \<Longrightarrow> 2 \<le> unat (buf ! x) \<and> x + unat (buf ! x) \<le> n"
  by (induction buf n off rule: cfg_offsets.induct) (subst (asm) (2) cfg_offsets.simps, auto split: if_splits)

definition endpoint_is :: "u8 list \<Rightarrow> nat \<Rightarrow> xhci_device \<Rightarrow> bool" where
  "endpoint_is buf o1 d \<longleftrightarrow> intr_epaddr d = buf ! (o1 + 2) \<and> intr_dci d = 2 * (buf ! (o1 + 2) AND 0x0F) + 1 \<and>
     intr_mps d = rd16 buf (o1 + 4) \<and> intr_interval d = buf ! (o1 + 6)"

definition same_endpoint :: "xhci_device \<Rightarrow> xhci_device \<Rightarrow> bool" where
  "same_endpoint d d' \<longleftrightarrow> intr_epaddr d' = intr_epaddr d \<and> intr_dci d' = intr_dci d \<and>
     intr_mps d' = intr_mps d \<and> intr_interval d' = intr_interval d"

lemma cfg_step_spec:
  defines "h w \<equiv> hid_class (cur_ifclass w) (cur_ifsub w)"
  shows "h (cfg_step buf o1 w) = (if is_interface buf o1 then is_hid_interface buf o1 else h w)"
    "\<not> is_interface buf o1 \<and> h w \<and> is_interrupt_in buf o1 \<and> intr_epaddr (cdev w) = 0 \<Longrightarrow>
       endpoint_is buf o1 (cdev (cfg_step buf o1 w)) \<and> intr_epaddr (cdev (cfg_step buf o1 w)) \<noteq> 0"
    "\<not> (\<not> is_interface buf o1 \<and> h w \<and> is_interrupt_in buf o1 \<and> intr_epaddr (cdev w) = 0) \<Longrightarrow>
       same_endpoint (cdev w) (cdev (cfg_step buf o1 w))"
    "hid_ifnum (cdev (cfg_step buf o1 w)) = (if is_hid_interface buf o1 then buf ! (o1 + 2) else hid_ifnum (cdev w))"
    "hid_proto (cdev (cfg_step buf o1 w)) = (if is_hid_interface buf o1 then buf ! (o1 + 7) else hid_proto (cdev w))"
proof -
  show "h (cfg_step buf o1 w) = (if is_interface buf o1 then is_hid_interface buf o1 else h w)"
    by (simp add: h_def cfg_step_def is_interface_def is_hid_interface_def cfg_interface_def cfg_hid_def
        cfg_endpoint_def Let_def hid_class_def)
  show "\<not> is_interface buf o1 \<and> h w \<and> is_interrupt_in buf o1 \<and> intr_epaddr (cdev w) = 0 \<Longrightarrow>
       endpoint_is buf o1 (cdev (cfg_step buf o1 w)) \<and> intr_epaddr (cdev (cfg_step buf o1 w)) \<noteq> 0"
    by (auto simp: h_def cfg_step_def Let_def is_interface_def is_interrupt_in_def hid_class_def cfg_endpoint_def
        endpoint_is_def Let_def)
  show "\<not> (\<not> is_interface buf o1 \<and> h w \<and> is_interrupt_in buf o1 \<and> intr_epaddr (cdev w) = 0) \<Longrightarrow>
       same_endpoint (cdev w) (cdev (cfg_step buf o1 w))"
    by (auto simp: h_def cfg_step_def Let_def is_interface_def is_interrupt_in_def hid_class_def cfg_endpoint_def
        cfg_interface_def cfg_hid_def same_endpoint_def Let_def)
  show "hid_ifnum (cdev (cfg_step buf o1 w)) = (if is_hid_interface buf o1 then buf ! (o1 + 2) else hid_ifnum (cdev w))"
    "hid_proto (cdev (cfg_step buf o1 w)) = (if is_hid_interface buf o1 then buf ! (o1 + 7) else hid_proto (cdev w))"
    by (auto simp: cfg_step_def Let_def is_interface_def is_hid_interface_def hid_class_def cfg_endpoint_def
        cfg_interface_def cfg_hid_def Let_def)
qed

lemma same_endpoint_trans: "same_endpoint a b \<Longrightarrow> same_endpoint b c \<Longrightarrow> same_endpoint a c"
  by (simp add: same_endpoint_def)

lemma endpoint_is_same: "endpoint_is buf o1 a \<Longrightarrow> same_endpoint a b \<Longrightarrow> endpoint_is buf o1 b"
  by (simp add: same_endpoint_def endpoint_is_def)

lemma cfg_fold_kept:
  "intr_epaddr (cdev w) \<noteq> 0 \<Longrightarrow> same_endpoint (cdev w) (cdev (fold (cfg_step buf) os w))"
proof (induction os arbitrary: w)
  case (Cons o1 os)
  then have st: "same_endpoint (cdev w) (cdev (cfg_step buf o1 w))" by (intro cfg_step_spec(3)) simp
  then have "intr_epaddr (cdev (cfg_step buf o1 w)) \<noteq> 0" using Cons.prems by (simp add: same_endpoint_def)
  from Cons.IH[OF this] st show ?case by (auto intro: same_endpoint_trans)
qed (simp add: same_endpoint_def)

lemma cfg_fold_endpoint:
  "intr_epaddr (cdev w) = 0 \<Longrightarrow>
    (case hid_endpoints buf (hid_class (cur_ifclass w) (cur_ifsub w)) os of
       [] \<Rightarrow> same_endpoint (cdev w) (cdev (fold (cfg_step buf) os w))
     | o1 # _ \<Rightarrow> endpoint_is buf o1 (cdev (fold (cfg_step buf) os w)))"
proof (induction os arbitrary: w)
  case (Cons o1 os)
  let ?w = "cfg_step buf o1 w" and ?h = "hid_class (cur_ifclass w) (cur_ifsub w)"
  show ?case
  proof (cases "\<not> is_interface buf o1 \<and> ?h \<and> is_interrupt_in buf o1")
    case True
    with cfg_step_spec(2)[of buf o1 w] Cons.prems
    have "endpoint_is buf o1 (cdev ?w)" "intr_epaddr (cdev ?w) \<noteq> 0" by auto
    with cfg_fold_kept[of ?w buf os] endpoint_is_same True show ?thesis by auto
  next
    case False
    then have st: "same_endpoint (cdev w) (cdev ?w)" by (intro cfg_step_spec(3)) auto
    then have "intr_epaddr (cdev ?w) = 0" using Cons.prems by (simp add: same_endpoint_def)
    from Cons.IH[OF this] cfg_step_spec(1)[of buf o1 w] st False show ?thesis
      by (auto split: list.splits if_splits intro: same_endpoint_trans)
  qed
qed (simp add: same_endpoint_def)

lemma cfg_fold_interface:
  "hid_ifnum (cdev (fold (cfg_step buf) os w)) =
     (case rev (filter (is_hid_interface buf) os) of [] \<Rightarrow> hid_ifnum (cdev w) | o1 # _ \<Rightarrow> buf ! (o1 + 2))"
  "hid_proto (cdev (fold (cfg_step buf) os w)) =
     (case rev (filter (is_hid_interface buf) os) of [] \<Rightarrow> hid_proto (cdev w) | o1 # _ \<Rightarrow> buf ! (o1 + 7))"
  by (induction os arbitrary: w) (auto simp: cfg_step_spec(4,5) split: list.splits)

text \<open>
  C23. From a configuration the driver takes the first interrupt-IN endpoint behind a HID
  interface, with its context index, packet size and interval, but the number and protocol of
  the last HID interface; it looks only at descriptors that lie completely in the first
  total_len bytes.
\<close>

theorem configuration_choice:
  "let q = cfg_parse buf n d; os = cfg_offsets buf n 0 in
    (case hid_endpoints buf False os of
       [] \<Rightarrow> intr_epaddr q = 0 \<and> intr_dci q = 0 \<and> intr_mps q = 0
     | o1 # _ \<Rightarrow> o1 + 7 \<le> n \<and> endpoint_is buf o1 q) \<and>
    (case rev (filter (is_hid_interface buf) os) of
       [] \<Rightarrow> hid_ifnum q = 0xFF
     | o1 # _ \<Rightarrow> o1 + 9 \<le> n \<and> hid_ifnum q = buf ! (o1 + 2) \<and> hid_proto q = buf ! (o1 + 7))"
proof -
  define os where "os = cfg_offsets buf n 0"
  define es where "es = hid_endpoints buf False os"
  define hs where "hs = rev (filter (is_hid_interface buf) os)"
  let ?w = "\<lparr>cur_ifclass = 0, cur_ifsub = 0, cdev = cfg_reset d\<rparr>"
  have q: "cfg_parse buf n d = cdev (fold (cfg_step buf) os ?w)"
    by (simp add: cfg_parse_def cfg_loop_offsets os_def)
  have z: "intr_epaddr (cfg_reset d) = 0" "intr_dci (cfg_reset d) = 0" "intr_mps (cfg_reset d) = 0"
    "hid_ifnum (cfg_reset d) = 0xFF"
    by (simp_all add: cfg_reset_def)
  have sub: "o1 \<in> set xs \<and> is_interrupt_in buf o1" if "o1 \<in> set (hid_endpoints buf h xs)" for o1 h xs
    using that by (induction buf h xs rule: hid_endpoints.induct) (auto split: if_splits)
  have e: "o1 + 7 \<le> n" if "o1 \<in> set es" for o1
    using sub[of o1 False os] that cfg_offsets_bound[of o1 buf n 0] by (auto simp: es_def os_def is_interrupt_in_def)
  have i: "o1 + 9 \<le> n" if "o1 \<in> set hs" for o1
    using that cfg_offsets_bound[of o1 buf n 0] by (auto simp: hs_def os_def is_hid_interface_def is_interface_def)
  have "case es of [] \<Rightarrow> same_endpoint (cdev ?w) (cdev (fold (cfg_step buf) os ?w))
     | o1 # _ \<Rightarrow> endpoint_is buf o1 (cdev (fold (cfg_step buf) os ?w))"
    using cfg_fold_endpoint[of ?w buf os] z by (simp add: es_def hid_class_def)
  moreover note cfg_fold_interface[of buf os ?w, folded hs_def]
  ultimately show ?thesis
    unfolding Let_def q os_def[symmetric] es_def[symmetric] hs_def[symmetric]
    using z e i by (cases es; cases hs) (auto simp: same_endpoint_def)
qed

text \<open>Interface and endpoint can belong to different functions: a keyboard interface 0 with endpoint
  1 followed by a mouse interface 1 with endpoint 2 is driven as a mouse on the keyboard's endpoint.\<close>

definition composite_configuration :: "u8 list" where
  "composite_configuration =
     [9, 2, 59, 0, 2, 1, 0, 0xA0, 50,
      9, 4, 0, 0, 1, 3, 1, 1, 0,  9, 0x21, 0x11, 1, 0, 1, 0x22, 63, 0,  7, 5, 0x81, 3, 8, 0, 10,
      9, 4, 1, 0, 1, 3, 1, 2, 0,  9, 0x21, 0x11, 1, 0, 1, 0x22, 50, 0,  7, 5, 0x82, 3, 4, 0, 10]"

theorem composite_device_mixed_up:
  "let q = cfg_parse composite_configuration 59 d in
     hid_ifnum q = 1 \<and> hid_proto q = 2 \<and> intr_epaddr q = 0x81 \<and> intr_dci q = 3 \<and> intr_mps q = 8"
proof -
  have "cfg_offsets composite_configuration 59 0 = [0, 9, 18, 27, 34, 43, 52]" by code_simp
  moreover have "hid_endpoints composite_configuration False [0, 9, 18, 27, 34, 43, 52] = [27, 52]" by code_simp
  moreover have "filter (is_hid_interface composite_configuration) [0, 9, 18, 27, 34, 43, 52] = [9, 34]" by code_simp
  moreover have "composite_configuration ! 29 = 0x81" "rd16 composite_configuration 31 = 8"
    "composite_configuration ! 36 = 1" "composite_configuration ! 41 = 2" by code_simp+
  ultimately show ?thesis
    using cfg_fold_endpoint[of "\<lparr>cur_ifclass = 0, cur_ifsub = 0, cdev = cfg_reset d\<rparr>" composite_configuration "[0, 9, 18, 27, 34, 43, 52]"]
      cfg_fold_interface[of composite_configuration "[0, 9, 18, 27, 34, 43, 52]" "\<lparr>cur_ifclass = 0, cur_ifsub = 0, cdev = cfg_reset d\<rparr>"]
    by (simp add: cfg_parse_def cfg_loop_offsets hid_class_def cfg_reset_def endpoint_is_def Let_def)
qed

section \<open>Keyboard reports\<close>

text \<open>The characters a report adds: those of the keys the previous report did not hold, in order.\<close>

definition typed :: "u8 list \<Rightarrow> bool \<Rightarrow> u8 list \<Rightarrow> u8 list" where
  "typed prev shift keys =
     filter (\<lambda>c. c \<noteq> 0) (map (\<lambda>k. xhci_kbd_keycode_to_ascii k shift) (filter (\<lambda>k. k \<noteq> 0 \<and> k \<notin> set prev) keys))"

lemma typed_Cons:
  "typed prev shift (k # ks) =
     (if k \<noteq> 0 \<and> k \<notin> set prev \<and> xhci_kbd_keycode_to_ascii k shift \<noteq> 0
      then xhci_kbd_keycode_to_ascii k shift # typed prev shift ks else typed prev shift ks)"
  by (simp add: typed_def)

lemma length_typed: "length (typed prev shift ks) \<le> length ks"
  unfolding typed_def by (rule le_trans[OF length_filter_le]) simp

lemma kbd_keys_typed:
  assumes "length prev = 6"
  shows "fold (kbd_key prev shift) keys q = fold input_kbd_push_char (typed prev shift keys) q"
proof (induction keys arbitrary: q)
  case (Cons k ks)
  have "kbd_key prev shift k q = (if k \<noteq> 0 \<and> k \<notin> set prev \<and> xhci_kbd_keycode_to_ascii k shift \<noteq> 0
      then input_kbd_push_char (xhci_kbd_keycode_to_ascii k shift) q else q)"
    using assms by (simp add: kbd_key_def xhci_kbd_has_key_def Let_def)
  then show ?case by (simp add: Cons.IH typed_Cons)
qed (simp add: typed_def)

definition report_keys :: "(u32 \<Rightarrow> u8) \<Rightarrow> u8 list" where
  "report_keys r = map (\<lambda>j. r (2 + of_nat j)) [0..<6]"

definition report_shift :: "(u32 \<Rightarrow> u8) \<Rightarrow> bool" where
  "report_shift r \<longleftrightarrow> bit (r 0) 1 \<or> bit (r 0) 5"

lemma typed_held: "typed keys shift keys = []"
  by (simp add: typed_def filter_empty_conv)

lemma kbd_report_eq:
  assumes "i < length (g_devs s)" "length (kbd_prev_keys (dev_at i s)) = 6"
  shows "x_input (kbd_report r i s) =
      fold input_kbd_push_char (typed (kbd_prev_keys (dev_at i s)) (report_shift r) (report_keys r)) (x_input s)"
    "kbd_prev_keys (dev_at i (kbd_report r i s)) = report_keys r"
proof -
  have "(r 0 AND 2 \<noteq> 0 \<or> r 0 AND 0x20 \<noteq> 0) = report_shift r"
    using and_exp_eq_0_iff_not_bit[of "r 0" 1] and_exp_eq_0_iff_not_bit[of "r 0" 5] by (simp add: report_shift_def)
  then show "x_input (kbd_report r i s) =
      fold input_kbd_push_char (typed (kbd_prev_keys (dev_at i s)) (report_shift r) (report_keys r)) (x_input s)"
    using kbd_keys_typed[OF assms(2)]
    by (simp only: kbd_report_def Let_def upd_dev_def report_keys_def) simp
  show "kbd_prev_keys (dev_at i (kbd_report r i s)) = report_keys r"
    using assms(1) by (simp add: kbd_report_def Let_def report_keys_def upd_dev_def dev_at_def)
qed

text \<open>
  C24. A keyboard report queues exactly the characters of the keys that the previous report did
  not hold, in order and with shift applied; the same report again queues nothing.
\<close>

theorem keyboard_report_types:
  assumes "i < length (g_devs s)" "length (kbd_prev_keys (dev_at i s)) = 6" "kbd_wf (x_input s)"
    and "length (kbd_list (x_input s)) + 6 \<le> 255"
  shows "kbd_list (x_input (kbd_report r i s)) =
      kbd_list (x_input s) @ typed (kbd_prev_keys (dev_at i s)) (report_shift r) (report_keys r) \<and>
    kbd_list (x_input (kbd_report r i (kbd_report r i s))) = kbd_list (x_input (kbd_report r i s))"
proof -
  let ?t = "typed (kbd_prev_keys (dev_at i s)) (report_shift r) (report_keys r)"
  let ?s = "kbd_report r i s"
  have "length ?t \<le> 6"
    using length_typed[of _ _ "report_keys r"] by (simp add: report_keys_def)
  then have one: "kbd_list (x_input ?s) = kbd_list (x_input s) @ ?t"
    using kbd.contents_enq_all[OF assms(3), of ?t] assms(4) kbd_report_eq(1)[OF assms(1,2), of r] by simp
  have len: "i < length (g_devs ?s)" "length (kbd_prev_keys (dev_at i ?s)) = 6"
    using assms(1) kbd_report_eq(2)[OF assms(1,2), of r]
    by (simp_all add: kbd_report_def Let_def report_keys_def)
  have "x_input (kbd_report r i ?s) = x_input ?s"
    unfolding kbd_report_eq(1)[OF len] kbd_report_eq(2)[OF assms(1,2)] typed_held by simp
  with one show ?thesis by simp
qed

theorem keyboard_report_types_witness:
  "kbd_list (x_input (kbd_report (\<lambda>a. if a = 0 then 2 else if a = 2 then 0x0B else if a = 3 then 0x0C else 0) 1 xhci_example)) =
     [0x48, 0x49]"
proof -
  let ?r = "\<lambda>a :: u32. if a = 0 then 2 else if a = 2 then 0x0B else if a = 3 then 0x0C else (0 :: u8)"
  have e: "kbd_wf input_example" "kbd_list input_example = []"
    by (simp_all add: kbd_wf_def input_example_def kbd_list_def kbd_len_def)
  have k: "report_keys ?r = [0x0B, 0x0C, 0, 0, 0, 0]" "report_shift ?r"
    by (simp_all add: report_keys_def report_shift_def upt_rec)
  have t: "typed (replicate 6 0) True [0x0B, 0x0C, 0, 0, 0, 0] = [0x48, 0x49]"
    by (simp add: typed_def xhci_kbd_keycode_to_ascii_def word_le_nat_alt)
  show ?thesis
    using keyboard_report_types[of 1 xhci_example ?r] e k t
    by (simp add: xhci_example_def dev_at_def device_example_def)
qed

section \<open>The event loop\<close>

definition input_ok :: "input \<Rightarrow> bool" where
  "input_ok q \<longleftrightarrow> kbd_wf q \<and> screen_ok q \<and> on_screen q"

definition input_kept :: "'d xhci \<Rightarrow> 'd xhci \<Rightarrow> bool" where
  "input_kept s s' \<longleftrightarrow> input_ok (x_input s') \<and> g_w (x_input s') = g_w (x_input s) \<and> g_h (x_input s') = g_h (x_input s)"

lemma pointer_ops_ok:
  assumes "input_ok q"
  shows "input_ok (pointer_update e q) \<and> g_w (pointer_update e q) = g_w q \<and> g_h (pointer_update e q) = g_h q"
proof -
  have "kbd_wf (pointer_update e q)"
    using assms by (cases e) (simp_all add: input_ok_def kbd_wf_def input_pointer_set_abs_def
        input_pointer_set_abs_scaled_def input_pointer_add_rel_def Let_def)
  then show ?thesis using assms pointer_update_screen[of q e] by (simp add: input_ok_def)
qed

lemma kbd_key_ok:
  assumes "input_ok q"
  shows "input_ok (kbd_key prev shift k q) \<and> g_w (kbd_key prev shift k q) = g_w q \<and> g_h (kbd_key prev shift k q) = g_h q"
proof -
  have "kbd_wf (input_kbd_push_char c q)" for c using assms by (simp add: input_ok_def kbd.inv_enq)
  then have "input_ok (input_kbd_push_char c q) \<and> g_w (input_kbd_push_char c q) = g_w q \<and> g_h (input_kbd_push_char c q) = g_h q" for c
    using assms by (simp add: input_ok_def input_kbd_push_char_def Let_def screen_ok_def on_screen_def)
  then show ?thesis using assms by (simp add: kbd_key_def Let_def)
qed

lemma kbd_keys_ok:
  "input_ok q \<Longrightarrow> input_ok (fold (kbd_key prev shift) ks q) \<and> g_w (fold (kbd_key prev shift) ks q) = g_w q \<and>
    g_h (fold (kbd_key prev shift) ks q) = g_h q"
proof (induction ks arbitrary: q)
  case (Cons k ks)
  with kbd_key_ok[of q prev shift k] show ?case by simp
qed simp

lemma x_input_upd [simp]: "x_input (upd_dev i f s) = x_input s"
  by (simp add: upd_dev_def)

lemma handle_report_kept:
  assumes "input_ok (x_input s)"
  shows "input_kept s (xhci_handle_report b evt i s)"
proof -
  note rel = pointer_ops_ok[OF assms, of "AddRel _ _ _", unfolded pointer_update.simps]
  note abs = pointer_ops_ok[OF assms, of "SetScaled _ _ _ _ _", unfolded pointer_update.simps]
  have m: "input_kept s (mouse_report r n i s)" for r n
    using assms rel abs by (simp add: mouse_report_def Let_def input_kept_def)
  have k: "input_kept s (kbd_report r i s)" for r
    using kbd_keys_ok[OF assms] by (simp add: kbd_report_def Let_def input_kept_def)
  have o: "input_kept s (boot_mouse_report r s)" "input_kept s s" for r
    using assms rel by (simp_all add: boot_mouse_report_def input_kept_def)
  show ?thesis using m k o by (simp add: xhci_handle_report_def Let_def)
qed

lemma x_input_polling [simp]: "x_input (xhci_hid_start_polling b i s) = x_input s"
  by (simp add: xhci_hid_start_polling_def Let_def x_alloc_def x_zero_def x_put_def xhci_ring_doorbell_ep_def
      mm_wr32_def xhci_intr_ring_push_def put_trb_def st32_def split: prod.splits)

lemma handle_event_kept:
  assumes "input_ok (x_input s)"
  shows "input_kept s (xhci_handle_event b evt s)"
proof -
  have "input_kept s s" using assms by (simp add: input_kept_def)
  then show ?thesis
    using handle_report_kept[OF assms, of b evt] by (simp add: xhci_handle_event_def Let_def input_kept_def)
qed

lemma x_input_poll [simp]: "x_input (snd (xhci_poll_event b s)) = x_input s"
  by (simp add: xhci_poll_event_def Let_def xhci_event_ring_update_erdp_def mm_wr64_def)

lemma poll_events_loop_kept:
  assumes "xhci_poll_events_loop b s = Some s'"
  shows "input_ok (x_input s) \<longrightarrow> input_kept s s'"
proof (rule xhci_poll_events_loop.raw_induct[where P = "\<lambda>b s s'. input_ok (x_input s) \<longrightarrow> input_kept s s'", OF _ assms])
  fix loop :: "'a bus \<Rightarrow> 'a xhci \<Rightarrow> 'a xhci option" and b s s'
  assume IH: "\<And>b s s'. loop b s = Some s' \<Longrightarrow> input_ok (x_input s) \<longrightarrow> input_kept s s'"
    and body: "(let r = xhci_poll_event b s in if fst r = None then Some (snd r)
      else loop b (xhci_handle_event b (the (fst r)) (snd r))) = Some s'"
  let ?p = "xhci_poll_event b s"
  show "input_ok (x_input s) \<longrightarrow> input_kept s s'"
  proof (cases "fst ?p")
    case None
    then have "s' = snd ?p" using body by (simp add: Let_def)
    then show ?thesis by (simp add: input_kept_def)
  next
    case (Some e)
    let ?q = "xhci_handle_event b e (snd ?p)"
    have "loop b ?q = Some s'" using body Some by (simp add: Let_def)
    then have "input_ok (x_input ?q) \<longrightarrow> input_kept ?q s'" by (rule IH)
    then show ?thesis using handle_event_kept[of "snd ?p" b e] by (simp add: input_kept_def)
  qed
qed

text \<open>
  Whatever the controller and its devices send, when xhci_poll_events returns the pointer
  is on the screen, the keyboard queue is well-formed and the screen size is unchanged.
\<close>

theorem events_keep_input:
  assumes "input_ok (x_input s)" "xhci_poll_events b s = Some s'"
  shows "input_ok (x_input s') \<and> g_w (x_input s') = g_w (x_input s) \<and> g_h (x_input s') = g_h (x_input s)"
  using assms poll_events_loop_kept[of b s s']
  by (auto simp: xhci_poll_events_def input_kept_def split: if_splits)

theorem events_keep_input_witness:
  "\<exists>s'. xhci_poll_events ram_bus (xhci_example\<lparr>x_input := input_init 1024 768 input_example\<rparr>) = Some s' \<and>
     input_ok (x_input s') \<and> g_w (x_input s') = 1024"
proof -
  let ?s = "xhci_example\<lparr>x_input := input_init 1024 768 input_example\<rparr>"
  have "trb_at (x_mem ram_bus ?s) 0x2000 = zero_trb"
    by (simp add: trb_at_def ld64_def ld32_def rd64_def rd32_def bytes_at_def x_mem_def ram_bus_def xhci_example_def zero_trb_def)
  then have "fst (xhci_poll_event ram_bus ?s) = None"
    by (simp add: xhci_poll_event_def Let_def xhci_example_def x_mem_def ram_bus_def zero_trb_def)
  then have p: "xhci_poll_events ram_bus ?s = Some (snd (xhci_poll_event ram_bus ?s))"
    by (subst xhci_poll_events_def, subst xhci_poll_events_loop.simps) (simp add: Let_def xhci_example_def)
  have ok: "input_ok (x_input ?s)"
    using init_on_screen[of 1024 768 input_example]
    by (simp add: input_ok_def kbd_wf_def input_init_def input_example_def)
  from events_keep_input[OF ok p] p show ?thesis by (simp add: input_init_def)
qed

section \<open>Port reset\<close>

text \<open>
  A root-hub port as the xHCI specification describes it (section 5.4.8), for a device that stays
  connected: the change bits and the enable bit are cleared by writing 1 to them, a reset enables the
  port, brings the link to U0 and sets the reset change, a disabled port's link is in Polling.
  \<open>spec_port\<close> says that the register at \<open>a\<close> behaves so, \<open>reg\<close> being its value in the hardware state.
\<close>

definition portsc_write :: "u32 \<Rightarrow> u32 \<Rightarrow> u32" where
  "portsc_write v p =
     (if v AND PORTSC_PR \<noteq> 0 \<or> v AND PORTSC_WPR \<noteq> 0
      then ((p AND NOT PORTSC_PLS_MASK) OR PORTSC_PED OR push_bit 21 1)
      else let p = p AND NOT (v AND PORTSC_W1C)
           in if v AND PORTSC_PED \<noteq> 0 then (p AND NOT PORTSC_PED AND NOT PORTSC_PLS_MASK) OR push_bit 5 7 else p)"

definition spec_port :: "'d bus \<Rightarrow> u64 \<Rightarrow> ('d \<Rightarrow> u32) \<Rightarrow> bool" where
  "spec_port b a reg \<longleftrightarrow>
     (\<forall>d. fst (b_rd32 b a d) = reg d \<and> reg (snd (b_rd32 b a d)) = reg d) \<and>
     (\<forall>v d. reg (b_wr32 b a v d) = portsc_write v (reg d))"

lemma port_read:
  assumes "spec_port b a reg"
  obtains s' where "mm_rd32 b a s = (reg (x_hw s), s')" "reg (x_hw s') = reg (x_hw s)"
proof -
  let ?s = "s\<lparr>x_hw := snd (b_rd32 b a (x_hw s))\<rparr>"
  have "mm_rd32 b a s = (reg (x_hw s), ?s)" "reg (x_hw ?s) = reg (x_hw s)"
    using assms by (simp_all add: spec_port_def mm_rd32_def case_prod_beta)
  then show ?thesis by (rule that)
qed

lemma port_write:
  assumes "spec_port b a reg"
  shows "reg (x_hw (mm_wr32 b a v s)) = portsc_write v (reg (x_hw s))"
  using assms by (simp add: spec_port_def mm_wr32_def)

text \<open>The port the driver makes of a connected one: powered and disabled.\<close>

definition port_dead :: "u32 \<Rightarrow> bool" where
  "port_dead p \<longleftrightarrow> bit p 0 \<and> \<not> bit p 1 \<and> bit p 9 \<and> \<not> bit p 4 \<and> \<not> bit p 31"

definition port_connected :: "u32 \<Rightarrow> bool" where
  "port_connected p \<longleftrightarrow> bit p 0 \<and> bit p 9 \<and> \<not> bit p 4 \<and> \<not> bit p 31 \<and> bit p 17"

lemma portsc_masks:
  "PORTSC_CCS = 2 ^ 0" "PORTSC_PED = 2 ^ 1" "PORTSC_PR = 2 ^ 4" "PORTSC_PP = 2 ^ 9" "PORTSC_WPR = 2 ^ 31"
  "PORTSC_LWS = 0x10000" "PORTSC_PLS_MASK = 0x1E0" "PORTSC_W1C = 0x7E0000"
  by (simp_all add: PORTSC_CCS_def PORTSC_PED_def PORTSC_PR_def PORTSC_PP_def PORTSC_WPR_def PORTSC_LWS_def
      PORTSC_PLS_MASK_def PORTSC_W1C_def)

lemma portsc_tests:
  "p AND PORTSC_CCS = 0 \<longleftrightarrow> \<not> bit p 0" "p AND PORTSC_PED = 0 \<longleftrightarrow> \<not> bit p 1" "p AND PORTSC_PR = 0 \<longleftrightarrow> \<not> bit p 4"
  "p AND PORTSC_PP = 0 \<longleftrightarrow> \<not> bit p 9" "p AND PORTSC_WPR = 0 \<longleftrightarrow> \<not> bit p 31"
  unfolding portsc_masks by (simp_all only: and_exp_eq_0_iff_not_bit)

lemma portsc_change_pending: "bit p 17 \<or> bit p 21 \<Longrightarrow> p AND PORTSC_W1C \<noteq> 0"
proof -
  assume h: "bit p 17 \<or> bit p 21"
  have "bit (p AND PORTSC_W1C) 17 \<longleftrightarrow> bit p 17" "bit (p AND PORTSC_W1C) 21 \<longleftrightarrow> bit p 21"
    by (simp_all add: portsc_masks bit_and_iff)
  then show ?thesis using h by (metis bit_0_eq bot_apply bot_bool_def)
qed

lemma dead_not_ready: "port_dead p \<Longrightarrow> \<not> xhci_port_ready p"
  by (simp add: port_dead_def xhci_port_ready_def portsc_tests)

text \<open>Acknowledging a change of a connected port, enabled or not, leaves it disabled.\<close>

lemma port_acknowledged:
  assumes "spec_port b a reg" "p = reg (x_hw s)"
    and "bit p 0" "bit p 9" "\<not> bit p 4" "\<not> bit p 31" "p AND PORTSC_W1C \<noteq> 0 \<or> \<not> bit p 1"
  obtains p' s' where "xhci_port_clear_w1c b a p s = (p', s')" "reg (x_hw s') = p'" "port_dead p'"
proof (cases "p AND PORTSC_W1C = 0")
  case True
  then have "xhci_port_clear_w1c b a p s = (p, s)" by (simp add: xhci_port_clear_w1c_def)
  moreover have "port_dead p" using assms(3-7) True by (simp add: port_dead_def)
  ultimately show ?thesis using assms(2) by (intro that) simp_all
next
  case False
  let ?v = "p OR PORTSC_W1C"
  have "?v AND PORTSC_PR = 0" "?v AND PORTSC_WPR = 0" "?v AND PORTSC_PED = 0 \<longleftrightarrow> \<not> bit p 1"
    using assms by (simp_all add: portsc_tests bit_or_iff) (simp_all add: portsc_masks)
  then have dead: "port_dead (portsc_write ?v p)"
    using assms(3-6) by (auto simp: portsc_write_def Let_def port_dead_def) (auto simp: portsc_masks bit_simps)
  have w: "reg (x_hw (mm_wr32 b a ?v s)) = portsc_write ?v p" by (simp add: port_write[OF assms(1)] assms(2))
  obtain s' where "mm_rd32 b a (mm_wr32 b a ?v s) = (portsc_write ?v p, s')" "reg (x_hw s') = portsc_write ?v p"
    using port_read[OF assms(1), of "mm_wr32 b a ?v s"] unfolding w by blast
  then show ?thesis using False dead that by (simp add: xhci_port_clear_w1c_def)
qed

lemma wait_ready_dead:
  assumes "spec_port b a reg"
  shows "port_dead (reg (x_hw s)) \<Longrightarrow>
    \<exists>s'. xhci_port_wait_ready b a n s = ((False, reg (x_hw s)), s') \<and> reg (x_hw s') = reg (x_hw s)"
proof (induction n arbitrary: s)
  case 0
  obtain s' where "mm_rd32 b a s = (reg (x_hw s), s')" "reg (x_hw s') = reg (x_hw s)" by (rule port_read[OF assms])
  then show ?case by simp
next
  case (Suc n)
  obtain s' where s': "mm_rd32 b a s = (reg (x_hw s), s')" "reg (x_hw s') = reg (x_hw s)" by (rule port_read[OF assms])
  then show ?case using Suc.IH[of s'] Suc.prems by (simp add: dead_not_ready)
qed

lemma force_u0_dead:
  assumes "spec_port b a reg" "port_dead (reg (x_hw s))"
  shows "reg (x_hw (xhci_port_force_u0 b a s)) = reg (x_hw s)"
proof -
  let ?p = "reg (x_hw s)"
  let ?v = "(?p AND NOT PORTSC_PLS_MASK OR PORTSC_LWS) AND NOT PORTSC_W1C"
  have "?v AND PORTSC_PR = 0" "?v AND PORTSC_WPR = 0" "?v AND PORTSC_PED = 0"
    using assms by (simp_all add: portsc_tests port_dead_def) (simp_all add: portsc_masks bit_simps)
  moreover have "?v AND PORTSC_W1C = 0" by (rule bit_word_eqI) (auto simp: bit_simps)
  ultimately have "portsc_write ?v ?p = ?p" by (simp add: portsc_write_def)
  moreover obtain s' where "mm_rd32 b a s = (?p, s')" "reg (x_hw s') = ?p" by (rule port_read[OF assms(1)])
  ultimately show ?thesis by (simp add: xhci_port_force_u0_def port_write[OF assms(1)])
qed

lemma ready_or_u0_dead:
  assumes "spec_port b a reg" "port_dead (reg (x_hw s))"
  obtains s' where "ready_or_u0 b a s = ((False, reg (x_hw s)), s')" "reg (x_hw s') = reg (x_hw s)"
proof -
  obtain s1 where s1: "xhci_port_wait_ready b a 20000000 s = ((False, reg (x_hw s)), s1)" "reg (x_hw s1) = reg (x_hw s)"
    using wait_ready_dead[OF assms] by blast
  let ?u = "xhci_port_force_u0 b a s1"
  have u: "reg (x_hw ?u) = reg (x_hw s)" using force_u0_dead[OF assms(1), of s1] s1(2) assms(2) by simp
  then obtain s2 where "xhci_port_wait_ready b a 20000000 ?u = ((False, reg (x_hw s)), s2)" "reg (x_hw s2) = reg (x_hw s)"
    using wait_ready_dead[OF assms(1), of ?u 20000000] assms(2) by auto
  then show ?thesis using s1 that by (simp add: ready_or_u0_def)
qed

lemma wait_clear_done:
  assumes "spec_port b a reg" "reg (x_hw s) AND m = 0"
  shows "reg (x_hw (wait_clear b a m n s)) = reg (x_hw s)"
proof (cases n)
  case (Suc k)
  obtain s' where "mm_rd32 b a s = (reg (x_hw s), s')" "reg (x_hw s') = reg (x_hw s)" by (rule port_read[OF assms(1)])
  then show ?thesis using assms(2) Suc by simp
qed simp

text \<open>A reset enables the port, and the acknowledgement of its change disables it again.\<close>

definition port_enabled :: "u32 \<Rightarrow> bool" where
  "port_enabled p \<longleftrightarrow> bit p 0 \<and> bit p 1 \<and> bit p 9 \<and> \<not> bit p 4 \<and> \<not> bit p 31 \<and> bit p 21"

lemma reset_enables:
  assumes "port_dead p" "m = PORTSC_PR \<or> m = PORTSC_WPR"
  shows "port_enabled (portsc_write (p AND NOT PORTSC_W1C OR m) p)"
proof -
  let ?v = "p AND NOT PORTSC_W1C OR m"
  have "?v AND PORTSC_PR \<noteq> 0 \<or> ?v AND PORTSC_WPR \<noteq> 0"
    using assms(2) unfolding portsc_tests by (auto simp: portsc_masks bit_simps)
  then have "portsc_write ?v p = (p AND NOT PORTSC_PLS_MASK) OR PORTSC_PED OR push_bit 21 1"
    by (auto simp: portsc_write_def)
  then show ?thesis using assms(1) by (auto simp: port_enabled_def port_dead_def portsc_masks bit_simps)
qed

lemma port_reset:
  assumes "spec_port b a reg" "port_dead (reg (x_hw s))"
  shows "port_enabled (reg (x_hw (xhci_port_cold_reset b a s)))" "port_enabled (reg (x_hw (xhci_port_warm_reset b a s)))"
proof -
  let ?p = "reg (x_hw s)"
  note c = reset_enables[OF assms(2), of PORTSC_PR] and w = reset_enables[OF assms(2), of PORTSC_WPR]
  have "portsc_write (?p AND NOT PORTSC_W1C OR PORTSC_PR) ?p AND PORTSC_PR = 0"
    "portsc_write (?p AND NOT PORTSC_W1C OR PORTSC_WPR) ?p AND PORTSC_WPR = 0"
    using c w by (simp_all add: portsc_tests port_enabled_def)
  moreover obtain s' where "mm_rd32 b a s = (?p, s')" "reg (x_hw s') = ?p" by (rule port_read[OF assms(1)])
  ultimately show "port_enabled (reg (x_hw (xhci_port_cold_reset b a s)))"
    "port_enabled (reg (x_hw (xhci_port_warm_reset b a s)))"
    using c w by (simp_all add: xhci_port_cold_reset_def xhci_port_warm_reset_def
        wait_clear_done[OF assms(1)] port_write[OF assms(1)])
qed

text \<open>Read the port after a reset and acknowledge.\<close>

lemma acknowledge_reset:
  assumes "spec_port b a reg" "port_enabled (reg (x_hw s))"
  obtains p' s1 s' where "mm_rd32 b a s = (reg (x_hw s), s1)" "xhci_port_clear_w1c b a (reg (x_hw s)) s1 = (p', s')"
    "reg (x_hw s') = p'" "port_dead p'"
proof -
  obtain s1 where s1: "mm_rd32 b a s = (reg (x_hw s), s1)" "reg (x_hw s1) = reg (x_hw s)" by (rule port_read[OF assms(1)])
  obtain p' s' where "xhci_port_clear_w1c b a (reg (x_hw s)) s1 = (p', s')" "reg (x_hw s') = p'" "port_dead p'"
    using port_acknowledged[OF assms(1), of "reg (x_hw s)" s1] s1(2) assms(2) portsc_change_pending[of "reg (x_hw s)"]
    by (auto simp: port_enabled_def)
  then show ?thesis using s1 that by blast
qed

lemma force_attempts_fail:
  assumes "spec_port b a reg"
  shows "port_dead p \<Longrightarrow> p = reg (x_hw s) \<Longrightarrow>
    \<exists>p' s'. force_attempts b a n p s = ((False, p'), s') \<and> reg (x_hw s') = p' \<and> port_dead p'"
proof (induction n arbitrary: p s)
  case 0
  then show ?case by simp
next
  case (Suc n)
  define warm where "warm = (if xhci_port_speed p \<ge> 4 then
      let s = xhci_port_warm_reset b a s; (ps, s) = mm_rd32 b a s;
          (ps, s) = xhci_port_clear_w1c b a ps s in ready_or_u0 b a s
    else ((False, p), s))"
  have "\<exists>q s'. warm = ((False, q), s') \<and> reg (x_hw s') = q \<and> port_dead q"
  proof (cases "xhci_port_speed p \<ge> 4")
    case True
    let ?w = "xhci_port_warm_reset b a s"
    have "port_enabled (reg (x_hw ?w))" using port_reset(2)[OF assms] Suc.prems by simp
    then obtain q s1 s2 where q: "mm_rd32 b a ?w = (reg (x_hw ?w), s1)"
      "xhci_port_clear_w1c b a (reg (x_hw ?w)) s1 = (q, s2)" "reg (x_hw s2) = q" "port_dead q"
      by (rule acknowledge_reset[OF assms])
    obtain s3 where "ready_or_u0 b a s2 = ((False, q), s3)" "reg (x_hw s3) = q"
      using ready_or_u0_dead[OF assms, of s2] q(3,4) by auto
    then show ?thesis using True q by (simp add: warm_def Let_def)
  next
    case False
    then show ?thesis using Suc.prems by (auto simp: warm_def)
  qed
  then obtain q s0 where q: "warm = ((False, q), s0)" "reg (x_hw s0) = q" "port_dead q" by blast
  let ?c = "xhci_port_cold_reset b a s0"
  have "port_enabled (reg (x_hw ?c))" using port_reset(1)[OF assms] q by simp
  then obtain r s1 s2 where r: "mm_rd32 b a ?c = (reg (x_hw ?c), s1)"
    "xhci_port_clear_w1c b a (reg (x_hw ?c)) s1 = (r, s2)" "reg (x_hw s2) = r" "port_dead r"
    by (rule acknowledge_reset[OF assms])
  obtain s3 where s3: "ready_or_u0 b a s2 = ((False, r), s3)" "reg (x_hw s3) = r"
    using ready_or_u0_dead[OF assms, of s2] r(3,4) by auto
  obtain s4 where s4: "mm_rd32 b a s3 = (r, s4)" "reg (x_hw s4) = r" using port_read[OF assms, of s3] s3(2) by auto
  have "p AND PORTSC_CCS \<noteq> 0" using Suc.prems by (simp add: portsc_tests port_dead_def)
  then have "force_attempts b a (Suc n) p s = force_attempts b a n r s4"
    unfolding force_attempts.simps warm_def[symmetric]
    by (simp only: if_False Let_def q(1) r(1,2) s3(1) s4(1) case_prod_conv)
  then show ?case using Suc.IH[OF r(4) s4(2)[symmetric]] by (simp only:)
qed

text \<open>
  C25. On a port that follows the xHCI specification and has a connection change pending,
  xhci_force_port_ready always fails and leaves the port disabled, even one that was ready
  before: xhci_port_clear_w1c writes the enable bit back as 1, which disables the port.
\<close>

theorem port_reset_never_succeeds:
  assumes "spec_port b a reg" "port_connected (reg (x_hw s))"
  shows "\<exists>p s'. xhci_force_port_ready b a s = ((False, xhci_port_speed p), s') \<and> reg (x_hw s') = p \<and> port_dead p"
proof -
  let ?p = "reg (x_hw s)"
  obtain s1 where s1: "mm_rd32 b a s = (?p, s1)" "reg (x_hw s1) = ?p" by (rule port_read[OF assms(1)])
  have pw: "xhci_port_power_on b a ?p s1 = (?p, s1)"
    using assms(2) by (simp add: xhci_port_power_on_def portsc_tests port_connected_def)
  obtain q s2 where q: "xhci_port_clear_w1c b a ?p s1 = (q, s2)" "reg (x_hw s2) = q" "port_dead q"
    using port_acknowledged[OF assms(1), of ?p s1] s1(2) portsc_change_pending[of ?p] assms(2)
    by (auto simp: port_connected_def)
  obtain r s3 where r: "force_attempts b a 4 q s2 = ((False, r), s3)" "reg (x_hw s3) = r" "port_dead r"
    using force_attempts_fail[OF assms(1) q(3), of s2 4] q(2) by auto
  show ?thesis using s1 pw q r dead_not_ready[OF q(3)] by (auto simp: xhci_force_port_ready_def)
qed

text \<open>A hardware state that is one such port.\<close>

definition port_bus :: "u32 bus" where
  "port_bus = \<lparr>b_ram = (\<lambda>p a. 0), b_put = (\<lambda>a v p. p), b_turn = (\<lambda>p. p), b_rd8 = (\<lambda>a p. (0, p)),
     b_rd32 = (\<lambda>a p. (p, p)), b_wr32 = (\<lambda>a v p. portsc_write v p), b_wr64 = (\<lambda>a v p. p)\<rparr>"

definition port_example :: "u32 xhci" where
  "port_example = \<lparr>cap_regs = 0, op_regs = 0, runtime_regs = 0, doorbell_regs = 0, command_ring = 0,
     command_ring_index = 0, command_ring_cycle = 1, event_ring = 0, event_ring_index = 0, event_ring_cycle = 1,
     x_erst = 0, x_dcbaa = 0, g_ctx_size = 32, g_devs = [], x_vmm = vmm_example, x_input = input_example,
     x_hw = 0x20E03\<rparr>"

theorem port_reset_never_succeeds_witness:
  "xhci_port_ready (x_hw port_example) \<and> \<not> fst (fst (xhci_force_port_ready port_bus 0x400 port_example))"
proof -
  have "spec_port port_bus 0x400 (\<lambda>p. p)" by (simp add: spec_port_def port_bus_def)
  moreover have "port_connected (x_hw port_example)" by (simp add: port_connected_def port_example_def)
  ultimately obtain p s' where "xhci_force_port_ready port_bus 0x400 port_example = ((False, xhci_port_speed p), s')"
    using port_reset_never_succeeds[of port_bus "0x400" "\<lambda>p. p" port_example] by blast
  then have "\<not> fst (fst (xhci_force_port_ready port_bus 0x400 port_example))" by (simp only: fst_conv not_False_eq_True)
  moreover have "xhci_port_ready (x_hw port_example)"
    by (simp add: port_example_def xhci_port_ready_def portsc_tests xhci_port_speed_def xhci_port_pls_def PORTSC_SPEED_MASK_def)
  ultimately show ?thesis by simp
qed

end
