(* ===== verification/Png.thy ===== *)
theory Png
  imports Heap
begin

text \<open>
  The PNG decoder \<open>src/kernel/core/png.c\<close>: the chunk walk, the zlib reader for stored blocks,
  the five scanline filters and the conversion to RGBA. Buffers are the lists of the bytes
  written to them, memory comes from the kernel heap of \<open>Heap\<close>. An access outside the bytes
  a buffer holds is the outcome \<open>Fault\<close>, a loop that has used up its fuel is \<open>Timeout\<close>, and
  the C results 0 and 1 are \<open>Stop\<close> and \<open>Ret\<close>. The reference is the PNG specification: filters
  that subtract a predictor, stored deflate blocks and length-type-data-CRC chunks.
\<close>

section \<open>Outcomes\<close>

datatype 'a outcome = Ret 'a | Stop | Fault | Timeout

text \<open>A computation on the kernel heap, and sequencing that keeps the heap on every outcome.\<close>

fun seq :: "'a outcome \<times> kheap \<Rightarrow> ('a \<Rightarrow> kheap \<Rightarrow> 'b outcome \<times> kheap) \<Rightarrow> 'b outcome \<times> kheap" where
  "seq (Ret x, h) f = f x h"
| "seq (Stop, h) f = (Stop, h)"
| "seq (Fault, h) f = (Fault, h)"
| "seq (Timeout, h) f = (Timeout, h)"

text \<open>\<open>kmalloc\<close> as the decoder uses it: only whether the block is NULL matters.\<close>

definition png_alloc :: "u32 \<Rightarrow> kheap \<Rightarrow> bool outcome \<times> kheap" where
  "png_alloc n h =
     (case kmalloc (ucast n) h of None \<Rightarrow> (Timeout, h) | Some (p, h') \<Rightarrow> (Ret (p \<noteq> 0), h'))"

section \<open>The zlib reader\<close>

definition rd_be32 :: "u8 list \<Rightarrow> nat \<Rightarrow> u32" where
  "rd_be32 p i = push_bit 24 (ucast (p ! i)) OR push_bit 16 (ucast (p ! (i + 1))) OR
     push_bit 8 (ucast (p ! (i + 2))) OR ucast (p ! (i + 3))"

definition mem_eq8 :: "u8 list \<Rightarrow> u8 list \<Rightarrow> nat \<Rightarrow> bool" where
  "mem_eq8 a b n = (\<forall>i \<in> set [0..<n]. a ! i = b ! i)"

record tinf =
  ti_src :: "u8 list"
  ti_src_len :: u32
  ti_src_pos :: u32
  ti_bitbuf :: u32
  ti_bitcount :: u32

text \<open>The fill loop adds eight bits a round, so \<open>n\<close> rounds reach any \<open>n\<close> up to 32.\<close>

fun tinf_fill :: "nat \<Rightarrow> u32 \<Rightarrow> tinf \<Rightarrow> tinf" where
  "tinf_fill 0 n d = d"
| "tinf_fill (Suc k) n d =
     (if ti_bitcount d < n then
        let (b, pos) = (if ti_src_pos d < ti_src_len d
                        then (ucast (ti_src d ! unat (ti_src_pos d)), ti_src_pos d + 1)
                        else (0, ti_src_pos d)) in
        tinf_fill k n (d\<lparr>ti_src_pos := pos,
          ti_bitbuf := ti_bitbuf d OR push_bit (unat (ti_bitcount d)) b,
          ti_bitcount := ti_bitcount d + 8\<rparr>)
      else d)"

definition tinf_get_bits :: "u32 \<Rightarrow> tinf \<Rightarrow> u32 \<times> tinf" where
  "tinf_get_bits n d0 =
     (let d = tinf_fill (unat n) n d0 in
      (ti_bitbuf d AND (push_bit (unat n) 1 - 1),
       d\<lparr>ti_bitbuf := drop_bit (unat n) (ti_bitbuf d), ti_bitcount := ti_bitcount d - n\<rparr>))"

definition tinf_align_byte :: "tinf \<Rightarrow> tinf" where
  "tinf_align_byte d = d\<lparr>ti_bitbuf := 0, ti_bitcount := 0\<rparr>"

text \<open>
  The growth loop: from 4096 or the old capacity, doubled until \<open>need\<close> fits. Thirty-two
  doublings either reach \<open>need\<close> or have shifted the capacity out to zero, where it stays.
\<close>

fun double_cap :: "nat \<Rightarrow> u32 \<Rightarrow> u32 \<Rightarrow> u32 option" where
  "double_cap 0 need c = (if c < need then None else Some c)"
| "double_cap (Suc k) need c = (if c < need then double_cap k need (c * 2) else Some c)"

text \<open>
  A growing buffer is what the code has stored in it and its capacity; the copy into the new
  block keeps the stored bytes. The result of \<open>grow\<close> is the new capacity.
\<close>

definition grow :: "u32 \<Rightarrow> u32 \<Rightarrow> kheap \<Rightarrow> u32 outcome \<times> kheap" where
  "grow need cap h =
     (if cap < need then
        case double_cap 32 need (if cap \<noteq> 0 then cap else 4096) of
          None \<Rightarrow> (Timeout, h)
        | Some new_cap \<Rightarrow>
            seq (png_alloc new_cap h) (\<lambda>ok h. if ok then (Ret new_cap, h) else (Stop, h))
      else (Ret cap, h))"

text \<open>\<open>copy_into buf w cap src pos len\<close>: the loop \<open>buf[w + i] = src[pos + i]\<close>.\<close>

definition copy_into :: "u8 list \<Rightarrow> u32 \<Rightarrow> u8 list \<Rightarrow> u32 \<Rightarrow> u32 \<Rightarrow> u8 list option" where
  "copy_into buf cap src pos len =
     (if unat pos + unat len \<le> length src \<and> length buf + unat len \<le> unat cap
      then Some (buf @ take (unat len) (drop (unat pos) src)) else None)"

fun inflate_loop :: "nat \<Rightarrow> tinf \<Rightarrow> u8 list \<Rightarrow> u32 \<Rightarrow> u32 \<Rightarrow> kheap \<Rightarrow> (u8 list \<times> u32) outcome \<times> kheap" where
  "inflate_loop 0 st buf w cap h = (Timeout, h)"
| "inflate_loop (Suc k) st buf w cap h =
     (let (bfinal, st) = tinf_get_bits 1 st;
          (btype, st) = tinf_get_bits 2 st in
      if btype \<noteq> 0 then (Stop, h)
      else
        let st = tinf_align_byte st; p = ti_src_pos st in
        if p + 4 > ti_src_len st then (Stop, h)
        else if length (ti_src st) < unat p + 4 then (Fault, h)
        else
          let len = ucast (ti_src st ! unat p) OR push_bit 8 (ucast (ti_src st ! (unat p + 1)));
              nlen = ucast (ti_src st ! (unat p + 2)) OR push_bit 8 (ucast (ti_src st ! (unat p + 3)));
              p = p + 4 in
          if len XOR 0xFFFF \<noteq> nlen then (Stop, h)
          else if p + len > ti_src_len st then (Stop, h)
          else
            seq (grow (w + len) cap h) (\<lambda>cap h.
              case copy_into buf cap (ti_src st) p len of
                None \<Rightarrow> (Fault, h)
              | Some buf \<Rightarrow>
                  if bfinal \<noteq> 0 then (Ret (buf, w + len), h)
                  else inflate_loop k (st\<lparr>ti_src_pos := p + len\<rparr>) buf (w + len) cap h))"

definition zlib_inflate_uncompressed ::
  "u8 list \<Rightarrow> u32 \<Rightarrow> kheap \<Rightarrow> (u8 list \<times> u32) outcome \<times> kheap" where
  "zlib_inflate_uncompressed z zlen h =
     (if zlen < 2 then (Stop, h)
      else inflate_loop (length z + 1)
        \<lparr>ti_src = z, ti_src_len = zlen, ti_src_pos = 2, ti_bitbuf = 0, ti_bitcount = 0\<rparr> [] 0 0 h)"

section \<open>Scanline filters\<close>

text \<open>
  Each filter runs \<open>dst[i] = src[i] + predictor\<close> for increasing \<open>i\<close>; \<open>prev\<close> is \<open>None\<close> for a
  NULL pointer. The predictors are those of the five branches.
\<close>

definition left :: "u8 list \<Rightarrow> nat \<Rightarrow> nat \<Rightarrow> u8" where
  "left dst bpp i = (if bpp \<le> i then dst ! (i - bpp) else 0)"

definition above :: "u8 list option \<Rightarrow> nat \<Rightarrow> u8" where
  "above prev i = (case prev of None \<Rightarrow> 0 | Some p \<Rightarrow> p ! i)"

definition above_left :: "u8 list option \<Rightarrow> nat \<Rightarrow> nat \<Rightarrow> u8" where
  "above_left prev bpp i = (case prev of None \<Rightarrow> 0 | Some p \<Rightarrow> if bpp \<le> i then p ! (i - bpp) else 0)"

definition average :: "u8 \<Rightarrow> u8 \<Rightarrow> u8" where
  "average a b = ucast ((ucast a + ucast b :: u32) div 2)"

definition paeth :: "u8 \<Rightarrow> u8 \<Rightarrow> u8 \<Rightarrow> u8" where
  "paeth a0 b0 c0 =
     (let a = uint a0; b = uint b0; c = uint c0; p = a + b - c;
          pa = \<bar>p - a\<bar>; pb = \<bar>p - b\<bar>; pc = \<bar>p - c\<bar> in
      word_of_int (if pa \<le> pb \<and> pa \<le> pc then a else if pb \<le> pc then b else c))"

definition predictor :: "u8 \<Rightarrow> nat \<Rightarrow> u8 list option \<Rightarrow> u8 list \<Rightarrow> nat \<Rightarrow> u8" where
  "predictor ft bpp prev dst i =
     (if ft = 1 then left dst bpp i
      else if ft = 2 then above prev i
      else if ft = 3 then average (left dst bpp i) (above prev i)
      else if ft = 4 then paeth (left dst bpp i) (above prev i) (above_left prev bpp i)
      else 0)"

fun unfilter_loop :: "u8 \<Rightarrow> nat \<Rightarrow> u8 list option \<Rightarrow> u8 list \<Rightarrow> nat \<Rightarrow> nat \<Rightarrow> u8 list \<Rightarrow> u8 list" where
  "unfilter_loop ft bpp prev src i 0 dst = dst"
| "unfilter_loop ft bpp prev src i (Suc n) dst =
     unfilter_loop ft bpp prev src (Suc i) n
       (dst[i := src ! i + predictor ft bpp prev dst i])"

definition unfilter_scanline ::
  "u8 list \<Rightarrow> u8 list \<Rightarrow> u32 \<Rightarrow> u32 \<Rightarrow> u8 list option \<Rightarrow> u8 \<Rightarrow> u8 list" where
  "unfilter_scanline dst src len bpp prev ft =
     unfilter_loop ft (unat bpp) prev src 0 (unat len) dst"

section \<open>The decoder\<close>

record png_state =
  pn_w :: u32
  pn_h :: u32
  pn_bit_depth :: u8
  pn_color_type :: u8
  pn_interlace :: u8
  pn_idat :: "u8 list option"
  pn_idat_len :: u32
  pn_idat_cap :: u32

definition png_start :: png_state where
  "png_start = \<lparr>pn_w = 0, pn_h = 0, pn_bit_depth = 0, pn_color_type = 0, pn_interlace = 0,
     pn_idat = None, pn_idat_len = 0, pn_idat_cap = 0\<rparr>"

text \<open>The bytes of the chunk names.\<close>

definition IHDR :: "u8 list" where "IHDR = [73, 72, 68, 82]"
definition IDAT :: "u8 list" where "IDAT = [73, 68, 65, 84]"
definition IEND :: "u8 list" where "IEND = [73, 69, 78, 68]"

definition png_ihdr :: "u8 list \<Rightarrow> u32 \<Rightarrow> u32 \<Rightarrow> png_state \<Rightarrow> png_state outcome" where
  "png_ihdr data pos clen s =
     (if clen < 13 then Stop
      else if length data < unat pos + 13 then Fault
      else Ret (s\<lparr>pn_w := rd_be32 data (unat pos), pn_h := rd_be32 data (unat pos + 4),
                  pn_bit_depth := data ! (unat pos + 8), pn_color_type := data ! (unat pos + 9),
                  pn_interlace := data ! (unat pos + 12)\<rparr>))"

definition png_idat :: "u8 list \<Rightarrow> u32 \<Rightarrow> u32 \<Rightarrow> png_state \<Rightarrow> kheap \<Rightarrow> png_state outcome \<times> kheap" where
  "png_idat data pos clen s h =
     seq (grow (pn_idat_len s + clen) (pn_idat_cap s) h) (\<lambda>cap h.
       if cap = 0 then (Ret s, h)
       else case copy_into (case pn_idat s of None \<Rightarrow> [] | Some b \<Rightarrow> b) cap data pos clen of
              None \<Rightarrow> (Fault, h)
            | Some b \<Rightarrow> (Ret (s\<lparr>pn_idat := Some b, pn_idat_len := pn_idat_len s + clen,
                               pn_idat_cap := cap\<rparr>), h))"

fun png_chunks :: "nat \<Rightarrow> u8 list \<Rightarrow> u32 \<Rightarrow> u32 \<Rightarrow> png_state \<Rightarrow> kheap \<Rightarrow> png_state outcome \<times> kheap" where
  "png_chunks 0 data sz pos s h = (Timeout, h)"
| "png_chunks (Suc k) data sz pos0 s h =
     (if \<not> pos0 + 8 \<le> sz then (Ret s, h)
      else if length data < unat pos0 + 4 then (Fault, h)
      else
        let clen = rd_be32 data (unat pos0); pos = pos0 + 4 in
        if pos + 4 > sz then (Stop, h)
        else
          let t = unat pos; pos = pos + 4 in
          if pos + clen + 4 > sz then (Stop, h)
          else if length data < t + 4 then (Fault, h)
          else
            let ctype = take 4 (drop t data); next = pos + clen + 4 in
            if ctype = IHDR then
              (case png_ihdr data pos clen s of
                 Ret s \<Rightarrow> png_chunks k data sz next s h
               | Stop \<Rightarrow> (Stop, h) | Fault \<Rightarrow> (Fault, h) | Timeout \<Rightarrow> (Timeout, h))
            else if ctype = IDAT then
              seq (png_idat data pos clen s h) (\<lambda>s h. png_chunks k data sz next s h)
            else if ctype = IEND then (Ret s, h)
            else png_chunks k data sz next s h)"

text \<open>The loop over \<open>x\<close>, with \<open>n\<close> pixels to go; \<open>None\<close> is an access outside a buffer, a read of
  the row or a write of the pixels, which are not told apart.\<close>

fun pixel_row :: "nat \<Rightarrow> u32 \<Rightarrow> u32 \<Rightarrow> u32 \<Rightarrow> u32 \<Rightarrow> u8 list \<Rightarrow> u8 list \<Rightarrow> u8 list option" where
  "pixel_row 0 x w y bpp cur pixels = Some pixels"
| "pixel_row (Suc n) x w y bpp cur pixels =
     (let si = unat (x * bpp); di = unat ((y * w + x) * 4) in
      if length cur < si + unat bpp \<or> length pixels < di + 4 then None
      else pixel_row n (x + 1) w y bpp cur
             (blit di [cur ! si, cur ! (si + 1), cur ! (si + 2), if bpp = 4 then cur ! (si + 3) else 255]
                pixels))"

fun pixel_rows :: "nat \<Rightarrow> u32 \<Rightarrow> u32 \<Rightarrow> u32 \<Rightarrow> u32 \<Rightarrow> u8 list \<Rightarrow> u8 list \<Rightarrow> u8 list \<Rightarrow> u8 list \<Rightarrow> u8 list option" where
  "pixel_rows 0 y w bpp stride raw prev cur pixels = Some pixels"
| "pixel_rows (Suc n) y w bpp stride raw prev cur pixels =
     (let o1 = unat (y * (1 + stride)); o2 = unat (y * (1 + stride) + 1) in
      if length raw \<le> o1 \<or> length raw < o2 + unat stride then None
      else
        let cur = unfilter_scanline cur (drop o2 raw) stride bpp (Some prev) (raw ! o1) in
        case pixel_row (unat w) 0 w y bpp cur pixels of
          None \<Rightarrow> None
        | Some pixels \<Rightarrow> pixel_rows n (y + 1) w bpp stride raw cur prev pixels)"

definition png_sig :: "u8 list" where "png_sig = [137, 80, 78, 71, 13, 10, 26, 10]"

text \<open>The image: width, height and the bytes of the pixel buffer. A NULL \<open>data\<close> is \<open>None\<close>.\<close>

definition png_pixels :: "png_state \<Rightarrow> u8 list \<Rightarrow> u32 \<Rightarrow> kheap \<Rightarrow> (u32 \<times> u32 \<times> u8 list) outcome \<times> kheap" where
  "png_pixels s raw raw_len h =
     (let bpp = (if pn_color_type s = 6 then 4 else 3);
          stride = pn_w s * bpp; expect = pn_h s * (1 + stride) in
      if raw_len < expect then (Stop, h)
      else
        seq (png_alloc (pn_w s * pn_h s * 4) h) (\<lambda>ok h.
        if \<not> ok then (Stop, h)
        else seq (png_alloc stride h) (\<lambda>ok1 h. seq (png_alloc stride h) (\<lambda>ok2 h.
          if \<not> ok1 \<or> \<not> ok2 then (Stop, h)
          else
            case pixel_rows (unat (pn_h s)) 0 (pn_w s) bpp stride raw
                   (replicate (unat stride) 0) (replicate (unat stride) 0)
                   (replicate (unat (pn_w s * pn_h s * 4)) 0) of
              None \<Rightarrow> (Fault, h)
            | Some pixels \<Rightarrow> (Ret (pn_w s, pn_h s, pixels), h)))))"

definition png_decode_rgba ::
  "nat \<Rightarrow> u8 list option \<Rightarrow> u32 \<Rightarrow> kheap \<Rightarrow> (u32 \<times> u32 \<times> u8 list) outcome \<times> kheap" where
  "png_decode_rgba fuel data sz h =
     (case data of
        None \<Rightarrow> (Stop, h)
      | Some d \<Rightarrow>
          if sz < 8 then (Stop, h)
          else if length d < 8 then (Fault, h)
          else if \<not> mem_eq8 d png_sig 8 then (Stop, h)
          else
            seq (png_chunks fuel d sz 8 png_start h) (\<lambda>s h.
              if pn_w s = 0 \<or> pn_h s = 0 then (Stop, h)
              else if pn_bit_depth s \<noteq> 8 then (Stop, h)
              else if \<not> (pn_color_type s = 2 \<or> pn_color_type s = 6) then (Stop, h)
              else if pn_interlace s \<noteq> 0 then (Stop, h)
              else if pn_idat s = None \<or> pn_idat_len s = 0 then (Stop, h)
              else
                seq (zlib_inflate_uncompressed (the (pn_idat s)) (pn_idat_len s) h)
                  (\<lambda>(raw, raw_len) h. png_pixels s raw raw_len h)))"

end
