(* ===== verification/PngSpec.thy ===== *)
theory PngSpec
  imports Png
begin

text \<open>
  Properties of the PNG decoder: it inverts a reference encoder written after the PNG
  specification, for every choice of filters and stored blocks, whenever the heap has room;
  it rejects what it does not support; and what its 32-bit sums let through.
\<close>

section \<open>The filters of the PNG specification\<close>

text \<open>
  Section 9.2 of the PNG specification: filter \<open>ft\<close> subtracts from each byte a prediction from
  its left neighbour \<open>a\<close> (one pixel back), the byte above \<open>b\<close> and the one above left \<open>c\<close>.
\<close>

definition spec_predict :: "nat \<Rightarrow> u8 \<Rightarrow> u8 \<Rightarrow> u8 \<Rightarrow> u8" where
  "spec_predict ft a b c =
     (if ft = 1 then a
      else if ft = 2 then b
      else if ft = 3 then of_nat ((unat a + unat b) div 2)
      else if ft = 4 then
        (let p = uint a + uint b - uint c in
         if \<bar>p - uint a\<bar> \<le> \<bar>p - uint b\<bar> \<and> \<bar>p - uint a\<bar> \<le> \<bar>p - uint c\<bar> then a
         else if \<bar>p - uint b\<bar> \<le> \<bar>p - uint c\<bar> then b else c)
      else 0)"

definition filter_row :: "nat \<Rightarrow> nat \<Rightarrow> u8 list \<Rightarrow> u8 list \<Rightarrow> u8 list" where
  "filter_row ft bpp prev row =
     map (\<lambda>i. row ! i - spec_predict ft (if bpp \<le> i then row ! (i - bpp) else 0) (prev ! i)
                (if bpp \<le> i then prev ! (i - bpp) else 0)) [0..<length row]"

lemma length_filter_row [simp]: "length (filter_row ft bpp prev row) = length row"
  by (simp add: filter_row_def)

lemma average_eq: "average a b = of_nat ((unat a + unat b) div 2)"
proof -
  have "unat (ucast a + ucast b :: u32) = unat a + unat b"
    using unat_lt_2p[of a] unat_lt_2p[of b] by (subst unat_add_small) (simp_all add: unat_ucast_up)
  then have "unat ((ucast a + ucast b :: u32) div 2) = (unat a + unat b) div 2"
    by (simp add: unat_div)
  then have "ucast ((ucast a + ucast b :: u32) div 2) = (of_nat ((unat a + unat b) div 2) :: u8)"
    by (metis of_nat_unat)
  then show ?thesis by (simp add: average_def)
qed

lemma paeth_eq: "paeth a b c = spec_predict 4 a b c"
  by (simp add: paeth_def spec_predict_def Let_def)

lemma predictor_spec:
  assumes "ft \<le> 4"
  shows "predictor (of_nat ft) bpp (Some prev) dst i =
    spec_predict ft (left dst bpp i) (prev ! i) (if bpp \<le> i then prev ! (i - bpp) else 0)"
proof -
  consider "ft = 0" | "ft = 1" | "ft = 2" | "ft = 3" | "ft = 4" using assms by linarith
  then show ?thesis
    by cases (simp_all add: predictor_def above_def above_left_def average_eq paeth_eq,
              simp_all add: spec_predict_def)
qed

lemma left_take: "take i dst = take i row \<Longrightarrow> 0 < bpp \<Longrightarrow> i \<le> length row \<Longrightarrow> i \<le> length dst \<Longrightarrow> left dst bpp i = left row bpp i"
  unfolding left_def by (auto dest: arg_cong[where f = "\<lambda>xs. xs ! (i - bpp)"])

lemma unfilter_loop_row:
  assumes "ft \<le> 4" "0 < bpp" "i + n = length row" "length dst = length row"
    "take i dst = take i row"
    "\<And>j. j < length row \<Longrightarrow> src ! j = filter_row ft bpp prev row ! j"
  shows "unfilter_loop (of_nat ft) bpp (Some prev) src i n dst = row"
  using assms(3-5)
proof (induction n arbitrary: i dst)
  case (Suc n)
  have "src ! i + predictor (of_nat ft) bpp (Some prev) dst i = row ! i"
    using Suc.prems assms(1,2,6) left_take[OF Suc.prems(3) assms(2)]
    by (simp add: predictor_spec filter_row_def left_def)
  then show ?case
    using Suc.prems by (simp, intro Suc.IH) (simp_all add: take_Suc_conv_app_nth)
qed simp

lemma unfilter_scanline_row:
  assumes "ft \<le> 4" "0 < bpp" "length row = unat len" "length dst = unat len"
    "take (unat len) src = filter_row ft (unat bpp) prev row"
  shows "unfilter_scanline dst src len bpp (Some prev) (of_nat ft) = row"
  unfolding unfilter_scanline_def
proof (rule unfilter_loop_row)
  show "src ! j = filter_row ft (unat bpp) prev row ! j" if "j < length row" for j
    using that assms(3,5) by (metis nth_take)
  show "0 < unat bpp" using assms(2) by (simp add: unat_gt_0 word_neq_0_conv)
qed (use assms in auto)

section \<open>Memory for the decoder\<close>

text \<open>\<open>room k h\<close>: the heap is well-formed and some free block has at least \<open>k\<close> bytes.\<close>

definition room :: "nat \<Rightarrow> kheap \<Rightarrow> bool" where
  "room k h \<longleftrightarrow> (\<exists>lo hi bs a s. heap_rel lo hi h bs \<and> (a, s, True) \<in> set bs \<and> k \<le> unat s)"

lemma room_mono: "room k h \<Longrightarrow> j \<le> k \<Longrightarrow> room j h"
  unfolding room_def by (meson order_trans)

lemma first_fit_room:
  assumes "(a, s, True) \<in> set bs" "unat n + 64 \<le> unat s" "layout lo bs hi" "hi < 2 ^ 64"
  shows "fst (first_fit n bs) \<noteq> 0 \<and>
    (\<exists>a' s'. (a', s', True) \<in> set (snd (first_fit n bs)) \<and> unat s - unat n - 64 \<le> unat s')"
  using assms(1,3)
proof (induction bs arbitrary: lo)
  case (Cons b bs)
  obtain a1 s1 f1 where b: "b = (a1, s1, f1)" by (cases b)
  have lay: "unat a1 = lo" "layout (lo + 24 + unat s1) bs hi" using Cons.prems(2) b by auto
  have "lo + 24 + unat s1 \<le> hi" using layout_le[OF lay(2)] .
  then have a24: "unat (a1 + 24) = unat a1 + 24"
    using assms(4) lay(1) by (subst unat_add_small) auto
  show ?case
  proof (cases "f1 \<and> n \<le> s1")
    case True
    have nz: "a1 + 24 \<noteq> 0" using a24 by (metis add_is_0 unat_0 zero_neq_numeral)
    show ?thesis
    proof (cases "(a, s, True) = b")
      case big: True
      have "unat (n + 40) = unat n + 40"
        using assms(2) unat_lt_2p[of s] by (subst unat_add_small) auto
      then have lt: "n + 40 < s" using assms(2) by (simp add: word_less_nat_alt)
      have "n \<le> s" using assms(2) by (simp add: word_le_nat_alt)
      moreover have "24 \<le> s - n"
        using assms(2) \<open>n \<le> s\<close> by (simp add: word_le_nat_alt unat_sub_small)
      ultimately have "unat (s - n - 24) = unat s - unat n - 24"
        by (simp add: unat_sub_small)
      then have "unat s - unat n - 64 \<le> unat (s - n - 24)" by simp
      moreover have "(a + 24 + n, s - n - 24, True) \<in> set (snd (first_fit n (b # bs)))"
        using True big b lt by auto
      moreover have "fst (first_fit n (b # bs)) \<noteq> 0" using True b nz by simp
      ultimately show ?thesis by blast
    next
      case False
      then have "(a, s, True) \<in> set bs" using Cons.prems(1) by auto
      then have "(a, s, True) \<in> set (snd (first_fit n (b # bs)))" using True b by auto
      moreover have "unat s - unat n - 64 \<le> unat s" by simp
      moreover have "fst (first_fit n (b # bs)) \<noteq> 0" using True b nz by simp
      ultimately show ?thesis by blast
    qed
  next
    case False
    then have "(a, s, True) \<in> set bs"
      using Cons.prems(1) b assms(2) by (auto simp: word_le_nat_alt)
    from Cons.IH[OF this lay(2)]
    have "fst (first_fit n bs) \<noteq> 0 \<and> (\<exists>a' s'. (a', s', True) \<in> set (snd (first_fit n bs)) \<and>
      unat s - unat n - 64 \<le> unat s')" .
    moreover have "first_fit n (b # bs) = (fst (first_fit n bs), b # snd (first_fit n bs))"
      using False b by (simp split: prod.splits)
    ultimately show ?thesis by (metis fst_conv list.set_intros(2) snd_conv)
  qed
qed simp

lemma png_alloc_room:
  assumes "room k h" "unat n + 64 \<le> k"
  obtains h' where "png_alloc n h = (Ret True, h')" "room (k - unat n - 64) h'"
proof -
  obtain lo hi bs a s where hr: "heap_rel lo hi h bs" and m: "(a, s, True) \<in> set bs" "k \<le> unat s"
    using assms(1) by (auto simp: room_def)
  have un: "unat (ucast n :: u64) = unat n" by (simp add: unat_ucast_up)
  have lay: "layout lo bs hi" "hi < 2 ^ 64" using hr by (auto simp: heap_rel_def)
  obtain r bs' where ff: "first_fit (ucast n) bs = (r, bs')" by (cases "first_fit (ucast n) bs")
  obtain h' where h': "kmalloc (ucast n) h = Some (r, h')" "heap_rel lo hi h' bs'"
    using kmalloc_refines[OF hr ff] by auto
  from first_fit_room[OF m(1) _ lay, of "ucast n"] ff un assms(2) m(2)
  obtain a' s' where "r \<noteq> 0" "(a', s', True) \<in> set bs'" "unat s - unat n - 64 \<le> unat s'" by auto
  then have "room (k - unat n - 64) h'"
    using h'(2) m(2) unfolding room_def by (meson diff_le_mono order_trans)
  then show thesis using that h'(1) \<open>r \<noteq> 0\<close> by (simp add: png_alloc_def)
qed

lemma double_cap_reaches:
  assumes "unat need \<le> 2 ^ 31" "unat need \<le> unat c * 2 ^ k"
  shows "\<exists>c'. double_cap k need c = Some c' \<and> unat need \<le> unat c' \<and> (c' = c \<or> 2 * unat c \<le> unat c') \<and>
    (c' = c \<or> unat c' \<le> 2 * unat need)"
  using assms(2)
proof (induction k arbitrary: c)
  case 0
  then show ?case using assms by (auto simp: word_less_nat_alt)
next
  case (Suc k)
  show ?case
  proof (cases "c < need")
    case True
    then have lt: "unat c < unat need" by (simp add: word_less_nat_alt)
    then have c2: "unat (c * 2) = 2 * unat c"
      using assms(1) by (subst unat_mult_small) auto
    have "unat need \<le> unat (c * 2) * 2 ^ k" using Suc.prems c2 by simp
    from Suc.IH[OF this] obtain c' where "double_cap k need (c * 2) = Some c'" "unat need \<le> unat c'"
      "c' = c * 2 \<or> 2 * unat (c * 2) \<le> unat c'" "c' = c * 2 \<or> unat c' \<le> 2 * unat need"
      by auto
    then show ?thesis using True c2 lt by auto
  next
    case False
    then show ?thesis by (auto simp: word_less_nat_alt)
  qed
qed

lemma grow_room:
  assumes "room (K - 3 * unat cap) h" "unat need \<le> N" "N \<le> 2 ^ 31" "3 * max 4096 (2 * N) + 64 \<le> K"
    "unat cap \<le> max 4096 (2 * N)" "cap = 0 \<or> 4096 \<le> unat cap"
  obtains cap' h' where "grow need cap h = (Ret cap', h')" "unat need \<le> unat cap'"
    "room (K - 3 * unat cap') h'" "unat cap' \<le> max 4096 (2 * N)" "cap' = 0 \<or> 4096 \<le> unat cap'"
proof (cases "cap < need")
  case False
  then show ?thesis using that assms by (simp add: grow_def word_less_nat_alt)
next
  case True
  let ?c = "if cap \<noteq> 0 then cap else 4096"
  have c: "4096 \<le> unat ?c" "unat cap \<le> unat ?c" "?c = cap \<or> cap = 0" using assms(6) by auto
  have need: "unat need \<le> 2 ^ 31" using assms(2,3) by simp
  have "unat need \<le> unat ?c * 2 ^ 32" using c(1) need by simp
  from double_cap_reaches[OF need this] obtain c' where c': "double_cap 32 need ?c = Some c'"
    "unat need \<le> unat c'" "c' = ?c \<or> 2 * unat ?c \<le> unat c'" "c' = ?c \<or> unat c' \<le> 2 * unat need"
    by auto
  have lt: "unat cap < unat need" using True by (simp add: word_less_nat_alt)
  have le: "unat c' \<le> max 4096 (2 * N)" using c'(4) assms(2,5) by (cases "cap = 0") auto
  have big: "4096 \<le> unat c'" using c'(3) c(1) by auto
  have dbl: "2 * unat cap \<le> unat c'"
  proof (cases "cap = 0")
    case False
    then show ?thesis using c'(2,3) lt by auto
  qed simp
  have fit: "unat c' + 64 \<le> K - 3 * unat cap" using le big dbl assms(4) by linarith
  obtain h' where h': "png_alloc c' h = (Ret True, h')" "room (K - 3 * unat cap - unat c' - 64) h'"
    using png_alloc_room[OF assms(1) fit] .
  have "room (K - 3 * unat c') h'" using h'(2) dbl big by (elim room_mono) linarith
  then show ?thesis using that[of c' h'] c' True h'(1) le big by (simp add: grow_def)
qed

section \<open>Stored blocks\<close>

text \<open>
  Stored blocks as RFC 1951 writes them: a byte whose lowest bit marks the last block, the
  length, its complement, the bytes. A zlib stream puts two bytes in front and a checksum behind.
\<close>

definition stored_block :: "u8 \<Rightarrow> u8 list \<Rightarrow> u8 list" where
  "stored_block final b = final # le16 (of_nat (length b)) @ le16 (NOT (of_nat (length b))) @ b"

fun stored :: "u8 list list \<Rightarrow> u8 list" where
  "stored [] = []"
| "stored [b] = stored_block 1 b"
| "stored (b # c # bs) = stored_block 0 b @ stored (c # bs)"

lemma tinf_bits_1:
  assumes "ti_bitbuf d = 0" "ti_bitcount d = 0" "ti_src_pos d < ti_src_len d"
  shows "tinf_get_bits 1 d =
    (ucast (ti_src d ! unat (ti_src_pos d)) AND 1,
     d\<lparr>ti_src_pos := ti_src_pos d + 1, ti_bitbuf := drop_bit 1 (ucast (ti_src d ! unat (ti_src_pos d))),
       ti_bitcount := 7\<rparr>)"
  using assms by (simp add: tinf_get_bits_def Let_def)

lemma tinf_fill_done: "\<not> ti_bitcount d < n \<Longrightarrow> tinf_fill k n d = d"
  by (cases k) auto

lemma tinf_bits_2:
  assumes "ti_bitcount d = 7"
  shows "tinf_get_bits 2 d = (ti_bitbuf d AND 3, d\<lparr>ti_bitbuf := drop_bit 2 (ti_bitbuf d), ti_bitcount := 5\<rparr>)"
  using assms by (simp add: tinf_get_bits_def Let_def push_bit_eq_mult tinf_fill_done)

lemma le16_len: "(ucast (le16 w ! 0) OR push_bit 8 (ucast (le16 w ! 1)) :: u32) = ucast w"
  by (rule bit_word_eqI) (auto simp: le16_def bit_simps dest: bit_imp_le_length)

lemma len_complement: "(ucast w XOR 0xFFFF :: u32) = ucast (NOT w)" for w :: u16
proof (rule bit_word_eqI)
  fix n assume "n < LENGTH(32)"
  have "(0xFFFF :: u32) = mask 16" by (simp add: mask_eq_exp_minus_1)
  then have "bit (0xFFFF :: u32) n \<longleftrightarrow> n < 16"
    using \<open>n < LENGTH(32)\<close> by (simp only: bit_mask_iff) simp
  then show "bit (ucast w XOR 0xFFFF :: u32) n \<longleftrightarrow> bit (ucast (NOT w) :: u32) n"
    using \<open>n < LENGTH(32)\<close> by (auto simp: bit_simps dest: bit_imp_le_length)
qed

lemma inflate_step:
  assumes z: "z = pre @ stored_block f b @ rest" and f: "f = 0 \<or> f = 1"
    and len: "length b \<le> 65535" "length z < 2 ^ 32"
  shows "inflate_loop (Suc k) \<lparr>ti_src = z, ti_src_len = of_nat (length z),
      ti_src_pos = of_nat (length pre), ti_bitbuf = 0, ti_bitcount = 0\<rparr> buf w cap h =
    seq (grow (w + of_nat (length b)) cap h) (\<lambda>cap h.
      case copy_into buf cap z (of_nat (length pre + 5)) (of_nat (length b)) of
        None \<Rightarrow> (Fault, h)
      | Some buf \<Rightarrow>
          if f = 1 then (Ret (buf, w + of_nat (length b)), h)
          else inflate_loop k \<lparr>ti_src = z, ti_src_len = of_nat (length z),
            ti_src_pos = of_nat (length pre + 5) + of_nat (length b), ti_bitbuf = 0, ti_bitcount = 0\<rparr>
            buf (w + of_nat (length b)) cap h)"
proof -
  let ?n = "of_nat (length b) :: u16"
  let ?d = "\<lparr>ti_src = z, ti_src_len = of_nat (length z), ti_src_pos = of_nat (length pre),
    ti_bitbuf = 0, ti_bitcount = 0\<rparr>"
  have lz: "length z = length pre + 5 + length b + length rest" using z by (simp add: stored_block_def)
  have small: "unat (of_nat m :: u32) = m" if "m \<le> length z" for m
    using that len(2) by (intro unat_of_nat_small) simp
  have u: "unat (of_nat (length pre) :: u32) = length pre"
    "unat (of_nat (length pre) + 1 :: u32) = length pre + 1"
    "unat (of_nat (length z) :: u32) = length z"
    using small[of "length pre"] small[of "length pre + 1"] small[of "length z"] lz
    by (simp_all add: add.commute)
  have un: "ucast ?n = (of_nat (length b) :: u32)"
    using len(1) by (simp add: word_unat_eq_iff unat_ucast_up unat_of_nat_small)
  have pos: "of_nat (length pre) < (of_nat (length z) :: u32)"
    using u lz by (simp add: word_less_nat_alt)
  have zz: "z = pre @ f # le16 ?n ! 0 # le16 ?n ! 1 # le16 (NOT ?n) ! 0 # le16 (NOT ?n) ! 1 # b @ rest"
    unfolding z stored_block_def le16_def by simp
  have zat: "z ! (length pre + k) =
      (f # le16 ?n ! 0 # le16 ?n ! 1 # le16 (NOT ?n) ! 0 # le16 (NOT ?n) ! 1 # b @ rest) ! k" for k
    by (subst zz) (rule nth_append_length_plus)
  have at: "z ! length pre = f" "z ! (length pre + 1) = le16 ?n ! 0" "z ! (length pre + 2) = le16 ?n ! 1"
    "z ! (length pre + 3) = le16 (NOT ?n) ! 0" "z ! (length pre + 4) = le16 (NOT ?n) ! 1"
    using zat[of 0] zat[of 1] zat[of 2] zat[of 3] zat[of 4] by (simp_all add: numeral_eq_Suc)
  have p4: "unat (of_nat (length pre) + 1 + 4 :: u32) = length pre + 5"
    using lz small[of "length pre + 5"] by (simp add: algebra_simps)
  have pl: "unat (of_nat (length pre) + 1 + 4 + of_nat (length b) :: u32) = length pre + 5 + length b"
    using lz small[of "length pre + 5 + length b"]
    by (simp add: algebra_simps)
  have g: "\<not> of_nat (length pre) + 1 + 4 > (of_nat (length z) :: u32)"
    "\<not> of_nat (length pre) + 1 + 4 + of_nat (length b) > (of_nat (length z) :: u32)"
    using p4 pl u(3) lz by (simp_all add: word_less_nat_alt not_less del: add.assoc)
  have eq: "of_nat (length pre) + 1 + 4 = (of_nat (length pre + 5) :: u32)"
    "of_nat (length pre) + 1 + 4 + of_nat (length b) = (of_nat (length pre + 5 + length b) :: u32)"
    by simp_all
  have bits: "(ucast f AND 1 :: u32) = ucast f" "(drop_bit 1 (ucast f :: u32) AND 3) = 0"
    "(ucast f :: u32) \<noteq> 0 \<longleftrightarrow> f = 1"
    using f by auto
  have len': "(ucast (z ! (length pre + 1)) OR push_bit 8 (ucast (z ! (length pre + 1 + 1))) :: u32) = of_nat (length b)"
    using le16_len[of ?n] at un by simp
  have nlen': "(ucast (z ! (length pre + 1 + 2)) OR push_bit 8 (ucast (z ! (length pre + 1 + 3))) :: u32) = ucast (NOT ?n)"
  proof -
    have "length pre + 1 + 2 = length pre + 3" "length pre + 1 + 3 = length pre + 4" by simp_all
    then show ?thesis by (simp only: at le16_len)
  qed
  have g1: "tinf_get_bits 1 ?d = (ucast f, ?d\<lparr>ti_src_pos := of_nat (length pre) + 1,
      ti_bitbuf := drop_bit 1 (ucast f), ti_bitcount := 7\<rparr>)"
    using tinf_bits_1[of ?d] pos u at bits by simp
  show ?thesis
    unfolding inflate_loop.simps g1 Let_def prod.case
    apply (subst tinf_bits_2, simp)
    apply (unfold prod.case tinf_align_byte_def tinf.select_convs tinf.update_convs u(2) len' nlen' eq
        len_complement[of ?n, unfolded un] bits)
    using g lz u bits(2) apply (simp add: eq del: of_nat_add)
    done
qed

lemma copy_into_small:
  assumes "unat pos + unat len \<le> length src" "length buf + unat len \<le> unat cap"
  shows "copy_into buf cap src pos len = Some (buf @ take (unat len) (drop (unat pos) src))"
  using assms by (simp add: copy_into_def)

lemma inflate_loop_stored:
  assumes "bs \<noteq> []" "\<forall>b \<in> set bs. length b \<le> 65535" "z = pre @ stored bs @ tail" "length z < 2 ^ 32"
    and "length buf + length (concat bs) \<le> N" "N \<le> 2 ^ 31" "3 * max 4096 (2 * N) + 64 \<le> K"
    and "room (K - 3 * unat cap) h" "unat cap \<le> max 4096 (2 * N)" "cap = 0 \<or> 4096 \<le> unat cap"
    and "length bs \<le> k"
  shows "\<exists>h'. inflate_loop k \<lparr>ti_src = z, ti_src_len = of_nat (length z),
      ti_src_pos = of_nat (length pre), ti_bitbuf = 0, ti_bitcount = 0\<rparr> buf (of_nat (length buf)) cap h =
    (Ret (buf @ concat bs, of_nat (length (buf @ concat bs))), h') \<and> room (K - 3 * max 4096 (2 * N)) h'"
  using assms
proof (induction bs arbitrary: pre buf cap h k rule: stored.induct)
  case (2 b)
  then obtain k' where k: "k = Suc k'" by (cases k) auto
  have z: "z = pre @ stored_block 1 b @ tail" using 2 by simp
  have lb: "length b \<le> 65535" "length buf + length b \<le> N" using 2 by auto
  have need: "(of_nat (length buf) + of_nat (length b) :: u32) = of_nat (length buf + length b)" by simp
  have un: "unat (of_nat (length buf + length b) :: u32) = length buf + length b"
    using lb(2) 2(6) by (intro unat_of_nat_small) simp
  have le: "unat (of_nat (length buf + length b) :: u32) \<le> N" using lb(2) un by simp
  obtain cap' h' where g: "grow (of_nat (length buf + length b)) cap h = (Ret cap', h')"
    "length buf + length b \<le> unat cap'" "room (K - 3 * unat cap') h'" "unat cap' \<le> max 4096 (2 * N)"
    using grow_room[OF 2(8) le 2(6) 2(7) 2(9) 2(10)] unfolding un by blast
  have lz: "length pre + 5 + length b \<le> length z" using z by (simp add: stored_block_def)
  have u: "unat (of_nat (length b) :: u32) = length b" "unat (of_nat (length pre + 5) :: u32) = length pre + 5"
    using lb(1) 2(4) lz by (intro unat_of_nat_small, simp)+
  have slice: "take (length b) (drop (length pre + 5) z) = b"
    unfolding z stored_block_def le16_def by simp
  have "copy_into buf cap' z (of_nat (length pre + 5)) (of_nat (length b)) = Some (buf @ b)"
    using g(2) z slice by (subst copy_into_small) (simp_all only: u, simp_all add: stored_block_def)
  moreover have "room (K - 3 * max 4096 (2 * N)) h'" using g(3,4) by (elim room_mono) linarith
  ultimately show ?case
    unfolding k inflate_step[OF z disjI2[OF refl] lb(1) 2(4)] need g(1) by simp
next
  case (3 b c bs)
  then obtain k' where k: "k = Suc k'" by (cases k) auto
  have z: "z = pre @ stored_block 0 b @ (stored (c # bs) @ tail)" using 3 by simp
  have lb: "length b \<le> 65535" "length buf + length b \<le> N" using 3 by auto
  have need: "(of_nat (length buf) + of_nat (length b) :: u32) = of_nat (length buf + length b)" by simp
  have un: "unat (of_nat (length buf + length b) :: u32) = length buf + length b"
    using lb(2) 3(7) by (intro unat_of_nat_small) simp
  have le: "unat (of_nat (length buf + length b) :: u32) \<le> N" using lb(2) un by simp
  obtain cap' h' where g: "grow (of_nat (length buf + length b)) cap h = (Ret cap', h')"
    "length buf + length b \<le> unat cap'" "room (K - 3 * unat cap') h'" "unat cap' \<le> max 4096 (2 * N)"
    "cap' = 0 \<or> 4096 \<le> unat cap'"
    using grow_room[OF 3(9) le 3(7) 3(8) 3(10) 3(11)] unfolding un by blast
  have lz: "length pre + 5 + length b \<le> length z" using z by (simp add: stored_block_def)
  have u: "unat (of_nat (length b) :: u32) = length b" "unat (of_nat (length pre + 5) :: u32) = length pre + 5"
    using lb(1) 3(5) lz by (intro unat_of_nat_small, simp)+
  have slice: "take (length b) (drop (length pre + 5) z) = b"
    unfolding z stored_block_def le16_def by simp
  have "copy_into buf cap' z (of_nat (length pre + 5)) (of_nat (length b)) = Some (buf @ b)"
    using g(2) z slice by (subst copy_into_small) (simp_all only: u, simp_all add: stored_block_def)
  moreover have "\<exists>h2. inflate_loop k' \<lparr>ti_src = z, ti_src_len = of_nat (length z),
      ti_src_pos = of_nat (length (pre @ stored_block 0 b)), ti_bitbuf = 0, ti_bitcount = 0\<rparr> (buf @ b)
      (of_nat (length (buf @ b))) cap' h' =
    (Ret ((buf @ b) @ concat (c # bs), of_nat (length ((buf @ b) @ concat (c # bs)))), h2) \<and>
    room (K - 3 * max 4096 (2 * N)) h2"
    using 3(2-) k g(3-5) z lb by (intro 3(1)) auto
  ultimately show ?case
    unfolding k inflate_step[OF z disjI1[OF refl] lb(1) 3(5)] need g(1)
    by (simp add: stored_block_def ac_simps)
qed simp

lemma zlib_inflate_stored:
  assumes "bs \<noteq> []" "\<forall>b \<in> set bs. length b \<le> 65535" "z = [c1, c2] @ stored bs @ tail" "length z < 2 ^ 32"
    and "length (concat bs) \<le> N" "N \<le> 2 ^ 31" "3 * max 4096 (2 * N) + 64 \<le> K" "room K h"
  shows "\<exists>h'. zlib_inflate_uncompressed z (of_nat (length z)) h =
    (Ret (concat bs, of_nat (length (concat bs))), h') \<and> room (K - 3 * max 4096 (2 * N)) h'"
proof -
  have "length bs \<le> length (stored bs)" for bs
    by (induction bs rule: stored.induct) (auto simp: stored_block_def)
  from this[of bs] have k: "length bs \<le> length z + 1" using assms(3) by simp
  have "unat (of_nat (length z) :: u32) = length z" using assms(4) by (intro unat_of_nat_small) simp
  then have "\<not> of_nat (length z) < (2 :: u32)" using assms(3) by (simp add: word_less_nat_alt)
  then show ?thesis
    using inflate_loop_stored[OF assms(1-4), of "[]" N K 0 h "length z + 1"] assms(5-8) k
    by (simp add: zlib_inflate_uncompressed_def)
qed

section \<open>Chunks\<close>

text \<open>A chunk as PNG 5.3 lays it out: big-endian length, name, data, and a CRC of four bytes.\<close>

definition be32 :: "u32 \<Rightarrow> u8 list" where
  "be32 w = [ucast (drop_bit 24 w), ucast (drop_bit 16 w), ucast (drop_bit 8 w), ucast w]"

definition chunk :: "u8 list \<times> u8 list \<times> u8 list \<Rightarrow> u8 list" where
  "chunk c = (case c of (ty, body, crc) \<Rightarrow> be32 (of_nat (length body)) @ ty @ body @ crc)"

definition chunk_ok :: "u8 list \<times> u8 list \<times> u8 list \<Rightarrow> bool" where
  "chunk_ok c = (case c of (ty, body, crc) \<Rightarrow> length ty = 4 \<and> length crc = 4)"

lemma length_be32 [simp]: "length (be32 w) = 4"
  by (simp add: be32_def)

lemma length_chunk: "chunk_ok c \<Longrightarrow> length (chunk c) = 12 + length (fst (snd c))"
  by (auto simp: chunk_def chunk_ok_def)

lemma rd_be32_here: "rd_be32 (be32 w @ rest) 0 = w"
proof -
  have "bit (rd_be32 (be32 w @ rest) 0) n = bit w n" if n: "n < 32" for n
  proof -
    consider "n < 8" | "8 \<le> n" "n < 16" | "16 \<le> n" "n < 24" | "24 \<le> n" "n < 32"
      using n by linarith
    then show ?thesis
      by cases (auto simp: rd_be32_def be32_def bit_simps)
  qed
  then show ?thesis by (intro bit_word_eqI) auto
qed

lemma rd_be32_append: "rd_be32 (pre @ xs) (length pre + i) = rd_be32 xs i"
  by (simp add: rd_be32_def nth_append)

lemma png_chunks_step:
  assumes d: "data = pre @ chunk (ty, body, crc) @ rest" and ok: "length ty = 4" "length crc = 4"
    and len: "length data < 2 ^ 32"
  shows "png_chunks (Suc k) data (of_nat (length data)) (of_nat (length pre)) s h =
    (let pos = of_nat (length pre + 8); clen = of_nat (length body);
         next = of_nat (length pre + 12 + length body) in
     if ty = IHDR then
       (case png_ihdr data pos clen s of
          Ret s \<Rightarrow> png_chunks k data (of_nat (length data)) next s h
        | Stop \<Rightarrow> (Stop, h) | Fault \<Rightarrow> (Fault, h) | Timeout \<Rightarrow> (Timeout, h))
     else if ty = IDAT then
       seq (png_idat data pos clen s h) (\<lambda>s h. png_chunks k data (of_nat (length data)) next s h)
     else if ty = IEND then (Ret s, h)
     else png_chunks k data (of_nat (length data)) next s h)"
proof -
  have ld: "length data = length pre + 12 + length body + length rest" using d ok by (simp add: chunk_def)
  have small: "unat (of_nat m :: u32) = m" if "m \<le> length data" for m
    using that len by (intro unat_of_nat_small) simp
  have le: "(of_nat m \<le> (of_nat (length data) :: u32))" if "m \<le> length data" for m
    using small[OF that] small[of "length data"] that by (simp add: word_le_nat_alt)
  have clen: "rd_be32 data (length pre) = of_nat (length body)"
    using rd_be32_append[of pre "chunk (ty, body, crc) @ rest" 0] rd_be32_here
    by (simp add: d chunk_def)
  have ty: "take 4 (drop (length pre + 4) data) = ty" using ok by (simp add: d chunk_def)
  have e: "of_nat (length pre) + 8 = (of_nat (length pre + 8) :: u32)"
    "of_nat (length pre) + 4 = (of_nat (length pre + 4) :: u32)"
    "of_nat (length pre + 4) + 4 = (of_nat (length pre + 8) :: u32)"
    "of_nat (length pre + 8) + of_nat (length body) + 4 = (of_nat (length pre + 12 + length body) :: u32)"
    by simp_all
  have u: "unat (of_nat (length pre) :: u32) = length pre"
    "unat (of_nat (length pre + 4) :: u32) = length pre + 4"
    using ld by (intro small, simp)+
  have "of_nat (length pre + 8) \<le> (of_nat (length data) :: u32)"
    "of_nat (length pre + 12 + length body) \<le> (of_nat (length data) :: u32)"
    using ld by (intro le, simp)+
  moreover have "\<not> length data < length pre + 4" "\<not> length data < length pre + 4 + 4"
    using ld by simp_all
  ultimately show ?thesis
    unfolding png_chunks.simps Let_def e u clen ty
    by (simp only: not_True_eq_False not_False_eq_True if_True if_False linorder_not_less[symmetric] simp_thms)
qed

lemma png_ihdr_reads:
  assumes "data = pre @ chunk (IHDR, be32 w @ be32 h @ [bd, ct, cm, fm, il] @ extra, crc) @ rest"
    "length data < 2 ^ 32"
  shows "png_ihdr data (of_nat (length pre + 8)) (of_nat (13 + length extra)) s =
    Ret (s\<lparr>pn_w := w, pn_h := h, pn_bit_depth := bd, pn_color_type := ct, pn_interlace := il\<rparr>)"
proof -
  let ?body = "be32 w @ be32 h @ [bd, ct, cm, fm, il] @ extra"
  have d: "data = (pre @ be32 (of_nat (length ?body)) @ IHDR) @ ?body @ crc @ rest"
    using assms(1) by (simp add: chunk_def)
  define q where "q = pre @ be32 (of_nat (length ?body)) @ IHDR"
  have lq: "length q = length pre + 8" by (simp add: q_def IHDR_def)
  have dq: "data = q @ ?body @ crc @ rest" using d by (simp add: q_def)
  have ld: "length q + 13 + length extra \<le> length data" unfolding dq by simp
  have u: "unat (of_nat (length q) :: u32) = length q" "unat (of_nat (13 + length extra) :: u32) = 13 + length extra"
    using ld assms(2) by (intro unat_of_nat_small, simp)+
  have lt: "\<not> of_nat (13 + length extra) < (13 :: u32)"
    unfolding word_less_nat_alt u(2) by simp
  have at: "data ! (length q + i) = (?body @ crc @ rest) ! i" for i
    unfolding dq by (rule nth_append_length_plus)
  have r0: "rd_be32 data (length q) = w"
    using rd_be32_append[of q "?body @ crc @ rest" 0] rd_be32_here[of w] by (simp add: dq)
  have r4: "rd_be32 data (length q + 4) = h"
    using rd_be32_append[of "q @ be32 w" "be32 h @ [bd, ct, cm, fm, il] @ extra @ crc @ rest" 0] rd_be32_here[of h]
    by (simp add: dq)
  have b: "data ! (length q + 8) = bd" "data ! (length q + 9) = ct" "data ! (length q + 12) = il"
    unfolding at by (simp_all add: be32_def)
  show ?thesis
    unfolding lq[symmetric] png_ihdr_def u r0 r4 b using lt ld by simp
qed

text \<open>What the decoder has collected after some chunks, and what it should have collected.\<close>

definition idat_of :: "(u8 list \<times> u8 list \<times> u8 list) list \<Rightarrow> u8 list" where
  "idat_of cs = concat (map (\<lambda>(ty, body, crc). if ty = IDAT then body else []) cs)"

definition holds_idat :: "png_state \<Rightarrow> u8 list \<Rightarrow> bool" where
  "holds_idat s buf \<longleftrightarrow> pn_idat_len s = of_nat (length buf) \<and>
     (pn_idat s = Some buf \<and> pn_idat_cap s \<noteq> 0 \<or> pn_idat s = None \<and> buf = [] \<and> pn_idat_cap s = 0)"

definition same_header :: "png_state \<Rightarrow> png_state \<Rightarrow> bool" where
  "same_header s t \<longleftrightarrow> pn_w s = pn_w t \<and> pn_h s = pn_h t \<and> pn_bit_depth s = pn_bit_depth t \<and>
     pn_color_type s = pn_color_type t \<and> pn_interlace s = pn_interlace t"

definition cap_inv :: "nat \<Rightarrow> nat \<Rightarrow> png_state \<Rightarrow> kheap \<Rightarrow> bool" where
  "cap_inv N K s h \<longleftrightarrow> room (K - 3 * unat (pn_idat_cap s)) h \<and> unat (pn_idat_cap s) \<le> max 4096 (2 * N) \<and>
     (pn_idat_cap s = 0 \<or> 4096 \<le> unat (pn_idat_cap s))"

lemma png_idat_collects:
  assumes d: "data = pre @ chunk (IDAT, body, crc) @ rest" "length data < 2 ^ 32"
    and s: "holds_idat s buf" "cap_inv N K s h"
    and n: "length buf + length body \<le> N" "N \<le> 2 ^ 31" "3 * max 4096 (2 * N) + 64 \<le> K"
  obtains s' h' where
    "png_idat data (of_nat (length pre + 8)) (of_nat (length body)) s h = (Ret s', h')"
    "holds_idat s' (buf @ body)" "cap_inv N K s' h'" "same_header s' s"
proof -
  have ld: "length pre + 8 + length body \<le> length data" using d(1) by (simp add: chunk_def IDAT_def)
  have u: "unat (of_nat (length body) :: u32) = length body"
    "unat (of_nat (length pre + 8) :: u32) = length pre + 8"
    using ld d(2) by (intro unat_of_nat_small, simp)+
  have need: "pn_idat_len s + of_nat (length body) = (of_nat (length (buf @ body)) :: u32)"
    using s(1) by (simp add: holds_idat_def)
  have un: "unat (of_nat (length (buf @ body)) :: u32) = length (buf @ body)"
    using n by (intro unat_of_nat_small) simp
  have le: "unat (of_nat (length (buf @ body)) :: u32) \<le> N" using n un by simp
  have ci: "room (K - 3 * unat (pn_idat_cap s)) h" "unat (pn_idat_cap s) \<le> max 4096 (2 * N)"
    "pn_idat_cap s = 0 \<or> 4096 \<le> unat (pn_idat_cap s)"
    using s(2) by (auto simp: cap_inv_def)
  obtain cap' h' where g: "grow (of_nat (length (buf @ body))) (pn_idat_cap s) h = (Ret cap', h')"
    "length (buf @ body) \<le> unat cap'" "room (K - 3 * unat cap') h'" "unat cap' \<le> max 4096 (2 * N)"
    "cap' = 0 \<or> 4096 \<le> unat cap'"
    using grow_room[OF ci(1) le n(2,3) ci(2,3)] unfolding un by blast
  have buf: "(case pn_idat s of None \<Rightarrow> [] | Some b \<Rightarrow> b) = buf" using s(1) by (auto simp: holds_idat_def)
  have slice: "take (length body) (drop (length pre + 8) data) = body"
    unfolding d(1) chunk_def IDAT_def be32_def by simp
  show thesis
  proof (cases "cap' = 0")
    case True
    then have e: "buf = []" "body = []" using g(2) by auto
    then have "pn_idat_cap s = 0" using g(1) True
      by (auto simp: grow_def split: if_splits)
    then show thesis
      using that[of s h'] s(1) g True e unfolding png_idat_def need
      by (auto simp: same_header_def cap_inv_def)
  next
    case False
    let ?s = "s\<lparr>pn_idat := Some (buf @ body), pn_idat_len := of_nat (length (buf @ body)), pn_idat_cap := cap'\<rparr>"
    have "copy_into buf cap' data (of_nat (length pre + 8)) (of_nat (length body)) = Some (buf @ body)"
      using g(2) ld slice by (subst copy_into_small) (simp_all only: u, simp_all)
    then have "png_idat data (of_nat (length pre + 8)) (of_nat (length body)) s h = (Ret ?s, h')"
      unfolding png_idat_def need g(1) using False buf by simp
    then show thesis
      using that[of ?s h'] g(3-5) False by (simp add: holds_idat_def cap_inv_def same_header_def)
  qed
qed

lemma png_chunks_collect:
  assumes "data = pre @ concat (map chunk cs) @ chunk (IEND, body, crc) @ rest" "length data < 2 ^ 32"
    and "\<forall>c \<in> set cs. chunk_ok c \<and> fst c \<noteq> IHDR \<and> fst c \<noteq> IEND" "length crc = 4"
    and "holds_idat s buf" "cap_inv N K s h"
    and "length buf + length (idat_of cs) \<le> N" "N \<le> 2 ^ 31" "3 * max 4096 (2 * N) + 64 \<le> K"
    and "length cs < k"
  shows "\<exists>s' h'. png_chunks k data (of_nat (length data)) (of_nat (length pre)) s h = (Ret s', h') \<and>
    holds_idat s' (buf @ idat_of cs) \<and> cap_inv N K s' h' \<and> same_header s' s"
  using assms
proof (induction cs arbitrary: pre s buf h k)
  case Nil
  then obtain k' where k: "k = Suc k'" by (cases k) auto
  have d: "data = pre @ chunk (IEND, body, crc) @ rest" using Nil.prems(1) by simp
  have n: "IEND \<noteq> IHDR" "IEND \<noteq> IDAT" "length IEND = 4" by (simp_all add: IEND_def IHDR_def IDAT_def)
  show ?case
    unfolding k png_chunks_step[OF d n(3) Nil.prems(4,2)] Let_def
    using n Nil.prems by (simp add: idat_of_def same_header_def)
next
  case (Cons c cs)
  then obtain k' where k: "k = Suc k'" by (cases k) auto
  obtain ty b cr where c: "c = (ty, b, cr)" by (cases c) auto
  have ok: "length ty = 4" "length cr = 4" "ty \<noteq> IHDR" "ty \<noteq> IEND"
    using Cons.prems(3) c by (auto simp: chunk_ok_def)
  let ?rest = "concat (map chunk cs) @ chunk (IEND, body, crc) @ rest"
  have d: "data = pre @ chunk (ty, b, cr) @ ?rest" using Cons.prems(1) c by simp
  have d': "data = (pre @ chunk (ty, b, cr)) @ ?rest" using d by simp
  have next_pos: "length pre + 12 + length b = length (pre @ chunk (ty, b, cr))"
    using ok by (simp add: chunk_def)
  show ?case
  proof (cases "ty = IDAT")
    case True
    have i: "idat_of (c # cs) = b @ idat_of cs" using c True by (simp add: idat_of_def)
    have le: "length buf + length b \<le> N" using Cons.prems(7) i by simp
    obtain s1 h1 where s1: "png_idat data (of_nat (length pre + 8)) (of_nat (length b)) s h = (Ret s1, h1)"
      "holds_idat s1 (buf @ b)" "cap_inv N K s1 h1" "same_header s1 s"
      using png_idat_collects[OF d[unfolded True] Cons.prems(2,5,6) le Cons.prems(8,9)] .
    from Cons.IH[OF d' Cons.prems(2) _ Cons.prems(4) s1(2,3) _ Cons.prems(8,9), of k']
    show ?thesis
      unfolding k png_chunks_step[OF d ok(1,2) Cons.prems(2)] Let_def next_pos
      using Cons.prems(3,7,10) ok True k i s1 by (auto simp: same_header_def)
  next
    case False
    then have i: "idat_of (c # cs) = idat_of cs" using c by (simp add: idat_of_def)
    from Cons.IH[OF d' Cons.prems(2) _ Cons.prems(4) Cons.prems(5,6) _ Cons.prems(8,9), of k']
    show ?thesis
      unfolding k png_chunks_step[OF d ok(1,2) Cons.prems(2)] Let_def next_pos
      using Cons.prems(3,7,10) ok False k i by auto
  qed
qed

section \<open>Rows\<close>

text \<open>The pixels of a row as RGBA: colour type 6 is RGBA already, colour type 2 is RGB.\<close>

fun opaque :: "u8 list \<Rightarrow> u8 list" where
  "opaque (r # g # b # xs) = r # g # b # 255 # opaque xs"
| "opaque xs = []"

definition rgba :: "u8 \<Rightarrow> u8 list \<Rightarrow> u8 list" where
  "rgba ct row = (if ct = 6 then row else opaque row)"

definition spec_bpp :: "u8 \<Rightarrow> nat" where
  "spec_bpp ct = (if ct = 6 then 4 else 3)"

text \<open>The scanlines, each with its own filter type in front; the row above the first is zero.\<close>

fun encode_rows :: "nat \<Rightarrow> u8 list \<Rightarrow> (nat \<times> u8 list) list \<Rightarrow> u8 list" where
  "encode_rows bpp prev [] = []"
| "encode_rows bpp prev ((ft, row) # rs) = of_nat ft # filter_row ft bpp prev row @ encode_rows bpp row rs"

definition pixel_at :: "nat \<Rightarrow> u8 list \<Rightarrow> nat \<Rightarrow> u8 list" where
  "pixel_at bpp cur x = [cur ! (x * bpp), cur ! (x * bpp + 1), cur ! (x * bpp + 2),
     if bpp = 4 then cur ! (x * bpp + 3) else 255]"

lemma pixel_at_Cons4: "pixel_at 4 (a # b # c # d # xs) (Suc x) = pixel_at 4 xs x"
  by (simp add: pixel_at_def add.commute)

lemma pixel_at_Cons3: "pixel_at 3 (a # b # c # xs) (Suc x) = pixel_at 3 xs x"
  by (simp add: pixel_at_def numeral_3_eq_3)

lemma pixel_at_0: "pixel_at 4 (a # b # c # d # xs) 0 = [a, b, c, d]" "pixel_at 3 (a # b # c # xs) 0 = [a, b, c, 255]"
  by (simp_all add: pixel_at_def)

lemma concat_upt_Suc: "concat (map f [0..<Suc n]) = f 0 @ concat (map (\<lambda>i. f (Suc i)) [0..<n])"
proof -
  have "[0..<Suc n] = 0 # map Suc [0..<n]" by (simp add: map_Suc_upt upt_conv_Cons del: upt_Suc)
  then show ?thesis by (simp add: comp_def del: upt_Suc)
qed

lemma pixels_of_row:
  assumes "length row = w * spec_bpp ct"
  shows "concat (map (pixel_at (spec_bpp ct) row) [0..<w]) = rgba ct row"
proof (cases "ct = 6")
  case True
  have "length row = w * 4 \<Longrightarrow> concat (map (pixel_at 4 row) [0..<w]) = row"
  proof (induction w arbitrary: row)
    case (Suc w)
    from Suc.prems obtain a b c d xs where row: "row = a # b # c # d # xs"
      by (auto simp: length_Suc_conv numeral_eq_Suc)
    have "concat (map (pixel_at 4 xs) [0..<w]) = xs" using Suc row by simp
    then show ?case
      unfolding concat_upt_Suc row pixel_at_Cons4 pixel_at_0 by simp
  qed simp
  then show ?thesis using True assms by (simp add: rgba_def spec_bpp_def)
next
  case False
  have "length row = w * 3 \<Longrightarrow> concat (map (pixel_at 3 row) [0..<w]) = opaque row"
  proof (induction w arbitrary: row)
    case (Suc w)
    from Suc.prems obtain a b c xs where row: "row = a # b # c # xs"
      by (auto simp: length_Suc_conv numeral_eq_Suc)
    have "concat (map (pixel_at 3 xs) [0..<w]) = opaque xs" using Suc row by simp
    then show ?case
      unfolding concat_upt_Suc row pixel_at_Cons3 pixel_at_0 by simp
  qed simp
  then show ?thesis using False assms by (simp add: rgba_def spec_bpp_def)
qed

lemma blit_append: "length dn = k \<Longrightarrow> blit k src (dn @ rest) = dn @ src @ drop (length src) rest"
  by (simp add: blit_def)

lemma pixel_row_eq:
  assumes "bpp = 3 \<or> bpp = 4" "length cur = w * bpp" "x + n = w" "length dn = 4 * (y * w + x)"
    "4 * n \<le> length rest" "length (dn @ rest) < 2 ^ 32"
  shows "pixel_row n (of_nat x) (of_nat w) (of_nat y) (of_nat bpp) cur (dn @ rest) =
    Some (dn @ concat (map (pixel_at bpp cur) [x..<w]) @ drop (4 * n) rest)"
  using assms(3-)
proof (induction n arbitrary: x dn rest)
  case (Suc n)
  have b: "unat (of_nat bpp :: u32) = bpp" "(of_nat bpp = (4 :: u32)) = (bpp = 4)" using assms(1) by auto
  have "4 * (y * w + x) + 4 * Suc n < 2 ^ 32" using Suc.prems(2-4) by simp
  then have w4: "w * 4 < 2 ^ 32" using Suc.prems(1) by (cases y) auto
  have "x * bpp + bpp = Suc x * bpp" by simp
  also have "\<dots> \<le> w * bpp" using Suc.prems(1) by (intro mult_le_mono1) simp
  finally have xb: "x * bpp + bpp \<le> w * bpp" .
  also have "\<dots> \<le> w * 4" using assms(1) by (intro mult_le_mono2) auto
  finally have "x * bpp < 2 ^ 32" using w4 by simp
  then have si: "unat (of_nat x * of_nat bpp :: u32) = x * bpp"
    using unat_of_nat_small[of "x * bpp", where 'a = 32] by simp
  have "4 * (y * w + x) < 2 ^ 32" using Suc.prems by simp
  then have di: "unat ((of_nat y * of_nat w + of_nat x) * 4 :: u32) = 4 * (y * w + x)"
    using unat_of_nat_small[of "(y * w + x) * 4", where 'a = 32] by (simp add: mult.commute)
  have fit: "\<not> (length cur < x * bpp + bpp \<or> length (dn @ rest) < 4 * (y * w + x) + 4)"
    using xb assms(2) Suc.prems by simp
  let ?p = "pixel_at bpp cur x"
  have d4: "drop (Suc (Suc (Suc (Suc 0)))) rest = drop 4 rest" by (simp add: numeral_eq_Suc)
  have "pixel_row (Suc n) (of_nat x) (of_nat w) (of_nat y) (of_nat bpp) cur (dn @ rest) =
    pixel_row n (of_nat (Suc x)) (of_nat w) (of_nat y) (of_nat bpp) cur ((dn @ ?p) @ drop 4 rest)"
    unfolding pixel_row.simps Let_def si di b
    using fit Suc.prems(2) by (simp add: pixel_at_def blit_append add.commute d4 del: of_nat_mult)
  also have "\<dots> = Some ((dn @ ?p) @ concat (map (pixel_at bpp cur) [Suc x..<w]) @ drop (4 * n) (drop 4 rest))"
    using Suc.prems by (intro Suc.IH) (auto simp: pixel_at_def algebra_simps)
  finally show ?case
    using Suc.prems(1) by (simp add: upt_conv_Cons add.commute del: pixel_row.simps)
qed simp

lemma pixel_rows_eq:
  assumes ct: "ct = 2 \<or> ct = 6" and bpp: "bpp = spec_bpp ct"
    and rows: "\<forall>(ft, row) \<in> set rows. ft \<le> 4 \<and> length row = w * bpp"
    and raw: "raw = done_raw @ encode_rows bpp prev rows" "length done_raw = y * (1 + w * bpp)"
    and len: "length prev = w * bpp" "length cur = w * bpp" "length raw < 2 ^ 32"
    and px: "length dn = 4 * (y * w)" "length rest = 4 * (length rows * w)" "length (dn @ rest) < 2 ^ 32"
  shows "pixel_rows (length rows) (of_nat y) (of_nat w) (of_nat bpp) (of_nat (w * bpp)) raw prev cur (dn @ rest) =
    Some (dn @ concat (map (\<lambda>(ft, row). rgba ct row) rows))"
  using rows raw len px
proof (induction rows arbitrary: y done_raw prev cur dn rest)
  case (Cons r rows)
  obtain ft row where r: "r = (ft, row)" by (cases r)
  have b: "bpp = 3 \<or> bpp = 4" using ct bpp by (auto simp: spec_bpp_def)
  have ft: "ft \<le> 4" "length row = w * bpp" using Cons.prems(1) r by auto
  have lraw: "length done_raw + 1 + w * bpp \<le> length raw" using Cons.prems(2) r ft by simp
  have small: "unat (of_nat m :: u32) = m" if "m \<le> length raw" for m
    using that Cons.prems(6) by (intro unat_of_nat_small) simp
  have "of_nat y * (1 + of_nat (w * bpp)) = (of_nat (length done_raw) :: u32)"
    using Cons.prems(3) by (simp add: distrib_left)
  moreover have "of_nat (length done_raw) + 1 = (of_nat (length done_raw + 1) :: u32)" by simp
  ultimately have o: "unat (of_nat y * (1 + of_nat (w * bpp)) :: u32) = length done_raw"
    "unat (of_nat y * (1 + of_nat (w * bpp)) + 1 :: u32) = length done_raw + 1"
    using small[of "length done_raw"] small[of "length done_raw + 1"] lraw by (simp_all only:)
  have us: "unat (of_nat (w * bpp) :: u32) = w * bpp" "unat (of_nat bpp :: u32) = bpp"
    using small[of "w * bpp"] lraw b by (auto simp del: of_nat_mult)
  have "4 * w \<le> length rest" using Cons.prems(8) by simp
  then have uw: "unat (of_nat w :: u32) = w" using Cons.prems(9) by (intro unat_of_nat_small) simp
  have at: "raw ! length done_raw = of_nat ft"
    "drop (length done_raw + 1) raw = filter_row ft bpp prev row @ encode_rows bpp row rows"
    unfolding Cons.prems(2) r by simp_all
  have row: "unfilter_scanline cur (drop (length done_raw + 1) raw) (of_nat (w * bpp)) (of_nat bpp) (Some prev) (of_nat ft) = row"
    by (rule unfilter_scanline_row) (use ft us b Cons.prems(5) at in \<open>auto simp del: of_nat_mult\<close>)
  have px: "pixel_row w (of_nat 0) (of_nat w) (of_nat y) (of_nat bpp) row (dn @ rest) =
    Some (dn @ concat (map (pixel_at bpp row) [0..<w]) @ drop (4 * w) rest)"
    using b ft Cons.prems(7-9) by (intro pixel_row_eq) auto
  have cat: "concat (map (pixel_at bpp row) [0..<w]) = rgba ct row"
    unfolding bpp using ft bpp by (intro pixels_of_row) simp
  have lcat: "length (rgba ct row) = 4 * w"
    unfolding cat[symmetric] by (induction w) (simp_all add: pixel_at_def)
  have y1: "of_nat y + 1 = (of_nat (Suc y) :: u32)" by simp
  have IH: "pixel_rows (length rows) (of_nat (Suc y)) (of_nat w) (of_nat bpp) (of_nat (w * bpp)) raw row prev
      ((dn @ rgba ct row) @ drop (4 * w) rest) =
    Some ((dn @ rgba ct row) @ concat (map (\<lambda>(ft, row). rgba ct row) rows))"
    by (rule Cons.IH[where done_raw = "done_raw @ of_nat ft # filter_row ft bpp prev row"])
      (use Cons.prems r ft lcat in \<open>auto simp: algebra_simps\<close>)
  have ok: "\<not> (length raw \<le> length done_raw \<or> length raw < length done_raw + 1 + w * bpp)"
    using lraw by simp
  show ?case
    unfolding list.size(4) pixel_rows.simps add_Suc_right Nat.add_0_right Let_def o us uw
    using ok at(1) row px cat IH y1 r by (simp del: of_nat_mult of_nat_Suc)
qed simp

section \<open>Decoding what the reference encoder writes\<close>

text \<open>
  The file of an image with eight bits a sample: signature, header, any chunks whose IDAT
  bodies together make the zlib stream (other chunks may stand between them), the end chunk.
\<close>

definition png_file ::
  "u32 \<Rightarrow> u32 \<Rightarrow> u8 \<times> u8 \<times> u8 \<Rightarrow> u8 list \<Rightarrow> (u8 list \<times> u8 list \<times> u8 list) list \<Rightarrow> u8 list \<Rightarrow> u8 list" where
  "png_file w h fmt crc cs rest =
     (case fmt of (bd, ct, il) \<Rightarrow>
        png_sig @ chunk (IHDR, be32 w @ be32 h @ [bd, ct, 0, 0, il], crc) @
        concat (map chunk cs) @ chunk (IEND, [], crc) @ rest)"

lemma length_encode_rows:
  "\<forall>(ft, row) \<in> set rows. length row = n \<Longrightarrow> length (encode_rows bpp prev rows) = length rows * (1 + n)"
  by (induction rows arbitrary: prev) auto

lemma length_chunks: "length (idat_of cs) \<le> length (concat (map chunk cs)) \<and> length cs \<le> length (concat (map chunk cs))"
proof (induction cs)
  case (Cons c cs)
  then show ?case by (cases c) (auto simp: chunk_def idat_of_def)
qed (simp add: idat_of_def)

lemma png_pixels_of_rows:
  assumes ct: "ct = 2 \<or> ct = 6" and wh: "0 < w" "rows \<noteq> []"
    and rows: "\<forall>(ft, row) \<in> set rows. ft \<le> 4 \<and> length row = w * spec_bpp ct"
    and raw: "raw = encode_rows (spec_bpp ct) (replicate (w * spec_bpp ct) 0) rows" "length raw \<le> N"
    and mem: "N \<le> 2 ^ 30" "room (4 * N + 192) h"
    and s: "pn_w s = of_nat w" "pn_h s = of_nat (length rows)" "pn_color_type s = ct"
  shows "\<exists>h'. png_pixels s raw (of_nat (length raw)) h =
    (Ret (of_nat w, of_nat (length rows), concat (map (\<lambda>(ft, row). rgba ct row) rows)), h')"
proof -
  let ?bpp = "spec_bpp ct"
  let ?st = "w * ?bpp"
  have b: "?bpp = 3 \<or> ?bpp = 4" "(if ct = 6 then 4 else 3 :: u32) = of_nat ?bpp" by (auto simp: spec_bpp_def)
  have lraw: "length raw = length rows * (1 + ?st)"
    unfolding raw(1) using rows by (intro length_encode_rows) auto
  have st: "?st < length raw"
    using wh(2) unfolding lraw by (cases rows) auto
  have hw: "length rows * w * 3 \<le> length rows * (1 + ?st)"
    using b(1) by (auto simp: algebra_simps)
  then have px: "length rows * w * 4 \<le> 2 * N" using raw(2) unfolding lraw by linarith
  have small: "unat (of_nat m :: u32) = m" if "m \<le> 2 * N" for m
    using that mem(1) by (intro unat_of_nat_small) simp
  have e: "(of_nat w * of_nat ?bpp :: u32) = of_nat ?st"
    "(of_nat (length rows) * (1 + of_nat ?st) :: u32) = of_nat (length raw)"
    "(of_nat w * of_nat (length rows) * 4 :: u32) = of_nat (length rows * w * 4)"
    unfolding lraw by (simp_all add: algebra_simps)
  have u: "unat (of_nat ?st :: u32) = ?st" "unat (of_nat (length rows * w * 4) :: u32) = length rows * w * 4"
    using st raw(2) px by (intro small, simp)+
  have "length rows \<le> length raw" unfolding lraw by simp
  then have ur: "unat (of_nat (length rows) :: u32) = length rows" using raw(2) by (intro small) simp
  obtain h1 where h1: "png_alloc (of_nat (length rows * w * 4)) h = (Ret True, h1)" "room (2 * N + 128) h1"
  proof (rule png_alloc_room[OF mem(2), of "of_nat (length rows * w * 4)"])
    show "unat (of_nat (length rows * w * 4) :: u32) + 64 \<le> 4 * N + 192"
      unfolding u using px by linarith
    fix h' assume "png_alloc (of_nat (length rows * w * 4)) h = (Ret True, h')"
      "room (4 * N + 192 - unat (of_nat (length rows * w * 4) :: u32) - 64) h'"
    moreover have "2 * N + 128 \<le> 4 * N + 192 - length rows * w * 4 - 64" using px by linarith
    ultimately show thesis using that[of h'] unfolding u by (blast intro: room_mono)
  qed
  obtain h2 where h2: "png_alloc (of_nat ?st) h1 = (Ret True, h2)" "room (N + 64) h2"
  proof (rule png_alloc_room[OF h1(2), of "of_nat ?st"])
    show "unat (of_nat ?st :: u32) + 64 \<le> 2 * N + 128"
      unfolding u using st raw(2) by linarith
    fix h' assume "png_alloc (of_nat ?st) h1 = (Ret True, h')" "room (2 * N + 128 - unat (of_nat ?st :: u32) - 64) h'"
    moreover have "N + 64 \<le> 2 * N + 128 - ?st - 64" using st raw(2) by linarith
    ultimately show thesis using that[of h'] unfolding u by (blast intro: room_mono)
  qed
  have "unat (of_nat ?st :: u32) + 64 \<le> N + 64"
    unfolding u using st raw(2) by linarith
  then obtain h3 where h3: "png_alloc (of_nat ?st) h2 = (Ret True, h3)"
    using png_alloc_room[OF h2(2)] by metis
  have "pixel_rows (length rows) (of_nat 0) (of_nat w) (of_nat ?bpp) (of_nat ?st) raw (replicate ?st 0) (replicate ?st 0)
      ([] @ replicate (length rows * w * 4) 0) =
    Some ([] @ concat (map (\<lambda>(ft, row). rgba ct row) rows))"
    using px mem(1) raw(2) by (intro pixel_rows_eq[OF ct refl rows, where done_raw = "[]"]) (auto simp: raw(1))
  then show ?thesis
    unfolding png_pixels_def s b(2) Let_def e u ur
    using h1(1) h2(1) h3 by (simp del: of_nat_mult)
qed

text \<open>Up to the zlib stream: the header and the IDAT bodies are collected, then checked.\<close>

lemma png_file_collected:
  assumes cs: "\<forall>c \<in> set cs. chunk_ok c \<and> fst c \<noteq> IHDR \<and> fst c \<noteq> IEND" "length crc = 4"
    and fl: "file = png_file w ht (bd, ct, il) crc cs rest" "length file \<le> 2 ^ 30" "length file \<le> fuel"
    and mem: "room (16 * length file + 32768) h"
  obtains s h1 where
    "png_decode_rgba fuel (Some file) (of_nat (length file)) h =
     (if w = 0 \<or> ht = 0 \<or> bd \<noteq> 8 \<or> \<not> (ct = 2 \<or> ct = 6) \<or> il \<noteq> 0 \<or> idat_of cs = [] then (Stop, h1)
      else seq (zlib_inflate_uncompressed (idat_of cs) (of_nat (length (idat_of cs))) h1)
                  (\<lambda>(raw, raw_len) h. png_pixels s raw raw_len h))"
    "pn_w s = w" "pn_h s = ht" "pn_color_type s = ct"
    "room (10 * length file + 16384) h1" "length (idat_of cs) \<le> length file"
proof -
  define N where "N = length file"
  define hdr where "hdr = (IHDR, be32 w @ be32 ht @ [bd, ct, 0, 0, il] @ [], crc)"
  define s0 where "s0 = png_start\<lparr>pn_w := w, pn_h := ht, pn_bit_depth := bd,
    pn_color_type := ct, pn_interlace := il\<rparr>"
  have f: "file = png_sig @ chunk hdr @ concat (map chunk cs) @ chunk (IEND, [], crc) @ rest"
    using fl(1) by (simp add: png_file_def hdr_def)
  have f': "file = (png_sig @ chunk hdr) @ concat (map chunk cs) @ chunk (IEND, [], crc) @ rest" using f by simp
  have N32: "length file < 2 ^ 32" using fl(2) by simp
  have lsig: "length png_sig = 8" by (simp add: png_sig_def)
  have l8: "\<not> length file < 8" using f lsig by simp
  have sz: "\<not> of_nat (length file) < (8 :: u32)"
    using l8 N32 by (simp add: word_less_nat_alt unat_of_nat_small)
  have sig: "mem_eq8 file png_sig 8" using lsig by (simp add: mem_eq8_def f nth_append)
  have lcs: "length (idat_of cs) \<le> N" "length cs + 25 \<le> N"
    using f length_chunks[of cs] cs(2) by (simp_all add: N_def hdr_def chunk_def IHDR_def)
  obtain k where k: "fuel = Suc k" "length cs < k" using lcs fl(3) by (cases fuel) (auto simp: N_def)
  have "length png_sig + 12 + length (be32 w @ be32 ht @ [bd, ct, 0, 0, il] @ []) = length (png_sig @ chunk hdr)"
    using cs(2) by (simp add: hdr_def chunk_def IHDR_def)
  moreover have p8: "of_nat (length png_sig) = (8 :: u32)" using lsig by simp
  moreover have lh: "length (be32 w @ be32 ht @ [bd, ct, 0, 0, il] @ []) = 13 + length ([] :: u8 list)"
    by simp
  ultimately have first: "png_chunks fuel file (of_nat (length file)) 8 png_start h =
    png_chunks k file (of_nat (length file)) (of_nat (length (png_sig @ chunk hdr))) s0 h"
    using png_chunks_step[OF f[unfolded hdr_def] _ cs(2) N32, of k png_start h]
      png_ihdr_reads[OF f[unfolded hdr_def] N32, of png_start]
    unfolding k(1) Let_def p8 lh by (simp add: IHDR_def s0_def add.commute del: png_chunks.simps)
  have "cap_inv N (16 * N + 32768) s0 h" using mem by (simp add: cap_inv_def s0_def png_start_def N_def)
  moreover have "3 * max 4096 (2 * N) + 64 \<le> 16 * N + 32768" by simp
  moreover have "holds_idat s0 []" by (simp add: holds_idat_def s0_def png_start_def)
  ultimately obtain s h1 where s: "png_chunks fuel file (of_nat (length file)) 8 png_start h = (Ret s, h1)"
    "holds_idat s (idat_of cs)" "cap_inv N (16 * N + 32768) s h1" "same_header s s0"
    using png_chunks_collect[OF f' N32 cs, of s0 "[]" N "16 * N + 32768" h k] lcs(1) fl(2) k(2)
    unfolding first N_def by auto
  have hd: "pn_w s = w" "pn_h s = ht" "pn_bit_depth s = bd" "pn_color_type s = ct" "pn_interlace s = il"
    using s(4) by (simp_all add: same_header_def s0_def)
  have il: "unat (of_nat (length (idat_of cs)) :: u32) = length (idat_of cs)"
    using lcs(1) fl(2) by (intro unat_of_nat_small) (simp add: N_def)
  then have z: "(of_nat (length (idat_of cs)) :: u32) = 0 \<longleftrightarrow> idat_of cs = []"
    by (simp only: word_unat_eq_iff unat_0 length_0_conv)
  have id: "pn_idat_len s = of_nat (length (idat_of cs))"
    "idat_of cs \<noteq> [] \<Longrightarrow> pn_idat s = Some (idat_of cs)"
    using s(2) by (auto simp: holds_idat_def)
  show thesis
  proof (rule that[of h1 s])
    show "png_decode_rgba fuel (Some file) (of_nat (length file)) h =
     (if w = 0 \<or> ht = 0 \<or> bd \<noteq> 8 \<or> \<not> (ct = 2 \<or> ct = 6) \<or> il \<noteq> 0 \<or> idat_of cs = [] then (Stop, h1)
      else seq (zlib_inflate_uncompressed (idat_of cs) (of_nat (length (idat_of cs))) h1)
                  (\<lambda>(raw, raw_len) h. png_pixels s raw raw_len h))"
      unfolding png_decode_rgba_def option.case if_not_P[OF sz] if_not_P[OF l8] s(1) seq.simps hd id(1)
      using sig z id(2) by (cases "idat_of cs = []") simp_all
    show "room (10 * length file + 16384) h1"
      using s(3) unfolding cap_inv_def N_def by (auto elim!: room_mono)
  qed (use hd lcs N_def in auto)
qed

lemma stored_contents: "length (concat bs) \<le> length (stored bs)"
  by (induction bs rule: stored.induct) (auto simp: stored_block_def)

lemma png_file_inflated:
  assumes "room (10 * N + 16384) h" "bs \<noteq> []" "\<forall>b \<in> set bs. length b \<le> 65535"
    and "z = [c1, c2] @ stored bs @ adler" "length z \<le> N" "N \<le> 2 ^ 30"
  obtains h2 where "zlib_inflate_uncompressed z (of_nat (length z)) h =
    (Ret (concat bs, of_nat (length (concat bs))), h2)" "room (4 * N + 192) h2" "length (concat bs) \<le> N"
proof -
  have raw: "length (concat bs) \<le> N" using stored_contents[of bs] assms(4,5) by simp
  moreover have "3 * max 4096 (2 * N) + 64 \<le> 10 * N + 16384" by simp
  ultimately obtain h2 where h2: "zlib_inflate_uncompressed z (of_nat (length z)) h =
    (Ret (concat bs, of_nat (length (concat bs))), h2)" "room (10 * N + 16384 - 3 * max 4096 (2 * N)) h2"
    using zlib_inflate_stored[OF assms(2-4) _ raw, of "10 * N + 16384" h] assms by auto
  have "room (4 * N + 192) h2" using h2(2) by (elim room_mono) simp
  with h2(1) raw that show thesis by blast
qed

text \<open>
  C26. Decoding what an encoder wrote gives the image back: for every 8-bit RGB or RGBA image,
  any choice of the five row filters, any division into stored deflate blocks and into IDAT
  chunks and any foreign chunks between, png_decode_rgba returns the width, the height and
  exactly the pixels, alpha filled up with 255.
\<close>

theorem png_decodes_encoded:
  assumes "ct = 2 \<or> ct = 6" "0 < w" "rows \<noteq> []"
    and "\<forall>(ft, row) \<in> set rows. ft \<le> 4 \<and> length row = w * spec_bpp ct"
    and "concat bs = encode_rows (spec_bpp ct) (replicate (w * spec_bpp ct) 0) rows"
    and "\<forall>b \<in> set bs. length b \<le> 65535"
    and "idat_of cs = [c1, c2] @ stored bs @ adler"
    and "\<forall>c \<in> set cs. chunk_ok c \<and> fst c \<noteq> IHDR \<and> fst c \<noteq> IEND" "length crc = 4"
    and "file = png_file (of_nat w) (of_nat (length rows)) (8, ct, 0) crc cs rest"
    and "length file \<le> 2 ^ 30" "length file \<le> fuel" "room (16 * length file + 32768) h"
  shows "\<exists>h'. png_decode_rgba fuel (Some file) (of_nat (length file)) h =
    (Ret (of_nat w, of_nat (length rows), concat (map (\<lambda>(ft, row). rgba ct row) rows)), h')"
proof -
  let ?N = "length file"
  obtain s h1 where s: "png_decode_rgba fuel (Some file) (of_nat ?N) h =
     (if of_nat w = (0 :: u32) \<or> of_nat (length rows) = (0 :: u32) \<or> 8 \<noteq> (8 :: u8) \<or> \<not> (ct = 2 \<or> ct = 6) \<or>
         (0 :: u8) \<noteq> 0 \<or> idat_of cs = [] then (Stop, h1)
      else seq (zlib_inflate_uncompressed (idat_of cs) (of_nat (length (idat_of cs))) h1)
                  (\<lambda>(raw, raw_len) h. png_pixels s raw raw_len h))"
    "pn_w s = of_nat w" "pn_h s = of_nat (length rows)" "pn_color_type s = ct"
    "room (10 * ?N + 16384) h1" "length (idat_of cs) \<le> ?N"
    by (rule png_file_collected[OF assms(8-13)])
  have "bs \<noteq> []" using assms(3,5) by (cases rows) auto
  then obtain h2 where h2: "zlib_inflate_uncompressed (idat_of cs) (of_nat (length (idat_of cs))) h1 =
    (Ret (concat bs, of_nat (length (concat bs))), h2)" "room (4 * ?N + 192) h2" "length (concat bs) \<le> ?N"
    using png_file_inflated[OF s(5) _ assms(6,7) s(6) assms(11)] by metis
  have "\<exists>h'. png_pixels s (concat bs) (of_nat (length (concat bs))) h2 =
    (Ret (of_nat w, of_nat (length rows), concat (map (\<lambda>(ft, row). rgba ct row) rows)), h')"
    by (rule png_pixels_of_rows[OF assms(1-5) h2(3) assms(11) h2(2) s(2-4)])
  moreover have "(of_nat w :: u32) \<noteq> 0" "(of_nat (length rows) :: u32) \<noteq> 0"
  proof -
    have lr: "length (concat bs) = length rows * (1 + w * spec_bpp ct)"
      unfolding assms(5) using assms(4) by (intro length_encode_rows) auto
    have "w \<le> 1 + w * spec_bpp ct" by (simp add: spec_bpp_def)
    moreover have "1 * (1 + w * spec_bpp ct) \<le> length rows * (1 + w * spec_bpp ct)"
      using assms(3) by (intro mult_le_mono1) (cases rows, auto)
    ultimately have "w \<le> length (concat bs)" unfolding lr by (metis mult_1 order_trans)
    moreover have "length rows \<le> length (concat bs)" unfolding lr by simp
    ultimately have "unat (of_nat w :: u32) = w" "unat (of_nat (length rows) :: u32) = length rows"
      using h2(3) assms(11) by (intro unat_of_nat_small, simp)+
    then show "(of_nat w :: u32) \<noteq> 0" "(of_nat (length rows) :: u32) \<noteq> 0" using assms(2,3) by auto
  qed
  ultimately show ?thesis
    unfolding s(1) h2(1) using assms(1,7) by simp
qed

definition example_heap :: kheap where
  "example_heap = Heap_Init 0x100000 0x40000 \<lparr>nodes = (\<lambda>a. \<lparr>hn_size = 0, hn_next = 0, hn_free = 0\<rparr>), head = 0\<rparr>"

lemma example_heap_room: "room 200000 example_heap"
  using Heap_Init_rel[of "0x100000" "0x40000"] unfolding room_def example_heap_def
  by (auto intro!: exI)

text \<open>Two rows of one RGB pixel, with Paeth and left filters, and a text chunk before the data.\<close>

definition example_rows :: "(nat \<times> u8 list) list" where
  "example_rows = [(4, [10, 20, 30]), (1, [200, 100, 50])]"

definition example_chunks :: "(u8 list \<times> u8 list \<times> u8 list) list" where
  "example_chunks =
     [([116, 69, 88, 116], [65, 0, 66], [1, 2, 3, 4]),
      (IDAT, [0x78, 1] @ stored [encode_rows 3 [0, 0, 0] example_rows] @ [0, 0, 0, 0], [5, 6, 7, 8])]"

theorem png_decodes_encoded_witness:
  "\<exists>h'. png_decode_rgba 200 (Some (png_file 1 2 (8, 2, 0) [0, 0, 0, 0] example_chunks []))
      (of_nat (length (png_file 1 2 (8, 2, 0) [0, 0, 0, 0] example_chunks []))) example_heap =
    (Ret (1, 2, [10, 20, 30, 255, 200, 100, 50, 255]), h')"
proof -
  let ?file = "png_file 1 2 (8, 2, 0) [0, 0, 0, 0] example_chunks []"
  have len: "length ?file = 91"
    by (simp add: png_file_def chunk_def example_chunks_def png_sig_def IHDR_def IEND_def IDAT_def
        example_rows_def stored_block_def)
  have rows: "\<forall>(ft, row) \<in> set example_rows. ft \<le> 4 \<and> length row = 1 * spec_bpp 2"
    by (simp add: example_rows_def spec_bpp_def)
  have bs: "concat [encode_rows 3 [0, 0, 0] example_rows] =
    encode_rows (spec_bpp 2) (replicate (1 * spec_bpp 2) 0) example_rows"
    by (simp add: spec_bpp_def numeral_3_eq_3)
  have "\<forall>b \<in> set [encode_rows 3 [0, 0, 0] example_rows]. length b \<le> 65535"
    by (simp add: example_rows_def)
  moreover have "idat_of example_chunks = [0x78, 1] @ stored [encode_rows 3 [0, 0, 0] example_rows] @ [0, 0, 0, 0]"
    by (simp add: idat_of_def example_chunks_def IDAT_def)
  moreover have "\<forall>c \<in> set example_chunks. chunk_ok c \<and> fst c \<noteq> IHDR \<and> fst c \<noteq> IEND"
    by (simp add: example_chunks_def chunk_ok_def IHDR_def IEND_def IDAT_def)
  moreover have "?file = png_file (of_nat 1) (of_nat (length example_rows)) (8, 2, 0) [0, 0, 0, 0] example_chunks []"
    by (simp add: example_rows_def)
  moreover have "length ?file \<le> 2 ^ 30" "length ?file \<le> 200" unfolding len by simp_all
  moreover have "room (16 * length ?file + 32768) example_heap"
    unfolding len using example_heap_room by (rule room_mono) simp
  ultimately have "\<exists>h'. png_decode_rgba 200 (Some ?file) (of_nat (length ?file)) example_heap =
    (Ret (of_nat 1, of_nat (length example_rows), concat (map (\<lambda>(ft, row). rgba 2 row) example_rows)), h')"
    using png_decodes_encoded[of 2 1 example_rows, OF _ _ _ rows bs] by (simp add: example_rows_def)
  then show ?thesis by (simp add: example_rows_def rgba_def)
qed

section \<open>What is rejected\<close>

theorem png_rejects_unsupported:
  assumes "\<forall>c \<in> set cs. chunk_ok c \<and> fst c \<noteq> IHDR \<and> fst c \<noteq> IEND" "length crc = 4"
    and "file = png_file w ht (bd, ct, il) crc cs rest"
    and "length file \<le> 2 ^ 30" "length file \<le> fuel" "room (16 * length file + 32768) h"
    and "w = 0 \<or> ht = 0 \<or> bd \<noteq> 8 \<or> ct \<notin> {2, 6} \<or> il \<noteq> 0 \<or>
         idat_of cs = c1 # c2 # b # z \<and> bit b 1 \<or> idat_of cs = c1 # c2 # b # z \<and> bit b 2"
  shows "\<exists>h'. png_decode_rgba fuel (Some file) (of_nat (length file)) h = (Stop, h')"
proof -
  obtain s h1 where s: "png_decode_rgba fuel (Some file) (of_nat (length file)) h =
     (if w = 0 \<or> ht = 0 \<or> bd \<noteq> 8 \<or> \<not> (ct = 2 \<or> ct = 6) \<or> il \<noteq> 0 \<or> idat_of cs = [] then (Stop, h1)
      else seq (zlib_inflate_uncompressed (idat_of cs) (of_nat (length (idat_of cs))) h1)
                  (\<lambda>(raw, raw_len) h. png_pixels s raw raw_len h))" "length (idat_of cs) \<le> length file"
    by (rule png_file_collected[OF assms(1-6)])
  show ?thesis
  proof (cases "w = 0 \<or> ht = 0 \<or> bd \<noteq> 8 \<or> \<not> (ct = 2 \<or> ct = 6) \<or> il \<noteq> 0")
    case True
    then show ?thesis using s(1) by auto
  next
    case False
    then have z: "idat_of cs = c1 # c2 # b # z" "bit b 1 \<or> bit b 2" using assms(7) by auto
    let ?z = "idat_of cs"
    have u: "unat (of_nat (length ?z) :: u32) = length ?z"
      using s(2) assms(4) by (intro unat_of_nat_small) simp
    have len: "3 \<le> length ?z" using z(1) by simp
    have "2 < (of_nat (length ?z) :: u32)" using u len by (simp add: word_less_nat_alt)
    moreover have nz: "drop_bit 1 (ucast b :: u32) AND 3 \<noteq> 0"
    proof -
      have e: "(3 :: u32) = mask 2" by (simp add: mask_eq_exp_minus_1)
      have "bit (drop_bit 1 (ucast b :: u32) AND 3) 0 \<or> bit (drop_bit 1 (ucast b :: u32) AND 3) 1"
        using z(2) unfolding e by (auto simp: bit_simps numeral_2_eq_2)
      then show ?thesis by auto
    qed
    ultimately have "zlib_inflate_uncompressed ?z (of_nat (length ?z)) h1 = (Stop, h1)"
      using z(1) by (auto simp: zlib_inflate_uncompressed_def Let_def tinf_bits_1 tinf_bits_2 not_less[symmetric]
          split: prod.splits)
    then show ?thesis using s(1) by auto
  qed
qed

theorem png_rejects_unsupported_witness:
  "\<exists>h'. png_decode_rgba 200 (Some (png_file 1 2 (16, 2, 0) [0, 0, 0, 0] example_chunks []))
      (of_nat (length (png_file 1 2 (16, 2, 0) [0, 0, 0, 0] example_chunks []))) example_heap = (Stop, h')"
proof -
  let ?file = "png_file 1 2 (16, 2, 0) [0, 0, 0, 0] example_chunks []"
  have len: "length ?file = 91"
    by (simp add: png_file_def chunk_def example_chunks_def png_sig_def IHDR_def IEND_def IDAT_def
        example_rows_def stored_block_def)
  have "\<forall>c \<in> set example_chunks. chunk_ok c \<and> fst c \<noteq> IHDR \<and> fst c \<noteq> IEND"
    by (simp add: example_chunks_def chunk_ok_def IHDR_def IEND_def IDAT_def)
  moreover have "room (16 * length ?file + 32768) example_heap"
    unfolding len using example_heap_room by (rule room_mono) simp
  ultimately show ?thesis
    using png_rejects_unsupported[of example_chunks "[0, 0, 0, 0]" ?file 1 2 16 2 0 "[]" 200 example_heap] len
    by simp
qed

section \<open>What the 32-bit sums let through\<close>

text \<open>
  A chunk length of \<open>0xFFFFFFF4\<close> passes the test \<open>pos + clen + 4 > size\<close>, because the sum
  wraps to 8, and sends the walk back to the chunk it came from.
\<close>

lemma png_chunks_stuck:
  assumes "data = png_sig @ be32 0xFFFFFFF4 @ ty @ rest" "length ty = 4" "ty \<notin> {IHDR, IDAT, IEND}"
    and "length data < 2 ^ 32"
  shows "png_chunks k data (of_nat (length data)) 8 s h = (Timeout, h)"
proof (induction k)
  case (Suc k)
  have lsig: "length png_sig = 8" by (simp add: png_sig_def)
  have len: "16 \<le> length data" using assms(1,2) lsig by simp
  have u: "unat (of_nat (length data) :: u32) = length data"
    using assms(4) by (intro unat_of_nat_small) simp
  have sz: "(16 :: u32) \<le> of_nat (length data)" "(8 :: u32) \<le> of_nat (length data)"
    using u len by (simp_all add: word_le_nat_alt)
  have "rd_be32 data (length png_sig + 0) = 0xFFFFFFF4"
    unfolding assms(1) rd_be32_append rd_be32_here ..
  then have clen: "rd_be32 data 8 = 0xFFFFFFF4" unfolding lsig by simp
  have "take 4 (drop 12 data) = ty"
    using assms(2) by (simp add: assms(1) png_sig_def be32_def)
  moreover have w8: "(4294967304 :: u32) = 8" by (simp add: word_uint_eq_iff)
  ultimately show ?case
    using sz clen len Suc assms(3) by (simp add: Let_def not_less[symmetric] w8)
qed simp

text \<open>
  C27. A chunk of length 0xFFFFFFF4 passes the size test because pos + clen + 4 wraps, and the
  position then stays where it is: no amount of fuel lets png_decode_rgba return.
\<close>

theorem png_bad_length_never_returns:
  assumes "data = png_sig @ be32 0xFFFFFFF4 @ ty @ rest" "length ty = 4" "ty \<notin> {IHDR, IDAT, IEND}"
    and "length data < 2 ^ 32"
  shows "png_decode_rgba fuel (Some data) (of_nat (length data)) h = (Timeout, h)"
proof -
  have lsig: "length png_sig = 8" by (simp add: png_sig_def)
  have l8: "\<not> length data < 8" using assms(1) lsig by simp
  have u: "unat (of_nat (length data) :: u32) = length data"
    using assms(4) by (intro unat_of_nat_small) simp
  have sz: "\<not> of_nat (length data) < (8 :: u32)" using u l8 by (simp add: word_less_nat_alt)
  have sig: "mem_eq8 data png_sig 8" using lsig by (simp add: mem_eq8_def assms(1) nth_append)
  show ?thesis
    unfolding png_decode_rgba_def option.case if_not_P[OF sz] if_not_P[OF l8] png_chunks_stuck[OF assms]
    using sig by simp
qed

theorem png_bad_length_never_returns_witness:
  "png_decode_rgba 1000 (Some (png_sig @ be32 0xFFFFFFF4 @ [116, 69, 88, 116]))
     (of_nat (length (png_sig @ be32 0xFFFFFFF4 @ [116, 69, 88, 116]))) example_heap = (Timeout, example_heap)"
  using png_bad_length_never_returns[OF refl, of "[116, 69, 88, 116]" "[]" 1000 example_heap]
  by (simp add: IHDR_def IDAT_def IEND_def png_sig_def)

text \<open>
  A 2^30 pixels wide image makes w * bpp and w * h * 4 wrap to 0: the image passes every test, and the
  decoder leaves its buffers, of which none has a byte. The first such access is the read of the row.
\<close>

theorem png_huge_width_overruns:
  assumes "\<forall>c \<in> set cs. chunk_ok c \<and> fst c \<noteq> IHDR \<and> fst c \<noteq> IEND" "length crc = 4"
    and "file = png_file 0x40000000 1 (8, 6, 0) crc cs rest"
    and "length file \<le> 2 ^ 30" "length file \<le> fuel" "room (16 * length file + 32768) h"
    and "idat_of cs = [c1, c2] @ stored [[ft]] @ adler"
  shows "\<exists>h'. png_decode_rgba fuel (Some file) (of_nat (length file)) h = (Fault, h')"
proof -
  let ?N = "length file"
  obtain s h1 where s: "png_decode_rgba fuel (Some file) (of_nat ?N) h =
     (if (0x40000000 :: u32) = 0 \<or> (1 :: u32) = 0 \<or> (8 :: u8) \<noteq> 8 \<or> \<not> ((6 :: u8) = 2 \<or> (6 :: u8) = 6) \<or>
         (0 :: u8) \<noteq> 0 \<or> idat_of cs = [] then (Stop, h1)
      else seq (zlib_inflate_uncompressed (idat_of cs) (of_nat (length (idat_of cs))) h1)
                  (\<lambda>(raw, raw_len) h. png_pixels s raw raw_len h))"
    "pn_w s = 0x40000000" "pn_h s = 1" "pn_color_type s = 6"
    "room (10 * ?N + 16384) h1" "length (idat_of cs) \<le> ?N"
    by (rule png_file_collected[OF assms(1-6)])
  obtain h2 where h2: "zlib_inflate_uncompressed (idat_of cs) (of_nat (length (idat_of cs))) h1 =
    (Ret ([ft], 1), h2)" "room (4 * ?N + 192) h2"
    using png_file_inflated[OF s(5) _ _ assms(7) s(6) assms(4)] by auto
  have "unat (0 :: u32) + 64 \<le> 4 * ?N + 192" by simp
  then obtain h3 where h3: "png_alloc 0 h2 = (Ret True, h3)" "room (4 * ?N + 192 - unat (0 :: u32) - 64) h3"
    using png_alloc_room[OF h2(2)] by blast
  then have r3: "room (4 * ?N + 128) h3" by (simp add: add.commute)
  have "unat (0 :: u32) + 64 \<le> 4 * ?N + 128" by simp
  then obtain h4 where h4: "png_alloc 0 h3 = (Ret True, h4)" "room (4 * ?N + 128 - unat (0 :: u32) - 64) h4"
    using png_alloc_room[OF r3] by blast
  then have r4: "room (4 * ?N + 64) h4" by (simp add: add.commute)
  have "unat (0 :: u32) + 64 \<le> 4 * ?N + 64" by simp
  then obtain h5 where h5: "png_alloc 0 h4 = (Ret True, h5)"
    using png_alloc_room[OF r4] by blast
  have row: "pixel_row (unat (0x40000000 :: u32)) 0 w y 4 cur [] = None" for w y cur
  proof -
    have "unat (0x40000000 :: u32) = Suc 0x3FFFFFFF" by simp
    then show ?thesis by (simp only: pixel_row.simps) (simp add: Let_def)
  qed
  have "png_pixels s [ft] 1 h2 = (Fault, h5)"
  proof -
    have m: "(0x40000000 * 4 :: u32) = 0" "(0x40000000 * 1 * 4 :: u32) = 0"
      by (simp_all add: word_uint_eq_iff)
    have p: "pixel_rows (unat (1 :: u32)) 0 0x40000000 4 0 [ft] [] [] [] = None"
      using row by (simp add: Let_def unfilter_scanline_def)
    show ?thesis
      unfolding png_pixels_def s(2-4) Let_def if_P[OF refl] m using h3(1) h4(1) h5 p by simp
  qed
  then show ?thesis
    unfolding s(1) h2(1) using assms(7) by simp
qed

theorem png_huge_width_overruns_witness:
  "\<exists>h'. png_decode_rgba 200
      (Some (png_file 0x40000000 1 (8, 6, 0) [0, 0, 0, 0] [(IDAT, [0x78, 1] @ stored [[0]] @ [], [0, 0, 0, 0])] []))
      (of_nat (length (png_file 0x40000000 1 (8, 6, 0) [0, 0, 0, 0] [(IDAT, [0x78, 1] @ stored [[0]] @ [], [0, 0, 0, 0])] [])))
      example_heap = (Fault, h')"
proof -
  let ?cs = "[(IDAT, [0x78, 1] @ stored [[0 :: u8]] @ [], [0 :: u8, 0, 0, 0])]"
  let ?file = "png_file 0x40000000 1 (8, 6, 0) [0, 0, 0, 0] ?cs []"
  have len: "length ?file = 65"
    by (simp add: png_file_def chunk_def png_sig_def IHDR_def IEND_def IDAT_def stored_block_def)
  have "\<forall>c \<in> set ?cs. chunk_ok c \<and> fst c \<noteq> IHDR \<and> fst c \<noteq> IEND"
    by (simp add: chunk_ok_def IHDR_def IEND_def IDAT_def)
  moreover have "idat_of ?cs = [0x78, 1] @ stored [[0]] @ []" by (simp add: idat_of_def)
  moreover have "room (16 * length ?file + 32768) example_heap"
    unfolding len using example_heap_room by (rule room_mono) simp
  ultimately show ?thesis
    using len by (intro png_huge_width_overruns[where adler = "[]" and ft = 0]) simp_all
qed

section \<open>Termination and memory safety on any input\<close>

text \<open>The positions the chunk walk visits, and files whose length fields do not wrap there.\<close>

inductive chunk_pos :: "u8 list \<Rightarrow> nat \<Rightarrow> bool" for data where
  chunk_pos_first: "chunk_pos data 8"
| chunk_pos_next: "chunk_pos data p \<Longrightarrow> p + 8 \<le> length data \<Longrightarrow> chunk_pos data (p + 12 + unat (rd_be32 data p))"

definition sane_lengths :: "u8 list \<Rightarrow> bool" where
  "sane_lengths data \<longleftrightarrow>
     (\<forall>p. chunk_pos data p \<longrightarrow> p + 8 \<le> length data \<longrightarrow> p + 12 + unat (rd_be32 data p) < 2 ^ 32)"

definition wf_heap :: "kheap \<Rightarrow> bool" where
  "wf_heap h \<longleftrightarrow> (\<exists>lo hi bs. heap_rel lo hi h bs)"

lemma png_alloc_wf:
  assumes "wf_heap h"
  obtains b h' where "png_alloc n h = (Ret b, h')" "wf_heap h'"
proof -
  obtain lo hi bs where hr: "heap_rel lo hi h bs" using assms by (auto simp: wf_heap_def)
  obtain r bs' where ff: "first_fit (ucast n) bs = (r, bs')" by (cases "first_fit (ucast n) bs")
  obtain h' where "kmalloc (ucast n) h = Some (r, h')" "heap_rel lo hi h' bs'"
    using kmalloc_refines[OF hr ff] by auto
  then show thesis using that[of "r \<noteq> 0" h'] by (auto simp: png_alloc_def wf_heap_def)
qed

lemma grow_wf:
  assumes "wf_heap h" "unat need \<le> 2 ^ 31"
  obtains h' where "wf_heap h'" "grow need cap h = (Stop, h')"
  | cap' h' where "wf_heap h'" "grow need cap h = (Ret cap', h')" "unat need \<le> unat cap'"
    "cap' = 0 \<Longrightarrow> cap = 0"
proof (cases "cap < need")
  case False
  then show thesis using that(2)[of h cap] assms by (simp add: grow_def word_less_nat_alt)
next
  case True
  let ?c = "if cap \<noteq> 0 then cap else 4096"
  have "1 \<le> unat ?c" by (auto simp: Suc_le_eq unat_gt_0)
  then have "1 * 2 ^ 32 \<le> unat ?c * 2 ^ 32" by (intro mult_le_mono1)
  then have "unat need \<le> unat ?c * 2 ^ 32" using assms(2) by simp
  from double_cap_reaches[OF assms(2) this] obtain c' where
    c': "double_cap 32 need ?c = Some c'" "unat need \<le> unat c'" by auto
  have "0 < unat need" using True by (auto simp: word_less_nat_alt)
  then have nz: "c' \<noteq> 0" using c'(2) by (metis not_less unat_0 le_0_eq)
  obtain b h' where a: "png_alloc c' h = (Ret b, h')" "wf_heap h'" using png_alloc_wf[OF assms(1)] .
  show thesis
  proof (cases b)
    case True
    then show thesis using that(2)[of h' c'] a c' nz \<open>cap < need\<close> by (simp add: grow_def)
  next
    case False
    then show thesis using that(1)[of h'] a c' \<open>cap < need\<close> by (simp add: grow_def)
  qed
qed

lemma png_idat_wf:
  assumes "wf_heap h" "holds_idat s buf" "length buf + unat clen \<le> 2 ^ 31"
    and "unat pos + unat clen \<le> length data"
  obtains h' where "wf_heap h'" "png_idat data pos clen s h = (Stop, h')"
  | s' buf' h' where "wf_heap h'" "png_idat data pos clen s h = (Ret s', h')" "holds_idat s' buf'"
    "length buf' \<le> length buf + unat clen"
proof -
  have "unat (pn_idat_len s) = length buf"
    using assms(2,3) by (auto simp: holds_idat_def intro!: unat_of_nat_small)
  then have need: "unat (pn_idat_len s + clen) = length buf + unat clen"
    using assms(3) by (subst unat_add_small) auto
  have buf: "(case pn_idat s of None \<Rightarrow> [] | Some b \<Rightarrow> b) = buf" using assms(2) by (auto simp: holds_idat_def)
  show thesis
  proof (rule grow_wf[OF assms(1), of "pn_idat_len s + clen" "pn_idat_cap s"])
    show "unat (pn_idat_len s + clen) \<le> 2 ^ 31" using need assms(3) by simp
  next
    fix h' assume "wf_heap h'" "grow (pn_idat_len s + clen) (pn_idat_cap s) h = (Stop, h')"
    then show thesis using that(1)[of h'] by (simp add: png_idat_def)
  next
    fix cap' h' assume g: "wf_heap h'" "grow (pn_idat_len s + clen) (pn_idat_cap s) h = (Ret cap', h')"
      "unat (pn_idat_len s + clen) \<le> unat cap'" "cap' = 0 \<Longrightarrow> pn_idat_cap s = 0"
    show thesis
    proof (cases "cap' = 0")
      case True
      then show thesis using that(2)[of h' s buf] g assms(2) by (simp add: png_idat_def)
    next
      case False
      have "copy_into buf cap' data pos clen = Some (buf @ take (unat clen) (drop (unat pos) data))"
        using assms(4) g(3) need by (intro copy_into_small) auto
      moreover have "length (take (unat clen) (drop (unat pos) data)) = unat clen" using assms(4) by simp
      ultimately show thesis
        using that(2)[of h' "s\<lparr>pn_idat := Some (buf @ take (unat clen) (drop (unat pos) data)),
            pn_idat_len := pn_idat_len s + clen, pn_idat_cap := cap'\<rparr>" "buf @ take (unat clen) (drop (unat pos) data)"]
          g False buf assms(2) by (simp add: png_idat_def holds_idat_def)
    qed
  qed
qed

lemma png_ihdr_wf:
  assumes "unat pos + unat clen \<le> length data"
  shows "png_ihdr data pos clen s = Stop \<or>
    (\<exists>s'. png_ihdr data pos clen s = Ret s' \<and> (holds_idat s buf \<longrightarrow> holds_idat s' buf))"
  using assms by (auto simp: png_ihdr_def holds_idat_def word_less_nat_alt)

lemma png_chunks_terminates:
  assumes "length data \<le> 2 ^ 31" "sane_lengths data" "chunk_pos data p" "length data < p + k" "0 < k"
    and "p \<le> max 8 (length data)" "wf_heap h" "holds_idat s buf" "length buf \<le> p"
  shows "\<exists>h'. wf_heap h' \<and>
    (png_chunks k data (of_nat (length data)) (of_nat p) s h = (Stop, h') \<or>
     (\<exists>s' buf'. png_chunks k data (of_nat (length data)) (of_nat p) s h = (Ret s', h') \<and> holds_idat s' buf' \<and>
        length buf' \<le> max 8 (length data)))"
  using assms(3-)
proof (induction k arbitrary: p s buf h)
  case (Suc k)
  let ?n = "length data"
  let ?sz = "of_nat ?n :: u32"
  let ?c = "rd_be32 data p"
  have small: "unat (of_nat m :: u32) = m" if "m < 2 ^ 32" for m
    using that by (intro unat_of_nat_small) simp
  have un: "unat ?sz = ?n" using assms(1) by (intro small) simp
  have up: "unat (of_nat p :: u32) = p" "unat (of_nat (p + 4) :: u32) = p + 4" "unat (of_nat (p + 8) :: u32) = p + 8"
    using Suc.prems(4) assms(1) by (intro small, simp)+
  have a: "(of_nat p + 4 :: u32) = of_nat (p + 4)" "(of_nat (p + 4) + 4 :: u32) = of_nat (p + 8)"
    "(of_nat p + 8 :: u32) = of_nat (p + 8)" by simp_all
  have le: "(of_nat (p + 8) :: u32) \<le> ?sz \<longleftrightarrow> p + 8 \<le> ?n"
    unfolding word_le_nat_alt up un ..
  show ?case
  proof (cases "p + 8 \<le> ?n")
    case False
    then have "png_chunks (Suc k) data ?sz (of_nat p) s h = (Ret s, h)"
      unfolding png_chunks.simps a le by simp
    moreover have "length buf \<le> max 8 ?n" using Suc.prems(4,7) by simp
    ultimately show ?thesis using Suc.prems(5,6) by blast
  next
    case True
    have sane: "p + 12 + unat ?c < 2 ^ 32" using assms(2) Suc.prems(1) True by (auto simp: sane_lengths_def)
    have nx: "of_nat (p + 8) + ?c + 4 = (of_nat (p + 12 + unat ?c) :: u32)"
      by (simp add: algebra_simps)
    have unx: "unat (of_nat (p + 12 + unat ?c) :: u32) = p + 12 + unat ?c" using sane by (intro small) simp
    show ?thesis
    proof (cases "?n < p + 12 + unat ?c")
      case over: True
      have "png_chunks (Suc k) data ?sz (of_nat p) s h = (Stop, h)"
        unfolding png_chunks.simps Let_def a up nx word_less_nat_alt word_le_nat_alt un unx
        using True over by simp
      then show ?thesis using Suc.prems(5) by blast
    next
      case fits: False
      let ?p = "p + 12 + unat ?c"
      have step: "png_chunks (Suc k) data ?sz (of_nat p) s h =
        (let ctype = take 4 (drop (p + 4) data) in
         if ctype = IHDR then
              (case png_ihdr data (of_nat (p + 8)) ?c s of
                 Ret s \<Rightarrow> png_chunks k data ?sz (of_nat ?p) s h
               | Stop \<Rightarrow> (Stop, h) | Fault \<Rightarrow> (Fault, h) | Timeout \<Rightarrow> (Timeout, h))
            else if ctype = IDAT then
              seq (png_idat data (of_nat (p + 8)) ?c s h) (\<lambda>s h. png_chunks k data ?sz (of_nat ?p) s h)
            else if ctype = IEND then (Ret s, h)
            else png_chunks k data ?sz (of_nat ?p) s h)"
        unfolding png_chunks.simps Let_def a up nx word_less_nat_alt word_le_nat_alt un unx
        using True fits by simp
      have rest: "\<exists>h''. wf_heap h'' \<and>
        (png_chunks k data ?sz (of_nat ?p) s' h' = (Stop, h'') \<or>
         (\<exists>s'' buf''. png_chunks k data ?sz (of_nat ?p) s' h' = (Ret s'', h'') \<and> holds_idat s'' buf'' \<and>
            length buf'' \<le> max 8 ?n))"
        if "wf_heap h'" "holds_idat s' buf'" "length buf' \<le> length buf + unat ?c" for s' h' buf'
        using Suc.prems True fits that
        by (intro Suc.IH[of ?p h' s' buf']) (auto intro: chunk_pos_next)
      have slice: "unat (of_nat (p + 8) :: u32) + unat ?c \<le> ?n" unfolding up using fits by simp
      show ?thesis
      proof (cases "take 4 (drop (p + 4) data) = IDAT")
        case True
        have ne: "IDAT \<noteq> IHDR" by (simp add: IDAT_def IHDR_def)
        have "length buf + unat ?c \<le> 2 ^ 31" using Suc.prems(7) fits assms(1) by simp
        from png_idat_wf[OF Suc.prems(5,6) this slice]
        show ?thesis
        proof cases
          case (1 h')
          then show ?thesis unfolding step Let_def True using ne by auto
        next
          case (2 s' buf' h')
          show ?thesis unfolding step Let_def True using ne rest[OF 2(1,3,4)] 2(2) by simp
        qed
      next
        case False
        have keep: "\<exists>h'. wf_heap h' \<and>
          (png_chunks k data ?sz (of_nat ?p) s' h = (Stop, h') \<or>
           (\<exists>s'' buf''. png_chunks k data ?sz (of_nat ?p) s' h = (Ret s'', h') \<and> holds_idat s'' buf'' \<and>
              length buf'' \<le> max 8 ?n))" if "holds_idat s' buf" for s'
          using rest[OF Suc.prems(5) that] by simp
        from png_ihdr_wf[OF slice, of s buf] show ?thesis
          unfolding step Let_def using False keep Suc.prems(4-7) by auto
      qed
    qed
  qed
qed simp

lemma tinf_bits_any:
  assumes "ti_bitbuf d = 0" "ti_bitcount d = 0"
  obtains v1 v2 d1 d2 where "tinf_get_bits 1 d = (v1, d1)" "tinf_get_bits 2 d1 = (v2, d2)"
    "tinf_align_byte d2 =
       d\<lparr>ti_src_pos := if ti_src_pos d < ti_src_len d then ti_src_pos d + 1 else ti_src_pos d\<rparr>"
proof -
  obtain v d1 where d1: "tinf_get_bits 1 d = (v, d1)" by (cases "tinf_get_bits 1 d")
  have c: "ti_bitcount d1 = 7"
    "d1\<lparr>ti_bitbuf := 0, ti_bitcount := 0\<rparr> =
     d\<lparr>ti_src_pos := if ti_src_pos d < ti_src_len d then ti_src_pos d + 1 else ti_src_pos d\<rparr>"
    using d1 assms by (auto simp: tinf_get_bits_def Let_def)
  have "tinf_align_byte (d1\<lparr>ti_bitbuf := drop_bit 2 (ti_bitbuf d1), ti_bitcount := 5\<rparr>) =
    d1\<lparr>ti_bitbuf := 0, ti_bitcount := 0\<rparr>"
    by (simp add: tinf_align_byte_def)
  then show thesis using that[OF d1 tinf_bits_2[OF c(1)]] c(2) by simp
qed

lemma inflate_loop_terminates:
  assumes "length z \<le> 2 ^ 31" "length z < p + k" "p \<le> length z" "wf_heap h" "length buf \<le> p"
  shows "\<exists>h'. wf_heap h' \<and>
    (inflate_loop k \<lparr>ti_src = z, ti_src_len = of_nat (length z), ti_src_pos = of_nat p, ti_bitbuf = 0,
       ti_bitcount = 0\<rparr> buf (of_nat (length buf)) cap h = (Stop, h') \<or>
     (\<exists>raw. inflate_loop k \<lparr>ti_src = z, ti_src_len = of_nat (length z), ti_src_pos = of_nat p, ti_bitbuf = 0,
       ti_bitcount = 0\<rparr> buf (of_nat (length buf)) cap h = (Ret (raw, of_nat (length raw)), h') \<and>
       length raw \<le> length z))"
  using assms(2-)
proof (induction k arbitrary: p buf cap h)
  case (Suc k)
  let ?d = "\<lparr>ti_src = z, ti_src_len = of_nat (length z), ti_src_pos = of_nat p, ti_bitbuf = 0, ti_bitcount = 0\<rparr>"
  let ?q = "if p < length z then p + 1 else p"
  have small: "unat (of_nat m :: u32) = m" if "m < 2 ^ 32" for m
    using that by (intro unat_of_nat_small) simp
  have un: "unat (of_nat (length z) :: u32) = length z" "unat (of_nat p :: u32) = p"
    using assms(1) Suc.prems by (intro small, simp)+
  obtain v1 v2 d1 d2 where bits: "tinf_get_bits 1 ?d = (v1, d1)" "tinf_get_bits 2 d1 = (v2, d2)"
    "tinf_align_byte d2 = ?d\<lparr>ti_src_pos := of_nat ?q\<rparr>"
  proof (rule tinf_bits_any[of ?d])
    fix v1 v2 d1 d2
    assume "tinf_get_bits 1 ?d = (v1, d1)" "tinf_get_bits 2 d1 = (v2, d2)" "tinf_align_byte d2 =
       ?d\<lparr>ti_src_pos := if ti_src_pos ?d < ti_src_len ?d then ti_src_pos ?d + 1 else ti_src_pos ?d\<rparr>"
    then show thesis using that[of v1 d1 v2 d2] un by (auto simp: word_less_nat_alt add.commute)
  qed simp_all
  have uq: "unat (of_nat ?q :: u32) = ?q" "unat (of_nat ?q + 4 :: u32) = ?q + 4"
    using small[of ?q] small[of "?q + 4"] assms(1) Suc.prems(2) by (simp_all add: add.commute)
  define len :: u32 where "len = ucast (z ! ?q) OR push_bit 8 (ucast (z ! (?q + 1)))"
  define nlen :: u32 where "nlen = ucast (z ! (?q + 2)) OR push_bit 8 (ucast (z ! (?q + 3)))"
  have llen: "unat len < 2 ^ 16"
  proof -
    have "take_bit 16 len = len"
      by (rule bit_word_eqI) (auto simp: len_def bit_simps dest: bit_imp_le_length)
    then show ?thesis by (metis take_bit_nat_less_exp unsigned_take_bit_eq)
  qed
  have upl: "unat (of_nat ?q + 4 + len :: u32) = ?q + 4 + unat len"
    using uq(2) llen assms(1) Suc.prems(2) by (subst unat_add_small) (auto split: if_splits)
  let ?run = "inflate_loop (Suc k) ?d buf (of_nat (length buf)) cap h"
  have step: "?run =
    (if v2 \<noteq> 0 \<or> length z < ?q + 4 \<or> len XOR 0xFFFF \<noteq> nlen \<or> length z < ?q + 4 + unat len then (Stop, h)
     else seq (grow (of_nat (length buf) + len) cap h) (\<lambda>cap h.
              case copy_into buf cap z (of_nat ?q + 4) len of
                None \<Rightarrow> (Fault, h)
              | Some buf' \<Rightarrow>
                  if v1 \<noteq> 0 then (Ret (buf', of_nat (length buf) + len), h)
                  else inflate_loop k (?d\<lparr>ti_src_pos := of_nat ?q + 4 + len\<rparr>) buf' (of_nat (length buf) + len) cap h))"
    unfolding inflate_loop.simps bits prod.case Let_def
    by (unfold tinf.select_convs tinf.update_convs uq upl un len_def[symmetric] nlen_def[symmetric] word_less_nat_alt) simp
  show ?case
  proof (cases "v2 \<noteq> 0 \<or> length z < ?q + 4 \<or> len XOR 0xFFFF \<noteq> nlen \<or> length z < ?q + 4 + unat len")
    case True
    then have "?run = (Stop, h)" using step by simp
    then show ?thesis using Suc.prems(3) by blast
  next
    case False
    have need: "unat (of_nat (length buf) + len :: u32) = length buf + unat len"
      using small[of "length buf"] llen assms(1) Suc.prems(2,4) by (subst unat_add_small) auto
    have need31: "unat (of_nat (length buf) + len :: u32) \<le> 2 ^ 31"
      using need False Suc.prems(4) assms(1) by (auto split: if_splits)
    from grow_wf[OF Suc.prems(3) need31, of cap] show ?thesis
    proof cases
      case (1 h')
      then have "?run = (Stop, h')" using step False by simp
      then show ?thesis using 1(1) by blast
    next
      case (2 cap' h')
      let ?b = "buf @ take (unat len) (drop (?q + 4) z)"
      have "p < length z" using False by (auto split: if_splits)
      then have lb: "length ?b = length buf + unat len" using False by (auto simp: min_def)
      have cp: "copy_into buf cap' z (of_nat ?q + 4) len = Some ?b"
        using 2(3) False unfolding need by (subst copy_into_small) (simp_all add: uq(2) del: of_nat_add)
      have w: "of_nat (length buf) + len = (of_nat (length ?b) :: u32)" unfolding lb by simp
      have pos: "of_nat ?q + 4 + len = (of_nat (?q + 4 + unat len) :: u32)" by simp
      have run: "?run = (if v1 \<noteq> 0 then (Ret (?b, of_nat (length ?b)), h')
        else inflate_loop k (?d\<lparr>ti_src_pos := of_nat (?q + 4 + unat len)\<rparr>) ?b (of_nat (length ?b)) cap' h')"
        unfolding step if_not_P[OF False] 2(2) seq.simps cp option.case unfolding w pos ..
      show ?thesis
      proof (cases "v1 = 0")
        case True
        have "\<exists>h''. wf_heap h'' \<and>
          (inflate_loop k (?d\<lparr>ti_src_pos := of_nat (?q + 4 + unat len)\<rparr>) ?b (of_nat (length ?b)) cap' h' = (Stop, h'') \<or>
           (\<exists>raw. inflate_loop k (?d\<lparr>ti_src_pos := of_nat (?q + 4 + unat len)\<rparr>) ?b (of_nat (length ?b)) cap' h' =
              (Ret (raw, of_nat (length raw)), h'') \<and> length raw \<le> length z))"
          unfolding tinf.update_convs
          using Suc.prems False lb by (intro Suc.IH 2(1)) (auto split: if_splits)
        then show ?thesis unfolding run using True by simp
      next
        case False
        moreover have "length ?b \<le> length z"
          using lb \<open>\<not> (v2 \<noteq> 0 \<or> _)\<close> Suc.prems(4) by (auto split: if_splits)
        ultimately show ?thesis unfolding run using 2(1) by auto
      qed
    qed
  qed
qed simp

lemma zlib_inflate_terminates:
  assumes "length z \<le> 2 ^ 31" "wf_heap h"
  obtains h' where "wf_heap h'" "zlib_inflate_uncompressed z (of_nat (length z)) h = (Stop, h')"
  | raw h' where "wf_heap h'" "zlib_inflate_uncompressed z (of_nat (length z)) h = (Ret (raw, of_nat (length raw)), h')"
    "length raw \<le> length z"
proof -
  have un: "unat (of_nat (length z) :: u32) = length z"
    using assms(1) by (intro unat_of_nat_small) simp
  show thesis
  proof (cases "length z < 2")
    case True
    then have "zlib_inflate_uncompressed z (of_nat (length z)) h = (Stop, h)"
      by (simp add: zlib_inflate_uncompressed_def word_less_nat_alt un)
    then show thesis using that(1) assms(2) by blast
  next
    case False
    then have "zlib_inflate_uncompressed z (of_nat (length z)) h =
      inflate_loop (length z + 1) \<lparr>ti_src = z, ti_src_len = of_nat (length z), ti_src_pos = of_nat 2, ti_bitbuf = 0,
       ti_bitcount = 0\<rparr> [] (of_nat (length ([] :: u8 list))) 0 h"
      by (simp add: zlib_inflate_uncompressed_def word_less_nat_alt un)
    then show thesis
      using inflate_loop_terminates[OF assms(1), of 2 "length z + 1" h "[]" 0] assms(2) False that by auto
  qed
qed

lemma length_unfilter_loop [simp]: "length (unfilter_loop ft bpp prev src i n dst) = length dst"
  by (induction n arbitrary: i dst) auto

lemma length_unfilter_scanline [simp]: "length (unfilter_scanline dst src len bpp prev ft) = length dst"
  by (simp add: unfilter_scanline_def)

lemma pixel_row_total:
  assumes "bpp = 3 \<or> bpp = 4" "length cur = w * bpp" "4 * (y * w + w) \<le> length px" "length px < 2 ^ 32"
  obtains px' where "pixel_row w 0 (of_nat w) (of_nat y) (of_nat bpp) cur px = Some px'" "length px' = length px"
proof -
  have "pixel_row w (of_nat 0) (of_nat w) (of_nat y) (of_nat bpp) cur
      (take (4 * (y * w)) px @ drop (4 * (y * w)) px) =
    Some (take (4 * (y * w)) px @ concat (map (pixel_at bpp cur) [0..<w]) @ drop (4 * w) (drop (4 * (y * w)) px))"
    using assms by (intro pixel_row_eq) auto
  moreover have "length (concat (map (pixel_at bpp cur) [0..<w])) = 4 * w"
    by (induction w) (simp_all add: pixel_at_def)
  ultimately show thesis using that assms(3) by simp
qed

lemma pixel_rows_total:
  assumes "bpp = 3 \<or> bpp = 4" "(y + n) * (1 + w * bpp) \<le> length raw" "length raw < 2 ^ 32"
    "length prev = w * bpp" "length cur = w * bpp" "4 * ((y + n) * w) \<le> length px" "length px < 2 ^ 32"
  shows "pixel_rows n (of_nat y) (of_nat w) (of_nat bpp) (of_nat (w * bpp)) raw prev cur px \<noteq> None"
  using assms(2-)
proof (induction n arbitrary: y prev cur px)
  case (Suc n)
  let ?st = "w * bpp"
  have small: "unat (of_nat m :: u32) = m" if "m \<le> length raw" for m
    using that Suc.prems(2) by (intro unat_of_nat_small) simp
  have "Suc y * (1 + ?st) \<le> (y + Suc n) * (1 + ?st)" by (intro mult_le_mono1) simp
  then have row: "y * (1 + ?st) + 1 + ?st \<le> length raw" using Suc.prems(1) by simp
  have "4 * w \<le> length px" using Suc.prems(5) by (simp add: algebra_simps)
  then have uw: "unat (of_nat w :: u32) = w" using Suc.prems(6) by (intro unat_of_nat_small) simp
  have e: "(of_nat y * (1 + of_nat ?st) :: u32) = of_nat (y * (1 + ?st))"
    "(of_nat (y * (1 + ?st)) + 1 :: u32) = of_nat (y * (1 + ?st) + 1)" "of_nat y + 1 = (of_nat (Suc y) :: u32)"
    by (simp_all add: distrib_left)
  have u: "unat (of_nat ?st :: u32) = ?st" "unat (of_nat (y * (1 + ?st)) :: u32) = y * (1 + ?st)"
    "unat (of_nat (y * (1 + ?st) + 1) :: u32) = y * (1 + ?st) + 1"
    using row by (intro small, simp)+
  let ?cur = "unfilter_scanline cur (drop (y * (1 + ?st) + 1) raw) (of_nat ?st) (of_nat bpp) (Some prev)
    (raw ! (y * (1 + ?st)))"
  obtain px' where px': "pixel_row w 0 (of_nat w) (of_nat y) (of_nat bpp) ?cur px = Some px'" "length px' = length px"
    using pixel_row_total[OF assms(1), of ?cur w y px] Suc.prems by (auto simp: algebra_simps)
  have "pixel_rows n (of_nat (Suc y)) (of_nat w) (of_nat bpp) (of_nat ?st) raw ?cur prev px' \<noteq> None"
    using Suc.prems px'(2) by (intro Suc.IH) auto
  moreover have "\<not> (length raw \<le> y * (1 + ?st) \<or> length raw < y * (1 + ?st) + 1 + ?st)" using row by simp
  ultimately show ?case
    unfolding pixel_rows.simps Let_def e u uw using px'(1) by (simp del: of_nat_mult of_nat_add of_nat_Suc)
qed simp

lemma png_pixels_returns:
  assumes "wf_heap h"
  shows "fst (png_pixels s raw len h) \<noteq> Timeout"
proof -
  let ?b = "if pn_color_type s = 6 then 4 else 3 :: u32"
  obtain b1 h1 where h1: "png_alloc (pn_w s * pn_h s * 4) h = (Ret b1, h1)" "wf_heap h1"
    using png_alloc_wf[OF assms] .
  obtain b2 h2 where h2: "png_alloc (pn_w s * ?b) h1 = (Ret b2, h2)" "wf_heap h2"
    using png_alloc_wf[OF h1(2)] .
  obtain b3 h3 where h3: "png_alloc (pn_w s * ?b) h2 = (Ret b3, h3)"
    using png_alloc_wf[OF h2(2)] .
  show ?thesis
    unfolding png_pixels_def Let_def h1(1) seq.simps h2(1) h3 by (simp split: option.split)
qed

lemma png_pixels_total:
  assumes "wf_heap h" "pn_w s \<noteq> 0" "pn_h s \<noteq> 0" "length raw < 2 ^ 32"
    and "unat (pn_h s) * (1 + 4 * unat (pn_w s)) < 2 ^ 32"
  shows "fst (png_pixels s raw (of_nat (length raw)) h) \<noteq> Fault"
proof -
  define bpp where "bpp = (if pn_color_type s = 6 then 4 else 3 :: nat)"
  define w where "w = unat (pn_w s)"
  define ht where "ht = unat (pn_h s)"
  have b: "bpp = 3 \<or> bpp = 4" "(if pn_color_type s = 6 then 4 else 3 :: u32) = of_nat bpp"
    by (auto simp: bpp_def)
  have wh: "pn_w s = of_nat w" "pn_h s = of_nat ht" by (simp_all add: w_def ht_def)
  have pos: "1 \<le> ht" using assms(3) by (simp add: ht_def Suc_le_eq unat_gt_0)
  have big: "ht * (1 + 4 * w) < 2 ^ 32" using assms(5) by (simp add: w_def ht_def)
  have "w * bpp \<le> 4 * w" using b(1) by auto
  then have le: "ht * (1 + w * bpp) \<le> ht * (1 + 4 * w)" by (intro mult_le_mono2) simp
  have le1: "1 + w * bpp \<le> ht * (1 + w * bpp)" using mult_le_mono1[OF pos, of "1 + w * bpp"] by simp
  have px: "w * ht * 4 \<le> ht * (1 + 4 * w)" by (simp add: algebra_simps)
  have e: "of_nat w * of_nat bpp = (of_nat (w * bpp) :: u32)"
    "of_nat ht * (1 + of_nat (w * bpp)) = (of_nat (ht * (1 + w * bpp)) :: u32)"
    "of_nat w * of_nat ht * 4 = (of_nat (w * ht * 4) :: u32)"
    by (simp_all add: distrib_left)
  have small: "unat (of_nat m :: u32) = m" if "m < 2 ^ 32" for m
    using that by (intro unat_of_nat_small) simp
  have htb: "ht < 2 ^ 32" using unat_lt_2p[of "pn_h s"] by (simp add: ht_def)
  have u: "unat (of_nat (w * bpp) :: u32) = w * bpp" "unat (of_nat (ht * (1 + w * bpp)) :: u32) = ht * (1 + w * bpp)"
    "unat (of_nat (w * ht * 4) :: u32) = w * ht * 4" "unat (of_nat (length raw) :: u32) = length raw"
    "unat (of_nat ht :: u32) = ht"
    using big le le1 px assms(4) htb by (intro small, linarith)+
  show ?thesis
  proof (cases "length raw < ht * (1 + w * bpp)")
    case True
    then show ?thesis unfolding png_pixels_def Let_def b(2) wh e word_less_nat_alt u by simp
  next
    case False
    obtain b1 h1 where h1: "png_alloc (of_nat (w * ht * 4)) h = (Ret b1, h1)" "wf_heap h1"
      using png_alloc_wf[OF assms(1)] .
    obtain b2 h2 where h2: "png_alloc (of_nat (w * bpp)) h1 = (Ret b2, h2)" "wf_heap h2"
      using png_alloc_wf[OF h1(2)] .
    obtain b3 h3 where h3: "png_alloc (of_nat (w * bpp)) h2 = (Ret b3, h3)"
      using png_alloc_wf[OF h2(2)] .
    have "pixel_rows ht (of_nat 0) (of_nat w) (of_nat bpp) (of_nat (w * bpp)) raw (replicate (w * bpp) 0)
      (replicate (w * bpp) 0) (replicate (w * ht * 4) 0) \<noteq> None"
      using b(1) False assms(4) px big by (intro pixel_rows_total) (auto simp: mult.commute)
    then show ?thesis
      unfolding png_pixels_def Let_def b(2) wh e word_less_nat_alt u
      using False h1(1) h2(1) h3 by (auto simp del: of_nat_mult)
  qed
qed

text \<open>
  C29. On a file of at most 2 GB whose chunk lengths do not wrap, png_decode_rgba returns
  whatever the bytes are, within as many chunk iterations as the file has bytes; it leaves its
  buffers only when the header claims an image of 4 GB or more.
\<close>

theorem png_decode_terminates:
  assumes "length data \<le> 2 ^ 31" "sane_lengths data" "wf_heap h" "length data \<le> fuel"
  shows "\<exists>r h'. png_decode_rgba fuel (Some data) (of_nat (length data)) h = (r, h') \<and> r \<noteq> Timeout \<and>
    (r = Fault \<longrightarrow> (\<exists>s h1. png_chunks fuel data (of_nat (length data)) 8 png_start h = (Ret s, h1) \<and>
       2 ^ 32 \<le> unat (pn_h s) * (1 + 4 * unat (pn_w s))))"
proof -
  let ?r = "png_decode_rgba fuel (Some data) (of_nat (length data)) h"
  have un: "unat (of_nat (length data) :: u32) = length data"
    using assms(1) by (intro unat_of_nat_small) simp
  show ?thesis
  proof (cases "length data < 8")
    case True
    then have "?r = (Stop, h)" by (simp add: png_decode_rgba_def word_less_nat_alt un)
    then show ?thesis by simp
  next
    case l8: False
    have fuel: "length data < 8 + fuel" "0 < fuel" using assms(4) l8 by auto
    have st: "holds_idat png_start []" by (simp add: holds_idat_def png_start_def)
    obtain h1 where h1: "wf_heap h1"
      "png_chunks fuel data (of_nat (length data)) 8 png_start h = (Stop, h1) \<or>
       (\<exists>s buf. png_chunks fuel data (of_nat (length data)) 8 png_start h = (Ret s, h1) \<and> holds_idat s buf \<and>
          length buf \<le> max 8 (length data))"
      using png_chunks_terminates[OF assms(1,2) chunk_pos_first fuel _ assms(3) st] by auto
    have r: "?r = (if \<not> mem_eq8 data png_sig 8 then (Stop, h)
          else seq (png_chunks fuel data (of_nat (length data)) 8 png_start h) (\<lambda>s h.
              if pn_w s = 0 \<or> pn_h s = 0 then (Stop, h)
              else if pn_bit_depth s \<noteq> 8 then (Stop, h)
              else if \<not> (pn_color_type s = 2 \<or> pn_color_type s = 6) then (Stop, h)
              else if pn_interlace s \<noteq> 0 then (Stop, h)
              else if pn_idat s = None \<or> pn_idat_len s = 0 then (Stop, h)
              else
                seq (zlib_inflate_uncompressed (the (pn_idat s)) (pn_idat_len s) h)
                  (\<lambda>(raw, raw_len) h. png_pixels s raw raw_len h)))"
      using l8 by (simp add: png_decode_rgba_def word_less_nat_alt un)
    from h1(2) show ?thesis
    proof (elim disjE exE conjE)
      assume "png_chunks fuel data (of_nat (length data)) 8 png_start h = (Stop, h1)"
      then show ?thesis unfolding r by simp
    next
      fix s buf assume s: "png_chunks fuel data (of_nat (length data)) 8 png_start h = (Ret s, h1)"
        "holds_idat s buf" "length buf \<le> max 8 (length data)"
      show ?thesis
      proof (cases "mem_eq8 data png_sig 8 \<and> pn_w s \<noteq> 0 \<and> pn_h s \<noteq> 0 \<and> pn_bit_depth s = 8 \<and>
          (pn_color_type s = 2 \<or> pn_color_type s = 6) \<and> pn_interlace s = 0 \<and> pn_idat s \<noteq> None \<and> pn_idat_len s \<noteq> 0")
        case False
        then show ?thesis unfolding r s(1) seq.simps by auto
      next
        case True
        have buf: "the (pn_idat s) = buf" "pn_idat_len s = of_nat (length buf)"
          using s(2) True by (auto simp: holds_idat_def)
        have run: "?r = seq (zlib_inflate_uncompressed buf (of_nat (length buf)) h1)
                  (\<lambda>(raw, raw_len) h. png_pixels s raw raw_len h)"
          unfolding r s(1) seq.simps buf(1)[symmetric] using True buf by auto
        have "length buf \<le> 2 ^ 31" using s(3) assms(1) l8 by simp
        then show ?thesis
        proof (cases rule: zlib_inflate_terminates[OF _ h1(1), of buf, consumes 1, case_names stop ret])
          case (stop h')
          then show ?thesis unfolding run by simp
        next
          case (ret raw h')
          have "length raw < 2 ^ 32" using ret(3) \<open>length buf \<le> 2 ^ 31\<close> by simp
          then have "fst (png_pixels s raw (of_nat (length raw)) h') \<noteq> Timeout"
            "unat (pn_h s) * (1 + 4 * unat (pn_w s)) < 2 ^ 32 \<Longrightarrow> fst (png_pixels s raw (of_nat (length raw)) h') \<noteq> Fault"
            using png_pixels_returns[OF ret(1)] png_pixels_total[OF ret(1)] True by auto
          then show ?thesis
            unfolding run ret(2) using s(1) not_less
            by (cases "png_pixels s raw (of_nat (length raw)) h'") (simp, blast)
        qed
      qed
    qed
  qed
qed

definition example_short :: "u8 list" where
  "example_short = png_sig @ chunk (IEND, [], [0, 0, 0, 0])"

lemma example_short_sane: "sane_lengths example_short"
proof -
  have r: "rd_be32 example_short 8 = 0"
    by (simp add: rd_be32_def example_short_def png_sig_def chunk_def be32_def)
  have l: "length example_short = 20" by (simp add: example_short_def png_sig_def chunk_def IEND_def)
  have "p = 8 \<or> p = 20" if "chunk_pos example_short p" for p
    using that by induction (auto simp: r l)
  then show ?thesis
    using r l by (fastforce simp: sane_lengths_def)
qed

theorem png_decode_terminates_witness:
  "\<exists>r h'. png_decode_rgba 20 (Some example_short) 20 example_heap = (r, h') \<and> r \<noteq> Timeout"
proof -
  have "length example_short = 20" by (simp add: example_short_def png_sig_def chunk_def IEND_def)
  moreover have "wf_heap example_heap" using example_heap_room by (auto simp: room_def wf_heap_def)
  ultimately show ?thesis
    using png_decode_terminates[of example_short example_heap 20] example_short_sane by auto
qed

end
