(* ===== verification/Pci.thy ===== *)
theory Pci
  imports Io XhciEnum
begin

text \<open>
  PCI configuration access and enumeration, \<open>src/kernel/drivers/pci.c\<close>: configuration mechanism
  1 over the ports \<open>0xCF8\<close> and \<open>0xCFC\<close>, the scan of all functions, and the set-up of every xHCI
  controller it finds. The port hardware is the parameter \<open>io\<close>; the state is the port device and
  the USB driver's state. \<open>bridge_io\<close> is a reference host bridge for any contents of the
  configuration space, and the accesses are proved against it.
\<close>

section \<open>Configuration space\<close>

definition PCI_CONFIG_ADDRESS :: u16 where "PCI_CONFIG_ADDRESS = 0xCF8"
definition PCI_CONFIG_DATA :: u16 where "PCI_CONFIG_DATA = 0xCFC"

definition pci_address :: "u8 \<Rightarrow> u8 \<Rightarrow> u8 \<Rightarrow> u8 \<Rightarrow> u32" where
  "pci_address bus slot func off =
     push_bit 16 (ucast bus) OR push_bit 11 (ucast slot) OR push_bit 8 (ucast func) OR
     ucast (off AND 0xFC) OR 0x80000000"

definition pci_config_read_dword :: "'p port_io \<Rightarrow> u8 \<Rightarrow> u8 \<Rightarrow> u8 \<Rightarrow> u8 \<Rightarrow> 'p \<Rightarrow> u32 \<times> 'p" where
  "pci_config_read_dword io bus slot func off p =
     io_inl io PCI_CONFIG_DATA (io_outl io PCI_CONFIG_ADDRESS (pci_address bus slot func off) p)"

definition pci_config_write_dword :: "'p port_io \<Rightarrow> u8 \<Rightarrow> u8 \<Rightarrow> u8 \<Rightarrow> u8 \<Rightarrow> u32 \<Rightarrow> 'p \<Rightarrow> 'p" where
  "pci_config_write_dword io bus slot func off val p =
     io_outl io PCI_CONFIG_DATA val (io_outl io PCI_CONFIG_ADDRESS (pci_address bus slot func off) p)"

section \<open>Printing numbers\<close>

text \<open>The strings \<open>print_hex\<close> and \<open>print_dec_u32\<close> hand to \<open>serial_print\<close>.\<close>

definition hex_digit :: "u64 \<Rightarrow> u8" where
  "hex_digit v = (let c = ucast (v AND 0xF) in if c < 10 then c + 48 else c + (65 - 10))"

definition print_hex :: "u64 \<Rightarrow> u8 list" where
  "print_hex val = map (\<lambda>i. hex_digit (drop_bit (i * 4) val)) (rev [0..<8])"

fun dec_digits :: "nat \<Rightarrow> u32 \<Rightarrow> u8 list" where
  "dec_digits 0 v = []"
| "dec_digits (Suc k) v = (if v > 0 then (ucast (v mod 10) + 48) # dec_digits k (v div 10) else [])"

text \<open>\<open>dec_digits\<close> is the buffer, lowest digit first; ten rounds divide any 32-bit value down to 0.\<close>

definition print_dec_u32 :: "u32 \<Rightarrow> u8 list" where
  "print_dec_u32 v = rev (if v = 0 then [48] else dec_digits 10 v)"

section \<open>Enumeration\<close>

definition xhci_force_usb2_routing :: "'p port_io \<Rightarrow> u8 \<Rightarrow> u8 \<Rightarrow> u8 \<Rightarrow> u16 \<Rightarrow> 'p \<Rightarrow> 'p" where
  "xhci_force_usb2_routing io bus slot func vendor_id p0 =
     (let (usb2pr, p) = pci_config_read_dword io bus slot func 0xD0 p0;
          (usb3pr, p) = pci_config_read_dword io bus slot func 0xD4 p in
      if vendor_id \<noteq> 0x8086 then p
      else
        let p = (if usb2pr \<noteq> 0xFFFFFFFF then pci_config_write_dword io bus slot func 0xD0 0xFFFFFFFF p else p);
            p = (if usb3pr \<noteq> 0xFFFFFFFF then pci_config_write_dword io bus slot func 0xD4 0xFFFFFFFF p else p);
            (usb2pr, p) = pci_config_read_dword io bus slot func 0xD0 p;
            (usb3pr, p) = pci_config_read_dword io bus slot func 0xD4 p
        in p)"

definition bar_base :: "u32 \<Rightarrow> u32 \<Rightarrow> u64" where
  "bar_base bar0 bar1 =
     (let base = ucast (bar0 AND 0xFFFFFFF0) in
      if bar0 AND 6 = 4 then base OR push_bit 32 (ucast bar1) else base)"

definition pci_found_xhci ::
  "'p port_io \<Rightarrow> 'd bus \<Rightarrow> u8 \<Rightarrow> u8 \<Rightarrow> u8 \<Rightarrow> u16 \<Rightarrow> 'p \<times> 'd xhci \<Rightarrow> ('p \<times> 'd xhci) option" where
  "pci_found_xhci io b bus slot func vendor_id s =
     (let (bar0, p) = pci_config_read_dword io bus slot func 0x10 (fst s);
          (bar1, p) = pci_config_read_dword io bus slot func 0x14 p;
          mmio_base = bar_base bar0 bar1;
          (command, p) = pci_config_read_dword io bus slot func 0x04 p;
          p = pci_config_write_dword io bus slot func 0x04 (command OR 6) p;
          p = xhci_force_usb2_routing io bus slot func vendor_id p in
      case xhci_init b mmio_base (snd s) of None \<Rightarrow> None | Some x \<Rightarrow> Some (p, x))"

text \<open>The loop over the functions of one slot; leaving the list early is the code's \<open>break\<close>.\<close>

fun pci_scan_functions ::
  "'p port_io \<Rightarrow> 'd bus \<Rightarrow> u8 \<Rightarrow> u8 \<Rightarrow> u8 list \<Rightarrow> 'p \<times> 'd xhci \<Rightarrow> ('p \<times> 'd xhci) option" where
  "pci_scan_functions io b bus slot [] s = Some s"
| "pci_scan_functions io b bus slot (func # fs) (p, x) =
     (let (vendor_device, p) = pci_config_read_dword io bus slot func 0 p in
      if (ucast vendor_device :: u16) = 0xFFFF then pci_scan_functions io b bus slot fs (p, x)
      else
        let (class_info, p) = pci_config_read_dword io bus slot func 0x08 p;
            class_code = drop_bit 24 class_info AND 0xFF; subclass = drop_bit 16 class_info AND 0xFF;
            prog_if = drop_bit 8 class_info AND 0xFF in
        case (if class_code = 0x0C \<and> subclass = 0x03 \<and> prog_if = 0x30
              then pci_found_xhci io b bus slot func (ucast vendor_device) (p, x) else Some (p, x)) of
          None \<Rightarrow> None
        | Some (p, x) \<Rightarrow>
            if func = 0 then
              (let (header_type, p) = pci_config_read_dword io bus slot func 0x0C p in
               if drop_bit 16 header_type AND 0x80 = 0 then Some (p, x)
               else pci_scan_functions io b bus slot fs (p, x))
            else pci_scan_functions io b bus slot fs (p, x))"

definition all_functions :: "u8 list" where "all_functions = map of_nat [0..<8]"

text \<open>The slots in the order of the two outer loops.\<close>

definition all_slots :: "(u8 \<times> u8) list" where
  "all_slots = List.product (map of_nat [0..<256]) (map of_nat [0..<32])"

fun pci_scan_slots ::
  "'p port_io \<Rightarrow> 'd bus \<Rightarrow> (u8 \<times> u8) list \<Rightarrow> 'p \<times> 'd xhci \<Rightarrow> ('p \<times> 'd xhci) option" where
  "pci_scan_slots io b [] s = Some s"
| "pci_scan_slots io b ((bus, slot) # ss) s =
     (case pci_scan_functions io b bus slot all_functions s of
        None \<Rightarrow> None | Some s \<Rightarrow> pci_scan_slots io b ss s)"

definition pci_enumerate :: "'p port_io \<Rightarrow> 'd bus \<Rightarrow> 'p \<times> 'd xhci \<Rightarrow> ('p \<times> 'd xhci) option" where
  "pci_enumerate io b s = pci_scan_slots io b all_slots s"

section \<open>The host bridge\<close>

text \<open>
  Configuration mechanism 1 of the PCI specification: a write to \<open>0xCF8\<close> latches an address, and
  while its enable bit is set, port \<open>0xCFC\<close> gives access to the register it names. The registers
  are plain storage here, indexed by bus, device, function and register number.
\<close>

record pci_bridge =
  br_latch :: u32
  br_reg :: "nat \<Rightarrow> nat \<Rightarrow> nat \<Rightarrow> nat \<Rightarrow> u32"

definition cfg_bus :: "u32 \<Rightarrow> nat" where "cfg_bus a = unat (drop_bit 16 a AND 0xFF)"
definition cfg_slot :: "u32 \<Rightarrow> nat" where "cfg_slot a = unat (drop_bit 11 a AND 0x1F)"
definition cfg_func :: "u32 \<Rightarrow> nat" where "cfg_func a = unat (drop_bit 8 a AND 0x7)"
definition cfg_num :: "u32 \<Rightarrow> nat" where "cfg_num a = unat (drop_bit 2 a AND 0x3F)"

definition bridge_inl :: "u16 \<Rightarrow> pci_bridge \<Rightarrow> u32 \<times> pci_bridge" where
  "bridge_inl port d =
     (if port = 0xCFC \<and> bit (br_latch d) 31
      then (br_reg d (cfg_bus (br_latch d)) (cfg_slot (br_latch d)) (cfg_func (br_latch d)) (cfg_num (br_latch d)), d)
      else (0xFFFFFFFF, d))"

definition set_reg :: "nat \<Rightarrow> nat \<Rightarrow> nat \<Rightarrow> nat \<Rightarrow> u32 \<Rightarrow> pci_bridge \<Rightarrow> pci_bridge" where
  "set_reg b s f r v d = d\<lparr>br_reg := (br_reg d)(b := (br_reg d b)(s := (br_reg d b s)(f := (br_reg d b s f)(r := v))))\<rparr>"

definition bridge_outl :: "u16 \<Rightarrow> u32 \<Rightarrow> pci_bridge \<Rightarrow> pci_bridge" where
  "bridge_outl port v d =
     (if port = 0xCF8 then d\<lparr>br_latch := v\<rparr>
      else if port = 0xCFC \<and> bit (br_latch d) 31
      then set_reg (cfg_bus (br_latch d)) (cfg_slot (br_latch d)) (cfg_func (br_latch d)) (cfg_num (br_latch d)) v d
      else d)"

definition bridge_io :: "pci_bridge port_io" where
  "bridge_io = \<lparr>io_inb = (\<lambda>_ d. (0xFF, d)), io_outb = (\<lambda>_ _ d. d), io_inw = (\<lambda>_ d. (0xFFFF, d)),
     io_outw = (\<lambda>_ _ d. d), io_inl = bridge_inl, io_outl = bridge_outl\<rparr>"

lemma bit_field:
  fixes a :: u32 and w :: u8
  assumes "\<And>k. k < n \<Longrightarrow> bit a (m + k) = bit w k" "\<And>k. n \<le> k \<Longrightarrow> \<not> bit w k" "m + n \<le> 32"
  shows "unat (drop_bit m a AND mask n) = unat w"
proof -
  have "drop_bit m a AND mask n = ucast w"
  proof (rule bit_word_eqI)
    fix k assume "k < LENGTH(32)"
    then show "bit (drop_bit m a AND mask n) k = bit (ucast w :: u32) k"
      using assms by (cases "k < n") (auto simp: bit_simps)
  qed
  then show ?thesis by (simp add: unat_ucast_up)
qed

lemma pci_address_fields:
  assumes "unat slot < 32" "unat func < 8"
  shows "cfg_bus (pci_address bus slot func off) = unat bus"
    "cfg_slot (pci_address bus slot func off) = unat slot"
    "cfg_func (pci_address bus slot func off) = unat func"
    "cfg_num (pci_address bus slot func off) = unat off div 4"
    "bit (pci_address bus slot func off) 31"
proof -
  have hi: "\<not> bit w n" if "unat w < 2 ^ k" "k \<le> n" for w :: u8 and n k
  proof -
    have "take_bit k w = w" using that(1) by (simp add: word_unat_eq_iff unsigned_take_bit_eq take_bit_nat_eq_self)
    then show ?thesis using that(2) by (metis bit_take_bit_iff not_less)
  qed
  have s5: "5 \<le> n \<Longrightarrow> \<not> bit slot n" for n using hi[of slot 5 n] assms(1) by simp
  have f3: "3 \<le> n \<Longrightarrow> \<not> bit func n" for n using hi[of func 3 n] assms(2) by simp
  have b8: "8 \<le> n \<Longrightarrow> \<not> bit w n" for w :: u8 and n using hi[of w 8 n] unat_lt_2p[of w] by simp
  have top: "bit (0x80000000 :: u32) n \<longleftrightarrow> n = 31" for n
  proof -
    have e: "(0x80000000 :: u32) = 2 ^ 31" by simp
    show ?thesis unfolding e by (simp only: bit_exp_iff) auto
  qed
  have fc: "(0xFC :: u8) = NOT (mask 2)" by (simp add: mask_eq_exp_minus_1)
  let ?a = "pci_address bus slot func off"
  have bit: "bit ?a n \<longleftrightarrow> 16 \<le> n \<and> bit bus (n - 16) \<or> 11 \<le> n \<and> bit slot (n - 11) \<or>
      8 \<le> n \<and> bit func (n - 8) \<or> 2 \<le> n \<and> bit off n \<or> n = 31" if "n < 32" for n
  proof -
    have "bit (ucast (off AND NOT (mask 2)) :: u32) n \<longleftrightarrow> 2 \<le> n \<and> bit off n"
      using that b8[of n off] by (cases "n < 8") (auto simp: bit_simps not_less)
    then show ?thesis
      using that unfolding pci_address_def fc bit_or_iff top by (auto simp: bit_push_bit_iff bit_ucast_iff)
  qed
  have m: "(0xFF :: u32) = mask 8" "(0x1F :: u32) = mask 5" "(0x7 :: u32) = mask 3" "(0x3F :: u32) = mask 6"
    by (simp_all add: mask_eq_exp_minus_1)
  show "cfg_bus ?a = unat bus" unfolding cfg_bus_def m
    by (rule bit_field) (auto simp: bit s5 f3 b8)
  show "cfg_slot ?a = unat slot" unfolding cfg_slot_def m
    by (rule bit_field) (auto simp: bit s5 f3 b8)
  show "cfg_func ?a = unat func" unfolding cfg_func_def m
    by (rule bit_field) (auto simp: bit s5 f3 b8)
  have "cfg_num ?a = unat (drop_bit 2 off)" unfolding cfg_num_def m
    by (rule bit_field) (auto simp: bit s5 f3 b8 bit_drop_bit_eq)
  then show "cfg_num ?a = unat off div 4" by (simp add: unat_div drop_bit_eq_div)
  show "bit ?a 31" using bit[of 31] by simp
qed

lemma bridge_read:
  assumes "unat slot < 32" "unat func < 8"
  shows "pci_config_read_dword bridge_io bus slot func off d =
    (br_reg d (unat bus) (unat slot) (unat func) (unat off div 4), d\<lparr>br_latch := pci_address bus slot func off\<rparr>)"
  using pci_address_fields[OF assms, of bus off]
  by (simp add: pci_config_read_dword_def bridge_io_def bridge_inl_def bridge_outl_def PCI_CONFIG_ADDRESS_def
      PCI_CONFIG_DATA_def)

lemma bridge_write:
  assumes "unat slot < 32" "unat func < 8"
  shows "pci_config_write_dword bridge_io bus slot func off v d =
    set_reg (unat bus) (unat slot) (unat func) (unat off div 4) v (d\<lparr>br_latch := pci_address bus slot func off\<rparr>)"
  using pci_address_fields[OF assms, of bus off]
  by (simp add: pci_config_write_dword_def bridge_io_def bridge_outl_def PCI_CONFIG_ADDRESS_def PCI_CONFIG_DATA_def)

lemma br_reg_latch [simp]: "br_reg (d\<lparr>br_latch := a\<rparr>) = br_reg d"
  by simp

theorem config_access_roundtrip:
  assumes "unat slot < 32" "unat func < 8"
  shows "fst (pci_config_read_dword bridge_io bus slot func off d) =
           br_reg d (unat bus) (unat slot) (unat func) (unat off div 4) \<and>
         fst (pci_config_read_dword bridge_io bus slot func off
           (pci_config_write_dword bridge_io bus slot func off v d)) = v \<and>
         (b \<noteq> unat bus \<or> s \<noteq> unat slot \<or> f \<noteq> unat func \<or> r \<noteq> unat off div 4 \<longrightarrow>
           br_reg (pci_config_write_dword bridge_io bus slot func off v d) b s f r = br_reg d b s f r)"
  unfolding bridge_read[OF assms] bridge_write[OF assms] by (auto simp: set_reg_def)

theorem config_access_roundtrip_witness:
  "fst (pci_config_read_dword bridge_io 3 31 7 0x10 (pci_config_write_dword bridge_io 3 31 7 0x10 0xFEBF0004
     \<lparr>br_latch = 0, br_reg = (\<lambda>_ _ _ _. 0xFFFFFFFF)\<rparr>)) = 0xFEBF0004"
  using config_access_roundtrip[of 31 7 3 "0x10" "\<lparr>br_latch = 0, br_reg = (\<lambda>_ _ _ _. 0xFFFFFFFF)\<rparr>" "0xFEBF0004"] by simp

end
