(* ===== verification/HwProfile.thy ===== *)
theory HwProfile
  imports Pci
begin

text \<open>
  The hardware profile, \<open>src/kernel/core/hw_profile.c\<close>: CPU identification, the search for the
  display controller in PCI configuration space, and the tuning parameters derived from memory and
  screen size. \<open>cpuid\<close> is the processor instruction, a parameter of the functions that use it.
\<close>

section \<open>State and operations\<close>

record hw_profile =
  cpu_vendor :: "u8 list"
  cpu_brand :: "u8 list"
  has_sse :: u8
  has_sse2 :: u8
  has_sse3 :: u8
  has_ssse3 :: u8
  has_sse41 :: u8
  has_sse42 :: u8
  has_avx :: u8
  has_avx2 :: u8
  ram_usable_bytes :: u64
  hw_fb_width :: u32
  hw_fb_height :: u32
  hw_fb_pitch :: u32
  has_pci_display :: u8
  gpu_vendor_id :: u16
  gpu_device_id :: u16
  gpu_subclass :: u8
  gpu_prog_if :: u8

record hw_tuning =
  heap_slack_bytes :: u64
  target_fps :: u32
  allow_backbuffer :: u8

record hw =
  g_hw :: hw_profile
  g_tune :: hw_tuning

type_synonym cpuid = "u32 \<Rightarrow> u32 \<Rightarrow> u32 \<times> u32 \<times> u32 \<times> u32"

definition flag :: "nat \<Rightarrow> u32 \<Rightarrow> u8" where
  "flag n w = ucast (drop_bit n w AND 1)"

definition hw_detect_cpu :: "cpuid \<Rightarrow> hw \<Rightarrow> hw" where
  "hw_detect_cpu cpuid s =
     (let (a, b, c, d) = cpuid 0 0;
          vendor = le32 b @ le32 d @ le32 c @ [0];
          (amax, _, _, _) = cpuid 0x80000000 0;
          brand = (if amax \<ge> 0x80000004 then
                     concat (map (\<lambda>leaf. case cpuid leaf 0 of (a, b, c, d) \<Rightarrow> le32 a @ le32 b @ le32 c @ le32 d)
                       [0x80000002, 0x80000003, 0x80000004]) @ [0]
                   else replicate 49 0);
          (_, _, c1, d1) = cpuid 1 0;
          (_, b7, _, _) = cpuid 7 0 in
      s\<lparr>g_hw := (g_hw s)\<lparr>cpu_vendor := vendor, cpu_brand := brand,
         has_sse3 := flag 0 c1, has_ssse3 := flag 9 c1, has_sse41 := flag 19 c1, has_sse42 := flag 20 c1,
         has_avx := flag 28 c1, has_sse := flag 25 d1, has_sse2 := flag 26 d1, has_avx2 := flag 5 b7\<rparr>\<rparr>)"

definition hw_default_tuning :: "hw \<Rightarrow> hw" where
  "hw_default_tuning s =
     s\<lparr>g_tune := \<lparr>heap_slack_bytes = 2 * 1024 * 1024, target_fps = 120, allow_backbuffer = 1\<rparr>\<rparr>"

definition hw_apply_tuning :: "hw \<Rightarrow> hw" where
  "hw_apply_tuning s0 =
     (let s = hw_default_tuning s0; ram = ram_usable_bytes (g_hw s);
          s = (if ram < 64 * 1024 * 1024 then
                 s\<lparr>g_tune := (g_tune s)\<lparr>heap_slack_bytes := 512 * 1024, allow_backbuffer := 0, target_fps := 60\<rparr>\<rparr>
               else if ram < 256 * 1024 * 1024 then
                 s\<lparr>g_tune := (g_tune s)\<lparr>heap_slack_bytes := 1 * 1024 * 1024, target_fps := 90\<rparr>\<rparr>
               else s\<lparr>g_tune := (g_tune s)\<lparr>heap_slack_bytes := 4 * 1024 * 1024, target_fps := 120\<rparr>\<rparr>) in
      if ucast (hw_fb_width (g_hw s)) * ucast (hw_fb_height (g_hw s)) \<ge> (1920 * 1080 :: u64) then
        if ram < 256 * 1024 * 1024 then s\<lparr>g_tune := (g_tune s)\<lparr>allow_backbuffer := 0\<rparr>\<rparr> else s
      else s)"

definition zero_profile :: hw_profile where
  "zero_profile = \<lparr>cpu_vendor = replicate 13 0, cpu_brand = replicate 49 0, has_sse = 0, has_sse2 = 0, has_sse3 = 0,
     has_ssse3 = 0, has_sse41 = 0, has_sse42 = 0, has_avx = 0, has_avx2 = 0, ram_usable_bytes = 0,
     hw_fb_width = 0, hw_fb_height = 0, hw_fb_pitch = 0, has_pci_display = 0, gpu_vendor_id = 0,
     gpu_device_id = 0, gpu_subclass = 0, gpu_prog_if = 0\<rparr>"

definition hw_profile_detect_early :: "cpuid \<Rightarrow> u64 \<Rightarrow> u32 \<Rightarrow> u32 \<Rightarrow> u32 \<Rightarrow> hw \<Rightarrow> hw" where
  "hw_profile_detect_early cpuid ram w h pitch s =
     hw_apply_tuning (hw_detect_cpu cpuid
       (s\<lparr>g_hw := zero_profile\<lparr>ram_usable_bytes := ram, hw_fb_width := w, hw_fb_height := h, hw_fb_pitch := pitch\<rparr>\<rparr>))"

text \<open>The loop over the functions of a slot; the flag is the \<open>return\<close> out of all loops.\<close>

fun hw_gpu_functions :: "'p port_io \<Rightarrow> u8 \<Rightarrow> u8 \<Rightarrow> u8 list \<Rightarrow> hw \<Rightarrow> 'p \<Rightarrow> bool \<times> hw \<times> 'p" where
  "hw_gpu_functions io bus slot [] s p = (False, s, p)"
| "hw_gpu_functions io bus slot (func # fs) s p =
     (let (vendor_device, p) = pci_config_read_dword io bus slot func 0 p in
      if (ucast vendor_device :: u16) = 0xFFFF then hw_gpu_functions io bus slot fs s p
      else
        let (class_info, p) = pci_config_read_dword io bus slot func 0x08 p;
            class_code = drop_bit 24 class_info AND 0xFF; subclass = drop_bit 16 class_info AND 0xFF;
            prog_if = drop_bit 8 class_info AND 0xFF in
        if class_code = 0x03 then
          (True, hw_apply_tuning (s\<lparr>g_hw := (g_hw s)\<lparr>has_pci_display := 1,
             gpu_vendor_id := ucast (vendor_device AND 0xFFFF),
             gpu_device_id := ucast (drop_bit 16 vendor_device AND 0xFFFF),
             gpu_subclass := ucast subclass, gpu_prog_if := ucast prog_if\<rparr>\<rparr>), p)
        else if func = 0 then
          (let (header_type, p) = pci_config_read_dword io bus slot func 0x0C p in
           if drop_bit 16 header_type AND 0x80 = 0 then (False, s, p)
           else hw_gpu_functions io bus slot fs s p)
        else hw_gpu_functions io bus slot fs s p)"

fun hw_gpu_slots :: "'p port_io \<Rightarrow> (u8 \<times> u8) list \<Rightarrow> hw \<Rightarrow> 'p \<Rightarrow> hw \<times> 'p" where
  "hw_gpu_slots io [] s p = (s, p)"
| "hw_gpu_slots io ((bus, slot) # ss) s p =
     (let (found, s, p) = hw_gpu_functions io bus slot all_functions s p in
      if found then (s, p) else hw_gpu_slots io ss s p)"

definition hw_profile_update_pci_gpu :: "'p port_io \<Rightarrow> hw \<Rightarrow> 'p \<Rightarrow> hw \<times> 'p" where
  "hw_profile_update_pci_gpu io s p =
     hw_gpu_slots io all_slots
       (s\<lparr>g_hw := (g_hw s)\<lparr>has_pci_display := 0, gpu_vendor_id := 0, gpu_device_id := 0,
          gpu_subclass := 0, gpu_prog_if := 0\<rparr>\<rparr>) p"

definition hw_tuning_allow_backbuffer :: "hw \<Rightarrow> u64 \<Rightarrow> bool" where
  "hw_tuning_allow_backbuffer s backbuffer_bytes =
     (if allow_backbuffer (g_tune s) = 0 then False
      else
        let ram = ram_usable_bytes (g_hw s); m = 16 * 1024 * 1024; min_free = (if ram < m then ram else m) in
        if backbuffer_bytes + min_free > ram then False else True)"

section \<open>The scan as a list\<close>

text \<open>
  What the scan looks at, as a list over the contents of configuration space: of a slot whose
  function 0 is there and not multi-function only function 0, else every function that is there.
\<close>

type_synonym config_space = "nat \<Rightarrow> nat \<Rightarrow> nat \<Rightarrow> nat \<Rightarrow> u32"

definition present :: "config_space \<Rightarrow> u8 \<Rightarrow> u8 \<Rightarrow> u8 \<Rightarrow> bool" where
  "present cfg b s f \<longleftrightarrow> (ucast (cfg (unat b) (unat s) (unat f) 0) :: u16) \<noteq> 0xFFFF"

definition slot_functions :: "config_space \<Rightarrow> u8 \<times> u8 \<Rightarrow> (u8 \<times> u8 \<times> u8) list" where
  "slot_functions cfg = (\<lambda>(b, s).
     if present cfg b s 0 \<and> \<not> bit (cfg (unat b) (unat s) 0 3) 23 then [(b, s, 0)]
     else map (\<lambda>f. (b, s, f)) (filter (present cfg b s) all_functions))"

definition display :: "config_space \<Rightarrow> u8 \<times> u8 \<times> u8 \<Rightarrow> bool" where
  "display cfg = (\<lambda>(b, s, f). unat (drop_bit 24 (cfg (unat b) (unat s) (unat f) 2)) = 3)"

definition with_gpu :: "config_space \<Rightarrow> (u8 \<times> u8 \<times> u8) option \<Rightarrow> hw_profile \<Rightarrow> hw_profile" where
  "with_gpu cfg d p =
     (case d of
        None \<Rightarrow> p\<lparr>has_pci_display := 0, gpu_vendor_id := 0, gpu_device_id := 0, gpu_subclass := 0, gpu_prog_if := 0\<rparr>
      | Some (b, s, f) \<Rightarrow>
          let id = cfg (unat b) (unat s) (unat f) 0; cl = cfg (unat b) (unat s) (unat f) 2 in
          p\<lparr>has_pci_display := 1, gpu_vendor_id := ucast id, gpu_device_id := ucast (drop_bit 16 id),
            gpu_subclass := ucast (drop_bit 16 cl), gpu_prog_if := ucast (drop_bit 8 cl)\<rparr>)"

definition found_gpu :: "config_space \<Rightarrow> (u8 \<times> u8 \<times> u8) option \<Rightarrow> hw \<Rightarrow> hw" where
  "found_gpu cfg d s =
     (case d of None \<Rightarrow> s | Some _ \<Rightarrow> hw_apply_tuning (s\<lparr>g_hw := with_gpu cfg d (g_hw s)\<rparr>))"

lemma all_functions_Cons: "all_functions = 0 # map of_nat [1..<8]"
  by (simp add: all_functions_def upt_conv_Cons numeral_eq_Suc)

lemma class_is_display: "drop_bit 24 w AND 0xFF = (3 :: u32) \<longleftrightarrow> unat (drop_bit 24 w) = 3"
proof -
  have m: "(0xFF :: u32) = mask 8" by (simp add: mask_eq_exp_minus_1)
  have "drop_bit 24 w AND 0xFF = drop_bit 24 w"
    unfolding m by (intro bit_word_eqI) (auto simp: bit_simps dest: bit_imp_le_length)
  then show ?thesis by (simp add: word_unat_eq_iff)
qed

lemma multi_function_bit: "(drop_bit 16 w AND 0x80 = (0 :: u32)) \<longleftrightarrow> \<not> bit w 23"
  using and_pow2_eq_bit[of "drop_bit 16 w" 7] by (simp add: bit_drop_bit_eq)

lemma low_bytes:
  "ucast (w AND 0xFFFF :: u32) = (ucast w :: u16)" "ucast (w AND 0xFF :: u32) = (ucast w :: u8)"
proof -
  have m: "(0xFFFF :: u32) = mask 16" "(0xFF :: u32) = mask 8" by (simp_all add: mask_eq_exp_minus_1)
  show "ucast (w AND 0xFFFF :: u32) = (ucast w :: u16)" "ucast (w AND 0xFF :: u32) = (ucast w :: u8)"
    unfolding m by (rule bit_word_eqI; simp add: bit_simps)+
qed

text \<open>The functions above 0, then a whole slot, then the list of slots.\<close>

lemma gpu_functions_tail:
  assumes "unat slot < 32" "\<forall>f \<in> set fs. f \<noteq> 0 \<and> unat f < 8"
  shows "\<exists>d'. br_reg d' = br_reg d \<and> hw_gpu_functions bridge_io bus slot fs s d =
    (let r = find (display (br_reg d)) (map (\<lambda>f. (bus, slot, f)) (filter (present (br_reg d) bus slot) fs))
     in (r \<noteq> None, found_gpu (br_reg d) r s, d'))"
  using assms(2)
proof (induction fs arbitrary: d)
  case Nil
  then show ?case by (auto simp: found_gpu_def)
next
  case (Cons f fs)
  have f: "unat f < 8" "f \<noteq> 0" using Cons.prems by auto
  note rd = bridge_read[OF assms(1) f(1)]
  let ?d0 = "d\<lparr>br_latch := pci_address bus slot f 0\<rparr>"
  let ?d8 = "d\<lparr>br_latch := pci_address bus slot f 8\<rparr>"
  have prems: "\<forall>f \<in> set fs. f \<noteq> 0 \<and> unat f < 8" using Cons.prems by auto
  consider (absent) "\<not> present (br_reg d) bus slot f"
    | (other) "present (br_reg d) bus slot f" "\<not> display (br_reg d) (bus, slot, f)"
    | (disp) "present (br_reg d) bus slot f" "display (br_reg d) (bus, slot, f)" by blast
  then show ?case
  proof cases
    case absent
    then show ?thesis using Cons.IH[OF prems, of ?d0] by (simp add: rd present_def Let_def)
  next
    case other
    then show ?thesis
      using Cons.IH[OF prems, of ?d8] f by (simp add: rd present_def display_def class_is_display Let_def)
  next
    case disp
    then show ?thesis
      using f by (auto simp: rd present_def display_def class_is_display Let_def found_gpu_def with_gpu_def low_bytes
          intro!: exI[of _ ?d8])
  qed
qed

lemma gpu_functions_slot:
  assumes "unat slot < 32"
  shows "\<exists>d'. br_reg d' = br_reg d \<and> hw_gpu_functions bridge_io bus slot all_functions s d =
    (let r = find (display (br_reg d)) (slot_functions (br_reg d) (bus, slot))
     in (r \<noteq> None, found_gpu (br_reg d) r s, d'))"
proof -
  let ?fs = "map of_nat [1..<8] :: u8 list"
  have fs: "\<forall>f \<in> set ?fs. f \<noteq> 0 \<and> unat f < 8"
  proof
    fix f :: u8 assume "f \<in> set ?fs"
    then obtain n where n: "f = of_nat n" "1 \<le> n" "n < 8" by auto
    then have "unat f = n" by (simp add: unat_of_nat_small)
    then show "f \<noteq> 0 \<and> unat f < 8" using n by auto
  qed
  note rd = bridge_read[OF assms, of 0]
  note tl = gpu_functions_tail[OF assms fs]
  let ?d = "\<lambda>off. d\<lparr>br_latch := pci_address bus slot 0 off\<rparr>"
  have num: "unat (0xC :: u8) div 4 = 3" "unat (8 :: u8) div 4 = 2" by simp_all
  consider (absent) "\<not> present (br_reg d) bus slot 0"
    | (disp) "present (br_reg d) bus slot 0" "display (br_reg d) (bus, slot, 0)"
    | (single) "present (br_reg d) bus slot 0" "\<not> display (br_reg d) (bus, slot, 0)"
        "\<not> bit (br_reg d (unat bus) (unat slot) 0 3) 23"
    | (multi) "present (br_reg d) bus slot 0" "\<not> display (br_reg d) (bus, slot, 0)"
        "bit (br_reg d (unat bus) (unat slot) 0 3) 23" by blast
  then show ?thesis
  proof cases
    case absent
    then show ?thesis
      using tl[of "?d 0"] by (simp add: rd present_def slot_functions_def all_functions_Cons Let_def)
  next
    case disp
    then show ?thesis
      by (auto simp: rd num present_def display_def class_is_display slot_functions_def all_functions_Cons Let_def
          found_gpu_def with_gpu_def low_bytes intro!: exI[of _ "?d 8"])
  next
    case single
    then show ?thesis
      by (auto simp: rd num present_def display_def class_is_display multi_function_bit slot_functions_def
          all_functions_Cons Let_def found_gpu_def intro!: exI[of _ "?d 0xC"])
  next
    case multi
    then show ?thesis
      using tl[of "?d 0xC"] by (simp add: rd num present_def display_def class_is_display multi_function_bit
          slot_functions_def all_functions_Cons Let_def)
  qed
qed

lemma find_append: "find P (xs @ ys) = (case find P xs of None \<Rightarrow> find P ys | Some x \<Rightarrow> Some x)"
  by (induction xs) auto

lemma gpu_slots:
  assumes "\<forall>(b, sl) \<in> set ss. unat sl < 32"
  shows "fst (hw_gpu_slots bridge_io ss s d) =
    found_gpu (br_reg d) (find (display (br_reg d)) (concat (map (slot_functions (br_reg d)) ss))) s"
  using assms
proof (induction ss arbitrary: d)
  case Nil
  then show ?case by (simp add: found_gpu_def)
next
  case (Cons x ss)
  obtain b sl where x: "x = (b, sl)" by (cases x)
  have sl: "unat sl < 32" "\<forall>(b, sl) \<in> set ss. unat sl < 32" using Cons.prems x by auto
  obtain d' where d': "br_reg d' = br_reg d" "hw_gpu_functions bridge_io b sl all_functions s d =
    (let r = find (display (br_reg d)) (slot_functions (br_reg d) (b, sl))
     in (r \<noteq> None, found_gpu (br_reg d) r s, d'))"
    using gpu_functions_slot[OF sl(1)] by blast
  show ?case
  proof (cases "find (display (br_reg d)) (slot_functions (br_reg d) (b, sl))")
    case None
    then show ?thesis using d' x Cons.IH[OF sl(2), of d'] by (simp add: find_append found_gpu_def Let_def)
  next
    case (Some r)
    obtain b1 s1 f1 where "r = (b1, s1, f1)" by (cases r)
    then show ?thesis using Some d' x by (simp add: find_append Let_def)
  qed
qed

lemma all_slots_small: "\<forall>(b, sl) \<in> set all_slots. unat sl < 32"
  by (auto simp: all_slots_def unat_of_nat_small)

text \<open>
  C31. The PCI scan of hw_profile_update_pci_gpu finds the same device as a list search over
  configuration space: the first present function, in the order bus, slot, function, whose class
  is display. Functions 1 to 7 are left out only where function 0 is present and not marked
  multi-function: they are searched also where function 0 is absent. The profile then holds its
  identity and the tuning is recomputed.
\<close>

theorem gpu_is_first_display:
  "fst (hw_profile_update_pci_gpu bridge_io s d) =
   (let cfg = br_reg d; r = find (display cfg) (concat (map (slot_functions cfg) all_slots));
        t = s\<lparr>g_hw := with_gpu cfg r (g_hw s)\<rparr>
    in if r = None then t else hw_apply_tuning t)"
  unfolding hw_profile_update_pci_gpu_def gpu_slots[OF all_slots_small] Let_def
  by (auto simp: found_gpu_def with_gpu_def Let_def split: option.splits)

section \<open>Tuning\<close>

lemma hw_apply_tuning_simps [simp]: "g_hw (hw_apply_tuning s) = g_hw s"
  by (simp add: hw_apply_tuning_def hw_default_tuning_def Let_def)

theorem backbuffer_leaves_memory:
  assumes "hw_tuning_allow_backbuffer (hw_apply_tuning s) n" "unat n + 2 ^ 24 < 2 ^ 64"
  shows "64 * 2 ^ 20 \<le> unat (ram_usable_bytes (g_hw s)) \<and>
         unat n + 16 * 2 ^ 20 \<le> unat (ram_usable_bytes (g_hw s)) \<and>
         (unat (hw_fb_width (g_hw s)) * unat (hw_fb_height (g_hw s)) \<ge> 1920 * 1080 \<longrightarrow>
            256 * 2 ^ 20 \<le> unat (ram_usable_bytes (g_hw s)))"
proof -
  let ?ram = "ram_usable_bytes (g_hw s)"
  let ?big = "ucast (hw_fb_width (g_hw s)) * ucast (hw_fb_height (g_hw s)) \<ge> (1920 * 1080 :: u64)"
  have tune: "allow_backbuffer (g_tune (hw_apply_tuning s)) =
      (if ?ram < 64 * 1024 * 1024 then 0 else if ?big \<and> ?ram < 256 * 1024 * 1024 then 0 else 1)"
    by (simp add: hw_apply_tuning_def hw_default_tuning_def Let_def)
  then have r: "\<not> ?ram < 64 * 1024 * 1024" "\<not> (?big \<and> ?ram < 256 * 1024 * 1024)"
    using assms(1) by (auto simp: hw_tuning_allow_backbuffer_def split: if_splits)
  have "unat (ucast (hw_fb_width (g_hw s)) * ucast (hw_fb_height (g_hw s)) :: u64) =
      unat (hw_fb_width (g_hw s)) * unat (hw_fb_height (g_hw s))"
  proof -
    have "unat (hw_fb_width (g_hw s)) * unat (hw_fb_height (g_hw s)) < 2 ^ 32 * 2 ^ 32"
      using unat_lt_2p[of "hw_fb_width (g_hw s)"] unat_lt_2p[of "hw_fb_height (g_hw s)"]
      by (intro mult_strict_mono') simp_all
    then show ?thesis by (subst unat_mult_small) (simp_all add: unat_ucast_up)
  qed
  then have big: "?big \<longleftrightarrow> unat (hw_fb_width (g_hw s)) * unat (hw_fb_height (g_hw s)) \<ge> 1920 * 1080"
    by (simp add: word_le_nat_alt)
  have "\<not> n + 16 * 1024 * 1024 > ?ram"
    using assms(1) r(1) by (auto simp: hw_tuning_allow_backbuffer_def Let_def word_less_nat_alt split: if_splits)
  moreover have "unat (n + 16 * 1024 * 1024) = unat n + 16 * 2 ^ 20"
    using assms(2) by (subst unat_add_small) simp_all
  ultimately show ?thesis using r big by (auto simp: word_less_nat_alt)
qed

theorem backbuffer_leaves_memory_witness:
  "64 * 2 ^ 20 \<le> unat (0x10000000 :: u64) \<and> hw_tuning_allow_backbuffer (hw_apply_tuning
     \<lparr>g_hw = zero_profile\<lparr>ram_usable_bytes := 0x10000000\<rparr>,
      g_tune = \<lparr>heap_slack_bytes = 0, target_fps = 0, allow_backbuffer = 0\<rparr>\<rparr>) 0x800000"
proof -
  let ?s = "\<lparr>g_hw = zero_profile\<lparr>ram_usable_bytes := 0x10000000\<rparr>,
      g_tune = \<lparr>heap_slack_bytes = 0, target_fps = 0, allow_backbuffer = 0\<rparr>\<rparr>"
  have "hw_tuning_allow_backbuffer (hw_apply_tuning ?s) 0x800000"
    by (simp add: hw_tuning_allow_backbuffer_def hw_apply_tuning_def hw_default_tuning_def zero_profile_def Let_def)
  with backbuffer_leaves_memory[of ?s "0x800000"] show ?thesis by simp
qed

end
