(* ===== verification/Graphics.thy ===== *)
theory Graphics
  imports Prelude
begin

text \<open>
  The drawing primitives of \<open>src/kernel/core/desktop.c\<close>: clipped pixels, rectangles,
  alpha blending, rounded rectangles, glyphs, strings, icons, the cursor and the copy of a
  rectangle between buffers. A surface is a map from word offsets to pixels; the pointers
  \<open>g_back\<close> and \<open>g_bg\<close> say which surfaces they point to, so that the code's swaps of
  \<open>g_back\<close> are modelled with their aliasing. The record is the first part of the desktop's
  state, and every primitive works on any extension of it.
  \<open>draws\<close> is what a drawing function may do: change pixels of the current target inside the
  screen, and nothing else. Each primitive has it, and it is closed under sequencing.
\<close>

section \<open>State\<close>

datatype surface = Framebuffer | Back_buffer | Bg_buffer | Wizard_buffer

record boot_fb =
  fb_width :: u32
  fb_height :: u32
  fb_pitch :: u32

record gfx =
  g_bi :: "boot_fb option"
  pixels :: "surface \<Rightarrow> nat \<Rightarrow> u32"
  g_back :: "surface option"
  g_bg :: "surface option"
  g_rand_state :: u32
  cga_font :: "u8 list"

definition target :: "'a gfx_scheme \<Rightarrow> surface" where
  "target s = (case g_back s of None \<Rightarrow> Framebuffer | Some b \<Rightarrow> b)"

text \<open>One store \<open>dst[i] = v\<close> through the target pointer.\<close>

definition store :: "nat \<Rightarrow> u32 \<Rightarrow> 'a gfx_scheme \<Rightarrow> 'a gfx_scheme" where
  "store i v s = s\<lparr>pixels := (pixels s)(target s := (pixels s (target s))(i := v))\<rparr>"

text \<open>The values of a C loop variable running from \<open>a\<close> up to \<open>b\<close>, \<open>b\<close> excluded.\<close>

definition upto_u32 :: "u32 \<Rightarrow> u32 \<Rightarrow> u32 list" where
  "upto_u32 a b = map of_nat [unat a..<unat b]"

text \<open>Statements in sequence, and a loop over the values of its variable.\<close>

definition run :: "('s \<Rightarrow> 's) list \<Rightarrow> 's \<Rightarrow> 's" where
  "run fs s = fold (\<lambda>f s. f s) fs s"

definition for_each :: "'x list \<Rightarrow> ('x \<Rightarrow> 's \<Rightarrow> 's) \<Rightarrow> 's \<Rightarrow> 's" where
  "for_each xs f s = fold f xs s"

definition if_do :: "bool \<Rightarrow> ('s \<Rightarrow> 's) \<Rightarrow> 's \<Rightarrow> 's" where
  "if_do b f s = (if b then f s else s)"

text \<open>A string literal, and the text of a C string.\<close>

definition lit :: "string \<Rightarrow> u8 list" where
  "lit s = map (\<lambda>c. word_of_int (of_char c)) s"

section \<open>Primitives\<close>

definition put_px :: "u32 \<Rightarrow> u32 \<Rightarrow> u32 \<Rightarrow> 'a gfx_scheme \<Rightarrow> 'a gfx_scheme" where
  "put_px x y c s =
     (case g_bi s of
        None \<Rightarrow> s
      | Some bi \<Rightarrow>
          if x \<ge> fb_width bi \<or> y \<ge> fb_height bi then s
          else store (unat (y * fb_pitch bi + x)) c s)"

definition draw_rect :: "u32 \<Rightarrow> u32 \<Rightarrow> u32 \<Rightarrow> u32 \<Rightarrow> u32 \<Rightarrow> 'a gfx_scheme \<Rightarrow> 'a gfx_scheme" where
  "draw_rect x y w h c s =
     (case g_bi s of
        None \<Rightarrow> s
      | Some bi \<Rightarrow>
          if x \<ge> fb_width bi \<or> y \<ge> fb_height bi then s
          else
            let x2 = min (x + w) (fb_width bi); y2 = min (y + h) (fb_height bi) in
            for_each (upto_u32 y y2) (\<lambda>yy.
              for_each (upto_u32 x x2) (\<lambda>xx. store (unat (yy * fb_pitch bi) + unat xx) c)) s)"

definition blend_rgb :: "u32 \<Rightarrow> u32 \<Rightarrow> u8 \<Rightarrow> u32" where
  "blend_rgb dst src a =
     (let inv = 255 - ucast a;
          dr = drop_bit 16 dst AND 0xFF; dg = drop_bit 8 dst AND 0xFF; db = dst AND 0xFF;
          sr = drop_bit 16 src AND 0xFF; sg = drop_bit 8 src AND 0xFF; sb = src AND 0xFF;
          r = (dr * inv + sr * ucast a) div 255;
          g = (dg * inv + sg * ucast a) div 255;
          b = (db * inv + sb * ucast a) div 255 in
      push_bit 16 r OR push_bit 8 g OR b)"

text \<open>\<open>row[xx] = blend_rgb(row[xx], c, a)\<close>\<close>

definition blend_at :: "nat \<Rightarrow> u32 \<Rightarrow> u8 \<Rightarrow> 'a gfx_scheme \<Rightarrow> 'a gfx_scheme" where
  "blend_at i c a s = store i (blend_rgb (pixels s (target s) i) c a) s"

definition blend_rect :: "u32 \<Rightarrow> u32 \<Rightarrow> u32 \<Rightarrow> u32 \<Rightarrow> u32 \<Rightarrow> u8 \<Rightarrow> 'a gfx_scheme \<Rightarrow> 'a gfx_scheme" where
  "blend_rect x y w h c a s =
     (case g_bi s of
        None \<Rightarrow> s
      | Some bi \<Rightarrow>
          if a = 0 then s
          else if x \<ge> fb_width bi \<or> y \<ge> fb_height bi then s
          else
            let x2 = min (x + w) (fb_width bi); y2 = min (y + h) (fb_height bi) in
            for_each (upto_u32 y y2) (\<lambda>yy.
              for_each (upto_u32 x x2) (\<lambda>xx. blend_at (unat (yy * fb_pitch bi) + unat xx) c a)) s)"

text \<open>The corner test: the differences are 32-bit, their squares are compared as unsigned.\<close>

definition corner_inside :: "u32 \<Rightarrow> u32 \<Rightarrow> u32 \<Rightarrow> u32 \<Rightarrow> u32 \<Rightarrow> u32 \<Rightarrow> u32 \<Rightarrow> bool" where
  "corner_inside x y x2 y2 radius xx yy =
     (let near = (\<lambda>cx cy. (xx - cx) * (xx - cx) + (yy - cy) * (yy - cy) \<le> radius * radius) in
      if xx < x + radius \<and> yy < y + radius then near (x + radius) (y + radius)
      else if xx \<ge> x2 - radius \<and> yy < y + radius then near (x2 - radius - 1) (y + radius)
      else if xx < x + radius \<and> yy \<ge> y2 - radius then near (x + radius) (y2 - radius - 1)
      else if xx \<ge> x2 - radius \<and> yy \<ge> y2 - radius then near (x2 - radius - 1) (y2 - radius - 1)
      else True)"

definition blend_round_rect ::
  "u32 \<Rightarrow> u32 \<Rightarrow> u32 \<Rightarrow> u32 \<Rightarrow> u32 \<Rightarrow> u32 \<Rightarrow> u8 \<Rightarrow> 'a gfx_scheme \<Rightarrow> 'a gfx_scheme" where
  "blend_round_rect x y w h radius c a s =
     (case g_bi s of
        None \<Rightarrow> s
      | Some bi \<Rightarrow>
          if a = 0 then s
          else if radius = 0 then blend_rect x y w h c a s
          else if x \<ge> fb_width bi \<or> y \<ge> fb_height bi then s
          else
            let x2 = min (x + w) (fb_width bi); y2 = min (y + h) (fb_height bi) in
            for_each (upto_u32 y y2) (\<lambda>yy.
              for_each (upto_u32 x x2) (\<lambda>xx.
                if_do (corner_inside x y x2 y2 radius xx yy)
                  (blend_at (unat (yy * fb_pitch bi) + unat xx) c a))) s)"

definition draw_glyph_8x8 :: "u32 \<Rightarrow> u32 \<Rightarrow> u8 \<Rightarrow> u32 \<Rightarrow> 'a gfx_scheme \<Rightarrow> 'a gfx_scheme" where
  "draw_glyph_8x8 x y ch fg s =
     for_each [0..<8] (\<lambda>gy.
       for_each [0..<8] (\<lambda>gx.
         if_do ((cga_font s ! (unat ch * 8 + gy)) AND push_bit (7 - gx) 1 \<noteq> 0)
           (put_px (x + of_nat gx) (y + of_nat gy) fg))) s"

fun draw_string_loop :: "u32 \<Rightarrow> u32 \<Rightarrow> u32 \<Rightarrow> u8 list \<Rightarrow> u32 \<Rightarrow> 'a gfx_scheme \<Rightarrow> 'a gfx_scheme" where
  "draw_string_loop x cx y [] fg s = s"
| "draw_string_loop x cx y (c # cs) fg s =
     (if c = 10 then draw_string_loop x x (y + 8) cs fg s
      else if c = 9 then draw_string_loop x (cx + 32) y cs fg s
      else draw_string_loop x (cx + 8) y cs fg (draw_glyph_8x8 cx y c fg s))"

definition draw_string_8x8 :: "u32 \<Rightarrow> u32 \<Rightarrow> u8 list option \<Rightarrow> u32 \<Rightarrow> 'a gfx_scheme \<Rightarrow> 'a gfx_scheme" where
  "draw_string_8x8 x y str fg s =
     (case str of None \<Rightarrow> s | Some cs \<Rightarrow> draw_string_loop x x y (cstr cs) fg s)"

text \<open>A string literal as an argument.\<close>

abbreviation draw_lit :: "u32 \<Rightarrow> u32 \<Rightarrow> string \<Rightarrow> u32 \<Rightarrow> 'a gfx_scheme \<Rightarrow> 'a gfx_scheme" where
  "draw_lit x y str fg \<equiv> draw_string_8x8 x y (Some (lit str)) fg"

definition draw_icon_20 :: "u32 \<Rightarrow> u32 \<Rightarrow> u32 list \<Rightarrow> 'a gfx_scheme \<Rightarrow> 'a gfx_scheme" where
  "draw_icon_20 x y pix =
     for_each [0..<20] (\<lambda>yy.
       for_each [0..<20] (\<lambda>xx.
         let c = pix ! (yy * 20 + xx) in
         if_do (c AND 0xFF000000 \<noteq> 0) (put_px (x + of_nat xx) (y + of_nat yy) (c AND 0x00FFFFFF))))"

definition draw_icon_20_scaled :: "u32 \<Rightarrow> u32 \<Rightarrow> u32 list \<Rightarrow> u32 \<Rightarrow> 'a gfx_scheme \<Rightarrow> 'a gfx_scheme" where
  "draw_icon_20_scaled x y pix scale =
     if_do (scale \<noteq> 0)
       (for_each [0..<20] (\<lambda>yy.
         for_each [0..<20] (\<lambda>xx.
           let c = pix ! (yy * 20 + xx) in
           if_do (c AND 0xFF000000 \<noteq> 0)
             (for_each (upto_u32 0 scale) (\<lambda>sy.
               for_each (upto_u32 0 scale) (\<lambda>sx.
                 put_px (x + of_nat xx * scale + sx) (y + of_nat yy * scale + sy) (c AND 0x00FFFFFF)))))))"

text \<open>\<open>blit_rect\<close> copies between two surfaces; a NULL pointer is \<open>None\<close>.\<close>

definition blit_rect ::
  "surface option \<Rightarrow> surface option \<Rightarrow> u32 \<Rightarrow> u32 \<Rightarrow> u32 \<Rightarrow> u32 \<Rightarrow> 'a gfx_scheme \<Rightarrow> 'a gfx_scheme" where
  "blit_rect dst src x y w h s =
     (case (g_bi s, dst, src) of
        (Some bi, Some d, Some r) \<Rightarrow>
          if x \<ge> fb_width bi \<or> y \<ge> fb_height bi then s
          else
            let w = (if x + w > fb_width bi then fb_width bi - x else w);
                h = (if y + h > fb_height bi then fb_height bi - y else h) in
            for_each (upto_u32 0 h) (\<lambda>yy.
              for_each (upto_u32 0 w) (\<lambda>xx s.
                let i = unat ((y + yy) * fb_pitch bi + x) + unat xx in
                s\<lparr>pixels := (pixels s)(d := (pixels s d)(i := pixels s r i))\<rparr>)) s
      | _ \<Rightarrow> s)"

section \<open>Cursor and icons\<close>

definition k_cursor_bits :: "u16 list" where
  "k_cursor_bits =
     [0x8000, 0xC000, 0xE000, 0xF000, 0xF800, 0xFC00, 0xFE00, 0xFF00,
      0xFF80, 0xFE00, 0xE700, 0xC700, 0x8380, 0x0380, 0x01C0, 0x01C0]"

definition draw_cursor_at :: "u32 \<Rightarrow> u32 \<Rightarrow> u32 \<Rightarrow> 'a gfx_scheme \<Rightarrow> 'a gfx_scheme" where
  "draw_cursor_at x y c =
     for_each [0..<16] (\<lambda>cy.
       for_each [0..<16] (\<lambda>cx.
         if_do (k_cursor_bits ! cy AND push_bit (15 - cx) 1 \<noteq> 0)
           (put_px (x + of_nat cx) (y + of_nat cy) c)))"

definition draw_cursor :: "i32 \<Rightarrow> i32 \<Rightarrow> u32 \<Rightarrow> u32 \<Rightarrow> 'a gfx_scheme \<Rightarrow> 'a gfx_scheme" where
  "draw_cursor x y fg outline =
     run
      [for_each [-1, 0, 1] (\<lambda>yy.
         for_each [-1, 0, 1] (\<lambda>xx.
           if_do (\<not> (xx = 0 \<and> yy = 0)) (draw_cursor_at (x + xx) (y + yy) outline))),
       draw_cursor_at x y fg]"

text \<open>
  The icons, row by row as runs of equal pixels; a table that is shorter than 400 entries is
  filled up with zeros by the C initialiser.
\<close>

definition icon_rows :: "(nat \<times> u32) list list \<Rightarrow> u32 list" where
  "icon_rows rs = take 400 (concat (map (concat \<circ> map (\<lambda>(n, c). replicate n c)) rs) @ replicate 400 0)"

definition k_icon_shell_20 :: "u32 list" where
  "k_icon_shell_20 = icon_rows
     [[(20, 0)],
      [(1, 0), (18, 0xFF2A3140), (1, 0)],
      [(1, 0), (18, 0xFF0B111C), (1, 0)],
      [(1, 0), (1, 0xFF0B111C), (5, 0xFFFFFFFF), (12, 0xFF0B111C), (1, 0)],
      [(1, 0), (1, 0xFF0B111C), (1, 0xFFFFFFFF), (3, 0xFF0B111C), (1, 0xFFFFFFFF), (12, 0xFF0B111C), (1, 0)],
      [(1, 0), (1, 0xFF0B111C), (1, 0xFFFFFFFF), (3, 0xFF0B111C), (1, 0xFFFFFFFF), (12, 0xFF0B111C), (1, 0)],
      [(1, 0), (1, 0xFF0B111C), (4, 0xFFFFFFFF), (13, 0xFF0B111C), (1, 0)],
      [(1, 0), (18, 0xFF0B111C), (1, 0)],
      [(1, 0), (18, 0xFF2A3140), (1, 0)],
      [(1, 0), (18, 0xFF0B111C), (1, 0)],
      [(1, 0), (18, 0xFF0B111C), (1, 0)],
      [(1, 0), (18, 0xFF0B111C), (1, 0)],
      [(1, 0), (18, 0xFF0B111C), (1, 0)],
      [(1, 0), (18, 0xFF0B111C), (1, 0)],
      [(1, 0), (18, 0xFF0B111C), (1, 0)],
      [(1, 0), (18, 0xFF0B111C), (1, 0)],
      [(1, 0), (18, 0xFF2A3140), (1, 0)],
      [(20, 0)]]"

definition k_icon_explorer_20 :: "u32 list" where
  "k_icon_explorer_20 = icon_rows
     [[(20, 0)],
      [(2, 0), (14, 0xFFF3C046), (4, 0)],
      [(1, 0), (16, 0xFFE6A823), (3, 0)],
      [(1, 0), (1, 0xFFE6A823), (14, 0xFFCC8B12), (1, 0xFFE6A823), (3, 0)],
      [(1, 0), (1, 0xFFE6A823), (1, 0xFFCC8B12), (12, 0xFFF3C046), (1, 0xFFCC8B12), (1, 0xFFE6A823), (3, 0)],
      [(1, 0), (1, 0xFFE6A823), (1, 0xFFCC8B12), (12, 0xFFF3C046), (1, 0xFFCC8B12), (1, 0xFFE6A823), (3, 0)],
      [(1, 0), (1, 0xFFE6A823), (1, 0xFFCC8B12), (12, 0xFFF3C046), (1, 0xFFCC8B12), (1, 0xFFE6A823), (3, 0)],
      [(1, 0), (1, 0xFFE6A823), (1, 0xFFCC8B12), (12, 0xFFF3C046), (1, 0xFFCC8B12), (1, 0xFFE6A823), (3, 0)],
      [(1, 0), (16, 0xFFE6A823), (3, 0)],
      [(20, 0)]]"

definition k_icon_viewer_20 :: "u32 list" where
  "k_icon_viewer_20 = icon_rows
     [[(20, 0)],
      [(1, 0), (18, 0xFF2A3140), (1, 0)],
      [(1, 0), (1, 0xFF0B111C), (16, 0xFFFFFFFF), (1, 0xFF0B111C), (1, 0)],
      [(1, 0), (1, 0xFF0B111C), (1, 0xFFFFFFFF), (3, 0xFF2D80FF), (12, 0xFFFFFFFF), (1, 0xFF0B111C), (1, 0)],
      [(1, 0), (1, 0xFF0B111C), (16, 0xFFFFFFFF), (1, 0xFF0B111C), (1, 0)],
      [(1, 0), (18, 0xFF2A3140), (1, 0)],
      [(20, 0)]]"

definition k_icon_notepad_20 :: "u32 list" where
  "k_icon_notepad_20 = icon_rows
     [[(20, 0)],
      [(1, 0), (18, 0xFF2A3140), (1, 0)],
      [(1, 0), (18, 0xFFFFFFFF), (1, 0)],
      [(1, 0), (18, 0xFF2D80FF), (1, 0)]]"

end
