(* ===== verification/DeskState.thy ===== *)
theory DeskState
  imports Graphics HwProfile Input Tasks Ramfs SimpleFs Png
begin

text \<open>
  The state of the desktop, \<open>src/kernel/core/desktop.c\<close>: its file-scope variables, and the parts
  of the kernel its commands and windows call (files, the RAM store with the kernel heap and the
  byte memory, input, hardware profile, tasks, what was sent to the serial line). It extends the graphics state. Flags that hold
  only 0 and 1 are booleans. Here too are the number formatting, the terminal's output buffer and
  the small helpers the other parts of the desktop share.
\<close>

section \<open>State\<close>

datatype app_id = APP_SHELL | APP_EXPLORER | APP_VIEWER | APP_NOTEPAD | APP_SETUP

record wm_window =
  win_x :: i32
  win_y :: i32
  win_w :: i32
  win_h :: i32

text \<open>A window being dragged: the flag and the offset of the pointer inside the window.\<close>

record drag =
  dragging :: bool
  drag_off_x :: i32
  drag_off_y :: i32

record ('v, 's) desktop = gfx +
  g_tick :: u32
  g_text :: "u8 list"
  g_text_len :: u32
  g_start_open :: bool
  g_show_shell :: bool
  g_shell_out :: "u8 list"
  g_shell_out_len :: u32
  g_shell_line :: "u8 list"
  g_shell_line_len :: u32
  g_last_ptr :: pointer
  g_shell_win :: wm_window
  g_explorer_win :: wm_window
  g_viewer_win :: wm_window
  g_shell_drag :: drag
  g_explorer_open :: bool
  g_viewer_open :: bool
  g_explorer_drag :: drag
  g_viewer_drag :: drag
  g_viewer_name :: "u8 list"
  g_viewer_text :: "u8 list"
  g_viewer_text_len :: u32
  g_explorer_scroll :: u32
  g_viewer_scroll :: u32
  g_explorer_selected :: u32
  g_explorer_last_click_tick :: u32
  g_explorer_last_click_index :: u32
  g_app_open :: "app_id \<Rightarrow> bool"
  g_app_focus :: app_id
  g_notepad_win :: wm_window
  g_notepad_drag :: drag
  g_notepad_name :: "u8 list"
  g_notepad_text :: "u8 list"
  g_notepad_text_len :: u32
  g_notepad_scroll :: u32
  g_setup_win :: wm_window
  g_setup_open :: bool
  g_setup_drag :: drag
  g_setup_step :: u32
  g_setup_disk_ready :: bool
  g_setup_partition_done :: bool
  g_setup_format_done :: bool
  g_ring3_task_started :: bool
  g_last_cursor_x :: i32
  g_last_cursor_y :: i32
  g_last_cursor_buttons :: u32
  prev_buttons :: u32
  g_desktop_dirty :: bool
  dk_fs :: "('v, 's) fs"
  dk_ramfs :: ramfs
  dk_input :: input
  dk_hw :: hw
  dk_sched :: sched
  dk_stacks :: "u64 \<Rightarrow> u64"
  usermode_launch_entry :: u64
  serial_out :: "u8 list"

text \<open>
  The static variables before \<open>desktop_init\<close>, all zero bytes but the flag \<open>g_desktop_dirty\<close>, with the state of the other parts of
  the kernel. \<open>APP_SHELL\<close> is the zero of its enumeration.
\<close>

definition zero_window :: wm_window where
  "zero_window = \<lparr>win_x = 0, win_y = 0, win_w = 0, win_h = 0\<rparr>"

definition zero_drag :: drag where
  "zero_drag = \<lparr>dragging = False, drag_off_x = 0, drag_off_y = 0\<rparr>"

definition zero_pointer :: pointer where
  "zero_pointer = \<lparr>ptr_x = 0, ptr_y = 0, ptr_dx = 0, ptr_dy = 0, ptr_buttons = 0, ptr_is_absolute = 0\<rparr>"

definition desk_start ::
  "u8 list \<Rightarrow> ('v, 's) fs \<Rightarrow> ramfs \<Rightarrow> input \<Rightarrow> hw \<Rightarrow> sched \<Rightarrow> (u64 \<Rightarrow> u64) \<Rightarrow> u64 \<Rightarrow> ('v, 's) desktop" where
  "desk_start font f rf inp h sc st launch =
     \<lparr>g_bi = None, pixels = (\<lambda>_ _. 0), g_back = None, g_bg = None, g_rand_state = 0, cga_font = font,
      g_tick = 0, g_text = replicate 1024 0, g_text_len = 0, g_start_open = False, g_show_shell = False,
      g_shell_out = replicate 4096 0, g_shell_out_len = 0, g_shell_line = replicate 256 0, g_shell_line_len = 0,
      g_last_ptr = zero_pointer, g_shell_win = zero_window, g_explorer_win = zero_window,
      g_viewer_win = zero_window, g_shell_drag = zero_drag, g_explorer_open = False, g_viewer_open = False,
      g_explorer_drag = zero_drag, g_viewer_drag = zero_drag, g_viewer_name = replicate 64 0,
      g_viewer_text = replicate 1024 0, g_viewer_text_len = 0, g_explorer_scroll = 0, g_viewer_scroll = 0,
      g_explorer_selected = 0, g_explorer_last_click_tick = 0, g_explorer_last_click_index = 0,
      g_app_open = (\<lambda>_. False), g_app_focus = APP_SHELL, g_notepad_win = zero_window,
      g_notepad_drag = zero_drag, g_notepad_name = replicate 64 0, g_notepad_text = replicate 4096 0,
      g_notepad_text_len = 0, g_notepad_scroll = 0, g_setup_win = zero_window, g_setup_open = False,
      g_setup_drag = zero_drag, g_setup_step = 0, g_setup_disk_ready = False, g_setup_partition_done = False,
      g_setup_format_done = False, g_ring3_task_started = False, g_last_cursor_x = 0, g_last_cursor_y = 0,
      g_last_cursor_buttons = 0, prev_buttons = 0, g_desktop_dirty = True, dk_fs = f, dk_ramfs = rf,
      dk_input = inp, dk_hw = h, dk_sched = sc, dk_stacks = st, usermode_launch_entry = launch,
      serial_out = []\<rparr>"

section \<open>Numbers as text\<close>

text \<open>\<open>dec_digits\<close> is the C buffer, lowest digit first; a 32-bit value has at most ten digits.\<close>

fun to_dec_loop :: "nat \<Rightarrow> u32 \<Rightarrow> u8 list" where
  "to_dec_loop 0 v = []"
| "to_dec_loop (Suc k) v = (if v \<noteq> 0 then ucast (48 + v mod 10) # to_dec_loop k (v div 10) else [])"

definition shell_u32_to_dec :: "u32 \<Rightarrow> u8 list" where
  "shell_u32_to_dec v = (if v = 0 then [48] else rev (to_dec_loop 11 v))"

definition hex_u16 :: "u16 \<Rightarrow> u8 list" where
  "hex_u16 v = map (\<lambda>i. let nib = ucast (drop_bit ((3 - i) * 4) v AND 0xF) :: u8 in
     if nib < 10 then 48 + nib else 65 + (nib - 10)) [0..<4]"

fun streq_n :: "u8 list \<Rightarrow> u8 list \<Rightarrow> nat \<Rightarrow> bool" where
  "streq_n a b 0 = True"
| "streq_n a b (Suc n) =
     (let ca = (case a of [] \<Rightarrow> 0 | c # _ \<Rightarrow> c); cb = (case b of [] \<Rightarrow> 0 | c # _ \<Rightarrow> c) in
      if ca \<noteq> cb then False else if ca = 0 then True else streq_n (tl a) (tl b) n)"

section \<open>Stores into a buffer\<close>

text \<open>
  \<open>buf[i] = v\<close>. C does not check the index: a store behind the end makes the list longer than the
  array it stands for, so a buffer that still has its declared length has not been overrun.
\<close>

definition store_at :: "nat \<Rightarrow> 'a::zero \<Rightarrow> 'a list \<Rightarrow> 'a list" where
  "store_at i v buf = (if i < length buf then buf[i := v] else buf @ replicate (i - length buf) 0 @ [v])"

lemma length_store_at: "length (store_at i v buf) = max (length buf) (Suc i)"
  by (simp add: store_at_def)

lemma store_at_inside [simp]: "i < length buf \<Longrightarrow> store_at i v buf = buf[i := v]"
  by (simp add: store_at_def)

section \<open>The terminal's output buffer\<close>

definition shell_putc :: "u8 \<Rightarrow> ('v, 's) desktop \<Rightarrow> ('v, 's) desktop" where
  "shell_putc c s0 =
     (let s = (if g_shell_out_len s0 + 1 \<ge> 4096
               then s0\<lparr>g_shell_out := blit 0 (take 2048 (drop 2048 (g_shell_out s0))) (g_shell_out s0),
                       g_shell_out_len := 2048\<rparr>
               else s0)
      in s\<lparr>g_shell_out := store_at (unat (g_shell_out_len s)) c (g_shell_out s),
           g_shell_out_len := g_shell_out_len s + 1\<rparr>)"

definition shell_append :: "u8 list \<Rightarrow> ('v, 's) desktop \<Rightarrow> ('v, 's) desktop" where
  "shell_append str s = fold shell_putc (cstr str) s"

text \<open>Literals: \<open>out\<close> appends the text, \<open>out_line\<close> the text and a line feed.\<close>

definition out :: "string \<Rightarrow> ('v, 's) desktop \<Rightarrow> ('v, 's) desktop" where
  "out str = shell_append (lit str)"

definition out_line :: "string \<Rightarrow> ('v, 's) desktop \<Rightarrow> ('v, 's) desktop" where
  "out_line str = shell_append (lit str @ [10])"

definition shell_append_hex_u16 :: "u16 \<Rightarrow> ('v, 's) desktop \<Rightarrow> ('v, 's) desktop" where
  "shell_append_hex_u16 v = shell_append (hex_u16 v)"

definition shell_next_rand :: "'a gfx_scheme \<Rightarrow> u32 \<times> 'a gfx_scheme" where
  "shell_next_rand s =
     (let r = g_rand_state s * 1664525 + 1013904223 in (r, s\<lparr>g_rand_state := r\<rparr>))"

section \<open>Windows and the pointer\<close>

definition hit_test :: "i32 \<Rightarrow> i32 \<Rightarrow> i32 \<Rightarrow> i32 \<Rightarrow> i32 \<Rightarrow> i32 \<Rightarrow> bool" where
  "hit_test px py x y w h =
     (if sint px < sint x \<or> sint py < sint y then False
      else if sint px \<ge> sint (x + w) \<or> sint py \<ge> sint (y + h) then False else True)"

text \<open>Opening an application: its entry in the open table and the keyboard focus.\<close>

definition focus_app :: "app_id \<Rightarrow> ('v, 's) desktop \<Rightarrow> ('v, 's) desktop" where
  "focus_app a s = s\<lparr>g_app_open := (g_app_open s)(a := True), g_app_focus := a\<rparr>"

text \<open>\<open>simplefs_init\<close> on the desktop's file system.\<close>

definition dk_fs_init :: "('v, 's) blk_driver \<Rightarrow> ('v, 's) desktop \<Rightarrow> bool \<times> ('v, 's) desktop" where
  "dk_fs_init dr s = (let (ok, f) = simplefs_init dr (dk_fs s) in (ok, s\<lparr>dk_fs := f\<rparr>))"

text \<open>A copy loop \<open>for (k = 0; k + 1 < cap && name[k]; k++) { dst[k] = name[k]; dst[k+1] = 0; }\<close>.\<close>

fun copy_name_loop :: "u8 list \<Rightarrow> u8 list \<Rightarrow> nat \<Rightarrow> nat \<Rightarrow> u8 list" where
  "copy_name_loop dst [] k cap = dst"
| "copy_name_loop dst (c # cs) k cap =
     (if k + 1 < cap \<and> c \<noteq> 0 then copy_name_loop (store_at (k + 1) 0 (store_at k c dst)) cs (k + 1) cap else dst)"

text \<open>
  Reading a file into the viewer: the buffer receives what was read even if the read fails; on
  success the terminator and the length are set, the length cut to the buffer.
\<close>

definition viewer_read :: "('v, 's) blk_driver \<Rightarrow> u8 list \<Rightarrow> ('v, 's) desktop \<Rightarrow> bool \<times> ('v, 's) desktop" where
  "viewer_read dr name s0 =
     (let (r, f) = simplefs_read_file dr (Some name) True 1023 (dk_fs s0);
          s = s0\<lparr>dk_fs := f, g_viewer_text := blit 0 (rr_bytes r) (g_viewer_text s0)\<rparr>;
          n0 = (case rr_len r of None \<Rightarrow> 0 | Some n \<Rightarrow> n); n = (if n0 \<ge> 1024 then 1023 else n0) in
      if rr_ok r then (True, s\<lparr>g_viewer_text := store_at (unat n) 0 (g_viewer_text s), g_viewer_text_len := n\<rparr>)
      else (False, s))"

end
