(* ===== verification/Shell.thy ===== *)
theory Shell
  imports DeskState
begin

text \<open>
  The terminal of \<open>src/kernel/core/desktop.c\<close>: its commands and their interpreter
  \<open>shell_run_line\<close>. The command \<open>wall\<close> reads \<open>new.png\<close>, keeps a copy in the RAM store,
  decodes it and scales it over the background. A command has the outcome of the PNG decoder:
  \<open>Ret\<close> the new state, \<open>Fault\<close> an access outside a buffer, \<open>Timeout\<close> a loop that outlives
  the fuel or a heap walk that does not end.
\<close>

section \<open>Commands\<close>

definition launch_ring3_task :: "('v, 's) desktop \<Rightarrow> ('v, 's) desktop outcome" where
  "launch_ring3_task s0 =
     (if g_ring3_task_started s0 then Ret s0
      else
        let s = s0\<lparr>g_ring3_task_started := True\<rparr> in
        case kmalloc 8192 (rf_heap (dk_ramfs s)) of
          None \<Rightarrow> Timeout
        | Some (stack, h) \<Rightarrow>
            let s = s\<lparr>dk_ramfs := (dk_ramfs s)\<lparr>rf_heap := h\<rparr>\<rparr> in
            if stack = 0 then Ret ((out_line ''ring3: no mem'' s)\<lparr>g_ring3_task_started := False\<rparr>)
            else
              let (m, sc) = Task_Create (usermode_launch_entry s) (stack + 8192) (dk_stacks s, dk_sched s)
              in Ret (s\<lparr>dk_stacks := m, dk_sched := sc\<rparr>))"

definition out_dec :: "u32 \<Rightarrow> ('v, 's) desktop \<Rightarrow> ('v, 's) desktop" where
  "out_dec v = shell_append (shell_u32_to_dec v)"

definition shell_run_specs :: "('v, 's) desktop \<Rightarrow> ('v, 's) desktop" where
  "shell_run_specs s =
     (let p = g_hw (dk_hw s); t = g_tune (dk_hw s);
          or_unknown = (\<lambda>str. if cstr str = [] then lit ''?'' else str) in
      run [out ''cpu_vendor: '', shell_append (or_unknown (cpu_vendor p)), out_line [],
           out ''cpu_brand: '', shell_append (or_unknown (cpu_brand p)), out_line [],
           out ''ram_usable: '', out_dec (ucast (ram_usable_bytes p div (1024 * 1024))), out_line '' MB'',
           out ''fb: '', out_dec (hw_fb_width p), out ''x'', out_dec (hw_fb_height p),
           out '' pitch='', out_dec (hw_fb_pitch p), out_line [],
           out ''gpu_pci: '',
           (if has_pci_display p \<noteq> 0
            then run [out ''vid='', shell_append_hex_u16 (gpu_vendor_id p),
                      out '' did='', shell_append_hex_u16 (gpu_device_id p),
                      out '' sub='', shell_append_hex_u16 (ucast (gpu_subclass p)),
                      out '' if='', shell_append_hex_u16 (ucast (gpu_prog_if p)), out_line []]
            else out_line ''none''),
           out ''tune: fps='', out_dec (target_fps t),
           out '' backbuf='', out (if allow_backbuffer t \<noteq> 0 then ''on'' else ''off''),
           out '' heap_slack='', out_dec (ucast (heap_slack_bytes t div 1024)), out_line '' KB''] s)"

text \<open>\<open>g_shell_line_len == n && streq_n(g_shell_line, cmd, n)\<close> for the length \<open>n\<close> of the name.\<close>

definition cmd_is :: "string \<Rightarrow> ('v, 's) desktop \<Rightarrow> bool" where
  "cmd_is c s \<longleftrightarrow> g_shell_line_len s = of_nat (length c) \<and> streq_n (g_shell_line s) (lit c) (length c)"

definition cmd_starts :: "string \<Rightarrow> ('v, 's) desktop \<Rightarrow> bool" where
  "cmd_starts c s \<longleftrightarrow> g_shell_line_len s \<ge> of_nat (length c) \<and> streq_n (g_shell_line s) (lit c) (length c)"

text \<open>The line from position \<open>n\<close> with its leading spaces skipped.\<close>

definition line_args :: "nat \<Rightarrow> ('v, 's) desktop \<Rightarrow> u8 list" where
  "line_args n s = dropWhile (\<lambda>c. c = 32) (drop n (take (unat (g_shell_line_len s)) (g_shell_line s)))"

text \<open>Characters appended one at a time, as strings of one character.\<close>

definition append_chars :: "u8 list \<Rightarrow> ('v, 's) desktop \<Rightarrow> ('v, 's) desktop" where
  "append_chars cs s = for_each cs (\<lambda>c. shell_append [c]) s"

definition shell_view :: "('v, 's) blk_driver \<Rightarrow> ('v, 's) desktop \<Rightarrow> ('v, 's) desktop" where
  "shell_view dr s =
     (if line_args 5 s = [] then out_line ''view: missing name'' s
      else
        let name = take 63 (line_args 5 s) @ [0]; (ok, s) = dk_fs_init dr s in
        if \<not> ok then out_line ''fs init failed'' s
        else
          let (ok, s) = viewer_read dr name s in
          if ok then focus_app APP_VIEWER
            (s\<lparr>g_viewer_name := copy_name_loop (g_viewer_name s) name 0 64, g_viewer_open := True\<rparr>)
          else out_line ''view: read failed'' s)"

section \<open>The wallpaper\<close>

text \<open>The 16.16 scale that makes the image cover the screen, and the source index of a pixel.\<close>

definition wall_scale :: "u32 \<Rightarrow> u32 \<Rightarrow> u32 \<Rightarrow> u32 \<Rightarrow> u32" where
  "wall_scale sw sh pw ph =
     (if pw \<noteq> 0 \<and> ph \<noteq> 0 then
        let sx = push_bit 16 (ucast sw) div ucast pw :: u64; sy = push_bit 16 (ucast sh) div ucast ph;
            fp = ucast (if sx > sy then sx else sy) in
        if fp = 0 then 0x10000 else fp
      else 0x10000)"

definition wall_crop :: "u32 \<Rightarrow> u32 \<Rightarrow> u32 \<Rightarrow> u64" where
  "wall_crop n p fp =
     (let scaled = drop_bit 16 (ucast p * ucast fp) :: u64 in
      if scaled > ucast n then (scaled - ucast n) div 2 else 0)"

definition wall_src :: "u32 \<Rightarrow> u64 \<Rightarrow> u32 \<Rightarrow> u32 \<Rightarrow> u32" where
  "wall_src v crop fp p =
     (let src = ucast (push_bit 16 (ucast v + crop) div ucast fp :: u64) :: u32 in
      if src \<ge> p then (if p \<noteq> 0 then p - 1 else 0) else src)"

definition wall_index :: "u32 \<Rightarrow> u32 \<Rightarrow> u32 \<Rightarrow> u32 \<Rightarrow> u32 \<Rightarrow> u32 \<Rightarrow> u32" where
  "wall_index sw sh pw ph x y =
     (let fp = wall_scale sw sh pw ph in
      (wall_src y (wall_crop sh ph fp) fp ph * pw + wall_src x (wall_crop sw pw fp) fp pw) * 4)"

definition pix_rgb :: "u8 list \<Rightarrow> u32 \<Rightarrow> u32" where
  "pix_rgb pix si = push_bit 16 (ucast (pix ! unat si)) OR push_bit 8 (ucast (pix ! unat (si + 1)))
     OR ucast (pix ! unat (si + 2))"

text \<open>\<open>store_on\<close> is one store through a pointer to the surface \<open>b\<close>.\<close>

definition store_on :: "surface \<Rightarrow> nat \<Rightarrow> u32 \<Rightarrow> 'a gfx_scheme \<Rightarrow> 'a gfx_scheme" where
  "store_on b i v s = s\<lparr>pixels := (pixels s)(b := (pixels s b)(i := v))\<rparr>"

definition wall_fill :: "surface \<Rightarrow> boot_fb \<Rightarrow> (u32 \<Rightarrow> u32 \<Rightarrow> u32) \<Rightarrow> 'a gfx_scheme \<Rightarrow> 'a gfx_scheme" where
  "wall_fill b bi col s =
     for_each (upto_u32 0 (fb_height bi)) (\<lambda>y.
       for_each (upto_u32 0 (fb_width bi)) (\<lambda>x.
         store_on b (unat (y * fb_pitch bi) + unat x) (col x y))) s"

text \<open>Clearing the background and scaling the decoded image over it.\<close>

definition wall_apply :: "surface \<Rightarrow> boot_fb \<Rightarrow> u32 \<Rightarrow> u32 \<Rightarrow> u8 list \<Rightarrow> 'a gfx_scheme \<Rightarrow> 'a gfx_scheme outcome" where
  "wall_apply b bi pw ph pix s =
     (let idx = wall_index (fb_width bi) (fb_height bi) pw ph in
      if list_all (\<lambda>y. list_all (\<lambda>x. unat (idx x y) < length pix \<and> unat (idx x y + 1) < length pix \<and>
           unat (idx x y + 2) < length pix) (upto_u32 0 (fb_width bi))) (upto_u32 0 (fb_height bi))
      then Ret (wall_fill b bi (\<lambda>x y. pix_rgb pix (idx x y)) (wall_fill b bi (\<lambda>x y. 0) s))
      else Fault)"

definition new_png :: "u8 list" where
  "new_png = lit ''new.png'' @ [0]"

text \<open>Reading the file into the heap block at \<open>p\<close>, and what follows the read.\<close>

definition wall_decode :: "nat \<Rightarrow> u64 \<Rightarrow> u32 \<Rightarrow> ('v, 's) desktop \<Rightarrow> ('v, 's) desktop outcome" where
  "wall_decode fuel p sz s =
     (case ramfs_put_copy (Some new_png) p sz (dk_ramfs s) of
        None \<Rightarrow> Timeout
      | Some (_, rf) \<Rightarrow>
          let (r, h) = png_decode_rgba fuel (Some (bytes_at (rf_mem rf) p (unat sz))) sz (rf_heap rf);
              s = s\<lparr>dk_ramfs := rf\<lparr>rf_heap := h\<rparr>\<rparr> in
          case r of
            Timeout \<Rightarrow> Timeout
          | Fault \<Rightarrow> Fault
          | Stop \<Rightarrow> Ret (out_line ''wall: png decode failed'' s)
          | Ret (pw, ph, pix) \<Rightarrow>
              (case (g_bi s, g_bg s) of
                 (Some bi, Some b) \<Rightarrow>
                   (case wall_apply b bi pw ph pix s of Ret s \<Rightarrow> Ret (out_line ''wall: applied'' s)
                    | Stop \<Rightarrow> Stop | Fault \<Rightarrow> Fault | Timeout \<Rightarrow> Timeout)
               | _ \<Rightarrow> Fault))"

definition mem_store :: "u64 \<Rightarrow> u8 list \<Rightarrow> (u64 \<Rightarrow> u8) \<Rightarrow> (u64 \<Rightarrow> u8)" where
  "mem_store p bs m = fold (\<lambda>i m. m(p + of_nat i := bs ! i)) [0..<length bs] m"

definition wall_load :: "nat \<Rightarrow> ('v, 's) blk_driver \<Rightarrow> u32 \<Rightarrow> ('v, 's) desktop \<Rightarrow> ('v, 's) desktop outcome" where
  "wall_load fuel dr sz s =
     (case kmalloc (ucast sz) (rf_heap (dk_ramfs s)) of
        None \<Rightarrow> Timeout
      | Some (p, h) \<Rightarrow>
          let s = s\<lparr>dk_ramfs := (dk_ramfs s)\<lparr>rf_heap := h\<rparr>\<rparr> in
          if p = 0 then Ret (out_line ''wall: no mem'' s)
          else
            let (r, f) = simplefs_read_file dr (Some new_png) True sz (dk_fs s);
                s = s\<lparr>dk_fs := f, dk_ramfs := (dk_ramfs s)\<lparr>rf_mem := mem_store p (rr_bytes r) (rf_mem (dk_ramfs s))\<rparr>\<rparr> in
            if \<not> rr_ok r \<or> rr_len r \<noteq> Some sz then Ret (out_line ''wall: read failed'' s)
            else wall_decode fuel p sz s)"

definition shell_wall :: "nat \<Rightarrow> ('v, 's) blk_driver \<Rightarrow> ('v, 's) desktop \<Rightarrow> ('v, 's) desktop outcome" where
  "shell_wall fuel dr s0 =
     (let s = out_line ''wall: loading new.png...'' s0 in
      if g_bg s = None then Ret (out_line ''wall: no bg buffer'' s)
      else
        let (ok, s) = dk_fs_init dr s in
        if \<not> ok then Ret (out_line ''wall: fs init failed'' s)
        else
          case simplefs_file_size (Some new_png) (dk_fs s) of
            None \<Rightarrow> Ret (out_line ''wall: new.png not found'' s)
          | Some sz \<Rightarrow>
              if sz = 0 then Ret (out_line ''wall: new.png not found'' s)
              else if sz > 8 * 1024 * 1024 then Ret (out_line ''wall: too big'' s)
              else wall_load fuel dr sz s)"

section \<open>The interpreter\<close>

definition shell_fs :: "('v, 's) blk_driver \<Rightarrow> ('v, 's) desktop \<Rightarrow> ('v, 's) desktop" where
  "shell_fs dr s0 =
     (let (ok, s) = dk_fs_init dr (out_line ''mounting fs...'' s0) in
      if ok then s\<lparr>serial_out := serial_out s @ simplefs_list (dk_fs s)\<rparr>
      else out_line ''fs init failed'' s)"

definition shell_explorer :: "('v, 's) blk_driver \<Rightarrow> ('v, 's) desktop \<Rightarrow> ('v, 's) desktop" where
  "shell_explorer dr s0 =
     (let (ok, s) = dk_fs_init dr (out_line ''opening explorer...'' s0) in
      if ok then focus_app APP_EXPLORER (s\<lparr>g_explorer_open := True\<rparr>)
      else out_line ''fs init failed'' s)"

definition shell_command :: "nat \<Rightarrow> ('v, 's) blk_driver \<Rightarrow> ('v, 's) desktop \<Rightarrow> ('v, 's) desktop outcome" where
  "shell_command fuel dr s =
     (if cmd_is ''help'' s then Ret (out_line ''help clear cls echo mem ver uptime pos rand specs ring3 fs explorer view notepad setup wall'' s)
      else if cmd_is ''clear'' s \<or> cmd_is ''cls'' s then Ret (s\<lparr>g_shell_out_len := 0\<rparr>)
      else if cmd_starts ''echo'' s then Ret (run [append_chars (line_args 4 s), out_line []] s)
      else if cmd_is ''mem'' s then Ret (out_line ''heap ok'' s)
      else if cmd_is ''ver'' s then Ret (out_line ''tiny64 ui'' s)
      else if cmd_is ''uptime'' s then Ret (run [out_dec (g_tick s), out_line '' ticks''] s)
      else if cmd_is ''pos'' s then
        Ret (run [out ''x='', out_dec (ucast (ptr_x (g_last_ptr s))),
                  out '' y='', out_dec (ucast (ptr_y (g_last_ptr s))), out_line []] s)
      else if cmd_is ''rand'' s then (let (r, s) = shell_next_rand s in Ret (run [out_dec r, out_line []] s))
      else if cmd_is ''specs'' s then Ret (shell_run_specs s)
      else if cmd_is ''ring3'' s then launch_ring3_task (out_line ''launching ring3...'' s)
      else if cmd_is ''fs'' s then Ret (shell_fs dr s)
      else if cmd_is ''explorer'' s then Ret (shell_explorer dr s)
      else if cmd_starts ''view '' s then Ret (shell_view dr s)
      else if cmd_is ''notepad'' s then Ret (focus_app APP_NOTEPAD (out_line ''opening notepad...'' s))
      else if cmd_is ''setup'' s then
        Ret ((out_line ''opening setup wizard...'' s)\<lparr>g_setup_open := True, g_setup_step := 0\<rparr>)
      else if cmd_is ''wall'' s then shell_wall fuel dr s
      else Ret (out_line ''unknown'' s))"

text \<open>The prompt that follows a command: the line is emptied first.\<close>

definition shell_prompt :: "('v, 's) desktop \<Rightarrow> ('v, 's) desktop" where
  "shell_prompt s = out ''> '' (s\<lparr>g_shell_line_len := 0, g_shell_line := store_at 0 0 (g_shell_line s)\<rparr>)"

definition shell_run_line :: "nat \<Rightarrow> ('v, 's) blk_driver \<Rightarrow> ('v, 's) desktop \<Rightarrow> ('v, 's) desktop outcome" where
  "shell_run_line fuel dr s0 =
     (let s = run [append_chars (take (unat (g_shell_line_len s0)) (g_shell_line s0)), out_line []] s0 in
      if g_shell_line_len s = 0 then Ret (out ''> '' s)
      else
        case shell_command fuel dr s of Ret s \<Rightarrow> Ret (shell_prompt s)
        | Stop \<Rightarrow> Stop | Fault \<Rightarrow> Fault | Timeout \<Rightarrow> Timeout)"

end
