(* ===== verification/DeskDraw.thy ===== *)
theory DeskDraw
  imports DeskState
begin

text \<open>
  What the desktop draws, \<open>src/kernel/core/desktop.c\<close>: the frame of a window, the windows of the
  applications, the task bar, the start menu, the icons, the widgets and the background. Each
  definition lists the calls of its function in their order; strings are drawn by \<open>draw_lit\<close>.
\<close>

section \<open>Window frame\<close>

text \<open>One line of the gradient of a title bar: each channel is shifted and clamped.\<close>

definition clamp_channel :: "u32 \<Rightarrow> i32 \<Rightarrow> u32" where
  "clamp_channel c shift =
     (let n = c + shift; n = (if sint n < 0 then 0 else n) in if sint n > 255 then 255 else n)"

definition title_shade :: "u32 \<Rightarrow> u32 \<Rightarrow> u32" where
  "title_shade base i =
     (let shift = 6 - i div 2; r = drop_bit 16 base AND 0xFF; g = drop_bit 8 base AND 0xFF; b = base AND 0xFF in
      push_bit 16 (clamp_channel r shift) OR push_bit 8 (clamp_channel g shift) OR clamp_channel b shift)"

definition draw_window_chrome ::
  "wm_window \<Rightarrow> u8 list \<Rightarrow> u8 list option \<Rightarrow> bool \<Rightarrow> bool \<Rightarrow> bool \<Rightarrow> 'a gfx_scheme \<Rightarrow> 'a gfx_scheme" where
  "draw_window_chrome win title sub_title is_focused has_scroll has_save s =
     (let x = win_x win; y = win_y win; w = win_w win; h = win_h win;
          base_color = (if is_focused then 0x1E293B else 0x111827);
          text_color = (if is_focused then 0xF8FAFC else 0x94A3B8);
          sub_color = (if is_focused then 0x38BDF8 else 0x64748B) in
      if_do (g_bi s \<noteq> None) (run
       [blend_rect (x + w) (y + 4) 4 h 0x000000 100,
        blend_rect (x + 4) (y + h) w 4 0x000000 100,
        draw_rect x y w h 0x0E0E10,
        draw_rect x y w 1 0x2A3140,
        draw_rect x (y + h - 1) w 1 0x2A3140,
        draw_rect x y 1 h 0x2A3140,
        draw_rect (x + w - 1) y 1 h 0x2A3140,
        for_each (upto_u32 1 24) (\<lambda>i. draw_rect (x + 1) (y + i) (w - 2) 1 (title_shade base_color i)),
        draw_rect (x + 1) (y + 1) (w - 2) 1 0x475569,
        draw_rect (x + 1) (y + 24) (w - 2) 1 0x334155,
        draw_string_8x8 (x + 10) (y + 8) (Some title) text_color,
        (case sub_title of None \<Rightarrow> (\<lambda>s. s)
         | Some sub \<Rightarrow>
             if_do (cstr sub \<noteq> [])
               (draw_string_8x8 (x + 10 + of_nat (length (cstr title)) * 8 + 8) (y + 8) (Some sub) sub_color)),
        blend_round_rect (x + w - 22) (y + 4) 18 16 3 0xEF4444 255,
        draw_lit (x + w - 17) (y + 8) ''X'' 0xFFFFFF,
        if_do has_scroll (run
          [blend_round_rect (x + w - 42) (y + 4) 16 16 3 0x334155 255,
           draw_lit (x + w - 38) (y + 8) ''^'' 0xF1F5F9,
           blend_round_rect (x + w - 62) (y + 4) 16 16 3 0x334155 255,
           draw_lit (x + w - 58) (y + 8) ''v'' 0xF1F5F9]),
        if_do has_save (run
          [blend_round_rect (x + w - 82) (y + 4) 16 16 3 0x16A34A 255,
           draw_lit (x + w - 78) (y + 8) ''S'' 0xFFFFFF])]) s)"

section \<open>Text windows\<close>

text \<open>
  The notepad and the viewer draw text alike: \<open>scroll_start\<close> is the index behind the skipped
  lines, \<open>draw_text_loop\<close> the loop over the rest, on a grid of \<open>max_cols\<close> by \<open>max_rows\<close> cells.
\<close>

fun scroll_start :: "u8 list \<Rightarrow> nat \<Rightarrow> u32 \<Rightarrow> nat \<Rightarrow> nat" where
  "scroll_start [] i skip start = start"
| "scroll_start (c # cs) i skip start =
     (if skip = 0 then start
      else if c = 10 then scroll_start cs (i + 1) (skip - 1) (i + 1)
      else scroll_start cs (i + 1) skip start)"

fun draw_text_loop ::
  "u32 \<Rightarrow> u32 \<Rightarrow> u32 \<Rightarrow> u32 \<Rightarrow> u32 \<Rightarrow> u32 \<Rightarrow> u8 list \<Rightarrow> 'a gfx_scheme \<Rightarrow> 'a gfx_scheme" where
  "draw_text_loop tx ty max_cols max_rows cx cy [] s = s"
| "draw_text_loop tx ty max_cols max_rows cx cy (c # cs) s =
     (if \<not> cy < max_rows then s
      else if c = 10 then draw_text_loop tx ty max_cols max_rows 0 (cy + 1) cs s
      else if c = 9 then draw_text_loop tx ty max_cols max_rows ((cx + 4) AND NOT 3) cy cs s
      else
        let c = (if c < 32 \<or> c > 126 then 46 else c) in
        if cx < max_cols then
          draw_text_loop tx ty max_cols max_rows (cx + 1) cy cs
            (draw_string_8x8 (tx + cx * 8) (ty + cy * 10) (Some [c]) 0xFFFFFF s)
        else draw_text_loop tx ty max_cols max_rows cx cy cs s)"

definition draw_text_body :: "wm_window \<Rightarrow> u8 list \<Rightarrow> u32 \<Rightarrow> u32 \<Rightarrow> 'a gfx_scheme \<Rightarrow> 'a gfx_scheme" where
  "draw_text_body win txt len scroll =
     (let w = win_w win; h = win_h win;
          max_cols = (if sint w > 16 then (w - 16) div 8 else 0);
          max_rows = (if sint h > 40 then (h - 40) div 10 else 0);
          shown = take (unat len) txt in
      draw_text_loop (win_x win + 8) (win_y win + 32) max_cols max_rows 0 0
        (drop (scroll_start shown 0 scroll 0) shown))"

text \<open>\<open>name[0] ? name : NULL\<close>\<close>

definition name_or_null :: "u8 list \<Rightarrow> u8 list option" where
  "name_or_null name = (if name ! 0 \<noteq> 0 then Some name else None)"

definition draw_notepad_window :: "wm_window \<Rightarrow> ('v, 's) desktop \<Rightarrow> ('v, 's) desktop" where
  "draw_notepad_window win s =
     if_do (g_bi s \<noteq> None) (run
      [draw_window_chrome win (lit ''Notepad'') (name_or_null (g_notepad_name s)) (g_app_focus s = APP_NOTEPAD) True True,
       draw_text_body win (g_notepad_text s) (g_notepad_text_len s) (g_notepad_scroll s)]) s"

definition draw_viewer_window :: "wm_window \<Rightarrow> ('v, 's) desktop \<Rightarrow> ('v, 's) desktop" where
  "draw_viewer_window win s =
     if_do (g_bi s \<noteq> None) (run
      [draw_window_chrome win (lit ''View'') (name_or_null (g_viewer_name s)) (g_app_focus s = APP_VIEWER) True False,
       if_do (g_viewer_open s)
         (draw_text_body win (g_viewer_text s) (g_viewer_text_len s) (g_viewer_scroll s))]) s"

section \<open>The setup window\<close>

definition setup_step_text :: "u32 \<Rightarrow> u32 \<Rightarrow> ('v, 's) desktop \<Rightarrow> (('v, 's) desktop \<Rightarrow> ('v, 's) desktop) list" where
  "setup_step_text x text_y s =
     (let tx = x + 24 in
      if g_setup_step s = 0 then
        [draw_lit tx text_y ''Welcome to VexOS Setup!'' 0xFFFFFF,
         draw_lit tx (text_y + 20) ''This wizard will help you:'' 0xD0D6E0,
         draw_lit tx (text_y + 36) ''- Detect your disk'' 0xD0D6E0,
         draw_lit tx (text_y + 52) ''- Create partitions'' 0xD0D6E0,
         draw_lit tx (text_y + 68) ''- Format with FAT16'' 0xD0D6E0]
      else if g_setup_step s = 1 then
        [draw_lit tx text_y ''Detecting disk...'' 0xFFFFFF] @
        (if g_setup_disk_ready s then
           [draw_lit tx (text_y + 20) ''Status: Disk ready'' 0x22C55E,
            draw_lit tx (text_y + 40) ''Type: RAM Disk (1 MiB)'' 0xD0D6E0]
         else [draw_lit tx (text_y + 20) ''Status: Not initialized'' 0xFFB000])
      else if g_setup_step s = 2 then
        [draw_lit tx text_y ''Creating MBR partition...'' 0xFFFFFF] @
        (if g_setup_partition_done s then
           [draw_lit tx (text_y + 20) ''Status: Partition created'' 0x22C55E,
            draw_lit tx (text_y + 40) ''Type: FAT16 LBA'' 0xD0D6E0]
         else [draw_lit tx (text_y + 20) ''Status: Pending'' 0xD0D6E0])
      else if g_setup_step s = 3 then
        [draw_lit tx text_y ''Formatting partition...'' 0xFFFFFF] @
        (if g_setup_format_done s then
           [draw_lit tx (text_y + 20) ''Status: Formatted'' 0x22C55E,
            draw_lit tx (text_y + 40) ''FS: FAT16'' 0xD0D6E0]
         else [draw_lit tx (text_y + 20) ''Status: Pending'' 0xD0D6E0])
      else if g_setup_step s = 4 then
        [draw_lit tx text_y ''Verifying installation...'' 0xFFFFFF] @
        (if g_setup_format_done s then
           [draw_lit tx (text_y + 20) ''MBR: Valid'' 0x22C55E,
            draw_lit tx (text_y + 36) ''BPB: Valid'' 0x22C55E,
            draw_lit tx (text_y + 52) ''FAT: Initialized'' 0x22C55E]
         else [])
      else if g_setup_step s = 5 then
        [draw_lit tx text_y ''Setup Complete!'' 0x22C55E,
         draw_lit tx (text_y + 24) ''Your disk is ready to use.'' 0xFFFFFF,
         draw_lit tx (text_y + 48) ''You can now use the'' 0xD0D6E0,
         draw_lit tx (text_y + 64) ''Explorer and Notepad apps.'' 0xD0D6E0]
      else [])"

definition setup_titles :: "string list" where
  "setup_titles = [''Welcome'', ''Detect Disk'', ''Partition'', ''Format'', ''Verify'', ''Complete'']"

definition setup_content :: "wm_window \<Rightarrow> ('v, 's) desktop \<Rightarrow> ('v, 's) desktop" where
  "setup_content win s =
     (let x = win_x win; y = win_y win; w = win_w win; h = win_h win;
          bar_y = y + 36; bar_w = w - 32; step_w = bar_w div 6;
          content_y = y + 72; content_h = h - 108; btn_y = y + h - 28; btn_x = x + w - 76 in
      run
       ([draw_rect (x + 16) bar_y bar_w 4 0x2A3140,
         for_each (upto_u32 0 6) (\<lambda>i.
           let cx = x + 16 + i * step_w; color = (if i \<le> g_setup_step s then 0x22C55E else 0x404040) in
           run [draw_rect cx bar_y (step_w - 2) 4 color,
                draw_string_8x8 (cx + step_w div 2 - 4) (bar_y + 8) (Some [ucast (49 + i), 0]) color]),
         draw_rect (x + 16) content_y (w - 32) content_h 0x14141A,
         draw_lit (x + 24) (content_y + 12) (setup_titles ! unat (g_setup_step s)) 0xE0E0E0,
         draw_rect (x + 24) (content_y + 28) (w - 48) 1 0x2A3140] @
        setup_step_text x (content_y + 44) s @
        (if g_setup_step s > 0
         then [draw_rect (x + 16) btn_y 50 18 0x2A3140, draw_lit (x + 26) (btn_y + 5) ''Back'' 0xFFFFFF]
         else [draw_rect (x + 16) btn_y 50 18 0x1A1A20, draw_lit (x + 26) (btn_y + 5) ''Back'' 0x606060]) @
        [draw_rect btn_x btn_y 60 18 0x2244AA,
         draw_lit (btn_x + 14) (btn_y + 5) (if g_setup_step s = 5 then ''Finish'' else ''Next'') 0xFFFFFF]) s)"

definition draw_setup_window :: "wm_window \<Rightarrow> ('v, 's) desktop \<Rightarrow> ('v, 's) desktop" where
  "draw_setup_window win s =
     if_do (g_bi s \<noteq> None) (run
      [draw_window_chrome win (lit ''Setup Wizard'') None (g_app_focus s = APP_SETUP) False False,
       if_do (g_setup_open s) (setup_content win)]) s"

section \<open>The explorer\<close>

text \<open>The colour of the mark before a name: text files, images, all others.\<close>

definition ends_with :: "u8 list \<Rightarrow> string \<Rightarrow> bool" where
  "ends_with name ext \<longleftrightarrow> length name > 4 \<and> streq_n (drop (length name - 4) name) (lit ext) 4"

definition icon_color :: "u8 list \<Rightarrow> u32" where
  "icon_color name =
     (if ends_with name ''.txt'' then 0x22C55E else if ends_with name ''.png'' then 0x2D80FF else 0x94A3B8)"

definition explorer_row :: "wm_window \<Rightarrow> u32 \<Rightarrow> u32 \<Rightarrow> ('v, 's) desktop \<Rightarrow> ('v, 's) desktop" where
  "explorer_row win idx i s =
     (let x = win_x win; w = win_w win; list_y = win_y win + 44; row_h = 12 in
      case simplefs_file_name_at idx (Some (replicate 64 0)) 64 (dk_fs s) of
        (True, Some nm) \<Rightarrow>
          let name = cstr nm;
              fg = (if idx = g_explorer_selected s then 0xFFFFFF else 0xD0D6E0);
              bg_color = (if idx = g_explorer_selected s then 0x1E293B
                          else if idx mod 2 = 1 then 0x14141A else 0x0E0E10) in
          run [draw_rect (x + 4) (list_y + i * row_h - 1) (w - 8) row_h bg_color,
               draw_rect (x + 10) (list_y + i * row_h + 2) 6 6 (icon_color name),
               draw_string_8x8 (x + 22) (list_y + i * row_h + 1) (Some name) fg] s
      | _ \<Rightarrow> s)"

definition explorer_list :: "wm_window \<Rightarrow> u32 \<Rightarrow> ('v, 's) desktop \<Rightarrow> ('v, 's) desktop" where
  "explorer_list win n_files s =
     (let x = win_x win; y = win_y win; w = win_w win; h = win_h win;
          max_rows = (if sint h > 54 then (h - 54) div 12 else 0);
          start = (if g_explorer_scroll s > n_files then n_files else g_explorer_scroll s);
          count = (if n_files - start > max_rows then max_rows else n_files - start) in
      run [draw_lit (x + 8) (y + 30) ''Name'' 0x64748B,
           draw_rect (x + 8) (y + 39) (w - 16) 1 0x334155,
           for_each (upto_u32 0 count) (\<lambda>i. explorer_row win (start + i) i)] s)"

definition draw_explorer_window :: "wm_window \<Rightarrow> ('v, 's) desktop \<Rightarrow> ('v, 's) desktop" where
  "draw_explorer_window win s =
     (let file_count = simplefs_file_count (dk_fs s);
          count_buf = lit ''('' @ shell_u32_to_dec file_count @ lit '' files)'' in
      if_do (g_bi s \<noteq> None) (run
       [draw_window_chrome win (lit ''Explorer'') (Some count_buf) (g_app_focus s = APP_EXPLORER) True False,
        if_do (g_explorer_open s) (explorer_list win file_count)]) s)"

section \<open>The terminal\<close>

fun draw_shell_loop :: "u32 \<Rightarrow> u32 \<Rightarrow> u32 \<Rightarrow> u32 \<Rightarrow> u32 \<Rightarrow> u32 \<Rightarrow> u8 list \<Rightarrow> 'a gfx_scheme \<Rightarrow> 'a gfx_scheme" where
  "draw_shell_loop tx ty cols rows cx cy [] s = s"
| "draw_shell_loop tx ty cols rows cx cy (c # cs) s =
     (if c = 10 then
        (if cy + 1 \<ge> rows then s else draw_shell_loop tx ty cols rows 0 (cy + 1) cs s)
      else
        let s = if_do (cx < cols \<and> cy < rows) (draw_glyph_8x8 (tx + cx * 8) (ty + cy * 8) c 0xE0E0E0) s in
        if cx + 1 \<ge> cols then
          (if cy + 1 \<ge> rows then s else draw_shell_loop tx ty cols rows 0 (cy + 1) cs s)
        else draw_shell_loop tx ty cols rows (cx + 1) cy cs s)"

definition shell_content :: "wm_window \<Rightarrow> bool \<Rightarrow> ('v, 's) desktop \<Rightarrow> ('v, 's) desktop" where
  "shell_content win is_focused s =
     (let x = win_x win; y = win_y win; w = win_w win; h = win_h win;
          cols = (if w > 16 then (w - 16) div 8 else 0);
          rows = (if h > 64 then (h - 64) div 8 else 0);
          max_chars = cols * rows; len = g_shell_out_len s;
          start = (if len > max_chars then len - max_chars else 0);
          input_y = y + h - 28; line_len = of_nat (length (cstr (g_shell_line s))) in
      if_do (\<not> (cols = 0 \<or> rows = 0)) (run
       [draw_shell_loop (x + 8) (y + 32) cols rows 0 0 (drop (unat start) (take (unat len) (g_shell_out s))),
        draw_rect (x + 1) input_y (w - 2) 27 0x1E293B,
        draw_rect (x + 1) input_y (w - 2) 1 0x334155,
        draw_lit (x + 8) (input_y + 10) ''>'' 0x4ADE80,
        draw_string_8x8 (x + 20) (input_y + 10) (Some (g_shell_line s)) 0xF8FAFC,
        if_do (is_focused \<and> (g_tick s div 30) mod 2 = 0)
          (draw_rect (x + 20 + line_len * 8) (input_y + 10) 8 8 0x4ADE80)]) s)"

definition draw_shell_window :: "wm_window \<Rightarrow> ('v, 's) desktop \<Rightarrow> ('v, 's) desktop" where
  "draw_shell_window win s =
     (let is_focused = (g_app_focus s = APP_SHELL) in
      if_do (g_bi s \<noteq> None) (run
       [draw_window_chrome win (lit ''Terminal'') None is_focused True False,
        shell_content win is_focused]) s)"

section \<open>Task bar, start menu, icons\<close>

fun dock_icons :: "u32 list list \<Rightarrow> u32 \<Rightarrow> u32 \<Rightarrow> u32 \<Rightarrow> 'a gfx_scheme \<Rightarrow> 'a gfx_scheme" where
  "dock_icons [] ix iy x_end s = s"
| "dock_icons (ic # ics) ix iy x_end s =
     (let s = draw_icon_20_scaled ix iy ic 2 s; ix = ix + 50 in
      if ix + 40 + 16 > x_end then s else dock_icons ics ix iy x_end s)"

definition bar_height :: "boot_fb \<Rightarrow> u32" where
  "bar_height bi = (if 56 > fb_height bi then fb_height bi else 56)"

definition draw_taskbar_on :: "boot_fb \<Rightarrow> bool \<Rightarrow> 'a gfx_scheme \<Rightarrow> 'a gfx_scheme" where
  "draw_taskbar_on bi start_open =
     (let width = fb_width bi; bar_h = bar_height bi; y = fb_height bi - bar_h; sy = y + 6; sh = bar_h - 12;
          search_w = (if 260 + 16 > width then (if width > 16 then width - 16 else 1) else 260);
          right_w = 140; right_x = (if width > right_w + 8 then width - right_w - 8 else 8);
          dock_w = (if 420 + 32 > width then (if width > 32 then width - 32 else 1) else 420);
          dock_x = (width - dock_w) div 2 in
      run
       [blend_rect 0 y width bar_h 0x0A0D14 170,
        draw_rect 0 y width 1 0x2A3140,
        blend_round_rect 8 sy search_w sh 10 (if start_open then 0x0F1622 else 0x0B111C) 210,
        draw_rect 8 sy search_w 1 0x2A3140,
        draw_rect 8 (sy + sh - 1) search_w 1 0x0B0E14,
        draw_lit 16 (sy + 6) ''Search or run a command'' 0xA0A8B5,
        if_do (right_x > 8) (run
          [blend_round_rect right_x sy right_w sh 10 0x0B111C 210,
           draw_rect right_x sy right_w 1 0x2A3140,
           draw_lit (right_x + 16) (sy + 6) ''10:42 AM'' 0xFFFFFF,
           draw_lit (right_x + 96) (sy + 6) ''SYS'' 0x4ADE80]),
        blend_round_rect dock_x sy dock_w sh 12 0x0B111C 210,
        draw_rect dock_x sy dock_w 1 0x2A3140,
        draw_rect dock_x (sy + sh - 1) dock_w 1 0x0B0E14,
        dock_icons [k_icon_shell_20, k_icon_explorer_20, k_icon_viewer_20, k_icon_notepad_20]
          (dock_x + 16) (sy + (if sh > 40 then (sh - 40) div 2 else 0)) (dock_x + dock_w)])"

definition draw_taskbar :: "('v, 's) desktop \<Rightarrow> ('v, 's) desktop" where
  "draw_taskbar s = (case g_bi s of None \<Rightarrow> s | Some bi \<Rightarrow> draw_taskbar_on bi (g_start_open s) s)"

text \<open>The frame that the start menu and the widgets share.\<close>

definition card_frame :: "u32 \<Rightarrow> u32 \<Rightarrow> u32 \<Rightarrow> u32 \<Rightarrow> ('a gfx_scheme \<Rightarrow> 'a gfx_scheme) list" where
  "card_frame x y w h =
     [draw_rect x y w 1 0x334155, draw_rect x (y + h - 1) w 1 0x0B0E14,
      draw_rect x y 1 h 0x334155, draw_rect (x + w - 1) y 1 h 0x0B0E14]"

definition draw_start_menu_on :: "boot_fb \<Rightarrow> 'a gfx_scheme \<Rightarrow> 'a gfx_scheme" where
  "draw_start_menu_on bi =
     (let width = fb_width bi; x = 8; h = 280;
          w = (if 360 + 16 > width then (if width > 16 then width - 16 else 1) else 360);
          y0 = fb_height bi - bar_height bi - h - 12; y = (if sint y0 < 8 then 8 else y0);
          icon_sz = 40; grid_y = y + 50; grid_y2 = grid_y + 76; footer_y = y + h - 48;
          cell = (\<lambda>dx gy. blend_round_rect (x + dx) gy icon_sz icon_sz 8 0x1E293B 255) in
      run
       ([blend_round_rect x y w h 12 0x0E0E12 230] @ card_frame x y w h @
        [draw_lit (x + 20) (y + 20) ''Pinned Apps'' 0xF1F5F9,
         draw_rect (x + 20) (y + 36) (w - 40) 1 0x1E293B,
         cell 24 grid_y, draw_icon_20_scaled (x + 24) grid_y k_icon_shell_20 2,
         draw_lit (x + 26) (grid_y + icon_sz + 8) ''Shell'' 0xCBD5E1,
         cell 104 grid_y, draw_icon_20_scaled (x + 104) grid_y k_icon_explorer_20 2,
         draw_lit (x + 98) (grid_y + icon_sz + 8) ''Explorer'' 0xCBD5E1,
         cell 184 grid_y, draw_icon_20_scaled (x + 184) grid_y k_icon_notepad_20 2,
         draw_lit (x + 180) (grid_y + icon_sz + 8) ''Notepad'' 0xCBD5E1,
         cell 264 grid_y, draw_icon_20_scaled (x + 264) grid_y k_icon_viewer_20 2,
         draw_lit (x + 264) (grid_y + icon_sz + 8) ''Viewer'' 0xCBD5E1,
         cell 24 grid_y2, draw_icon_20_scaled (x + 24) grid_y2 k_icon_shell_20 2,
         draw_lit (x + 26) (grid_y2 + icon_sz + 8) ''Setup'' 0xCBD5E1,
         cell 104 grid_y2, draw_lit (x + 120) (grid_y2 + 16) ''?'' 0x64748B,
         draw_lit (x + 110) (grid_y2 + icon_sz + 8) ''Help'' 0xCBD5E1,
         cell 184 grid_y2, draw_lit (x + 200) (grid_y2 + 16) ''X'' 0x64748B,
         draw_lit (x + 186) (grid_y2 + icon_sz + 8) ''Clear'' 0xCBD5E1,
         draw_rect x footer_y w 1 0x1E293B,
         blend_round_rect (x + 20) (footer_y + 8) 24 24 12 0x3B82F6 255,
         draw_lit (x + 28) (footer_y + 16) ''U'' 0xFFFFFF,
         draw_lit (x + 56) (footer_y + 16) ''Admin User'' 0xF1F5F9]))"

definition draw_start_menu :: "('v, 's) desktop \<Rightarrow> ('v, 's) desktop" where
  "draw_start_menu s =
     (case g_bi s of None \<Rightarrow> s | Some bi \<Rightarrow> if_do (g_start_open s) (draw_start_menu_on bi) s)"

definition draw_desktop_icons :: "'a gfx_scheme \<Rightarrow> 'a gfx_scheme" where
  "draw_desktop_icons s =
     (let x = 24; y = 140; icon_size = 40; step = 90;
          icons = [k_icon_explorer_20, k_icon_shell_20, k_icon_notepad_20, k_icon_viewer_20];
          labels = [''Files'', ''Term'', ''Notes'', ''View''] in
      if_do (g_bi s \<noteq> None) (for_each [0..<4] (\<lambda>i.
        let yi = y + of_nat i * step; len = of_nat (length (labels ! i)); lx = x + icon_size div 2 - len * 4 in
        run [blend_round_rect (x - 8) (yi - 8) (icon_size + 16) (icon_size + 36) 8 0x1E293B 100,
             draw_icon_20_scaled x yi (icons ! i) 2,
             draw_lit lx (yi + icon_size + 8) (labels ! i) 0xF8FAFC])) s)"

section \<open>Widgets\<close>

definition weather_card :: "u32 \<Rightarrow> u32 \<Rightarrow> 'a gfx_scheme \<Rightarrow> 'a gfx_scheme" where
  "weather_card x y =
     (let w = 340; card_h1 = 110 in
      run ([blend_round_rect x y w card_h1 14 0x0E1420 220] @ card_frame x y w card_h1 @
       [draw_lit (x + 20) (y + 20) ''WEATHER'' 0x64748B,
        draw_lit (x + 20) (y + 44) ''Sunny'' 0xF1F5F9,
        draw_lit (x + 240) (y + 36) ''73F'' 0x38BDF8,
        draw_lit (x + 20) (y + 68) ''High: 80F  Low: 62F'' 0x94A3B8]))"

definition system_card :: "hw_profile \<Rightarrow> u32 \<Rightarrow> u32 \<Rightarrow> 'a gfx_scheme \<Rightarrow> 'a gfx_scheme" where
  "system_card p x y =
     (let w = 340; card_h2 = 130; ram_mb = ucast (ram_usable_bytes p div (1024 * 1024)) in
      run ([blend_round_rect x y w card_h2 14 0x0E1420 220] @ card_frame x y w card_h2 @
       [draw_lit (x + 20) (y + 20) ''SYSTEM'' 0x64748B,
        draw_lit (x + 20) (y + 44) ''CPU:'' 0x94A3B8,
        draw_string_8x8 (x + 60) (y + 44)
          (Some (if cpu_brand p ! 0 \<noteq> 0 then cpu_brand p else lit ''Unknown'')) 0xF1F5F9,
        draw_lit (x + 20) (y + 68) ''RAM:'' 0x94A3B8,
        draw_string_8x8 (x + 60) (y + 68) (Some (shell_u32_to_dec ram_mb)) 0xF1F5F9,
        draw_lit (x + 60 + 8 * 8) (y + 68) ''MB'' 0xF1F5F9,
        draw_lit (x + 20) (y + 92) ''GPU:'' 0x94A3B8,
        draw_lit (x + 60) (y + 92) (if has_pci_display p \<noteq> 0 then ''PCI Display'' else ''None'') 0xF1F5F9]))"

definition calendar_card :: "u32 \<Rightarrow> u32 \<Rightarrow> 'a gfx_scheme \<Rightarrow> 'a gfx_scheme" where
  "calendar_card x y =
     (let w = 340; card_h3 = 180 in
      run ([blend_round_rect x y w card_h3 14 0x0E1420 220] @ card_frame x y w card_h3 @
       [draw_lit (x + 20) (y + 20) ''CALENDAR'' 0x64748B,
        draw_lit (x + 20) (y + 44) ''June 2026'' 0xF1F5F9,
        draw_rect (x + 20) (y + 64) (w - 40) 1 0x1E293B,
        blend_round_rect (x + 20) (y + 76) 24 24 4 0x3B82F6 255,
        draw_lit (x + 24) (y + 84) ''13'' 0xFFFFFF,
        draw_lit (x + 56) (y + 84) ''Team Meeting 11:00'' 0xCBD5E1,
        draw_lit (x + 24) (y + 116) ''14'' 0x94A3B8,
        draw_lit (x + 56) (y + 116) ''Project Deadline 3:00'' 0xCBD5E1,
        draw_lit (x + 24) (y + 148) ''15'' 0x94A3B8,
        draw_lit (x + 56) (y + 148) ''Review PRs'' 0xCBD5E1]))"

definition draw_widgets_on :: "boot_fb \<Rightarrow> hw_profile \<Rightarrow> 'a gfx_scheme \<Rightarrow> 'a gfx_scheme" where
  "draw_widgets_on bi p =
     (let width = fb_width bi; w = 340; x = (if width > w + 24 then width - w - 24 else 8);
          y1 = 96; y2 = y1 + 110 + 16; y3 = y2 + 130 + 16; floor = fb_height bi - bar_height bi in
      if_do (\<not> y1 + 110 + 16 > floor) (run
       [weather_card x y1,
        if_do (\<not> y2 + 130 > floor) (run
         [system_card p x y2,
          if_do (\<not> y3 + 180 > floor) (calendar_card x y3)])]))"

definition draw_widgets :: "('v, 's) desktop \<Rightarrow> ('v, 's) desktop" where
  "draw_widgets s = (case g_bi s of None \<Rightarrow> s | Some bi \<Rightarrow> draw_widgets_on bi (g_hw (dk_hw s)) s)"

section \<open>Background and text panel\<close>

definition sky_color :: "u32 \<Rightarrow> u32 \<Rightarrow> u32 \<Rightarrow> u32" where
  "sky_color h horizon y =
     (let (r, g, b) =
        (if y < horizon then
           let t = (y * 255) div (if horizon \<noteq> 0 then horizon else 1) in
           (10 + (t * 18) div 255, 14 + (t * 26) div 255, 24 + (t * 60) div 255)
         else
           let t = ((y - horizon) * 255) div (if h - horizon \<noteq> 0 then h - horizon else 1) in
           (10 + (t * 10) div 255, 30 + (t * 60) div 255, 50 + (t * 80) div 255))
      in push_bit 16 r OR push_bit 8 g OR b)"

definition draw_star :: "u32 \<Rightarrow> u32 \<Rightarrow> 'a gfx_scheme \<Rightarrow> 'a gfx_scheme" where
  "draw_star w horizon s =
     (let (r0, s) = shell_next_rand s; sx = r0 mod (if w \<noteq> 0 then w else 1);
          (r1, s) = shell_next_rand s; sy = r1 mod (if horizon \<noteq> 0 then horizon else 1) in
      put_px sx sy (if r0 AND 7 = 0 then 0xFFFFFF else 0xE8F0FF) s)"

text \<open>The values from \<open>-r\<close> to \<open>r\<close>.\<close>

definition centred :: "u32 \<Rightarrow> i32 list" where
  "centred r = map (\<lambda>k. of_nat k - r) [0..<2 * unat r + 1]"

definition draw_disc :: "u32 \<Rightarrow> u32 \<Rightarrow> u32 \<Rightarrow> u32 \<Rightarrow> u32 \<Rightarrow> 'a gfx_scheme \<Rightarrow> 'a gfx_scheme" where
  "draw_disc w horizon cx cy rr =
     for_each (centred rr) (\<lambda>dy. for_each (centred rr) (\<lambda>dx.
       let dd = dx * dx + dy * dy; px = cx + dx; py = cy + dy in
       if_do (dd \<le> rr * rr \<and> px < w \<and> py < horizon)
         (put_px px py (if dd > rr * rr * 7 div 10 then 0x6A88C8 else 0xB0C8FF))))"

definition draw_background_on :: "boot_fb \<Rightarrow> 'a gfx_scheme \<Rightarrow> 'a gfx_scheme" where
  "draw_background_on bi =
     (let h = (if fb_height bi \<noteq> 0 then fb_height bi else 1); w = fb_width bi;
          hz = (h * 52) div 100; horizon = (if hz \<ge> h then h - 1 else hz) in
      run
       [for_each (upto_u32 0 h) (\<lambda>y. for_each (upto_u32 0 w) (\<lambda>x.
          store (unat (y * fb_pitch bi) + unat x) (sky_color h horizon y))),
        for_each (upto_u32 0 w) (\<lambda>x. store (unat (horizon * fb_pitch bi + x)) 0xB0C8FF),
        for_each [0..<220] (\<lambda>_ :: nat. draw_star w horizon),
        for_each (upto_u32 0 3) (\<lambda>i.
          draw_disc w horizon (w * (55 + i * 7) div 100) (h * (22 + i * 3) div 100) (140 - i * 30))])"

definition draw_background :: "'a gfx_scheme \<Rightarrow> 'a gfx_scheme" where
  "draw_background s = (case g_bi s of None \<Rightarrow> s | Some bi \<Rightarrow> draw_background_on bi s)"

fun draw_panel_loop :: "u32 \<Rightarrow> u32 \<Rightarrow> u32 \<Rightarrow> u32 \<Rightarrow> u8 list \<Rightarrow> 'a gfx_scheme \<Rightarrow> 'a gfx_scheme" where
  "draw_panel_loop cols rows cx cy [] s = s"
| "draw_panel_loop cols rows cx cy (c # cs) s =
     (if c = 10 then
        (if cy + 1 \<ge> rows then s else draw_panel_loop cols rows 0 (cy + 1) cs s)
      else if c = 9 then
        let cx = (cx + 4) AND NOT 3; cy' = (if cx \<ge> cols then cy + 1 else cy); cx = (if cx \<ge> cols then 0 else cx) in
        if cy' \<ge> rows then s else draw_panel_loop cols rows cx cy' cs s
      else
        let s = if_do (cx < cols \<and> cy < rows) (draw_glyph_8x8 (16 + cx * 8) (16 + cy * 8) c 0xE0E0E0) s in
        if cx + 1 \<ge> cols then
          (if cy + 1 \<ge> rows then s else draw_panel_loop cols rows 0 (cy + 1) cs s)
        else draw_panel_loop cols rows (cx + 1) cy cs s)"

definition draw_text_panel :: "('v, 's) desktop \<Rightarrow> ('v, 's) desktop" where
  "draw_text_panel s =
     (case g_bi s of None \<Rightarrow> s
      | Some bi \<Rightarrow>
          let panel_h = (if 96 > fb_height bi then fb_height bi else 96); width = fb_width bi;
              cols = (width - 32) div 8; rows = (panel_h - 16) div 8; max_chars = cols * rows;
              len = g_text_len s; start = (if len > max_chars then len - max_chars else 0) in
          run
           [draw_rect 8 8 (width - 16) panel_h 0x101010,
            draw_rect 8 8 (width - 16) 1 0x303030,
            draw_rect 8 (8 + panel_h - 1) (width - 16) 1 0x303030,
            if_do (\<not> (cols = 0 \<or> rows = 0))
              (draw_panel_loop cols rows 0 0 (drop (unat start) (take (unat len) (g_text s))))] s)"

end
