(* ===== verification/Desktop.thy ===== *)
theory Desktop
  imports Shell DeskDraw
begin

text \<open>
  The desktop proper, \<open>src/kernel/core/desktop.c\<close>: its initialisation, and one tick of its loop:
  the keyboard queue, the clicks, the drags, the redraw. A handler returns whether it changed what
  is to be seen, with the new state; \<open>desktop_tick\<close> has the outcome of the terminal's commands.
  The arrays \<open>g_app_z\<close> and \<open>g_app_z_len\<close> are only ever written and are left out.
\<close>

section \<open>Initialisation\<close>

text \<open>\<open>(uint32_t *)kmalloc(bytes)\<close>, stored in a pointer that then points to \<open>b\<close>.\<close>

definition alloc_surface :: "u32 \<Rightarrow> surface \<Rightarrow> ('v, 's) desktop \<Rightarrow> (surface option \<times> ('v, 's) desktop) option" where
  "alloc_surface bytes b s =
     (case kmalloc (ucast bytes) (rf_heap (dk_ramfs s)) of
        None \<Rightarrow> None
      | Some (p, h) \<Rightarrow> Some (if p = 0 then None else Some b, s\<lparr>dk_ramfs := (dk_ramfs s)\<lparr>rf_heap := h\<rparr>\<rparr>))"

definition alloc_buffers :: "u32 \<Rightarrow> ('v, 's) desktop \<Rightarrow> ('v, 's) desktop option" where
  "alloc_buffers bytes s =
     (case alloc_surface bytes Back_buffer s of
        None \<Rightarrow> None
      | Some (b, s) \<Rightarrow>
          case alloc_surface bytes Bg_buffer (s\<lparr>g_back := b\<rparr>) of
            None \<Rightarrow> None
          | Some (g, s) \<Rightarrow> Some (s\<lparr>g_bg := g\<rparr>))"

definition init_buffers :: "boot_fb \<Rightarrow> ('v, 's) desktop \<Rightarrow> ('v, 's) desktop option" where
  "init_buffers bi s =
     (let bytes = ucast (fb_pitch bi) * ucast (fb_height bi) * 4 :: u64; p = g_hw (dk_hw s);
          min_free = 16 * 1024 * 1024 in
      if fb_pitch bi = 0 \<or> fb_height bi = 0 then Some s
      else if \<not> bytes \<le> 0xFFFFFFFF then Some s
      else if hw_tuning_allow_backbuffer (dk_hw s) bytes then alloc_buffers (ucast bytes) s
      else if ram_usable_bytes p \<noteq> 0 \<and> bytes + min_free \<le> ram_usable_bytes p
      then alloc_buffers (ucast bytes) s
      else Some s)"

text \<open>The assignments before the buffers are allocated.\<close>

definition init_reset :: "boot_fb \<Rightarrow> ('v, 's) desktop \<Rightarrow> ('v, 's) desktop" where
  "init_reset bi s =
     s\<lparr>g_bi := Some bi, g_tick := 0, g_back := None, g_bg := None, g_text_len := 0, g_start_open := False,
       g_show_shell := False, g_shell_out_len := 0, g_shell_line_len := 0, g_rand_state := 0xC001D00D,
       g_last_ptr := zero_pointer, g_shell_drag := zero_drag, g_explorer_open := False, g_viewer_open := False,
       g_explorer_drag := (g_explorer_drag s)\<lparr>dragging := False\<rparr>,
       g_viewer_drag := (g_viewer_drag s)\<lparr>dragging := False\<rparr>,
       g_viewer_name := store_at 0 0 (g_viewer_name s), g_viewer_text := store_at 0 0 (g_viewer_text s),
       g_viewer_text_len := 0, g_explorer_scroll := 0, g_viewer_scroll := 0, g_explorer_selected := 0xFFFFFFFF,
       g_explorer_last_click_tick := 0, g_explorer_last_click_index := 0xFFFFFFFF,
       g_app_open := (\<lambda>_. False), g_app_focus := APP_SHELL, g_notepad_drag := zero_drag,
       g_notepad_name := store_at 0 0 (g_notepad_name s), g_notepad_text := store_at 0 0 (g_notepad_text s),
       g_notepad_text_len := 0, g_notepad_scroll := 0, g_setup_drag := zero_drag\<rparr>"

definition at_least :: "int \<Rightarrow> i32 \<Rightarrow> i32" where
  "at_least n v = (if sint v < n then word_of_int n else v)"

text \<open>
  The windows. The notepad window is first moved onto the screen and then placed relative to the
  viewer's window, which discards the first move.
\<close>

definition init_windows :: "boot_fb \<Rightarrow> ('v, 's) desktop \<Rightarrow> ('v, 's) desktop" where
  "init_windows bi s =
     (let sh = \<lparr>win_x = 16, win_y = 48, win_w = at_least 220 (fb_width bi * 2 div 3), win_h = at_least 140 (fb_height bi div 2)\<rparr>;
          ex = \<lparr>win_x = win_x sh + 40, win_y = win_y sh + 40, win_w = 320, win_h = 220\<rparr>;
          vi = \<lparr>win_x = win_x ex + 40, win_y = win_y ex + 40, win_w = 420, win_h = 280\<rparr>;
          n0 = g_notepad_win s;
          n1 = (if sint (win_x n0 + win_w n0) > sint (fb_width bi) then n0\<lparr>win_x := 8\<rparr> else n0);
          n2 = (if sint (win_y n1 + win_h n1) > sint (fb_height bi) then n1\<lparr>win_y := 48\<rparr> else n1);
          no = n2\<lparr>win_x := win_x vi + 40, win_y := win_y vi + 40, win_w := 520, win_h := 320\<rparr>;
          se = \<lparr>win_x = at_least 16 ((fb_width bi - 480) div 2), win_y = at_least 16 ((fb_height bi - 320) div 2),
                win_w = 480, win_h = 320\<rparr> in
      s\<lparr>g_shell_win := sh, g_explorer_win := ex, g_viewer_win := vi, g_notepad_win := no,
        g_notepad_name := copy_name_loop (g_notepad_name s) (lit ''note.txt'') 0 64,
        g_setup_win := se, g_setup_open := False, g_setup_step := 0, g_setup_disk_ready := False,
        g_setup_partition_done := False, g_setup_format_done := False\<rparr>)"

section \<open>The frame\<close>

text \<open>
  Icons, widgets, the open windows, the task bar and the menu. No drawing function changes the
  flags and windows that are read here.
\<close>

definition draw_scene :: "('v, 's) desktop \<Rightarrow> ('v, 's) desktop" where
  "draw_scene s =
     run [draw_desktop_icons, draw_widgets,
          if_do (g_show_shell s) (draw_shell_window (g_shell_win s)),
          if_do (g_explorer_open s) (draw_explorer_window (g_explorer_win s)),
          if_do (g_viewer_open s) (draw_viewer_window (g_viewer_win s)),
          if_do (g_app_open s APP_NOTEPAD) (draw_notepad_window (g_notepad_win s)),
          if_do (g_setup_open s) (draw_setup_window (g_setup_win s)),
          draw_taskbar, draw_start_menu] s"

definition draw_pointer :: "pointer \<Rightarrow> 'a gfx_scheme \<Rightarrow> 'a gfx_scheme" where
  "draw_pointer p =
     draw_cursor (ptr_x p) (ptr_y p)
       (if ptr_buttons p AND 1 \<noteq> 0 then 0xFFCC00 else if ptr_buttons p AND 2 \<noteq> 0 then 0x00CCFF else 0xFFFFFF) 0"

text \<open>The small square that follows the pointer during a drag.\<close>

definition draw_drag_mark :: "pointer \<Rightarrow> 'a gfx_scheme \<Rightarrow> 'a gfx_scheme" where
  "draw_drag_mark p =
     (let ix = at_least 0 (ptr_x p + 18); iy = at_least 0 (ptr_y p + 18) in
      if_do (ptr_buttons p AND 1 \<noteq> 0 \<and> (ptr_dx p \<noteq> 0 \<or> ptr_dy p \<noteq> 0)) (run
       [draw_rect ix iy 5 5 0xFFCC00, draw_rect ix iy 5 1 0, draw_rect ix (iy + 4) 5 1 0]))"

definition note_cursor :: "pointer \<Rightarrow> ('v, 's) desktop \<Rightarrow> ('v, 's) desktop" where
  "note_cursor p s = s\<lparr>g_last_cursor_x := ptr_x p, g_last_cursor_y := ptr_y p, g_last_cursor_buttons := ptr_buttons p\<rparr>"

definition present_frame :: "boot_fb \<Rightarrow> surface option \<Rightarrow> surface option \<Rightarrow> 'a gfx_scheme \<Rightarrow> 'a gfx_scheme" where
  "present_frame bi dst src = blit_rect dst src 0 0 (fb_width bi) (fb_height bi)"

definition redraw_direct :: "('v, 's) desktop \<Rightarrow> ('v, 's) desktop" where
  "redraw_direct s =
     (let p = input_pointer_get (dk_input s) in
      run [draw_background, draw_scene, draw_pointer p, draw_drag_mark p, note_cursor p] s)"

definition redraw_buffered :: "boot_fb \<Rightarrow> bool \<Rightarrow> ('v, 's) desktop \<Rightarrow> ('v, 's) desktop" where
  "redraw_buffered bi ui_changed s0 =
     (let s = (if ui_changed then s0\<lparr>g_desktop_dirty := True\<rparr> else s0);
          s = (if g_desktop_dirty s \<or> g_tick s < 2
               then (draw_scene (present_frame bi (g_back s) (g_bg s) s))\<lparr>g_desktop_dirty := False\<rparr> else s);
          p = input_pointer_get (dk_input s) in
      if g_desktop_dirty s \<or> ui_changed \<or> ptr_x p \<noteq> g_last_cursor_x s \<or> ptr_y p \<noteq> g_last_cursor_y s \<or>
         ptr_buttons p \<noteq> g_last_cursor_buttons s \<or> g_tick s < 2
      then
        let s = present_frame bi (Some Framebuffer) (g_back s) s; saved_back = g_back s;
            s = run [draw_pointer p, draw_drag_mark p] (s\<lparr>g_back := None\<rparr>) in
        note_cursor p (s\<lparr>g_back := saved_back\<rparr>)
      else s)"

definition desktop_redraw :: "boot_fb \<Rightarrow> bool \<Rightarrow> ('v, 's) desktop \<Rightarrow> ('v, 's) desktop" where
  "desktop_redraw bi ui_changed s =
     (if g_back s = None \<or> g_bg s = None then redraw_direct s else redraw_buffered bi ui_changed s)"

text \<open>The first frame: the background is rendered once into its own buffer.\<close>

definition init_background :: "('v, 's) desktop \<Rightarrow> ('v, 's) desktop" where
  "init_background s =
     (let saved = g_rand_state s; saved_back = g_back s;
          s = draw_background (s\<lparr>g_back := g_bg s, g_rand_state := 0xC001D00D\<rparr>) in
      s\<lparr>g_rand_state := saved, g_back := saved_back\<rparr>)"

definition init_frame :: "boot_fb \<Rightarrow> ('v, 's) desktop \<Rightarrow> ('v, 's) desktop" where
  "init_frame bi s =
     (if g_back s \<noteq> None \<and> g_bg s \<noteq> None then
        let s = init_background s; s = draw_scene (present_frame bi (g_back s) (g_bg s) s);
            s = draw_pointer (input_pointer_get (dk_input s)) s in
        present_frame bi (Some Framebuffer) (g_back s) s
      else draw_background s)"

definition desktop_init :: "boot_fb option \<Rightarrow> ('v, 's) desktop \<Rightarrow> ('v, 's) desktop outcome" where
  "desktop_init bootInfo s0 =
     (case bootInfo of
        None \<Rightarrow> Fault
      | Some bi \<Rightarrow>
          case init_buffers bi (init_reset bi s0) of
            None \<Rightarrow> Timeout
          | Some s \<Rightarrow>
              let s = s\<lparr>g_last_cursor_x := - 1000, g_last_cursor_y := - 1000, g_last_cursor_buttons := 0,
                        dk_input := input_init (fb_width bi) (fb_height bi) (dk_input s)\<rparr> in
              Ret (init_frame bi (init_windows bi (out ''> '' s))))"

section \<open>Keyboard\<close>

text \<open>Editing keys: the character is stored behind the text and a terminator behind it.\<close>

definition notepad_key :: "u8 \<Rightarrow> ('v, 's) desktop \<Rightarrow> bool \<times> ('v, 's) desktop" where
  "notepad_key c s =
     (let len = g_notepad_text_len s in
      if c = 8 then
        (if len \<noteq> 0 then (True, s\<lparr>g_notepad_text_len := len - 1,
                                g_notepad_text := store_at (unat (len - 1)) 0 (g_notepad_text s)\<rparr>)
         else (False, s))
      else if c = 10 \<or> c \<ge> 32 \<and> c \<le> 126 then
        (if len + 1 < 4096 then
           (True, s\<lparr>g_notepad_text := store_at (unat (len + 1)) 0 (store_at (unat len) c (g_notepad_text s)),
                    g_notepad_text_len := len + 1\<rparr>)
         else (False, s))
      else (False, s))"

definition shell_key :: "nat \<Rightarrow> ('v, 's) blk_driver \<Rightarrow> u8 \<Rightarrow> ('v, 's) desktop \<Rightarrow> (bool \<times> ('v, 's) desktop) outcome" where
  "shell_key fuel dr c s =
     (let len = g_shell_line_len s in
      if c = 8 then
        (if len \<noteq> 0 then Ret (True, s\<lparr>g_shell_line_len := len - 1,
                                    g_shell_line := store_at (unat (len - 1)) 0 (g_shell_line s)\<rparr>)
         else Ret (False, s))
      else if c = 10 then
        (case shell_run_line fuel dr s of Ret s \<Rightarrow> Ret (True, s)
         | Stop \<Rightarrow> Stop | Fault \<Rightarrow> Fault | Timeout \<Rightarrow> Timeout)
      else if c \<ge> 32 \<and> c \<le> 126 then
        (if len + 1 < 256 then
           Ret (True, s\<lparr>g_shell_line := store_at (unat (len + 1)) 0 (store_at (unat len) c (g_shell_line s)),
                        g_shell_line_len := len + 1\<rparr>)
         else Ret (False, s))
      else Ret (False, s))"

definition route_key :: "nat \<Rightarrow> ('v, 's) blk_driver \<Rightarrow> u8 \<Rightarrow> ('v, 's) desktop \<Rightarrow> (bool \<times> ('v, 's) desktop) outcome" where
  "route_key fuel dr c s =
     (if g_app_focus s = APP_NOTEPAD \<and> g_app_open s APP_NOTEPAD then Ret (notepad_key c s)
      else if g_app_focus s = APP_SHELL \<and> g_show_shell s \<and> g_app_open s APP_SHELL then shell_key fuel dr c s
      else Ret (False, s))"

text \<open>At most \<open>n\<close> characters are taken in one tick.\<close>

fun keyboard_loop ::
  "nat \<Rightarrow> nat \<Rightarrow> ('v, 's) blk_driver \<Rightarrow> bool \<Rightarrow> ('v, 's) desktop \<Rightarrow> (bool \<times> ('v, 's) desktop) outcome" where
  "keyboard_loop 0 fuel dr ui s = Ret (ui, s)"
| "keyboard_loop (Suc n) fuel dr ui s =
     (let (c, i) = input_kbd_pop_char True (dk_input s); s = s\<lparr>dk_input := i\<rparr> in
      case c of
        None \<Rightarrow> Ret (ui, s)
      | Some c \<Rightarrow>
          case route_key fuel dr c s of
            Ret (ch, s) \<Rightarrow> keyboard_loop n fuel dr (ui \<or> ch) s
          | Stop \<Rightarrow> Stop | Fault \<Rightarrow> Fault | Timeout \<Rightarrow> Timeout)"

section \<open>Clicks\<close>

definition open_explorer :: "('v, 's) blk_driver \<Rightarrow> ('v, 's) desktop \<Rightarrow> ('v, 's) desktop" where
  "open_explorer dr s0 =
     (let (ok, s) = dk_fs_init dr s0 in
      if ok then focus_app APP_EXPLORER (s\<lparr>g_explorer_open := True\<rparr>)
      else out ''> '' (out_line ''fs init failed'' s))"

definition open_shell :: "('v, 's) desktop \<Rightarrow> ('v, 's) desktop" where
  "open_shell s = focus_app APP_SHELL (s\<lparr>g_show_shell := True\<rparr>)"

text \<open>The entries of the start menu by the row of the pointer, counted from the menu's top.\<close>

definition start_entry :: "('v, 's) blk_driver \<Rightarrow> i32 \<Rightarrow> ('v, 's) desktop \<Rightarrow> bool \<times> ('v, 's) desktop" where
  "start_entry dr ry s =
     (let row = (\<lambda>a b. sint ry \<ge> a \<and> sint ry < b); closed = (\<lambda>s. (True, s\<lparr>g_start_open := False\<rparr>)) in
      if row 8 24 then closed (open_shell s)
      else if row 32 48 then closed (open_explorer dr s)
      else if row 56 72 then closed (focus_app APP_NOTEPAD s)
      else if row 80 96 then closed (s\<lparr>g_setup_open := True, g_setup_step := 0\<rparr>)
      else if row 104 120 then closed (run [out_line [], out_line ''help clear echo mem'', out ''> ''] s)
      else if row 128 144 then
        closed (out ''> '' (s\<lparr>g_shell_out_len := 0, g_shell_line_len := 0, g_shell_line := store_at 0 0 (g_shell_line s)\<rparr>))
      else (False, s))"

definition start_click :: "boot_fb \<Rightarrow> ('v, 's) blk_driver \<Rightarrow> pointer \<Rightarrow> ('v, 's) desktop \<Rightarrow> bool \<times> ('v, 's) desktop" where
  "start_click bi dr p s =
     (let bar_h = bar_height bi; tb_y = fb_height bi - bar_h; my = tb_y - 144 in
      if hit_test (ptr_x p) (ptr_y p) 8 (tb_y + 4) 72 (bar_h - 8) then
        (True, s\<lparr>g_start_open := \<not> g_start_open s, g_shell_drag := (g_shell_drag s)\<lparr>dragging := False\<rparr>\<rparr>)
      else if g_start_open s then
        (if hit_test (ptr_x p) (ptr_y p) 8 my 160 144 then start_entry dr (ptr_y p - my) s
         else (True, s\<lparr>g_start_open := False\<rparr>))
      else (False, s))"

text \<open>The dock: the number of the icon that is hit among the first \<open>n\<close>, counted from \<open>i\<close>.\<close>

fun dock_hit :: "nat \<Rightarrow> nat \<Rightarrow> pointer \<Rightarrow> u32 \<Rightarrow> u32 \<Rightarrow> u32 \<Rightarrow> nat option" where
  "dock_hit 0 i p ix iy x_end = None"
| "dock_hit (Suc n) i p ix iy x_end =
     (if hit_test (ptr_x p) (ptr_y p) ix iy 40 40 then Some i
      else if ix + 50 + 40 + 16 > x_end then None
      else dock_hit n (i + 1) p (ix + 50) iy x_end)"

definition dock_click :: "boot_fb \<Rightarrow> ('v, 's) blk_driver \<Rightarrow> pointer \<Rightarrow> ('v, 's) desktop \<Rightarrow> bool \<times> ('v, 's) desktop" where
  "dock_click bi dr p s =
     (let width = fb_width bi; bar_h = bar_height bi; sy = fb_height bi - bar_h + 6; sh = bar_h - 12;
          dock_w = (if 420 + 32 > width then (if width > 32 then width - 32 else 1) else 420);
          dock_x = (width - dock_w) div 2; iy = sy + (if sh > 40 then (sh - 40) div 2 else 0) in
      case dock_hit 4 0 p (dock_x + 16) iy (dock_x + dock_w) of
        None \<Rightarrow> (False, s)
      | Some i \<Rightarrow>
          (True, if i = 0 then open_shell s
                 else if i = 1 then open_explorer dr s
                 else if i = 2 then focus_app APP_VIEWER (s\<lparr>g_viewer_open := True\<rparr>)
                 else focus_app APP_NOTEPAD s))"

text \<open>
  The hit areas of a window's title bar, relative to its position and width: the close button,
  the two scroll buttons, the bar that drags it.
\<close>

definition hit_close :: "pointer \<Rightarrow> wm_window \<Rightarrow> bool" where
  "hit_close p w = hit_test (ptr_x p) (ptr_y p) (win_x w + win_w w - 20) (win_y w + 2) 16 12"

definition hit_up :: "pointer \<Rightarrow> wm_window \<Rightarrow> bool" where
  "hit_up p w = hit_test (ptr_x p) (ptr_y p) (win_x w + win_w w - 40) (win_y w + 2) 8 12"

definition hit_down :: "pointer \<Rightarrow> wm_window \<Rightarrow> bool" where
  "hit_down p w = hit_test (ptr_x p) (ptr_y p) (win_x w + win_w w - 30) (win_y w + 2) 8 12"

definition hit_bar :: "pointer \<Rightarrow> wm_window \<Rightarrow> bool" where
  "hit_bar p w = hit_test (ptr_x p) (ptr_y p) (win_x w) (win_y w) (win_w w) 16"

definition grab :: "pointer \<Rightarrow> wm_window \<Rightarrow> drag" where
  "grab p w = \<lparr>dragging = True, drag_off_x = ptr_x p - win_x w, drag_off_y = ptr_y p - win_y w\<rparr>"

definition let_go :: "drag \<Rightarrow> drag" where
  "let_go d = d\<lparr>dragging := False\<rparr>"

text \<open>\<open>if (scroll) scroll--;\<close>\<close>

definition scroll_up :: "u32 \<Rightarrow> u32" where
  "scroll_up n = (if n \<noteq> 0 then n - 1 else n)"

text \<open>A click on the row of a file: the first selects it, a second within 25 ticks opens it.\<close>

definition explorer_pick :: "('v, 's) blk_driver \<Rightarrow> u32 \<Rightarrow> u8 list \<Rightarrow> ('v, 's) desktop \<Rightarrow> ('v, 's) desktop" where
  "explorer_pick dr idx name s0 =
     (let s = s0\<lparr>g_explorer_selected := idx\<rparr>; dt = g_tick s - g_explorer_last_click_tick s;
          s = (if g_explorer_last_click_index s = idx \<and> dt < 25 then
                 let (ok, s) = viewer_read dr name s in
                 if ok then focus_app APP_VIEWER
                   (s\<lparr>g_viewer_scroll := 0, g_viewer_name := copy_name_loop (replicate 64 0) name 0 64,
                      g_viewer_open := True\<rparr>)
                 else s
               else s) in
      s\<lparr>g_explorer_last_click_tick := g_tick s, g_explorer_last_click_index := idx\<rparr>)"

definition explorer_list_click :: "('v, 's) blk_driver \<Rightarrow> pointer \<Rightarrow> ('v, 's) desktop \<Rightarrow> bool \<times> ('v, 's) desktop" where
  "explorer_list_click dr p s =
     (let w = g_explorer_win s; list_y = win_y w + 24 in
      if hit_test (ptr_x p) (ptr_y p) (win_x w + 8) list_y (win_w w - 16) (win_h w - 32) then
        let idx = g_explorer_scroll s + word_of_int (c_div (sint (ptr_y p - list_y)) 10) in
        case simplefs_file_name_at idx (Some (replicate 64 0)) 64 (dk_fs s) of
          (True, Some name) \<Rightarrow> (True, explorer_pick dr idx name s)
        | _ \<Rightarrow> (False, s)
      else (False, s))"

definition explorer_click :: "('v, 's) blk_driver \<Rightarrow> pointer \<Rightarrow> ('v, 's) desktop \<Rightarrow> bool \<times> ('v, 's) desktop" where
  "explorer_click dr p s =
     (let w = g_explorer_win s in
      if \<not> g_explorer_open s then (False, s)
      else if hit_close p w then (True, s\<lparr>g_explorer_open := False, g_explorer_drag := let_go (g_explorer_drag s)\<rparr>)
      else if hit_up p w then (True, s\<lparr>g_explorer_scroll := scroll_up (g_explorer_scroll s)\<rparr>)
      else if hit_down p w then (True, s\<lparr>g_explorer_scroll := g_explorer_scroll s + 1\<rparr>)
      else if hit_bar p w then (True, focus_app APP_EXPLORER (s\<lparr>g_explorer_drag := grab p w\<rparr>))
      else explorer_list_click dr p s)"

definition viewer_click :: "pointer \<Rightarrow> ('v, 's) desktop \<Rightarrow> bool \<times> ('v, 's) desktop" where
  "viewer_click p s =
     (let w = g_viewer_win s in
      if \<not> g_viewer_open s then (False, s)
      else if hit_close p w then (True, s\<lparr>g_viewer_open := False, g_viewer_drag := let_go (g_viewer_drag s)\<rparr>)
      else if hit_up p w then (True, s\<lparr>g_viewer_scroll := scroll_up (g_viewer_scroll s)\<rparr>)
      else if hit_down p w then (True, s\<lparr>g_viewer_scroll := g_viewer_scroll s + 1\<rparr>)
      else if hit_bar p w then (True, focus_app APP_VIEWER (s\<lparr>g_viewer_drag := grab p w\<rparr>))
      else (False, s))"

definition notepad_save :: "('v, 's) blk_driver \<Rightarrow> ('v, 's) desktop \<Rightarrow> ('v, 's) desktop" where
  "notepad_save dr s0 =
     (let (ok, s) = dk_fs_init dr s0 in
      if ok then
        let (ok, f) = simplefs_write_file dr (Some (g_notepad_name s)) (Some (g_notepad_text s))
                        (g_notepad_text_len s) (dk_fs s);
            s = s\<lparr>dk_fs := f\<rparr> in
        if ok then out ''> '' (out_line ''notepad: saved'' s) else out ''> '' (out_line ''notepad: save failed'' s)
      else out ''> '' (out_line ''notepad: fs init failed'' s))"

definition notepad_click :: "('v, 's) blk_driver \<Rightarrow> pointer \<Rightarrow> ('v, 's) desktop \<Rightarrow> bool \<times> ('v, 's) desktop" where
  "notepad_click dr p s =
     (let w = g_notepad_win s; hit = (\<lambda>x y. hit_test (ptr_x p) (ptr_y p) x y) in
      if \<not> g_app_open s APP_NOTEPAD then (False, s)
      else if hit_close p w then
        (True, s\<lparr>g_app_open := (g_app_open s)(APP_NOTEPAD := False), g_notepad_drag := let_go (g_notepad_drag s)\<rparr>)
      else if hit (win_x w + win_w w - 62) (win_y w + 2) 18 12 then (True, notepad_save dr s)
      else if hit_up p w then (True, s\<lparr>g_notepad_scroll := scroll_up (g_notepad_scroll s)\<rparr>)
      else if hit_down p w then (True, s\<lparr>g_notepad_scroll := g_notepad_scroll s + 1\<rparr>)
      else if hit_bar p w then (True, s\<lparr>g_notepad_drag := grab p w, g_app_focus := APP_NOTEPAD\<rparr>)
      else if hit (win_x w) (win_y w) (win_w w) (win_h w) then (True, s\<lparr>g_app_focus := APP_NOTEPAD\<rparr>)
      else (False, s))"

text \<open>The step the Next button takes.\<close>

definition setup_next :: "('v, 's) desktop \<Rightarrow> ('v, 's) desktop" where
  "setup_next s =
     (if g_setup_step s = 5 then out ''> '' (out_line ''setup: complete'' (s\<lparr>g_setup_open := False\<rparr>))
      else
        let s' = (if g_setup_step s = 0 then s\<lparr>g_setup_disk_ready := True\<rparr>
                  else if g_setup_step s = 1 then s\<lparr>g_setup_partition_done := True\<rparr>
                  else if g_setup_step s = 2 then s\<lparr>g_setup_format_done := True\<rparr>
                  else s) in
        s'\<lparr>g_setup_step := g_setup_step s' + 1\<rparr>)"

definition setup_click :: "pointer \<Rightarrow> ('v, 's) desktop \<Rightarrow> bool \<times> ('v, 's) desktop" where
  "setup_click p s =
     (let w = g_setup_win s; hit = (\<lambda>x y. hit_test (ptr_x p) (ptr_y p) x y); btn_y = win_y w + win_h w - 28 in
      if \<not> g_setup_open s then (False, s)
      else if hit_close p w then (True, s\<lparr>g_setup_open := False, g_setup_drag := let_go (g_setup_drag s)\<rparr>)
      else if hit_bar p w then (True, s\<lparr>g_setup_drag := grab p w\<rparr>)
      else if g_setup_step s > 0 \<and> hit (win_x w + 16) btn_y 50 18 then (True, s\<lparr>g_setup_step := g_setup_step s - 1\<rparr>)
      else if hit (win_x w + win_w w - 76) btn_y 60 18 then (True, setup_next s)
      else (False, s))"

definition shell_click :: "pointer \<Rightarrow> ('v, 's) desktop \<Rightarrow> bool \<times> ('v, 's) desktop" where
  "shell_click p s =
     (let w = g_shell_win s in
      if \<not> g_show_shell s then (False, s)
      else if hit_close p w then (True, s\<lparr>g_show_shell := False, g_shell_drag := let_go (g_shell_drag s)\<rparr>)
      else if hit_bar p w then (True, s\<lparr>g_shell_drag := grab p w\<rparr>)
      else (False, s))"

text \<open>Handlers in sequence: something changed if one of them changed it.\<close>

definition handle :: "('s \<Rightarrow> bool \<times> 's) \<Rightarrow> bool \<times> 's \<Rightarrow> bool \<times> 's" where
  "handle f us = (let (ui, s) = us; (ch, s) = f s in (ui \<or> ch, s))"

definition click_handlers :: "boot_fb \<Rightarrow> ('v, 's) blk_driver \<Rightarrow> pointer \<Rightarrow> (('v, 's) desktop \<Rightarrow> bool \<times> ('v, 's) desktop) list" where
  "click_handlers bi dr p =
     [start_click bi dr p, dock_click bi dr p, explorer_click dr p, viewer_click p, notepad_click dr p,
      setup_click p, shell_click p]"

section \<open>Dragging and the tick\<close>

definition release_drags :: "('v, 's) desktop \<Rightarrow> ('v, 's) desktop" where
  "release_drags s =
     s\<lparr>g_shell_drag := let_go (g_shell_drag s), g_explorer_drag := let_go (g_explorer_drag s),
       g_viewer_drag := let_go (g_viewer_drag s), g_notepad_drag := let_go (g_notepad_drag s),
       g_setup_drag := let_go (g_setup_drag s)\<rparr>"

definition dragged :: "pointer \<Rightarrow> drag \<Rightarrow> bool" where
  "dragged p d \<longleftrightarrow> dragging d \<and> (ptr_dx p \<noteq> 0 \<or> ptr_dy p \<noteq> 0)"

definition drag_window :: "pointer \<Rightarrow> drag \<Rightarrow> wm_window \<Rightarrow> wm_window" where
  "drag_window p d w =
     (if dragged p d then w\<lparr>win_x := ptr_x p - drag_off_x d, win_y := ptr_y p - drag_off_y d\<rparr> else w)"

definition move_windows :: "pointer \<Rightarrow> ('v, 's) desktop \<Rightarrow> bool \<times> ('v, 's) desktop" where
  "move_windows p s =
     (dragged p (g_shell_drag s) \<or> dragged p (g_explorer_drag s) \<or> dragged p (g_viewer_drag s) \<or>
        dragged p (g_notepad_drag s) \<or> dragged p (g_setup_drag s),
      s\<lparr>g_shell_win := drag_window p (g_shell_drag s) (g_shell_win s),
        g_explorer_win := drag_window p (g_explorer_drag s) (g_explorer_win s),
        g_viewer_win := drag_window p (g_viewer_drag s) (g_viewer_win s),
        g_notepad_win := drag_window p (g_notepad_drag s) (g_notepad_win s),
        g_setup_win := drag_window p (g_setup_drag s) (g_setup_win s)\<rparr>)"

definition desktop_pointer :: "boot_fb \<Rightarrow> ('v, 's) blk_driver \<Rightarrow> pointer \<Rightarrow> u32 \<Rightarrow> bool \<times> ('v, 's) desktop \<Rightarrow> bool \<times> ('v, 's) desktop" where
  "desktop_pointer bi dr p pressed us0 =
     (let us = (if pressed AND 1 \<noteq> 0 then fold handle (click_handlers bi dr p) us0 else us0);
          us = (if ptr_buttons p AND 1 = 0 then (fst us, release_drags (snd us)) else us) in
      handle (move_windows p) us)"

definition desktop_tick :: "nat \<Rightarrow> ('v, 's) blk_driver \<Rightarrow> ('v, 's) desktop \<Rightarrow> ('v, 's) desktop outcome" where
  "desktop_tick fuel dr s0 =
     (case g_bi s0 of
        None \<Rightarrow> Ret s0
      | Some bi \<Rightarrow>
          let p0 = input_pointer_get (dk_input s0); pressed = ptr_buttons p0 AND NOT (prev_buttons s0);
              s = s0\<lparr>g_last_ptr := p0, prev_buttons := ptr_buttons p0\<rparr> in
          case keyboard_loop 32 fuel dr False s of
            Ret us \<Rightarrow>
              let (ui_changed, s) = desktop_pointer bi dr p0 pressed us;
                  s = desktop_redraw bi ui_changed s in
              Ret (s\<lparr>g_tick := g_tick s + 1\<rparr>)
          | Stop \<Rightarrow> Stop | Fault \<Rightarrow> Fault | Timeout \<Rightarrow> Timeout)"

end
