(* ===== verification/GraphicsSpec.thy ===== *)
theory GraphicsSpec
  imports Graphics
begin

text \<open>
  What the drawing primitives do: which pixels they may change (\<open>draws\<close>, shared by every
  drawing function of the desktop), the exact picture of the rectangle primitives, and the
  arithmetic of blending.
\<close>

section \<open>The screen\<close>

named_theorems draws_intros \<open>functions that only draw on the visible screen\<close>

text \<open>A usable mode: the rows do not overlap and the last offset fits 32 bits.\<close>

definition fb_ok :: "boot_fb \<Rightarrow> bool" where
  "fb_ok bi \<longleftrightarrow> 0 < fb_width bi \<and> 0 < fb_height bi \<and> fb_width bi \<le> fb_pitch bi \<and>
     unat (fb_height bi) * unat (fb_pitch bi) < 2 ^ 32"

definition offset :: "boot_fb \<Rightarrow> u32 \<Rightarrow> u32 \<Rightarrow> nat" where
  "offset bi x y = unat y * unat (fb_pitch bi) + unat x"

definition visible :: "boot_fb \<Rightarrow> nat \<Rightarrow> bool" where
  "visible bi i \<longleftrightarrow> (\<exists>x y. x < fb_width bi \<and> y < fb_height bi \<and> i = offset bi x y)"

definition pixel :: "'a gfx_scheme \<Rightarrow> u32 \<Rightarrow> u32 \<Rightarrow> u32" where
  "pixel s x y = pixels s (target s) (offset (the (g_bi s)) x y)"

definition same_env :: "'a gfx_scheme \<Rightarrow> 'a gfx_scheme \<Rightarrow> bool" where
  "same_env s t \<longleftrightarrow> g_bi t = g_bi s \<and> g_back t = g_back s \<and> g_bg t = g_bg s \<and>
     cga_font t = cga_font s \<and> gfx.more t = gfx.more s"

definition draws_on :: "boot_fb \<Rightarrow> ('a gfx_scheme \<Rightarrow> 'a gfx_scheme) \<Rightarrow> bool" where
  "draws_on bi f \<longleftrightarrow> (\<forall>s. g_bi s = Some bi \<longrightarrow> same_env s (f s) \<and>
     (\<forall>b i. b \<noteq> target s \<or> \<not> visible bi i \<longrightarrow> pixels (f s) b i = pixels s b i))"

definition draws :: "('a gfx_scheme \<Rightarrow> 'a gfx_scheme) \<Rightarrow> bool" where
  "draws f \<longleftrightarrow> (\<forall>bi. fb_ok bi \<longrightarrow> draws_on bi f)"

lemma same_env_refl [simp]: "same_env s s"
  by (simp add: same_env_def)

lemma same_env_target: "same_env s t \<Longrightarrow> target t = target s"
  by (simp add: same_env_def target_def)

lemma draws_on_id [draws_intros]: "draws_on bi (\<lambda>s. s)"
  by (simp add: draws_on_def)

lemma draws_on_cong: "draws_on bi g \<Longrightarrow> (\<And>s. g_bi s = Some bi \<Longrightarrow> f s = g s) \<Longrightarrow> draws_on bi f"
  by (simp add: draws_on_def)

lemma draws_on_comp:
  assumes "draws_on bi f" "draws_on bi g"
  shows "draws_on bi (\<lambda>s. g (f s))"
  using assms unfolding draws_on_def same_env_def target_def by simp

lemma draws_on_for_each:
  "(\<And>x. x \<in> set xs \<Longrightarrow> draws_on bi (f x)) \<Longrightarrow> draws_on bi (for_each xs f)"
proof (induction xs)
  case Nil
  then show ?case by (simp add: for_each_def draws_on_def)
next
  case (Cons x xs)
  have "draws_on bi (f x)" "draws_on bi (for_each xs f)" using Cons by auto
  then show ?case
    by (rule draws_on_cong[OF draws_on_comp[of bi "f x" "for_each xs f"]]) (simp_all add: for_each_def)
qed

lemma run_for_each: "run fs = for_each fs (\<lambda>f. f)"
  by (simp add: run_def for_each_def fun_eq_iff)

lemma draws_run [draws_intros]: "(\<And>f. f \<in> set fs \<Longrightarrow> draws f) \<Longrightarrow> draws (run fs)"
  unfolding run_for_each draws_def by (auto intro: draws_on_for_each)

lemma draws_for_each [draws_intros]: "(\<And>x. x \<in> set xs \<Longrightarrow> draws (f x)) \<Longrightarrow> draws (for_each xs f)"
  unfolding draws_def by (auto intro: draws_on_for_each)

lemma draws_id [draws_intros]: "draws (\<lambda>s. s)"
  by (simp add: draws_def draws_on_id)

lemma draws_comp: "draws f \<Longrightarrow> draws g \<Longrightarrow> draws (\<lambda>s. g (f s))"
  unfolding draws_def by (auto intro: draws_on_comp)

lemma draws_if_do [draws_intros]: "(b \<Longrightarrow> draws f) \<Longrightarrow> draws (if_do b f)"
  by (cases b) (simp_all add: if_do_def draws_def draws_on_def)

lemma draws_if [draws_intros]: "(b \<Longrightarrow> draws f) \<Longrightarrow> (\<not> b \<Longrightarrow> draws g) \<Longrightarrow> draws (if b then f else g)"
  by simp

text \<open>What is drawn may depend on the state.\<close>

lemma draws_state: "(\<And>t. draws (F t)) \<Longrightarrow> draws (\<lambda>s. F s s)"
  by (auto simp: draws_def draws_on_def)

lemma draws_run_state [draws_intros]: "(\<And>t f. f \<in> set (fs t) \<Longrightarrow> draws f) \<Longrightarrow> draws (\<lambda>s. run (fs s) s)"
  by (rule draws_state) (rule draws_run)

lemma draws_for_each_state [draws_intros]: "(\<And>t x. draws (f t x)) \<Longrightarrow> draws (\<lambda>s. for_each (xs s) (f s) s)"
  by (rule draws_state) (rule draws_for_each)

lemma draws_if_do_state [draws_intros]: "(\<And>t. draws (f t)) \<Longrightarrow> draws (\<lambda>s. if_do (b s) (f s) s)"
  by (rule draws_state) (rule draws_if_do)

section \<open>Offsets\<close>

lemma offset_no_wrap:
  assumes "fb_ok bi" "x < fb_width bi" "y < fb_height bi"
  shows "unat (y * fb_pitch bi) = unat y * unat (fb_pitch bi)"
    and "unat (y * fb_pitch bi + x) = offset bi x y"
proof -
  have "Suc (unat y) * unat (fb_pitch bi) \<le> unat (fb_height bi) * unat (fb_pitch bi)"
    using assms(3) by (intro mult_le_mono1) (simp add: word_less_nat_alt Suc_le_eq)
  moreover have "unat x < unat (fb_pitch bi)"
    using assms(1,2) by (simp add: fb_ok_def word_less_nat_alt word_le_nat_alt)
  ultimately have b: "unat y * unat (fb_pitch bi) + unat x < 2 ^ 32"
    using assms(1) by (simp add: fb_ok_def)
  then show m: "unat (y * fb_pitch bi) = unat y * unat (fb_pitch bi)"
    by (intro unat_mult_small) simp
  show "unat (y * fb_pitch bi + x) = offset bi x y"
    using b m by (simp add: offset_def unat_add_small)
qed

lemma offset_inj:
  assumes "fb_ok bi" "x < fb_width bi" "x' < fb_width bi"
  shows "offset bi x y = offset bi x' y' \<longleftrightarrow> x = x' \<and> y = y'"
proof
  let ?p = "unat (fb_pitch bi)"
  have lt: "unat x < ?p" "unat x' < ?p"
    using assms by (auto simp: fb_ok_def word_less_nat_alt word_le_nat_alt)
  assume e: "offset bi x y = offset bi x' y'"
  have "offset bi x y mod ?p = unat x" "offset bi x' y' mod ?p = unat x'"
    using lt by (simp_all add: offset_def)
  then have x: "unat x = unat x'" using e by simp
  then have "unat y = unat y'" using e lt by (simp add: offset_def)
  then show "x = x' \<and> y = y'" using x by (simp add: word_unat_eq_iff)
qed simp

section \<open>The primitives draw\<close>

lemma drawsI: "(\<And>bi. fb_ok bi \<Longrightarrow> draws_on bi f) \<Longrightarrow> draws f"
  by (simp add: draws_def)

lemma draws_on_store: "visible bi i \<Longrightarrow> draws_on bi (store i v)"
  by (auto simp: draws_on_def store_def same_env_def)

lemma draws_on_blend_at: "visible bi i \<Longrightarrow> draws_on bi (blend_at i c a)"
  by (auto simp: draws_on_def blend_at_def store_def same_env_def)

lemma draws_on_if_do: "draws_on bi f \<Longrightarrow> draws_on bi (if_do b f)"
  by (simp add: draws_on_def if_do_def)

lemma draws_put_px [draws_intros]: "draws (put_px x y c)"
proof (rule drawsI)
  fix bi assume ok: "fb_ok bi"
  show "draws_on bi (put_px x y c)"
  proof (cases "x < fb_width bi \<and> y < fb_height bi")
    case True
    then have on: "visible bi (unat (y * fb_pitch bi + x))"
      using offset_no_wrap(2)[OF ok] by (auto simp: visible_def)
    show ?thesis
      by (rule draws_on_cong[OF draws_on_store[OF on, of c]]) (use True in \<open>auto simp: put_px_def\<close>)
  next
    case False
    show ?thesis
      by (rule draws_on_cong[OF draws_on_id]) (use False in \<open>auto simp: put_px_def\<close>)
  qed
qed

text \<open>The clipped double loop shared by the three rectangle primitives.\<close>

lemma upto_u32_iff: "z \<in> set (upto_u32 a b) \<longleftrightarrow> a \<le> z \<and> z < b"
proof -
  have "unat (of_nat n :: u32) = n" if "n < unat b" for n
    using that unat_lt_2p[of b] by (intro unat_of_nat_small) simp
  then show ?thesis
    by (auto simp: upto_u32_def word_le_nat_alt word_less_nat_alt image_iff
        intro!: bexI[of _ "unat z"])
qed

lemma distinct_upto_u32: "distinct (upto_u32 a b)"
proof -
  have "inj_on (of_nat :: nat \<Rightarrow> u32) {unat a..<unat b}"
  proof (rule inj_onI)
    fix m n assume "m \<in> {unat a..<unat b}" "n \<in> {unat a..<unat b}" "(of_nat m :: u32) = of_nat n"
    then show "m = n" using unat_lt_2p[of b] by (subst (asm) of_nat_word_inj) auto
  qed
  then show ?thesis by (simp add: upto_u32_def distinct_map)
qed

lemma clip_on_screen:
  assumes "fb_ok bi" "xx \<in> set (upto_u32 x (min x2 (fb_width bi)))" "yy \<in> set (upto_u32 y (min y2 (fb_height bi)))"
  shows "visible bi (unat (yy * fb_pitch bi) + unat xx)"
proof -
  have "xx < fb_width bi" "yy < fb_height bi" using assms(2,3) by (auto simp: upto_u32_iff)
  then show ?thesis
    using offset_no_wrap(1)[OF assms(1)] by (auto simp: visible_def offset_def intro!: exI)
qed

lemma draws_on_grid:
  assumes "fb_ok bi" "\<And>i xx yy. visible bi i \<Longrightarrow> draws_on bi (f i xx yy)"
  shows "draws_on bi (for_each (upto_u32 y1 (min y2 (fb_height bi))) (\<lambda>yy.
    for_each (upto_u32 x1 (min x2 (fb_width bi))) (\<lambda>xx. f (unat (yy * fb_pitch bi) + unat xx) xx yy)))"
proof (intro draws_on_for_each)
  fix yy xx assume "yy \<in> set (upto_u32 y1 (min y2 (fb_height bi)))" "xx \<in> set (upto_u32 x1 (min x2 (fb_width bi)))"
  then show "draws_on bi (f (unat (yy * fb_pitch bi) + unat xx) xx yy)"
    by (intro assms(2) clip_on_screen[OF assms(1)])
qed

lemma draws_draw_rect [draws_intros]: "draws (draw_rect x y w h c)"
proof (rule drawsI)
  fix bi assume ok: "fb_ok bi"
  show "draws_on bi (draw_rect x y w h c)"
  proof (cases "x \<ge> fb_width bi \<or> y \<ge> fb_height bi")
    case True
    show ?thesis
      by (rule draws_on_cong[OF draws_on_id]) (use True in \<open>auto simp: draw_rect_def\<close>)
  next
    case False
    show ?thesis
      by (rule draws_on_cong[OF draws_on_grid[where f = "\<lambda>i xx yy. store i c", OF ok draws_on_store, of y "y + h" x "x + w"]])
        (use False in \<open>simp_all add: draw_rect_def Let_def\<close>)
  qed
qed

lemma draws_blend_rect [draws_intros]: "draws (blend_rect x y w h c a)"
proof (rule drawsI)
  fix bi assume ok: "fb_ok bi"
  show "draws_on bi (blend_rect x y w h c a)"
  proof (cases "a = 0 \<or> x \<ge> fb_width bi \<or> y \<ge> fb_height bi")
    case True
    show ?thesis
      by (rule draws_on_cong[OF draws_on_id]) (use True in \<open>auto simp: blend_rect_def\<close>)
  next
    case False
    show ?thesis
      by (rule draws_on_cong[OF draws_on_grid[where f = "\<lambda>i xx yy. blend_at i c a", OF ok draws_on_blend_at, of y "y + h" x "x + w"]])
        (use False in \<open>simp_all add: blend_rect_def Let_def\<close>)
  qed
qed

lemma draws_blend_round_rect [draws_intros]: "draws (blend_round_rect x y w h r c a)"
proof (rule drawsI)
  fix bi assume ok: "fb_ok bi"
  let ?x2 = "min (x + w) (fb_width bi)" and ?y2 = "min (y + h) (fb_height bi)"
  show "draws_on bi (blend_round_rect x y w h r c a)"
  proof (cases "a = 0 \<or> x \<ge> fb_width bi \<or> y \<ge> fb_height bi")
    case True
    show ?thesis
      by (rule draws_on_cong[OF draws_on_id]) (use True in \<open>auto simp: blend_round_rect_def blend_rect_def\<close>)
  next
    case False
    show ?thesis
    proof (cases "r = 0")
      case True
      show ?thesis
        by (rule draws_on_cong[OF draws_blend_rect[of x y w h c a, unfolded draws_def, rule_format, OF ok]])
          (use True False in \<open>simp add: blend_round_rect_def\<close>)
    next
      case r: False
      show ?thesis
        by (rule draws_on_cong[OF draws_on_grid[
            where f = "\<lambda>i xx yy. if_do (corner_inside x y ?x2 ?y2 r xx yy) (blend_at i c a)",
            OF ok draws_on_if_do[OF draws_on_blend_at], of y "y + h" x "x + w"]])
          (use False r in \<open>simp_all add: blend_round_rect_def Let_def\<close>)
    qed
  qed
qed

lemma draws_draw_glyph [draws_intros]: "draws (draw_glyph_8x8 x y ch fg)"
  unfolding draw_glyph_8x8_def by (intro draws_intros)

lemma draws_string_loop: "draws (draw_string_loop x cx y cs fg)"
proof (induction cs arbitrary: cx y)
  case Nil
  then show ?case by (simp add: draws_id)
next
  case (Cons c cs)
  from draws_comp[where f = "draw_glyph_8x8 cx y c fg", OF draws_draw_glyph Cons, of "cx + 8" y] show ?case
    using Cons by (simp add: draws_def draws_on_def)
qed

lemma draws_draw_string [draws_intros]: "draws (draw_string_8x8 x y str fg)"
  using draws_string_loop by (cases str) (simp_all add: draw_string_8x8_def draws_def draws_on_def)

lemma draws_icon [draws_intros]: "draws (draw_icon_20 x y pix)"
  unfolding draw_icon_20_def Let_def by (intro draws_intros)

lemma draws_icon_scaled [draws_intros]: "draws (draw_icon_20_scaled x y pix k)"
  unfolding draw_icon_20_scaled_def Let_def by (intro draws_intros)

lemma draws_cursor_at [draws_intros]: "draws (draw_cursor_at x y c)"
  unfolding draw_cursor_at_def by (intro draws_intros)

lemma draws_cursor [draws_intros]: "draws (draw_cursor x y fg outline)"
  unfolding draw_cursor_def by (rule draws_run) (auto intro!: draws_intros)

section \<open>The picture of a rectangle\<close>

definition touch :: "nat \<Rightarrow> (u32 \<Rightarrow> u32) \<Rightarrow> 'a gfx_scheme \<Rightarrow> 'a gfx_scheme" where
  "touch i g s = store i (g (pixels s (target s) i)) s"

lemma touch_simps [simp]:
  "target (touch i g s) = target s" "g_bi (touch i g s) = g_bi s"
  "pixels (touch i g s) b j = (if b = target s \<and> j = i then g (pixels s b j) else pixels s b j)"
  by (auto simp: touch_def store_def target_def)

lemma store_touch: "store i c = touch i (\<lambda>_. c)"
  by (simp add: touch_def fun_eq_iff)

lemma blend_touch: "blend_at i c a = touch i (\<lambda>p. blend_rgb p c a)"
  by (simp add: touch_def blend_at_def fun_eq_iff)

lemma if_do_touch: "if_do b (touch i g) = touch i (\<lambda>p. if b then g p else p)"
  by (simp add: if_do_def touch_def store_def fun_eq_iff)

lemma for_each_Nil [simp]: "for_each [] f s = s"
  by (simp add: for_each_def)

lemma for_each_Cons [simp]: "for_each (x # xs) f s = for_each xs f (f x s)"
  by (simp add: for_each_def)

lemma for_each_append: "for_each (xs @ ys) f s = for_each ys f (for_each xs f s)"
  by (simp add: for_each_def)

lemma for_each_nested:
  "for_each ys (\<lambda>y. for_each xs (f y)) s = for_each (List.product ys xs) (\<lambda>(y, x). f y x) s"
proof (induction ys arbitrary: s)
  case (Cons y ys)
  have "for_each (map (Pair y) xs) (\<lambda>(y, x). f y x) s = for_each xs (f y) s" for s
    by (induction xs arbitrary: s) simp_all
  then show ?case using Cons by (simp add: for_each_append)
qed simp

lemma for_each_touch_env [simp]:
  "target (for_each xs (\<lambda>x. touch (idx x) (g x)) s) = target s"
  "g_bi (for_each xs (\<lambda>x. touch (idx x) (g x)) s) = g_bi s"
  by (induction xs arbitrary: s) simp_all

lemma for_each_touch_miss:
  "j \<notin> idx ` set xs \<Longrightarrow> pixels (for_each xs (\<lambda>x. touch (idx x) (g x)) s) b j = pixels s b j"
  by (induction xs arbitrary: s) auto

lemma for_each_touch_hit:
  "distinct (map idx xs) \<Longrightarrow> x \<in> set xs \<Longrightarrow>
   pixels (for_each xs (\<lambda>x. touch (idx x) (g x)) s) (target s) (idx x) = g x (pixels s (target s) (idx x))"
proof (induction xs arbitrary: s)
  case (Cons y xs)
  show ?case
  proof (cases "x = y")
    case True
    then have "idx x \<notin> idx ` set xs" using Cons.prems(1) by auto
    then show ?thesis using True by (simp add: for_each_touch_miss)
  next
    case False
    then have x: "x \<in> set xs" using Cons.prems by simp
    then have ne: "idx x \<noteq> idx y" using Cons.prems(1) by (metis distinct.simps(2) image_eqI list.map(2) set_map)
    have "pixels (for_each xs (\<lambda>x. touch (idx x) (g x)) (touch (idx y) (g y) s)) (target (touch (idx y) (g y) s)) (idx x) =
      g x (pixels (touch (idx y) (g y) s) (target (touch (idx y) (g y) s)) (idx x))"
      using Cons.prems x by (intro Cons.IH) auto
    then show ?thesis using ne by simp
  qed
qed simp

lemma grid_pixel:
  assumes ok: "fb_ok bi" and bi: "g_bi s = Some bi" and p: "px < fb_width bi" "py < fb_height bi"
  shows "pixel (for_each (upto_u32 y (min y2 (fb_height bi))) (\<lambda>yy.
      for_each (upto_u32 x (min x2 (fb_width bi))) (\<lambda>xx. touch (unat (yy * fb_pitch bi) + unat xx) (g xx yy))) s) px py =
    (if x \<le> px \<and> px < x2 \<and> y \<le> py \<and> py < y2 then g px py (pixel s px py) else pixel s px py)"
proof -
  let ?ys = "upto_u32 y (min y2 (fb_height bi))" and ?xs = "upto_u32 x (min x2 (fb_width bi))"
  let ?zs = "List.product ?ys ?xs"
  define idx where "idx z = unat (fst z * fb_pitch bi) + unat (snd z)" for z :: "u32 \<times> u32"
  define gg where "gg z = g (snd z) (fst z)" for z :: "u32 \<times> u32"
  have in_scr: "fst z < fb_height bi \<and> snd z < fb_width bi" if "z \<in> set ?zs" for z
    using that by (auto simp: upto_u32_iff)
  have idx: "idx z = offset bi (snd z) (fst z)" if "fst z < fb_height bi" "snd z < fb_width bi" for z
    using offset_no_wrap(1)[OF ok that(2,1)] by (simp add: idx_def offset_def)
  have flat: "for_each ?ys (\<lambda>yy. for_each ?xs (\<lambda>xx. touch (unat (yy * fb_pitch bi) + unat xx) (g xx yy))) s =
    for_each ?zs (\<lambda>z. touch (idx z) (gg z)) s"
    unfolding for_each_nested by (simp add: idx_def gg_def case_prod_unfold)
  have inj: "inj_on idx (set ?zs)"
  proof (rule inj_onI)
    fix u v assume uv: "u \<in> set ?zs" "v \<in> set ?zs" "idx u = idx v"
    then have "offset bi (snd u) (fst u) = offset bi (snd v) (fst v)"
      using in_scr idx by metis
    then show "u = v" using offset_inj[OF ok] in_scr uv by (metis prod.collapse)
  qed
  have dist: "distinct (map idx ?zs)"
    using inj distinct_product[OF distinct_upto_u32 distinct_upto_u32] by (simp add: distinct_map)
  have at: "idx (py, px) = offset bi px py" using idx p by simp
  show ?thesis
  proof (cases "x \<le> px \<and> px < x2 \<and> y \<le> py \<and> py < y2")
    case True
    then have "(py, px) \<in> set ?zs" using p by (auto simp: upto_u32_iff)
    from for_each_touch_hit[OF dist this, of gg s] True show ?thesis
      unfolding flat by (simp add: pixel_def bi at gg_def)
  next
    case False
    have "idx (py, px) \<notin> idx ` set ?zs"
    proof
      assume "idx (py, px) \<in> idx ` set ?zs"
      then obtain z where z: "z \<in> set ?zs" "idx (py, px) = idx z" by auto
      then have "offset bi px py = offset bi (snd z) (fst z)" using in_scr[OF z(1)] idx at by simp
      then have "z = (py, px)" using offset_inj[OF ok p(1)] in_scr[OF z(1)] by (metis prod.collapse)
      then show False using z(1) False by (auto simp: upto_u32_iff)
    qed
    from for_each_touch_miss[OF this, of gg s] show ?thesis
      unfolding flat using False by (auto simp: pixel_def bi at)
  qed
qed

definition in_rect :: "u32 \<Rightarrow> u32 \<Rightarrow> u32 \<Rightarrow> u32 \<Rightarrow> u32 \<Rightarrow> u32 \<Rightarrow> bool" where
  "in_rect x y w h px py \<longleftrightarrow> unat x \<le> unat px \<and> unat px < unat x + unat w \<and>
     unat y \<le> unat py \<and> unat py < unat y + unat h"

lemma in_rect_words:
  "unat x + unat w < 2 ^ 32 \<Longrightarrow> unat y + unat h < 2 ^ 32 \<Longrightarrow>
   in_rect x y w h px py \<longleftrightarrow> x \<le> px \<and> px < x + w \<and> y \<le> py \<and> py < y + h"
  by (auto simp: in_rect_def word_le_nat_alt word_less_nat_alt unat_add_small)

text \<open>
  C30. For a rectangle whose right and lower edges do not wrap in 32 bits, draw_rect and
  blend_rect change exactly the pixels of the rectangle clipped at the screen, draw_rect to the
  colour and blend_rect to the blend of the old pixel with it; every other pixel keeps its
  value. blend_round_rect does the same without the corners outside its radius.
\<close>

theorem rectangles_pictured:
  assumes "g_bi s = Some bi" "fb_ok bi" "px < fb_width bi" "py < fb_height bi"
    and "unat x + unat w < 2 ^ 32" "unat y + unat h < 2 ^ 32"
  shows "pixel (draw_rect x y w h c s) px py = (if in_rect x y w h px py then c else pixel s px py) \<and>
         pixel (blend_rect x y w h c a s) px py =
         (if a \<noteq> 0 \<and> in_rect x y w h px py then blend_rgb (pixel s px py) c a else pixel s px py) \<and>
         pixel (blend_round_rect x y w h r c a s) px py =
         (if a \<noteq> 0 \<and> in_rect x y w h px py \<and>
             (r = 0 \<or> corner_inside x y (min (x + w) (fb_width bi)) (min (y + h) (fb_height bi)) r px py)
          then blend_rgb (pixel s px py) c a else pixel s px py)"
proof -
  note r = in_rect_words[OF assms(5,6)]
  have out: "\<not> in_rect x y w h px py" if "fb_width bi \<le> x \<or> fb_height bi \<le> y"
    using that assms(3,4) unfolding r by auto
  have a: "pixel (draw_rect x y w h c s) px py = (if in_rect x y w h px py then c else pixel s px py)"
    using grid_pixel[OF assms(2,1,3,4), of y "y + h" x "x + w" "\<lambda>_ _ _. c"] out r
    by (auto simp: draw_rect_def assms(1) Let_def store_touch)
  have b: "pixel (blend_rect x y w h c a s) px py =
         (if a \<noteq> 0 \<and> in_rect x y w h px py then blend_rgb (pixel s px py) c a else pixel s px py)"
    using grid_pixel[OF assms(2,1,3,4), of y "y + h" x "x + w" "\<lambda>_ _ p. blend_rgb p c a"] out r
    by (auto simp: blend_rect_def assms(1) Let_def blend_touch)
  have "pixel (blend_round_rect x y w h r c a s) px py =
         (if a \<noteq> 0 \<and> in_rect x y w h px py \<and>
             (r = 0 \<or> corner_inside x y (min (x + w) (fb_width bi)) (min (y + h) (fb_height bi)) r px py)
          then blend_rgb (pixel s px py) c a else pixel s px py)"
    using grid_pixel[OF assms(2,1,3,4), of y "y + h" x "x + w" "\<lambda>xx yy p. if corner_inside x y
        (min (x + w) (fb_width bi)) (min (y + h) (fb_height bi)) r xx yy then blend_rgb p c a else p"] out r b
    by (auto simp: blend_round_rect_def assms(1) Let_def blend_touch if_do_touch)
  with a b show ?thesis by blast
qed

definition example_fb :: boot_fb where
  "example_fb = \<lparr>fb_width = 4, fb_height = 3, fb_pitch = 5\<rparr>"

definition example_gfx :: gfx where
  "example_gfx = \<lparr>g_bi = Some example_fb, pixels = (\<lambda>b i. 0), g_back = Some Back_buffer, g_bg = Some Bg_buffer,
     g_rand_state = 1, cga_font = replicate 2048 0\<rparr>"

lemma example_fb_ok: "fb_ok example_fb"
  by (simp add: fb_ok_def example_fb_def)

theorem rectangles_pictured_witness:
  "pixel (draw_rect 1 1 2 9 0xFFCC00 example_gfx) 2 2 = 0xFFCC00 \<and>
   pixel (draw_rect 1 1 2 9 0xFFCC00 example_gfx) 3 2 = 0 \<and>
   pixel (blend_rect 1 1 2 9 0xFFCC00 51 example_gfx) 2 2 = 0x332800"
proof -
  have b: "g_bi example_gfx = Some example_fb" by (simp add: example_gfx_def)
  have z: "pixel example_gfx 2 2 = 0" "pixel example_gfx 3 2 = 0" by (simp_all add: pixel_def example_gfx_def)
  show ?thesis
    using rectangles_pictured[OF b example_fb_ok, of 2 2 1 2 1 9 "0xFFCC00" 51]
      rectangles_pictured[OF b example_fb_ok, of 3 2 1 2 1 9 "0xFFCC00" 51] z
    by (simp add: example_fb_def in_rect_def blend_rgb_def Let_def push_bit_eq_mult)
qed

section \<open>Blending\<close>

definition channel :: "nat \<Rightarrow> u32 \<Rightarrow> nat" where
  "channel n p = unat (drop_bit n p AND 0xFF)"

lemma channel_le: "channel n p \<le> 255"
proof -
  have "drop_bit n p AND 0xFF \<le> (0xFF :: u32)" by (rule word_and_le1)
  then show ?thesis by (simp add: channel_def word_le_nat_alt)
qed

definition mix :: "nat \<Rightarrow> nat \<Rightarrow> nat \<Rightarrow> nat" where
  "mix d s a = (d * (255 - a) + s * a) div 255"

lemma mix_between: "a \<le> 255 \<Longrightarrow> min d s \<le> mix d s a \<and> mix d s a \<le> max d s"
proof -
  assume a: "a \<le> 255"
  have "min d s * 255 = min d s * (255 - a) + min d s * a"
    using a by (simp add: add_mult_distrib2[symmetric])
  also have "\<dots> \<le> d * (255 - a) + s * a" by (intro add_mono mult_le_mono1) simp_all
  finally have l: "min d s * 255 \<le> d * (255 - a) + s * a" .
  have "d * (255 - a) + s * a \<le> max d s * (255 - a) + max d s * a"
    by (intro add_mono mult_le_mono1) simp_all
  also have "\<dots> = max d s * 255" using a by (simp add: add_mult_distrib2[symmetric])
  finally have u: "d * (255 - a) + s * a \<le> max d s * 255" .
  show ?thesis
    unfolding mix_def using div_le_mono[OF l, of 255] div_le_mono[OF u, of 255] by simp
qed

lemma mix_ends [simp]: "mix d s 0 = d" "mix d s 255 = s"
  by (simp_all add: mix_def)

lemma blend_channel_word:
  assumes "unat d \<le> 255" "unat s \<le> 255"
  shows "unat ((d * (255 - ucast a) + s * ucast a) div 255 :: u32) = mix (unat d) (unat s) (unat (a :: u8))"
proof -
  have a: "unat a \<le> 255" using unat_lt_2p[of a] by simp
  have ua: "unat (ucast a :: u32) = unat a" by (simp add: unat_ucast_up)
  have inv: "unat (255 - ucast a :: u32) = 255 - unat a"
    using a ua by (subst unat_sub_small) (simp_all add: word_le_nat_alt)
  have m: "unat d * (255 - unat a) \<le> 255 * 255" "unat s * unat a \<le> 255 * 255"
    using assms a mult_le_mono[of "unat d" 255 "255 - unat a" 255] mult_le_mono[of "unat s" 255 "unat a" 255]
    by simp_all
  have p: "unat (d * (255 - ucast a)) = unat d * (255 - unat a)" "unat (s * ucast a) = unat s * unat a"
    using m inv ua by (auto simp: unat_mult_small)
  then have "unat (d * (255 - ucast a) + s * ucast a) = unat d * (255 - unat a) + unat s * unat a"
    using m by (subst unat_add_small) auto
  then show ?thesis by (simp add: mix_def unat_div)
qed

lemma pack_channels:
  assumes "unat r \<le> 255" "unat g \<le> 255" "unat b \<le> 255"
  shows "channel 16 (push_bit 16 r OR push_bit 8 g OR b) = unat r \<and>
    channel 8 (push_bit 16 r OR push_bit 8 g OR b) = unat g \<and>
    channel 0 (push_bit 16 r OR push_bit 8 g OR b) = unat b"
proof -
  have small: "\<not> bit w n" if "unat w \<le> 255" "8 \<le> n" for w :: u32 and n
  proof -
    have "take_bit 8 w = w"
      using that(1) by (simp add: word_unat_eq_iff unsigned_take_bit_eq take_bit_nat_eq_self)
    then show ?thesis using that(2) by (metis bit_take_bit_iff not_less)
  qed
  have lt: "n < 8" if "bit r n \<or> bit g n \<or> bit b n" for n
    using that small assms not_less by blast
  have ff: "(0xFF :: u32) = mask 8" by (simp add: mask_eq_exp_minus_1)
  have "drop_bit 16 (push_bit 16 r OR push_bit 8 g OR b) AND 0xFF = r"
    "drop_bit 8 (push_bit 16 r OR push_bit 8 g OR b) AND 0xFF = g"
    "drop_bit 0 (push_bit 16 r OR push_bit 8 g OR b) AND 0xFF = b"
    unfolding ff using assms lt by (auto simp: bit_eq_iff bit_simps small not_less, (fastforce dest: lt)+)
  then show ?thesis by (simp only: channel_def)
qed

lemma blend_channels:
  "channel 16 (blend_rgb d s a) = mix (channel 16 d) (channel 16 s) (unat a) \<and>
   channel 8 (blend_rgb d s a) = mix (channel 8 d) (channel 8 s) (unat a) \<and>
   channel 0 (blend_rgb d s a) = mix (channel 0 d) (channel 0 s) (unat a)"
proof -
  let ?c = "\<lambda>n. ((drop_bit n d AND 0xFF) * (255 - ucast a) + (drop_bit n s AND 0xFF) * ucast a) div 255"
  have c: "unat (?c n) = mix (channel n d) (channel n s) (unat a)" for n
    using blend_channel_word[of "drop_bit n d AND 0xFF" "drop_bit n s AND 0xFF" a] channel_le[of n d] channel_le[of n s]
    by (simp add: channel_def)
  have le: "unat (?c n) \<le> 255" for n
    unfolding c using mix_between[of "unat a" "channel n d" "channel n s"] unat_lt_2p[of a]
      channel_le[of n d] channel_le[of n s] by (auto simp: max_def split: if_splits)
  have "blend_rgb d s a = push_bit 16 (?c 16) OR push_bit 8 (?c 8) OR ?c 0"
    by (simp add: blend_rgb_def Let_def)
  then show ?thesis using pack_channels[OF le[of 16] le[of 8] le[of 0]] c c[of 0] by simp
qed

theorem blending_between:
  "min (channel 16 d) (channel 16 s) \<le> channel 16 (blend_rgb d s a) \<and>
   channel 16 (blend_rgb d s a) \<le> max (channel 16 d) (channel 16 s) \<and>
   min (channel 8 d) (channel 8 s) \<le> channel 8 (blend_rgb d s a) \<and>
   channel 8 (blend_rgb d s a) \<le> max (channel 8 d) (channel 8 s) \<and>
   min (channel 0 d) (channel 0 s) \<le> channel 0 (blend_rgb d s a) \<and>
   channel 0 (blend_rgb d s a) \<le> max (channel 0 d) (channel 0 s) \<and>
   channel 16 (blend_rgb d s 0) = channel 16 d \<and> channel 8 (blend_rgb d s 0) = channel 8 d \<and>
   channel 0 (blend_rgb d s 0) = channel 0 d \<and> channel 16 (blend_rgb d s 255) = channel 16 s \<and>
   channel 8 (blend_rgb d s 255) = channel 8 s \<and> channel 0 (blend_rgb d s 255) = channel 0 s"
  using mix_between[of "unat a"] unat_lt_2p[of a] blend_channels[of d s a] blend_channels[of d s 0]
    blend_channels[of d s 255] by simp

end
