(* ===== verification/ShellSpec.thy ===== *)
theory ShellSpec
  imports Shell GraphicsSpec
begin

text \<open>
  What the terminal guarantees: what it shows is a suffix of all that was appended, and at least
  half a buffer of it; its numbers are decimal. \<open>desk_inv\<close> is the invariant of the desktop:
  the layout of its buffers, the order of the setup steps, and the bounds of the screen. Here the
  terminal's commands are shown to keep it.
\<close>

section \<open>The text of the terminal\<close>

text \<open>
  What the terminal holds, and what it shows. The last byte of the buffer is never written, and
  the shift of a full buffer takes it into the text: a blank cell, at position 2047.
\<close>

definition shell_text :: "('v, 's) desktop \<Rightarrow> u8 list" where
  "shell_text s = take (unat (g_shell_out_len s)) (g_shell_out s)"

definition shell_shown :: "('v, 's) desktop \<Rightarrow> u8 list" where
  "shell_shown s = filter (\<lambda>c. c \<noteq> 0) (shell_text s)"

definition term_ok :: "('v, 's) desktop \<Rightarrow> bool" where
  "term_ok s \<longleftrightarrow> length (g_shell_out s) = 4096 \<and> g_shell_out_len s < 4096 \<and> g_shell_out s ! 4095 = 0 \<and>
     (\<forall>i < unat (g_shell_out_len s). g_shell_out s ! i = 0 \<longrightarrow> i = 2047)"

definition shift_out :: "('v, 's) desktop \<Rightarrow> ('v, 's) desktop" where
  "shift_out s = s\<lparr>g_shell_out := blit 0 (take 2048 (drop 2048 (g_shell_out s))) (g_shell_out s),
     g_shell_out_len := 2048\<rparr>"

definition put_out :: "u8 \<Rightarrow> ('v, 's) desktop \<Rightarrow> ('v, 's) desktop" where
  "put_out c s = s\<lparr>g_shell_out := store_at (unat (g_shell_out_len s)) c (g_shell_out s),
     g_shell_out_len := g_shell_out_len s + 1\<rparr>"

lemma shell_putc_steps:
  "shell_putc c s = put_out c (if g_shell_out_len s + 1 \<ge> 4096 then shift_out s else s)"
  by (simp add: shell_putc_def put_out_def shift_out_def Let_def)

lemma term_len: "term_ok s \<Longrightarrow> unat (g_shell_out_len s) < 4096"
  by (simp add: term_ok_def word_less_nat_alt)

lemma term_len_Suc: "term_ok s \<Longrightarrow> unat (g_shell_out_len s + 1) = Suc (unat (g_shell_out_len s))"
  using term_len[of s] unat_add_small[of "g_shell_out_len s" 1] by simp

lemma length_shell_text: "term_ok s \<Longrightarrow> length (shell_text s) = unat (g_shell_out_len s)"
  using term_len[of s] by (simp add: shell_text_def term_ok_def)

lemma put_out_text:
  assumes "term_ok s"
  shows "shell_text (put_out c s) = shell_text s @ [c]"
  using term_len[OF assms] assms
  by (simp add: shell_text_def put_out_def term_len_Suc[OF assms] take_Suc_conv_app_nth term_ok_def)

lemma put_out_ok:
  assumes "term_ok s" "unat (g_shell_out_len s) < 4095" "c \<noteq> 0"
  shows "term_ok (put_out c s)"
  using assms term_len_Suc[OF assms(1)]
  by (auto simp: term_ok_def put_out_def nth_list_update less_Suc_eq word_less_nat_alt)

lemma shift_out_text:
  assumes "term_ok s" "unat (g_shell_out_len s) = 4095"
  shows "shell_text (shift_out s) = drop 2048 (shell_text s) @ [0]"
proof -
  have "shell_text (shift_out s) = drop 2048 (take 4096 (g_shell_out s))"
    using assms(1) by (simp add: shell_text_def shift_out_def blit_def term_ok_def drop_take)
  also have "take 4096 (g_shell_out s) = take 4095 (g_shell_out s) @ [0]"
    using assms(1) take_Suc_conv_app_nth[of 4095 "g_shell_out s"] by (simp add: term_ok_def)
  finally show ?thesis using assms by (simp add: shell_text_def term_ok_def)
qed

lemma shift_out_ok:
  assumes "term_ok s" "unat (g_shell_out_len s) = 4095"
  shows "term_ok (shift_out s)" "unat (g_shell_out_len (shift_out s)) = 2048"
proof -
  have len: "length (g_shell_out s) = 4096" using assms(1) by (simp add: term_ok_def)
  have nz: "i = 2047" if "g_shell_out s ! (i + 2048) = 0" "i < 2048" for i
  proof (rule ccontr)
    assume "i \<noteq> 2047"
    then have "i + 2048 < unat (g_shell_out_len s)" using that assms(2) by simp
    then show False using assms(1) that(1) unfolding term_ok_def by fastforce
  qed
  have b: "blit 0 (take 2048 (drop 2048 (g_shell_out s))) (g_shell_out s) ! i =
      (if i < 2048 then g_shell_out s ! (i + 2048) else g_shell_out s ! i)" if "i < 4096" for i
    using that len by (simp add: blit_def nth_append add.commute)
  show "term_ok (shift_out s)"
    using assms(1) len nz b by (auto simp: term_ok_def shift_out_def)
  show "unat (g_shell_out_len (shift_out s)) = 2048" by (simp add: shift_out_def)
qed

lemma shell_putc_shown:
  assumes "term_ok s" "c \<noteq> 0"
  shows "term_ok (shell_putc c s) \<and> (\<exists>k. shell_shown (shell_putc c s) = drop k (shell_shown s @ [c]) \<and>
    (k = 0 \<and> unat (g_shell_out_len (shell_putc c s)) = Suc (unat (g_shell_out_len s)) \<or>
     unat (g_shell_out_len s) = 4095 \<and> unat (g_shell_out_len (shell_putc c s)) = 2049))"
proof (cases "unat (g_shell_out_len s) = 4095")
  case True
  then have ge: "g_shell_out_len s + 1 \<ge> 4096"
    by (simp add: word_le_nat_alt term_len_Suc[OF assms(1)])
  note sh = shift_out_ok[OF assms(1) True]
  have "shell_text (shell_putc c s) = drop 2048 (shell_text s) @ [0, c]"
    using ge put_out_text[OF sh(1)] shift_out_text[OF assms(1) True] by (simp add: shell_putc_steps)
  then have shown: "shell_shown (shell_putc c s) = filter (\<lambda>c. c \<noteq> 0) (drop 2048 (shell_text s)) @ [c]"
    using assms(2) by (simp add: shell_shown_def)
  have split: "filter (\<lambda>c. c \<noteq> 0) xs = filter (\<lambda>c. c \<noteq> 0) (take n xs) @ filter (\<lambda>c. c \<noteq> 0) (drop n xs)"
    for n and xs :: "u8 list"
    by (metis append_take_drop_id filter_append)
  let ?k = "length (filter (\<lambda>c. c \<noteq> 0) (take 2048 (shell_text s)))"
  have "drop ?k (shell_shown s @ [c]) = filter (\<lambda>c. c \<noteq> 0) (drop 2048 (shell_text s)) @ [c]"
    unfolding shell_shown_def split[of "shell_text s" 2048] by simp
  with shown have "shell_shown (shell_putc c s) = drop ?k (shell_shown s @ [c])" by simp
  moreover have "term_ok (shell_putc c s)" "unat (g_shell_out_len (shell_putc c s)) = 2049"
    using ge put_out_ok[OF sh(1) _ assms(2)] sh(2) term_len_Suc[OF sh(1)]
    by (simp_all add: shell_putc_steps put_out_def)
  ultimately show ?thesis using True by blast
next
  case False
  then have lt: "unat (g_shell_out_len s) < 4095" using term_len[OF assms(1)] by simp
  then have ge: "\<not> g_shell_out_len s + 1 \<ge> 4096"
    by (simp add: word_le_nat_alt term_len_Suc[OF assms(1)])
  have "shell_shown (shell_putc c s) = drop 0 (shell_shown s @ [c])"
    using assms(2) put_out_text[OF assms(1)] ge by (simp add: shell_shown_def shell_putc_steps)
  moreover have "term_ok (shell_putc c s)"
    "unat (g_shell_out_len (shell_putc c s)) = Suc (unat (g_shell_out_len s))"
    using put_out_ok[OF assms(1) lt assms(2)] ge term_len_Suc[OF assms(1)]
    by (simp_all add: shell_putc_steps put_out_def)
  ultimately show ?thesis by blast
qed

text \<open>A sequence of characters: the shown text is the end of all of them, and a long end.\<close>

definition shows_end :: "('v, 's) desktop \<Rightarrow> u8 list \<Rightarrow> ('v, 's) desktop \<Rightarrow> bool" where
  "shows_end s str s' \<longleftrightarrow> term_ok s' \<and> (\<exists>k. shell_shown s' = drop k (shell_shown s @ str) \<and>
     (k = 0 \<and> unat (g_shell_out_len s') = unat (g_shell_out_len s) + length str \<or>
      4096 \<le> unat (g_shell_out_len s) + length str \<and> 2048 < unat (g_shell_out_len s')))"

lemma shows_end_Nil: "term_ok s \<Longrightarrow> shows_end s [] s"
  by (auto simp: shows_end_def intro: exI[of _ 0])

lemma shows_end_snoc:
  assumes "shows_end s str s1" "c \<noteq> 0"
  shows "shows_end s (str @ [c]) (shell_putc c s1)"
proof -
  obtain k where k: "shell_shown s1 = drop k (shell_shown s @ str)"
    and len: "k = 0 \<and> unat (g_shell_out_len s1) = unat (g_shell_out_len s) + length str \<or>
      4096 \<le> unat (g_shell_out_len s) + length str \<and> 2048 < unat (g_shell_out_len s1)"
    using assms(1) by (auto simp: shows_end_def)
  have ok: "term_ok s1" using assms(1) by (simp add: shows_end_def)
  obtain j where j: "shell_shown (shell_putc c s1) = drop j (shell_shown s1 @ [c])"
    and step: "j = 0 \<and> unat (g_shell_out_len (shell_putc c s1)) = Suc (unat (g_shell_out_len s1)) \<or>
      unat (g_shell_out_len s1) = 4095 \<and> unat (g_shell_out_len (shell_putc c s1)) = 2049"
    using shell_putc_shown[OF ok assms(2)] by blast
  let ?k = "min k (length (shell_shown s @ str))"
  have sub: "shell_shown s1 @ [c] = drop ?k (shell_shown s @ str @ [c])"
    using k by (cases "k \<le> length (shell_shown s @ str)") (simp_all add: min_def)
  then have "shell_shown (shell_putc c s1) = drop (j + ?k) (shell_shown s @ str @ [c])"
    unfolding j sub by (simp only: drop_drop)
  moreover have "j + ?k = 0 \<and> unat (g_shell_out_len (shell_putc c s1)) = unat (g_shell_out_len s) + length (str @ [c]) \<or>
      4096 \<le> unat (g_shell_out_len s) + length (str @ [c]) \<and> 2048 < unat (g_shell_out_len (shell_putc c s1))"
    using len step by auto
  ultimately show ?thesis
    using shell_putc_shown[OF ok assms(2)] unfolding shows_end_def by blast
qed

lemma shows_end_chars:
  assumes "term_ok s" "0 \<notin> set cs"
  shows "shows_end s cs (fold shell_putc cs s)"
  using assms(2) by (induction cs rule: rev_induct) (simp_all add: shows_end_Nil[OF assms(1)] shows_end_snoc)

text \<open>
  C32. After any shell_append the terminal shows the end of everything appended so far, all of
  it while it fits and more than half a buffer otherwise; the shift of a full buffer takes one
  NUL byte into the text, which is shown as a blank.
\<close>

theorem terminal_shows_end:
  assumes "term_ok s"
  shows "term_ok (shell_append str s) \<and> (\<exists>k. shell_shown (shell_append str s) = drop k (shell_shown s @ cstr str) \<and>
    (if unat (g_shell_out_len s) + length (cstr str) < 4096 then k = 0
     else k = 0 \<or> 2048 < unat (g_shell_out_len (shell_append str s))))"
  using shows_end_chars[OF assms cstr_nonzero[of str]]
  unfolding shell_append_def shows_end_def by fastforce

section \<open>The invariant of the desktop\<close>

text \<open>The layout of the C buffers: every text array keeps its size, every length stays below it.\<close>

definition buffers_ok :: "('v, 's) desktop \<Rightarrow> bool" where
  "buffers_ok s \<longleftrightarrow>
     length (g_text s) = 1024 \<and> g_text_len s < 1024 \<and>
     term_ok s \<and>
     length (g_shell_line s) = 256 \<and> g_shell_line_len s < 256 \<and>
     length (g_viewer_name s) = 64 \<and> length (g_notepad_name s) = 64 \<and>
     length (g_viewer_text s) = 1024 \<and> g_viewer_text_len s < 1024 \<and>
     length (g_notepad_text s) = 4096 \<and> g_notepad_text_len s < 4096"

text \<open>The setup window: no step is reached before the steps it rests on.\<close>

definition setup_ok :: "('v, 's) desktop \<Rightarrow> bool" where
  "setup_ok s \<longleftrightarrow> g_setup_step s \<le> 5 \<and> (g_setup_step s \<ge> 1 \<longrightarrow> g_setup_disk_ready s) \<and>
     (g_setup_step s \<ge> 2 \<longrightarrow> g_setup_partition_done s) \<and> (g_setup_step s \<ge> 3 \<longrightarrow> g_setup_format_done s)"

text \<open>
  With it the mode of the screen, and that no pixel outside the visible screen, in any buffer,
  differs from what it was in \<open>base\<close>.
\<close>

definition desk_inv :: "boot_fb \<Rightarrow> (surface \<Rightarrow> nat \<Rightarrow> u32) \<Rightarrow> ('v, 's) desktop \<Rightarrow> bool" where
  "desk_inv bi base s \<longleftrightarrow> buffers_ok s \<and> setup_ok s \<and> fb_ok bi \<and> g_bi s = Some bi \<and>
     (\<forall>b i. \<not> visible bi i \<longrightarrow> pixels s b i = base b i)"

lemmas desk_inv_unfold = desk_inv_def buffers_ok_def term_ok_def setup_ok_def

named_theorems desk_intros \<open>operations that keep the invariant of the desktop\<close>

text \<open>Fields outside the text buffers.\<close>

lemma desk_inv_update [simp]:
  "desk_inv bi base (s\<lparr>dk_fs := a0\<rparr>) = desk_inv bi base s"
  "desk_inv bi base (s\<lparr>dk_ramfs := a1\<rparr>) = desk_inv bi base s"
  "desk_inv bi base (s\<lparr>serial_out := a2\<rparr>) = desk_inv bi base s"
  "desk_inv bi base (s\<lparr>g_ring3_task_started := a3\<rparr>) = desk_inv bi base s"
  "desk_inv bi base (s\<lparr>g_setup_open := a4\<rparr>) = desk_inv bi base s"
  "desk_inv bi base (s\<lparr>g_app_open := a5\<rparr>) = desk_inv bi base s"
  "desk_inv bi base (s\<lparr>g_app_focus := a6\<rparr>) = desk_inv bi base s"
  "desk_inv bi base (s\<lparr>g_explorer_open := a7\<rparr>) = desk_inv bi base s"
  "desk_inv bi base (s\<lparr>g_viewer_open := a8\<rparr>) = desk_inv bi base s"
  "desk_inv bi base (s\<lparr>dk_stacks := a9\<rparr>) = desk_inv bi base s"
  "desk_inv bi base (s\<lparr>dk_sched := a10\<rparr>) = desk_inv bi base s"
  "desk_inv bi base (s\<lparr>g_rand_state := a11\<rparr>) = desk_inv bi base s"
  "desk_inv bi base (s\<lparr>g_back := a12\<rparr>) = desk_inv bi base s"
  "desk_inv bi base (s\<lparr>g_bg := a13\<rparr>) = desk_inv bi base s"
  "desk_inv bi base (s\<lparr>g_start_open := a14\<rparr>) = desk_inv bi base s"
  "desk_inv bi base (s\<lparr>g_show_shell := a15\<rparr>) = desk_inv bi base s"
  "desk_inv bi base (s\<lparr>g_last_ptr := a16\<rparr>) = desk_inv bi base s"
  "desk_inv bi base (s\<lparr>g_shell_win := a17\<rparr>) = desk_inv bi base s"
  "desk_inv bi base (s\<lparr>g_explorer_win := a18\<rparr>) = desk_inv bi base s"
  "desk_inv bi base (s\<lparr>g_viewer_win := a19\<rparr>) = desk_inv bi base s"
  "desk_inv bi base (s\<lparr>g_notepad_win := a20\<rparr>) = desk_inv bi base s"
  "desk_inv bi base (s\<lparr>g_setup_win := a21\<rparr>) = desk_inv bi base s"
  "desk_inv bi base (s\<lparr>g_shell_drag := a22\<rparr>) = desk_inv bi base s"
  "desk_inv bi base (s\<lparr>g_explorer_drag := a23\<rparr>) = desk_inv bi base s"
  "desk_inv bi base (s\<lparr>g_viewer_drag := a24\<rparr>) = desk_inv bi base s"
  "desk_inv bi base (s\<lparr>g_notepad_drag := a25\<rparr>) = desk_inv bi base s"
  "desk_inv bi base (s\<lparr>g_setup_drag := a26\<rparr>) = desk_inv bi base s"
  "desk_inv bi base (s\<lparr>g_explorer_scroll := a27\<rparr>) = desk_inv bi base s"
  "desk_inv bi base (s\<lparr>g_viewer_scroll := a28\<rparr>) = desk_inv bi base s"
  "desk_inv bi base (s\<lparr>g_notepad_scroll := a29\<rparr>) = desk_inv bi base s"
  "desk_inv bi base (s\<lparr>g_explorer_selected := a30\<rparr>) = desk_inv bi base s"
  "desk_inv bi base (s\<lparr>g_explorer_last_click_tick := a31\<rparr>) = desk_inv bi base s"
  "desk_inv bi base (s\<lparr>g_explorer_last_click_index := a32\<rparr>) = desk_inv bi base s"
  "desk_inv bi base (s\<lparr>g_last_cursor_x := a33\<rparr>) = desk_inv bi base s"
  "desk_inv bi base (s\<lparr>g_last_cursor_y := a34\<rparr>) = desk_inv bi base s"
  "desk_inv bi base (s\<lparr>g_last_cursor_buttons := a35\<rparr>) = desk_inv bi base s"
  "desk_inv bi base (s\<lparr>prev_buttons := a36\<rparr>) = desk_inv bi base s"
  "desk_inv bi base (s\<lparr>g_desktop_dirty := a37\<rparr>) = desk_inv bi base s"
  "desk_inv bi base (s\<lparr>g_tick := a38\<rparr>) = desk_inv bi base s"
  "desk_inv bi base (s\<lparr>dk_input := a39\<rparr>) = desk_inv bi base s"
  by (simp_all add: desk_inv_unfold)

lemma desk_inv_setup_0 [desk_intros]: "desk_inv bi base s \<Longrightarrow> desk_inv bi base (s\<lparr>g_setup_step := 0\<rparr>)"
  by (simp add: desk_inv_unfold)

lemma desk_inv_for_each [desk_intros]:
  "(\<And>x t. x \<in> set xs \<Longrightarrow> desk_inv bi base t \<Longrightarrow> desk_inv bi base (f x t)) \<Longrightarrow> desk_inv bi base s \<Longrightarrow> desk_inv bi base (for_each xs f s)"
  unfolding for_each_def by (induction xs arbitrary: s) simp_all

lemma shell_putc_frame: "\<exists>a n. shell_putc c s = s\<lparr>g_shell_out := a, g_shell_out_len := n\<rparr>"
  by (cases "4096 \<le> g_shell_out_len s + 1") (auto simp: shell_putc_steps put_out_def shift_out_def)

lemma shell_append_frame: "\<exists>a n. shell_append str s = s\<lparr>g_shell_out := a, g_shell_out_len := n\<rparr>"
proof -
  have "\<exists>a n. fold shell_putc cs s = s\<lparr>g_shell_out := a, g_shell_out_len := n\<rparr>" for cs
  proof (induction cs rule: rev_induct)
    case Nil
    then show ?case by (intro exI[of _ "g_shell_out s"] exI[of _ "g_shell_out_len s"]) simp
  next
    case (snoc c cs)
    then obtain a n where IH: "fold shell_putc cs s = s\<lparr>g_shell_out := a, g_shell_out_len := n\<rparr>" by blast
    obtain a' n' where "shell_putc c (fold shell_putc cs s) =
        (fold shell_putc cs s)\<lparr>g_shell_out := a', g_shell_out_len := n'\<rparr>"
      using shell_putc_frame by blast
    then have "fold shell_putc (cs @ [c]) s = s\<lparr>g_shell_out := a', g_shell_out_len := n'\<rparr>" by (simp add: IH)
    then show ?case by blast
  qed
  then show ?thesis by (simp add: shell_append_def)
qed

lemma buffers_append [desk_intros]:
  assumes "desk_inv bi base s"
  shows "desk_inv bi base (shell_append str s)"
proof -
  obtain a n where a: "shell_append str s = s\<lparr>g_shell_out := a, g_shell_out_len := n\<rparr>"
    using shell_append_frame by blast
  have "term_ok (shell_append str s)"
    using shows_end_chars[of s "cstr str"] assms cstr_nonzero[of str]
    by (simp add: shell_append_def shows_end_def desk_inv_def buffers_ok_def)
  then show ?thesis using assms a by (simp add: desk_inv_def buffers_ok_def setup_ok_def)
qed

lemma buffers_out [desk_intros]:
  "desk_inv bi base s \<Longrightarrow> desk_inv bi base (out str s)" "desk_inv bi base s \<Longrightarrow> desk_inv bi base (out_line str s)"
  "desk_inv bi base s \<Longrightarrow> desk_inv bi base (out_dec v s)" "desk_inv bi base s \<Longrightarrow> desk_inv bi base (shell_append_hex_u16 w s)"
  "desk_inv bi base s \<Longrightarrow> desk_inv bi base (append_chars cs s)" "desk_inv bi base s \<Longrightarrow> desk_inv bi base (focus_app a s)"
  by (auto simp: out_def out_line_def out_dec_def shell_append_hex_u16_def append_chars_def focus_app_def
      intro: desk_intros)

lemma buffers_specs [desk_intros]: "desk_inv bi base s \<Longrightarrow> desk_inv bi base (shell_run_specs s)"
  by (simp add: shell_run_specs_def Let_def run_def desk_intros)

text \<open>What a read may store: never more than the caller's limit.\<close>

lemma read_data_len:
  "length acc \<le> len \<Longrightarrow> read_data dr start n k len acc s = ((r, bs), s') \<Longrightarrow> length bs \<le> len"
proof (induction n arbitrary: k acc s)
  case (Suc n)
  obtain ok sec s1 where rd: "fs_read_sector dr (start + k) s = ((ok, sec), s1)" by (metis surj_pair)
  have "length (acc @ take (min (len - length acc) 512) sec) \<le> len" using Suc.prems(1) by simp
  then show ?case using Suc.IH[of "acc @ take (min (len - length acc) 512) sec" "k + 1" s1] Suc.prems rd by (auto simp: Let_def split: if_splits)
qed simp

lemma read_cluster_len:
  "length acc \<le> len \<Longrightarrow> fat_read_cluster dr lba n k len acc s = ((r, bs), s') \<Longrightarrow> length bs \<le> len"
proof (induction n arbitrary: k acc s)
  case (Suc n)
  obtain ok sec s1 where rd: "fs_read_sector dr (lba + k) s = ((ok, sec), s1)" by (metis surj_pair)
  have "length (acc @ take (min (len - length acc) 512) sec) \<le> len" using Suc.prems(1) by simp
  then show ?case using Suc.IH[of "acc @ take (min (len - length acc) 512) sec" "k + 1" s1] Suc.prems rd by (auto simp: Let_def split: if_splits)
qed simp

lemma read_chain_len:
  "length acc \<le> len \<Longrightarrow> fat_read_chain dr n c len acc s = ((r, bs), s') \<Longrightarrow> length bs \<le> len"
proof (induction n arbitrary: c acc s)
  case (Suc n)
  obtain ok a s1 where rc: "fat_read_cluster dr (fat_cluster_to_lba (g_fat s) c)
      (unat (fi_sectors_per_cluster (g_fat s))) 0 len acc s = ((ok, a), s1)" by (metis surj_pair)
  have "length a \<le> len" using read_cluster_len[OF Suc.prems(1) rc] .
  then show ?case using Suc rc by (auto simp: Let_def split: if_splits prod.splits option.splits)
qed simp

lemma read_file_len:
  assumes "simplefs_read_file dr nm dst maxlen s = (r, s')"
  shows "length (rr_bytes r) \<le> unat maxlen"
  using assms
  by (auto simp: simplefs_read_file_def Let_def word_le_nat_alt not_less
      dest!: read_data_len[rotated] read_chain_len[rotated] split: if_splits option.splits prod.splits)

lemma buffers_viewer_read [desk_intros]:
  assumes "desk_inv bi base s"
  shows "desk_inv bi base (snd (viewer_read dr name s))"
proof -
  obtain r f where rd: "simplefs_read_file dr (Some name) True 1023 (dk_fs s) = (r, f)" by (metis surj_pair)
  have "length (rr_bytes r) \<le> 1023" using read_file_len[OF rd] by simp
  then show ?thesis
    using assms rd by (auto simp: viewer_read_def Let_def desk_inv_unfold not_le word_less_nat_alt)
qed

lemma buffers_fs_init [desk_intros]: "desk_inv bi base s \<Longrightarrow> desk_inv bi base (snd (dk_fs_init dr s))"
  by (simp add: dk_fs_init_def split: prod.splits)

lemma length_copy_name [simp]: "cap \<le> length dst \<Longrightarrow> length (copy_name_loop dst src k cap) = length dst"
  by (induction dst src k cap rule: copy_name_loop.induct) simp_all

lemma buffers_view [desk_intros]: "desk_inv bi base s \<Longrightarrow> desk_inv bi base (shell_view dr s)"
proof -
  have nm: "desk_inv bi base t \<Longrightarrow> desk_inv bi base (t\<lparr>g_viewer_name := copy_name_loop (g_viewer_name t) nm 0 64, g_viewer_open := b\<rparr>)"
    for t :: "('a, 'b) desktop" and nm b
    by (simp add: desk_inv_unfold)
  assume ok: "desk_inv bi base s"
  have i: "desk_inv bi base t" if "dk_fs_init dr s = (b, t)" for b t
    using buffers_fs_init[OF ok, of dr] that by simp
  have v: "desk_inv bi base u" if "viewer_read dr n t = (b, u)" "desk_inv bi base t" for b t u n
    using buffers_viewer_read[OF that(2), of dr n] that(1) by simp
  show ?thesis
    using ok by (auto simp: shell_view_def Let_def split: prod.splits intro!: desk_intros nm dest: i v)
qed

text \<open>A command whose outcome, if it returns, keeps the layout.\<close>

definition keeps_inv :: "boot_fb \<Rightarrow> (surface \<Rightarrow> nat \<Rightarrow> u32) \<Rightarrow> ('v, 's) desktop outcome \<Rightarrow> bool" where
  "keeps_inv bi base r \<longleftrightarrow> (case r of Ret s \<Rightarrow> desk_inv bi base s | _ \<Rightarrow> True)"

lemma keeps_inv_simps [simp]:
  "keeps_inv bi base (Ret s) = desk_inv bi base s" "keeps_inv bi base Stop" "keeps_inv bi base Fault" "keeps_inv bi base Timeout"
  by (simp_all add: keeps_inv_def)

lemma buffers_ring3: "desk_inv bi base s \<Longrightarrow> keeps_inv bi base (launch_ring3_task s)"
  by (auto simp: launch_ring3_task_def Let_def intro: desk_intros split: option.splits prod.splits)

lemma desk_inv_store_on: "visible bi i \<Longrightarrow> desk_inv bi base s \<Longrightarrow> desk_inv bi base (store_on b i v s)"
  by (auto simp: desk_inv_unfold store_on_def)

lemma desk_inv_wall_fill [desk_intros]:
  assumes "desk_inv bi base s"
  shows "desk_inv bi base (wall_fill b bi col s)"
  unfolding wall_fill_def
proof (intro desk_inv_for_each desk_inv_store_on assms)
  fix x y assume xy: "x \<in> set (upto_u32 0 (fb_width bi))" "y \<in> set (upto_u32 0 (fb_height bi))"
  have "fb_ok bi" using assms by (simp add: desk_inv_def)
  then show "visible bi (unat (y * fb_pitch bi) + unat x)"
    by (rule clip_on_screen[where ?x2.0 = "fb_width bi" and ?y2.0 = "fb_height bi"]) (use xy in simp_all)
qed assumption

lemma desk_inv_mode: "desk_inv bi base s \<Longrightarrow> g_bi s = Some bi"
  by (simp add: desk_inv_def)

lemma buffers_wall_decode: "desk_inv bi base s \<Longrightarrow> keeps_inv bi base (wall_decode fuel p sz s)"
  by (auto simp: wall_decode_def wall_apply_def Let_def desk_inv_mode intro!: desk_intros
      split: option.splits prod.splits outcome.splits if_splits)

lemma buffers_wall: "desk_inv bi base s \<Longrightarrow> keeps_inv bi base (shell_wall fuel dr s)"
proof -
  assume "desk_inv bi base s"
  then have ok: "desk_inv bi base (out_line ''wall: loading new.png...'' s)" by (rule desk_intros)
  have i: "desk_inv bi base t" if "dk_fs_init dr (out_line ''wall: loading new.png...'' s) = (b, t)" for b t
    using buffers_fs_init[OF ok, of dr] that by simp
  have ld: "keeps_inv bi base (wall_load fuel dr sz t)" if "desk_inv bi base t" for sz t
    using that by (auto simp: wall_load_def Let_def intro!: desk_intros buffers_wall_decode
        split: option.splits prod.splits if_splits)
  show ?thesis
    using ok by (auto simp: shell_wall_def Let_def intro!: desk_intros ld dest: i
        split: option.splits prod.splits)
qed

lemma buffers_fs_explorer [desk_intros]:
  assumes "desk_inv bi base s"
  shows "desk_inv bi base (shell_fs dr s)" "desk_inv bi base (shell_explorer dr s)"
proof -
  have i: "desk_inv bi base t" if "dk_fs_init dr (out_line l s) = (b, t)" for b t l
    using buffers_fs_init[where s = "out_line l s" and dr = dr] buffers_out(2)[OF assms] that by simp
  show "desk_inv bi base (shell_fs dr s)" "desk_inv bi base (shell_explorer dr s)"
    by (auto simp: shell_fs_def shell_explorer_def Let_def dest!: i intro: desk_intros split: prod.splits)
qed

lemma buffers_command: "desk_inv bi base s \<Longrightarrow> keeps_inv bi base (shell_command fuel dr s)"
proof -
  have clear: "desk_inv bi base s \<Longrightarrow> desk_inv bi base (s\<lparr>g_shell_out_len := 0\<rparr>)"
    by (simp add: desk_inv_unfold)
  assume "desk_inv bi base s"
  then show ?thesis
    by (simp add: shell_command_def shell_next_rand_def run_def Let_def desk_intros clear buffers_ring3 buffers_wall)
qed

lemma buffers_prompt [desk_intros]: "desk_inv bi base s \<Longrightarrow> desk_inv bi base (shell_prompt s)"
  unfolding shell_prompt_def by (rule buffers_out) (simp add: desk_inv_unfold)

lemma line_len_append [simp]: "g_shell_line_len (shell_append str s) = g_shell_line_len s"
  using shell_append_frame[of str s] by auto

lemma line_len_out [simp]:
  "g_shell_line_len (out str s) = g_shell_line_len s" "g_shell_line_len (out_line str s) = g_shell_line_len s"
  by (simp_all add: out_def out_line_def)

lemma line_append [simp]: "g_shell_line (shell_append str s) = g_shell_line s"
  using shell_append_frame[of str s] by auto

lemma line_out [simp]:
  "g_shell_line (out str s) = g_shell_line s" "g_shell_line (out_line str s) = g_shell_line s"
  by (simp_all add: out_def out_line_def)

lemma line_append_chars [simp]:
  "g_shell_line_len (append_chars cs s) = g_shell_line_len s" "g_shell_line (append_chars cs s) = g_shell_line s"
  by (induction cs arbitrary: s) (simp_all add: append_chars_def for_each_def)

lemma shell_keeps_inv: "desk_inv bi base s \<Longrightarrow> keeps_inv bi base (shell_run_line fuel dr s)"
proof -
  define t where "t = run [append_chars (take (unat (g_shell_line_len s)) (g_shell_line s)), out_line []] s"
  assume "desk_inv bi base s"
  then have t: "desk_inv bi base t" by (simp add: t_def run_def desk_intros)
  have r: "shell_run_line fuel dr s = (if g_shell_line_len t = 0 then Ret (out ''> '' t)
      else case shell_command fuel dr t of Ret s \<Rightarrow> Ret (shell_prompt s)
        | Stop \<Rightarrow> Stop | Fault \<Rightarrow> Fault | Timeout \<Rightarrow> Timeout)"
    by (simp add: shell_run_line_def t_def Let_def)
  show ?thesis
    using buffers_command[OF t, of fuel dr] t
    unfolding r by (auto intro: desk_intros split: outcome.splits)
qed

section \<open>What the interpreter may fault on\<close>

text \<open>The command \<open>wall\<close>, typed on a desktop with a background buffer, faults.\<close>

definition wall_faults :: "nat \<Rightarrow> ('v, 's) blk_driver \<Rightarrow> ('v, 's) desktop \<Rightarrow> bool" where
  "wall_faults fuel dr s \<longleftrightarrow> cmd_is ''wall'' s \<and> g_bg s \<noteq> None \<and> shell_wall fuel dr s = Fault"

lemma bg_out [simp]: "g_bg (shell_append str s) = g_bg s" "g_bg (out l s) = g_bg s" "g_bg (out_line l s) = g_bg s"
  using shell_append_frame[of str s] shell_append_frame[of "lit l" s] shell_append_frame[of "lit l @ [10]" s]
  by (auto simp: out_def out_line_def)

lemma ring3_no_fault: "launch_ring3_task s \<noteq> Fault"
  by (simp add: launch_ring3_task_def Let_def split: option.split prod.split)

lemma command_faults:
  assumes "shell_command fuel dr s = Fault"
  shows "wall_faults fuel dr s"
proof -
  have w: "cmd_is ''wall'' s \<and> shell_wall fuel dr s = Fault"
    using assms ring3_no_fault[of "out_line ''launching ring3...'' s"]
    by (simp add: shell_command_def Let_def split_beta split: if_splits)
  then have "g_bg s \<noteq> None" by (cases "g_bg s") (auto simp: shell_wall_def Let_def)
  then show ?thesis using w by (simp add: wall_faults_def)
qed

lemma shell_faults:
  assumes "desk_inv bi base s" "shell_run_line fuel dr s = Fault"
  shows "\<exists>t. desk_inv bi base t \<and> wall_faults fuel dr t"
proof -
  define t where "t = run [append_chars (take (unat (g_shell_line_len s)) (g_shell_line s)), out_line []] s"
  have "desk_inv bi base t" using assms(1) by (simp add: t_def run_def desk_intros)
  moreover have "shell_command fuel dr t = Fault"
    using assms(2) by (auto simp: shell_run_line_def Let_def t_def[symmetric] split: if_splits outcome.splits)
  ultimately show ?thesis using command_faults by blast
qed

section \<open>A desktop without a drive\<close>

definition no_disk :: "(unit, unit) blk_driver" where
  "no_disk = \<lparr>bd_init = \<lambda>s. (False, s), bd_device = \<lambda>s. None, bd_read28 = \<lambda>v l n s. ((False, []), s),
     bd_write28 = \<lambda>v l n bs s. (False, s)\<rparr>"

definition desk_example :: "(unit, unit) desktop" where
  "desk_example = desk_start (replicate 2048 0) (fs_start ()) ramfs_example input_example
     \<lparr>g_hw = zero_profile, g_tune = \<lparr>heap_slack_bytes = 0, target_fps = 0, allow_backbuffer = 0\<rparr>\<rparr>
     sched_example (\<lambda>_. 0) 0x1234"

lemma desk_example_ok [simp]: "buffers_ok desk_example" "term_ok desk_example" "shell_shown desk_example = []"
  "g_shell_out_len desk_example = 0"
  by (simp_all add: desk_example_def desk_start_def buffers_ok_def term_ok_def shell_shown_def shell_text_def)

theorem terminal_shows_end_witness:
  "shell_shown (shell_append [104, 105, 0, 7] desk_example) = [104, 105]"
  using terminal_shows_end[of desk_example "[104, 105, 0, 7]"]
  by (simp add: cstr_def)

section \<open>Decimal numbers\<close>

text \<open>What a string of digits denotes.\<close>

definition dec_value :: "u8 list \<Rightarrow> nat" where
  "dec_value ds = fold (\<lambda>d n. n * 10 + (unat d - 48)) ds 0"

lemma digit_byte: "unat (ucast (48 + v mod 10) :: u8) = 48 + unat v mod 10" for v :: u32
proof -
  have m: "unat (v mod 10) = unat v mod 10" by (simp add: unat_mod_distrib)
  have "unat (48 + v mod 10) = 48 + unat v mod 10" by (subst unat_add_small) (simp_all add: m)
  then show ?thesis by (simp add: unsigned_ucast_eq take_bit_nat_eq_self)
qed

lemma to_dec_loop_value:
  "unat v < 10 ^ k \<Longrightarrow> dec_value (rev (to_dec_loop k v)) = unat v \<and>
    (\<forall>d \<in> set (to_dec_loop k v). 48 \<le> unat d \<and> unat d \<le> 57) \<and> (v \<noteq> 0 \<longrightarrow> unat (last (to_dec_loop k v)) \<noteq> 48)"
proof (induction k v rule: to_dec_loop.induct)
  case (1 v)
  then show ?case by (simp add: dec_value_def unat_eq_0)
next
  case (2 k v)
  show ?case
  proof (cases "v = 0")
    case False
    have d: "unat (v div 10) = unat v div 10" by (simp add: unat_div_distrib)
    have IH: "dec_value (rev (to_dec_loop k (v div 10))) = unat (v div 10) \<and>
        (\<forall>d \<in> set (to_dec_loop k (v div 10)). 48 \<le> unat d \<and> unat d \<le> 57) \<and>
        (v div 10 \<noteq> 0 \<longrightarrow> unat (last (to_dec_loop k (v div 10))) \<noteq> 48)"
      using 2 False d by auto
    have z: "v div 10 = 0 \<Longrightarrow> to_dec_loop k (v div 10) = []" by (cases k) simp_all
    have nz: "v div 10 = 0 \<Longrightarrow> unat v mod 10 \<noteq> 0"
      using False d by (metis div_mult_mod_eq mult_zero_left add_0 unat_0 unat_eq_zero)
    have ne: "v div 10 \<noteq> 0 \<Longrightarrow> to_dec_loop k (v div 10) \<noteq> []"
      using "2.prems" d by (cases k) (auto simp: unat_eq_zero[symmetric] simp del: unat_eq_zero)
    show ?thesis
      using False IH z nz ne d by (auto simp: dec_value_def digit_byte)
  qed (simp add: dec_value_def)
qed

theorem decimal_roundtrip:
  "dec_value (shell_u32_to_dec v) = unat v \<and> shell_u32_to_dec v \<noteq> [] \<and> length (shell_u32_to_dec v) \<le> 11 \<and>
   (\<forall>d \<in> set (shell_u32_to_dec v). 48 \<le> d \<and> d \<le> 57) \<and> (v \<noteq> 0 \<longrightarrow> hd (shell_u32_to_dec v) \<noteq> 48)"
proof -
  have len: "length (to_dec_loop k w) \<le> k" for k w by (induction k w rule: to_dec_loop.induct) auto
  have v: "unat v < 10 ^ 11" using unat_lt_2p[of v] by simp
  note T = to_dec_loop_value[OF v]
  have "v \<noteq> 0 \<Longrightarrow> to_dec_loop 11 v \<noteq> []" by (simp add: numeral_eq_Suc)
  then show ?thesis
    using T len[of 11 v] by (auto simp: shell_u32_to_dec_def dec_value_def word_le_nat_alt hd_rev)
qed

end
