(* ===== verification/DeskDrawSpec.thy ===== *)
theory DeskDrawSpec
  imports DeskDraw GraphicsSpec ShellSpec
begin

text \<open>
  Every drawing function of the desktop changes only pixels of the visible screen, in the buffer
  it is told to draw to, whatever the windows' positions and the texts are.
\<close>

section \<open>Drawing that depends on the state\<close>

definition draws_at :: "'a gfx_scheme \<Rightarrow> 'a gfx_scheme \<Rightarrow> bool" where
  "draws_at s t \<longleftrightarrow> (\<forall>bi. fb_ok bi \<and> g_bi s = Some bi \<longrightarrow> same_env s t \<and>
     (\<forall>b i. b \<noteq> target s \<or> \<not> visible bi i \<longrightarrow> pixels t b i = pixels s b i))"

lemma draws_at_iff: "draws f \<longleftrightarrow> (\<forall>s. draws_at s (f s))"
  by (auto simp: draws_def draws_on_def draws_at_def)

lemma draws_atI: "(\<And>s. draws_at s (f s)) \<Longrightarrow> draws f"
  by (simp add: draws_at_iff)

lemma draws_at_app: "draws f \<Longrightarrow> draws_at s (f s)"
  by (simp add: draws_at_iff)

lemma draws_at_id [draws_intros]: "draws_at s s"
  by (simp add: draws_at_def)

lemma draws_at_run [draws_intros]: "(\<And>f. f \<in> set fs \<Longrightarrow> draws f) \<Longrightarrow> draws_at s (run fs s)"
  by (intro draws_at_app draws_run)

lemma draws_at_if_do [draws_intros]: "(b \<Longrightarrow> draws f) \<Longrightarrow> draws_at s (if_do b f s)"
  by (intro draws_at_app draws_if_do)

lemma draws_at_for_each [draws_intros]: "(\<And>x. x \<in> set xs \<Longrightarrow> draws (f x)) \<Longrightarrow> draws_at s (for_each xs f s)"
  by (intro draws_at_app draws_for_each)

lemma draws_at_trans: "draws_at s t \<Longrightarrow> draws_at t u \<Longrightarrow> draws_at s u"
  by (auto simp: draws_at_def same_env_def target_def)

text \<open>The single steps of the loops.\<close>

lemma draws_at_prims:
  "draws_at t (draw_string_8x8 x y str fg t)" "draws_at t (draw_icon_20_scaled x y pix k t)"
  "draws_at t (put_px x y fg t)" "draws_at t (if_do b (draw_glyph_8x8 x y c fg) t)"
  by (intro draws_at_app draws_intros)+

lemmas draws_at_step = draws_at_trans[OF draws_at_prims(1)] draws_at_trans[OF draws_at_prims(2)]
  draws_at_trans[OF draws_at_prims(3)] draws_at_trans[OF draws_at_prims(4)]

lemma draws_at_rand: "draws_at s (snd (shell_next_rand s))"
  by (auto simp: draws_at_def shell_next_rand_def Let_def same_env_def)

lemma draws_case_option [draws_intros]:
  "draws g \<Longrightarrow> (\<And>x. draws (h x)) \<Longrightarrow> draws (case v of None \<Rightarrow> g | Some x \<Rightarrow> h x)"
  by (cases v) simp_all

section \<open>The functions of the desktop\<close>

lemma draws_chrome [draws_intros]: "draws (draw_window_chrome win title sub foc scr sav)"
  by (rule draws_atI) (auto simp: draw_window_chrome_def Let_def intro!: draws_intros)

lemma draws_text_loop: "draws_at s (draw_text_loop tx ty mc mr cx cy cs s)"
proof (induction tx ty mc mr cx cy cs s rule: draw_text_loop.induct)
  case (2 tx ty mc mr cx cy c cs s)
  then show ?case by (auto simp: Let_def intro: draws_at_id draws_at_step)
qed (simp add: draws_at_id)

lemma draws_text_body [draws_intros]: "draws (draw_text_body win txt len scroll)"
  by (rule draws_atI) (simp add: draw_text_body_def Let_def draws_text_loop)

lemma draws_shell_loop [draws_intros]: "draws (draw_shell_loop tx ty cols rows cx cy cs)"
proof (rule draws_atI)
  fix s
  show "draws_at s (draw_shell_loop tx ty cols rows cx cy cs s)"
    by (induction tx ty cols rows cx cy cs s rule: draw_shell_loop.induct)
      (auto simp: Let_def intro: draws_at_id draws_at_prims draws_at_step)
qed

lemma draws_panel_loop [draws_intros]: "draws (draw_panel_loop cols rows cx cy cs)"
proof (rule draws_atI)
  fix s
  show "draws_at s (draw_panel_loop cols rows cx cy cs s)"
    by (induction cols rows cx cy cs s rule: draw_panel_loop.induct)
      (auto simp: Let_def intro: draws_at_id draws_at_prims draws_at_step)
qed

lemma draws_dock [draws_intros]: "draws (dock_icons ics ix iy e)"
proof (rule draws_atI)
  fix s
  show "draws_at s (dock_icons ics ix iy e s)"
    by (induction ics ix iy e s rule: dock_icons.induct)
      (auto simp: Let_def intro: draws_at_id draws_at_prims draws_at_step)
qed

lemma draws_card_frame: "f \<in> set (card_frame x y w h) \<Longrightarrow> draws f"
  by (auto simp: card_frame_def intro: draws_intros)

lemma draws_notepad [draws_intros]: "draws (draw_notepad_window win)"
  by (rule draws_atI) (auto simp: draw_notepad_window_def intro!: draws_intros)

lemma draws_viewer [draws_intros]: "draws (draw_viewer_window win)"
  by (rule draws_atI) (auto simp: draw_viewer_window_def intro!: draws_intros)

lemma draws_setup_text: "f \<in> set (setup_step_text x y s) \<Longrightarrow> draws f"
  by (auto simp: setup_step_text_def Let_def intro: draws_intros split: if_splits)

lemma draws_setup_content [draws_intros]: "draws (setup_content win)"
  by (rule draws_atI)
    (auto simp: setup_content_def Let_def intro!: draws_at_run draws_for_each draws_run draws_draw_rect
      draws_draw_string dest: draws_setup_text)

lemma draws_setup [draws_intros]: "draws (draw_setup_window win)"
  by (rule draws_atI) (auto simp: draw_setup_window_def intro!: draws_intros)

lemma draws_explorer_row [draws_intros]: "draws (explorer_row win idx i)"
  by (rule draws_atI) (auto simp: explorer_row_def Let_def intro!: draws_intros split: prod.splits option.splits bool.splits)

lemma draws_explorer [draws_intros]: "draws (draw_explorer_window win)"
proof -
  have [draws_intros]: "draws (explorer_list win n)" for n
    by (rule draws_atI) (auto simp: explorer_list_def Let_def intro!: draws_intros)
  show ?thesis
    by (rule draws_atI) (auto simp: draw_explorer_window_def Let_def intro!: draws_intros)
qed

lemma draws_shell [draws_intros]: "draws (draw_shell_window win)"
proof -
  have [draws_intros]: "draws (shell_content win foc)" for foc
    by (rule draws_atI) (auto simp: shell_content_def Let_def intro!: draws_intros)
  show ?thesis
    by (rule draws_atI) (auto simp: draw_shell_window_def Let_def intro!: draws_intros)
qed

lemma draws_taskbar [draws_intros]: "draws draw_taskbar"
proof -
  have "draws (draw_taskbar_on bi b)" for bi b
    unfolding draw_taskbar_on_def Let_def by (rule draws_run) (auto intro!: draws_intros)
  then show ?thesis
    by (intro draws_atI) (auto simp: draw_taskbar_def intro: draws_at_app draws_at_id split: option.splits)
qed

lemma draws_start_menu [draws_intros]: "draws draw_start_menu"
proof -
  have "draws (draw_start_menu_on bi)" for bi
    unfolding draw_start_menu_on_def Let_def
    by (rule draws_run) (auto intro!: draws_intros simp: card_frame_def)
  then show ?thesis
    by (intro draws_atI) (auto simp: draw_start_menu_def intro: draws_intros split: option.splits)
qed

lemma draws_desktop_icons [draws_intros]: "draws draw_desktop_icons"
  by (rule draws_atI) (auto simp: draw_desktop_icons_def Let_def intro!: draws_intros)

lemma draws_cards [draws_intros]:
  "draws (weather_card x y)" "draws (system_card p x y)" "draws (calendar_card x y)"
  unfolding weather_card_def system_card_def calendar_card_def Let_def
  by (rule draws_run; auto intro!: draws_intros simp: card_frame_def)+

lemma draws_widgets [draws_intros]: "draws draw_widgets"
proof -
  have "draws (draw_widgets_on bi p)" for bi p
    unfolding draw_widgets_on_def Let_def by (intro draws_if_do draws_run) (auto intro!: draws_intros)
  then show ?thesis
    by (intro draws_atI) (auto simp: draw_widgets_def intro: draws_at_app draws_at_id split: option.splits)
qed

lemma draws_star [draws_intros]: "draws (draw_star w hz)"
proof (rule draws_atI)
  fix s
  show "draws_at s (draw_star w hz s)"
    unfolding draw_star_def Let_def split_def
    by (rule draws_at_trans[OF draws_at_rand draws_at_trans[OF draws_at_rand draws_at_prims(3)]])
qed

lemma draws_disc [draws_intros]: "draws (draw_disc w hz cx cy r)"
  unfolding draw_disc_def Let_def by (intro draws_intros)

lemma draws_background [draws_intros]: "draws draw_background"
proof -
  have rows: "draws_on bi (for_each (upto_u32 0 (fb_height bi)) (\<lambda>y. for_each (upto_u32 0 (fb_width bi)) (\<lambda>x.
      store (unat (y * fb_pitch bi) + unat x) (col y))))" if "fb_ok bi" for bi col
    using draws_on_grid[OF that, of "\<lambda>i xx yy. store i (col yy)" 0 "fb_height bi" 0 "fb_width bi"]
    by (simp add: draws_on_store)
  show ?thesis
  proof (rule drawsI)
    fix bi assume ok: "fb_ok bi"
    let ?w = "fb_width bi" and ?h = "fb_height bi"
    define hz where "hz = (if (?h * 52) div 100 \<ge> ?h then ?h - 1 else (?h * 52) div 100)"
    have h: "?h \<noteq> 0" using ok by (auto simp: fb_ok_def)
    then have hz: "hz < ?h" by (auto simp: hz_def word_less_nat_alt unat_sub_if' unat_gt_0 not_le)
    have line: "draws_on bi (for_each (upto_u32 0 ?w) (\<lambda>x. store (unat (hz * fb_pitch bi + x)) c))" for c
    proof (intro draws_on_for_each draws_on_store)
      fix x assume "x \<in> set (upto_u32 0 ?w)"
      then have x: "x < ?w" by (simp add: upto_u32_iff)
      show "visible bi (unat (hz * fb_pitch bi + x))"
        unfolding visible_def using offset_no_wrap(2)[OF ok x hz] x hz by blast
    qed
    have d: "draws f \<Longrightarrow> draws_on bi f" for f
      using ok by (simp add: draws_def)
    have run: "draw_background_on bi = run
       [for_each (upto_u32 0 ?h) (\<lambda>y. for_each (upto_u32 0 ?w) (\<lambda>x.
          store (unat (y * fb_pitch bi) + unat x) (sky_color ?h hz y))),
        for_each (upto_u32 0 ?w) (\<lambda>x. store (unat (hz * fb_pitch bi + x)) 0xB0C8FF),
        for_each [0..<220] (\<lambda>_ :: nat. draw_star ?w hz),
        for_each (upto_u32 0 3) (\<lambda>i. draw_disc ?w hz (?w * (55 + i * 7) div 100) (?h * (22 + i * 3) div 100) (140 - i * 30))]"
      using h by (simp add: draw_background_on_def Let_def hz_def)
    have on: "draws_on bi (draw_background_on bi)"
      unfolding run run_for_each
    proof (rule draws_on_for_each, unfold set_simps, elim insertE emptyE, simp_all only:)
      show "draws_on bi (for_each [0..<220] (\<lambda>_ :: nat. draw_star ?w hz))"
        by (rule d) (intro draws_intros)
      show "draws_on bi (for_each (upto_u32 0 3) (\<lambda>i.
          draw_disc ?w hz (?w * (55 + i * 7) div 100) (?h * (22 + i * 3) div 100) (140 - i * 30)))"
        by (rule d) (intro draws_intros)
    qed (rule rows[OF ok] line)+
    show "draws_on bi draw_background"
      by (rule draws_on_cong[OF on]) (simp add: draw_background_def)
  qed
qed

lemma draws_text_panel [draws_intros]: "draws draw_text_panel"
  by (rule draws_atI) (auto simp: draw_text_panel_def Let_def intro!: draws_intros split: option.splits)

section \<open>The property\<close>

text \<open>The functions a frame is made of.\<close>

definition desk_painters :: "wm_window \<Rightarrow> (('v, 's) desktop \<Rightarrow> ('v, 's) desktop) list" where
  "desk_painters win =
     [draw_background, draw_desktop_icons, draw_widgets, draw_shell_window win, draw_explorer_window win,
      draw_viewer_window win, draw_notepad_window win, draw_setup_window win, draw_taskbar, draw_start_menu,
      draw_text_panel]"

theorem desktop_draws_on_screen:
  fixes s :: "('v, 's) desktop"
  assumes "g_bi s = Some bi" "fb_ok bi" "paint \<in> set (desk_painters win)"
  shows "same_env s (paint s) \<and>
    (\<forall>b i. pixels (paint s) b i \<noteq> pixels s b i \<longrightarrow> b = target s \<and>
       (\<exists>x y. x < fb_width bi \<and> y < fb_height bi \<and> i = offset bi x y))"
proof -
  have "draws paint" using assms(3) by (auto simp: desk_painters_def intro: draws_intros)
  then show ?thesis
    using assms(1,2) unfolding visible_def[symmetric] draws_def draws_on_def by blast
qed

theorem desktop_draws_on_screen_witness:
  "same_env (desk_example\<lparr>g_bi := Some example_fb\<rparr>) (draw_taskbar (desk_example\<lparr>g_bi := Some example_fb\<rparr>))"
proof -
  have "draw_taskbar \<in> set (desk_painters zero_window)" by (simp add: desk_painters_def)
  from desktop_draws_on_screen[OF _ example_fb_ok this, of "desk_example\<lparr>g_bi := Some example_fb\<rparr>"]
  show ?thesis by simp
qed

end
