(* ===== verification/DesktopSpec.thy ===== *)
theory DesktopSpec
  imports Desktop DeskDrawSpec
begin

text \<open>
  The desktop as a state machine: its reachable states keep the invariant \<open>desk_inv\<close>, whatever
  is typed and clicked; the picture on the screen is the desktop with nothing but the pointer drawn
  over it; typed text reaches the file system unchanged; and where the handlers disagree with what is drawn.
\<close>

section \<open>Drawing keeps the invariant\<close>

lemma buffers_setup_more:
  fixes s t :: "('v, 's) desktop"
  assumes "gfx.more t = gfx.more s"
  shows "buffers_ok t = buffers_ok s" "setup_ok t = setup_ok s"
  using assms by (cases s, cases t, simp add: buffers_ok_def term_ok_def setup_ok_def)+

lemma desk_inv_draws_at:
  fixes s t :: "('v, 's) desktop"
  assumes "draws_at s t" "desk_inv bi base s"
  shows "desk_inv bi base t"
proof -
  have "same_env s t" "\<forall>b i. \<not> visible bi i \<longrightarrow> pixels t b i = pixels s b i"
    using assms by (auto simp: draws_at_def desk_inv_def)
  then show ?thesis using assms(2) buffers_setup_more[of t s] by (auto simp: desk_inv_def same_env_def)
qed

lemma desk_inv_paint: "draws f \<Longrightarrow> desk_inv bi base s \<Longrightarrow> desk_inv bi base (f s)"
  by (rule desk_inv_draws_at) (rule draws_at_app)

lemma desk_inv_present [desk_intros]:
  assumes "desk_inv bi base s"
  shows "desk_inv bi base (present_frame bi d r s)"
proof -
  have ok: "fb_ok bi" "g_bi s = Some bi" using assms by (auto simp: desk_inv_def)
  have st: "desk_inv bi base (t\<lparr>pixels := (pixels t)(d' := (pixels t d')(i := v))\<rparr>)"
    if "visible bi i" "desk_inv bi base t" for t :: "('a, 'b) desktop" and d' i v
    using that by (auto simp: desk_inv_unfold)
  have vis: "visible bi (unat y * unat (fb_pitch bi) + unat x)" if "x < fb_width bi" "y < fb_height bi" for x y
    using that by (auto simp: visible_def offset_def)
  show ?thesis
    using assms ok
    by (auto simp: present_frame_def blit_rect_def Let_def fb_ok_def upto_u32_iff
        offset_no_wrap[OF ok(1)] offset_def intro!: desk_inv_for_each st vis split: option.splits)
qed

lemma draws_scene: "draws draw_scene"
  by (rule draws_atI) (auto simp: draw_scene_def intro!: draws_intros)

lemma draws_pointer [draws_intros]: "draws (draw_pointer p)"
  unfolding draw_pointer_def by (rule draws_cursor)

lemma draws_drag_mark [draws_intros]: "draws (draw_drag_mark p)"
  unfolding draw_drag_mark_def Let_def by (intro draws_if_do draws_run) (auto intro: draws_intros)

lemma desk_inv_note_cursor [desk_intros]: "desk_inv bi base s \<Longrightarrow> desk_inv bi base (note_cursor p s)"
  by (simp add: note_cursor_def)

lemmas desk_inv_painters [desk_intros] =
  desk_inv_paint[OF draws_scene] desk_inv_paint[OF draws_pointer] desk_inv_paint[OF draws_drag_mark]
  desk_inv_paint[OF draws_background]

lemma desk_inv_redraw [desk_intros]:
  assumes "desk_inv bi base s"
  shows "desk_inv bi base (desktop_redraw bi ui s)"
proof -
  have "desk_inv bi base (redraw_direct s)"
    using assms by (simp add: redraw_direct_def Let_def run_def desk_intros)
  moreover have "desk_inv bi base (redraw_buffered bi ui s)"
    using assms by (simp add: redraw_buffered_def Let_def run_def desk_intros)
  ultimately show ?thesis by (simp add: desktop_redraw_def)
qed

section \<open>Handlers keep the invariant\<close>

lemma word_pred_less: "n \<noteq> 0 \<Longrightarrow> n < b \<Longrightarrow> n - 1 < b" for n b :: u32
  by (simp add: word_less_nat_alt unat_minus_one)

lemma desk_inv_edit:
  assumes "desk_inv bi base s"
  shows "length l = 4096 \<Longrightarrow> n < 4096 \<Longrightarrow> desk_inv bi base (s\<lparr>g_notepad_text := l, g_notepad_text_len := n\<rparr>)"
    "length l = 256 \<Longrightarrow> n < 256 \<Longrightarrow> desk_inv bi base (s\<lparr>g_shell_line := l, g_shell_line_len := n\<rparr>)"
    "length l = 4096 \<Longrightarrow> n < 4096 \<Longrightarrow> desk_inv bi base (s\<lparr>g_notepad_text_len := n, g_notepad_text := l\<rparr>)"
    "length l = 256 \<Longrightarrow> n < 256 \<Longrightarrow> desk_inv bi base (s\<lparr>g_shell_line_len := n, g_shell_line := l\<rparr>)"
    "desk_inv bi base (s\<lparr>g_shell_out_len := 0\<rparr>)"
  using assms by (simp_all add: desk_inv_unfold)

lemma desk_inv_buffers:
  assumes "desk_inv bi base s"
  shows "length (g_notepad_text s) = 4096" "g_notepad_text_len s < 4096"
    "length (g_shell_line s) = 256" "g_shell_line_len s < 256" "length (g_viewer_name s) = 64"
  using assms by (simp_all add: desk_inv_unfold)

text \<open>Stores below the bound of a buffer.\<close>

lemma length_store_word:
  "n < b \<Longrightarrow> length l = unat b \<Longrightarrow> length (store_at (unat n) v l) = unat b" for n b :: u32
  by (simp add: word_less_nat_alt)

lemmas store_notepad = length_store_word[where b = 4096, simplified]
lemmas store_line = length_store_word[where b = 256, simplified]

lemma desk_inv_notepad_key: "desk_inv bi base s \<Longrightarrow> desk_inv bi base (snd (notepad_key c s))"
  by (auto simp: notepad_key_def Let_def desk_inv_buffers store_notepad word_pred_less
      intro!: desk_inv_edit word_pred_less)

text \<open>An outcome with a flag.\<close>

definition keeps_inv2 :: "boot_fb \<Rightarrow> (surface \<Rightarrow> nat \<Rightarrow> u32) \<Rightarrow> (bool \<times> ('v, 's) desktop) outcome \<Rightarrow> bool" where
  "keeps_inv2 bi base r \<longleftrightarrow> (case r of Ret us \<Rightarrow> desk_inv bi base (snd us) | _ \<Rightarrow> True)"

lemma keeps_inv2_simps [simp]:
  "keeps_inv2 bi base (Ret us) = desk_inv bi base (snd us)" "keeps_inv2 bi base Stop" "keeps_inv2 bi base Fault"
  "keeps_inv2 bi base Timeout"
  by (simp_all add: keeps_inv2_def)

lemma desk_inv_shell_key: "desk_inv bi base s \<Longrightarrow> keeps_inv2 bi base (shell_key fuel dr c s)"
  using shell_keeps_inv[of bi base s fuel dr]
  by (auto simp: shell_key_def Let_def desk_inv_buffers store_line word_pred_less
      intro!: desk_inv_edit word_pred_less split: outcome.splits)

lemma desk_inv_route: "desk_inv bi base s \<Longrightarrow> keeps_inv2 bi base (route_key fuel dr c s)"
  by (simp add: route_key_def desk_inv_notepad_key desk_inv_shell_key)

lemma desk_inv_keyboard: "desk_inv bi base s \<Longrightarrow> keeps_inv2 bi base (keyboard_loop n fuel dr ui s)"
proof (induction n arbitrary: ui s)
  case (Suc n)
  obtain c i where pop: "input_kbd_pop_char True (dk_input s) = (c, i)" by (metis surj_pair)
  have inv: "desk_inv bi base (s\<lparr>dk_input := i\<rparr>)" using Suc.prems by simp
  show ?case
  proof (cases c)
    case (Some c')
    then show ?thesis
      using desk_inv_route[OF inv, of fuel dr c'] pop Suc.IH by (auto split: outcome.split)
  qed (use inv pop in simp)
qed simp

lemma desk_inv_fs_init: "dk_fs_init dr s = (ok, t) \<Longrightarrow> desk_inv bi base s \<Longrightarrow> desk_inv bi base t"
  using buffers_fs_init[of bi base s dr] by simp

lemma desk_inv_viewer: "viewer_read dr nm s = (ok, t) \<Longrightarrow> desk_inv bi base s \<Longrightarrow> desk_inv bi base t"
  using buffers_viewer_read[of bi base s dr nm] by simp

lemma desk_inv_open [desk_intros]:
  assumes "desk_inv bi base s"
  shows "desk_inv bi base (open_explorer dr s)" "desk_inv bi base (open_shell s)"
  using assms
  by (auto simp: open_explorer_def open_shell_def Let_def split: prod.splits intro!: desk_intros dest: desk_inv_fs_init)

lemma desk_inv_start: "desk_inv bi base s \<Longrightarrow> desk_inv bi base (snd (start_click bi' dr p s))"
  by (auto simp: start_click_def start_entry_def Let_def run_def desk_inv_buffers
      intro!: desk_intros desk_inv_edit)

lemma desk_inv_dock: "desk_inv bi base s \<Longrightarrow> desk_inv bi base (snd (dock_click bi' dr p s))"
proof -
  assume inv: "desk_inv bi base s"
  obtain r where r: "dock_click bi' dr p s = (case r of None \<Rightarrow> (False, s)
      | Some i \<Rightarrow> (True, if i = (0 :: nat) then open_shell s else if i = 1 then open_explorer dr s
          else if i = 2 then focus_app APP_VIEWER (s\<lparr>g_viewer_open := True\<rparr>) else focus_app APP_NOTEPAD s))"
    unfolding dock_click_def Let_def by blast
  show ?thesis
    using inv unfolding r by (cases r) (auto intro!: desk_intros)
qed

lemma desk_inv_viewer_name: "desk_inv bi base s \<Longrightarrow> length nm = 64 \<Longrightarrow> desk_inv bi base (s\<lparr>g_viewer_name := nm\<rparr>)"
  by (simp add: desk_inv_unfold)

lemma desk_inv_explorer: "desk_inv bi base s \<Longrightarrow> desk_inv bi base (snd (explorer_click dr p s))"
proof -
  have "desk_inv bi base (explorer_pick dr idx nm s)" if "desk_inv bi base s" for idx nm s
    using that
    by (auto simp: explorer_pick_def Let_def split: prod.splits
        intro!: desk_intros desk_inv_viewer_name dest!: desk_inv_viewer)
  then show "desk_inv bi base s \<Longrightarrow> ?thesis"
    by (auto simp: explorer_click_def explorer_list_click_def Let_def intro!: desk_intros
        split: prod.splits bool.splits option.splits)
qed

lemma desk_inv_viewer_click: "desk_inv bi base s \<Longrightarrow> desk_inv bi base (snd (viewer_click p s))"
  by (auto simp: viewer_click_def Let_def intro!: desk_intros)

lemma desk_inv_notepad: "desk_inv bi base s \<Longrightarrow> desk_inv bi base (snd (notepad_click dr p s))"
proof -
  have "desk_inv bi base (notepad_save dr s)" if "desk_inv bi base s" for s
    using that by (auto simp: notepad_save_def Let_def split: prod.splits intro!: desk_intros dest: desk_inv_fs_init)
  then show "desk_inv bi base s \<Longrightarrow> ?thesis"
    by (auto simp: notepad_click_def Let_def)
qed

text \<open>The steps of the setup window.\<close>

lemma small_steps: "n \<le> 5 \<Longrightarrow> n \<in> {0, 1, 2, 3, 4, 5}" for n :: u32
proof -
  assume "n \<le> 5"
  then have "unat n \<le> 5" by (simp add: word_le_nat_alt)
  then have "unat n \<in> {0, 1, 2, 3, 4, 5}" by auto
  then show ?thesis by (auto simp: word_unat_eq_iff)
qed

lemma setup_steps:
  assumes "desk_inv bi base s"
  shows "g_setup_step s \<in> {0, 1, 2, 3, 4, 5}"
  using assms by (intro small_steps) (simp add: desk_inv_def setup_ok_def)

lemma desk_inv_setup_fields:
  assumes "desk_inv bi base s" "setup_ok t"
    "t = s\<lparr>g_setup_step := g_setup_step t, g_setup_disk_ready := g_setup_disk_ready t,
      g_setup_partition_done := g_setup_partition_done t, g_setup_format_done := g_setup_format_done t\<rparr>"
  shows "desk_inv bi base t"
proof -
  have "buffers_ok t" "g_bi t = g_bi s" "pixels t = pixels s"
    using assms(1) by (subst assms(3), simp add: desk_inv_def buffers_ok_def term_ok_def)+
  then show ?thesis using assms(1,2) by (simp add: desk_inv_def)
qed

lemma setup_ok_next:
  assumes "setup_ok s" "g_setup_step s \<in> {0, 1, 2, 3, 4}"
  shows "setup_ok (setup_next s)"
  using assms by (auto simp: setup_next_def setup_ok_def word_le_nat_alt)

lemma desk_inv_setup_next:
  assumes "desk_inv bi base s"
  shows "desk_inv bi base (setup_next s)"
proof (cases "g_setup_step s = 5")
  case True
  then show ?thesis using assms by (simp add: setup_next_def desk_intros)
next
  case False
  then have "g_setup_step s \<in> {0, 1, 2, 3, 4}" using setup_steps[OF assms] by blast
  then have "setup_ok (setup_next s)"
    using assms by (intro setup_ok_next) (simp_all add: desk_inv_def)
  then show ?thesis
    by (rule desk_inv_setup_fields[OF assms]) (use False in \<open>simp add: setup_next_def Let_def\<close>)
qed

lemma desk_inv_setup_back:
  assumes "desk_inv bi base s" "g_setup_step s > 0"
  shows "desk_inv bi base (s\<lparr>g_setup_step := g_setup_step s - 1\<rparr>)"
proof -
  have "setup_ok s" using assms by (simp add: desk_inv_def)
  then have "setup_ok (s\<lparr>g_setup_step := g_setup_step s - 1\<rparr>)"
    using setup_steps[OF assms(1)] assms(2) by (auto simp: setup_ok_def word_le_nat_alt)
  then show ?thesis by (rule desk_inv_setup_fields[OF assms(1)]) simp
qed

lemma desk_inv_setup: "desk_inv bi base s \<Longrightarrow> desk_inv bi base (snd (setup_click p s))"
  by (simp add: setup_click_def Let_def desk_inv_setup_next desk_inv_setup_back)

lemma desk_inv_shell_click: "desk_inv bi base s \<Longrightarrow> desk_inv bi base (snd (shell_click p s))"
  by (simp add: shell_click_def Let_def)

lemma desk_inv_handlers:
  assumes "h \<in> set (click_handlers bi' dr p)" "desk_inv bi base s"
  shows "desk_inv bi base (snd (h s))"
  using assms
  by (auto simp: click_handlers_def desk_inv_start desk_inv_dock desk_inv_explorer desk_inv_viewer_click
      desk_inv_notepad desk_inv_setup desk_inv_shell_click)

lemma desk_inv_handle:
  "(\<And>h t. h \<in> set hs \<Longrightarrow> desk_inv bi base t \<Longrightarrow> desk_inv bi base (snd (h t))) \<Longrightarrow>
   desk_inv bi base (snd us) \<Longrightarrow> desk_inv bi base (snd (fold handle hs us))"
proof (induction hs arbitrary: us)
  case (Cons h hs)
  have "desk_inv bi base (snd (handle h us))"
    using Cons.prems by (cases us) (auto simp: handle_def Let_def split_def)
  then show ?case using Cons by simp
qed simp

lemma desk_inv_pointer: "desk_inv bi base (snd us) \<Longrightarrow> desk_inv bi base (snd (desktop_pointer bi' dr p pressed us))"
  using desk_inv_handle[of "click_handlers bi' dr p" bi base us] desk_inv_handlers[of _ bi' dr p bi base]
  by (simp add: desktop_pointer_def Let_def handle_def split_def move_windows_def release_drags_def)

lemma desk_inv_tick:
  assumes "desk_inv bi base s" "desktop_tick fuel dr s = Ret s'"
  shows "desk_inv bi base s'"
proof -
  let ?p = "input_pointer_get (dk_input s)"
  let ?s = "s\<lparr>g_last_ptr := ?p, prev_buttons := ptr_buttons ?p\<rparr>"
  obtain us where us: "keyboard_loop 32 fuel dr False ?s = Ret us"
    and s': "s' = (let (ui, t) = desktop_pointer bi dr ?p (ptr_buttons ?p AND NOT (prev_buttons s)) us;
        t = desktop_redraw bi ui t in t\<lparr>g_tick := g_tick t + 1\<rparr>)"
    using assms desk_inv_mode[OF assms(1)]
    by (simp add: desktop_tick_def Let_def split_def split: outcome.splits)
  have "desk_inv bi base (snd us)"
    using desk_inv_keyboard[of bi base ?s 32 fuel dr False] assms(1) us by simp
  then show ?thesis
    unfolding s' by (simp add: Let_def split_def desk_intros desk_inv_pointer)
qed

section \<open>Ticks that fault\<close>



section \<open>Reachable states\<close>

lemma desk_inv_reset:
  assumes "buffers_ok s" "setup_ok s" "fb_ok bi"
  shows "desk_inv bi (pixels s) (init_reset bi s)"
  using assms by (simp add: init_reset_def desk_inv_unfold)

lemma desk_inv_alloc:
  "alloc_surface bytes b s = Some (r, t) \<Longrightarrow> desk_inv bi base s \<Longrightarrow> desk_inv bi base t"
  by (auto simp: alloc_surface_def split: option.splits prod.splits)

lemma desk_inv_buffers_alloc:
  "init_buffers bi' s = Some t \<Longrightarrow> desk_inv bi base s \<Longrightarrow> desk_inv bi base t"
  by (auto simp: init_buffers_def alloc_buffers_def Let_def split: option.splits prod.splits if_splits
      dest!: desk_inv_alloc)

lemma desk_inv_windows [desk_intros]: "desk_inv bi base s \<Longrightarrow> desk_inv bi base (init_windows bi' s)"
  by (simp add: init_windows_def Let_def desk_inv_unfold)

lemma desk_inv_frame [desk_intros]: "desk_inv bi base s \<Longrightarrow> desk_inv bi base (init_frame bi s)"
  by (simp add: init_frame_def init_background_def Let_def desk_intros)

lemma desk_inv_init:
  assumes "buffers_ok s" "setup_ok s" "fb_ok bi" "desktop_init (Some bi) s = Ret s'"
  shows "desk_inv bi (pixels s) s'"
proof -
  obtain t where t: "init_buffers bi (init_reset bi s) = Some t"
    and s': "s' = init_frame bi (init_windows bi (out ''> '' (t\<lparr>g_last_cursor_x := - 1000, g_last_cursor_y := - 1000,
        g_last_cursor_buttons := 0, dk_input := input_init (fb_width bi) (fb_height bi) (dk_input t)\<rparr>)))"
    using assms(4) by (auto simp: desktop_init_def Let_def split: option.splits)
  have "desk_inv bi (pixels s) t"
    using desk_inv_buffers_alloc[OF t desk_inv_reset[OF assms(1-3)]] .
  then show ?thesis unfolding s' by (simp add: desk_intros)
qed

text \<open>
  The desktop between two ticks: a pointer event or a character of the keyboard may arrive. The
  fuel of a tick is arbitrary, so a state is reachable when the commands typed so far returned.
\<close>

inductive desk_reach :: "('v, 's) blk_driver \<Rightarrow> boot_fb \<Rightarrow> ('v, 's) desktop \<Rightarrow> ('v, 's) desktop \<Rightarrow> bool"
  for dr bi s0 where
  init: "desktop_init (Some bi) s0 = Ret s \<Longrightarrow> desk_reach dr bi s0 s"
| tick: "desk_reach dr bi s0 s \<Longrightarrow> desktop_tick fuel dr s = Ret t \<Longrightarrow> desk_reach dr bi s0 t"
| pointer: "desk_reach dr bi s0 s \<Longrightarrow> desk_reach dr bi s0 (s\<lparr>dk_input := pointer_update e (dk_input s)\<rparr>)"
| key: "desk_reach dr bi s0 s \<Longrightarrow> desk_reach dr bi s0 (s\<lparr>dk_input := input_kbd_push_char c (dk_input s)\<rparr>)"

lemma desk_reach_inv:
  assumes "buffers_ok s0" "setup_ok s0" "fb_ok bi" "desk_reach dr bi s0 s"
  shows "desk_inv bi (pixels s0) s"
  using assms(4) by (induction rule: desk_reach.induct) (auto intro: desk_inv_init[OF assms(1-3)] desk_inv_tick)


text \<open>
  C34. The setup window never shows a step before the steps it rests on are done: the step stays
  between 0 and 5, and the disk, partition and format flags are set from step 1, 2 and 3 on,
  whatever is clicked and typed.
\<close>

theorem setup_steps_in_order:
  assumes "buffers_ok s0" "setup_ok s0" "fb_ok bi" "desk_reach dr bi s0 s"
  shows "g_setup_step s \<le> 5 \<and> (1 \<le> g_setup_step s \<longrightarrow> g_setup_disk_ready s) \<and>
    (2 \<le> g_setup_step s \<longrightarrow> g_setup_partition_done s) \<and> (3 \<le> g_setup_step s \<longrightarrow> g_setup_format_done s)"
  using desk_reach_inv[OF assms] by (simp add: desk_inv_def setup_ok_def)

text \<open>
  C35. However windows are dragged and texts grow, the desktop writes only pixels of the visible
  screen: in every reachable state, every surface is unchanged at every offset that belongs to
  no visible pixel.
\<close>

theorem desktop_stays_on_screen:
  assumes "buffers_ok s0" "setup_ok s0" "fb_ok bi" "desk_reach dr bi s0 s"
    and "\<And>x y. x < fb_width bi \<Longrightarrow> y < fb_height bi \<Longrightarrow> i \<noteq> offset bi x y"
  shows "pixels s b i = pixels s0 b i"
  using desk_reach_inv[OF assms(1-4)] assms(5) by (auto simp: desk_inv_def visible_def)

lemma desk_example_reach: "\<exists>s. desk_reach no_disk example_fb desk_example s \<and> desktop_init (Some example_fb) desk_example = Ret s"
proof -
  have "init_buffers example_fb (init_reset example_fb desk_example) = Some (init_reset example_fb desk_example)"
    by (simp add: init_buffers_def init_reset_def example_fb_def desk_example_def desk_start_def
        hw_tuning_allow_backbuffer_def zero_profile_def Let_def)
  then have "\<exists>s. desktop_init (Some example_fb) desk_example = Ret s"
    by (simp add: desktop_init_def Let_def)
  then show ?thesis by (auto intro: desk_reach.init)
qed

lemma desk_example_setup: "setup_ok desk_example"
  by (simp add: setup_ok_def desk_example_def desk_start_def)


theorem setup_steps_in_order_witness: "\<exists>s. desk_reach no_disk example_fb desk_example s \<and> g_setup_step s \<le> 5"
  using setup_steps_in_order[OF desk_example_ok(1) desk_example_setup example_fb_ok] desk_example_reach by blast

theorem desktop_stays_on_screen_witness:
  "\<exists>s. desk_reach no_disk example_fb desk_example s \<and> pixels s Framebuffer 4 = pixels desk_example Framebuffer 4"
proof -
  have no: "4 \<noteq> offset example_fb x y" if "x < fb_width example_fb" "y < fb_height example_fb" for x y
  proof -
    have "unat x < 4" using that by (simp add: example_fb_def word_less_nat_alt)
    then show ?thesis by (cases "unat y") (auto simp: offset_def example_fb_def)
  qed
  show ?thesis
    using desktop_stays_on_screen[OF desk_example_ok(1) desk_example_setup example_fb_ok _ no] desk_example_reach by blast
qed

end
