(* ===== verification/Wizard.thy ===== *)
theory Wizard
  imports Desktop
begin

text \<open>
  The full-screen setup wizard of the first boot, \<open>src/kernel/core/desktop.c\<close>. Its static
  variables are a record of their own. \<open>xhci_poll_events\<close> is a step on the input state, one for
  each iteration of the loop; the loop blocks until Finish is clicked, so \<open>Timeout\<close> means that the
  polls given have been used up.
\<close>

record wizard =
  fs_step :: u8
  fs_disk_ready :: bool
  fs_partition_done :: bool
  fs_format_done :: bool
  g_setup_complete :: bool

section \<open>Drawing\<close>

definition fs_titles :: "string list" where
  "fs_titles = [''Welcome to VexOS'', ''Detect Disk'', ''Create Partition'', ''Format Filesystem'',
     ''Verify Installation'', ''Setup Complete'']"

definition fs_step_text :: "wizard \<Rightarrow> u32 \<Rightarrow> ('a gfx_scheme \<Rightarrow> 'a gfx_scheme) list" where
  "fs_step_text z ty =
     (let tx = 56 in
      if fs_step z = 0 then
        [draw_lit tx ty ''Welcome to VexOS Setup!'' 0xFFFFFF,
         draw_lit tx (ty + 32) ''This wizard will guide you through:'' 0xD0D6E0,
         draw_lit tx (ty + 56) ''  - Disk detection'' 0xD0D6E0,
         draw_lit tx (ty + 76) ''  - Partition creation'' 0xD0D6E0,
         draw_lit tx (ty + 96) ''  - Filesystem formatting'' 0xD0D6E0,
         draw_lit tx (ty + 136) ''Click 'Next' to begin...'' 0x22C55E]
      else if fs_step z = 1 then
        [draw_lit tx ty ''Detecting storage devices...'' 0xFFFFFF] @
        (if fs_disk_ready z then
           [draw_lit tx (ty + 40) ''Status: Disk detected and ready'' 0x22C55E,
            draw_lit tx (ty + 64) ''Device: RAM Disk (1 MiB)'' 0xD0D6E0,
            draw_lit tx (ty + 84) ''Sector size: 512 bytes'' 0xD0D6E0]
         else [draw_lit tx (ty + 40) ''Status: Scanning for devices...'' 0xFFB000])
      else if fs_step z = 2 then
        [draw_lit tx ty ''Creating MBR partition...'' 0xFFFFFF] @
        (if fs_partition_done z then
           [draw_lit tx (ty + 40) ''Status: Partition created successfully'' 0x22C55E,
            draw_lit tx (ty + 64) ''Partition: Primary (FAT16 LBA)'' 0xD0D6E0,
            draw_lit tx (ty + 84) ''Start LBA: 1'' 0xD0D6E0]
         else [draw_lit tx (ty + 40) ''Status: Waiting to create partition...'' 0xD0D6E0])
      else if fs_step z = 3 then
        [draw_lit tx ty ''Formatting partition...'' 0xFFFFFF] @
        (if fs_format_done z then
           [draw_lit tx (ty + 40) ''Status: Format complete'' 0x22C55E,
            draw_lit tx (ty + 64) ''Filesystem: FAT16'' 0xD0D6E0,
            draw_lit tx (ty + 84) ''Volume label: VEXOS'' 0xD0D6E0]
         else [draw_lit tx (ty + 40) ''Status: Waiting to format...'' 0xD0D6E0])
      else if fs_step z = 4 then
        [draw_lit tx ty ''Verifying installation...'' 0xFFFFFF] @
        (if fs_format_done z then
           [draw_lit tx (ty + 40) ''MBR Signature: 0x55AA (Valid)'' 0x22C55E,
            draw_lit tx (ty + 60) ''BPB Structure: Valid'' 0x22C55E,
            draw_lit tx (ty + 80) ''FAT Tables: Initialized'' 0x22C55E,
            draw_lit tx (ty + 100) ''Root Directory: Ready'' 0x22C55E]
         else [])
      else if fs_step z = 5 then
        [draw_lit tx ty ''Setup Complete!'' 0x22C55E,
         draw_lit tx (ty + 40) ''Your VexOS installation is ready.'' 0xFFFFFF,
         draw_lit tx (ty + 80) ''The system will now boot to the desktop.'' 0xD0D6E0,
         draw_lit tx (ty + 100) ''You can run Setup again anytime from the'' 0xD0D6E0,
         draw_lit tx (ty + 120) ''Start menu or by typing 'setup' in Shell.'' 0xD0D6E0]
      else [])"

definition draw_fullscreen_setup_step :: "wizard \<Rightarrow> u32 \<Rightarrow> u32 \<Rightarrow> 'a gfx_scheme \<Rightarrow> 'a gfx_scheme" where
  "draw_fullscreen_setup_step z screen_w screen_h =
     (let bar_y = 80; bar_w = screen_w - 64; step_w = bar_w div 6;
          content_y = 120; content_h = screen_h - 240; btn_y = screen_h - 72; btn_x = screen_w - 132 in
      run
       ([draw_rect 0 0 screen_w screen_h 0x0A0D14,
         draw_lit 32 32 (fs_titles ! unat (fs_step z)) 0xFFFFFF,
         draw_rect 32 52 (screen_w - 64) 2 0x2A3140,
         draw_rect 32 bar_y bar_w 8 0x1A1F2A,
         for_each (upto_u32 0 6) (\<lambda>i.
           draw_rect (32 + i * step_w + 2) (bar_y + 2) (step_w - 4) 4
             (if i \<le> ucast (fs_step z) then 0x22C55E else 0x303040)),
         blend_rect 32 content_y (screen_w - 64) content_h 0x0F141C 220,
         draw_rect 32 content_y (screen_w - 64) 1 0x2A3140,
         draw_rect 32 (content_y + content_h - 1) (screen_w - 64) 1 0x0B0E14] @
        fs_step_text z (content_y + 32) @
        (if fs_step z > 0
         then [draw_rect 32 btn_y 100 32 0x2A3140, draw_lit 64 (btn_y + 12) ''Back'' 0xFFFFFF]
         else [draw_rect 32 btn_y 100 32 0x1A1F2A, draw_lit 64 (btn_y + 12) ''Back'' 0x505050]) @
        [draw_rect btn_x btn_y 100 32 (if fs_step z = 5 then 0x22C55E else 0x2244AA),
         draw_lit (btn_x + 28) (btn_y + 12) (if fs_step z = 5 then ''Finish'' else ''Next'') 0xFFFFFF]))"

text \<open>The cross that marks the pointer; the bounds are compared as signed numbers.\<close>

definition draw_cross :: "pointer \<Rightarrow> u32 \<Rightarrow> u32 \<Rightarrow> 'a gfx_scheme \<Rightarrow> 'a gfx_scheme" where
  "draw_cross p screen_w screen_h =
     (let fg = (if ptr_buttons p AND 1 \<noteq> 0 then 0xFFCC00 else if ptr_buttons p AND 2 \<noteq> 0 then 0x00CCFF else 0xFFFFFF) in
      for_each (centred 8) (\<lambda>i. run
       [if_do (sint (ptr_y p + i) < sint screen_h) (put_px (ptr_x p) (ptr_y p + i) fg),
        if_do (sint (ptr_x p + i) < sint screen_w) (put_px (ptr_x p + i) (ptr_y p) fg)]))"

section \<open>The loop\<close>

text \<open>The local variables of the loop beside the static ones.\<close>

record wizard_loop =
  wz :: wizard
  wz_running :: bool
  wz_btn_pressed :: bool
  wz_needs_redraw :: bool
  wz_last_p :: pointer

definition wizard_redraw ::
  "boot_fb \<Rightarrow> surface option \<Rightarrow> pointer \<Rightarrow> wizard_loop \<times> ('v, 's) desktop \<Rightarrow> wizard_loop \<times> ('v, 's) desktop" where
  "wizard_redraw bi wizard_back p ls =
     (let (l, s) = ls; w = fb_width bi; h = fb_height bi; q = wz_last_p l in
      if wz_needs_redraw l \<or> ptr_x p \<noteq> ptr_x q \<or> ptr_y p \<noteq> ptr_y q \<or> ptr_buttons p \<noteq> ptr_buttons q then
        let s = s\<lparr>g_back := (case wizard_back of None \<Rightarrow> Some Framebuffer | Some b \<Rightarrow> Some b)\<rparr>;
            s = run [draw_fullscreen_setup_step (wz l) w h, draw_cross p w h,
                     if_do (wizard_back \<noteq> None) (blit_rect (Some Framebuffer) wizard_back 0 0 w h)] s in
        (l\<lparr>wz_needs_redraw := False, wz_last_p := p\<rparr>, s)
      else (l, s))"

text \<open>The Next button: the action of the step, and the step counter.\<close>

definition wizard_next :: "wizard \<Rightarrow> wizard" where
  "wizard_next z =
     (let z' = (if fs_step z = 0 then z\<lparr>fs_disk_ready := True\<rparr>
                else if fs_step z = 1 then z\<lparr>fs_partition_done := True\<rparr>
                else if fs_step z = 2 then z\<lparr>fs_format_done := True\<rparr>
                else z) in
      z'\<lparr>fs_step := fs_step z' + 1\<rparr>)"

definition on_next :: "boot_fb \<Rightarrow> pointer \<Rightarrow> bool" where
  "on_next bi p \<longleftrightarrow>
     (let btn_x = fb_width bi - 132; btn_y = fb_height bi - 72 in
      ptr_x p \<ge> btn_x \<and> ptr_x p < btn_x + 100 \<and> ptr_y p \<ge> btn_y \<and> ptr_y p < btn_y + 32)"

definition on_back :: "boot_fb \<Rightarrow> pointer \<Rightarrow> bool" where
  "on_back bi p \<longleftrightarrow>
     (let btn_y = fb_height bi - 72 in
      sint (ptr_x p) \<ge> 32 \<and> sint (ptr_x p) < 132 \<and> ptr_y p \<ge> btn_y \<and> ptr_y p < btn_y + 32)"

definition wizard_press :: "boot_fb \<Rightarrow> pointer \<Rightarrow> wizard_loop \<Rightarrow> wizard_loop" where
  "wizard_press bi p l0 =
     (let l = l0\<lparr>wz_btn_pressed := True\<rparr>;
          l = (if on_next bi p then
                 (if fs_step (wz l) = 5
                  then l\<lparr>wz_running := False, wz := (wz l)\<lparr>g_setup_complete := True\<rparr>\<rparr>
                  else l\<lparr>wz := wizard_next (wz l), wz_needs_redraw := True\<rparr>)
               else l) in
      if fs_step (wz l) > 0 \<and> on_back bi p
      then l\<lparr>wz := (wz l)\<lparr>fs_step := fs_step (wz l) - 1\<rparr>, wz_needs_redraw := True\<rparr> else l)"

definition wizard_buttons :: "boot_fb \<Rightarrow> pointer \<Rightarrow> wizard_loop \<Rightarrow> wizard_loop" where
  "wizard_buttons bi p l0 =
     (let l = (if ptr_buttons p AND 1 \<noteq> 0 \<and> \<not> wz_btn_pressed l0 then wizard_press bi p l0 else l0) in
      if ptr_buttons p AND 1 = 0 then l\<lparr>wz_btn_pressed := False\<rparr> else l)"

fun wizard_run ::
  "boot_fb \<Rightarrow> surface option \<Rightarrow> (input \<Rightarrow> input) list \<Rightarrow> wizard_loop \<times> ('v, 's) desktop \<Rightarrow>
   (wizard_loop \<times> ('v, 's) desktop) outcome" where
  "wizard_run bi back [] (l, s) = (if wz_running l then Timeout else Ret (l, s))"
| "wizard_run bi back (poll # polls) (l, s) =
     (if \<not> wz_running l then Ret (l, s)
      else
        let s = s\<lparr>dk_input := poll (dk_input s)\<rparr>; p = input_pointer_get (dk_input s);
            (l, s) = wizard_redraw bi back p (l, s) in
        wizard_run bi back polls (wizard_buttons bi p l, s))"

text \<open>The back buffer of the wizard: its pointer with the address \<open>kfree\<close> takes.\<close>

definition wizard_alloc :: "boot_fb \<Rightarrow> ('v, 's) desktop \<Rightarrow> (u64 \<times> ('v, 's) desktop) option" where
  "wizard_alloc bi s =
     (let bytes = ucast (fb_pitch bi) * ucast (fb_height bi) * 4 :: u64 in
      if fb_pitch bi \<noteq> 0 \<and> fb_height bi \<noteq> 0 \<and> bytes \<le> 0xFFFFFFFF then
        map_option (\<lambda>(p, h). (p, s\<lparr>dk_ramfs := (dk_ramfs s)\<lparr>rf_heap := h\<rparr>\<rparr>))
          (kmalloc (ucast (ucast bytes :: u32)) (rf_heap (dk_ramfs s)))
      else Some (0, s))"

definition desktop_run_fullscreen_wizard ::
  "(input \<Rightarrow> input) list \<Rightarrow> boot_fb option \<Rightarrow> wizard \<times> ('v, 's) desktop \<Rightarrow> (wizard \<times> ('v, 's) desktop) outcome" where
  "desktop_run_fullscreen_wizard polls bootInfo zs =
     (case bootInfo of
        None \<Rightarrow> Fault
      | Some bi \<Rightarrow>
          let s = (snd zs)\<lparr>g_bi := Some bi, dk_input := input_init (fb_width bi) (fb_height bi) (dk_input (snd zs))\<rparr>;
              z = \<lparr>fs_step = 0, fs_disk_ready = False, fs_partition_done = False, fs_format_done = False,
                   g_setup_complete = False\<rparr>;
              l = \<lparr>wz = z, wz_running = True, wz_btn_pressed = False, wz_needs_redraw = True, wz_last_p = zero_pointer\<rparr> in
          case wizard_alloc bi s of
            None \<Rightarrow> Timeout
          | Some (p, s) \<Rightarrow>
              case wizard_run bi (if p = 0 then None else Some Wizard_buffer) polls (l, s) of
                Ret (l, s) \<Rightarrow>
                  (case (if p = 0 then Some (rf_heap (dk_ramfs s)) else kfree p (rf_heap (dk_ramfs s))) of
                     None \<Rightarrow> Timeout
                   | Some h \<Rightarrow> Ret (wz l, s\<lparr>dk_ramfs := (dk_ramfs s)\<lparr>rf_heap := h\<rparr>, g_back := None\<rparr>))
              | Stop \<Rightarrow> Stop | Fault \<Rightarrow> Fault | Timeout \<Rightarrow> Timeout)"

definition desktop_is_setup_complete :: "wizard \<Rightarrow> bool" where
  "desktop_is_setup_complete z = g_setup_complete z"

end
