(* ===== verification/KernelMain.thy ===== *)
theory KernelMain
  imports Vmm Interrupts Wizard "HOL-Library.Monad_Syntax"
begin

text \<open>
  \<open>kernel_main\<close>, \<open>src/kernel/core/main.c\<close>: the memory set-up of the boot, the order of the
  initialisations, and the frame loop. \<open>rip\<close> and \<open>sp\<close> are the instruction pointer and the stack
  address the function reads; the descriptor tables and the text output are left out.

  The memory set-up returns \<open>None\<close> where the function does not return: the \<open>while (1)\<close> after a
  fatal error, and a mapping loop whose counter wraps before it reaches its bound.
\<close>

section \<open>Memory\<close>

record boot_info =
  bt_framebuffer :: u64
  bt_fb :: boot_fb
  region_base :: u64
  region_size :: u64

definition bitmap_pages :: "u64 \<Rightarrow> u64" where
  "bitmap_pages mem_size =
     (let n = (mem_size div 4096 div 8 + 4095) div 4096 in if n = 0 then 1 else n)"

definition boot_pmm :: "u64 \<Rightarrow> u64 \<Rightarrow> pmm" where
  "boot_pmm base mem_size =
     PMM_FreePages (base + bitmap_pages mem_size * 4096) (mem_size div 4096 - bitmap_pages mem_size)
       (PMM_Init mem_size base)"

definition map_identity :: "u64 list \<Rightarrow> vmm \<Rightarrow> vmm" where
  "map_identity = fold (\<lambda>a. VMM_MapPage a a PAGE_WRITE)"

text \<open>\<open>for (i = 0; i < bytes; i += 4096)\<close>, mapping \<open>base + i\<close>.\<close>

definition pages_from :: "u64 \<Rightarrow> nat \<Rightarrow> u64 list" where
  "pages_from base n = map (\<lambda>k. base + of_nat (4096 * k)) [0..<n]"

definition map_bytes :: "u64 \<Rightarrow> u64 \<Rightarrow> vmm \<Rightarrow> vmm option" where
  "map_bytes base bytes s =
     (if bytes > 0xFFFFFFFFFFFFF000 then None
      else Some (map_identity (pages_from base ((unat bytes + 4095) div 4096)) s))"

text \<open>\<open>for (a = start; a \<le> end; a += 4096)\<close>, from \<open>r\<close> bytes below \<open>a\<close> to \<open>r\<close> bytes above it.\<close>

definition map_around :: "u64 \<Rightarrow> u64 \<Rightarrow> vmm \<Rightarrow> vmm option" where
  "map_around r a s =
     (let lo = (if a > r then a - r else 0) AND NOT 0xFFF; hi = (a + r) AND NOT 0xFFF in
      if hi < lo then Some s
      else if hi \<ge> 0xFFFFFFFFFFFFF000 then None
      else Some (map_identity (pages_from lo ((unat hi - unat lo) div 4096 + 1)) s))"

definition fb_bytes :: "boot_fb \<Rightarrow> u64" where
  "fb_bytes bi = ucast (fb_pitch bi) * ucast (fb_height bi) * 4"

definition boot_vmm :: "boot_info \<Rightarrow> u64 \<Rightarrow> u64 \<Rightarrow> vmm \<Rightarrow> vmm option" where
  "boot_vmm bt rip sp s =
     do {
       let s = VMM_Init s;
       s \<leftarrow> map_bytes 0 0x8000000 s;
       s \<leftarrow> map_bytes (region_base bt)
             (if region_size bt > 256 * 1024 * 1024 then 256 * 1024 * 1024 else region_size bt) s;
       s \<leftarrow> map_bytes (bt_framebuffer bt) (ucast (fb_height (bt_fb bt)) * ucast (fb_pitch (bt_fb bt)) * 4) s;
       s \<leftarrow> map_around 0x800000 rip s;
       s \<leftarrow> map_around 0x200000 sp s;
       Some (VMM_Activate s)
     }"

definition heap_pages :: "boot_fb \<Rightarrow> hw_tuning \<Rightarrow> u64" where
  "heap_pages bi t =
     (let heap_bytes = fb_bytes bi + heap_slack_bytes t;
          heap_bytes = (if heap_bytes < 8 * 1024 * 1024 then 8 * 1024 * 1024 else heap_bytes);
          n = (heap_bytes + 4095) div 4096 in
      if n < 4 then 4 else n)"

fun heap_grow :: "u64 \<Rightarrow> nat \<Rightarrow> u64 \<Rightarrow> vmm \<Rightarrow> vmm option" where
  "heap_grow heap_base 0 p s = Some s"
| "heap_grow heap_base (Suc n) p s =
     (let (next, q) = PMM_AllocatePage (vm_pmm s); s = s\<lparr>vm_pmm := q\<rparr> in
      if next = 0 then None
      else let want = heap_base + p * 4096 in
        if next \<noteq> want then None
        else heap_grow heap_base n (p + 1) (VMM_MapPage want want PAGE_WRITE s))"

definition boot_heap :: "u64 \<Rightarrow> vmm \<Rightarrow> kheap \<Rightarrow> (vmm \<times> kheap) option" where
  "boot_heap n s h =
     (let (heap_start, q) = PMM_AllocatePage (vm_pmm s); s = s\<lparr>vm_pmm := q\<rparr> in
      if heap_start = 0 then None
      else do {
        s \<leftarrow> heap_grow heap_start (unat n - 1) 1 (VMM_MapPage heap_start heap_start PAGE_WRITE s);
        Some (s, Heap_Init heap_start (n * 4096) h)
      })"

text \<open>\<open>kernel_main\<close> up to the initialised heap.\<close>

definition boot_memory :: "cpuid \<Rightarrow> boot_info \<Rightarrow> u64 \<Rightarrow> u64 \<Rightarrow> vmm \<times> hw \<times> kheap \<Rightarrow> (vmm \<times> hw \<times> kheap) option" where
  "boot_memory cpuid bt rip sp st =
     (let (s, hw, h) = st; bi = bt_fb bt;
          hw = hw_profile_detect_early cpuid (region_size bt) (fb_width bi) (fb_height bi) (fb_pitch bi) hw;
          s = s\<lparr>vm_pmm := boot_pmm (region_base bt) (region_size bt)\<rparr> in
      do {
        s \<leftarrow> boot_vmm bt rip sp s;
        (s, h) \<leftarrow> boot_heap (heap_pages bi (g_tune hw)) s h;
        Some (s, hw, h)
      })"

section \<open>The order of the boot\<close>

record ('p, 'd, 'v, 's) kernel =
  k_ports :: 'p
  k_xhci :: "'d xhci"
  k_vmm :: vmm
  k_wizard :: wizard
  k_desk :: "('v, 's) desktop"

text \<open>The loop over \<open>width * height\<close> cells, a 32-bit product.\<close>

definition clear_framebuffer :: "boot_fb \<Rightarrow> ('v, 's) desktop \<Rightarrow> ('v, 's) desktop" where
  "clear_framebuffer bi s =
     s\<lparr>pixels := (pixels s)(Framebuffer :=
       (\<lambda>i. if i < unat (fb_width bi * fb_height bi) then 0x001122 else pixels s Framebuffer i))\<rparr>"

definition set_memory :: "kheap \<Rightarrow> hw \<Rightarrow> ('v, 's) desktop \<Rightarrow> ('v, 's) desktop" where
  "set_memory h hw s = s\<lparr>dk_ramfs := (dk_ramfs s)\<lparr>rf_heap := h\<rparr>, dk_hw := hw\<rparr>"

text \<open>
  \<open>kernel_main\<close> from its entry to the frame loop; \<open>polls\<close> is the input that reaches the wizard. The USB
  driver works on the page allocator and the page tables that the memory set-up leaves: they are handed to
  the enumeration inside \<open>k_xhci\<close>, and what it leaves of them is the state that is kept.
\<close>

definition kernel_start ::
  "cpuid \<Rightarrow> 'p port_io \<Rightarrow> 'd bus \<Rightarrow> (input \<Rightarrow> input) list \<Rightarrow> boot_info \<Rightarrow> u64 \<Rightarrow> u64 \<Rightarrow>
   ('p, 'd, 'v, 's) kernel \<Rightarrow> ('p, 'd, 'v, 's) kernel outcome" where
  "kernel_start cpuid io b polls bt rip sp k =
     (let bi = bt_fb bt; s = clear_framebuffer bi (k_desk k) in
      case boot_memory cpuid bt rip sp (k_vmm k, dk_hw s, rf_heap (dk_ramfs s)) of
        None \<Rightarrow> Timeout
      | Some (vm, hw, h) \<Rightarrow>
          case pci_enumerate io b (k_ports k, (k_xhci k)\<lparr>x_vmm := vm\<rparr>) of
            None \<Rightarrow> Timeout
          | Some (p, x) \<Rightarrow>
              let (hw, p) = hw_profile_update_pci_gpu io hw p in
              case desktop_run_fullscreen_wizard polls (Some bi) (k_wizard k, set_memory h hw s) of
                Ret (z, s) \<Rightarrow>
                  (case desktop_init (Some bi) s of
                     Ret s \<Rightarrow>
                       let s = s\<lparr>dk_sched := Task_Init (dk_sched s)\<rparr> in
                       (case PIT_Init io 1000 p of
                          None \<Rightarrow> Fault
                        | Some p \<Rightarrow>
                            let p = mask_all_but_timer io (PIC_Remap io p) in
                            Ret (k\<lparr>k_ports := p, k_xhci := x, k_vmm := x_vmm x, k_wizard := z, k_desk := s\<rparr>))
                   | Stop \<Rightarrow> Stop | Fault \<Rightarrow> Fault | Timeout \<Rightarrow> Timeout)
              | Stop \<Rightarrow> Stop | Fault \<Rightarrow> Fault | Timeout \<Rightarrow> Timeout)"

section \<open>The frame loop\<close>

text \<open>
  \<open>clk k\<close> is what the \<open>k\<close>-th call of \<open>Timer_Ticks\<close> in the loop returns; the state of the loop has
  the number of calls so far. The waiting loop has fuel.
\<close>

definition frame_delay :: "hw_tuning \<Rightarrow> u32" where
  "frame_delay t = 1000 div (if target_fps t = 0 then 60 else target_fps t)"

fun wait_until :: "nat \<Rightarrow> (nat \<Rightarrow> u64) \<Rightarrow> u64 \<Rightarrow> nat \<Rightarrow> nat option" where
  "wait_until 0 clk target_ticks k = None"
| "wait_until (Suc fuel) clk target_ticks k =
     (if clk k < target_ticks then wait_until fuel clk target_ticks (k + 1) else Some (k + 1))"

definition frame_wait :: "nat \<Rightarrow> (nat \<Rightarrow> u64) \<Rightarrow> u32 \<Rightarrow> nat \<times> u64 \<Rightarrow> (nat \<times> u64) option" where
  "frame_wait fuel clk delay kl =
     (let (k, last_frame_ticks) = kl; current_ticks = clk k; elapsed = current_ticks - last_frame_ticks in
      do {
        k \<leftarrow> (if elapsed < ucast delay
              then wait_until fuel clk (current_ticks + (ucast delay - elapsed)) (k + 1) else Some (k + 1));
        Some (k + 1, clk k)
      })"

text \<open>One iteration for each element of the list: its poll of the controller, a tick, the wait.\<close>

fun frame_loop ::
  "nat \<Rightarrow> ('v, 's) blk_driver \<Rightarrow> nat \<Rightarrow> (nat \<Rightarrow> u64) \<Rightarrow> u32 \<Rightarrow> (input \<Rightarrow> input) list \<Rightarrow>
   (nat \<times> u64) \<times> ('v, 's) desktop \<Rightarrow> ((nat \<times> u64) \<times> ('v, 's) desktop) outcome" where
  "frame_loop fuel dr wfuel clk delay [] st = Ret st"
| "frame_loop fuel dr wfuel clk delay (poll # polls) (t, s) =
     (case desktop_tick fuel dr (s\<lparr>dk_input := poll (dk_input s)\<rparr>) of
        Ret s \<Rightarrow> (case frame_wait wfuel clk delay t of
                    None \<Rightarrow> Timeout
                  | Some t \<Rightarrow> frame_loop fuel dr wfuel clk delay polls (t, s))
      | Stop \<Rightarrow> Stop | Fault \<Rightarrow> Fault | Timeout \<Rightarrow> Timeout)"

end
