(* ===== verification/WizardSpec.thy ===== *)
theory WizardSpec
  imports Wizard DesktopSpec
begin

text \<open>
  The full-screen wizard returns only after every step has been taken, and six clicks on its
  button are enough; its back buffer is given back to the heap.
\<close>

section \<open>The steps\<close>

definition wizard_ok :: "wizard \<Rightarrow> bool" where
  "wizard_ok z \<longleftrightarrow> unat (fs_step z) \<le> 5 \<and> (1 \<le> unat (fs_step z) \<longrightarrow> fs_disk_ready z) \<and>
     (2 \<le> unat (fs_step z) \<longrightarrow> fs_partition_done z) \<and> (3 \<le> unat (fs_step z) \<longrightarrow> fs_format_done z)"

definition all_done :: "wizard \<Rightarrow> bool" where
  "all_done z \<longleftrightarrow> fs_disk_ready z \<and> fs_partition_done z \<and> fs_format_done z"

definition loop_ok :: "wizard_loop \<Rightarrow> bool" where
  "loop_ok l \<longleftrightarrow> wizard_ok (wz l) \<and> (wz_running l \<longleftrightarrow> \<not> g_setup_complete (wz l)) \<and>
     (\<not> wz_running l \<longrightarrow> all_done (wz l))"

lemma unat_u8_Suc: "unat n < 5 \<Longrightarrow> unat (n + 1) = Suc (unat n)" for n :: u8
  by (subst unat_add_small) simp_all

lemma u8_lit: "n = 0 \<longleftrightarrow> unat n = 0" "n = 1 \<longleftrightarrow> unat n = 1" "n = 2 \<longleftrightarrow> unat n = 2" "n = 5 \<longleftrightarrow> unat n = 5" for n :: u8
  by (simp_all add: word_unat_eq_iff)

lemma wizard_next_ok: "wizard_ok z \<Longrightarrow> fs_step z \<noteq> 5 \<Longrightarrow> wizard_ok (wizard_next z)"
  by (auto simp: wizard_next_def wizard_ok_def Let_def u8_lit unat_u8_Suc simp del: unat_eq_zero)

lemma wizard_next_complete [simp]: "g_setup_complete (wizard_next z) = g_setup_complete z"
  by (simp add: wizard_next_def Let_def)

lemma wizard_back_ok: "wizard_ok z \<Longrightarrow> wizard_ok (z\<lparr>fs_step := fs_step z - 1\<rparr>)" if "fs_step z > 0" for z
proof -
  have "unat (fs_step z - 1) = unat (fs_step z) - 1" using that by (simp add: unat_minus_one word_gt_0)
  then show "wizard_ok z \<Longrightarrow> ?thesis" by (auto simp: wizard_ok_def)
qed

lemma wizard_finish_done: "wizard_ok z \<Longrightarrow> fs_step z = 5 \<Longrightarrow> all_done z"
  by (simp add: wizard_ok_def all_done_def)

lemma loop_ok_press:
  assumes "loop_ok l" "wz_running l"
  shows "loop_ok (wizard_press bi p l)"
proof -
  define m where "m = (let l = l\<lparr>wz_btn_pressed := True\<rparr> in if on_next bi p then
                 (if fs_step (wz l) = 5
                  then l\<lparr>wz_running := False, wz := (wz l)\<lparr>g_setup_complete := True\<rparr>\<rparr>
                  else l\<lparr>wz := wizard_next (wz l), wz_needs_redraw := True\<rparr>)
               else l)"
  have m: "loop_ok m"
    using assms wizard_finish_done[of "wz l"] wizard_next_ok[of "wz l"]
    by (auto simp: m_def loop_ok_def Let_def wizard_ok_def all_done_def)
  have "wizard_press bi p l = (if fs_step (wz m) > 0 \<and> on_back bi p
      then m\<lparr>wz := (wz m)\<lparr>fs_step := fs_step (wz m) - 1\<rparr>, wz_needs_redraw := True\<rparr> else m)"
    by (simp add: wizard_press_def m_def Let_def)
  then show ?thesis
    using m wizard_back_ok[of "wz m"] by (auto simp: loop_ok_def all_done_def)
qed

lemma loop_ok_buttons: "loop_ok l \<Longrightarrow> wz_running l \<Longrightarrow> loop_ok (wizard_buttons bi p l)"
  using loop_ok_press[of l bi p] by (auto simp: wizard_buttons_def Let_def loop_ok_def)

lemma redraw_loop:
  "fst (wizard_redraw bi wb p (l, s)) = l \<or>
   fst (wizard_redraw bi wb p (l, s)) = l\<lparr>wz_needs_redraw := False, wz_last_p := p\<rparr>"
  by (simp add: wizard_redraw_def Let_def)

lemma loop_ok_run:
  "loop_ok l \<Longrightarrow> wizard_run bi wb polls (l, s) = Ret (l', s') \<Longrightarrow> loop_ok l' \<and> \<not> wz_running l'"
proof (induction polls arbitrary: l s)
  case (Cons f polls)
  show ?case
  proof (cases "wz_running l")
    case True
    let ?s = "s\<lparr>dk_input := f (dk_input s)\<rparr>" and ?p = "input_pointer_get (f (dk_input s))"
    obtain m t where m: "wizard_redraw bi wb ?p (l, ?s) = (m, t)" by (metis surj_pair)
    then have "loop_ok m" "wz_running m"
      using redraw_loop[of bi wb ?p l ?s] Cons.prems(1) True by (auto simp: loop_ok_def)
    then show ?thesis
      using Cons.IH[OF loop_ok_buttons[of m bi ?p], of t] Cons.prems(2) True m by (simp add: Let_def)
  qed (use Cons.prems in auto)
qed (auto split: if_splits)

section \<open>Six clicks\<close>

text \<open>
  A click on the button: a poll after which the left button is down on it, and one after which the
  button is up.
\<close>

definition next_click :: "boot_fb \<Rightarrow> (input \<Rightarrow> input) \<times> (input \<Rightarrow> input) \<Rightarrow> bool" where
  "next_click bi c \<longleftrightarrow>
     (\<forall>i. ptr_buttons (g_ptr (fst c i)) AND 1 \<noteq> 0 \<and> on_next bi (g_ptr (fst c i)) \<and> \<not> on_back bi (g_ptr (fst c i)) \<and>
          ptr_buttons (g_ptr (snd c i)) AND 1 = 0)"

definition polls_of :: "((input \<Rightarrow> input) \<times> (input \<Rightarrow> input)) list \<Rightarrow> (input \<Rightarrow> input) list" where
  "polls_of cs = concat (map (\<lambda>(f, r). [f, r]) cs)"

lemma run_press:
  assumes "next_click bi (f, r)" "wz_running l" "\<not> wz_btn_pressed l"
  obtains l' s' where "wizard_run bi wb (f # polls) (l, s) = wizard_run bi wb polls (l', s')"
    "wz l' = (if fs_step (wz l) = 5 then (wz l)\<lparr>g_setup_complete := True\<rparr> else wizard_next (wz l))"
    "wz_running l' \<longleftrightarrow> fs_step (wz l) \<noteq> 5" "wz_btn_pressed l'"
proof -
  let ?s = "s\<lparr>dk_input := f (dk_input s)\<rparr>" and ?p = "g_ptr (f (dk_input s))"
  obtain m t where m: "wizard_redraw bi wb ?p (l, ?s) = (m, t)" by (metis surj_pair)
  then have eq: "wz m = wz l" "wz_running m" "\<not> wz_btn_pressed m"
    using redraw_loop[of bi wb ?p l ?s] assms by auto
  show thesis
    by (rule that[of "wizard_buttons bi ?p m" t])
      (use assms eq m in \<open>auto simp: next_click_def wizard_buttons_def wizard_press_def input_pointer_get_def Let_def\<close>)
qed

lemma run_release:
  assumes "next_click bi (f, r)" "wz_running l"
  obtains l' s' where "wizard_run bi wb (r # polls) (l, s) = wizard_run bi wb polls (l', s')"
    "wz l' = wz l" "wz_running l'" "\<not> wz_btn_pressed l'"
proof -
  let ?s = "s\<lparr>dk_input := r (dk_input s)\<rparr>" and ?p = "g_ptr (r (dk_input s))"
  obtain m t where m: "wizard_redraw bi wb ?p (l, ?s) = (m, t)" by (metis surj_pair)
  then have eq: "wz m = wz l" "wz_running m"
    using redraw_loop[of bi wb ?p l ?s] assms by auto
  show thesis
    by (rule that[of "wizard_buttons bi ?p m" t])
      (use assms eq m in \<open>auto simp: next_click_def wizard_buttons_def input_pointer_get_def Let_def\<close>)
qed

lemma six_clicks:
  assumes "\<forall>c \<in> set cs. next_click bi c" "wz_running l" "\<not> wz_btn_pressed l" "unat (fs_step (wz l)) + length cs = 6"
    "unat (fs_step (wz l)) \<le> 5"
  shows "\<exists>l' s'. wizard_run bi wb (polls_of cs) (l, s) = Ret (l', s') \<and> g_setup_complete (wz l')"
  using assms
proof (induction cs arbitrary: l s)
  case Nil
  then show ?case by simp
next
  case (Cons c cs)
  obtain f r where c: "c = (f, r)" by (cases c)
  have cl: "next_click bi (f, r)" using Cons.prems(1) c by simp
  have polls: "polls_of (c # cs) = f # r # polls_of cs" by (simp add: polls_of_def c)
  obtain l1 s1 where l1: "wizard_run bi wb (polls_of (c # cs)) (l, s) = wizard_run bi wb (r # polls_of cs) (l1, s1)"
    "wz l1 = (if fs_step (wz l) = 5 then (wz l)\<lparr>g_setup_complete := True\<rparr> else wizard_next (wz l))"
    "wz_running l1 \<longleftrightarrow> fs_step (wz l) \<noteq> 5"
    using run_press[OF cl Cons.prems(2,3)] unfolding polls by metis
  show ?case
  proof (cases "fs_step (wz l) = 5")
    case True
    then show ?thesis using l1 by auto
  next
    case False
    then obtain l2 s2 where l2: "wizard_run bi wb (r # polls_of cs) (l1, s1) = wizard_run bi wb (polls_of cs) (l2, s2)"
      "wz l2 = wz l1" "wz_running l2" "\<not> wz_btn_pressed l2"
      using run_release[OF cl, of l1] l1(3) by metis
    have "unat (fs_step (wz l)) < 5" using Cons.prems(4) False by (simp add: u8_lit)
    then have "unat (fs_step (wz l2)) = Suc (unat (fs_step (wz l)))"
      using l1(2) l2(2) False by (simp add: wizard_next_def Let_def unat_u8_Suc)
    then show ?thesis
      using Cons.IH[of l2 s2] Cons.prems(1,4) l1(1) l2 \<open>unat (fs_step (wz l)) < 5\<close> by simp
  qed
qed

section \<open>The heap is left alone by the loop\<close>

lemma for_each_pixels:
  "(\<And>x t. \<exists>px. f x t = t\<lparr>pixels := px\<rparr>) \<Longrightarrow> \<exists>px. for_each xs f s = s\<lparr>pixels := px\<rparr>"
proof (induction xs arbitrary: s)
  case Nil
  show ?case by (rule exI[of _ "pixels s"]) simp
next
  case (Cons x xs)
  obtain px where "f x s = s\<lparr>pixels := px\<rparr>" using Cons.prems by blast
  moreover obtain py where "for_each xs f (s\<lparr>pixels := px\<rparr>) = s\<lparr>pixels := px, pixels := py\<rparr>"
    using Cons.IH[OF Cons.prems] by blast
  ultimately show ?case by (auto intro: exI[of _ py])
qed

lemma blit_pixels: "\<exists>px. blit_rect d r x y w h s = s\<lparr>pixels := px\<rparr>"
proof -
  have id: "\<exists>px. s = s\<lparr>pixels := px\<rparr>" by (rule exI[of _ "pixels s"]) simp
  show ?thesis
    unfolding blit_rect_def Let_def
    by (auto split: option.split simp: id intro!: for_each_pixels)
qed

lemma draws_fullscreen: "draws (draw_fullscreen_setup_step z w h)"
  unfolding draw_fullscreen_setup_step_def Let_def
  by (rule draws_run) (auto simp: fs_step_text_def Let_def intro!: draws_intros split: if_splits)

lemma draws_cross: "draws (draw_cross p w h)"
  unfolding draw_cross_def Let_def by (intro draws_for_each draws_run) (auto intro!: draws_intros)

lemma redraw_heap:
  fixes s :: "('v, 's) desktop"
  assumes "fb_ok bi" "g_bi s = Some bi"
  shows "g_bi (snd (wizard_redraw bi wb p (l, s))) = Some bi \<and> dk_ramfs (snd (wizard_redraw bi wb p (l, s))) = dk_ramfs s"
proof -
  define t where "t = s\<lparr>g_back := (case wb of None \<Rightarrow> Some Framebuffer | Some b \<Rightarrow> Some b)\<rparr>"
  define u where "u = draw_cross p (fb_width bi) (fb_height bi) (draw_fullscreen_setup_step (wz l) (fb_width bi) (fb_height bi) t)"
  have "draws_at t u"
    unfolding u_def by (rule draws_at_trans[OF draws_at_app[OF draws_fullscreen] draws_at_app[OF draws_cross]])
  then have "same_env t u" using assms by (auto simp: draws_at_def t_def)
  then have u: "g_bi u = Some bi" "gfx.more u = gfx.more s" using assms(2) by (auto simp: same_env_def t_def)
  have ram: "dk_ramfs u = dk_ramfs s" using u(2) by (cases u, cases s) simp
  obtain px where px: "if_do (wb \<noteq> None) (blit_rect (Some Framebuffer) wb 0 0 (fb_width bi) (fb_height bi)) u = u\<lparr>pixels := px\<rparr>"
  proof (cases "wb = None")
    case True
    then show thesis using that[of "pixels u"] by (simp add: if_do_def)
  next
    case False
    then show thesis
      using that blit_pixels[of "Some Framebuffer" wb 0 0 "fb_width bi" "fb_height bi" u] by (auto simp: if_do_def)
  qed
  have "snd (wizard_redraw bi wb p (l, s)) = s \<or> snd (wizard_redraw bi wb p (l, s)) = u\<lparr>pixels := px\<rparr>"
    using px unfolding u_def t_def by (simp add: wizard_redraw_def Let_def run_def)
  then show ?thesis using u(1) ram assms(2) by auto
qed

lemma run_heap:
  "fb_ok bi \<Longrightarrow> g_bi s = Some bi \<Longrightarrow> wizard_run bi wb polls (l, s) = Ret (l', s') \<Longrightarrow> dk_ramfs s' = dk_ramfs s"
proof (induction polls arbitrary: l s)
  case (Cons f polls)
  show ?case
  proof (cases "wz_running l")
    case True
    let ?s = "s\<lparr>dk_input := f (dk_input s)\<rparr>" and ?p = "input_pointer_get (f (dk_input s))"
    obtain m t where m: "wizard_redraw bi wb ?p (l, ?s) = (m, t)" by (metis surj_pair)
    then have "g_bi t = Some bi" "dk_ramfs t = dk_ramfs s"
      using redraw_heap[of bi ?s wb ?p l] Cons.prems by auto
    then show ?thesis
      using Cons.IH[of t "wizard_buttons bi ?p m"] Cons.prems True m by (simp add: Let_def)
  qed (use Cons.prems in auto)
qed (auto split: if_splits)

section \<open>The property\<close>

definition wizard_start :: wizard where
  "wizard_start = \<lparr>fs_step = 0, fs_disk_ready = False, fs_partition_done = False, fs_format_done = False,
     g_setup_complete = False\<rparr>"

definition wizard_world :: "boot_fb \<Rightarrow> ('v, 's) desktop \<Rightarrow> ('v, 's) desktop" where
  "wizard_world bi s = s\<lparr>g_bi := Some bi, dk_input := input_init (fb_width bi) (fb_height bi) (dk_input s)\<rparr>"

definition loop_start :: wizard_loop where
  "loop_start = \<lparr>wz = wizard_start, wz_running = True, wz_btn_pressed = False, wz_needs_redraw = True, wz_last_p = zero_pointer\<rparr>"

lemma wizard_alloc_cases:
  obtains "wizard_alloc bi s = Some (0, s)"
  | n where "wizard_alloc bi s = map_option (\<lambda>(p, h). (p, s\<lparr>dk_ramfs := (dk_ramfs s)\<lparr>rf_heap := h\<rparr>\<rparr>)) (kmalloc n (rf_heap (dk_ramfs s)))"
  by (cases "fb_pitch bi \<noteq> 0 \<and> fb_height bi \<noteq> 0 \<and> (ucast (fb_pitch bi) * ucast (fb_height bi) * 4 :: u64) \<le> 0xFFFFFFFF")
    (unfold wizard_alloc_def Let_def, simp_all only: if_True if_False simp_thms)

lemma wizard_alloc_ok:
  assumes "g_bi s = Some bi" "kheap_rel (rf_heap (dk_ramfs s)) g"
  shows "\<exists>p u g1. wizard_alloc bi s = Some (p, u) \<and> kheap_rel (rf_heap (dk_ramfs u)) g1 \<and> g_bi u = Some bi \<and>
    (if p = 0 then ghost_live g1 = ghost_live g
     else \<exists>m. (p, m) \<notin> ghost_live g \<and> ghost_live g1 = insert (p, m) (ghost_live g))"
proof (rule wizard_alloc_cases[of bi s])
  assume "wizard_alloc bi s = Some (0, s)"
  then show ?thesis using assms by (intro exI[of _ 0] exI[of _ s] exI[of _ g]) simp
next
  fix n
  assume al: "wizard_alloc bi s = map_option (\<lambda>(p, h). (p, s\<lparr>dk_ramfs := (dk_ramfs s)\<lparr>rf_heap := h\<rparr>\<rparr>)) (kmalloc n (rf_heap (dk_ramfs s)))"
  obtain p h' g1 where m: "kmalloc n (rf_heap (dk_ramfs s)) = Some (p, h')" "kheap_rel h' g1"
    "if p = 0 then ghost_live g1 = ghost_live g
     else \<exists>m. unat n \<le> m \<and> (p, m) \<notin> ghost_live g \<and> ghost_live g1 = insert (p, m) (ghost_live g)"
    using kh.malloc_spec[OF assms(2), of n] by blast
  have live: "if p = 0 then ghost_live g1 = ghost_live g
      else \<exists>m. (p, m) \<notin> ghost_live g \<and> ghost_live g1 = insert (p, m) (ghost_live g)"
    using m(3) by (cases "p = 0") (simp_all only: if_True if_False simp_thms, blast)
  have "wizard_alloc bi s = Some (p, s\<lparr>dk_ramfs := (dk_ramfs s)\<lparr>rf_heap := h'\<rparr>\<rparr>)"
    unfolding al m(1) by simp
  moreover have "kheap_rel (rf_heap (dk_ramfs (s\<lparr>dk_ramfs := (dk_ramfs s)\<lparr>rf_heap := h'\<rparr>\<rparr>))) g1"
    "g_bi (s\<lparr>dk_ramfs := (dk_ramfs s)\<lparr>rf_heap := h'\<rparr>\<rparr>) = Some bi"
    using m(2) assms(1) by simp_all
  ultimately show ?thesis using live by blast
qed

lemma wizard_finishes:
  assumes "fb_ok bi" "kheap_rel (rf_heap (dk_ramfs s)) g" "length cs = 6" "\<forall>c \<in> set cs. next_click bi c"
  shows "\<exists>z' s'. desktop_run_fullscreen_wizard (polls_of cs) (Some bi) (z, s) = Ret (z', s') \<and>
      desktop_is_setup_complete z' \<and> all_done z' \<and>
      (\<exists>g'. kheap_rel (rf_heap (dk_ramfs s')) g' \<and> ghost_live g' = ghost_live g)"
proof -
  obtain p u g1 where al: "wizard_alloc bi (wizard_world bi s) = Some (p, u)" and g1: "kheap_rel (rf_heap (dk_ramfs u)) g1"
    and live: "if p = 0 then ghost_live g1 = ghost_live g
      else \<exists>m. (p, m) \<notin> ghost_live g \<and> ghost_live g1 = insert (p, m) (ghost_live g)"
    and bi: "g_bi u = Some bi"
    using wizard_alloc_ok[of "wizard_world bi s" bi g] assms(2) by (auto simp: wizard_world_def)
  let ?wb = "if p = 0 then None else Some Wizard_buffer"
  obtain l s2 where run: "wizard_run bi ?wb (polls_of cs) (loop_start, u) = Ret (l, s2)" and c: "g_setup_complete (wz l)"
    using six_clicks[OF assms(4), of loop_start ?wb u] assms(3) by (auto simp: loop_start_def wizard_start_def)
  have ok: "loop_ok loop_start" by (simp add: loop_ok_def loop_start_def wizard_start_def wizard_ok_def)
  have fin: "all_done (wz l)" using loop_ok_run[OF ok run] unfolding loop_ok_def by blast
  have ram: "dk_ramfs s2 = dk_ramfs u" using run_heap[OF assms(1) bi run] .
  have full: "desktop_run_fullscreen_wizard (polls_of cs) (Some bi) (z, s) =
      (case (if p = 0 then Some (rf_heap (dk_ramfs s2)) else kfree p (rf_heap (dk_ramfs s2))) of
         None \<Rightarrow> Timeout | Some h \<Rightarrow> Ret (wz l, s2\<lparr>dk_ramfs := (dk_ramfs s2)\<lparr>rf_heap := h\<rparr>, g_back := None\<rparr>))"
    using al run by (simp add: desktop_run_fullscreen_wizard_def Let_def loop_start_def wizard_start_def wizard_world_def)
  have fin': ?thesis if "desktop_run_fullscreen_wizard (polls_of cs) (Some bi) (z, s) = Ret (wz l, s3)"
    "kheap_rel (rf_heap (dk_ramfs s3)) g3" "ghost_live g3 = ghost_live g" for s3 g3
    using that c fin unfolding desktop_is_setup_complete_def by blast
  show ?thesis
  proof (cases "p = 0")
    case True
    then show ?thesis
      using full g1 live ram by (intro fin'[of "s2\<lparr>g_back := None\<rparr>" g1]) simp_all
  next
    case False
    then obtain m where m: "(p, m) \<notin> ghost_live g" "ghost_live g1 = insert (p, m) (ghost_live g)" using live by auto
    then obtain h2 g2 where f: "kfree p (rf_heap (dk_ramfs u)) = Some h2" "kheap_rel h2 g2" "ghost_live g2 = ghost_live g1 - {(p, m)}"
      using kh.mfree_spec[OF g1, of p m] by blast
    have "ghost_live g2 = ghost_live g" using f(3) m by auto
    then show ?thesis
      using full ram False f(1,2)
      by (intro fin'[of "s2\<lparr>dk_ramfs := (dk_ramfs s2)\<lparr>rf_heap := h2\<rparr>, g_back := None\<rparr>" g2]) simp_all
  qed
qed

text \<open>
  C36. Six clicks on Next finish the first-boot wizard: desktop_run_fullscreen_wizard returns,
  every step has been taken, and its back buffer has been given back, so that the blocks of the
  kernel heap are what they were.
\<close>

theorem wizard_completes:
  assumes "fb_ok bi" "kheap_rel (rf_heap (dk_ramfs s)) g" "length cs = 6" "\<forall>c \<in> set cs. next_click bi c"
  shows "\<exists>z' s'. desktop_run_fullscreen_wizard (polls_of cs) (Some bi) (z, s) = Ret (z', s') \<and>
      desktop_is_setup_complete z' \<and> all_done z' \<and>
      (\<exists>g'. kheap_rel (rf_heap (dk_ramfs s')) g' \<and> ghost_live g' = ghost_live g)"
  by (rule wizard_finishes[OF assms])

text \<open>A screen of 640 by 480 and a click in the middle of the button.\<close>

definition vga_fb :: boot_fb where
  "vga_fb = \<lparr>fb_width = 640, fb_height = 480, fb_pitch = 640\<rparr>"

definition vga_click :: "(input \<Rightarrow> input) \<times> (input \<Rightarrow> input)" where
  "vga_click = (\<lambda>i. i\<lparr>g_ptr := zero_pointer\<lparr>ptr_x := 560, ptr_y := 420, ptr_buttons := 1\<rparr>\<rparr>,
     \<lambda>i. i\<lparr>g_ptr := zero_pointer\<lparr>ptr_x := 560, ptr_y := 420\<rparr>\<rparr>)"

lemma vga_click_next: "next_click vga_fb vga_click"
  by (simp add: next_click_def vga_click_def vga_fb_def on_next_def on_back_def zero_pointer_def Let_def)

lemma vga_fb_ok: "fb_ok vga_fb"
  by (simp add: fb_ok_def vga_fb_def)

theorem wizard_completes_witness:
  "\<exists>z' s'. desktop_run_fullscreen_wizard (polls_of (replicate 6 vga_click)) (Some vga_fb) (wizard_start, desk_example) =
     Ret (z', s') \<and> desktop_is_setup_complete z' \<and> all_done z'"
proof -
  have "kheap_rel (rf_heap (dk_ramfs desk_example)) (0x1000, 0x1100, [(0x1000, 0xE8, True)])"
    using heap_example_rel by (simp add: kheap_rel_def desk_example_def desk_start_def ramfs_example_def)
  from wizard_completes[OF vga_fb_ok this, of "replicate 6 vga_click" wizard_start] vga_click_next
  show ?thesis by auto
qed

end
