(* ===== verification/XhciVmm.thy ===== *)
theory XhciVmm
  imports Pci
begin

text \<open>
  What the USB driver does to memory management: it takes pages from the page allocator
  (\<open>x_alloc\<close>) and maps the registers of each controller (\<open>xhci_map_mmio\<close>), and nothing else. The
  relation \<open>vm_rel\<close> says what such steps keep; it is reflexive and transitive, so it follows for
  \<open>xhci_init\<close> and for the whole PCI enumeration.
\<close>

section \<open>Steps of memory management\<close>

text \<open>
  The allocator stays well-formed and only loses pages; as long as three pages are left, which is what a
  mapping may need, the page tables stay a tree below the same root.
\<close>

definition vm_rel :: "vmm \<Rightarrow> vmm \<Rightarrow> bool" where
  "vm_rel s t \<longleftrightarrow>
     (pmm_wf (vm_pmm s) \<longrightarrow> pmm_wf (vm_pmm t) \<and> available (vm_pmm t) \<subseteq> available (vm_pmm s)) \<and>
     (vmm_wf s \<and> 3 \<le> card (available (vm_pmm t)) \<longrightarrow> vmm_wf t) \<and>
     kernel_pml4 t = kernel_pml4 s \<and> vm_cr3 t = vm_cr3 s"

lemma vm_rel_refl [simp]: "vm_rel s s"
  by (simp add: vm_rel_def)

lemma finite_available: "pmm_wf p \<Longrightarrow> finite (available p)"
  using pmm.avail_frames[of p] pmm.finite_frames[of p] finite_subset by blast

lemma vm_rel_trans:
  assumes "vm_rel s t" "vm_rel t u"
  shows "vm_rel s u"
proof -
  have "3 \<le> card (available (vm_pmm t))" if "pmm_wf (vm_pmm t)" "3 \<le> card (available (vm_pmm u))"
    using that assms(2) card_mono[OF finite_available[OF that(1)], of "available (vm_pmm u)"] by (auto simp: vm_rel_def)
  then show ?thesis using assms unfolding vm_rel_def by (metis subset_trans vmm_wf_def)
qed

lemma AllocatePage_sub:
  assumes "pmm_wf p"
  shows "pmm_wf (snd (PMM_AllocatePage p))" "available (snd (PMM_AllocatePage p)) \<subseteq> available p"
proof -
  obtain n q where "PMM_AllocatePage p = (n, q)" by fastforce
  then show "pmm_wf (snd (PMM_AllocatePage p))" "available (snd (PMM_AllocatePage p)) \<subseteq> available p"
    using pmm.inv_alloc[OF assms] pmm.avail_alloc[OF assms] by auto
qed

lemma vm_rel_alloc: "vm_rel s (s\<lparr>vm_pmm := snd (PMM_AllocatePage (vm_pmm s))\<rparr>)"
proof -
  let ?t = "s\<lparr>vm_pmm := snd (PMM_AllocatePage (vm_pmm s))\<rparr>"
  have "vmm_wf ?t" if wf: "vmm_wf s"
  proof -
    have p: "pmm_wf (vm_pmm s)" using wf by (simp add: vmm_wf_def)
    obtain n q where "PMM_AllocatePage (vm_pmm s) = (n, q)" by fastforce
    then have "managed (vm_pmm ?t) = managed (vm_pmm s)" using pmm.frames_alloc[OF p] by simp
    then show ?thesis using wf AllocatePage_sub[OF p] unfolding vmm_wf_def by auto
  qed
  then show ?thesis using AllocatePage_sub[of "vm_pmm s"] by (simp add: vm_rel_def)
qed

lemma descend_sub:
  assumes "pmm_wf (vm_pmm s)" "vmm_descend fl tf t i s = (u, s')"
  shows "pmm_wf (vm_pmm s')" "available (vm_pmm s') \<subseteq> available (vm_pmm s)"
    "kernel_pml4 s' = kernel_pml4 s" "vm_cr3 s' = vm_cr3 s"
  using assms(2) AllocatePage_sub[OF assms(1)] assms(1) unfolding vmm_descend_def Let_def
  by (auto split: if_splits prod.splits)

lemma vm_rel_map: "vm_rel s (VMM_MapPage v p fl s)"
proof -
  let ?tf = "if fl AND PAGE_USER \<noteq> 0 then (PAGE_PRESENT OR PAGE_WRITE) OR PAGE_USER else PAGE_PRESENT OR PAGE_WRITE"
  obtain t1 s1 where 1: "vmm_descend fl ?tf (kernel_pml4 s) (vidx 39 v) s = (t1, s1)" by fastforce
  obtain t2 s2 where 2: "vmm_descend fl ?tf t1 (vidx 30 v) s1 = (t2, s2)" by fastforce
  obtain t3 s3 where 3: "vmm_descend fl ?tf t2 (vidx 21 v) s2 = (t3, s3)" by fastforce
  have root: "kernel_pml4 s' = kernel_pml4 r \<and> vm_cr3 s' = vm_cr3 r" if "vmm_descend fl ?tf t i r = (u, s')" for t i r u s'
    using that unfolding vmm_descend_def Let_def by (auto split: if_splits prod.splits)
  have f: "vm_pmm (VMM_MapPage v p fl s) = vm_pmm s3" "kernel_pml4 (VMM_MapPage v p fl s) = kernel_pml4 s"
    "vm_cr3 (VMM_MapPage v p fl s) = vm_cr3 s"
    using 1 2 3 root[OF 1] root[OF 2] root[OF 3] by (simp_all add: VMM_MapPage_def Let_def)
  have sub: "pmm_wf (vm_pmm s3) \<and> available (vm_pmm s3) \<subseteq> available (vm_pmm s)" if p: "pmm_wf (vm_pmm s)"
    using descend_sub(1,2)[OF p 1] descend_sub(1,2)[OF _ 2] descend_sub(1,2)[OF _ 3] by blast
  have "vmm_wf (VMM_MapPage v p fl s)" if wf: "vmm_wf s" "3 \<le> card (available (vm_pmm s3))"
  proof -
    have q: "pmm_wf (vm_pmm s)" using wf by (simp add: vmm_wf_def)
    have "card (available (vm_pmm s3)) \<le> card (available (vm_pmm s))"
      using sub[OF q] by (intro card_mono finite_available q) blast
    then show ?thesis using MapPage_spec[OF wf(1)] wf(2) by simp
  qed
  then show ?thesis using sub f by (simp add: vm_rel_def)
qed

lemma vm_rel_fold: "(\<And>i s. vm_rel s (f i s)) \<Longrightarrow> vm_rel s (fold f is s)"
  by (induction "is" arbitrary: s) (auto intro: vm_rel_trans)

section \<open>The driver's steps\<close>

text \<open>\<open>keeps s t\<close>: memory management took such steps from \<open>s\<close> to \<open>t\<close>.\<close>

definition keeps :: "'d xhci \<Rightarrow> 'd xhci \<Rightarrow> bool" where
  "keeps s t \<longleftrightarrow> vm_rel (x_vmm s) (x_vmm t)"

lemma keeps_refl [simp]: "keeps s s" "x_vmm t = x_vmm s \<Longrightarrow> keeps s t"
  by (simp_all add: keeps_def)

lemma keeps_trans: "keeps s t \<Longrightarrow> keeps t u \<Longrightarrow> keeps s u"
  unfolding keeps_def by (rule vm_rel_trans)

lemma keeps_same: "x_vmm t = x_vmm u \<Longrightarrow> keeps s u \<Longrightarrow> keeps s t"
  by (simp add: keeps_def)

lemma keeps_fold: "(\<And>i s. keeps s (f i s)) \<Longrightarrow> keeps s (fold f is s)"
  by (induction "is" arbitrary: s) (auto intro: keeps_trans)

lemma keeps_alloc: "keeps s (snd (x_alloc s))"
  using vm_rel_alloc[of "x_vmm s"] by (simp add: keeps_def x_alloc_def split_beta)

text \<open>What does not touch memory management at all.\<close>

lemma vm_access [simp]:
  "x_vmm (x_put b a bs s) = x_vmm s" "x_vmm (x_zero b a n s) = x_vmm s" "x_vmm (st32 b a v s) = x_vmm s"
  "x_vmm (st64 b a w s) = x_vmm s" "x_vmm (upd_dev i f s) = x_vmm s" "x_vmm (x_copy b a c n s) = x_vmm s"
  "x_vmm (snd (mm_rd8 b a s)) = x_vmm s" "x_vmm (snd (mm_rd32 b a s)) = x_vmm s"
  "x_vmm (mm_wr32 b a v s) = x_vmm s" "x_vmm (mm_wr64 b a w s) = x_vmm s" "x_vmm (mm_update32 b a g s) = x_vmm s"
  by (simp_all add: x_put_def x_zero_def st32_def st64_def upd_dev_def x_copy_def mm_rd8_def mm_rd32_def mm_wr32_def
      mm_wr64_def mm_update32_def split_beta)

lemma vm_rings [simp]:
  "x_vmm (put_trb b ring index cycle trb s) = x_vmm s" "x_vmm (xhci_cmd_ring_push b trb s) = x_vmm s"
  "x_vmm (xhci_ep0_ring_push b i trb s) = x_vmm s" "x_vmm (xhci_intr_ring_push b i trb s) = x_vmm s"
  "x_vmm (init_tr_ring b ring s) = x_vmm s" "x_vmm (xhci_ring_doorbell_cmd b s) = x_vmm s"
  "x_vmm (xhci_ring_doorbell_ep b slot dci s) = x_vmm s" "x_vmm (xhci_ring_doorbell_ep0 b slot s) = x_vmm s"
  "x_vmm (xhci_event_ring_update_erdp b s) = x_vmm s"
  by (simp_all add: put_trb_def xhci_cmd_ring_push_def xhci_ep0_ring_push_def xhci_intr_ring_push_def init_tr_ring_def
      xhci_ring_doorbell_cmd_def xhci_ring_doorbell_ep_def xhci_ring_doorbell_ep0_def xhci_event_ring_update_erdp_def Let_def)

lemma vm_poll [simp]: "x_vmm (snd (xhci_poll_event b s)) = x_vmm s"
  by (simp add: xhci_poll_event_def Let_def)

lemma vm_wait_command [simp]: "x_vmm (snd (xhci_wait_for_command_completion b s)) = x_vmm s"
proof -
  have "x_vmm (snd (wait_command_loop b n s)) = x_vmm s" for n
  proof (induction n arbitrary: s)
    case (Suc n)
    obtain e t where e: "xhci_poll_event b s = (e, t)" by fastforce
    then have "x_vmm t = x_vmm s" using vm_poll[of b s] by simp
    then show ?case using Suc[of t] e by (cases e) simp_all
  qed simp
  then show ?thesis by (simp add: xhci_wait_for_command_completion_def)
qed

lemma vm_wait_transfer [simp]: "x_vmm (snd (xhci_wait_for_transfer_event b slot s)) = x_vmm s"
proof -
  have "x_vmm (snd (wait_transfer_loop b slot n s)) = x_vmm s" for n
  proof (induction n arbitrary: s)
    case (Suc n)
    obtain e t where e: "xhci_poll_event b s = (e, t)" by fastforce
    then have "x_vmm t = x_vmm s" using vm_poll[of b s] by simp
    then show ?case using Suc[of t] e by (cases e) simp_all
  qed simp
  then show ?thesis by (simp add: xhci_wait_for_transfer_event_def)
qed

lemma vm_control [simp]:
  "x_vmm (snd (xhci_ep0_control_in b i setup buf len s)) = x_vmm s"
  "x_vmm (snd (xhci_ep0_control_no_data_out b i setup s)) = x_vmm s"
  by (simp_all add: xhci_ep0_control_in_def xhci_ep0_control_no_data_out_def Let_def split_beta split: option.split)

lemma vm_requests [simp]:
  "x_vmm (snd (xhci_hid_set_protocol_boot b i s)) = x_vmm s" "x_vmm (snd (xhci_hid_set_idle b i s)) = x_vmm s"
  by (simp_all add: xhci_hid_set_protocol_boot_def xhci_hid_set_idle_def Let_def)

section \<open>Ports\<close>

lemma vm_wait_clear [simp]: "x_vmm (wait_clear b a m n s) = x_vmm s"
proof (induction n arbitrary: s)
  case (Suc n)
  then show ?case by (simp add: split_beta)
qed simp

lemma vm_wait_ready [simp]: "x_vmm (snd (xhci_port_wait_ready b a n s)) = x_vmm s"
proof (induction n arbitrary: s)
  case (Suc n)
  then show ?case by (simp add: split_beta)
qed (simp add: split_beta)

lemma vm_ports [simp]:
  "x_vmm (snd (xhci_port_power_on b a ps s)) = x_vmm s" "x_vmm (snd (xhci_port_clear_w1c b a ps s)) = x_vmm s"
  "x_vmm (xhci_port_force_u0 b a s) = x_vmm s" "x_vmm (xhci_port_warm_reset b a s) = x_vmm s"
  "x_vmm (xhci_port_cold_reset b a s) = x_vmm s"
  by (simp_all add: xhci_port_power_on_def xhci_port_clear_w1c_def xhci_port_force_u0_def xhci_port_warm_reset_def
      xhci_port_cold_reset_def Let_def split_beta)

lemma vm_ready [simp]: "x_vmm (snd (ready_or_u0 b a s)) = x_vmm s"
  by (simp add: ready_or_u0_def Let_def split_beta)

lemma vm_force_attempts [simp]: "x_vmm (snd (force_attempts b a n ps s)) = x_vmm s"
proof (induction n arbitrary: ps s)
  case (Suc n)
  then show ?case by (simp add: Let_def split_beta)
qed simp

lemma vm_force_ready [simp]: "x_vmm (snd (xhci_force_port_ready b a s)) = x_vmm s"
  by (simp add: xhci_force_port_ready_def Let_def split_beta)

lemma vm_enable_slot [simp]: "x_vmm (snd (xhci_cmd_enable_slot b s)) = x_vmm s"
  by (simp add: xhci_cmd_enable_slot_def Let_def split_beta split: option.split)

lemma vm_power_port [simp]: "x_vmm (xhci_power_port b i s) = x_vmm s"
  by (simp add: xhci_power_port_def Let_def split_beta)

section \<open>Reading off a function what it keeps\<close>

text \<open>
  The rules follow the program text: one for each form of binding and branch, and one for each call.
  Rules for bindings of a state come before those for bindings of values.
\<close>

lemma keeps_state_lets:
  "keeps s e \<Longrightarrow> (\<And>v. keeps s v \<Longrightarrow> keeps s (f v)) \<Longrightarrow> keeps s (Let e f)"
  "keeps s e \<Longrightarrow> (\<And>v. keeps s v \<Longrightarrow> keeps s (snd (g v))) \<Longrightarrow> keeps s (snd (Let e g))"
  "keeps s (snd ae) \<Longrightarrow> (\<And>a v. keeps s v \<Longrightarrow> keeps s (h a v)) \<Longrightarrow> keeps s (Let ae (case_prod h))"
  "keeps s (snd ae) \<Longrightarrow> (\<And>a v. keeps s v \<Longrightarrow> keeps s (snd (k a v))) \<Longrightarrow> keeps s (snd (Let ae (case_prod k)))"
  "keeps s (snd ae) \<Longrightarrow> (\<And>a v. keeps s v \<Longrightarrow> keeps s (snd (k a v))) \<Longrightarrow> keeps s (snd (case_prod k ae))"
  by (simp_all add: split_beta)

lemma keeps_value_lets:
  "(\<And>x. keeps s (f x)) \<Longrightarrow> keeps s (Let e f)" "(\<And>x. keeps s (snd (g x))) \<Longrightarrow> keeps s (snd (Let e g))"
  "(\<And>x y. keeps s (h x y v)) \<Longrightarrow> keeps s (case_prod h p v)"
  "(\<And>x y. keeps s (snd (k x y v))) \<Longrightarrow> keeps s (snd (case_prod k p v))"
  "(\<And>x y. keeps s (snd (l x y))) \<Longrightarrow> keeps s (snd (case_prod l q))"
  by (simp_all add: split_beta)

lemma keeps_branches:
  "keeps s x \<Longrightarrow> keeps s y \<Longrightarrow> keeps s (if c then x else y)"
  "keeps s (snd p) \<Longrightarrow> keeps s (snd q) \<Longrightarrow> keeps s (snd (if c then p else q))"
  "keeps s (snd p) \<Longrightarrow> (\<And>y. keeps s (snd (f y))) \<Longrightarrow> keeps s (snd (case_option p f r))"
  "keeps s x \<Longrightarrow> keeps s (snd (a, x))"
  by (simp_all split: option.split)

lemma keeps_updates:
  "keeps s t \<Longrightarrow> keeps s (t\<lparr>x_dcbaa := w\<rparr>)" "keeps s t \<Longrightarrow> keeps s (t\<lparr>command_ring := w\<rparr>)"
  "keeps s t \<Longrightarrow> keeps s (t\<lparr>event_ring := w\<rparr>)" "keeps s t \<Longrightarrow> keeps s (t\<lparr>x_erst := w\<rparr>)"
  "keeps s t \<Longrightarrow> keeps s (t\<lparr>command_ring_index := i, command_ring_cycle := c\<rparr>)"
  "keeps s t \<Longrightarrow> keeps s (t\<lparr>event_ring_index := i, event_ring_cycle := c\<rparr>)"
  "keeps s t \<Longrightarrow> keeps s (t\<lparr>g_ctx_size := g\<rparr>)"
  by (simp_all add: keeps_def)

lemma keeps_then: "keeps t u \<Longrightarrow> keeps s t \<Longrightarrow> keeps s u"
  by (rule keeps_trans)

lemma keeps_folds: "(\<And>i v. keeps v (f i v)) \<Longrightarrow> keeps s t \<Longrightarrow> keeps s (fold f is t)"
  using keeps_trans[of s t] keeps_fold[of f t] by blast

lemmas keeps_calls = keeps_updates vm_access[THEN keeps_same] vm_rings[THEN keeps_same] vm_poll[THEN keeps_same]
  vm_wait_command[THEN keeps_same] vm_wait_transfer[THEN keeps_same] vm_control[THEN keeps_same]
  vm_requests[THEN keeps_same] vm_force_ready[THEN keeps_same] vm_enable_slot[THEN keeps_same]
  vm_power_port[THEN keeps_same] keeps_alloc[THEN keeps_then]

lemmas keeps_text = keeps_state_lets keeps_branches keeps_calls

section \<open>Devices\<close>

lemma keeps_alloc_ring: "keeps s (snd (xhci_alloc_tr_ring b s))"
  unfolding xhci_alloc_tr_ring_def by (rule keeps_text keeps_refl(1) | assumption)+

lemma keeps_evaluate: "keeps s (snd (xhci_cmd_evaluate_ctx_update_ep0_mps b i m s))"
  unfolding xhci_cmd_evaluate_ctx_update_ep0_mps_def
  by (rule keeps_text keeps_refl(1) | rule keeps_value_lets | assumption)+

lemma keeps_device_descriptor: "keeps s (snd (xhci_ep0_get_device_descriptor b i s))"
  unfolding xhci_ep0_get_device_descriptor_def
  by (rule keeps_text keeps_evaluate[THEN keeps_then] keeps_refl(1) | rule keeps_value_lets | assumption)+

lemma keeps_config: "keeps s (snd (xhci_ep0_get_config_and_set_config b i s))"
  unfolding xhci_ep0_get_config_and_set_config_def
  by (rule keeps_text keeps_refl(1) | rule keeps_value_lets | assumption)+

lemma keeps_report_desc: "keeps s (xhci_hid_try_parse_mouse_report_desc b i s)"
  unfolding xhci_hid_try_parse_mouse_report_desc_def
  by (rule keeps_text keeps_refl(1) | rule keeps_value_lets | assumption)+

lemma keeps_install: "keeps s (install_intr_ring b i s)"
  unfolding install_intr_ring_def
  by (rule keeps_text keeps_alloc_ring[THEN keeps_then] keeps_refl(1) | assumption)+

lemma keeps_configure_ep: "keeps s (snd (xhci_cmd_configure_intr_in_ep b i s))"
  unfolding xhci_cmd_configure_intr_in_ep_def
  by (rule keeps_text keeps_install[THEN keeps_then] keeps_refl(1) | rule keeps_value_lets | assumption)+

lemma keeps_start_polling: "keeps s (xhci_hid_start_polling b i s)"
  unfolding xhci_hid_start_polling_def
  by (rule keeps_text keeps_refl(1) | rule keeps_value_lets | assumption)+

lemmas keeps_set_up = keeps_device_descriptor keeps_config keeps_report_desc keeps_configure_ep keeps_start_polling

lemma keeps_configure_device: "keeps s (xhci_configure_device b i s)"
  unfolding xhci_configure_device_def
  by (rule keeps_text keeps_set_up[THEN keeps_then] keeps_refl(1) | rule keeps_value_lets | assumption)+

lemma keeps_address: "keeps s (snd (xhci_cmd_address_device b slot port speed s))"
  unfolding xhci_cmd_address_device_def
  by (rule keeps_text keeps_alloc_ring[THEN keeps_then] keeps_configure_device[THEN keeps_then] keeps_refl(1)
      | rule keeps_value_lets | assumption)+

lemma keeps_scan_port: "keeps s (xhci_scan_port b i s)"
  unfolding xhci_scan_port_def
  by (rule keeps_text keeps_address[THEN keeps_then] keeps_refl(1) | rule keeps_value_lets | assumption)+

section \<open>Controllers\<close>

lemma vm_spin:
  assumes "spin_until b a m on s = Some t"
  shows "x_vmm t = x_vmm s"
proof (rule spin_until.raw_induct[where P = "\<lambda>b a m on s t. x_vmm t = x_vmm s", OF _ assms])
  fix f b a m on s t
  assume "\<And>a m on s b y. f a m on s b = Some y \<Longrightarrow> x_vmm y = x_vmm b"
    "(let r = mm_rd32 b a s in if (fst r AND m \<noteq> 0) = on then Some (snd r) else f b a m on (snd r)) = Some t"
  then show "x_vmm t = x_vmm s" by (auto simp: Let_def split: if_splits)
qed

lemma vm_handoff_loop:
  assumes "bios_handoff_loop b off s = Some t"
  shows "x_vmm t = x_vmm s"
proof (rule bios_handoff_loop.raw_induct[where P = "\<lambda>b off s t. x_vmm t = x_vmm s", OF _ assms])
  fix f b off s t
  assume "\<And>off s b y. f off s b = Some y \<Longrightarrow> x_vmm y = x_vmm b"
    "(if off = 0 then Some s
      else let ext = cap_regs s + ucast off; r = mm_rd32 b ext s; cap_id = fst r AND 0xFF;
               nxt = drop_bit 8 (fst r) AND 0xFF
           in if cap_id = 1 then Some (bios_claim b ext (snd r)) else if nxt = 0 then Some (snd r)
              else f b (off + nxt * 4) (snd r)) = Some t"
  then show "x_vmm t = x_vmm s" by (auto simp: Let_def bios_claim_def split_beta split: if_splits)
qed

lemma vm_handoff: "xhci_bios_handoff b s = Some t \<Longrightarrow> x_vmm t = x_vmm s"
  by (auto simp: xhci_bios_handoff_def Let_def split_beta split: if_splits dest!: vm_handoff_loop)

lemma vm_reset: "xhci_reset_controller b s = Some t \<Longrightarrow> x_vmm t = x_vmm s"
  by (auto simp: xhci_reset_controller_def split: option.splits dest!: vm_spin)

lemma keeps_map_mmio: "keeps s (xhci_map_mmio b mmio s)"
  using vm_rel_fold[of "\<lambda>i. VMM_MapPage (mmio + 4096 * of_nat i) (mmio + 4096 * of_nat i) (PAGE_WRITE OR PAGE_PRESENT)"
      "x_vmm s" "[0..<256]", OF vm_rel_map]
  by (simp add: keeps_def xhci_map_mmio_def Let_def split_beta)

lemma keeps_scratchpad: "keeps s (scratchpad_page b sp i s)"
  unfolding scratchpad_page_def by (rule keeps_text keeps_refl(1) | assumption)+

lemma keeps_dcbaa: "keeps s (xhci_setup_dcbaa b s)"
  unfolding xhci_setup_dcbaa_def
  by (rule keeps_text keeps_folds keeps_scratchpad keeps_refl(1) | rule keeps_value_lets | assumption)+

lemma keeps_command_ring: "keeps s (xhci_setup_command_ring b s)"
  unfolding xhci_setup_command_ring_def by (rule keeps_text keeps_refl(1) | assumption)+

lemma keeps_event_ring: "keeps s (xhci_setup_event_ring b s)"
  unfolding xhci_setup_event_ring_def by (rule keeps_text keeps_refl(1) | assumption)+

lemmas keeps_bring_up = keeps_dcbaa keeps_command_ring keeps_event_ring

text \<open>The same for a step that may not return.\<close>

definition keeps_opt :: "'d xhci \<Rightarrow> 'd xhci option \<Rightarrow> bool" where
  "keeps_opt s r \<longleftrightarrow> (\<forall>t. r = Some t \<longrightarrow> keeps s t)"

lemma keeps_opt_text:
  "keeps s t \<Longrightarrow> keeps_opt s (Some t)"
  "keeps s e \<Longrightarrow> (\<And>v. keeps s v \<Longrightarrow> keeps_opt s (f v)) \<Longrightarrow> keeps_opt s (Let e f)"
  "keeps s (snd ae) \<Longrightarrow> (\<And>a v. keeps s v \<Longrightarrow> keeps_opt s (h a v)) \<Longrightarrow> keeps_opt s (Let ae (case_prod h))"
  "keeps_opt s r \<Longrightarrow> (\<And>v. keeps s v \<Longrightarrow> keeps_opt s (f v)) \<Longrightarrow> keeps_opt s (case_option None f r)"
  by (auto simp: keeps_opt_def split_beta split: option.splits)

lemma keeps_opt_value: "(\<And>x. keeps_opt s (f x)) \<Longrightarrow> keeps_opt s (Let e f)"
  by simp

lemma keeps_opt_handoff: "keeps s t \<Longrightarrow> keeps_opt s (xhci_bios_handoff b t)"
  by (auto simp: keeps_opt_def intro: keeps_same vm_handoff)

lemma keeps_opt_reset: "keeps s t \<Longrightarrow> keeps_opt s (xhci_reset_controller b t)"
  by (auto simp: keeps_opt_def intro: keeps_same vm_reset)

lemma keeps_opt_init: "keeps_opt s (xhci_init b mmio s)"
  unfolding xhci_init_def
  by (rule keeps_opt_text keeps_opt_handoff keeps_opt_reset keeps_text keeps_folds keeps_scan_port keeps_map_mmio
        keeps_bring_up[THEN keeps_then] keeps_refl(1)
      | rule keeps_opt_value keeps_value_lets | assumption)+

lemma xhci_init_keeps: "xhci_init b mmio s = Some t \<Longrightarrow> keeps s t"
  using keeps_opt_init[of s b mmio] by (simp add: keeps_opt_def)

section \<open>The enumeration\<close>

lemma found_keeps: "pci_found_xhci io b bus slot func vendor s = Some t \<Longrightarrow> keeps (snd s) (snd t)"
  by (auto simp: pci_found_xhci_def Let_def split_beta split: option.splits dest: xhci_init_keeps)

lemma scan_functions_keeps: "pci_scan_functions io b bus slot fs s = Some t \<Longrightarrow> keeps (snd s) (snd t)"
proof (induction fs arbitrary: s)
  case (Cons func fs)
  obtain p x where s: "s = (p, x)" by fastforce
  obtain vd p1 where 1: "pci_config_read_dword io bus slot func 0 p = (vd, p1)" by fastforce
  obtain ci p2 where ci: "pci_config_read_dword io bus slot func 0x08 p1 = (ci, p2)" by fastforce
  show ?case
  proof (cases "(ucast vd :: u16) = 0xFFFF")
    case True
    then show ?thesis using Cons.IH[of "(p1, x)"] Cons.prems 1 s by simp
  next
    case False
    let ?r = "if drop_bit 24 ci AND 0xFF = 0x0C \<and> drop_bit 16 ci AND 0xFF = 0x03 \<and> drop_bit 8 ci AND 0xFF = 0x30
      then pci_found_xhci io b bus slot func (ucast vd) (p2, x) else Some (p2, x)"
    obtain p3 x3 where r: "?r = Some (p3, x3)" using Cons.prems s False 1 ci by (auto simp: Let_def split: option.splits)
    have k: "keeps x x3" using r found_keeps[of io b bus slot func "ucast vd" "(p2, x)" "(p3, x3)"] by (auto split: if_splits)
    have rest: "keeps x3 (snd t)" if "pci_scan_functions io b bus slot fs (q, x3) = Some t" for q
      using Cons.IH[OF that] by simp
    have "snd t = x3 \<or> (\<exists>q. pci_scan_functions io b bus slot fs (q, x3) = Some t)"
      using Cons.prems s False 1 ci r by (auto simp: Let_def split_beta split: if_splits)
    then show ?thesis using k rest keeps_trans s by auto
  qed
qed simp

lemma pci_enumerate_keeps:
  assumes "pci_enumerate io b s = Some t"
  shows "vm_rel (x_vmm (snd s)) (x_vmm (snd t))"
proof -
  have "keeps (snd s) (snd t)" if "pci_scan_slots io b ss s = Some t" for ss
    using that
  proof (induction ss arbitrary: s)
    case (Cons x ss)
    obtain bus slot where x: "x = (bus, slot)" by fastforce
    obtain u where u: "pci_scan_functions io b bus slot all_functions s = Some u" "pci_scan_slots io b ss u = Some t"
      using Cons.prems x by (auto split: option.splits)
    show ?case by (rule keeps_trans[OF scan_functions_keeps[OF u(1)] Cons.IH[OF u(2)]])
  qed simp
  then show ?thesis using assms by (simp add: pci_enumerate_def keeps_def)
qed

end
