(* ===== verification/KernelMainSpec.thy ===== *)
theory KernelMainSpec
  imports KernelMain WizardSpec XhciRingSpec XhciVmm
begin

text \<open>
  The boot reaches the frame loop: with enough memory the mappings of \<open>kernel_main\<close> succeed and
  leave a contiguous, identity-mapped heap apart from the page tables; with six clicks in the
  wizard the desktop is initialised. The frame loop keeps its frame rate.
\<close>

section \<open>Free pages in address order\<close>

text \<open>During the boot nothing is freed, so the free pages are those from the \<open>k\<close>-th on.\<close>

definition low_free :: "pmm \<Rightarrow> nat \<Rightarrow> bool" where
  "low_free p k \<longleftrightarrow> pmm_wf p \<and> free_pages p = {k..<unat (max_pages p)} \<and> k \<le> unat (max_pages p)"

lemma low_free_card: "low_free p k \<Longrightarrow> card (available p) = unat (max_pages p) - k"
  by (simp add: low_free_def card_available)

lemma low_free_available: "low_free p k \<Longrightarrow> available p = page_addr p ` {k..<unat (max_pages p)}"
  by (simp add: low_free_def available_def)

lemma atLeastLessThan_minus_first: "{k..<n} - {k} = {Suc k..<n}" for k n :: nat
  by auto

lemma low_free_alloc:
  assumes "low_free p k" "k < unat (max_pages p)"
  shows "PMM_AllocatePage p = (page_addr p k, set_used k p)" "low_free (set_used k p) (Suc k)"
proof -
  have f: "free_pages p = {k..<unat (max_pages p)}" using assms(1) by (simp add: low_free_def)
  have m: "Min (free_pages p) = k" "free_pages p \<noteq> {}"
    unfolding f using assms(2) by (auto intro: Min_eqI)
  then show "PMM_AllocatePage p = (page_addr p k, set_used k p)" by (simp add: AllocatePage_some)
  have "free_pages (set_used k p) = free_pages p - {k}"
    using assms by (intro free_pages_set_used) (simp_all add: low_free_def)
  then have n: "free_pages (set_used k p) = {Suc k..<unat (max_pages p)}"
    unfolding f atLeastLessThan_minus_first .
  have "pmm_wf p" using assms(1) by (simp add: low_free_def)
  then show "low_free (set_used k p) (Suc k)"
    unfolding low_free_def n fields_set_used using assms(2) by (blast intro: pmm_wf_set_used Suc_leI)
qed

definition at_base :: "pmm \<Rightarrow> pmm \<Rightarrow> bool" where
  "at_base p q \<longleftrightarrow> max_pages q = max_pages p \<and> base_paddr q = base_paddr p"

lemma low_free_step:
  assumes "low_free p k" "k < unat (max_pages p)" "q = p \<or> q = snd (PMM_AllocatePage p)"
  shows "\<exists>k'. low_free q k' \<and> k \<le> k' \<and> k' \<le> Suc k \<and> at_base p q"
  using low_free_alloc[OF assms(1,2)] assms by (auto simp: at_base_def)

section \<open>What a mapping takes from the allocator\<close>

lemma descend_pmm: "vm_pmm (snd (vmm_descend fl tf t i s)) = vm_pmm s \<or>
    vm_pmm (snd (vmm_descend fl tf t i s)) = snd (PMM_AllocatePage (vm_pmm s))"
  by (simp add: vmm_descend_def Let_def split: prod.split)

lemma MapPage_low:
  assumes "low_free (vm_pmm s) k" "k + 3 \<le> unat (max_pages (vm_pmm s))"
  shows "\<exists>k'. low_free (vm_pmm (VMM_MapPage v p fl s)) k' \<and> k \<le> k' \<and> k' \<le> k + 3 \<and>
    at_base (vm_pmm s) (vm_pmm (VMM_MapPage v p fl s))"
proof -
  let ?tf = "if fl AND PAGE_USER \<noteq> 0 then (PAGE_PRESENT OR PAGE_WRITE) OR PAGE_USER else PAGE_PRESENT OR PAGE_WRITE"
  obtain t1 s1 where 1: "vmm_descend fl ?tf (kernel_pml4 s) (vidx 39 v) s = (t1, s1)" by fastforce
  obtain t2 s2 where 2: "vmm_descend fl ?tf t1 (vidx 30 v) s1 = (t2, s2)" by fastforce
  obtain t3 s3 where 3: "vmm_descend fl ?tf t2 (vidx 21 v) s2 = (t3, s3)" by fastforce
  have f: "vm_pmm (VMM_MapPage v p fl s) = vm_pmm s3" using 1 2 3 by (simp add: VMM_MapPage_def Let_def)
  obtain k1 where k1: "low_free (vm_pmm s1) k1" "k \<le> k1" "k1 \<le> Suc k" "at_base (vm_pmm s) (vm_pmm s1)"
    using low_free_step[OF assms(1), of "vm_pmm s1"] descend_pmm[of fl ?tf "kernel_pml4 s" "vidx 39 v" s] 1 assms(2) by auto
  obtain k2 where k2: "low_free (vm_pmm s2) k2" "k1 \<le> k2" "k2 \<le> Suc k1" "at_base (vm_pmm s1) (vm_pmm s2)"
    using low_free_step[OF k1(1), of "vm_pmm s2"] descend_pmm[of fl ?tf t1 "vidx 30 v" s1] 2 assms(2) k1 by (auto simp: at_base_def)
  obtain k3 where k3: "low_free (vm_pmm s3) k3" "k2 \<le> k3" "k3 \<le> Suc k2" "at_base (vm_pmm s2) (vm_pmm s3)"
    using low_free_step[OF k2(1), of "vm_pmm s3"] descend_pmm[of fl ?tf t2 "vidx 21 v" s2] 3 assms(2) k1 k2 by (auto simp: at_base_def)
  show ?thesis using f k1 k2 k3 by (intro exI[of _ k3]) (auto simp: at_base_def)
qed

text \<open>Where the page table is there already, only its entry changes.\<close>

lemma descend_there:
  "vm_mem s (entry t i) AND PAGE_PRESENT \<noteq> 0 \<Longrightarrow> vmm_descend PAGE_WRITE tf t i s = (table_of (vm_mem s (entry t i)), s)"
  by (simp add: vmm_descend_def Let_def PAGE_WRITE_def PAGE_USER_def)

lemma table_at_3:
  assumes "table_at m r (vpath v) = Some pt"
  shows "m (entry r (vidx 39 v)) AND PAGE_PRESENT \<noteq> 0"
    "m (entry (table_of (m (entry r (vidx 39 v)))) (vidx 30 v)) AND PAGE_PRESENT \<noteq> 0"
    "m (entry (table_of (m (entry (table_of (m (entry r (vidx 39 v)))) (vidx 30 v)))) (vidx 21 v)) AND PAGE_PRESENT \<noteq> 0"
    "table_of (m (entry (table_of (m (entry (table_of (m (entry r (vidx 39 v)))) (vidx 30 v)))) (vidx 21 v))) = pt"
  using assms by (auto simp: vpath_def Let_def split: if_splits)

lemma MapPage_there:
  assumes "table_at (vm_mem s) (kernel_pml4 s) (vpath v) = Some pt"
  shows "VMM_MapPage v p PAGE_WRITE s = s\<lparr>vm_mem := (vm_mem s)(entry pt (vidx 12 v) := p OR PAGE_WRITE OR PAGE_PRESENT),
    vm_invlpg := v # vm_invlpg s\<rparr>"
  using table_at_3[OF assms] by (simp add: VMM_MapPage_def Let_def descend_there)

lemma leaf_apart:
  assumes wf: "vmm_wf s" and pt: "table_at (vm_mem s) (kernel_pml4 s) (vpath v) = Some pt"
    and q: "q \<in> paths" "table_at (vm_mem s) (kernel_pml4 s) q = Some a" "j < 512"
    and ne: "q \<noteq> vpath v \<or> j \<noteq> vidx 12 v"
  shows "entry a j \<noteq> entry pt (vidx 12 v)"
proof
  assume e: "entry a j = entry pt (vidx 12 v)"
  have "a = pt \<and> j = vidx 12 v"
    by (rule entry_inj[OF vmm_wf_table(3)[OF wf q(1,2)] vmm_wf_table(3)[OF wf vpath_paths(1) pt] q(3) vidx_less e])
  then show False using vmm_wf_table(4)[OF wf q(1,2) vpath_paths(1)[of v]] pt ne by auto
qed

lemma leaf_tables:
  assumes wf: "vmm_wf s" and pt: "table_at (vm_mem s) (kernel_pml4 s) (vpath v) = Some pt" and q: "q \<in> paths"
  shows "table_at ((vm_mem s)(entry pt (vidx 12 v) := x)) (kernel_pml4 s) q = table_at (vm_mem s) (kernel_pml4 s) q"
proof (rule table_at_agree)
  fix q1 j q2 a assume e: "q = q1 @ j # q2" "table_at (vm_mem s) (kernel_pml4 s) q1 = Some a"
  then have "q1 \<in> paths" "j < 512" "length q1 < 3" using paths_prefix q by auto
  moreover from this have "q1 \<noteq> vpath v" using vpath_paths(2)[of v] by auto
  ultimately have "entry a j \<noteq> entry pt (vidx 12 v)" using leaf_apart[OF wf pt _ e(2)] by blast
  then show "same_ptr (((vm_mem s)(entry pt (vidx 12 v) := x)) (entry a j)) (vm_mem s (entry a j))" by simp
qed

lemma tables_there:
  assumes "vmm_wf s" "table_at (vm_mem s) (kernel_pml4 s) (vpath v) = Some pt" "q \<in> paths"
  shows "table_at (vm_mem (VMM_MapPage v p PAGE_WRITE s)) (kernel_pml4 s) q = table_at (vm_mem s) (kernel_pml4 s) q"
  using leaf_tables[OF assms] by (simp add: MapPage_there[OF assms(2)] del: fun_upd_apply)

section \<open>Identity mappings\<close>

definition low_page :: "u64 \<Rightarrow> bool" where
  "low_page a \<longleftrightarrow> unat a mod 4096 = 0 \<and> unat a < 2 ^ 48"

definition identity_mapped :: "vmm \<Rightarrow> u64 \<Rightarrow> bool" where
  "identity_mapped s a \<longleftrightarrow> walk (vm_mem s) (kernel_pml4 s) a = Some (a OR PAGE_WRITE OR PAGE_PRESENT)"

lemma bit_vidx: "vidx sh v = vidx sh w \<Longrightarrow> sh \<le> n \<Longrightarrow> n < sh + 9 \<Longrightarrow> bit v n = bit w n"
proof -
  assume v: "vidx sh v = vidx sh w" and n: "sh \<le> n" "n < sh + 9"
  have m: "(0x1FF :: u64) = mask 9" by (simp add: mask_eq_exp_minus_1)
  have e: "drop_bit sh v AND mask 9 = drop_bit sh w AND mask 9"
    using v unfolding vidx_def m by (rule word_unat_eq_iff[THEN iffD2])
  have "bit (drop_bit sh v AND mask 9) (n - sh) = bit (drop_bit sh w AND mask 9) (n - sh)" unfolding e ..
  moreover have "n - sh < 9" using n by linarith
  moreover have "bit x n \<Longrightarrow> n < 64" for x :: u64 using bit_imp_le_length[of x n] by simp
  ultimately show ?thesis using n by (auto simp: bit_and_iff bit_mask_iff bit_drop_bit_eq)
qed

lemma low_page_high: "unat a < 2 ^ 48 \<Longrightarrow> 48 \<le> n \<Longrightarrow> \<not> bit (a :: u64) n"
proof -
  assume a: "unat a < 2 ^ 48" "48 \<le> n"
  then have "unat a < 2 ^ n" by (meson less_le_trans one_le_numeral power_increasing)
  then have "\<not> bit (unat a) n" by (simp add: bit_iff_odd)
  then show ?thesis by (simp add: bit_unsigned_iff)
qed

lemma same_page_low:
  assumes "low_page a" "low_page b"
  shows "same_page a b \<longleftrightarrow> a = b"
proof
  assume "same_page a b"
  then have v: "vidx 39 a = vidx 39 b" "vidx 30 a = vidx 30 b" "vidx 21 a = vidx 21 b" "vidx 12 a = vidx 12 b"
    by (simp_all add: same_page_def vpath_def)
  show "a = b"
  proof (rule bit_word_eqI)
    fix n :: nat
    consider "n < 12" | "12 \<le> n" "n < 12 + 9" | "21 \<le> n" "n < 21 + 9" | "30 \<le> n" "n < 30 + 9"
      | "39 \<le> n" "n < 39 + 9" | "48 \<le> n" by linarith
    then show "bit a n = bit b n"
    proof cases
      case 1
      then show ?thesis using assms aligned_bits by (auto simp: low_page_def)
    next
      case 6
      then show ?thesis using assms low_page_high by (auto simp: low_page_def)
    qed (use v bit_vidx in blast)+
  qed
qed (simp add: same_page_def)

text \<open>The page-table paths under which something is mapped; a further mapping below one needs no frame.\<close>

definition covered :: "vmm \<Rightarrow> nat list set" where
  "covered s = {vpath w |w. walk (vm_mem s) (kernel_pml4 s) w \<noteq> None}"

lemma covered_table: "vpath v \<in> covered s \<Longrightarrow> \<exists>pt. table_at (vm_mem s) (kernel_pml4 s) (vpath v) = Some pt"
  by (auto simp: covered_def walk_def split: option.splits)

definition boot_state :: "vmm \<Rightarrow> nat \<Rightarrow> bool" where
  "boot_state s k \<longleftrightarrow> vmm_wf s \<and> low_free (vm_pmm s) k"

definition boot_max :: "vmm \<Rightarrow> nat" where
  "boot_max s = unat (max_pages (vm_pmm s))"

lemma boot_map_page:
  assumes "boot_state s k" "k + 3 \<le> boot_max s"
  obtains k' where "boot_state (VMM_MapPage v v PAGE_WRITE s) k'" "k \<le> k'"
    "k' \<le> (if vpath v \<in> covered s then k else k + 3)" "at_base (vm_pmm s) (vm_pmm (VMM_MapPage v v PAGE_WRITE s))"
    "kernel_pml4 (VMM_MapPage v v PAGE_WRITE s) = kernel_pml4 s"
    "covered (VMM_MapPage v v PAGE_WRITE s) = insert (vpath v) (covered s)"
    "\<And>a. low_page v \<Longrightarrow> low_page a \<Longrightarrow> identity_mapped (VMM_MapPage v v PAGE_WRITE s) a \<longleftrightarrow> a = v \<or> identity_mapped s a"
proof -
  let ?s = "VMM_MapPage v v PAGE_WRITE s"
  have b: "vmm_wf s" "low_free (vm_pmm s) k" using assms(1) by (simp_all add: boot_state_def)
  have c: "3 \<le> card (available (vm_pmm s))" using low_free_card[OF b(2)] assms(2) by (simp add: boot_max_def)
  note M = MapPage_spec[OF b(1) c, of v v PAGE_WRITE]
  have wk: "walk (vm_mem ?s) (kernel_pml4 ?s) w = (if same_page v w then Some (v OR PAGE_WRITE OR PAGE_PRESENT)
      else walk (vm_mem s) (kernel_pml4 s) w)" for w using M by metis
  obtain k1 where k1: "low_free (vm_pmm ?s) k1" "k \<le> k1" "k1 \<le> k + 3" "at_base (vm_pmm s) (vm_pmm ?s)"
    using MapPage_low[OF b(2)] assms(2) unfolding boot_max_def by blast
  have cov: "covered ?s = insert (vpath v) (covered s)"
    unfolding covered_def wk by (auto simp: same_page_def split: if_splits)
  have id: "identity_mapped ?s a \<longleftrightarrow> a = v \<or> identity_mapped s a" if "low_page v" "low_page a" for a
    using same_page_low[OF that] wk[of a] by (auto simp: identity_mapped_def)
  show thesis
  proof (cases "vpath v \<in> covered s")
    case True
    then obtain pt where "table_at (vm_mem s) (kernel_pml4 s) (vpath v) = Some pt" using covered_table by blast
    then have "vm_pmm ?s = vm_pmm s" by (simp add: MapPage_there)
    then show thesis using M b(2) True cov id k1(4) by (intro that[of k]) (auto simp: boot_state_def)
  next
    case False
    then show thesis using M k1 cov id by (intro that[of k1]) (auto simp: boot_state_def)
  qed
qed

lemma boot_map_identity:
  assumes "boot_state s k" "k + 3 * card (vpath ` set vs - covered s) + 3 \<le> boot_max s" "\<forall>v \<in> set vs. low_page v"
  shows "\<exists>k'. boot_state (map_identity vs s) k' \<and> k \<le> k' \<and> k' \<le> k + 3 * card (vpath ` set vs - covered s) \<and>
    at_base (vm_pmm s) (vm_pmm (map_identity vs s)) \<and> kernel_pml4 (map_identity vs s) = kernel_pml4 s \<and>
    covered (map_identity vs s) = vpath ` set vs \<union> covered s \<and>
    (\<forall>a. low_page a \<longrightarrow> (identity_mapped (map_identity vs s) a \<longleftrightarrow> a \<in> set vs \<or> identity_mapped s a))"
  using assms
proof (induction vs arbitrary: s k)
  case Nil
  then show ?case by (auto simp: map_identity_def at_base_def)
next
  case (Cons v vs)
  let ?s = "VMM_MapPage v v PAGE_WRITE s" and ?n = "\<lambda>vs s. card (vpath ` set vs - covered s)"
  obtain k1 where k1: "boot_state ?s k1" "k \<le> k1" "k1 \<le> (if vpath v \<in> covered s then k else k + 3)"
    "at_base (vm_pmm s) (vm_pmm ?s)" "kernel_pml4 ?s = kernel_pml4 s" "covered ?s = insert (vpath v) (covered s)"
    and id: "\<And>a. low_page a \<Longrightarrow> identity_mapped ?s a \<longleftrightarrow> a = v \<or> identity_mapped s a"
    using boot_map_page[OF Cons.prems(1), of v] Cons.prems(2,3) by auto
  have n: "k1 + 3 * ?n vs ?s \<le> k + 3 * ?n (v # vs) s"
  proof (cases "vpath v \<in> covered s")
    case True
    then have "vpath ` set vs - covered ?s = vpath ` set (v # vs) - covered s" using k1(6) by auto
    then show ?thesis using k1(3) True by simp
  next
    case False
    then have "vpath ` set (v # vs) - covered s = insert (vpath v) (vpath ` set vs - covered ?s)" using k1(6) by auto
    moreover have "vpath v \<notin> vpath ` set vs - covered ?s" using k1(6) by simp
    ultimately have "?n (v # vs) s = Suc (?n vs ?s)" by simp
    then show ?thesis using k1(3) False by simp
  qed
  have max: "boot_max ?s = boot_max s" using k1(4) by (simp add: at_base_def boot_max_def)
  obtain k2 where k2: "boot_state (map_identity vs ?s) k2" "k1 \<le> k2" "k2 \<le> k1 + 3 * ?n vs ?s"
    "at_base (vm_pmm ?s) (vm_pmm (map_identity vs ?s))" "kernel_pml4 (map_identity vs ?s) = kernel_pml4 ?s"
    "covered (map_identity vs ?s) = vpath ` set vs \<union> covered ?s"
    "\<And>a. low_page a \<Longrightarrow> identity_mapped (map_identity vs ?s) a \<longleftrightarrow> a \<in> set vs \<or> identity_mapped ?s a"
    using Cons.IH[OF k1(1)] Cons.prems n max by auto
  have "map_identity (v # vs) s = map_identity vs ?s" by (simp add: map_identity_def)
  moreover have "k2 \<le> k + 3 * ?n (v # vs) s" using k2(3) n by linarith
  ultimately show ?case
    using k1 k2 id by (intro exI[of _ k2]) (auto simp: at_base_def)
qed

section \<open>Ranges of pages\<close>

lemma unat_page_from: "unat base + 4096 * n \<le> 2 ^ 64 \<Longrightarrow> k < n \<Longrightarrow> unat (base + of_nat (4096 * k)) = unat base + 4096 * k" for base :: u64
proof -
  assume a: "unat base + 4096 * n \<le> 2 ^ 64" "k < n"
  have k: "unat (of_nat (4096 * k) :: u64) = 4096 * k" using a by (intro unat_of_nat_small) simp
  then show ?thesis using a by (subst unat_add_small) (simp_all only: k, simp_all)
qed

lemma vpath_region: "unat v div 2 ^ 21 = unat w div 2 ^ 21 \<Longrightarrow> vpath v = vpath w"
proof -
  assume "unat v div 2 ^ 21 = unat w div 2 ^ 21"
  then have d: "drop_bit 21 v = drop_bit 21 w"
    by (simp add: drop_bit_eq_div word_unat_eq_iff unat_div)
  have "drop_bit (m + 21) v = drop_bit (m + 21) w" for m
    using arg_cong[OF d, of "drop_bit m"] by simp
  from this[of 18] this[of 9] d show ?thesis by (simp add: vpath_def vidx_def)
qed

lemma div_add_bound: "(b + c) div 2097152 < b div 2097152 + (c div 2097152 + 2)" for b c :: nat
  by linarith

lemma card_vpath_pages:
  assumes "unat base + 4096 * n \<le> 2 ^ 64"
  shows "card (vpath ` set (pages_from base n)) \<le> n div 512 + 2"
proof -
  let ?h = "\<lambda>v :: u64. unat v div 2 ^ 21" and ?g = "\<lambda>r :: nat. vpath (of_nat (r * 2 ^ 21))"
    and ?S = "set (pages_from base n)"
  have g: "vpath v = ?g (?h v)" for v
  proof (rule vpath_region)
    have "?h v * 2 ^ 21 < 2 ^ 64" using unat_lt_2p[of v] by (simp add: le_less_trans[OF div_times_less_eq_dividend])
    then show "unat v div 2 ^ 21 = unat (of_nat (?h v * 2 ^ 21) :: u64) div 2 ^ 21"
      by (subst unat_of_nat_small) simp_all
  qed
  have "vpath ` ?S = ?g ` ?h ` ?S" using g by (auto simp: image_image)
  then have "card (vpath ` ?S) \<le> card (?h ` ?S)" by (simp add: card_image_le)
  also have "?h ` ?S \<subseteq> {?h base..<?h base + (n div 512 + 2)}"
  proof
    fix r assume "r \<in> ?h ` ?S"
    then obtain k where k: "k < n" "r = (unat base + 4096 * k) div 2097152"
      using unat_page_from[OF assms] by (auto simp: pages_from_def)
    have "(4096 * k) div 2097152 \<le> n div 512" using k(1) div_le_mono[of k n 512] by (simp add: div_mult2_eq[of _ 4096 512, simplified])
    then show "r \<in> {?h base..<?h base + (n div 512 + 2)}"
      using div_add_bound[of "unat base" "4096 * k"] k(2) by (auto intro: div_le_mono)
  qed
  then have "card (?h ` ?S) \<le> n div 512 + 2" using card_mono[of "{?h base..<?h base + (n div 512 + 2)}"] by fastforce
  finally show ?thesis .
qed

lemma set_pages_from:
  assumes "unat base + 4096 * n \<le> 2 ^ 64" "unat base mod 4096 = 0"
  shows "a \<in> set (pages_from base n) \<longleftrightarrow> unat a mod 4096 = 0 \<and> unat base \<le> unat a \<and> unat a < unat base + 4096 * n"
proof
  assume "a \<in> set (pages_from base n)"
  then obtain k where "k < n" "a = base + of_nat (4096 * k)" by (auto simp: pages_from_def)
  then show "unat a mod 4096 = 0 \<and> unat base \<le> unat a \<and> unat a < unat base + 4096 * n"
    using unat_page_from[OF assms(1)] assms(2) by auto
next
  assume a: "unat a mod 4096 = 0 \<and> unat base \<le> unat a \<and> unat a < unat base + 4096 * n"
  then have "4096 dvd unat a - unat base" using assms(2) by (simp add: dvd_diff_nat flip: dvd_eq_mod_eq_0)
  then obtain k where "unat a - unat base = 4096 * k" by (elim dvdE)
  then have k: "unat a = unat base + 4096 * k" using a by linarith
  then have "k < n" using a by simp
  then have "a = base + of_nat (4096 * k)" using k unat_page_from[OF assms(1)] by (simp add: word_unat_eq_iff)
  then show "a \<in> set (pages_from base n)" using \<open>k < n\<close> by (auto simp: pages_from_def)
qed

section \<open>The mapping loops\<close>

text \<open>
  \<open>extends s k j D s'\<close>: from a state whose first \<open>k\<close> pages are used, at most \<open>j\<close> more frames
  were taken, and exactly the pages of \<open>D\<close> were added to the identity mapping.
\<close>

definition extends :: "vmm \<Rightarrow> nat \<Rightarrow> nat \<Rightarrow> (nat \<Rightarrow> bool) \<Rightarrow> vmm \<Rightarrow> bool" where
  "extends s k j D s' \<longleftrightarrow> (\<exists>k'. boot_state s' k' \<and> k \<le> k' \<and> k' \<le> k + j) \<and> at_base (vm_pmm s) (vm_pmm s') \<and>
     kernel_pml4 s' = kernel_pml4 s \<and>
     (\<forall>a. low_page a \<longrightarrow> (identity_mapped s' a \<longleftrightarrow> D (unat a) \<or> identity_mapped s a))"

lemma extendsE:
  assumes "extends s k j D s'"
  obtains k' where "boot_state s' k'" "k \<le> k'" "k' \<le> k + j" "boot_max s' = boot_max s" "base_paddr (vm_pmm s') = base_paddr (vm_pmm s)"
    "kernel_pml4 s' = kernel_pml4 s" "\<And>a. low_page a \<Longrightarrow> identity_mapped s' a \<longleftrightarrow> D (unat a) \<or> identity_mapped s a"
  using assms by (auto simp: extends_def at_base_def boot_max_def)

lemma map_pages_extends:
  assumes "boot_state s k" "k + 3 * (n div 512 + 2) + 3 \<le> boot_max s" "unat base mod 4096 = 0" "unat base + 4096 * n \<le> 2 ^ 48"
    "\<And>x. x mod 4096 = 0 \<Longrightarrow> D x \<longleftrightarrow> unat base \<le> x \<and> x < unat base + 4096 * n" "n div 512 + 2 \<le> m"
  shows "extends s k (3 * m) D (map_identity (pages_from base n) s)"
proof -
  let ?vs = "pages_from base n"
  have b: "unat base + 4096 * n \<le> 2 ^ 64" using assms(4) by simp
  have low: "\<forall>v \<in> set ?vs. low_page v" using assms(4) by (auto simp: set_pages_from[OF b assms(3)] low_page_def)
  have "card (vpath ` set ?vs - covered s) \<le> card (vpath ` set ?vs)" by (intro card_mono) auto
  then have c: "card (vpath ` set ?vs - covered s) \<le> n div 512 + 2" using card_vpath_pages[OF b] by linarith
  then have "k + 3 * card (vpath ` set ?vs - covered s) + 3 \<le> boot_max s" using assms(2) by (meson add_le_mono le_refl mult_le_mono order_trans)
  from boot_map_identity[OF assms(1) this low]
  obtain k' where k': "boot_state (map_identity ?vs s) k'" "k \<le> k'" "k' \<le> k + 3 * card (vpath ` set ?vs - covered s)"
    "at_base (vm_pmm s) (vm_pmm (map_identity ?vs s))" "kernel_pml4 (map_identity ?vs s) = kernel_pml4 s"
    "\<And>a. low_page a \<Longrightarrow> identity_mapped (map_identity ?vs s) a \<longleftrightarrow> a \<in> set ?vs \<or> identity_mapped s a"
    by blast
  have "k' \<le> k + 3 * m" using k'(3) c assms(6) by (meson add_le_mono le_refl mult_le_mono order_trans)
  moreover have "a \<in> set ?vs \<longleftrightarrow> D (unat a)" if "low_page a" for a
    using that assms(5)[of "unat a"] set_pages_from[OF b assms(3)] by (simp add: low_page_def)
  ultimately show ?thesis using k' by (auto simp: extends_def)
qed

lemma page_count:
  fixes b x y :: nat
  assumes "b mod 4096 = 0" "x mod 4096 = 0"
  shows "x < b + 4096 * ((y + 4095) div 4096) \<longleftrightarrow> x < b + y"
proof -
  define c where "c = (y + 4095) div 4096"
  have "y + 4095 = 4096 * c + (y + 4095) mod 4096" "(y + 4095) mod 4096 < 4096" by (simp_all add: c_def)
  then have c: "4096 * c \<le> y + 4095" "y + 4095 < 4096 * c + 4096" by linarith+
  obtain b' x' where "b = 4096 * b'" "x = 4096 * x'" using assms by (auto simp: mod_eq_0_iff_dvd elim!: dvdE)
  then have bx: "b + 4096 * c = 4096 * (b' + c)" "b = 4096 * b'" "x = 4096 * x'" by simp_all
  have "x < b + 4096 * c \<longleftrightarrow> x' < b' + c" unfolding bx(2,3) by linarith
  also have "\<dots> \<longleftrightarrow> x < b + y" unfolding bx(2,3) using c by linarith
  finally show ?thesis by (simp add: c_def)
qed

lemma page_count_le:
  fixes b y :: nat
  assumes "b mod 4096 = 0" "b + y \<le> 2 ^ 48"
  shows "b + 4096 * ((y + 4095) div 4096) \<le> 2 ^ 48"
  using page_count[OF assms(1), of "2 ^ 48" y] assms(2) by simp

lemma map_bytes_extends:
  assumes "boot_state s k" "k + 3 * m + 3 \<le> boot_max s" "unat base mod 4096 = 0" "unat base + unat bytes \<le> 2 ^ 48"
    "(unat bytes + 4095) div 4096 div 512 + 2 \<le> m"
  shows "\<exists>s'. map_bytes base bytes s = Some s' \<and> extends s k (3 * m) (\<lambda>x. unat base \<le> x \<and> x < unat base + unat bytes) s'"
proof -
  have "\<not> bytes > 0xFFFFFFFFFFFFF000" using assms(4) by (simp add: word_less_nat_alt)
  moreover have "extends s k (3 * m) (\<lambda>x. unat base \<le> x \<and> x < unat base + unat bytes)
      (map_identity (pages_from base ((unat bytes + 4095) div 4096)) s)"
    using assms(2,5) page_count[OF assms(3)] page_count_le[OF assms(3,4)]
    by (intro map_pages_extends[OF assms(1) _ assms(3)]) auto
  ultimately show ?thesis by (simp add: map_bytes_def)
qed

lemma unat_page_floor: "unat (x AND NOT 0xFFF) = unat x div 4096 * 4096" for x :: u64
proof -
  have m: "(0xFFF :: u64) = mask 12" by (simp add: mask_eq_exp_minus_1)
  have "x AND NOT (mask 12) = push_bit 12 (drop_bit 12 x)"
    by (rule bit_word_eqI) (auto simp: bit_and_iff bit_not_iff bit_mask_iff bit_push_bit_iff bit_drop_bit_eq)
  then have "x AND NOT 0xFFF = x div 4096 * 4096" unfolding m by (simp add: push_bit_eq_mult drop_bit_eq_div)
  moreover have "unat (x div 4096) * 4096 < 2 ^ 64"
    using unat_lt_2p[of x] by (simp add: unat_div le_less_trans[OF div_times_less_eq_dividend])
  ultimately show ?thesis by (simp add: unat_mult_small unat_div)
qed

lemma map_around_extends:
  assumes "boot_state s k" "k + 3 * m + 3 \<le> boot_max s" "unat a + unat r < 2 ^ 47"
    "(2 * unat r div 4096 + 2) div 512 + 2 \<le> m"
  shows "\<exists>s'. map_around r a s = Some s' \<and>
    extends s k (3 * m) (\<lambda>x. unat a < x + 4096 + unat r \<and> x \<le> unat a + unat r) s'"
proof -
  define lo where "lo = (if a > r then a - r else 0) AND NOT 0xFFF"
  define hi where "hi = (a + r) AND NOT 0xFFF"
  define n where "n = (unat hi - unat lo) div 4096 + 1"
  have "unat (if a > r then a - r else 0) = unat a - unat r"
    by (auto simp: word_less_nat_alt word_le_nat_alt unat_sub_small)
  then have lo: "unat lo = (unat a - unat r) div 4096 * 4096" unfolding lo_def unat_page_floor by (rule arg_cong)
  have "unat (a + r) = unat a + unat r" using assms(3) by (intro unat_add_small) simp
  then have hi: "unat hi = (unat a + unat r) div 4096 * 4096" unfolding hi_def unat_page_floor by (rule arg_cong)
  have le: "unat lo \<le> unat hi" unfolding lo hi by (intro mult_le_mono1 div_le_mono) simp
  have n: "4096 * n = unat hi - unat lo + 4096" unfolding n_def lo hi by (simp add: diff_mult_distrib[symmetric])
  have hib: "unat hi \<le> unat a + unat r" unfolding hi by simp
  have "\<not> hi < lo" "\<not> hi \<ge> 0xFFFFFFFFFFFFF000"
    using le hib assms(3) by (simp_all add: word_less_nat_alt word_le_nat_alt)
  then have eq: "map_around r a s = Some (map_identity (pages_from lo n) s)"
    by (simp add: map_around_def lo_def hi_def n_def Let_def)
  have "unat a - unat r < unat lo + 4096" unfolding lo using dividend_less_div_times[of 4096 "unat a - unat r"] by simp
  then have "unat hi - unat lo \<le> 2 * unat r + 4095" using hib by simp
  then have "n \<le> 2 * unat r div 4096 + 2" unfolding n_def by linarith
  then have "n div 512 \<le> (2 * unat r div 4096 + 2) div 512" by (rule div_le_mono)
  then have nm: "n div 512 + 2 \<le> m" using assms(4) by linarith
  have D: "unat a < x + 4096 + unat r \<and> x \<le> unat a + unat r \<longleftrightarrow> unat lo \<le> x \<and> x < unat lo + 4096 * n"
    if "x mod 4096 = 0" for x
  proof -
    have y: "x = x div 4096 * 4096" using div_mult_mod_eq[of x 4096] that by simp
    define z where "z = x div 4096"
    have y: "x = z * 4096" unfolding z_def by (rule y)
    have "x \<le> unat a + unat r \<longleftrightarrow> z \<le> (unat a + unat r) div 4096" unfolding y by (simp add: less_eq_div_iff_mult_less_eq)
    moreover have "unat a < x + 4096 + unat r \<longleftrightarrow> (unat a - unat r) div 4096 < z + 1"
      unfolding y by (subst div_less_iff_less_mult) auto
    moreover have "x < unat lo + 4096 * n \<longleftrightarrow> z * 4096 < (unat a + unat r) div 4096 * 4096 + 4096" using n le unfolding hi y by simp
    moreover have "\<dots> \<longleftrightarrow> z \<le> (unat a + unat r) div 4096" by linarith
    ultimately show ?thesis unfolding lo y by auto
  qed
  have "extends s k (3 * m) (\<lambda>x. unat a < x + 4096 + unat r \<and> x \<le> unat a + unat r) (map_identity (pages_from lo n) s)"
  proof (rule map_pages_extends[OF assms(1) _ _ _ D nm])
    show "k + 3 * (n div 512 + 2) + 3 \<le> boot_max s"
      using assms(2) nm by (meson add_le_mono le_refl mult_le_mono order_trans)
    show "unat lo mod 4096 = 0" by (simp add: lo)
    show "unat lo + 4096 * n \<le> 2 ^ 48" using n le hib assms(3) by simp
  qed
  then show ?thesis using eq by blast
qed

section \<open>The page tables of the boot\<close>

definition fb_page_count :: "boot_fb \<Rightarrow> nat" where
  "fb_page_count bi = (unat (fb_bytes bi) + 4095) div 4096"

text \<open>What \<open>boot_vmm\<close> maps, by address.\<close>

definition in_boot_map :: "boot_info \<Rightarrow> u64 \<Rightarrow> u64 \<Rightarrow> nat \<Rightarrow> bool" where
  "in_boot_map bt rip sp x \<longleftrightarrow> x < 0x8000000 \<or>
     unat (region_base bt) \<le> x \<and> x < unat (region_base bt) + min (unat (region_size bt)) 0x10000000 \<or>
     unat (bt_framebuffer bt) \<le> x \<and> x < unat (bt_framebuffer bt) + unat (fb_bytes (bt_fb bt)) \<or>
     unat rip < x + 4096 + 0x800000 \<and> x \<le> unat rip + 0x800000 \<or>
     unat sp < x + 4096 + 0x200000 \<and> x \<le> unat sp + 0x200000"

definition boot_addresses_ok :: "boot_info \<Rightarrow> u64 \<Rightarrow> u64 \<Rightarrow> bool" where
  "boot_addresses_ok bt rip sp \<longleftrightarrow> region_base bt \<noteq> 0 \<and> unat (region_base bt) mod 4096 = 0 \<and>
     unat (region_base bt) + unat (region_size bt) \<le> 2 ^ 47 \<and> unat (bt_framebuffer bt) mod 4096 = 0 \<and>
     unat (bt_framebuffer bt) + unat (fb_bytes (bt_fb bt)) \<le> 2 ^ 47 \<and> unat rip < 2 ^ 46 \<and> unat sp < 2 ^ 46"

lemma VMM_Init_extends:
  assumes "low_free (vm_pmm s) k" "k < unat (max_pages (vm_pmm s))"
  shows "boot_state (VMM_Init s) (Suc k)" "at_base (vm_pmm s) (vm_pmm (VMM_Init s))" "\<not> identity_mapped (VMM_Init s) a"
proof -
  have wf: "pmm_wf (vm_pmm s)" using assms(1) by (simp add: low_free_def)
  have "available (vm_pmm s) \<noteq> {}" using low_free_available[OF assms(1)] assms(2) by auto
  note I = VMM_Init_spec[OF wf this]
  have v: "vm_pmm (VMM_Init s) = set_used k (vm_pmm s)" using low_free_alloc(1)[OF assms] by (simp add: VMM_Init_def)
  show "boot_state (VMM_Init s) (Suc k)" using I low_free_alloc(2)[OF assms] v by (simp add: boot_state_def)
  show "at_base (vm_pmm s) (vm_pmm (VMM_Init s))" unfolding v by (simp add: at_base_def)
  show "\<not> identity_mapped (VMM_Init s) a" using I by (simp add: identity_mapped_def)
qed

lemma extends_bind:
  assumes "extends s k j D s1"
    "\<And>k1. boot_state s1 k1 \<Longrightarrow> k1 \<le> k + j \<Longrightarrow> boot_max s1 = boot_max s \<Longrightarrow>
       \<exists>s2. f s1 = Some s2 \<and> extends s1 k1 i E s2"
  shows "\<exists>s2. f s1 = Some s2 \<and> extends s k (j + i) (\<lambda>x. D x \<or> E x) s2"
proof -
  obtain k1 where k1: "boot_state s1 k1" "k \<le> k1" "k1 \<le> k + j" "boot_max s1 = boot_max s"
    using extendsE[OF assms(1)] by metis
  obtain s2 where s2: "f s1 = Some s2" "extends s1 k1 i E s2" using assms(2) k1 by blast
  obtain k2 where k2: "boot_state s2 k2" "k1 \<le> k2" "k2 \<le> k1 + i" using extendsE[OF s2(2)] by metis
  then have "boot_state s2 k2 \<and> k \<le> k2 \<and> k2 \<le> k + (j + i)" using k1 by simp
  then have "extends s k (j + i) (\<lambda>x. D x \<or> E x) s2"
    using assms(1) s2(2) unfolding extends_def at_base_def by auto
  then show ?thesis using s2(1) by blast
qed

lemma then_map_bytes:
  assumes "extends s k j D s1" "k + j + 3 * m + 3 \<le> boot_max s" "unat base mod 4096 = 0" "unat base + unat bytes \<le> 2 ^ 48"
    "(unat bytes + 4095) div 4096 div 512 + 2 \<le> m"
  shows "\<exists>s2. map_bytes base bytes s1 = Some s2 \<and>
    extends s k (j + 3 * m) (\<lambda>x. D x \<or> unat base \<le> x \<and> x < unat base + unat bytes) s2"
  by (rule extends_bind[where f = "map_bytes base bytes", OF assms(1)], rule map_bytes_extends) (use assms in simp_all)

lemma then_map_around:
  assumes "extends s k j D s1" "k + j + 3 * m + 3 \<le> boot_max s" "unat a + unat r < 2 ^ 47"
    "(2 * unat r div 4096 + 2) div 512 + 2 \<le> m"
  shows "\<exists>s2. map_around r a s1 = Some s2 \<and>
    extends s k (j + 3 * m) (\<lambda>x. D x \<or> unat a < x + 4096 + unat r \<and> x \<le> unat a + unat r) s2"
  by (rule extends_bind[where f = "map_around r a", OF assms(1)], rule map_around_extends) (use assms in simp_all)

lemma extends_start: "boot_state s k \<Longrightarrow> extends s k 0 (\<lambda>x. False) s"
  by (auto simp: extends_def at_base_def)

lemma boot_vmm_spec:
  assumes ok: "boot_addresses_ok bt rip sp" and st: "low_free (vm_pmm s) k"
    and room: "k + 650 + 3 * (fb_page_count (bt_fb bt) div 512) \<le> unat (max_pages (vm_pmm s))"
  shows "\<exists>t k'. boot_vmm bt rip sp s = Some t \<and> boot_state t k' \<and> k < k' \<and> k' \<le> k + 640 + 3 * (fb_page_count (bt_fb bt) div 512) \<and>
    at_base (vm_pmm s) (vm_pmm t) \<and> vm_cr3 t = kernel_pml4 t \<and>
    (\<forall>a. low_page a \<longrightarrow> (identity_mapped t a \<longleftrightarrow> in_boot_map bt rip sp (unat a)))"
proof -
  let ?w = "if region_size bt > 256 * 1024 * 1024 then 256 * 1024 * 1024 else region_size bt"
  let ?fb = "ucast (fb_height (bt_fb bt)) * ucast (fb_pitch (bt_fb bt)) * 4 :: u64"
  have w: "unat ?w = min (unat (region_size bt)) 0x10000000" by (simp add: word_less_nat_alt)
  have fb: "?fb = fb_bytes (bt_fb bt)" by (simp add: fb_bytes_def mult.commute)
  define m where "m = fb_page_count (bt_fb bt) div 512 + 2"
  define s0 where "s0 = VMM_Init s"
  have k: "k < unat (max_pages (vm_pmm s))" using room by simp
  note I = VMM_Init_extends[OF st k, folded s0_def]
  have max: "boot_max s0 = unat (max_pages (vm_pmm s))" using I(2) by (simp add: at_base_def boot_max_def)
  have r: "k + 640 + 3 * m \<le> boot_max s0" using room unfolding max m_def by simp
  have fbr: "unat (bt_framebuffer bt) mod 4096 = 0" "unat (bt_framebuffer bt) + unat (fb_bytes (bt_fb bt)) \<le> 2 ^ 48"
    "(unat (fb_bytes (bt_fb bt)) + 4095) div 4096 div 512 + 2 \<le> m"
    using ok by (simp_all add: boot_addresses_ok_def m_def fb_page_count_def)
  have ra: "unat (region_base bt) mod 4096 = 0" "unat (region_base bt) + unat ?w \<le> 2 ^ 48"
    using ok unfolding w boot_addresses_ok_def by auto
  have rw: "(unat ?w + 4095) div 4096 div 512 + 2 \<le> 130" unfolding w by linarith
  have rs: "unat rip + unat (0x800000 :: u64) < 2 ^ 47" "unat sp + unat (0x200000 :: u64) < 2 ^ 47"
    using ok by (simp_all add: boot_addresses_ok_def)
  note e0 = extends_start[OF I(1)]
  obtain s1 where s1: "map_bytes 0 0x8000000 s0 = Some s1" and e1: "extends s0 (Suc k) (0 + 3 * 66)
      (\<lambda>x. False \<or> unat (0 :: u64) \<le> x \<and> x < unat (0 :: u64) + unat (0x8000000 :: u64)) s1"
    using then_map_bytes[OF e0, of 66 0 "0x8000000"] r by auto
  obtain s2 where s2: "map_bytes (region_base bt) ?w s1 = Some s2" and e2: "extends s0 (Suc k) (0 + 3 * 66 + 3 * 130)
      (\<lambda>x. (False \<or> unat (0 :: u64) \<le> x \<and> x < unat (0 :: u64) + unat (0x8000000 :: u64)) \<or>
         unat (region_base bt) \<le> x \<and> x < unat (region_base bt) + unat ?w) s2"
    using then_map_bytes[OF e1 _ ra rw] r by auto
  obtain s3 where s3: "map_bytes (bt_framebuffer bt) ?fb s2 = Some s3" and e3: "extends s0 (Suc k) (0 + 3 * 66 + 3 * 130 + 3 * m)
      (\<lambda>x. ((False \<or> unat (0 :: u64) \<le> x \<and> x < unat (0 :: u64) + unat (0x8000000 :: u64)) \<or>
         unat (region_base bt) \<le> x \<and> x < unat (region_base bt) + unat ?w) \<or>
         unat (bt_framebuffer bt) \<le> x \<and> x < unat (bt_framebuffer bt) + unat (fb_bytes (bt_fb bt))) s3"
    using then_map_bytes[OF e2 _ fbr] r unfolding fb by auto
  obtain s4 where s4: "map_around 0x800000 rip s3 = Some s4" and e4: "extends s0 (Suc k) (0 + 3 * 66 + 3 * 130 + 3 * m + 3 * 10)
      (\<lambda>x. (((False \<or> unat (0 :: u64) \<le> x \<and> x < unat (0 :: u64) + unat (0x8000000 :: u64)) \<or>
         unat (region_base bt) \<le> x \<and> x < unat (region_base bt) + unat ?w) \<or>
         unat (bt_framebuffer bt) \<le> x \<and> x < unat (bt_framebuffer bt) + unat (fb_bytes (bt_fb bt))) \<or>
         unat rip < x + 4096 + unat (0x800000 :: u64) \<and> x \<le> unat rip + unat (0x800000 :: u64)) s4"
    using then_map_around[OF e3 _ rs(1), of 10] r by auto
  obtain s5 where s5: "map_around 0x200000 sp s4 = Some s5" and e5: "extends s0 (Suc k) (0 + 3 * 66 + 3 * 130 + 3 * m + 3 * 10 + 3 * 4)
      (\<lambda>x. ((((False \<or> unat (0 :: u64) \<le> x \<and> x < unat (0 :: u64) + unat (0x8000000 :: u64)) \<or>
         unat (region_base bt) \<le> x \<and> x < unat (region_base bt) + unat ?w) \<or>
         unat (bt_framebuffer bt) \<le> x \<and> x < unat (bt_framebuffer bt) + unat (fb_bytes (bt_fb bt))) \<or>
         unat rip < x + 4096 + unat (0x800000 :: u64) \<and> x \<le> unat rip + unat (0x800000 :: u64)) \<or>
         unat sp < x + 4096 + unat (0x200000 :: u64) \<and> x \<le> unat sp + unat (0x200000 :: u64)) s5"
    using then_map_around[OF e4 _ rs(2), of 4] r by auto
  obtain k5 where k5: "boot_state s5 k5" "Suc k \<le> k5" "k5 \<le> Suc k + (0 + 3 * 66 + 3 * 130 + 3 * m + 3 * 10 + 3 * 4)"
    using extendsE[OF e5] by metis
  have eq: "boot_vmm bt rip sp s = Some (VMM_Activate s5)"
    using s1 s2 s3 s4 s5 by (simp add: boot_vmm_def s0_def[symmetric] Let_def)
  have "k5 \<le> k + 640 + 3 * (fb_page_count (bt_fb bt) div 512)" using k5(3) unfolding m_def by simp
  moreover have "k < k5" using k5(2) by simp
  moreover have "boot_state (VMM_Activate s5) k5"
    using k5(1) by (simp add: boot_state_def VMM_Activate_def vmm_wf_def)
  moreover have "at_base (vm_pmm s) (vm_pmm (VMM_Activate s5))"
    using e5 I(2) by (simp add: extends_def at_base_def VMM_Activate_def)
  moreover have "identity_mapped (VMM_Activate s5) a \<longleftrightarrow> in_boot_map bt rip sp (unat a)" if "low_page a" for a
    using e5 that I(3) w unfolding extends_def by (auto simp: in_boot_map_def identity_mapped_def VMM_Activate_def)
  ultimately show ?thesis using eq by (intro exI[of _ "VMM_Activate s5"] exI[of _ k5]) (simp add: VMM_Activate_def)
qed

section \<open>The heap of the boot\<close>

lemma FreePages_fields: "max_pages (PMM_FreePages a c p) = max_pages p" "base_paddr (PMM_FreePages a c p) = base_paddr p"
proof -
  have "max_pages (PMM_FreePages_loop n i p) = max_pages p \<and> base_paddr (PMM_FreePages_loop n i p) = base_paddr p" for n i p
    by (induction n i p rule: PMM_FreePages_loop.induct) simp_all
  then show "max_pages (PMM_FreePages a c p) = max_pages p" "base_paddr (PMM_FreePages a c p) = base_paddr p"
    by (simp_all add: PMM_FreePages_def)
qed

lemma boot_pmm_low:
  assumes "b \<noteq> 0" "unat b mod 4096 = 0" "unat b + unat m \<le> 2 ^ 47" "unat (bitmap_pages m) \<le> unat m div 4096"
  shows "low_free (boot_pmm b m) (unat (bitmap_pages m))" "max_pages (boot_pmm b m) = m div PAGE_SIZE" "base_paddr (boot_pmm b m) = b"
proof -
  let ?p = "bitmap_pages m" and ?n = "unat m div 4096"
  have n: "unat (m div 4096) = ?n" by (simp add: unat_div)
  have pn: "?p \<le> m div 4096" using assms(4) n by (simp add: word_le_nat_alt)
  have c: "unat (m div 4096 - ?p) = ?n - unat ?p" using unat_sub_small[OF pn] n by simp
  have p4: "unat ?p * 4096 \<le> unat m" using assms(4) by (simp add: less_eq_div_iff_mult_less_eq)
  have "unat (?p * 4096) = unat ?p * 4096" using p4 assms(3) by (subst unat_mult_small) simp_all
  then have a: "unat (b + ?p * 4096) = unat b + unat ?p * 4096" using p4 assms(3) by (subst unat_add_small) simp_all
  show f: "max_pages (boot_pmm b m) = m div PAGE_SIZE" "base_paddr (boot_pmm b m) = b"
    by (simp_all add: boot_pmm_def FreePages_fields)
  have "unat b + unat m < 2 ^ 64" "unat b \<le> unat (b + ?p * 4096)" "unat (m div 4096 - ?p) < 2 ^ 51"
    using assms(3) a c by simp_all
  note F = FreePages_boot[OF assms(1,2) this, folded boot_pmm_def]
  have "{i. unat ?p \<le> i \<and> i < unat ?p + (?n - unat ?p) \<and> i < ?n} = {unat ?p..<?n}" by auto
  then show "low_free (boot_pmm b m) (unat ?p)"
    using F assms(4) f unfolding low_free_def a c unat_max_pages by (simp add: unat_max_pages)
qed

text \<open>A step of the growth: a frame is taken and its page is mapped again.\<close>

lemma boot_state_alloc:
  assumes "boot_state s k" "k < boot_max s"
  shows "boot_state (s\<lparr>vm_pmm := set_used k (vm_pmm s)\<rparr>) (Suc k)"
    "PMM_AllocatePage (vm_pmm s) = (page_addr (vm_pmm s) k, set_used k (vm_pmm s))"
    "page_addr (vm_pmm s) k \<noteq> 0" "page_addr (vm_pmm s) k \<in> available (vm_pmm s)"
proof -
  have b: "vmm_wf s" "low_free (vm_pmm s) k" "k < unat (max_pages (vm_pmm s))" "pmm_wf (vm_pmm s)"
    using assms by (auto simp: boot_state_def boot_max_def low_free_def)
  note al = low_free_alloc[OF b(2,3)]
  show "PMM_AllocatePage (vm_pmm s) = (page_addr (vm_pmm s) k, set_used k (vm_pmm s))" by (rule al(1))
  show av: "page_addr (vm_pmm s) k \<in> available (vm_pmm s)" using low_free_available[OF b(2)] b(3) by auto
  then show "page_addr (vm_pmm s) k \<noteq> 0" using pmm.avail_frames[OF b(4)] pmm.frames_aligned[OF b(4)] by blast
  have "available (set_used k (vm_pmm s)) \<subseteq> available (vm_pmm s)" "managed (set_used k (vm_pmm s)) = managed (vm_pmm s)"
    using pmm.avail_alloc[OF b(4)] pmm.frames_alloc[OF b(4)] al(1) by auto
  then have "vmm_wf (s\<lparr>vm_pmm := set_used k (vm_pmm s)\<rparr>)"
    using b(1) al(2) unfolding vmm_wf_def low_free_def by simp blast
  then show "boot_state (s\<lparr>vm_pmm := set_used k (vm_pmm s)\<rparr>) (Suc k)" using al(2) by (simp add: boot_state_def)
qed

definition same_tables :: "vmm \<Rightarrow> vmm \<Rightarrow> bool" where
  "same_tables s t \<longleftrightarrow> kernel_pml4 t = kernel_pml4 s \<and> at_base (vm_pmm s) (vm_pmm t) \<and> vm_cr3 t = vm_cr3 s \<and>
     (\<forall>q \<in> paths. table_at (vm_mem t) (kernel_pml4 t) q = table_at (vm_mem s) (kernel_pml4 s) q) \<and>
     covered s \<subseteq> covered t \<and> (\<forall>a. low_page a \<longrightarrow> identity_mapped s a \<longrightarrow> identity_mapped t a)"

lemma same_tables_trans: "same_tables s t \<Longrightarrow> same_tables t u \<Longrightarrow> same_tables s u"
  by (auto simp: same_tables_def at_base_def)

lemma take_page:
  assumes "boot_state s k" "k + 4 \<le> boot_max s" "a = page_addr (vm_pmm s) k" "low_page a" "vpath a \<in> covered s"
  shows "boot_state (VMM_MapPage a a PAGE_WRITE (s\<lparr>vm_pmm := set_used k (vm_pmm s)\<rparr>)) (Suc k)"
    "same_tables s (VMM_MapPage a a PAGE_WRITE (s\<lparr>vm_pmm := set_used k (vm_pmm s)\<rparr>))"
    "identity_mapped (VMM_MapPage a a PAGE_WRITE (s\<lparr>vm_pmm := set_used k (vm_pmm s)\<rparr>)) a"
proof -
  let ?t = "VMM_MapPage a a PAGE_WRITE (s\<lparr>vm_pmm := set_used k (vm_pmm s)\<rparr>)"
  let ?u = "s\<lparr>vm_pmm := set_used k (vm_pmm s)\<rparr>"
  have "k < boot_max s" using assms(2) by simp
  note A = boot_state_alloc[OF assms(1) this]
  have u: "covered ?u = covered s" "\<And>b. identity_mapped ?u b = identity_mapped s b" "boot_max ?u = boot_max s"
    by (simp_all add: covered_def identity_mapped_def boot_max_def)
  have "Suc k + 3 \<le> boot_max ?u" using assms(2) u(3) by simp
  from boot_map_page[OF A(1) this, of a]
  obtain k' where k': "boot_state ?t k'" "Suc k \<le> k'" "k' \<le> (if vpath a \<in> covered ?u then Suc k else Suc k + 3)"
    "at_base (vm_pmm ?u) (vm_pmm ?t)" "kernel_pml4 ?t = kernel_pml4 ?u" "covered ?t = insert (vpath a) (covered ?u)"
    "\<And>b. low_page a \<Longrightarrow> low_page b \<Longrightarrow> identity_mapped ?t b \<longleftrightarrow> b = a \<or> identity_mapped ?u b" by metis
  have "k' = Suc k" using k'(2,3) assms(5) u(1) by simp
  then show "boot_state ?t (Suc k)" using k'(1) by simp
  show "identity_mapped ?t a" using k'(7) assms(4) by simp
  obtain pt where pt: "table_at (vm_mem ?u) (kernel_pml4 ?u) (vpath a) = Some pt" using covered_table[of a ?u] assms(5) u(1) by auto
  have wf: "vmm_wf ?u" using A(1) by (simp add: boot_state_def)
  have "table_at (vm_mem ?t) (kernel_pml4 ?t) q = table_at (vm_mem s) (kernel_pml4 s) q" if "q \<in> paths" for q
    using tables_there[OF wf pt that] k'(5) by simp
  moreover have "vm_cr3 ?t = vm_cr3 s" using MapPage_there[OF pt] by simp
  ultimately show "same_tables s ?t"
    using k'(4-7) assms(4) u by (auto simp: same_tables_def at_base_def)
qed

lemma page_addr_Suc: "page_addr p (Suc k) = page_addr p k + 4096"
  by (simp add: page_addr_def PAGE_SIZE_def algebra_simps)

lemma same_tables_simps:
  assumes "same_tables s t"
  shows "page_addr (vm_pmm t) = page_addr (vm_pmm s)" "boot_max t = boot_max s"
  using assms by (auto simp: same_tables_def at_base_def boot_max_def page_addr_def fun_eq_iff)

lemma heap_grow_spec:
  assumes "boot_state s k" "k + n + 3 \<le> boot_max s" "heap_base + p * 4096 = page_addr (vm_pmm s) k"
    "\<forall>i. k \<le> i \<longrightarrow> i < k + n \<longrightarrow> low_page (page_addr (vm_pmm s) i) \<and> vpath (page_addr (vm_pmm s) i) \<in> covered s"
  shows "\<exists>t. heap_grow heap_base n p s = Some t \<and> boot_state t (k + n) \<and> same_tables s t"
  using assms
proof (induction n arbitrary: s k p)
  case 0
  then show ?case by (simp add: same_tables_def at_base_def)
next
  case (Suc n)
  let ?a = "page_addr (vm_pmm s) k"
  let ?t = "VMM_MapPage ?a ?a PAGE_WRITE (s\<lparr>vm_pmm := set_used k (vm_pmm s)\<rparr>)"
  have "k < boot_max s" "k + 4 \<le> boot_max s" using Suc.prems(2) by simp_all
  note A = boot_state_alloc[OF Suc.prems(1) this(1)]
  have "low_page ?a" "vpath ?a \<in> covered s" using Suc.prems(4) by auto
  note T = take_page[OF Suc.prems(1) \<open>k + 4 \<le> boot_max s\<close> refl this]
  note P = same_tables_simps[OF T(2)]
  have "heap_base + (p + 1) * 4096 = page_addr (vm_pmm ?t) (Suc k)"
  proof -
    have "page_addr (vm_pmm ?t) (Suc k) = ?a + 4096" by (simp only: P(1) page_addr_Suc)
    moreover have "heap_base + (p + 1) * 4096 = heap_base + p * 4096 + 4096" by (simp add: distrib_right)
    ultimately show ?thesis using Suc.prems(3) by metis
  qed
  moreover have "covered s \<subseteq> covered ?t" using T(2) by (simp add: same_tables_def)
  ultimately obtain u where u: "heap_grow heap_base n (p + 1) ?t = Some u" "boot_state u (Suc k + n)" "same_tables ?t u"
    using Suc.IH[OF T(1), of "p + 1"] Suc.prems(2,4) unfolding P by fastforce
  have "heap_grow heap_base (Suc n) p s = heap_grow heap_base n (p + 1) ?t"
    using A(2,3) Suc.prems(3) by (simp add: Let_def)
  then show ?case using u same_tables_trans[OF T(2) u(3)] by auto
qed

lemma boot_heap_spec:
  assumes "boot_state s k" "1 \<le> unat n" "k + unat n + 3 \<le> boot_max s"
    "\<forall>i. k \<le> i \<longrightarrow> i < k + unat n \<longrightarrow> low_page (page_addr (vm_pmm s) i) \<and> vpath (page_addr (vm_pmm s) i) \<in> covered s"
  shows "\<exists>t. boot_heap n s h = Some (t, Heap_Init (page_addr (vm_pmm s) k) (n * 4096) h) \<and> boot_state t (k + unat n) \<and> same_tables s t"
proof -
  have "k < boot_max s" using assms(2,3) by simp
  note A = boot_state_alloc[OF assms(1) this]
  have n: "unat n = Suc (unat n - 1)" using assms(2) by simp
  obtain t where t: "heap_grow (page_addr (vm_pmm s) k) (unat n) 0 s = Some t" "boot_state t (k + unat n)" "same_tables s t"
    using heap_grow_spec[OF assms(1,3) _ assms(4), of _ 0] by auto
  have "heap_grow (page_addr (vm_pmm s) k) (Suc (unat n - 1)) 0 s = Some t" using t(1) n by simp
  then have "heap_grow (page_addr (vm_pmm s) k) (unat n - 1) 1
      (VMM_MapPage (page_addr (vm_pmm s) k) (page_addr (vm_pmm s) k) PAGE_WRITE (s\<lparr>vm_pmm := set_used k (vm_pmm s)\<rparr>)) = Some t"
    using A(2,3) by (simp add: Let_def)
  then show ?thesis using t(2,3) A(2,3) by (simp add: boot_heap_def Let_def)
qed

section \<open>The memory of the booted kernel\<close>

definition boot_tuning :: "cpuid \<Rightarrow> boot_info \<Rightarrow> hw \<Rightarrow> hw_tuning" where
  "boot_tuning cpuid bt hw = g_tune (hw_profile_detect_early cpuid (region_size bt) (fb_width (bt_fb bt))
     (fb_height (bt_fb bt)) (fb_pitch (bt_fb bt)) hw)"

text \<open>Room for the bitmap, the page tables and the heap, in the part of the region that gets mapped.\<close>

definition boot_fits :: "boot_info \<Rightarrow> hw_tuning \<Rightarrow> bool" where
  "boot_fits bt t \<longleftrightarrow> unat (bitmap_pages (region_size bt)) + unat (heap_pages (bt_fb bt) t) + 700 +
     3 * (fb_page_count (bt_fb bt) div 512) \<le> min (unat (region_size bt) div 4096) 65536"

text \<open>The pages of the heap: mapped, taken from the allocator and none of them a page table.\<close>

definition heap_frame :: "vmm \<Rightarrow> u64 \<Rightarrow> bool" where
  "heap_frame vm a \<longleftrightarrow> identity_mapped vm a \<and> a \<in> managed (vm_pmm vm) \<and> a \<notin> available (vm_pmm vm) \<and>
     (\<forall>q \<in> paths. table_at (vm_mem vm) (kernel_pml4 vm) q \<noteq> Some a)"

lemma page_of_address:
  assumes "pmm_wf p" "k + n \<le> unat (max_pages p)" "unat x mod 4096 = 0" "unat (page_addr p k) \<le> unat x"
    "unat x < unat (page_addr p k) + 4096 * n"
  shows "\<exists>i. k \<le> i \<and> i < k + n \<and> x = page_addr p i"
proof -
  have "0 < n" using assms(4,5) by (cases n) auto
  then have k: "unat (page_addr p k) = unat (base_paddr p) + k * 4096" using unat_page_addr[OF assms(1)] assms(2) by simp
  have "4096 dvd unat x - unat (base_paddr p)" using assms(1,3) by (simp add: pmm_wf_def dvd_diff_nat flip: dvd_eq_mod_eq_0)
  then obtain i where "unat x - unat (base_paddr p) = 4096 * i" by (elim dvdE)
  then have i: "unat x = unat (base_paddr p) + i * 4096" using assms(4) k by linarith
  have "k \<le> i" "i < k + n" using assms(4,5) i k by simp_all
  moreover from this have "x = page_addr p i" using unat_page_addr[OF assms(1), of i] assms(2) i by (simp add: word_unat_eq_iff)
  ultimately show ?thesis by blast
qed

text \<open>A page taken during the growth of the heap is mapped, in use, and no page table.\<close>

lemma taken_heap_frame:
  assumes t: "boot_state t k" and u: "boot_state u (k + n)" "same_tables t u" and i: "k \<le> i" "i < k + n" "k + n \<le> boot_max t"
    and id: "identity_mapped u (page_addr (vm_pmm t) i)"
  shows "heap_frame u (page_addr (vm_pmm t) i)"
proof -
  let ?x = "page_addr (vm_pmm t) i" and ?N = "unat (max_pages (vm_pmm t))"
  have N: "i < ?N" using i by (simp add: boot_max_def)
  have U: "page_addr (vm_pmm u) = page_addr (vm_pmm t)" "unat (max_pages (vm_pmm u)) = ?N"
    using same_tables_simps[OF u(2)] by (simp_all add: boot_max_def)
  have wu: "low_free (vm_pmm u) (k + n)" "pmm_wf (vm_pmm u)" using u(1) by (simp_all add: boot_state_def low_free_def)
  have wt: "low_free (vm_pmm t) k" using t by (simp add: boot_state_def)
  have "?x \<in> managed (vm_pmm u)" using N unfolding managed_def U by simp
  moreover have "?x \<notin> available (vm_pmm u)"
  proof
    assume "?x \<in> available (vm_pmm u)"
    then obtain j where j: "k + n \<le> j" "j < ?N" "?x = page_addr (vm_pmm t) j" using low_free_available[OF wu(1)] unfolding U by auto
    then have "i = j" using inj_onD[OF page_addr_inj[OF wu(2)], of i j] N unfolding U by simp
    then show False using j(1) i(2) by simp
  qed
  moreover have "table_at (vm_mem u) (kernel_pml4 u) q \<noteq> Some ?x" if "q \<in> paths" for q
  proof
    assume "table_at (vm_mem u) (kernel_pml4 u) q = Some ?x"
    then have "table_at (vm_mem t) (kernel_pml4 t) q = Some ?x" using u(2) that unfolding same_tables_def by metis
    then have "?x \<notin> available (vm_pmm t)" using t that by (auto simp: boot_state_def vmm_wf_def)
    then show False using low_free_available[OF wt] i N by auto
  qed
  ultimately show ?thesis using id by (simp add: heap_frame_def)
qed

lemma heap_pages_pos: "1 \<le> unat (heap_pages bi t)"
proof -
  have "4 \<le> heap_pages bi t" by (auto simp: heap_pages_def Let_def not_less)
  then show ?thesis by (simp add: word_le_nat_alt)
qed

lemma boot_memory_works:
  assumes ok: "boot_addresses_ok bt rip sp" and fits: "boot_fits bt (boot_tuning cpuid bt hw)"
  shows "\<exists>vm h start. boot_memory cpuid bt rip sp (s, hw, h0) =
      Some (vm, hw_profile_detect_early cpuid (region_size bt) (fb_width (bt_fb bt)) (fb_height (bt_fb bt)) (fb_pitch (bt_fb bt)) hw, h) \<and>
    vmm_wf vm \<and> vm_cr3 vm = kernel_pml4 vm \<and>
    (\<forall>a. unat a mod 4096 = 0 \<and> in_boot_map bt rip sp (unat a) \<longrightarrow> identity_mapped vm a) \<and>
    heap_rel (unat start) (unat start + 4096 * unat (heap_pages (bt_fb bt) (boot_tuning cpuid bt hw))) h
      [(start, heap_pages (bt_fb bt) (boot_tuning cpuid bt hw) * 4096 - 24, True)] \<and>
    unat (region_base bt) + 4096 * unat (bitmap_pages (region_size bt)) \<le> unat start \<and>
    (\<forall>a. unat a mod 4096 = 0 \<and> unat start \<le> unat a \<and>
       unat a < unat start + 4096 * unat (heap_pages (bt_fb bt) (boot_tuning cpuid bt hw)) \<longrightarrow> heap_frame vm a) \<and>
    60 \<le> card (available (vm_pmm vm))"
proof -
  define b where "b = bitmap_pages (region_size bt)"
  define n where "n = heap_pages (bt_fb bt) (boot_tuning cpuid bt hw)"
  define N where "N = unat (region_size bt) div 4096"
  define s0 where "s0 = s\<lparr>vm_pmm := boot_pmm (region_base bt) (region_size bt)\<rparr>"
  have fit: "unat b + unat n + 700 + 3 * (fb_page_count (bt_fb bt) div 512) \<le> N"
    "unat b + unat n + 700 + 3 * (fb_page_count (bt_fb bt) div 512) \<le> 65536"
    using fits by (simp_all add: boot_fits_def b_def n_def N_def)
  have a: "region_base bt \<noteq> 0" "unat (region_base bt) mod 4096 = 0" "unat (region_base bt) + unat (region_size bt) \<le> 2 ^ 47"
    using ok by (simp_all add: boot_addresses_ok_def)
  have "unat (bitmap_pages (region_size bt)) \<le> unat (region_size bt) div 4096" using fit(1) by (simp add: b_def N_def)
  note B = boot_pmm_low[OF a this, folded b_def]
  have max: "unat (max_pages (vm_pmm s0)) = N" using B(2) by (simp add: s0_def N_def unat_max_pages)
  obtain t k where t: "boot_vmm bt rip sp s0 = Some t" "boot_state t k" "unat b < k" "k \<le> unat b + 640 + 3 * (fb_page_count (bt_fb bt) div 512)"
    "at_base (vm_pmm s0) (vm_pmm t)" "vm_cr3 t = kernel_pml4 t"
    "\<forall>a. low_page a \<longrightarrow> (identity_mapped t a \<longleftrightarrow> in_boot_map bt rip sp (unat a))"
    using boot_vmm_spec[OF ok, of s0 "unat b"] B(1) fit(1) unfolding max by (auto simp: s0_def)
  have wft: "pmm_wf (vm_pmm t)" using t(2) by (simp add: boot_state_def low_free_def)
  have bt: "boot_max t = N" "base_paddr (vm_pmm t) = region_base bt" "unat (max_pages (vm_pmm t)) = N"
    using t(5) max B(3) by (simp_all add: at_base_def boot_max_def s0_def)
  define P where "P = page_addr (vm_pmm t)"
  have uP: "unat (P i) = unat (region_base bt) + i * 4096" if "i < N" for i
    using unat_page_addr[OF wft] that bt by (simp add: P_def)
  have iN: "i < N" "i < 65536" if "i < k + unat n" for i using that fit t(4) by simp_all
  have inmap: "low_page (P i) \<and> in_boot_map bt rip sp (unat (P i))" if "i < k + unat n" for i
  proof -
    have "i * 4096 < unat (region_size bt)" using iN(1)[OF that] unfolding N_def by (simp add: less_mult_imp_div_less div_less_iff_less_mult)
    then show ?thesis using iN(2)[OF that] uP[OF iN(1)[OF that]] a by (simp add: low_page_def in_boot_map_def)
  qed
  have cov: "low_page (P i) \<and> vpath (P i) \<in> covered t" if "i < k + unat n" for i
    using inmap[OF that] t(7) by (auto simp: identity_mapped_def covered_def)
  have room: "k + unat n + 3 \<le> boot_max t" using fit(1) t(4) bt(1) by simp
  obtain u where u: "boot_heap n t h0 = Some (u, Heap_Init (P k) (n * 4096) h0)" "boot_state u (k + unat n)" "same_tables t u"
    using boot_heap_spec[OF t(2) _ room] heap_pages_pos cov unfolding n_def P_def by blast
  have eq: "boot_memory cpuid bt rip sp (s, hw, h0) = Some (u, hw_profile_detect_early cpuid (region_size bt)
      (fb_width (bt_fb bt)) (fb_height (bt_fb bt)) (fb_pitch (bt_fb bt)) hw, Heap_Init (P k) (n * 4096) h0)"
    using t(1) u(1) by (simp add: boot_memory_def Let_def s0_def n_def boot_tuning_def)
  have k: "k < N" using fit t(4) by simp
  have nn: "unat (n * 4096) = unat n * 4096" using fit(2) by (subst unat_mult_small) simp_all
  have st: "unat (P k) = unat (region_base bt) + k * 4096" using uP[OF k] .
  have id: "identity_mapped u x" if "unat x mod 4096 = 0" "in_boot_map bt rip sp (unat x)" for x
  proof -
    have "low_page x" using that ok by (auto simp: low_page_def in_boot_map_def boot_addresses_ok_def)
    then show ?thesis using that t(7) u(3) by (simp add: same_tables_def)
  qed
  have top: "(k + unat n) * 4096 \<le> N * 4096" using room bt(1) by simp
  have "N * 4096 \<le> unat (region_size bt)" unfolding N_def by simp
  then have "unat (P k) + unat (n * 4096) < 2 ^ 64" using st nn top a(3) by (simp add: algebra_simps)
  moreover have "24 \<le> unat (n * 4096)" using nn heap_pages_pos[of "bt_fb bt" "boot_tuning cpuid bt hw"] by (simp add: n_def)
  moreover have "16 \<le> unat (P k)" using st t(3) by simp
  ultimately have hr: "heap_rel (unat (P k)) (unat (P k) + 4096 * unat n) (Heap_Init (P k) (n * 4096) h0) [(P k, n * 4096 - 24, True)]"
    using Heap_Init_rel[of "P k" "n * 4096" h0] nn by (simp add: mult.commute)
  have frame: "heap_frame u x" if x: "unat x mod 4096 = 0" "unat (P k) \<le> unat x" "unat x < unat (P k) + 4096 * unat n" for x
  proof -
    obtain i where i: "k \<le> i" "i < k + unat n" "x = P i"
      using page_of_address[OF wft _ x(1) x(2)[unfolded P_def], of "unat n"] x(3) room bt(1,3) unfolding P_def by auto
    have "identity_mapped u x" using id[OF x(1)] inmap[OF i(2)] i(3) by simp
    then show ?thesis using taken_heap_frame[OF t(2) u(2,3) i(1,2)] room i(3) unfolding P_def by simp
  qed
  have "vmm_wf u" using u(2) by (simp add: boot_state_def)
  moreover have "vm_cr3 u = kernel_pml4 u" using u(3) t(6) by (simp add: same_tables_def)
  moreover have "unat (region_base bt) + 4096 * unat b \<le> unat (P k)" using st t(3) by simp
  moreover have "60 \<le> card (available (vm_pmm u))"
    using u(2,3) bt(1) fit(1) t(4) low_free_card[of "vm_pmm u" "k + unat n"]
    by (simp add: boot_state_def same_tables_def at_base_def boot_max_def)
  ultimately show ?thesis
    using eq id hr frame unfolding n_def[symmetric] b_def[symmetric]
    by (intro exI[of _ u] exI[of _ "Heap_Init (P k) (n * 4096) h0"] exI[of _ "P k"] conjI) simp_all
qed

text \<open>
  C37. With enough memory the memory set-up of kernel_main never stops with a fatal error: it
  leaves page tables that are a tree of allocated frames, loaded into CR3, which map every page
  of its five ranges to itself, and a heap that is one free block of contiguous identity-mapped
  frames behind the allocator's bitmap, each taken from the allocator and none of them a page
  table.
\<close>

theorem boot_memory_ready:
  assumes ok: "boot_addresses_ok bt rip sp" and fits: "boot_fits bt (boot_tuning cpuid bt hw)"
  shows "\<exists>vm h start. boot_memory cpuid bt rip sp (s, hw, h0) =
      Some (vm, hw_profile_detect_early cpuid (region_size bt) (fb_width (bt_fb bt)) (fb_height (bt_fb bt)) (fb_pitch (bt_fb bt)) hw, h) \<and>
    vmm_wf vm \<and> vm_cr3 vm = kernel_pml4 vm \<and>
    (\<forall>a. unat a mod 4096 = 0 \<and> in_boot_map bt rip sp (unat a) \<longrightarrow> identity_mapped vm a) \<and>
    heap_rel (unat start) (unat start + 4096 * unat (heap_pages (bt_fb bt) (boot_tuning cpuid bt hw))) h
      [(start, heap_pages (bt_fb bt) (boot_tuning cpuid bt hw) * 4096 - 24, True)] \<and>
    unat (region_base bt) + 4096 * unat (bitmap_pages (region_size bt)) \<le> unat start \<and>
    (\<forall>a. unat a mod 4096 = 0 \<and> unat start \<le> unat a \<and>
       unat a < unat start + 4096 * unat (heap_pages (bt_fb bt) (boot_tuning cpuid bt hw)) \<longrightarrow> heap_frame vm a)"
  using boot_memory_works[OF assms, of s h0] by blast

definition boot_example :: boot_info where
  "boot_example = \<lparr>bt_framebuffer = 0xE0000000, bt_fb = vga_fb, region_base = 0x10000000, region_size = 0x4000000\<rparr>"

definition cpuid_zero :: cpuid where
  "cpuid_zero = (\<lambda>_ _. (0, 0, 0, 0))"

lemma boot_example_ok:
  "boot_addresses_ok boot_example 0x100000 0x200000" "boot_fits boot_example (boot_tuning cpuid_zero boot_example hw)"
  by (simp_all add: boot_addresses_ok_def boot_fits_def boot_example_def vga_fb_def fb_bytes_def boot_tuning_def
      hw_profile_detect_early_def hw_apply_tuning_def hw_default_tuning_def hw_detect_cpu_def cpuid_zero_def zero_profile_def
      heap_pages_def bitmap_pages_def fb_page_count_def Let_def)

theorem boot_memory_ready_witness:
  "\<exists>vm hw h. boot_memory cpuid_zero boot_example 0x100000 0x200000 (vmm_example, dk_hw desk_example, heap_example) = Some (vm, hw, h) \<and>
     vmm_wf vm \<and> identity_mapped vm 0x7FFF000"
  using boot_memory_ready[OF boot_example_ok, of vmm_example "dk_hw desk_example" heap_example]
  by (fastforce simp: in_boot_map_def)

section \<open>The boot reaches the desktop\<close>

lemma draws_keeps:
  fixes f :: "('v, 's) desktop \<Rightarrow> ('v, 's) desktop"
  assumes "draws f" "fb_ok bi" "g_bi s = Some bi"
  shows "g_bi (f s) = Some bi \<and> dk_ramfs (f s) = dk_ramfs s"
proof -
  have "draws_at s (f s)" using assms(1) by (simp add: draws_at_iff)
  then have "same_env s (f s)" using assms(2,3) by (simp add: draws_at_def)
  then have "g_bi (f s) = Some bi" "gfx.more (f s) = gfx.more s" using assms(3) by (simp_all add: same_env_def)
  then show ?thesis by (cases s, cases "f s") simp
qed

lemma blit_keeps:
  fixes s :: "('v, 's) desktop"
  shows "g_bi (blit_rect d r x y w h s) = g_bi s" "dk_ramfs (blit_rect d r x y w h s) = dk_ramfs s"
  using blit_pixels[of d r x y w h s] by auto

lemma init_frame_keeps:
  fixes s :: "('v, 's) desktop"
  assumes "fb_ok bi" "g_bi s = Some bi"
  shows "g_bi (init_frame bi s) = Some bi \<and> dk_ramfs (init_frame bi s) = dk_ramfs s"
proof (cases "g_back s \<noteq> None \<and> g_bg s \<noteq> None")
  case False
  then show ?thesis using draws_keeps[OF draws_background assms] by (auto simp: init_frame_def)
next
  case True
  define s1 where "s1 = init_background s"
  have 1: "g_bi s1 = Some bi" "dk_ramfs s1 = dk_ramfs s"
    using draws_keeps[OF draws_background assms(1), of "s\<lparr>g_back := g_bg s, g_rand_state := 0xC001D00D\<rparr>"] assms(2)
    by (simp_all add: s1_def init_background_def Let_def)
  define s2 where "s2 = draw_scene (present_frame bi (g_back s1) (g_bg s1) s1)"
  have "g_bi (present_frame bi (g_back s1) (g_bg s1) s1) = Some bi" using 1 by (simp add: present_frame_def blit_keeps)
  from draws_keeps[OF draws_scene assms(1) this] have 2: "g_bi s2 = Some bi" "dk_ramfs s2 = dk_ramfs s"
    using 1 by (simp_all add: s2_def present_frame_def blit_keeps)
  define s3 where "s3 = draw_pointer (input_pointer_get (dk_input s2)) s2"
  have 3: "g_bi s3 = Some bi" "dk_ramfs s3 = dk_ramfs s"
    using draws_keeps[OF draws_pointer assms(1) 2(1), of "input_pointer_get (dk_input s2)"] 2 by (simp_all add: s3_def)
  have "init_frame bi s = present_frame bi (Some Framebuffer) (g_back s3) s3"
    using True by (simp add: init_frame_def Let_def s1_def[symmetric] s2_def[symmetric] s3_def[symmetric])
  then show ?thesis using 3 by (simp add: present_frame_def blit_keeps)
qed

lemma out_keeps:
  fixes s :: "('v, 's) desktop"
  shows "g_bi (out str s) = g_bi s" "dk_ramfs (out str s) = dk_ramfs s"
  using shell_append_frame[of "lit str" s] by (auto simp: out_def)

lemma alloc_surface_heap:
  assumes "kheap_rel (rf_heap (dk_ramfs s)) g"
  shows "\<exists>r t g'. alloc_surface n b s = Some (r, t) \<and> kheap_rel (rf_heap (dk_ramfs t)) g' \<and> g_bi t = g_bi s"
proof -
  obtain p h' g' where m: "kmalloc (ucast n) (rf_heap (dk_ramfs s)) = Some (p, h')" "kheap_rel h' g'"
    using kh.malloc_spec[OF assms, of "ucast n"] by blast
  then show ?thesis
    by (intro exI[of _ "if p = 0 then None else Some b"] exI[of _ "s\<lparr>dk_ramfs := (dk_ramfs s)\<lparr>rf_heap := h'\<rparr>\<rparr>"] exI[of _ g'])
      (simp add: alloc_surface_def)
qed

lemma alloc_buffers_heap:
  assumes "kheap_rel (rf_heap (dk_ramfs s)) g"
  shows "\<exists>t g'. alloc_buffers n s = Some t \<and> kheap_rel (rf_heap (dk_ramfs t)) g' \<and> g_bi t = g_bi s"
proof -
  obtain r t g1 where 1: "alloc_surface n Back_buffer s = Some (r, t)" "kheap_rel (rf_heap (dk_ramfs t)) g1" "g_bi t = g_bi s"
    using alloc_surface_heap[OF assms] by blast
  have "kheap_rel (rf_heap (dk_ramfs (t\<lparr>g_back := r\<rparr>))) g1" using 1(2) by simp
  from alloc_surface_heap[OF this, of n Bg_buffer] obtain q u g2 where
    "alloc_surface n Bg_buffer (t\<lparr>g_back := r\<rparr>) = Some (q, u)" "kheap_rel (rf_heap (dk_ramfs u)) g2" "g_bi u = g_bi (t\<lparr>g_back := r\<rparr>)"
    by blast
  then have "alloc_buffers n s = Some (u\<lparr>g_bg := q\<rparr>) \<and> kheap_rel (rf_heap (dk_ramfs (u\<lparr>g_bg := q\<rparr>))) g2 \<and> g_bi (u\<lparr>g_bg := q\<rparr>) = g_bi s"
    using 1 by (simp add: alloc_buffers_def)
  then show ?thesis by blast
qed

lemma desktop_init_heap:
  assumes "fb_ok bi" "kheap_rel (rf_heap (dk_ramfs s)) g"
  shows "\<exists>t g'. desktop_init (Some bi) s = Ret t \<and> g_bi t = Some bi \<and> kheap_rel (rf_heap (dk_ramfs t)) g'"
proof -
  have r: "g_bi (init_reset bi s) = Some bi" "dk_ramfs (init_reset bi s) = dk_ramfs s" by (simp_all add: init_reset_def)
  have "init_buffers bi (init_reset bi s) = Some (init_reset bi s) \<or> (\<exists>n. init_buffers bi (init_reset bi s) = alloc_buffers n (init_reset bi s))"
    unfolding init_buffers_def Let_def by (auto split: if_splits)
  then obtain t g1 where t: "init_buffers bi (init_reset bi s) = Some t" "kheap_rel (rf_heap (dk_ramfs t)) g1" "g_bi t = Some bi"
    using alloc_buffers_heap[of "init_reset bi s" g] assms(2) r by (metis option.inject)
  define u where "u = init_windows bi (out ''> '' (t\<lparr>g_last_cursor_x := - 1000, g_last_cursor_y := - 1000,
        g_last_cursor_buttons := 0, dk_input := input_init (fb_width bi) (fb_height bi) (dk_input t)\<rparr>))"
  have u: "g_bi u = Some bi" "dk_ramfs u = dk_ramfs t"
    using t(3) by (simp_all add: u_def init_windows_def Let_def out_keeps)
  have "desktop_init (Some bi) s = Ret (init_frame bi u)" using t(1) by (simp add: desktop_init_def u_def Let_def)
  then show ?thesis
    using init_frame_keeps[OF assms(1) u(1)] u(2) t(2) by (intro exI[of _ "init_frame bi u"] exI[of _ g1]) simp
qed

text \<open>
  The enumeration ends on the memory management the boot hands it, and leaves the three pages that a mapping
  may need: a page table is taken from the allocator without a test that it gave one.
\<close>

definition enumeration_ends ::
  "cpuid \<Rightarrow> 'p port_io \<Rightarrow> 'd bus \<Rightarrow> boot_info \<Rightarrow> u64 \<Rightarrow> u64 \<Rightarrow> ('p, 'd, 'v, 's) kernel \<Rightarrow> bool" where
  "enumeration_ends cpuid io b bt rip sp k \<longleftrightarrow>
     (case boot_memory cpuid bt rip sp (k_vmm k, dk_hw (k_desk k), rf_heap (dk_ramfs (k_desk k))) of
        None \<Rightarrow> True
      | Some (vm, hw, h) \<Rightarrow>
          (case pci_enumerate io b (k_ports k, (k_xhci k)\<lparr>x_vmm := vm\<rparr>) of
             None \<Rightarrow> False
           | Some (p, x) \<Rightarrow> 3 \<le> card (available (vm_pmm (x_vmm x)))))"

text \<open>
  C38. With enough memory, whatever devices are found as long as the PCI enumeration, run on the
  allocator and the page tables of the boot, returns and leaves three pages, and six clicks in
  the wizard, kernel_main reaches its frame loop: behind all that the USB driver allocated and
  mapped the page tables are still a tree loaded into CR3, the set-up is complete, the desktop
  is initialised on the frame buffer, the heap is intact, one task runs, both 8259 controllers
  are initialised at vectors 32 and 40, and of the sixteen interrupt lines only the timer is
  unmasked.
\<close>

theorem kernel_reaches_desktop:
  assumes "boot_addresses_ok bt rip sp" "boot_fits bt (boot_tuning cpuid bt (dk_hw (k_desk k)))" "fb_ok (bt_fb bt)"
    "enumeration_ends cpuid io b bt rip sp k" "length cs = 6" "\<forall>c \<in> set cs. next_click (bt_fb bt) c"
    "pic_protocol io c1 c2"
  shows "\<exists>k'. kernel_start cpuid io b (polls_of cs) bt rip sp k = Ret k' \<and>
    vmm_wf (k_vmm k') \<and> vm_cr3 (k_vmm k') = kernel_pml4 (k_vmm k') \<and> x_vmm (k_xhci k') = k_vmm k' \<and>
    desktop_is_setup_complete (k_wizard k') \<and> all_done (k_wizard k') \<and> g_bi (k_desk k') = Some (bt_fb bt) \<and>
    (\<exists>g. kheap_rel (rf_heap (dk_ramfs (k_desk k'))) g) \<and> task_count (dk_sched (k_desk k')) = 1 \<and>
    pics_remapped (c1 (k_ports k')) (c2 (k_ports k')) \<and>
    (\<forall>n < 16. masked (pic_mask (c1 (k_ports k'))) (pic_mask (c2 (k_ports k'))) n \<longleftrightarrow> n \<noteq> 0)"
proof -
  let ?bi = "bt_fb bt"
  define s where "s = clear_framebuffer ?bi (k_desk k)"
  have s: "dk_hw s = dk_hw (k_desk k)" "dk_ramfs s = dk_ramfs (k_desk k)" by (simp_all add: s_def clear_framebuffer_def)
  obtain vm hw h start n m where mem: "boot_memory cpuid bt rip sp (k_vmm k, dk_hw s, rf_heap (dk_ramfs s)) = Some (vm, hw, h)"
    "vmm_wf vm" "vm_cr3 vm = kernel_pml4 vm" "heap_rel (unat start) (unat start + n) h [(start, m, True)]"
    using boot_memory_works[OF assms(1), of cpuid "dk_hw s" "k_vmm k" "rf_heap (dk_ramfs s)"] assms(2) unfolding s by blast
  obtain p x where px: "pci_enumerate io b (k_ports k, (k_xhci k)\<lparr>x_vmm := vm\<rparr>) = Some (p, x)"
    and left: "3 \<le> card (available (vm_pmm (x_vmm x)))"
    using assms(4) mem(1) unfolding s enumeration_ends_def by (auto split: option.splits)
  have vm: "vmm_wf (x_vmm x)" "vm_cr3 (x_vmm x) = kernel_pml4 (x_vmm x)"
    using pci_enumerate_keeps[OF px] left mem(2,3) by (simp_all add: vm_rel_def)
  obtain hw2 p2 where gpu: "hw_profile_update_pci_gpu io hw p = (hw2, p2)" by fastforce
  have "kheap_rel (rf_heap (dk_ramfs (set_memory h hw2 s))) (unat start, unat start + n, [(start, m, True)])"
    using mem(4) by (simp add: kheap_rel_def set_memory_def)
  from wizard_finishes[OF assms(3) this assms(5,6), of "k_wizard k"] obtain z t g where
    wiz: "desktop_run_fullscreen_wizard (polls_of cs) (Some ?bi) (k_wizard k, set_memory h hw2 s) = Ret (z, t)"
    "desktop_is_setup_complete z" "all_done z" "kheap_rel (rf_heap (dk_ramfs t)) g" by blast
  obtain u g' where u: "desktop_init (Some ?bi) t = Ret u" "g_bi u = Some ?bi" "kheap_rel (rf_heap (dk_ramfs u)) g'"
    using desktop_init_heap[OF assms(3) wiz(4)] by blast
  obtain p3 where pit: "PIT_Init io 1000 p2 = Some p3" by (simp add: PIT_Init_def Let_def)
  let ?k = "k\<lparr>k_ports := mask_all_but_timer io (PIC_Remap io p3), k_xhci := x, k_vmm := x_vmm x, k_wizard := z,
    k_desk := u\<lparr>dk_sched := Task_Init (dk_sched u)\<rparr>\<rparr>"
  have "kernel_start cpuid io b (polls_of cs) bt rip sp k = Ret ?k"
    using mem(1) px gpu wiz(1) u(1) pit by (simp add: kernel_start_def s_def Let_def)
  moreover have "pics_remapped (c1 (k_ports ?k)) (c2 (k_ports ?k)) \<and>
      (\<forall>n < 16. masked (pic_mask (c1 (k_ports ?k))) (pic_mask (c2 (k_ports ?k))) n \<longleftrightarrow> n \<noteq> 0)"
    using remap_and_mask_spec[OF assms(7) refl, of p3] by simp
  moreover have "task_count (dk_sched (k_desk ?k)) = 1" by (simp add: Task_Init_def set_task_def)
  moreover have "\<exists>g. kheap_rel (rf_heap (dk_ramfs (k_desk ?k))) g" by (rule exI[of _ g']) (use u(3) in simp)
  ultimately show ?thesis using vm wiz(2,3) u(2) by (intro exI[of _ ?k]) simp
qed

lemma read_silent: "pci_config_read_dword pic_example bus slot func off p = (0, p)"
  by (simp add: pci_config_read_dword_def pic_example_def)

lemma pci_scan_silent: "pci_scan_slots pic_example b ss s = Some s"
proof (induction ss)
  case (Cons bs ss)
  have f: "all_functions = 0 # map of_nat [1..<8]" by (simp add: all_functions_def upt_conv_Cons)
  have "pci_scan_functions pic_example b (fst bs) (snd bs) all_functions s = Some s"
    unfolding f by (cases s) (simp add: read_silent Let_def)
  with Cons show ?case by (cases bs) simp
qed simp

definition kernel_example :: "(pic \<times> pic, u64 \<Rightarrow> u8, unit, unit) kernel" where
  "kernel_example = \<lparr>k_ports = pics_busy, k_xhci = xhci_example, k_vmm = vmm_example, k_wizard = wizard_start, k_desk = desk_example\<rparr>"

lemma silent_enumeration_ends: "enumeration_ends cpuid_zero pic_example ram_bus boot_example 0x100000 0x200000 kernel_example"
proof -
  obtain vm hw h where m: "boot_memory cpuid_zero boot_example 0x100000 0x200000
      (k_vmm kernel_example, dk_hw (k_desk kernel_example), rf_heap (dk_ramfs (k_desk kernel_example))) = Some (vm, hw, h)"
    "60 \<le> card (available (vm_pmm vm))"
    using boot_memory_works[OF boot_example_ok, of "k_vmm kernel_example" "dk_hw (k_desk kernel_example)"
        "rf_heap (dk_ramfs (k_desk kernel_example))"] by blast
  then show ?thesis by (simp add: enumeration_ends_def pci_enumerate_def pci_scan_silent)
qed

theorem kernel_reaches_desktop_witness:
  "\<exists>k'. kernel_start cpuid_zero pic_example ram_bus (polls_of (replicate 6 vga_click)) boot_example 0x100000 0x200000 kernel_example = Ret k' \<and>
     desktop_is_setup_complete (k_wizard k') \<and> g_bi (k_desk k') = Some vga_fb \<and> vmm_wf (k_vmm k') \<and>
     pic_base (fst (k_ports k')) = 0x20"
proof -
  have fb: "bt_fb boot_example = vga_fb" by (simp add: boot_example_def)
  have cl: "\<forall>c \<in> set (replicate 6 vga_click). next_click (bt_fb boot_example) c" using vga_click_next by (simp add: fb)
  show ?thesis
    using kernel_reaches_desktop[OF boot_example_ok(1) boot_example_ok(2) _ silent_enumeration_ends _ cl pic_example_protocol]
      vga_fb_ok unfolding fb by (auto simp: pics_remapped_def)
qed

section \<open>The frame rate\<close>

text \<open>The loop without the waiting.\<close>

fun tick_loop :: "nat \<Rightarrow> ('v, 's) blk_driver \<Rightarrow> (input \<Rightarrow> input) list \<Rightarrow> ('v, 's) desktop \<Rightarrow> ('v, 's) desktop outcome" where
  "tick_loop fuel dr [] s = Ret s"
| "tick_loop fuel dr (poll # polls) s =
     (case desktop_tick fuel dr (s\<lparr>dk_input := poll (dk_input s)\<rparr>) of
        Ret s \<Rightarrow> tick_loop fuel dr polls s | Stop \<Rightarrow> Stop | Fault \<Rightarrow> Fault | Timeout \<Rightarrow> Timeout)"

text \<open>
  A tick counter that is read often enough: \<open>T\<close> is the number of timer interrupts at each reading, and within
  \<open>w\<close> readings at least a second goes by. The counter does not overflow in the first \<open>K\<close> readings.
\<close>

definition ticking :: "nat \<Rightarrow> (nat \<Rightarrow> nat) \<Rightarrow> nat \<Rightarrow> bool" where
  "ticking w T K \<longleftrightarrow> mono T \<and> (\<forall>k. T k + 1000 \<le> T (k + w)) \<and> T K + 1000 < 2 ^ 64"

lemma wait_until_returns:
  "j < fuel \<Longrightarrow> t \<le> clk (k + j) \<Longrightarrow> \<exists>i \<le> j. wait_until fuel clk t k = Some (k + i + 1) \<and> t \<le> clk (k + i)"
proof (induction fuel arbitrary: j k)
  case (Suc fuel)
  show ?case
  proof (cases "clk k < t")
    case True
    then have "0 < j" using Suc.prems(2) by (cases j) (auto simp: not_le)
    then have "j - 1 < fuel" "t \<le> clk (Suc k + (j - 1))" using Suc.prems by simp_all
    from Suc.IH[OF this] obtain i where "i \<le> j - 1" "wait_until fuel clk t (Suc k) = Some (Suc k + i + 1)" "t \<le> clk (Suc k + i)" by blast
    then show ?thesis using True \<open>0 < j\<close> by (intro exI[of _ "Suc i"]) auto
  next
    case False
    then show ?thesis by (intro exI[of _ 0]) auto
  qed
qed simp

lemma frame_wait_spec:
  assumes tick: "ticking w T K" and clk: "clk = (\<lambda>k. of_nat (T k))" and K: "k + w + 1 \<le> K"
    and le: "lf \<le> clk k" and delay: "unat delay \<le> 1000"
  shows "\<exists>k'. frame_wait w clk delay (k, lf) = Some (k', clk (k' - 1)) \<and> k < k' \<and> k' \<le> k + w + 2 \<and>
    unat lf + unat delay \<le> unat (clk (k' - 1))"
proof -
  have mono: "mono T" and top: "T K + 1000 < 2 ^ 64" using tick by (simp_all add: ticking_def)
  have u: "unat (clk i) = T i" if "i \<le> K" for i
    using monoD[OF mono that] top by (simp add: clk unat_of_nat_small)
  have lk: "unat lf \<le> T k" using le u[of k] K by (simp add: word_le_nat_alt)
  have el: "unat (clk k - lf) = T k - unat lf" using unat_sub_small[OF le] u[of k] K by simp
  have ud: "unat (ucast delay :: u64) = unat delay" by (simp add: unsigned_ucast_eq take_bit_nat_eq_self unsigned_less less_le_trans[OF unsigned_less])
  show ?thesis
  proof (cases "clk k - lf < ucast delay")
    case False
    then have "unat lf + unat delay \<le> T k" using el ud lk by (simp add: word_less_nat_alt)
    moreover have "T k \<le> T (Suc k)" using mono by (simp add: mono_def)
    ultimately show ?thesis using False u[of "Suc k"] K
      by (intro exI[of _ "k + 2"]) (simp add: frame_wait_def Let_def)
  next
    case True
    let ?t = "clk k + (ucast delay - (clk k - lf))"
    have "unat (ucast delay - (clk k - lf)) = unat delay - (T k - unat lf)"
      using unat_sub_small[of "clk k - lf" "ucast delay"] True el ud by simp
    moreover have "T k \<le> T K" using monoD[OF mono, of k K] K by simp
    ultimately have t: "unat ?t = unat lf + unat delay"
      using u[of k] K lk top delay True el ud by (subst unat_add_small) (simp_all add: word_less_nat_alt)
    have "T k + 1000 \<le> T (k + w)" "T (k + w) \<le> T (k + 1 + w)" using tick mono by (auto simp: ticking_def mono_def)
    moreover have w: "0 < w" using tick unfolding ticking_def by (metis add.right_neutral bot_nat_0.not_eq_extremum not_add_less1 add_le_same_cancel1 le_zero_eq zero_neq_numeral)
    ultimately have "?t \<le> clk (k + 1 + (w - 1))" using t lk delay u[of "k + w"] K by (simp add: word_le_nat_alt)
    then obtain i where i: "i \<le> w - 1" "wait_until w clk ?t (k + 1) = Some (k + 1 + i + 1)" "?t \<le> clk (k + 1 + i)"
      using wait_until_returns[of "w - 1" w ?t clk "k + 1"] w by auto
    have "T (k + 1 + i) \<le> T (k + i + 2)" using mono by (simp add: mono_def)
    then have "unat lf + unat delay \<le> unat (clk (k + i + 2))"
      using i(1,3) t u[of "k + 1 + i"] u[of "k + i + 2"] K w by (simp add: word_le_nat_alt)
    then show ?thesis using True i(1,2) w
      by (intro exI[of _ "k + i + 3"]) (simp add: frame_wait_def Let_def numeral_3_eq_3)
  qed
qed

lemma frame_delay_le: "unat (frame_delay t) \<le> 1000"
  by (simp add: frame_delay_def unat_div div_le_dividend)

text \<open>
  C39. The frame limiter does not change what the desktop does: with a timer that keeps ticking,
  frame_loop ends in the same desktop as the ticks alone, and n frames take at least n times the
  frame delay.
\<close>

theorem frames_paced:
  assumes "ticking w T K" "k + length polls * (w + 2) \<le> K" "lf \<le> of_nat (T k)"
  shows "case tick_loop fuel dr polls s of
      Ret s' \<Rightarrow> \<exists>k' lf'. frame_loop fuel dr w (\<lambda>k. of_nat (T k)) (frame_delay t) polls ((k, lf), s) = Ret ((k', lf'), s') \<and>
        unat lf + length polls * unat (frame_delay t) \<le> unat lf'
    | Stop \<Rightarrow> frame_loop fuel dr w (\<lambda>k. of_nat (T k)) (frame_delay t) polls ((k, lf), s) = Stop
    | Fault \<Rightarrow> frame_loop fuel dr w (\<lambda>k. of_nat (T k)) (frame_delay t) polls ((k, lf), s) = Fault
    | Timeout \<Rightarrow> frame_loop fuel dr w (\<lambda>k. of_nat (T k)) (frame_delay t) polls ((k, lf), s) = Timeout"
  using assms(2,3)
proof (induction polls arbitrary: k lf s)
  case (Cons poll polls)
  show ?case
  proof (cases "desktop_tick fuel dr (s\<lparr>dk_input := poll (dk_input s)\<rparr>)")
    case (Ret s1)
    have K: "k + w + 1 \<le> K" using Cons.prems(1) by simp
    obtain k1 where k1: "frame_wait w (\<lambda>k. of_nat (T k)) (frame_delay t) (k, lf) = Some (k1, of_nat (T (k1 - 1)))"
      "k < k1" "k1 \<le> k + w + 2" "unat lf + unat (frame_delay t) \<le> unat (of_nat (T (k1 - 1)) :: u64)"
      using frame_wait_spec[OF assms(1) refl K Cons.prems(2) frame_delay_le, of t] by blast
    have mono: "mono T" and top: "T K + 1000 < 2 ^ 64" using assms(1) by (simp_all add: ticking_def)
    have k1K: "k1 + length polls * (w + 2) \<le> K" using Cons.prems(1) k1(3) by simp
    have "k1 - 1 \<le> k1" "k1 \<le> K" using k1K by linarith+
    from monoD[OF mono this(1)] monoD[OF mono this(2)] have "(of_nat (T (k1 - 1)) :: u64) \<le> of_nat (T k1)" using top by (simp add: word_le_nat_alt unat_of_nat_small)
    from Cons.IH[OF k1K this, of s1] show ?thesis
      using k1(1,4) Ret by (auto split: outcome.splits)
  qed simp_all
qed simp

theorem frames_paced_witness:
  "\<exists>k' lf' s'. frame_loop 0 no_disk 1000 (\<lambda>k. of_nat k) (frame_delay \<lparr>heap_slack_bytes = 0, target_fps = 60, allow_backbuffer = 0\<rparr>)
     [\<lambda>i. i, \<lambda>i. i] ((5, 5), desk_example) = Ret ((k', lf'), s') \<and> 37 \<le> unat lf'"
proof -
  have t: "ticking 1000 (\<lambda>k. k) 3000" by (simp add: ticking_def mono_def)
  have d: "unat (frame_delay \<lparr>heap_slack_bytes = 0, target_fps = 60, allow_backbuffer = 0\<rparr>) = 16"
    by (simp add: frame_delay_def)
  have "tick_loop 0 no_disk [\<lambda>i. i, \<lambda>i. i] desk_example = Ret desk_example"
    by (simp add: desktop_tick_def desk_example_def desk_start_def)
  then show ?thesis
    using frames_paced[OF t, where k = 5 and polls = "[\<lambda>i. i, \<lambda>i. i]" and lf = 5 and fuel = 0 and dr = no_disk and
        s = desk_example and t = "\<lparr>heap_slack_bytes = 0, target_fps = 60, allow_backbuffer = 0\<rparr>"]
    by (auto simp: d)
qed

text \<open>
  The bitmap has a bit for every page, but the pages reserved for it are counted from the rounded-down
  number of bytes: with 1 to 7 pages above a multiple of 32768 its last byte lies in the first page
  that is handed out, the one \<open>VMM_Init\<close> clears and makes the root of the page tables.
\<close>

lemma bitmap_overlaps_first_page:
  assumes "unat m div 4096 = 32768 * j + r" "0 < j" "0 < r" "r < 8"
  shows "4096 * unat (bitmap_pages m) < length (bitmap (PMM_Init m b))"
proof -
  have l: "length (bitmap (PMM_Init m b)) = (unat m div 4096 + 7) div 8" by (rule length_Init_bitmap)
  have "unat m div 4096 < 2 ^ 52" using unat_lt_2p[of m] by (simp add: less_mult_imp_div_less)
  have "unat m div 4096 div 8 = 4096 * j" using assms by simp
  then have "unat (m div 4096 div 8) = 4096 * j" by (simp add: unat_div)
  moreover have "4096 * j < 2 ^ 49" using assms(1) \<open>unat m div 4096 < 2 ^ 52\<close> by simp
  ultimately have "unat (m div 4096 div 8 + 4095) = 4096 * j + 4095" by (subst unat_add_small) simp_all
  then have "unat ((m div 4096 div 8 + 4095) div 4096) = j" by (simp add: unat_div)
  then have "unat (bitmap_pages m) = j" using assms(2) by (auto simp: bitmap_pages_def Let_def)
  then show ?thesis using l assms by simp
qed

end
