(* ===== verification/Descriptors.thy ===== *)
theory Descriptors
  imports Prelude
begin

text \<open>
  The descriptor tables, \<open>src/kernel/cpu/gdt.c\<close> and \<open>idt.c\<close>. The addresses of the tables, of the
  interrupt stack and of the assembly stubs are parameters; the instructions that load the tables
  into the processor are left out.
\<close>

section \<open>Segments and the task state\<close>

record gdt_entry =
  Limit0 :: u16
  Base0 :: u16
  Base1 :: u8
  Access :: u8
  Limit1_Flags :: u8
  Base2 :: u8

record gdt =
  Null :: gdt_entry
  KernelCode :: gdt_entry
  KernelData :: gdt_entry
  UserCode :: gdt_entry
  UserData :: gdt_entry
  TSSLow :: gdt_entry
  TSSHigh :: u32
  TSSReserved :: u32

definition gdt_seg :: "u8 \<Rightarrow> u8 \<Rightarrow> gdt_entry" where
  "gdt_seg access fl = \<lparr>Limit0 = 0, Base0 = 0, Base1 = 0, Access = access, Limit1_Flags = fl, Base2 = 0\<rparr>"

definition DefaultGDT :: gdt where
  "DefaultGDT = \<lparr>Null = gdt_seg 0 0, KernelCode = gdt_seg 0x9a 0xa0, KernelData = gdt_seg 0x92 0xa0,
     UserCode = gdt_seg 0xfa 0xa0, UserData = gdt_seg 0xf2 0xa0, TSSLow = gdt_seg 0 0, TSSHigh = 0, TSSReserved = 0\<rparr>"

text \<open>The structure is aligned to a page, so that its size is a whole page.\<close>

record gdt_descriptor =
  Size :: u16
  Offset :: u64

definition sizeof_GDT :: nat where "sizeof_GDT = 4096"

definition SetupGDT :: "u64 \<Rightarrow> gdt_descriptor \<times> u16 \<times> u16" where
  "SetupGDT gdt_addr = (\<lparr>Size = of_nat sizeof_GDT - 1, Offset = gdt_addr\<rparr>, 0x08, 0x10)"

record tss64 =
  reserved0 :: u32
  rsp0 :: u64
  rsp1 :: u64
  rsp2 :: u64
  reserved1 :: u64
  ist1 :: u64
  ist2 :: u64
  ist3 :: u64
  ist4 :: u64
  ist5 :: u64
  ist6 :: u64
  ist7 :: u64
  reserved2 :: u64
  reserved3 :: u16
  iopb_offset :: u16

definition sizeof_TSS64 :: nat where "sizeof_TSS64 = 104"

definition zero_tss :: tss64 where
  "zero_tss = \<lparr>reserved0 = 0, rsp0 = 0, rsp1 = 0, rsp2 = 0, reserved1 = 0, ist1 = 0, ist2 = 0, ist3 = 0, ist4 = 0,
     ist5 = 0, ist6 = 0, ist7 = 0, reserved2 = 0, reserved3 = 0, iopb_offset = 0\<rparr>"

text \<open>\<open>tss\<close> is the address of \<open>g_tss\<close>, \<open>stack\<close> the end of \<open>g_ist1_stack\<close>.\<close>

definition TSS_Init :: "u64 \<Rightarrow> u64 \<Rightarrow> u64 \<Rightarrow> gdt \<Rightarrow> tss64 \<times> gdt" where
  "TSS_Init tss stack ist1_addr g =
     (let ist1_addr = (if ist1_addr = 0 then stack else ist1_addr);
          t = zero_tss\<lparr>ist1 := ist1_addr, iopb_offset := of_nat sizeof_TSS64\<rparr>;
          base = tss; limit = of_nat sizeof_TSS64 - 1 :: u32 in
      (t, g\<lparr>TSSLow := \<lparr>Limit0 = ucast (limit AND 0xFFFF), Base0 = ucast (base AND 0xFFFF),
              Base1 = ucast (drop_bit 16 base AND 0xFF), Access = 0x89,
              Limit1_Flags = ucast (drop_bit 16 limit AND 0x0F), Base2 = ucast (drop_bit 24 base AND 0xFF)\<rparr>,
            TSSHigh := ucast (drop_bit 32 base), TSSReserved := 0\<rparr>))"

definition TSS_Load :: "u64 \<Rightarrow> tss64 \<Rightarrow> tss64" where
  "TSS_Load sp t = t\<lparr>rsp0 := sp\<rparr>"

section \<open>Gates\<close>

record idt_entry =
  Offset0 :: u16
  Selector :: u16
  IST :: u8
  TypeAttributes :: u8
  Offset1 :: u16
  Offset2 :: u32
  Reserved :: u32

definition zero_gate :: idt_entry where
  "zero_gate = \<lparr>Offset0 = 0, Selector = 0, IST = 0, TypeAttributes = 0, Offset1 = 0, Offset2 = 0, Reserved = 0\<rparr>"

definition SetIDTGate :: "u8 \<Rightarrow> u64 \<Rightarrow> u8 \<Rightarrow> idt_entry list \<Rightarrow> idt_entry list" where
  "SetIDTGate vector handler type_attr idt =
     idt[unat vector := \<lparr>Offset0 = ucast handler, Selector = 0x08, IST = 0, TypeAttributes = type_attr,
       Offset1 = ucast (drop_bit 16 handler), Offset2 = ucast (drop_bit 32 handler), Reserved = 0\<rparr>]"

record idtr =
  Limit :: u16
  IDT_Offset :: u64

definition sizeof_idt :: nat where "sizeof_idt = 256 * 16"

definition idtr_value :: "u64 \<Rightarrow> idtr" where
  "idtr_value idt_addr = \<lparr>Limit = of_nat sizeof_idt - 1, IDT_Offset = idt_addr\<rparr>"

text \<open>The table before is all zero bytes; \<open>isr n\<close> is the address of \<open>isr<n>_stub\<close>.\<close>

definition SetupIDT :: "(nat \<Rightarrow> u64) \<Rightarrow> u64 \<Rightarrow> u64 \<Rightarrow> idt_entry list \<Rightarrow> idt_entry list" where
  "SetupIDT isr irq0_stub syscall_stub idt =
     SetIDTGate 0x80 syscall_stub 0xEE
       (SetIDTGate 32 irq0_stub 0x8E
         (fold (\<lambda>n. SetIDTGate (of_nat n) (isr n) 0x8E) [0..<32] idt))"

section \<open>What the processor reads\<close>

definition gate_offset :: "idt_entry \<Rightarrow> u64" where
  "gate_offset e = ucast (Offset0 e) OR push_bit 16 (ucast (Offset1 e)) OR push_bit 32 (ucast (Offset2 e))"

definition gate_present :: "idt_entry \<Rightarrow> bool" where
  "gate_present e \<longleftrightarrow> bit (TypeAttributes e) 7"

definition gate_dpl :: "idt_entry \<Rightarrow> nat" where
  "gate_dpl e = unat (drop_bit 5 (TypeAttributes e) AND 3)"

definition segment_base :: "gdt_entry \<Rightarrow> u32 \<Rightarrow> u64" where
  "segment_base e high = ucast (Base0 e) OR push_bit 16 (ucast (Base1 e)) OR push_bit 24 (ucast (Base2 e)) OR push_bit 32 (ucast high)"

text \<open>The entry a selector picks, for the five segments of the table.\<close>

definition gdt_at :: "gdt \<Rightarrow> u16 \<Rightarrow> gdt_entry" where
  "gdt_at g sel = [Null g, KernelCode g, KernelData g, UserCode g, UserData g, TSSLow g] ! (unat sel div 8)"

definition segment_dpl :: "gdt_entry \<Rightarrow> nat" where
  "segment_dpl e = unat (Access e) div 32 mod 4"

definition code_segment :: "gdt_entry \<Rightarrow> bool" where
  "code_segment e \<longleftrightarrow> unat (Access e) div 8 mod 4 = 3 \<and> unat (Access e) div 128 = 1"

lemma selectors:
  "code_segment (gdt_at DefaultGDT 0x08) \<and> segment_dpl (gdt_at DefaultGDT 0x08) = 0"
  "code_segment (gdt_at DefaultGDT 0x1B) \<and> segment_dpl (gdt_at DefaultGDT 0x1B) = 3"
  "\<not> code_segment (gdt_at DefaultGDT 0x10) \<and> segment_dpl (gdt_at DefaultGDT 0x10) = 0"
  "\<not> code_segment (gdt_at DefaultGDT 0x23) \<and> segment_dpl (gdt_at DefaultGDT 0x23) = 3"
  by (simp_all add: code_segment_def segment_dpl_def gdt_at_def DefaultGDT_def gdt_seg_def)

lemma split_64:
  "(ucast (ucast w :: u16) :: u64) OR push_bit 16 (ucast (ucast (drop_bit 16 w) :: u16)) OR push_bit 32 (ucast (ucast (drop_bit 32 w) :: u32)) = w" for w :: u64
proof (rule bit_word_eqI)
  fix n :: nat assume "n < LENGTH(64)"
  then consider "n < 16" | "16 \<le> n" "n < 32" | "32 \<le> n" "n < 64" by fastforce
  then show "bit ((ucast (ucast w :: u16) :: u64) OR push_bit 16 (ucast (ucast (drop_bit 16 w) :: u16)) OR
      push_bit 32 (ucast (ucast (drop_bit 32 w) :: u32))) n = bit w n"
    by cases (simp_all add: bit_simps less_diff_conv2)
qed

lemma gate_offset_set:
  "unat v < length idt \<Longrightarrow> gate_offset (SetIDTGate v h a idt ! unat v) = h"
  by (simp add: SetIDTGate_def gate_offset_def split_64)

text \<open>\<open>TSS_Init\<close> stores the address of the task state in the four pieces of the descriptor.\<close>

lemma tss_descriptor:
  "segment_base (TSSLow (snd (TSS_Init tss stack i g))) (TSSHigh (snd (TSS_Init tss stack i g))) = tss"
proof -
  have "(ucast (ucast (tss AND 0xFFFF) :: u16) :: u64) OR push_bit 16 (ucast (ucast (drop_bit 16 tss AND 0xFF) :: u8)) OR
      push_bit 24 (ucast (ucast (drop_bit 24 tss AND 0xFF) :: u8)) OR push_bit 32 (ucast (ucast (drop_bit 32 tss) :: u32)) = tss"
  proof -
    have m: "(0xFFFF :: u64) = mask 16" "(0xFF :: u64) = mask 8" by (simp_all add: mask_eq_exp_minus_1)
    show ?thesis unfolding m
    proof (rule bit_word_eqI)
      fix n :: nat assume "n < LENGTH(64)"
      then consider "n < 16" | "16 \<le> n" "n < 24" | "24 \<le> n" "n < 32" | "32 \<le> n" "n < 64" by fastforce
      then show "bit ((ucast (ucast (tss AND mask 16) :: u16) :: u64) OR push_bit 16 (ucast (ucast (drop_bit 16 tss AND mask 8) :: u8)) OR
          push_bit 24 (ucast (ucast (drop_bit 24 tss AND mask 8) :: u8)) OR push_bit 32 (ucast (ucast (drop_bit 32 tss) :: u32))) n = bit tss n"
        by cases (simp_all add: bit_simps less_diff_conv2)
    qed
  qed
  then show ?thesis by (simp add: TSS_Init_def Let_def segment_base_def)
qed

lemma length_SetIDTGate [simp]: "length (SetIDTGate v h a idt) = length idt"
  by (simp add: SetIDTGate_def)

lemma SetIDTGate_other: "i \<noteq> unat v \<Longrightarrow> SetIDTGate v h a idt ! i = idt ! i"
  by (simp add: SetIDTGate_def)

lemma SetIDTGate_here:
  "unat v < length idt \<Longrightarrow> TypeAttributes (SetIDTGate v h a idt ! unat v) = a \<and> gate_offset (SetIDTGate v h a idt ! unat v) = h \<and>
    IST (SetIDTGate v h a idt ! unat v) = 0"
  by (simp add: gate_offset_set) (simp add: SetIDTGate_def)

lemma fold_gates:
  assumes "m \<le> 32" "length idt = 256"
  shows "let t = fold (\<lambda>n. SetIDTGate (of_nat n) (isr n) 0x8E) [0..<m] idt in length t = 256 \<and>
    (\<forall>i < m. TypeAttributes (t ! i) = 0x8E \<and> gate_offset (t ! i) = isr i \<and> IST (t ! i) = 0) \<and> (\<forall>i \<ge> m. t ! i = idt ! i)"
  using assms(1)
proof (induction m)
  case 0
  then show ?case using assms(2) by simp
next
  case (Suc m)
  let ?t = "fold (\<lambda>n. SetIDTGate (of_nat n) (isr n) 0x8E) [0..<m] idt"
  have IH: "length ?t = 256" "\<forall>i < m. TypeAttributes (?t ! i) = 0x8E \<and> gate_offset (?t ! i) = isr i \<and> IST (?t ! i) = 0"
    "\<forall>i \<ge> m. ?t ! i = idt ! i"
    using Suc by (simp_all add: Let_def)
  have u: "unat (of_nat m :: u8) = m" using Suc.prems by (intro unat_of_nat_small) simp
  have "unat (of_nat m :: u8) < length ?t" unfolding u IH(1) using Suc.prems by simp
  note H = SetIDTGate_here[OF this, of "isr m" "0x8E", unfolded u]
  show ?case using IH H SetIDTGate_other[of _ "of_nat m" "isr m" "0x8E" ?t, unfolded u]
    by (auto simp: Let_def less_Suc_eq)
qed

section \<open>The interrupt table\<close>

lemma gate_8E: "bit (0x8E :: u8) 7" "unat (drop_bit 5 (0x8E :: u8) AND 3) = 0" "bit (0xEE :: u8) 7" "unat (drop_bit 5 (0xEE :: u8) AND 3) = 3"
  by (simp_all add: bit_iff_odd drop_bit_eq_div)

text \<open>
  After \<open>SetupIDT\<close> the exceptions, the timer and the system call have their stubs, no other vector is
  present, and ring 3 may call the system call only. No gate uses the interrupt stack of \<open>TSS_Init\<close>.
\<close>

lemma interrupt_table:
  assumes "t = SetupIDT isr irq0 sysc (replicate 256 zero_gate)" "v < 256"
  shows "gate_present (t ! v) \<longleftrightarrow> v \<le> 32 \<or> v = 0x80"
    "v \<le> 32 \<or> v = 0x80 \<Longrightarrow> gate_offset (t ! v) = (if v < 32 then isr v else if v = 32 then irq0 else sysc)"
    "gate_present (t ! v) \<Longrightarrow> gate_dpl (t ! v) = 3 \<longleftrightarrow> v = 0x80"
    "IST (t ! v) = 0"
proof -
  let ?a = "fold (\<lambda>n. SetIDTGate (of_nat n) (isr n) 0x8E) [0..<32] (replicate 256 zero_gate)"
  let ?b = "SetIDTGate 32 irq0 0x8E ?a"
  have a: "length ?a = 256" "\<forall>i < 32. TypeAttributes (?a ! i) = 0x8E \<and> gate_offset (?a ! i) = isr i \<and> IST (?a ! i) = 0"
    "\<forall>i \<ge> 32. i < 256 \<longrightarrow> ?a ! i = zero_gate"
    using fold_gates[of 32 "replicate 256 zero_gate" isr] by (simp_all add: Let_def)
  have b: "length ?b = 256" by (simp add: a(1))
  have t: "t = SetIDTGate 0x80 sysc 0xEE ?b" using assms(1) by (simp add: SetupIDT_def)
  have t80: "TypeAttributes (t ! 0x80) = 0xEE \<and> gate_offset (t ! 0x80) = sysc \<and> IST (t ! 0x80) = 0"
    using SetIDTGate_here[of "0x80" ?b sysc "0xEE"] b by (simp add: t)
  have b32: "TypeAttributes (?b ! 32) = 0x8E \<and> gate_offset (?b ! 32) = irq0 \<and> IST (?b ! 32) = 0"
    using SetIDTGate_here[of 32 ?a irq0 "0x8E"] a(1) by simp
  have tv: "t ! v = (if v = 32 then ?b ! 32 else ?a ! v)" if "v \<noteq> 0x80"
    using SetIDTGate_other[of v "0x80" sysc "0xEE" ?b] SetIDTGate_other[of v 32 irq0 "0x8E" ?a] that by (auto simp: t)
  have z: "TypeAttributes zero_gate = 0" "IST zero_gate = 0" by (simp_all add: zero_gate_def)
  consider "v < 32" | "v = 32" | "v = 0x80" | "32 < v" "v \<noteq> 0x80" by linarith
  then have "TypeAttributes (t ! v) = (if v \<le> 32 then 0x8E else if v = 0x80 then 0xEE else 0) \<and> IST (t ! v) = 0 \<and>
      (v \<le> 32 \<or> v = 0x80 \<longrightarrow> gate_offset (t ! v) = (if v < 32 then isr v else if v = 32 then irq0 else sysc))"
    using a(2,3) b32 t80 tv assms(2) z by cases auto
  then show "gate_present (t ! v) \<longleftrightarrow> v \<le> 32 \<or> v = 0x80"
    "v \<le> 32 \<or> v = 0x80 \<Longrightarrow> gate_offset (t ! v) = (if v < 32 then isr v else if v = 32 then irq0 else sysc)"
    "gate_present (t ! v) \<Longrightarrow> gate_dpl (t ! v) = 3 \<longleftrightarrow> v = 0x80" "IST (t ! v) = 0"
    using gate_8E by (auto simp: gate_present_def gate_dpl_def split: if_splits)
qed

end
