(* ===== verification/UserMode.thy ===== *)
theory UserMode
  imports Vmm Tasks Descriptors
begin

text \<open>
  User mode, \<open>src/kernel/core/usermode.c\<close>, and the system calls, \<open>syscall.c\<close>. Physical memory is
  in two parts: the page tables as cells (\<open>vm_mem\<close>) and the contents of the other frames as bytes
  (\<open>us_mem\<close>). The kernel writes to the user's addresses through the tables that CR3 points to; an
  address that is not mapped is a page fault, \<open>None\<close>.
\<close>

section \<open>Entering ring 3\<close>

record user =
  us_vm :: vmm
  us_mem :: "u64 \<Rightarrow> u8"
  us_tss :: tss64

definition translate :: "vmm \<Rightarrow> u64 \<Rightarrow> u64 option" where
  "translate s va = map_option (\<lambda>e. table_of e + (va AND 0xFFF)) (walk (vm_mem s) (vm_cr3 s) va)"

fun mem_copy :: "u64 \<Rightarrow> u8 list \<Rightarrow> user \<Rightarrow> user option" where
  "mem_copy dst [] s = Some s"
| "mem_copy dst (b # bs) s =
     (case translate (us_vm s) dst of
        None \<Rightarrow> None
      | Some p \<Rightarrow> mem_copy (dst + 1) bs (s\<lparr>us_mem := (us_mem s)(p := b)\<rparr>))"

definition user_code_va :: u64 where "user_code_va = 0x40000000"
definition user_data_va :: u64 where "user_data_va = 0x40001000"
definition user_stack_va :: u64 where "user_stack_va = 0x40002000"

definition user_msg :: "u8 list" where
  "user_msg = map (of_char :: char \<Rightarrow> u8) ''hello from ring3'' @ [10]"

definition user_prog :: "u8 list" where
  "user_prog =
     [0x66, 0xB8, 0x23, 0x00, 0x8E, 0xD8, 0x8E, 0xC0, 0x8E, 0xE0, 0x8E, 0xE8,
      0x48, 0xC7, 0xC0, 0x01, 0x00, 0x00, 0x00, 0x48, 0xBF] @ le64 user_data_va @
     [0x48, 0xBE] @ le64 17 @ [0xCD, 0x80] @
     [0x48, 0xC7, 0xC0, 0x00, 0x00, 0x00, 0x00] @ [0xCD, 0x80]"

definition alloc_page :: "user \<Rightarrow> u64 \<times> user" where
  "alloc_page s = (let (a, p) = PMM_AllocatePage (vm_pmm (us_vm s)) in (a, s\<lparr>us_vm := (us_vm s)\<lparr>vm_pmm := p\<rparr>\<rparr>))"

definition map_page :: "u64 \<Rightarrow> u64 \<Rightarrow> u64 \<Rightarrow> user \<Rightarrow> user" where
  "map_page v p flags s = s\<lparr>us_vm := VMM_MapPage v p flags (us_vm s)\<rparr>"

text \<open>
  The function returns when memory is short; otherwise it leaves with \<open>iretq\<close>, which takes the
  new rip, cs, rflags, rsp and ss from the five words pushed.
\<close>

datatype launch = Launch_failed | Ring3 "u64 list"

definition usermode_launch :: "user \<Rightarrow> (launch \<times> user) option" where
  "usermode_launch s =
     (let (code_pa, s) = alloc_page s; (data_pa, s) = alloc_page s; (stack_pa, s) = alloc_page s in
      if code_pa = 0 \<or> data_pa = 0 \<or> stack_pa = 0 then Some (Launch_failed, s)
      else
        let s = map_page user_code_va code_pa (PAGE_USER OR PAGE_WRITE) s;
            s = map_page user_data_va data_pa (PAGE_USER OR PAGE_WRITE) s;
            s = map_page user_stack_va stack_pa (PAGE_USER OR PAGE_WRITE) s in
        case mem_copy user_data_va user_msg s of
          None \<Rightarrow> None
        | Some s \<Rightarrow>
            case mem_copy user_code_va user_prog s of
              None \<Rightarrow> None
            | Some s \<Rightarrow>
                let (kstack, s) = alloc_page s in
                if kstack = 0 then Some (Launch_failed, s)
                else
                  let s = map_page kstack kstack PAGE_WRITE s;
                      s = s\<lparr>us_tss := TSS_Load (kstack + 4096) (us_tss s)\<rparr> in
                  Some (Ring3 [user_code_va, 0x1B, 0x202, user_stack_va + 4096, 0x23], s))"

section \<open>System calls\<close>

text \<open>
  The interrupt frame; \<open>mem\<close> is memory as the kernel reads it.
  The result has the characters that reach the serial line, where \<open>serial_print\<close> stops at a zero byte.
  \<open>sys_exit\<close> does not come back when no other task is left.
\<close>

record regs =
  r_r15 :: u64
  r_r14 :: u64
  r_r13 :: u64
  r_r12 :: u64
  r_r11 :: u64
  r_r10 :: u64
  r_r9 :: u64
  r_r8 :: u64
  r_rbp :: u64
  r_rdi :: u64
  r_rsi :: u64
  r_rdx :: u64
  r_rcx :: u64
  r_rbx :: u64
  r_rax :: u64
  r_rip :: u64
  r_cs :: u64
  r_rflags :: u64
  r_rsp :: u64
  r_ss :: u64

definition sys_write_user :: "(u64 \<Rightarrow> u8) \<Rightarrow> u64 \<Rightarrow> u64 \<Rightarrow> u8 list" where
  "sys_write_user mem s n =
     (if s = 0 then []
      else let maxn = (if n > 4096 then 4096 else n) in
        List.filter (\<lambda>c. c \<noteq> 0) (map (\<lambda>i. mem (s + of_nat i)) [0..<unat maxn]))"

text \<open>The last component is what the handler prints.\<close>

datatype sys_result = Resume u64 regs sched "u8 list" | Halted "u8 list"

definition exit_msg :: "u8 list" where
  "exit_msg = map (of_char :: char \<Rightarrow> u8) ''[USERMODE] exiting ring3'' @ [10]"

definition syscall_handler :: "(u64 \<Rightarrow> u8) \<Rightarrow> u64 \<Rightarrow> regs \<Rightarrow> sched \<Rightarrow> sys_result" where
  "syscall_handler mem rsp f s =
     (let num = r_rax f in
      if num = 0 then
        (case Task_Exit s of None \<Rightarrow> Halted exit_msg | Some (rsp', s') \<Rightarrow> Resume rsp' f s' exit_msg)
      else if num = 1 then Resume rsp (f\<lparr>r_rax := 0\<rparr>) s (sys_write_user mem (r_rdi f) (r_rsi f))
      else Resume rsp (f\<lparr>r_rax := - 1\<rparr>) s [])"

end
