(* ===== verification/UserModeSpec.thy ===== *)
theory UserModeSpec
  imports UserMode KernelMainSpec
begin

text \<open>
  Ring 3 gets its three pages and nothing else: after \<open>usermode_launch\<close> the processor's walk with
  the user bit required at every level reaches exactly these pages, which hold the program and its
  message. System calls return to the caller with the documented results.
\<close>

section \<open>The walk of a user access\<close>

fun user_table :: "(u64 \<Rightarrow> u64) \<Rightarrow> u64 \<Rightarrow> nat list \<Rightarrow> u64 option" where
  "user_table m t [] = Some t"
| "user_table m t (i # is) =
     (let e = m (entry t i) in
      if e AND PAGE_PRESENT = 0 \<or> e AND PAGE_USER = 0 then None else user_table m (table_of e) is)"

definition user_walk :: "(u64 \<Rightarrow> u64) \<Rightarrow> u64 \<Rightarrow> u64 \<Rightarrow> u64 option" where
  "user_walk m root v =
     (case user_table m root (vpath v) of
        None \<Rightarrow> None
      | Some pt \<Rightarrow> let e = m (entry pt (vidx 12 v)) in
          if e AND PAGE_PRESENT = 0 \<or> e AND PAGE_USER = 0 then None else Some (table_of e))"

lemma user_table_imp: "user_table m t q = Some a \<Longrightarrow> table_at m t q = Some a"
  by (induction m t q rule: user_table.induct) (auto simp: Let_def split: if_splits)

lemma user_table_append:
  "user_table m r (xs @ ys) = (case user_table m r xs of None \<Rightarrow> None | Some a \<Rightarrow> user_table m a ys)"
  by (induction m r xs rule: user_table.induct) (auto simp: Let_def)

lemma user_walk_leaf:
  "user_walk m r v = Some a \<Longrightarrow> \<exists>e. walk m r v = Some e \<and> e AND PAGE_USER \<noteq> 0 \<and> a = table_of e"
  by (auto simp: user_walk_def walk_def Let_def user_table_imp split: option.splits if_splits)

text \<open>No entry that leads to a table is lost, redirected or closed to the user.\<close>

definition user_keeps :: "(u64 \<Rightarrow> u64) \<Rightarrow> (u64 \<Rightarrow> u64) \<Rightarrow> u64 \<Rightarrow> bool" where
  "user_keeps m m' r \<longleftrightarrow> (\<forall>q \<in> paths. \<forall>a j. length q < 3 \<longrightarrow> table_at m r q = Some a \<longrightarrow> j < 512 \<longrightarrow>
     m (entry a j) AND PAGE_PRESENT \<noteq> 0 \<longrightarrow>
     m' (entry a j) AND PAGE_PRESENT \<noteq> 0 \<and> table_of (m' (entry a j)) = table_of (m (entry a j)) \<and>
     (m (entry a j) AND PAGE_USER \<noteq> 0 \<longrightarrow> m' (entry a j) AND PAGE_USER \<noteq> 0))"

lemma user_keeps_table:
  assumes "user_keeps m m' r" "q \<in> paths"
  shows "(table_at m r q = Some a \<longrightarrow> table_at m' r q = Some a) \<and> (user_table m r q = Some a \<longrightarrow> user_table m' r q = Some a)"
  using assms(2)
proof (induction q arbitrary: a rule: rev_induct)
  case (snoc j q)
  have q: "q \<in> paths" "length q < 3" "j < 512" using paths_prefix[of q j "[]"] snoc.prems by auto
  show ?case
  proof (cases "table_at m r q")
    case None
    then have "user_table m r q = None" by (cases "user_table m r q") (auto dest: user_table_imp)
    then show ?thesis using None by (simp add: table_at_append user_table_append)
  next
    case (Some b)
    then have b': "table_at m' r q = Some b" "user_table m r q = Some b \<longrightarrow> user_table m' r q = Some b" using snoc.IH[OF q(1)] by blast+
    have "m (entry b j) AND PAGE_PRESENT \<noteq> 0 \<longrightarrow> m' (entry b j) AND PAGE_PRESENT \<noteq> 0 \<and>
        table_of (m' (entry b j)) = table_of (m (entry b j)) \<and> (m (entry b j) AND PAGE_USER \<noteq> 0 \<longrightarrow> m' (entry b j) AND PAGE_USER \<noteq> 0)"
      using assms(1) q Some unfolding user_keeps_def by blast
    moreover have "user_table m r q = None \<or> user_table m r q = Some b"
      using user_table_imp[of m r q] Some by (cases "user_table m r q") auto
    ultimately show ?thesis
      using Some b' by (auto simp: table_at_append user_table_append Let_def split: if_splits)
  qed
qed simp

lemma user_keeps_trans:
  assumes "user_keeps m m' r" "user_keeps m' m'' r"
  shows "user_keeps m m'' r"
  unfolding user_keeps_def
proof (intro ballI allI impI)
  fix q a j assume q: "q \<in> paths" "length q < 3" "table_at m r q = Some a" "j < 512" "m (entry a j) AND PAGE_PRESENT \<noteq> 0"
  then have "table_at m' r q = Some a" using user_keeps_table[OF assms(1)] by blast
  then show "m'' (entry a j) AND PAGE_PRESENT \<noteq> 0 \<and> table_of (m'' (entry a j)) = table_of (m (entry a j)) \<and>
      (m (entry a j) AND PAGE_USER \<noteq> 0 \<longrightarrow> m'' (entry a j) AND PAGE_USER \<noteq> 0)"
    using q assms unfolding user_keeps_def by metis
qed

lemma user_keeps_refl: "user_keeps m m r"
  by (simp add: user_keeps_def)

section \<open>A mapping keeps and extends what the user reaches\<close>

lemma user_bit: "e AND PAGE_USER \<noteq> 0 \<longleftrightarrow> bit e 2"
proof -
  have "PAGE_USER = push_bit 2 1" by (simp add: PAGE_USER_def)
  then show ?thesis by (simp only: bit_iff_and_push_bit_not_eq_0)
qed

lemma descend_user:
  assumes wf: "vmm_wf s" and p: "p @ [i] \<in> paths" "table_at (vm_mem s) (kernel_pml4 s) p = Some t"
    and av: "0 < card (available (vm_pmm s))" and d: "vmm_descend fl (map_flags fl) t i s = (t', s')"
  shows "user_keeps (vm_mem s) (vm_mem s') (kernel_pml4 s)"
    "fl AND PAGE_USER \<noteq> 0 \<Longrightarrow> vm_mem s' (entry t i) AND PAGE_USER \<noteq> 0"
proof -
  let ?m = "vm_mem s" and ?r = "kernel_pml4 s" and ?e = "entry t i"
  have pp: "p \<in> paths" "i < 512" "length p < 3" using p(1) by (auto simp: paths_def)
  have "user_keeps ?m (vm_mem s') ?r \<and> (fl AND PAGE_USER \<noteq> 0 \<longrightarrow> vm_mem s' ?e AND PAGE_USER \<noteq> 0)"
  proof (cases "?m ?e AND PAGE_PRESENT = 0")
    case False
    then have "vm_mem s' = ?m(?e := if fl AND PAGE_USER \<noteq> 0 then ?m ?e OR PAGE_USER else ?m ?e)"
      using d by (auto simp: vmm_descend_def Let_def split: if_splits)
    moreover have "PAGE_USER \<noteq> 0" by (simp add: PAGE_USER_def)
    ultimately show ?thesis by (auto simp: user_keeps_def user_bit present_bit bit_or_iff)
  next
    case True
    obtain n P' where al: "PMM_AllocatePage (vm_pmm s) = (n, P')" by fastforce
    have pwf: "pmm_wf (vm_pmm s)" using wf by (simp add: vmm_wf_def)
    have ne: "available (vm_pmm s) \<noteq> {}" using av by auto
    have n: "n \<in> available (vm_pmm s)" using pmm.alloc_avail[OF pwf ne] al by simp
    have n0: "unat n mod 4096 = 0" using pmm.frames_aligned[OF pwf] pmm.avail_frames[OF pwf] n by blast
    have m': "vm_mem s' = (clear_page n ?m)(?e := n OR map_flags fl)"
      using d True al by (auto simp: vmm_descend_def)
    have "vm_mem s' (entry a j) = ?m (entry a j)"
      if q: "q \<in> paths" "table_at ?m ?r q = Some a" "j < 512" "?m (entry a j) AND PAGE_PRESENT \<noteq> 0" for q a j
    proof -
      note a = vmm_wf_table[OF wf q(1,2)]
      have "entry a j \<noteq> ?e" using q(4) True by auto
      moreover have "a \<noteq> n" using a(2) n by auto
      ultimately show ?thesis using entry_other_page[OF a(3) n0 _ q(3)] by (simp add: m')
    qed
    moreover have "fl AND PAGE_USER \<noteq> 0 \<longrightarrow> vm_mem s' ?e AND PAGE_USER \<noteq> 0"
      by (simp add: m' user_bit bit_or_iff map_flags_def)
    ultimately show ?thesis by (simp add: user_keeps_def)
  qed
  then show "user_keeps ?m (vm_mem s') ?r" "fl AND PAGE_USER \<noteq> 0 \<Longrightarrow> vm_mem s' ?e AND PAGE_USER \<noteq> 0" by blast+
qed

lemma user_table_snoc:
  assumes "user_table m r q = Some t" "table_at m r (q @ [i]) = Some a" "m (entry t i) AND PAGE_USER \<noteq> 0"
  shows "user_table m r (q @ [i]) = Some a"
  using assms user_table_imp[OF assms(1)] by (auto simp: user_table_append table_at_append Let_def split: if_splits)

lemma MapPage_user:
  assumes wf: "vmm_wf s" and av: "3 \<le> card (available (vm_pmm s))"
  shows "user_keeps (vm_mem s) (vm_mem (VMM_MapPage v p fl s)) (kernel_pml4 s)"
      "fl AND PAGE_USER \<noteq> 0 \<Longrightarrow> user_table (vm_mem (VMM_MapPage v p fl s)) (kernel_pml4 s) (vpath v) \<noteq> None"
    "available (vm_pmm (VMM_MapPage v p fl s)) \<subseteq> available (vm_pmm s)" "vm_cr3 (VMM_MapPage v p fl s) = vm_cr3 s"
    "q \<in> paths \<Longrightarrow> table_at (vm_mem (VMM_MapPage v p fl s)) (kernel_pml4 s) q = Some a \<Longrightarrow>
       table_at (vm_mem s) (kernel_pml4 s) q = Some a \<or> a \<in> available (vm_pmm s)"
proof -
  let ?tf = "map_flags fl" and ?r = "kernel_pml4 s"
  obtain pdp s1 where d1: "vmm_descend fl ?tf ?r (vidx 39 v) s = (pdp, s1)" by fastforce
  obtain pd s2 where d2: "vmm_descend fl ?tf pdp (vidx 30 v) s1 = (pd, s2)" by fastforce
  obtain pt s3 where d3: "vmm_descend fl ?tf pd (vidx 21 v) s2 = (pt, s3)" by fastforce
  have ps: "[] @ [vidx 39 v] \<in> paths" "[vidx 39 v] @ [vidx 30 v] \<in> paths" "[vidx 39 v, vidx 30 v] @ [vidx 21 v] \<in> paths"
    "[vidx 39 v] \<in> paths" "[vidx 39 v, vidx 30 v] \<in> paths"
    by (auto simp: paths_def)
  have t0: "table_at (vm_mem s) ?r [] = Some ?r" by simp
  have c: "0 < card (available (vm_pmm s))" using av by simp
  have 1: "descends s ([] @ [vidx 39 v]) pdp s1" by (rule descend_map[OF wf ps(1) t0 c d1])
  note D1 = descendsD[OF 1]
  have t1: "table_at (vm_mem s1) (kernel_pml4 s1) [vidx 39 v] = Some pdp" using D1(3) by (simp del: table_at.simps)
  have c1: "0 < card (available (vm_pmm s1))" using av D1(4) by simp
  have 2: "descends s1 ([vidx 39 v] @ [vidx 30 v]) pd s2" by (rule descend_map[OF D1(1) ps(2) t1 c1 d2])
  note D2 = descendsD[OF 2]
  have t2: "table_at (vm_mem s2) (kernel_pml4 s2) [vidx 39 v, vidx 30 v] = Some pd" using D2(3) by (simp del: table_at.simps)
  have c2: "0 < card (available (vm_pmm s2))" using av D1(4) D2(4) by simp
  have 3: "descends s2 ([vidx 39 v, vidx 30 v] @ [vidx 21 v]) pt s3" by (rule descend_map[OF D2(1) ps(3) t2 c2 d3])
  note D3 = descendsD[OF 3]
  have r: "kernel_pml4 s1 = ?r" "kernel_pml4 s2 = ?r" "kernel_pml4 s3 = ?r" using D1(2) D2(2) D3(2) by simp_all
  have path: "[vidx 39 v, vidx 30 v] @ [vidx 21 v] = vpath v" by (simp add: vpath_def)
  have t3: "table_at (vm_mem s3) (kernel_pml4 s3) (vpath v) = Some pt" using D3(3) unfolding path .
  note u1 = descend_user[OF wf ps(1) t0 c d1]
  note u2 = descend_user[OF D1(1) ps(2) t1 c1 d2, unfolded r]
  note u3 = descend_user[OF D2(1) ps(3) t2 c2 d3, unfolded r]
  let ?e = "entry pt (vidx 12 v)" and ?m' = "vm_mem (VMM_MapPage v p fl s)"
  have m': "?m' = (vm_mem s3)(?e := p OR fl OR PAGE_PRESENT)"
    using d1 d2 d3 by (simp add: VMM_MapPage_def map_flags_def[symmetric] Let_def)
  have leaf: "user_keeps (vm_mem s3) ?m' ?r"
    unfolding user_keeps_def m'
  proof (intro ballI allI impI)
    fix q a j assume q: "q \<in> paths" "length q < 3" "table_at (vm_mem s3) ?r q = Some a" "j < 512" "vm_mem s3 (entry a j) AND PAGE_PRESENT \<noteq> 0"
    have "q \<noteq> vpath v" using q(2) by auto
    then have "entry a j \<noteq> ?e" using leaf_apart[OF D3(1) t3 q(1), unfolded r, OF q(3,4)] by blast
    then show "((vm_mem s3)(?e := p OR fl OR PAGE_PRESENT)) (entry a j) AND PAGE_PRESENT \<noteq> 0 \<and>
        table_of (((vm_mem s3)(?e := p OR fl OR PAGE_PRESENT)) (entry a j)) = table_of (vm_mem s3 (entry a j)) \<and>
        (vm_mem s3 (entry a j) AND PAGE_USER \<noteq> 0 \<longrightarrow> ((vm_mem s3)(?e := p OR fl OR PAGE_PRESENT)) (entry a j) AND PAGE_USER \<noteq> 0)"
      using q(5) by simp
  qed
  have av1: "available (vm_pmm s1) \<subseteq> available (vm_pmm s)" "available (vm_pmm s2) \<subseteq> available (vm_pmm s)"
    "available (vm_pmm s3) \<subseteq> available (vm_pmm s)"
    using D1(7) D2(7) D3(7) by blast+
  have pm: "vm_pmm (VMM_MapPage v p fl s) = vm_pmm s3"
    using d1 d2 d3 by (simp add: VMM_MapPage_def map_flags_def[symmetric] Let_def)
  show "available (vm_pmm (VMM_MapPage v p fl s)) \<subseteq> available (vm_pmm s)" unfolding pm by (rule av1(3))
  show "vm_cr3 (VMM_MapPage v p fl s) = vm_cr3 s" by (simp add: VMM_MapPage_def Let_def split_beta vmm_descend_def)
  show "table_at (vm_mem s) ?r q = Some a \<or> a \<in> available (vm_pmm s)"
    if q: "q \<in> paths" "table_at ?m' ?r q = Some a" for q a
  proof -
    have "table_at (vm_mem s3) (kernel_pml4 s3) q = Some a"
      using leaf_tables[OF D3(1) t3 q(1), unfolded r] q(2) unfolding m' r by simp
    then have "table_at (vm_mem s2) (kernel_pml4 s2) q = Some a \<or> a \<in> available (vm_pmm s2)" by (rule D3(8)[OF q(1)])
    then have "table_at (vm_mem s1) (kernel_pml4 s1) q = Some a \<or> a \<in> available (vm_pmm s)" using D2(8)[OF q(1)] av1(1,2) by blast
    then show ?thesis using D1(8)[OF q(1)] by blast
  qed
  show "user_keeps (vm_mem s) ?m' ?r"
    using u1(1) u2(1) u3(1) leaf user_keeps_trans by metis
  assume fl: "fl AND PAGE_USER \<noteq> 0"
  have "user_table (vm_mem s1) ?r ([] @ [vidx 39 v]) = Some pdp"
    using D1(3) u1(2)[OF fl] r by (intro user_table_snoc) simp_all
  then have "user_table (vm_mem s2) ?r [vidx 39 v] = Some pdp"
    using user_keeps_table[OF u2(1) ps(4)] by simp
  then have "user_table (vm_mem s2) ?r ([vidx 39 v] @ [vidx 30 v]) = Some pd"
    using D2(3) u2(2)[OF fl] r by (intro user_table_snoc) simp_all
  then have "user_table (vm_mem s3) ?r [vidx 39 v, vidx 30 v] = Some pd"
    using user_keeps_table[OF u3(1) ps(5)] by simp
  then have "user_table (vm_mem s3) ?r (vpath v) = Some pt"
    using D3(3) u3(2)[OF fl] r unfolding path[symmetric] by (intro user_table_snoc) simp_all
  then show "user_table ?m' ?r (vpath v) \<noteq> None" using user_keeps_table[OF leaf vpath_paths(1)] by auto
qed

section \<open>Copying to a mapped page\<close>

fun put_list :: "(u64 \<Rightarrow> u8) \<Rightarrow> u64 \<Rightarrow> u8 list \<Rightarrow> (u64 \<Rightarrow> u8)" where
  "put_list m p [] = m"
| "put_list m p (b # bs) = put_list (m(p := b)) (p + 1) bs"

lemma put_list_other: "(\<forall>i < length bs. a \<noteq> p + of_nat i) \<Longrightarrow> put_list m p bs a = m a"
proof (induction bs arbitrary: m p)
  case (Cons b bs)
  have "a \<noteq> p + 1 + of_nat i" if "i < length bs" for i
    using Cons.prems[rule_format, of "Suc i"] that by (simp add: add.assoc)
  then have "put_list (m(p := b)) (p + 1) bs a = (m(p := b)) a" by (intro Cons.IH) blast
  moreover have "a \<noteq> p" using Cons.prems[rule_format, of 0] by simp
  ultimately show ?case by simp
qed simp

lemma put_list_here:
  "length bs \<le> 2 ^ 32 \<Longrightarrow> i < length bs \<Longrightarrow> put_list m p bs (p + of_nat i) = bs ! i"
proof (induction bs arbitrary: m p i)
  case (Cons b bs)
  show ?case
  proof (cases i)
    case 0
    have "(p :: u64) \<noteq> p + 1 + of_nat j" if "j < length bs" for j
    proof
      assume "p = p + 1 + of_nat j"
      then have "(of_nat (Suc j) :: u64) = 0" by (simp add: add.assoc)
      moreover have "unat (of_nat (Suc j) :: u64) = Suc j" using that Cons.prems(1) by (intro unat_of_nat_small) simp
      ultimately show False by simp
    qed
    then have "put_list (m(p := b)) (p + 1) bs p = b" by (subst put_list_other) auto
    then show ?thesis using 0 by simp
  next
    case (Suc j)
    then have "p + of_nat i = p + 1 + of_nat j" by simp
    moreover have "put_list (m(p := b)) (p + 1) bs (p + 1 + of_nat j) = bs ! j" using Cons.prems Suc by (intro Cons.IH) simp_all
    ultimately have "put_list (m(p := b)) (p + 1) bs (p + of_nat i) = bs ! j" by (simp only:)
    then show ?thesis using Suc by (simp only: put_list.simps nth_Cons_Suc)
  qed
qed simp

lemma bytes_at_put_list: "length bs \<le> 2 ^ 32 \<Longrightarrow> bytes_at (put_list m p bs) p (length bs) = bs"
  by (rule nth_equalityI) (simp_all add: bytes_at_def put_list_here)

lemma same_page_div: "unat v div 4096 = unat w div 4096 \<Longrightarrow> same_page v w"
proof -
  assume "unat v div 4096 = unat w div 4096"
  then have d: "drop_bit 12 v = drop_bit 12 w" by (simp add: drop_bit_eq_div word_unat_eq_iff unat_div)
  have "drop_bit (m + 12) v = drop_bit (m + 12) w" for m
    using arg_cong[OF d, of "drop_bit m"] by simp
  from this[of 27] this[of 18] this[of 9] d show ?thesis by (simp add: same_page_def vpath_def vidx_def)
qed

lemma same_page_walk: "same_page v w \<Longrightarrow> walk m r v = walk m r w"
  unfolding same_page_def walk_def by (elim conjE) (simp only:)

lemma page_offset:
  assumes "unat va mod 4096 = 0" "i < 4096"
  shows "same_page va (va + of_nat i)" "(va + of_nat i) AND 0xFFF = (of_nat i :: u64)"
proof -
  have i: "unat (of_nat i :: u64) = i" using assms(2) by (intro unat_of_nat_small) simp
  obtain k where k: "unat va = 4096 * k" using assms(1) by auto
  then have "k < 2 ^ 52" using unat_lt_2p[of va] by simp
  then have "unat va + i < 2 ^ 64" using assms(2) k by simp
  then have u: "unat (va + of_nat i) = unat va + i" using i by (subst unat_add_small) simp_all
  have "(unat va + i) div 4096 = unat va div 4096 \<and> (unat va + i) mod 4096 = i" using assms(2) k by simp
  then show "same_page va (va + of_nat i)" using u by (intro same_page_div) simp
  have m: "(0xFFF :: u64) = mask 12" by (simp add: mask_eq_exp_minus_1)
  have "unat ((va + of_nat i) AND mask 12) = (unat va + i) mod 4096"
    using u by (simp add: take_bit_eq_mod unat_mod flip: take_bit_eq_mask)
  then show "(va + of_nat i) AND 0xFFF = (of_nat i :: u64)"
    unfolding m using i \<open>(unat va + i) div 4096 = unat va div 4096 \<and> (unat va + i) mod 4096 = i\<close> by (simp add: word_unat_eq_iff)
qed

lemma mem_copy_page:
  assumes "unat va mod 4096 = 0" "walk (vm_mem (us_vm s)) (vm_cr3 (us_vm s)) va = Some e"
  shows "i + length bs \<le> 4096 \<Longrightarrow> mem_copy (va + of_nat i) bs s = Some (s\<lparr>us_mem := put_list (us_mem s) (table_of e + of_nat i) bs\<rparr>)"
  using assms(2)
proof (induction bs arbitrary: i s)
  case (Cons b bs)
  note P = page_offset[OF assms(1), of i]
  have "walk (vm_mem (us_vm s)) (vm_cr3 (us_vm s)) (va + of_nat i) = Some e"
    using same_page_walk[OF P(1), of "vm_mem (us_vm s)" "vm_cr3 (us_vm s)"] Cons.prems by simp
  then have t: "translate (us_vm s) (va + of_nat i) = Some (table_of e + of_nat i)" using P(2) Cons.prems by (simp add: translate_def)
  let ?s = "s\<lparr>us_mem := (us_mem s)(table_of e + of_nat i := b)\<rparr>"
  have "mem_copy (va + of_nat (Suc i)) bs ?s = Some (?s\<lparr>us_mem := put_list (us_mem ?s) (table_of e + of_nat (Suc i)) bs\<rparr>)"
    using Cons.prems by (intro Cons.IH) simp_all
  then show ?case using t by (simp add: add.assoc add.commute[of 1])
qed simp

section \<open>The launch\<close>

text \<open>\<open>F\<close> are the frames taken so far; \<open>n\<close> frames are left.\<close>

definition user_state :: "user \<Rightarrow> u64 set \<Rightarrow> nat \<Rightarrow> bool" where
  "user_state s F n \<longleftrightarrow> vmm_wf (us_vm s) \<and> vm_cr3 (us_vm s) = kernel_pml4 (us_vm s) \<and>
     n \<le> card (available (vm_pmm (us_vm s))) \<and> F \<inter> available (vm_pmm (us_vm s)) = {} \<and>
     (\<forall>q \<in> paths. \<forall>a \<in> F. table_at (vm_mem (us_vm s)) (kernel_pml4 (us_vm s)) q \<noteq> Some a)"

lemma alloc_user:
  assumes "user_state s F (Suc n)"
  obtains a t where "alloc_page s = (a, t)" "a \<noteq> 0" "unat a mod 4096 = 0" "a \<in> available (vm_pmm (us_vm s))" "a \<notin> F"
    "user_state t (insert a F) n" "vm_mem (us_vm t) = vm_mem (us_vm s)" "kernel_pml4 (us_vm t) = kernel_pml4 (us_vm s)"
    "us_mem t = us_mem s" "us_tss t = us_tss s" "available (vm_pmm (us_vm t)) \<subseteq> available (vm_pmm (us_vm s))"
proof -
  let ?P = "vm_pmm (us_vm s)"
  obtain a P' where al: "PMM_AllocatePage ?P = (a, P')" by fastforce
  have u: "vmm_wf (us_vm s)" "vm_cr3 (us_vm s) = kernel_pml4 (us_vm s)" "Suc n \<le> card (available ?P)" "F \<inter> available ?P = {}"
    "\<forall>q \<in> paths. \<forall>b \<in> F. table_at (vm_mem (us_vm s)) (kernel_pml4 (us_vm s)) q \<noteq> Some b"
    using assms by (simp_all add: user_state_def)
  have wf: "pmm_wf ?P" using u(1) by (simp add: vmm_wf_def)
  have ne: "available ?P \<noteq> {}" using u(3) by auto
  have a: "a \<in> available ?P" "available P' = available ?P - {a}" "managed P' = managed ?P" "pmm_wf P'"
    using pmm.alloc_avail[OF wf ne] pmm.avail_alloc[OF wf] pmm.frames_alloc[OF wf] pmm.inv_alloc[OF wf] al by auto
  have fin: "finite (available ?P)" using pmm.avail_frames[OF wf] pmm.finite_frames[OF wf] finite_subset by blast
  have "card (available ?P) = Suc (card (available P'))" using card.remove[OF fin a(1)] by (simp only: a(2))
  then have n: "n \<le> card (available P')" using u(3) by simp
  let ?t = "s\<lparr>us_vm := (us_vm s)\<lparr>vm_pmm := P'\<rparr>\<rparr>"
  have nt: "table_at (vm_mem (us_vm s)) (kernel_pml4 (us_vm s)) q \<noteq> Some a" if "q \<in> paths" for q
    using u(1) a(1) that by (auto simp: vmm_wf_def)
  have "vmm_wf ((us_vm s)\<lparr>vm_pmm := P'\<rparr>)" using u(1) a(2-4) by (simp add: vmm_wf_def)
  then have "user_state ?t (insert a F) n"
    using u(2,4,5) n a(2) nt by (auto simp: user_state_def)
  moreover have "alloc_page s = (a, ?t)" using al by (simp add: alloc_page_def)
  ultimately show thesis
    using a(1,2) u(4) pmm.frames_aligned[OF wf] pmm.avail_frames[OF wf] by (intro that[of a ?t]) auto
qed

lemma map_user:
  assumes "user_state s F (n + 3)"
  shows "user_state (map_page v p fl s) F n"
    "walk (vm_mem (us_vm (map_page v p fl s))) (kernel_pml4 (us_vm s)) w =
       (if same_page v w then Some (p OR fl OR PAGE_PRESENT) else walk (vm_mem (us_vm s)) (kernel_pml4 (us_vm s)) w)"
    "user_keeps (vm_mem (us_vm s)) (vm_mem (us_vm (map_page v p fl s))) (kernel_pml4 (us_vm s))"
    "fl AND PAGE_USER \<noteq> 0 \<Longrightarrow> user_table (vm_mem (us_vm (map_page v p fl s))) (kernel_pml4 (us_vm s)) (vpath v) \<noteq> None"
    "kernel_pml4 (us_vm (map_page v p fl s)) = kernel_pml4 (us_vm s)"
    "us_mem (map_page v p fl s) = us_mem s" "us_tss (map_page v p fl s) = us_tss s"
    "available (vm_pmm (us_vm (map_page v p fl s))) \<subseteq> available (vm_pmm (us_vm s))"
proof -
  have u: "vmm_wf (us_vm s)" "vm_cr3 (us_vm s) = kernel_pml4 (us_vm s)" "n + 3 \<le> card (available (vm_pmm (us_vm s)))"
    "F \<inter> available (vm_pmm (us_vm s)) = {}"
    "\<forall>q \<in> paths. \<forall>a \<in> F. table_at (vm_mem (us_vm s)) (kernel_pml4 (us_vm s)) q \<noteq> Some a"
    using assms by (simp_all add: user_state_def)
  have c: "3 \<le> card (available (vm_pmm (us_vm s)))" using u(3) by simp
  note M = MapPage_spec[OF u(1) c, of v p fl]
  note U = MapPage_user[OF u(1) c, where v = v and p = p and fl = fl]
  have e: "us_vm (map_page v p fl s) = VMM_MapPage v p fl (us_vm s)" by (simp add: map_page_def)
  have r: "kernel_pml4 (VMM_MapPage v p fl (us_vm s)) = kernel_pml4 (us_vm s)" using M by blast
  show "walk (vm_mem (us_vm (map_page v p fl s))) (kernel_pml4 (us_vm s)) w =
       (if same_page v w then Some (p OR fl OR PAGE_PRESENT) else walk (vm_mem (us_vm s)) (kernel_pml4 (us_vm s)) w)"
    using M unfolding e r by blast
  show "user_keeps (vm_mem (us_vm s)) (vm_mem (us_vm (map_page v p fl s))) (kernel_pml4 (us_vm s))"
    "fl AND PAGE_USER \<noteq> 0 \<Longrightarrow> user_table (vm_mem (us_vm (map_page v p fl s))) (kernel_pml4 (us_vm s)) (vpath v) \<noteq> None"
    "available (vm_pmm (us_vm (map_page v p fl s))) \<subseteq> available (vm_pmm (us_vm s))"
    unfolding e using U(1-3) by blast+
  show "kernel_pml4 (us_vm (map_page v p fl s)) = kernel_pml4 (us_vm s)" unfolding e by (rule r)
  show "us_mem (map_page v p fl s) = us_mem s" "us_tss (map_page v p fl s) = us_tss s" by (simp_all add: map_page_def)
  have "table_at (vm_mem (VMM_MapPage v p fl (us_vm s))) (kernel_pml4 (us_vm s)) q \<noteq> Some a" if "q \<in> paths" "a \<in> F" for q a
    using U(5)[OF that(1), of a] u(4,5) that by blast
  then show "user_state (map_page v p fl s) F n"
    using M U(3,4) u(2-4) unfolding user_state_def e r by auto
qed

definition no_user_pages :: "vmm \<Rightarrow> bool" where
  "no_user_pages s \<longleftrightarrow> (\<forall>w e. walk (vm_mem s) (kernel_pml4 s) w = Some e \<longrightarrow> e AND PAGE_USER = 0)"

lemma user_walk_here:
  "user_table m r (vpath w) \<noteq> None \<Longrightarrow> walk m r w = Some e \<Longrightarrow> e AND PAGE_USER \<noteq> 0 \<Longrightarrow> user_walk m r w = Some (table_of e)"
  by (auto simp: user_walk_def walk_def Let_def split: option.splits if_splits dest: user_table_imp)

lemma user_entry:
  assumes "unat a mod 4096 = 0"
  shows "(a OR (PAGE_USER OR PAGE_WRITE) OR PAGE_PRESENT) AND PAGE_USER \<noteq> 0"
    "table_of (a OR (PAGE_USER OR PAGE_WRITE) OR PAGE_PRESENT) = a" "(a OR PAGE_WRITE OR PAGE_PRESENT) AND PAGE_USER = 0"
proof -
  show "(a OR (PAGE_USER OR PAGE_WRITE) OR PAGE_PRESENT) AND PAGE_USER \<noteq> 0" by (simp add: user_bit bit_or_iff)
  have "(a OR PAGE_WRITE OR PAGE_PRESENT) AND PAGE_USER \<noteq> 0 \<longleftrightarrow> bit a 2" by (simp only: user_bit) (simp add: bit_or_iff)
  then show "(a OR PAGE_WRITE OR PAGE_PRESENT) AND PAGE_USER = 0" using aligned_bits[OF assms, of 2] by simp
  show "table_of (a OR (PAGE_USER OR PAGE_WRITE) OR PAGE_PRESENT) = a"
    unfolding or.assoc by (rule table_of_flags[OF assms]) (auto simp: bit_or_iff split: if_splits)
qed

lemma copy_user:
  assumes "user_state s F n" "unat va mod 4096 = 0" "walk (vm_mem (us_vm s)) (kernel_pml4 (us_vm s)) va = Some e" "table_of e = a" "length bs \<le> 4096"
  shows "mem_copy va bs s = Some (s\<lparr>us_mem := put_list (us_mem s) a bs\<rparr>)"
  using mem_copy_page[OF assms(2), of s e 0 bs] assms by (simp add: user_state_def)

lemma frame_bytes_apart:
  assumes "unat a mod 4096 = 0" "unat b mod 4096 = 0" "a \<noteq> (b :: u64)" "i < 4096" "j < 4096"
  shows "a + of_nat i \<noteq> b + of_nat j"
proof
  assume e: "a + of_nat i = b + of_nat j"
  have u: "unat (p + of_nat k) = unat p + k" if "unat p mod 4096 = 0" "k < 4096" for p :: u64 and k
  proof -
    note al = that
    obtain q where q: "unat p = 4096 * q" using al(1) by auto
    then have "q < 2 ^ 52" using unat_lt_2p[of p] by simp
    then show ?thesis using al(2) q by (subst unat_add_small) (simp_all add: unat_of_nat_small)
  qed
  have "unat a + i = unat b + j" using e u[OF assms(1,4)] u[OF assms(2,5)] by (simp only:)
  moreover obtain k where "unat a = 4096 * k" using assms(1) by auto
  moreover obtain l where "unat b = 4096 * l" using assms(2) by auto
  moreover have "(4096 * k + i) div 4096 = k" "(4096 * l + j) div 4096 = l" using assms(4,5) by simp_all
  ultimately have "unat a = unat b" by simp
  then show False using assms(3) by (simp add: word_unat_eq_iff)
qed

lemma bytes_at_put_apart:
  assumes "unat a mod 4096 = 0" "unat b mod 4096 = 0" "a \<noteq> b" "length bs \<le> 4096" "n \<le> 4096"
  shows "bytes_at (put_list m b bs) a n = bytes_at m a n"
proof -
  have "put_list m b bs (a + of_nat x) = m (a + of_nat x)" if "x < n" for x
    using frame_bytes_apart[OF assms(1-3)] that assms(4,5) by (intro put_list_other) auto
  then show ?thesis by (simp add: bytes_at_def)
qed

lemma user_addresses:
  "\<not> same_page user_code_va user_data_va" "\<not> same_page user_code_va user_stack_va" "\<not> same_page user_data_va user_stack_va"
  "unat user_code_va mod 4096 = 0" "unat user_data_va mod 4096 = 0" "length user_msg = 17" "length user_prog = 50"
  by (simp_all add: user_code_va_def user_data_va_def user_stack_va_def same_page_def vpath_def vidx_def user_msg_def user_prog_def
      drop_bit_eq_div)

definition user_page :: "user \<Rightarrow> u64 \<Rightarrow> u64 option" where
  "user_page s w = user_walk (vm_mem (us_vm s)) (vm_cr3 (us_vm s)) w"

lemma user_page_cases:
  assumes t: "user_table (vm_mem (us_vm s)) (vm_cr3 (us_vm s)) (vpath v) \<noteq> None"
    and w: "walk (vm_mem (us_vm s)) (vm_cr3 (us_vm s)) v = Some (a OR (PAGE_USER OR PAGE_WRITE) OR PAGE_PRESENT)" and a: "unat a mod 4096 = 0"
    and p: "same_page v w"
  shows "user_page s w = Some a"
proof -
  have "vpath w = vpath v" using p by (simp add: same_page_def)
  moreover have "walk (vm_mem (us_vm s)) (vm_cr3 (us_vm s)) w = walk (vm_mem (us_vm s)) (vm_cr3 (us_vm s)) v" by (rule same_page_walk[OF p, symmetric])
  ultimately show ?thesis
    using user_walk_here[of "vm_mem (us_vm s)" "vm_cr3 (us_vm s)" w] t w user_entry(1,2)[OF a] by (simp add: user_page_def)
qed

lemma user_page_none:
  assumes "\<And>e. walk (vm_mem (us_vm s)) (vm_cr3 (us_vm s)) w = Some e \<Longrightarrow> e AND PAGE_USER = 0"
  shows "user_page s w = None"
  using user_walk_leaf[of "vm_mem (us_vm s)" "vm_cr3 (us_vm s)" w] assms by (cases "user_page s w") (auto simp: user_page_def)

text \<open>The three pages after the mappings; \<open>pg\<close> is the frame of each.\<close>

definition user_ready :: "user \<Rightarrow> user \<Rightarrow> u64 \<Rightarrow> u64 \<Rightarrow> u64 \<Rightarrow> bool" where
  "user_ready s t c d st \<longleftrightarrow> kernel_pml4 (us_vm t) = kernel_pml4 (us_vm s) \<and>
     (\<forall>v \<in> {user_code_va, user_data_va, user_stack_va}. user_table (vm_mem (us_vm t)) (kernel_pml4 (us_vm s)) (vpath v) \<noteq> None) \<and>
     (\<forall>w. walk (vm_mem (us_vm t)) (kernel_pml4 (us_vm s)) w =
        (if same_page user_code_va w then Some (c OR (PAGE_USER OR PAGE_WRITE) OR PAGE_PRESENT)
         else if same_page user_data_va w then Some (d OR (PAGE_USER OR PAGE_WRITE) OR PAGE_PRESENT)
         else if same_page user_stack_va w then Some (st OR (PAGE_USER OR PAGE_WRITE) OR PAGE_PRESENT)
         else walk (vm_mem (us_vm s)) (kernel_pml4 (us_vm s)) w))"

lemma same_page_refl: "same_page v v"
  by (simp add: same_page_def)

lemma same_page_eq: "same_page v w \<Longrightarrow> same_page u w \<Longrightarrow> same_page v u"
  by (simp add: same_page_def)

lemma map_user_pages:
  assumes s: "user_state s F (n + 9)" and
    t: "t = map_page user_stack_va st (PAGE_USER OR PAGE_WRITE) (map_page user_data_va d (PAGE_USER OR PAGE_WRITE)
         (map_page user_code_va c (PAGE_USER OR PAGE_WRITE) s))"
  shows "user_state t F n \<and> user_ready s t c d st \<and> us_mem t = us_mem s \<and> us_tss t = us_tss s \<and>
     available (vm_pmm (us_vm t)) \<subseteq> available (vm_pmm (us_vm s))"
proof -
  let ?r = "kernel_pml4 (us_vm s)" and ?fl = "PAGE_USER OR PAGE_WRITE"
  define s1 where "s1 = map_page user_code_va c ?fl s"
  define s2 where "s2 = map_page user_data_va d ?fl s1"
  have t': "t = map_page user_stack_va st ?fl s2" unfolding t s1_def s2_def ..
  have fl: "?fl AND PAGE_USER \<noteq> 0" by (simp add: user_bit bit_or_iff PAGE_USER_def)
  note 1 = map_user[where s = s and F = F and n = "n + 6" and v = user_code_va and p = c and fl = ?fl, folded s1_def]
  have s: "user_state s F (n + 6 + 3)" using s by (simp add: add.commute)
  note 1 = 1[OF s]
  have s1: "user_state s1 F (n + 3 + 3)" using 1(1) by (simp add: add.commute)
  note 2 = map_user[OF s1, where v = user_data_va and p = d and fl = ?fl, folded s2_def, unfolded 1(5)]
  note 3 = map_user[OF 2(1), where v = user_stack_va and p = st and fl = ?fl, folded t', unfolded 2(5) 1(5)]
  have "user_table (vm_mem (us_vm s1)) ?r (vpath user_code_va) \<noteq> None" "user_table (vm_mem (us_vm s2)) ?r (vpath user_data_va) \<noteq> None"
    "user_table (vm_mem (us_vm t)) ?r (vpath user_stack_va) \<noteq> None"
    using 1(4)[OF fl] 2(4)[OF fl] 3(4)[OF fl] by simp_all
  then have "\<forall>v \<in> {user_code_va, user_data_va, user_stack_va}. user_table (vm_mem (us_vm t)) ?r (vpath v) \<noteq> None"
    using user_keeps_table[OF user_keeps_trans[OF 2(3) 3(3)] vpath_paths(1)] user_keeps_table[OF 3(3) vpath_paths(1)] by blast
  moreover have "walk (vm_mem (us_vm t)) ?r w =
      (if same_page user_code_va w then Some (c OR ?fl OR PAGE_PRESENT)
       else if same_page user_data_va w then Some (d OR ?fl OR PAGE_PRESENT)
       else if same_page user_stack_va w then Some (st OR ?fl OR PAGE_PRESENT) else walk (vm_mem (us_vm s)) ?r w)" for w
    using user_addresses(1-3) same_page_eq[of user_code_va w] same_page_eq[of user_data_va w] unfolding 3(2) 2(2) 1(2) by auto
  ultimately have "user_ready s t c d st" using 3(5) 2(5) 1(5) by (simp add: user_ready_def)
  then show ?thesis using 1(6-8) 2(6-8) 3(1,6-8) by auto
qed

lemma user_state_mem: "user_state (s\<lparr>us_mem := m\<rparr>) F n = user_state s F n" "user_state (s\<lparr>us_tss := u\<rparr>) F n = user_state s F n"
  by (simp_all add: user_state_def)

lemma user_pages_filled:
  assumes r: "user_ready s t c d st" "user_state t F n" and al: "unat c mod 4096 = 0" "unat d mod 4096 = 0" "c \<noteq> d"
  obtains m' where "mem_copy user_data_va user_msg t = Some (t\<lparr>us_mem := put_list (us_mem t) d user_msg\<rparr>)"
    "mem_copy user_code_va user_prog (t\<lparr>us_mem := put_list (us_mem t) d user_msg\<rparr>) = Some (t\<lparr>us_mem := m'\<rparr>)"
    "bytes_at m' c 50 = user_prog" "bytes_at m' d 17 = user_msg"
proof -
  let ?m = "put_list (us_mem t) d user_msg"
  have w: "walk (vm_mem (us_vm t)) (kernel_pml4 (us_vm t)) user_code_va = Some (c OR (PAGE_USER OR PAGE_WRITE) OR PAGE_PRESENT)"
    "walk (vm_mem (us_vm t)) (kernel_pml4 (us_vm t)) user_data_va = Some (d OR (PAGE_USER OR PAGE_WRITE) OR PAGE_PRESENT)"
    using r(1) user_addresses(1) same_page_refl by (simp_all add: user_ready_def)
  have 1: "mem_copy user_data_va user_msg t = Some (t\<lparr>us_mem := ?m\<rparr>)"
    by (rule copy_user[OF r(2) user_addresses(5) w(2) user_entry(2)[OF al(2)]]) (simp add: user_addresses)
  have 2: "mem_copy user_code_va user_prog (t\<lparr>us_mem := ?m\<rparr>) = Some (t\<lparr>us_mem := put_list ?m c user_prog\<rparr>)"
    using copy_user[of "t\<lparr>us_mem := ?m\<rparr>" F n, OF _ user_addresses(4), OF _ _ user_entry(2)[OF al(1)], of user_prog] r(2) w(1)
    by (simp add: user_state_mem user_addresses)
  have "bytes_at (put_list ?m c user_prog) c 50 = user_prog"
    using bytes_at_put_list[of user_prog ?m c] by (simp add: user_addresses)
  moreover have "bytes_at (put_list ?m c user_prog) d 17 = user_msg"
    using bytes_at_put_apart[OF al(2,1), of user_prog 17 ?m] al(3) bytes_at_put_list[of user_msg "us_mem t" d] by (simp add: user_addresses)
  ultimately show thesis using that[OF 1 2] by blast
qed

text \<open>The state of a launch that succeeded.\<close>

definition user_isolated :: "user \<Rightarrow> user \<Rightarrow> u64 \<Rightarrow> u64 \<Rightarrow> u64 \<Rightarrow> u64 \<Rightarrow> bool" where
  "user_isolated s t c d st k \<longleftrightarrow> distinct [c, d, st, k] \<and> {c, d, st, k} \<subseteq> available (vm_pmm (us_vm s)) \<and>
     {c, d, st, k} \<inter> available (vm_pmm (us_vm t)) = {} \<and>
     (\<forall>w. user_page t w = (if same_page user_code_va w then Some c else if same_page user_data_va w then Some d
        else if same_page user_stack_va w then Some st else None)) \<and>
     bytes_at (us_mem t) c 50 = user_prog \<and> bytes_at (us_mem t) d 17 = user_msg \<and> rsp0 (us_tss t) = k + 4096 \<and>
     (\<forall>q \<in> paths. \<forall>a \<in> {c, d, st, k}. table_at (vm_mem (us_vm t)) (vm_cr3 (us_vm t)) q \<noteq> Some a) \<and>
     (\<forall>w. \<not> same_page user_code_va w \<longrightarrow> \<not> same_page user_data_va w \<longrightarrow> \<not> same_page user_stack_va w \<longrightarrow> \<not> same_page k w \<longrightarrow>
        walk (vm_mem (us_vm t)) (vm_cr3 (us_vm t)) w = walk (vm_mem (us_vm s)) (vm_cr3 (us_vm s)) w)"

definition no_user_frames :: "vmm \<Rightarrow> bool" where
  "no_user_frames s \<longleftrightarrow> (\<forall>f \<in> available (vm_pmm s). \<not> same_page user_code_va f \<and> \<not> same_page user_data_va f \<and> \<not> same_page user_stack_va f)"

lemma kernel_stack_mapped:
  assumes r: "user_ready s t c d st" "no_user_pages (us_vm s)" and t: "user_state t F 3"
    and k: "unat k mod 4096 = 0" "\<not> same_page user_code_va k" "\<not> same_page user_data_va k" "\<not> same_page user_stack_va k"
    and al: "unat c mod 4096 = 0" "unat d mod 4096 = 0" "unat st mod 4096 = 0"
    and u: "u = (map_page k k PAGE_WRITE t)\<lparr>us_tss := x\<rparr>"
  shows "user_page u w = (if same_page user_code_va w then Some c else if same_page user_data_va w then Some d
        else if same_page user_stack_va w then Some st else None)"
    "\<not> same_page user_code_va w \<Longrightarrow> \<not> same_page user_data_va w \<Longrightarrow> \<not> same_page user_stack_va w \<Longrightarrow> \<not> same_page k w \<Longrightarrow>
        walk (vm_mem (us_vm u)) (vm_cr3 (us_vm u)) w = walk (vm_mem (us_vm s)) (kernel_pml4 (us_vm s)) w"
    "user_state u F 0"
proof -
  let ?r = "kernel_pml4 (us_vm s)" and ?v = "map_page k k PAGE_WRITE t"
  have t': "user_state t F (0 + 3)" using t by simp
  note K = map_user[OF t', where v = k and p = k and fl = PAGE_WRITE]
  have rt: "kernel_pml4 (us_vm t) = ?r" using r(1) by (simp add: user_ready_def)
  have us: "us_vm u = us_vm ?v" by (simp add: u)
  show "user_state u F 0" using K(1) by (simp add: u user_state_mem)
  have cr: "vm_cr3 (us_vm ?v) = ?r" using K(1,5) rt by (simp add: user_state_def)
  have W: "walk (vm_mem (us_vm u)) (vm_cr3 (us_vm u)) w =
      (if same_page k w then Some (k OR PAGE_WRITE OR PAGE_PRESENT) else walk (vm_mem (us_vm t)) ?r w)" for w
    using K(2) unfolding us cr rt by blast
  have T: "user_table (vm_mem (us_vm u)) (vm_cr3 (us_vm u)) (vpath v) \<noteq> None"
    if "v \<in> {user_code_va, user_data_va, user_stack_va}" for v
    using r(1) that user_keeps_table[OF K(3) vpath_paths(1)] unfolding user_ready_def us cr rt by blast
  have P: "walk (vm_mem (us_vm t)) ?r w =
      (if same_page user_code_va w then Some (c OR (PAGE_USER OR PAGE_WRITE) OR PAGE_PRESENT)
       else if same_page user_data_va w then Some (d OR (PAGE_USER OR PAGE_WRITE) OR PAGE_PRESENT)
       else if same_page user_stack_va w then Some (st OR (PAGE_USER OR PAGE_WRITE) OR PAGE_PRESENT)
       else walk (vm_mem (us_vm s)) ?r w)" for w
    using r(1) unfolding user_ready_def by blast
  have kn: "\<not> same_page k v" if "v \<in> {user_code_va, user_data_va, user_stack_va}" for v
    using that k(2-4) by (auto simp: same_page_def)
  have "user_page u w = Some c" if "same_page user_code_va w" for w
    by (rule user_page_cases[OF T _ al(1) that]) (simp_all add: W P kn same_page_refl)
  moreover have "user_page u w = Some d" if "same_page user_data_va w" for w
    by (rule user_page_cases[OF T _ al(2) that]) (simp_all add: W P kn same_page_refl user_addresses)
  moreover have "user_page u w = Some st" if "same_page user_stack_va w" for w
    by (rule user_page_cases[OF T _ al(3) that]) (simp_all add: W P kn same_page_refl user_addresses)
  moreover have "user_page u w = None" if "\<not> same_page user_code_va w" "\<not> same_page user_data_va w" "\<not> same_page user_stack_va w" for w
    using r(2) that user_entry(3)[OF k(1)]
    by (intro user_page_none) (auto simp: W P no_user_pages_def split: if_splits)
  ultimately show "user_page u w = (if same_page user_code_va w then Some c else if same_page user_data_va w then Some d
        else if same_page user_stack_va w then Some st else None)" by simp
  show "walk (vm_mem (us_vm u)) (vm_cr3 (us_vm u)) w = walk (vm_mem (us_vm s)) ?r w"
    if "\<not> same_page user_code_va w" "\<not> same_page user_data_va w" "\<not> same_page user_stack_va w" "\<not> same_page k w"
    using that by (simp add: W P)
qed

lemma launch_value:
  assumes "alloc_page s = (c, s1)" "alloc_page s1 = (d, s2)" "alloc_page s2 = (st, s3)" "c \<noteq> 0" "d \<noteq> 0" "st \<noteq> 0"
    "t = map_page user_stack_va st (PAGE_USER OR PAGE_WRITE) (map_page user_data_va d (PAGE_USER OR PAGE_WRITE)
         (map_page user_code_va c (PAGE_USER OR PAGE_WRITE) s3))"
    "mem_copy user_data_va user_msg t = Some t1" "mem_copy user_code_va user_prog t1 = Some t2" "alloc_page t2 = (k, t3)" "k \<noteq> 0"
  shows "usermode_launch s = Some (Ring3 [user_code_va, 0x1B, 0x202, user_stack_va + 4096, 0x23],
     (map_page k k PAGE_WRITE t3)\<lparr>us_tss := TSS_Load (k + 4096) (us_tss t3)\<rparr>)"
  using assms by (simp add: usermode_launch_def Let_def map_page_def)

lemma launch_ready:
  assumes wf: "vmm_wf (us_vm s)" "vm_cr3 (us_vm s) = kernel_pml4 (us_vm s)" "16 \<le> card (available (vm_pmm (us_vm s)))"
    and nu: "no_user_pages (us_vm s)" "no_user_frames (us_vm s)"
  shows "\<exists>c d st k t. usermode_launch s = Some (Ring3 [user_code_va, 0x1B, 0x202, user_stack_va + 4096, 0x23], t) \<and> user_isolated s t c d st k"
proof -
  have s: "user_state s {} (Suc 15)" using wf by (simp add: user_state_def)
  obtain c s1 where 1: "alloc_page s = (c, s1)" "c \<noteq> 0" "unat c mod 4096 = 0" "c \<in> available (vm_pmm (us_vm s))" "c \<notin> {}"
    "user_state s1 {c} 15" "vm_mem (us_vm s1) = vm_mem (us_vm s)" "kernel_pml4 (us_vm s1) = kernel_pml4 (us_vm s)"
    "us_mem s1 = us_mem s" "us_tss s1 = us_tss s" "available (vm_pmm (us_vm s1)) \<subseteq> available (vm_pmm (us_vm s))"
    by (rule alloc_user[OF s])
  have u1: "user_state s1 {c} (Suc 14)" using 1(6) by simp
  obtain d s2 where 2: "alloc_page s1 = (d, s2)" "d \<noteq> 0" "unat d mod 4096 = 0" "d \<in> available (vm_pmm (us_vm s1))" "d \<notin> {c}"
    "user_state s2 {d, c} 14" "vm_mem (us_vm s2) = vm_mem (us_vm s1)" "kernel_pml4 (us_vm s2) = kernel_pml4 (us_vm s1)"
    "us_mem s2 = us_mem s1" "us_tss s2 = us_tss s1" "available (vm_pmm (us_vm s2)) \<subseteq> available (vm_pmm (us_vm s1))"
    by (rule alloc_user[OF u1])
  have u2: "user_state s2 {d, c} (Suc 13)" using 2(6) by simp
  obtain st s3 where 3: "alloc_page s2 = (st, s3)" "st \<noteq> 0" "unat st mod 4096 = 0" "st \<in> available (vm_pmm (us_vm s2))" "st \<notin> {d, c}"
    "user_state s3 {st, d, c} 13" "vm_mem (us_vm s3) = vm_mem (us_vm s2)" "kernel_pml4 (us_vm s3) = kernel_pml4 (us_vm s2)"
    "us_mem s3 = us_mem s2" "us_tss s3 = us_tss s2" "available (vm_pmm (us_vm s3)) \<subseteq> available (vm_pmm (us_vm s2))"
    by (rule alloc_user[OF u2])
  define t where "t = map_page user_stack_va st (PAGE_USER OR PAGE_WRITE) (map_page user_data_va d (PAGE_USER OR PAGE_WRITE)
         (map_page user_code_va c (PAGE_USER OR PAGE_WRITE) s3))"
  have "user_state s3 {st, d, c} (4 + 9)" using 3(6) by simp
  note M = map_user_pages[OF this t_def]
  have rd: "user_ready s t c d st" using M 1(7,8) 2(7,8) 3(7,8) by (simp add: user_ready_def)
  have ut: "user_state t {st, d, c} 4" using M by blast
  have cd: "c \<noteq> d" using 2(5) by blast
  obtain m' where f: "mem_copy user_data_va user_msg t = Some (t\<lparr>us_mem := put_list (us_mem t) d user_msg\<rparr>)"
    "mem_copy user_code_va user_prog (t\<lparr>us_mem := put_list (us_mem t) d user_msg\<rparr>) = Some (t\<lparr>us_mem := m'\<rparr>)"
    "bytes_at m' c 50 = user_prog" "bytes_at m' d 17 = user_msg"
    by (rule user_pages_filled[OF rd ut 1(3) 2(3) cd])
  have "user_state (t\<lparr>us_mem := m'\<rparr>) {st, d, c} (Suc 3)" using ut by (simp add: user_state_mem)
  then obtain k t3 where 4: "alloc_page (t\<lparr>us_mem := m'\<rparr>) = (k, t3)" "k \<noteq> 0" "unat k mod 4096 = 0" "k \<in> available (vm_pmm (us_vm t))"
    "k \<notin> {st, d, c}" "user_state t3 {k, st, d, c} 3" "vm_mem (us_vm t3) = vm_mem (us_vm t)"
    "kernel_pml4 (us_vm t3) = kernel_pml4 (us_vm t)" "us_mem t3 = m'"
    by (rule alloc_user) simp
  define u where "u = (map_page k k PAGE_WRITE t3)\<lparr>us_tss := TSS_Load (k + 4096) (us_tss t3)\<rparr>"
  have av: "available (vm_pmm (us_vm t)) \<subseteq> available (vm_pmm (us_vm s))" using M 1(11) 2(11) 3(11) by blast
  have ka: "k \<in> available (vm_pmm (us_vm s))" using av 4(4) by blast
  have kn: "\<not> same_page user_code_va k" "\<not> same_page user_data_va k" "\<not> same_page user_stack_va k"
    using nu(2) ka by (simp_all add: no_user_frames_def)
  have rd3: "user_ready s t3 c d st" using rd 4(7,8) by (simp add: user_ready_def)
  note K = kernel_stack_mapped[OF rd3 nu(1) 4(6,3) kn 1(3) 2(3) 3(3) u_def]
  have "user_isolated s u c d st k"
    unfolding user_isolated_def
  proof (intro conjI allI impI ballI)
    show "distinct [c, d, st, k]" using 2(5) 3(5) 4(5) by auto
    show "{c, d, st, k} \<subseteq> available (vm_pmm (us_vm s))" using 1(4,11) 2(4,11) 3(4) ka by blast
    show "{c, d, st, k} \<inter> available (vm_pmm (us_vm u)) = {}" using K(3) by (auto simp: user_state_def)
    show "bytes_at (us_mem u) c 50 = user_prog" "bytes_at (us_mem u) d 17 = user_msg" "rsp0 (us_tss u) = k + 4096"
      using f(3,4) 4(9) by (simp_all add: u_def map_page_def TSS_Load_def)
    show "table_at (vm_mem (us_vm u)) (vm_cr3 (us_vm u)) q \<noteq> Some a" if "q \<in> paths" "a \<in> {c, d, st, k}" for q a
      using K(3) that unfolding user_state_def by auto
  qed (use K(1,2) wf(2) in auto)
  moreover have "usermode_launch s = Some (Ring3 [user_code_va, 0x1B, 0x202, user_stack_va + 4096, 0x23], u)"
    unfolding u_def by (rule launch_value[OF 1(1) 2(1) 3(1) 1(2) 2(2) 3(2) t_def f(1,2) 4(1,2)])
  ultimately show ?thesis by blast
qed

section \<open>System calls\<close>

text \<open>Memory as the kernel reads it for the user, through the user's pages.\<close>

definition user_view :: "user \<Rightarrow> u64 \<Rightarrow> u8" where
  "user_view s va = (case user_page s va of None \<Rightarrow> 0 | Some p \<Rightarrow> us_mem s (p + (va AND 0xFFF)))"

lemma greeting:
  assumes "user_isolated s t c d st k"
  shows "sys_write_user (user_view t) user_data_va 17 = user_msg"
proof -
  have v: "user_view t (user_data_va + of_nat i) = us_mem t (d + of_nat i)" if "i < 17" for i
  proof -
    note P = page_offset[OF user_addresses(5), of i]
    have "user_page t (user_data_va + of_nat i) = Some d"
      using assms P(1) that user_addresses(1) unfolding user_isolated_def by (auto simp: same_page_def)
    then show ?thesis using P(2) that by (simp add: user_view_def)
  qed
  have "map (\<lambda>i. user_view t (user_data_va + of_nat i)) [0..<17] = bytes_at (us_mem t) d 17"
    unfolding bytes_at_def by (rule map_cong[OF refl]) (simp add: v)
  also have "\<dots> = user_msg" using assms by (simp add: user_isolated_def)
  finally have "map (\<lambda>i. user_view t (user_data_va + of_nat i)) [0..<17] = user_msg" .
  moreover have "List.filter (\<lambda>c. c \<noteq> 0) user_msg = user_msg" by (simp add: user_msg_def)
  moreover have "user_data_va \<noteq> 0" by (simp add: user_data_va_def)
  ultimately show ?thesis by (simp add: sys_write_user_def)
qed

text \<open>
  Every call number: exit prints its message and goes to the next active task, or halts when there is none, write returns 0
  and prints at most 4096 characters, any other number returns -1.
\<close>

lemma syscall_returns:
  assumes "sched_wf s"
  shows "case syscall_handler mem rsp f s of
      Halted os \<Rightarrow> r_rax f = 0 \<and> os = exit_msg \<and> (\<forall>k. active s k \<longrightarrow> k = current_task s)
    | Resume r g s' os \<Rightarrow> sched_wf s' \<and> length os \<le> 4096 \<and> r_rdi g = r_rdi f \<and> r_rsi g = r_rsi f \<and>
        (if r_rax f = 0 then g = f \<and> os = exit_msg \<and> (\<forall>k. active s' k \<longleftrightarrow> active s k \<and> k \<noteq> current_task s) \<and>
           active s' (current_task s') \<and> r = t_rsp (tasks s ! current_task s')
         else r = rsp \<and> s' = s \<and> r_rax g = (if r_rax f = 1 then 0 else - 1))"
proof -
  have "length (sys_write_user mem p n) \<le> 4096" for p n :: u64
  proof -
    have "unat (if n > 4096 then 4096 else n) \<le> 4096" by (simp add: word_less_nat_alt)
    then show ?thesis by (auto simp: sys_write_user_def Let_def intro: le_trans[OF length_filter_le])
  qed
  moreover have "length exit_msg \<le> 4096" by (simp add: exit_msg_def)
  ultimately show ?thesis
    using Task_Exit_spec[OF assms] assms by (auto simp: syscall_handler_def Let_def split: option.splits)
qed

section \<open>Claims\<close>

definition user_example :: user where
  "user_example =
     (let v = VMM_Init \<lparr>vm_pmm = PMM_FreePages 0x110000 17 (PMM_Init 0x40000 0x100000), vm_mem = (\<lambda>a. 0),
        kernel_pml4 = 0, vm_cr3 = 0, vm_invlpg = []\<rparr> in
      \<lparr>us_vm = v\<lparr>vm_cr3 := kernel_pml4 v\<rparr>, us_mem = (\<lambda>a. 0), us_tss = zero_tss\<rparr>)"

lemma low_frame:
  "unat f < 2 ^ 30 \<Longrightarrow> \<not> same_page user_code_va f \<and> \<not> same_page user_data_va f \<and> \<not> same_page user_stack_va f"
proof -
  assume f: "unat f < 2 ^ 30"
  then have "drop_bit 30 f = 0" by (simp add: drop_bit_eq_div word_unat_eq_iff unat_div)
  then show ?thesis
    by (simp add: same_page_def vpath_def vidx_def user_code_va_def user_data_va_def user_stack_va_def drop_bit_eq_div)
qed

lemma user_example_ok:
  "vmm_wf (us_vm user_example)" "vm_cr3 (us_vm user_example) = kernel_pml4 (us_vm user_example)"
  "16 \<le> card (available (vm_pmm (us_vm user_example)))" "no_user_pages (us_vm user_example)" "no_user_frames (us_vm user_example)"
proof -
  let ?p = "PMM_FreePages 0x110000 17 (PMM_Init 0x40000 0x100000)"
  define v where "v = \<lparr>vm_pmm = ?p, vm_mem = (\<lambda>a. 0), kernel_pml4 = 0, vm_cr3 = 0, vm_invlpg = []\<rparr>"
  note b = FreePages_boot[of "0x100000" "0x40000" "0x110000" 17, simplified]
  have wf: "pmm_wf (vm_pmm v)" using b(1) by (simp add: v_def)
  have "{i::nat. 16 \<le> i \<and> i < 33 \<and> i < 64} = {16..<33}" by auto
  then have c: "card (available (vm_pmm v)) = 17" using card_available[OF wf] b(2) by (simp add: v_def)
  then have "available (vm_pmm v) \<noteq> {}" by auto
  note I = VMM_Init_spec[OF wf this]
  have e: "us_vm user_example = (VMM_Init v)\<lparr>vm_cr3 := kernel_pml4 (VMM_Init v)\<rparr>" by (simp add: user_example_def v_def Let_def)
  show "vm_cr3 (us_vm user_example) = kernel_pml4 (us_vm user_example)" by (simp add: e)
  show "vmm_wf (us_vm user_example)" using I unfolding e vmm_wf_def by auto
  show "16 \<le> card (available (vm_pmm (us_vm user_example)))" using I c by (simp add: e)
  show "no_user_pages (us_vm user_example)" using I by (simp add: e no_user_pages_def)
  have i: "pmm_wf (PMM_Init 0x40000 0x100000)" by (rule Init_wf) simp_all
  have m: "max_pages ?p = 64" "base_paddr ?p = 0x100000"
    using FreePages_loop_spec[OF i refl, of "0x10" 17] by (simp_all add: PMM_FreePages_def PAGE_SIZE_def)
  have "unat f < 2 ^ 30" if "f \<in> available (vm_pmm (us_vm user_example))" for f
  proof -
    have "f \<in> managed ?p" using that pmm.avail_frames[of "vm_pmm (VMM_Init v)"] I by (auto simp: e v_def vmm_wf_def)
    then obtain j where "f = page_addr ?p j" "j < 64" by (auto simp: managed_def m)
    then show ?thesis using unat_page_addr[OF b(1), of j] m by simp
  qed
  then show "no_user_frames (us_vm user_example)" using low_frame by (simp add: no_user_frames_def)
qed

text \<open>
  C40. With sixteen pages available, no user page mapped yet and none of the available frames at
  the three user addresses (which fails when the managed region reaches 0x40000000),
  usermode_launch enters ring 3 at the program's first instruction, and the processor lets the
  program reach exactly three pages, its code, data and stack, in three fresh frames that are no
  page tables: every other translation is kept but for the kernel stack, and the program's first
  system call prints its message.
\<close>

theorem user_program_isolated:
  assumes "vmm_wf (us_vm s)" "vm_cr3 (us_vm s) = kernel_pml4 (us_vm s)" "16 \<le> card (available (vm_pmm (us_vm s)))"
    and "no_user_pages (us_vm s)" "no_user_frames (us_vm s)"
  shows "\<exists>t c d st k. usermode_launch s = Some (Ring3 [user_code_va, 0x1B, 0x202, user_stack_va + 4096, 0x23], t) \<and>
    user_isolated s t c d st k \<and>
    (\<forall>rsp f sch. syscall_handler (user_view t) rsp (f\<lparr>r_rax := 1, r_rdi := user_data_va, r_rsi := 17\<rparr>) sch =
       Resume rsp (f\<lparr>r_rax := 0, r_rdi := user_data_va, r_rsi := 17\<rparr>) sch user_msg)"
  using launch_ready[OF assms] greeting by (force simp: syscall_handler_def)

theorem user_program_isolated_witness:
  "\<exists>t c d st k. usermode_launch user_example = Some (Ring3 [0x40000000, 0x1B, 0x202, 0x40003000, 0x23], t) \<and>
     user_page t 0x40001ABC = Some d \<and> user_page t 0x2000 = None \<and> bytes_at (us_mem t) d 17 = user_msg \<and>
     c \<noteq> k \<and> user_isolated user_example t c d st k"
proof -
  obtain t c d st k where L: "usermode_launch user_example = Some (Ring3 [user_code_va, 0x1B, 0x202, user_stack_va + 4096, 0x23], t)"
    and I: "user_isolated user_example t c d st k"
    using user_program_isolated[OF user_example_ok] by blast
  have p: "same_page user_data_va 0x40001ABC" "\<not> same_page user_code_va 0x40001ABC"
    by (simp_all add: same_page_def vpath_def vidx_def user_code_va_def user_data_va_def drop_bit_eq_div)
  have q: "\<not> same_page user_code_va 0x2000 \<and> \<not> same_page user_data_va 0x2000 \<and> \<not> same_page user_stack_va 0x2000"
    by (rule low_frame) simp
  have "user_page t 0x40001ABC = Some d" "user_page t 0x2000 = None" "bytes_at (us_mem t) d 17 = user_msg" "c \<noteq> k"
    using I p q by (simp_all add: user_isolated_def)
  moreover have "user_code_va = 0x40000000" "user_stack_va + 4096 = 0x40003000" by (simp_all add: user_code_va_def user_stack_va_def)
  ultimately show ?thesis using L I by auto
qed

end
