(* ===== verification/Exceptions.thy ===== *)
theory Exceptions
  imports Prelude
begin

text \<open>
  The exception handler, \<open>src/kernel/core/exception.c\<close>: the line it writes to the serial port before
  it stops the processor, and that the hexadecimal numbers in it can be read back.
\<close>

section \<open>The report\<close>

record interrupt_frame =
  e_r15 :: u64
  e_r14 :: u64
  e_r13 :: u64
  e_r12 :: u64
  e_r11 :: u64
  e_r10 :: u64
  e_r9 :: u64
  e_r8 :: u64
  e_rbp :: u64
  e_rdi :: u64
  e_rsi :: u64
  e_rdx :: u64
  e_rcx :: u64
  e_rbx :: u64
  e_rax :: u64
  vector :: u64
  error_code :: u64
  rip :: u64
  e_cs :: u64
  e_rflags :: u64
  e_rsp :: u64
  e_ss :: u64

definition hex64_digit :: "u8 \<Rightarrow> u8" where
  "hex64_digit nib = (if nib < 10 then 48 + nib else 65 + (nib - 10))"

definition hex64 :: "u64 \<Rightarrow> u8 list" where
  "hex64 v = map (\<lambda>i. hex64_digit (ucast (drop_bit ((15 - i) * 4) v AND 0xF))) [0..<16]"

definition chars :: "string \<Rightarrow> u8 list" where
  "chars s = map of_char s"

text \<open>
  The text; \<open>cr2\<close> is the register read for a page fault. The processor halts with interrupts off,
  so that the handler does not return.
\<close>

definition exception_handler :: "u64 \<Rightarrow> interrupt_frame \<Rightarrow> u8 list" where
  "exception_handler cr2 f =
     chars ''[KERNEL PANIC] '' @ chars ''[EXC] vector='' @ hex64 (vector f) @
     chars '' err='' @ hex64 (error_code f) @
     (if vector f = 14 then chars '' cr2='' @ hex64 cr2 else []) @
     chars '' rip='' @ hex64 (rip f) @ [10]"

section \<open>Reading it back\<close>

definition hex_value :: "u8 \<Rightarrow> u64" where
  "hex_value c = ucast (if c < 58 then c - 48 else c - 55)"

definition parse_hex :: "u8 list \<Rightarrow> u64" where
  "parse_hex cs = foldl (\<lambda>v c. v * 16 + hex_value c) 0 cs"

lemma hex64_value: "n < 16 \<Longrightarrow> hex_value (hex64_digit n) = ucast n"
  by (auto simp: hex_value_def hex64_digit_def word_less_nat_alt unat_arith_simps)

lemma nibble_step: "drop_bit (n + 4) v * 16 + (drop_bit n v AND 0xF) = drop_bit n (v :: u64)"
proof -
  have m: "(0xF :: u64) = mask 4" by (simp add: mask_eq_exp_minus_1)
  have "drop_bit (n + 4) v * 16 + (drop_bit n v AND 0xF) = push_bit 4 (drop_bit 4 (drop_bit n v)) + take_bit 4 (drop_bit n v)"
    by (simp add: m push_bit_eq_mult add.commute flip: take_bit_eq_mask)
  then show ?thesis using bits_ident[of 4 "drop_bit n v"] by simp
qed

lemma parse_prefix:
  "k \<le> 16 \<Longrightarrow> parse_hex (map (\<lambda>i. hex64_digit (ucast (drop_bit ((15 - i) * 4) v AND 0xF))) [0..<k]) = drop_bit (64 - 4 * k) v"
proof (induction k)
  case 0
  have "drop_bit 64 v = 0" by (intro bit_word_eqI) (simp add: bit_simps)
  then show ?case by (simp add: parse_hex_def)
next
  case (Suc k)
  let ?w = "drop_bit ((15 - k) * 4) v AND 0xF"
  have m: "?w = take_bit 4 (drop_bit ((15 - k) * 4) v)" by (simp add: mask_eq_exp_minus_1 take_bit_eq_mask)
  have "(ucast ?w :: u8) = take_bit 4 (ucast (drop_bit ((15 - k) * 4) v))" unfolding m by (intro bit_word_eqI) (auto simp: bit_simps)
  then have "(ucast ?w :: u8) < 16" by (simp add: take_bit_eq_mod word_less_nat_alt unat_mod)
  moreover have "ucast (ucast ?w :: u8) = ?w" unfolding m by (intro bit_word_eqI) (auto simp: bit_simps)
  ultimately have "hex_value (hex64_digit (ucast ?w)) = ?w" by (simp only: hex64_value)
  moreover have "(15 - k) * 4 = 64 - 4 * Suc k" "64 - 4 * k = (64 - 4 * Suc k) + 4" using Suc.prems by simp_all
  ultimately show ?case
    using Suc nibble_step[of "64 - 4 * Suc k" v] by (simp add: parse_hex_def)
qed

lemma length_hex64 [simp]: "length (hex64 v) = 16"
  by (simp add: hex64_def)

lemma parse_hex64: "parse_hex (hex64 v) = v"
  using parse_prefix[of 16 v] by (simp add: hex64_def)

text \<open>Two exceptions with the same report have the same vector, error code, address and, for a page fault, \<open>cr2\<close>.\<close>

lemma report_determines:
  assumes "exception_handler c f = exception_handler c' f'"
  shows "vector f = vector f' \<and> error_code f = error_code f' \<and> rip f = rip f' \<and> (vector f = 14 \<longrightarrow> c = c')"
proof -
  have h: "hex64 a = hex64 b \<Longrightarrow> a = b" for a b using parse_hex64 by metis
  have "hex64 (vector f) = hex64 (vector f')" using assms by (simp add: exception_handler_def)
  then have v: "vector f = vector f'" by (rule h)
  have "hex64 (error_code f) = hex64 (error_code f')" using assms v by (simp add: exception_handler_def split: if_splits)
  then have e: "error_code f = error_code f'" by (rule h)
  show ?thesis
    using assms v e by (auto simp: exception_handler_def split: if_splits dest!: h)
qed

end
