(* ===== verification/Ahci.thy ===== *)
theory Ahci
  imports Vmm
begin

text \<open>
  The AHCI driver, \<open>src/kernel/drivers/ahci.c\<close>: it enables the controller and remembers the first
  implemented port; reading and writing are not implemented and succeed without doing anything. The
  registers are 32-bit cells at their physical addresses.
\<close>

section \<open>The driver\<close>

record ahci =
  ah_vm :: vmm
  hba :: "u64 \<Rightarrow> u32"
  g_hba :: u64
  g_sata_port :: u64

definition hba_ghc :: u64 where "hba_ghc = 0x04"
definition hba_pi :: u64 where "hba_pi = 0x0C"
definition hba_port :: "u64 \<Rightarrow> nat \<Rightarrow> u64" where "hba_port abar i = abar + 0x100 + 0x80 * of_nat i"

definition ahci_port_step :: "u32 \<Rightarrow> nat \<Rightarrow> ahci \<Rightarrow> ahci" where
  "ahci_port_step pi i s =
     (if bit pi i then (if g_sata_port s = 0 then s\<lparr>g_sata_port := hba_port (g_hba s) i\<rparr> else s) else s)"

definition ahci_init :: "u64 \<Rightarrow> ahci \<Rightarrow> ahci" where
  "ahci_init abar s =
     (let s = s\<lparr>ah_vm := VMM_MapPage abar abar PAGE_WRITE (ah_vm s)\<rparr>;
          s = s\<lparr>g_hba := abar\<rparr>;
          s = s\<lparr>hba := (hba s)(abar + hba_ghc := hba s (abar + hba_ghc) OR push_bit 31 1)\<rparr>;
          pi = hba s (abar + hba_pi) in
      fold (ahci_port_step pi) [0..<32] s)"

definition ahci_read_sectors :: "u32 \<Rightarrow> u32 \<Rightarrow> u8 list \<Rightarrow> ahci \<Rightarrow> int \<times> u8 list" where
  "ahci_read_sectors lba count buffer s = (if g_sata_port s = 0 then (- 1, buffer) else (0, buffer))"

definition ahci_write_sectors :: "u32 \<Rightarrow> u32 \<Rightarrow> u8 list \<Rightarrow> ahci \<Rightarrow> int \<times> ahci" where
  "ahci_write_sectors lba count buffer s = (if g_sata_port s = 0 then (- 1, s) else (0, s))"

section \<open>The chosen port\<close>

lemma ports_fold:
  "fold (ahci_port_step pi) is s =
     (case List.filter (bit pi) is of [] \<Rightarrow> s | i # _ \<Rightarrow> if g_sata_port s = 0 then s\<lparr>g_sata_port := hba_port (g_hba s) i\<rparr> else s)"
  if "\<forall>i \<in> set is. hba_port (g_hba s) i \<noteq> 0"
  using that
proof (induction "is" arbitrary: s)
  case (Cons i "is")
  show ?case using Cons.IH[of "ahci_port_step pi i s"] Cons.prems
    by (auto simp: ahci_port_step_def split: list.splits)
qed simp

text \<open>
  The port is the one with the lowest bit in the ports-implemented register, whether or not a drive
  is attached to it; from then on a read reports success and leaves the caller's buffer as it was.
\<close>

lemma ahci_init_port:
  assumes "g_sata_port s = 0" "bit (hba s (abar + hba_pi)) i" "i < 32" "\<forall>j < i. \<not> bit (hba s (abar + hba_pi)) j"
    and "\<forall>j < 32. hba_port abar j \<noteq> 0"
  shows "g_sata_port (ahci_init abar s) = hba_port abar i" "bit (hba (ahci_init abar s) (abar + hba_ghc)) 31"
    "ahci_read_sectors lba n buf (ahci_init abar s) = (0, buf)"
proof -
  let ?pi = "hba s (abar + hba_pi)"
  let ?t = "s\<lparr>ah_vm := VMM_MapPage abar abar PAGE_WRITE (ah_vm s), g_hba := abar, hba := (hba s)(abar + hba_ghc := hba s (abar + hba_ghc) OR push_bit 31 1)\<rparr>"
  have ne: "abar + hba_pi \<noteq> abar + hba_ghc" by (simp add: hba_pi_def hba_ghc_def)
  have "[0..<32] = [0..<i] @ i # [Suc i..<32]" using upt_add_eq_append[of 0 i "32 - i"] upt_conv_Cons[OF assms(3)] assms(3) by simp
  moreover have "List.filter (bit ?pi) [0..<i] = []" using assms(4) by simp
  ultimately have f: "List.filter (bit ?pi) [0..<32] = i # List.filter (bit ?pi) [Suc i..<32]" using assms(2) by simp
  have r: "ahci_init abar s = ?t\<lparr>g_sata_port := hba_port abar i\<rparr>"
    using ports_fold[of "[0..<32]" ?t ?pi] assms(1,5) ne f by (simp add: ahci_init_def Let_def)
  show "g_sata_port (ahci_init abar s) = hba_port abar i" by (simp add: r)
  show "bit (hba (ahci_init abar s) (abar + hba_ghc)) 31" by (simp add: r bit_simps)
  show "ahci_read_sectors lba n buf (ahci_init abar s) = (0, buf)" using assms(3,5) by (simp add: ahci_read_sectors_def r)
qed

end
