(* ===== verification/Console.thy ===== *)
theory Console
  imports GraphicsSpec
begin

text \<open>
  The text console of the boot, \<open>src/kernel/drivers/console.c\<close>: characters at double size, lines of 20
  pixels, and scrolling. It draws on the frame buffer of \<open>Graphics\<close> (\<open>g_back\<close> is NULL: there is no
  back buffer yet). Using it before \<open>ConsoleInit\<close> follows a null pointer, \<open>None\<close>.
\<close>

section \<open>The code\<close>

record console = gfx +
  g_CursorX :: u32
  g_CursorY :: u32

definition console_char_w :: u32 where "console_char_w = 8 * 2"
definition console_char_h :: u32 where "console_char_h = 8 * 2"
definition console_line_advance :: u32 where "console_line_advance = console_char_h + 2 * 2"

definition ConsoleInit :: "boot_fb \<Rightarrow> console \<Rightarrow> console" where
  "ConsoleInit bootInfo s = s\<lparr>g_bi := Some bootInfo\<rparr>"

definition copy_px :: "nat \<Rightarrow> nat \<Rightarrow> 'a gfx_scheme \<Rightarrow> 'a gfx_scheme" where
  "copy_px dst src s = store dst (pixels s (target s) src) s"

definition scroll_copy :: "boot_fb \<Rightarrow> 'a gfx_scheme \<Rightarrow> 'a gfx_scheme" where
  "scroll_copy bi =
     for_each (upto_u32 console_line_advance (fb_height bi)) (\<lambda>y.
       for_each (upto_u32 0 (fb_width bi)) (\<lambda>x.
         copy_px (unat ((y - console_line_advance) * fb_pitch bi + x)) (unat (y * fb_pitch bi + x))))"

definition scroll_clear :: "boot_fb \<Rightarrow> 'a gfx_scheme \<Rightarrow> 'a gfx_scheme" where
  "scroll_clear bi =
     for_each (upto_u32 (fb_height bi - console_line_advance) (fb_height bi)) (\<lambda>y.
       for_each (upto_u32 0 (fb_width bi)) (\<lambda>x. store (unat (y * fb_pitch bi + x)) 0xFF0000FF))"

definition scroll_up_fb :: "boot_fb \<Rightarrow> 'a gfx_scheme \<Rightarrow> 'a gfx_scheme" where
  "scroll_up_fb bi s = scroll_clear bi (scroll_copy bi s)"

definition next_line :: "boot_fb \<Rightarrow> console \<Rightarrow> console" where
  "next_line bi s =
     (let s = s\<lparr>g_CursorX := 0\<rparr>; s = s\<lparr>g_CursorY := g_CursorY s + console_line_advance\<rparr> in
      if g_CursorY s \<ge> fb_height bi then (scroll_up_fb bi s)\<lparr>g_CursorY := g_CursorY s - console_line_advance\<rparr> else s)"

definition console_glyph :: "u8 \<Rightarrow> u32 \<Rightarrow> u32 \<Rightarrow> u32 \<Rightarrow> 'a gfx_scheme \<Rightarrow> 'a gfx_scheme" where
  "console_glyph c cx cy color s =
     for_each [0..<8] (\<lambda>gy.
       for_each [0..<8] (\<lambda>gx.
         if_do (bit (cga_font s ! (unat c * 8 + gy)) (7 - gx))
           (let px = cx + of_nat gx * 2; py = cy + of_nat gy * 2 in
            for_each [0..<2] (\<lambda>sy. for_each [0..<2] (\<lambda>sx. put_px (px + of_nat sx) (py + of_nat sy) color))))) s"

definition PutChar :: "u8 \<Rightarrow> u32 \<Rightarrow> console \<Rightarrow> console option" where
  "PutChar c color s =
     (case g_bi s of
        None \<Rightarrow> None
      | Some bi \<Rightarrow>
          if c = 10 then Some (next_line bi s)
          else
            let s = console_glyph c (g_CursorX s) (g_CursorY s) color s;
                s = s\<lparr>g_CursorX := g_CursorX s + console_char_w\<rparr> in
            if g_CursorX s + console_char_w > fb_width bi then Some (next_line bi s) else Some s)"

fun PrintString :: "u8 list \<Rightarrow> u32 \<Rightarrow> console \<Rightarrow> console option" where
  "PrintString [] color s = Some s"
| "PrintString (c # cs) color s =
     (if c = 0 then Some s else case PutChar c color s of None \<Rightarrow> None | Some s \<Rightarrow> PrintString cs color s)"

section \<open>Scrolling\<close>

lemma line_advance: "console_line_advance = 20" "console_char_w = 16"
  by (simp_all add: console_line_advance_def console_char_h_def console_char_w_def)

lemma draws_on_copy: "visible bi i \<Longrightarrow> draws_on bi (copy_px i j)"
  by (auto simp: draws_on_def copy_px_def store_def same_env_def target_def)

lemma draws_scroll_copy: "fb_ok bi \<Longrightarrow> draws_on bi (scroll_copy bi)"
  unfolding scroll_copy_def
proof (intro draws_on_for_each draws_on_copy)
  fix y x assume ok: "fb_ok bi" and "y \<in> set (upto_u32 console_line_advance (fb_height bi))" "x \<in> set (upto_u32 0 (fb_width bi))"
  then have y: "20 \<le> y" "y < fb_height bi" "x < fb_width bi" by (simp_all add: upto_u32_iff line_advance)
  then have "y - 20 < fb_height bi" by (simp add: word_less_nat_alt word_le_nat_alt unat_sub_small)
  then show "visible bi (unat ((y - console_line_advance) * fb_pitch bi + x))"
    using offset_no_wrap(2)[OF ok y(3)] y(3) by (auto simp: visible_def line_advance)
qed

lemma draws_scroll_clear: "fb_ok bi \<Longrightarrow> draws_on bi (scroll_clear bi)"
  unfolding scroll_clear_def
proof (intro draws_on_for_each draws_on_store)
  fix y x assume ok: "fb_ok bi" and "y \<in> set (upto_u32 (fb_height bi - console_line_advance) (fb_height bi))" "x \<in> set (upto_u32 0 (fb_width bi))"
  then have "y < fb_height bi" "x < fb_width bi" by (simp_all add: upto_u32_iff)
  then show "visible bi (unat (y * fb_pitch bi + x))" using offset_no_wrap(2)[OF ok] by (auto simp: visible_def)
qed

lemma draws_scroll: "fb_ok bi \<Longrightarrow> draws_on bi (scroll_up_fb bi)"
  by (rule draws_on_cong[OF draws_on_comp[OF draws_scroll_copy draws_scroll_clear]]) (simp_all add: scroll_up_fb_def)

text \<open>An ascending copy whose sources have not been overwritten.\<close>

lemma copy_hit:
  assumes "distinct (map d xs)" "\<And>i j. i < j \<Longrightarrow> j < length xs \<Longrightarrow> d (xs ! i) \<noteq> e (xs ! j)"
  shows "(\<forall>x \<in> set xs. pixels (for_each xs (\<lambda>x. copy_px (d x) (e x)) s) (target s) (d x) = pixels s (target s) (e x)) \<and>
    (\<forall>k. k \<notin> d ` set xs \<longrightarrow> pixels (for_each xs (\<lambda>x. copy_px (d x) (e x)) s) (target s) k = pixels s (target s) k)"
  using assms
proof (induction xs arbitrary: s)
  case (Cons x xs)
  let ?s = "copy_px (d x) (e x) s"
  have t: "target ?s = target s" "\<And>k. pixels ?s (target s) k = (if k = d x then pixels s (target s) (e x) else pixels s (target s) k)"
    by (simp_all add: copy_px_def store_def target_def)
  have "d (xs ! i) \<noteq> e (xs ! j)" if "i < j" "j < length xs" for i j
    using Cons.prems(2)[of "Suc i" "Suc j"] that by simp
  with Cons.IH[of ?s] Cons.prems(1)
  have IH: "\<forall>y \<in> set xs. pixels (for_each xs (\<lambda>x. copy_px (d x) (e x)) ?s) (target s) (d y) = pixels ?s (target s) (e y)"
    "\<forall>k. k \<notin> d ` set xs \<longrightarrow> pixels (for_each xs (\<lambda>x. copy_px (d x) (e x)) ?s) (target s) k = pixels ?s (target s) k"
    by (simp_all add: t(1))
  have ne: "d x \<noteq> e y" if y: "y \<in> set xs" for y
  proof -
    obtain j where "j < length xs" "xs ! j = y" using y by (auto simp: in_set_conv_nth)
    then show ?thesis using Cons.prems(2)[of 0 "Suc j"] by simp
  qed
  have "d x \<notin> d ` set xs" using Cons.prems(1) by auto
  then show ?case using IH t(2) ne ne[symmetric] by auto
qed simp

lemma sorted_upto_u32: "sorted (upto_u32 a b)"
  unfolding upto_u32_def sorted_map
proof (rule sorted_wrt_mono_rel[OF _ sorted_wrt_upt[of "unat a" "unat b"]])
  fix i j assume "i \<in> set [unat a..<unat b]" "j \<in> set [unat a..<unat b]" "i < j"
  moreover have "unat b < 2 ^ 32" using unat_lt_2p[of b] by simp
  ultimately show "of_nat i \<le> (of_nat j :: u32)" by (simp add: word_le_nat_alt unat_of_nat_small)
qed

lemma sorted_product: "sorted ys \<Longrightarrow> sorted (map fst (List.product ys xs))"
  by (induction ys) (auto simp: sorted_append comp_def map_replicate_const)

lemma scroll_copy_picture:
  assumes ok: "fb_ok bi" and bi: "g_bi s = Some bi" and p: "x < fb_width bi" "y < fb_height bi"
  shows "pixel (scroll_copy bi s) x y = (if unat y + 20 < unat (fb_height bi) then pixel s x (y + 20) else pixel s x y)"
proof -
  let ?zs = "List.product (upto_u32 20 (fb_height bi)) (upto_u32 0 (fb_width bi))"
  define d where "d z = unat ((fst z - 20) * fb_pitch bi + snd z)" for z :: "u32 \<times> u32"
  define e where "e z = unat (fst z * fb_pitch bi + snd z)" for z :: "u32 \<times> u32"
  have z: "20 \<le> fst z \<and> fst z < fb_height bi \<and> snd z < fb_width bi \<and> unat (fst z - 20) = unat (fst z) - 20" if "z \<in> set ?zs" for z
    using that by (auto simp: upto_u32_iff unat_sub_small)
  have less: "fst z - 20 < fb_height bi" if "z \<in> set ?zs" for z
    using z[OF that] by (simp add: word_less_nat_alt word_le_nat_alt) linarith
  have de: "d z = offset bi (snd z) (fst z - 20)" "e z = offset bi (snd z) (fst z)" if "z \<in> set ?zs" for z
    using offset_no_wrap(2)[OF ok] z[OF that] less[OF that] by (simp_all add: d_def e_def)
  have dist: "distinct (map d ?zs)"
  proof -
    have "inj_on d (set ?zs)"
    proof (rule inj_onI)
      fix u v assume uv: "u \<in> set ?zs" "v \<in> set ?zs" "d u = d v"
      then have "snd u = snd v \<and> fst u - 20 = fst v - 20" using offset_inj[OF ok] z de(1) by metis
      then show "u = v" by (simp add: prod_eq_iff)
    qed
    then show ?thesis by (simp add: distinct_map distinct_product distinct_upto_u32)
  qed
  have apart: "d (?zs ! i) \<noteq> e (?zs ! j)" if ij: "i < j" "j < length ?zs" for i j
  proof
    assume eq: "d (?zs ! i) = e (?zs ! j)"
    have m: "?zs ! i \<in> set ?zs" "?zs ! j \<in> set ?zs" using ij by (meson nth_mem order_less_trans)+
    have "fst (?zs ! i) - 20 = fst (?zs ! j)" using eq offset_inj[OF ok] z m de by metis
    then have "unat (fst (?zs ! j)) = unat (fst (?zs ! i)) - 20" using z[OF m(1)] by simp
    moreover have "fst (?zs ! i) \<le> fst (?zs ! j)"
      using sorted_nth_mono[OF sorted_product[OF sorted_upto_u32], of i j 20 "fb_height bi" "upto_u32 0 (fb_width bi)"] ij by simp
    moreover have "20 \<le> unat (fst (?zs ! i))" using z[OF m(1)] by (simp add: word_le_nat_alt)
    ultimately show False unfolding word_le_nat_alt by linarith
  qed
  have flat: "scroll_copy bi s = for_each ?zs (\<lambda>z. copy_px (d z) (e z)) s"
    unfolding scroll_copy_def for_each_nested line_advance by (simp add: d_def e_def case_prod_unfold)
  note H = copy_hit[of d ?zs e s, OF dist apart]
  have env: "target (scroll_copy bi s) = target s" "g_bi (scroll_copy bi s) = Some bi"
  proof -
    have "target (for_each zs (\<lambda>z. copy_px (d z) (e z)) t) = target t \<and> g_bi (for_each zs (\<lambda>z. copy_px (d z) (e z)) t) = g_bi t" for zs and t :: "'a gfx_scheme"
      by (induction zs arbitrary: t) (simp_all add: copy_px_def store_def target_def)
    then show "target (scroll_copy bi s) = target s" "g_bi (scroll_copy bi s) = Some bi" by (simp_all add: flat bi)
  qed
  show ?thesis
  proof (cases "unat y + 20 < unat (fb_height bi)")
    case True
    then have u: "unat (y + 20) = unat y + 20" using unat_lt_2p[of "fb_height bi"] by (subst unat_add_small) simp_all
    have in_zs: "(y + 20, x) \<in> set ?zs" using True p u by (simp add: upto_u32_iff word_le_nat_alt word_less_nat_alt)
    have "pixels (for_each ?zs (\<lambda>z. copy_px (d z) (e z)) s) (target s) (d (y + 20, x)) = pixels s (target s) (e (y + 20, x))"
      using H in_zs by blast
    then show ?thesis using True de[OF in_zs] env flat bi by (simp add: pixel_def)
  next
    case False
    have "offset bi x y \<notin> d ` set ?zs"
    proof
      assume "offset bi x y \<in> d ` set ?zs"
      then obtain w where w: "w \<in> set ?zs" "offset bi x y = d w" by blast
      then have "y = fst w - 20" using offset_inj[OF ok p(1)] z de(1) by metis
      then have "unat y = unat (fst w) - 20" using z[OF w(1)] by simp
      then show False using False z[OF w(1)] by (simp add: word_less_nat_alt word_le_nat_alt)
    qed
    then show ?thesis using False H env flat bi by (simp add: pixel_def)
  qed
qed

lemma for_each_cong: "(\<And>x. x \<in> set xs \<Longrightarrow> f x = g x) \<Longrightarrow> for_each xs f = for_each xs g"
  by (rule ext) (unfold for_each_def, rule fold_cong, simp_all)

lemma scroll_clear_picture:
  assumes ok: "fb_ok bi" and bi: "g_bi s = Some bi" and p: "x < fb_width bi" "y < fb_height bi"
  shows "pixel (scroll_clear bi s) x y = (if fb_height bi - 20 \<le> y then 0xFF0000FF else pixel s x y)"
proof -
  have "scroll_clear bi s = for_each (upto_u32 (fb_height bi - 20) (min (fb_height bi) (fb_height bi))) (\<lambda>yy.
      for_each (upto_u32 0 (min (fb_width bi) (fb_width bi))) (\<lambda>xx. touch (unat (yy * fb_pitch bi) + unat xx) (\<lambda>_. 0xFF0000FF))) s"
    unfolding scroll_clear_def line_advance min.idem store_touch
  proof (rule fun_cong[where x = s], intro for_each_cong)
    fix yy xx assume "yy \<in> set (upto_u32 (fb_height bi - 20) (fb_height bi))" "xx \<in> set (upto_u32 0 (fb_width bi))"
    then have "xx < fb_width bi" "yy < fb_height bi" by (simp_all add: upto_u32_iff)
    from offset_no_wrap[OF ok this]
    show "touch (unat (yy * fb_pitch bi + xx)) (\<lambda>_. 0xFF0000FF) = touch (unat (yy * fb_pitch bi) + unat xx) (\<lambda>_. 0xFF0000FF :: u32)"
      by (simp add: offset_def)
  qed
  then show ?thesis using grid_pixel[OF ok bi p, of "fb_height bi - 20" "fb_height bi" 0 "fb_width bi" "\<lambda>_ _ _. 0xFF0000FF"] p by simp
qed

text \<open>Scrolling moves the picture up by a line and fills the bottom line with blue.\<close>

lemma scroll_picture:
  fixes s :: "'a gfx_scheme"
  assumes ok: "fb_ok bi" and bi: "g_bi s = Some bi" and p: "x < fb_width bi" "y < fb_height bi" and h: "20 \<le> fb_height bi"
  shows "pixel (scroll_up_fb bi s) x y = (if unat y + 20 < unat (fb_height bi) then pixel s x (y + 20) else 0xFF0000FF)"
proof -
  have "g_bi (scroll_copy bi s) = Some bi" using bi draws_scroll_copy[OF ok, where 'a = 'a] by (simp add: draws_on_def same_env_def)
  from scroll_clear_picture[OF ok this p] scroll_copy_picture[OF ok bi p]
  have "pixel (scroll_up_fb bi s) x y = (if fb_height bi - 20 \<le> y then 0xFF0000FF else if unat y + 20 < unat (fb_height bi) then pixel s x (y + 20) else pixel s x y)"
    by (simp add: scroll_up_fb_def)
  moreover have "unat (fb_height bi - 20) = unat (fb_height bi) - 20" using h by (simp add: unat_sub_small)
  then have "fb_height bi - 20 \<le> y \<longleftrightarrow> \<not> unat y + 20 < unat (fb_height bi)" using h by (auto simp: word_le_nat_alt)
  ultimately show ?thesis by simp
qed

section \<open>The cursor\<close>

text \<open>The cursor is inside the screen, and a character starting there fits the line when the screen is wide enough.\<close>

definition console_ok :: "boot_fb \<Rightarrow> console \<Rightarrow> bool" where
  "console_ok bi s \<longleftrightarrow> g_bi s = Some bi \<and> g_back s = None \<and> g_CursorY s < fb_height bi \<and>
     (g_CursorX s = 0 \<or> unat (g_CursorX s) + 16 \<le> unat (fb_width bi))"

text \<open>Nothing but visible pixels of the frame buffer changes.\<close>

definition console_draws :: "boot_fb \<Rightarrow> console \<Rightarrow> console \<Rightarrow> bool" where
  "console_draws bi s t \<longleftrightarrow> cga_font t = cga_font s \<and> (\<forall>b i. b \<noteq> Framebuffer \<or> \<not> visible bi i \<longrightarrow> pixels t b i = pixels s b i)"

lemma console_draws_trans: "console_draws bi s t \<Longrightarrow> console_draws bi t u \<Longrightarrow> console_draws bi s u"
  by (simp add: console_draws_def)

lemma draws_on_console:
  assumes "draws_on bi f" "g_bi s = Some bi" "g_back s = None"
  shows "console_draws bi s (f s) \<and> g_bi (f s) = Some bi \<and> g_back (f s) = None \<and> g_CursorX (f s) = g_CursorX s \<and> g_CursorY (f s) = g_CursorY s"
proof -
  have e: "same_env s (f s)" and p: "\<forall>b i. b \<noteq> target s \<or> \<not> visible bi i \<longrightarrow> pixels (f s) b i = pixels s b i"
    using assms(1,2) unfolding draws_on_def by blast+
  have "gfx.more (f s) = gfx.more s" using e by (simp add: same_env_def)
  then have "g_CursorX (f s) = g_CursorX s" "g_CursorY (f s) = g_CursorY s"
    by (cases s; cases "f s"; simp)+
  then show ?thesis using e p assms(2,3) by (simp add: console_draws_def same_env_def target_def)
qed

lemma next_line_ok:
  assumes "fb_ok bi" "g_bi s = Some bi" "g_back s = None" "g_CursorY s < fb_height bi"
  shows "console_ok bi (next_line bi s) \<and> console_draws bi s (next_line bi s)"
proof -
  let ?s = "s\<lparr>g_CursorX := 0, g_CursorY := g_CursorY s + console_line_advance\<rparr>"
  have "console_draws bi ?s (scroll_up_fb bi ?s) \<and> g_bi (scroll_up_fb bi ?s) = Some bi \<and> g_back (scroll_up_fb bi ?s) = None \<and>
      g_CursorX (scroll_up_fb bi ?s) = 0"
    using draws_on_console[OF draws_scroll[OF assms(1)], of ?s] assms(2,3) by simp
  then show ?thesis
    using assms(2-4) by (auto simp: next_line_def Let_def console_ok_def console_draws_def not_le)
qed

lemma draws_console_glyph: "draws (console_glyph c cx cy color)"
  unfolding console_glyph_def Let_def by (intro draws_intros)

lemma PutChar_ok:
  assumes ok: "fb_ok bi" "unat (fb_width bi) + 32 < 2 ^ 32" and s: "console_ok bi s"
  shows "\<exists>t. PutChar c color s = Some t \<and> console_ok bi t \<and> console_draws bi s t"
proof (cases "c = 10")
  case True
  then show ?thesis using next_line_ok[OF ok(1)] s by (simp add: PutChar_def console_ok_def)
next
  case False
  let ?g = "console_glyph c (g_CursorX s) (g_CursorY s) color s"
  let ?t = "?g\<lparr>g_CursorX := g_CursorX ?g + console_char_w\<rparr>"
  have "draws_on bi (console_glyph c (g_CursorX s) (g_CursorY s) color)" by (rule draws_console_glyph[unfolded draws_def, rule_format, OF ok(1)])
  note g = draws_on_console[OF this, of s]
  have s': "g_bi s = Some bi" "g_back s = None" "g_CursorY s < fb_height bi" "g_CursorX s = 0 \<or> unat (g_CursorX s) + 16 \<le> unat (fb_width bi)"
    using s by (simp_all add: console_ok_def)
  have d: "console_draws bi s ?t" using g s' by (simp add: console_draws_def)
  show ?thesis
  proof (cases "g_CursorX ?t + console_char_w > fb_width bi")
    case True
    have "console_ok bi (next_line bi ?t) \<and> console_draws bi ?t (next_line bi ?t)"
      using g s' by (intro next_line_ok[OF ok(1)]) simp_all
    then show ?thesis using True False s'(1) console_draws_trans[OF d] by (simp add: PutChar_def Let_def)
  next
    case less: False
    have x: "unat (g_CursorX s + 16) = unat (g_CursorX s) + 16" "unat (g_CursorX s + 16 + 16) = unat (g_CursorX s) + 32"
      using s'(4) ok(2) by (auto simp: unat_add_small)
    have "console_ok bi ?t" using g s' less x by (simp add: console_ok_def line_advance word_less_nat_alt)
    then show ?thesis using less False s'(1) d by (simp add: PutChar_def Let_def)
  qed
qed

text \<open>Any text can be printed: the console draws on the visible screen only and the cursor stays on it.\<close>

lemma PrintString_ok:
  assumes "fb_ok bi" "unat (fb_width bi) + 32 < 2 ^ 32"
  shows "console_ok bi s \<Longrightarrow> \<exists>t. PrintString cs color s = Some t \<and> console_ok bi t \<and> console_draws bi s t"
proof (induction cs arbitrary: s)
  case (Cons c cs)
  obtain t where t: "PutChar c color s = Some t" "console_ok bi t" "console_draws bi s t" using PutChar_ok[OF assms Cons.prems] by blast
  obtain u where "PrintString cs color t = Some u" "console_ok bi u" "console_draws bi t u" using Cons.IH[OF t(2)] by blast
  then show ?case using t console_draws_trans Cons.prems by (auto simp: console_draws_def)
qed (simp add: console_draws_def)

lemma ConsoleInit_ok:
  "fb_ok bi \<Longrightarrow> g_back s = None \<Longrightarrow> g_CursorX s = 0 \<Longrightarrow> g_CursorY s = 0 \<Longrightarrow> console_ok bi (ConsoleInit bi s)"
  by (simp add: console_ok_def ConsoleInit_def fb_ok_def)

end
