(* ===== verification/SetupWizard.thy ===== *)
theory SetupWizard
  imports Pmm
begin

text \<open>
  The stand-alone setup wizard, \<open>src/kernel/core/setup_wizard.c\<close>, which no other file calls: it puts a
  partition table and a FAT16 file system on a RAM disk of 2048 sectors for which it allocates one
  page. Memory is a map of bytes; the texts it prints and its pauses are left out. \<open>stack\<close> is what
  the stack holds behind a local variable.
\<close>

section \<open>The RAM disk\<close>

record ramdisk =
  rd_pmm :: pmm
  rd_mem :: "u64 \<Rightarrow> u8"
  fake_disk_storage :: u64

definition fake_disk_sectors :: u32 where "fake_disk_sectors = 2048"
definition SECTOR_SIZE :: u32 where "SECTOR_SIZE = 512"

definition fake_disk_init :: "ramdisk \<Rightarrow> bool \<times> ramdisk" where
  "fake_disk_init s =
     (if fake_disk_storage s \<noteq> 0 then (True, s)
      else
        let (a, p) = PMM_AllocatePage (rd_pmm s); s = s\<lparr>rd_pmm := p, fake_disk_storage := a\<rparr> in
        if a = 0 then (False, s) else (True, s\<lparr>rd_mem := store_bytes a (replicate 4096 0) (rd_mem s)\<rparr>))"

definition sector_addr :: "ramdisk \<Rightarrow> u32 \<Rightarrow> u64" where
  "sector_addr s lba = fake_disk_storage s + ucast (lba * SECTOR_SIZE)"

text \<open>The 512 bytes stored to the caller's buffer, or \<open>None\<close>.\<close>

definition fake_disk_read_sector :: "u32 \<Rightarrow> ramdisk \<Rightarrow> u8 list option" where
  "fake_disk_read_sector lba s =
     (if fake_disk_storage s = 0 \<or> lba \<ge> fake_disk_sectors then None else Some (bytes_at (rd_mem s) (sector_addr s lba) 512))"

definition fake_disk_write_sector :: "u32 \<Rightarrow> u8 list \<Rightarrow> ramdisk \<Rightarrow> bool \<times> ramdisk" where
  "fake_disk_write_sector lba buf s =
     (if fake_disk_storage s = 0 \<or> lba \<ge> fake_disk_sectors then (False, s)
      else (True, s\<lparr>rd_mem := store_bytes (sector_addr s lba) (take 512 buf) (rd_mem s)\<rparr>))"

section \<open>Partition table and file system\<close>

record mbr_partition =
  boot_flag :: u8
  partition_type :: u8
  start_lba :: u32
  total_sectors :: u32

definition partition_bytes :: "mbr_partition \<Rightarrow> u8 list" where
  "partition_bytes p = [boot_flag p, 0, 0, 0, partition_type p, 0, 0, 0] @ le32 (start_lba p) @ le32 (total_sectors p)"

definition mbr_bytes :: "mbr_partition \<Rightarrow> u8 list" where
  "mbr_bytes p = replicate 446 0 @ partition_bytes p @ replicate 48 0 @ [0x55, 0xAA]"

definition write_mbr :: "u32 \<Rightarrow> u32 \<Rightarrow> ramdisk \<Rightarrow> bool \<times> ramdisk" where
  "write_mbr partition_start_lba partition_sectors s =
     fake_disk_write_sector 0
       (mbr_bytes \<lparr>boot_flag = 0, partition_type = 0x0E, start_lba = partition_start_lba, total_sectors = partition_sectors\<rparr>) s"

record fat_bpb =
  bytes_per_sector :: u16
  sectors_per_cluster :: u8
  reserved_sectors :: u16
  num_fats :: u8
  root_entries :: u16
  total_sectors_16 :: u16
  media_type :: u8
  fat_size_16 :: u16
  sectors_per_track :: u16
  num_heads :: u16
  drive_number :: u8
  boot_signature :: u8
  volume_id :: u32
  volume_label :: "u8 list"
  fs_type :: "u8 list"

definition bpb_bytes :: "fat_bpb \<Rightarrow> u8 list" where
  "bpb_bytes b = replicate 11 0 @ le16 (bytes_per_sector b) @ [sectors_per_cluster b] @ le16 (reserved_sectors b) @ [num_fats b] @
     le16 (root_entries b) @ le16 (total_sectors_16 b) @ [media_type b] @ le16 (fat_size_16 b) @ le16 (sectors_per_track b) @
     le16 (num_heads b) @ le32 0 @ le32 0 @ [drive_number b, 0, boot_signature b] @ le32 (volume_id b) @ volume_label b @ fs_type b"

definition fat_bpb_for :: "u32 \<Rightarrow> fat_bpb" where
  "fat_bpb_for partition_sectors =
     \<lparr>bytes_per_sector = 512, sectors_per_cluster = 4, reserved_sectors = 1, num_fats = 2, root_entries = 512,
      total_sectors_16 = ucast partition_sectors, media_type = 0xF8,
      fat_size_16 = ucast ((partition_sectors - 1 - (512 * 32 + SECTOR_SIZE - 1) div SECTOR_SIZE) div (2 + 1)),
      sectors_per_track = 63, num_heads = 255, drive_number = 0x80, boot_signature = 0x29, volume_id = 0x12345678,
      volume_label = map of_char ''FAKEDISK   '', fs_type = map of_char ''FAT16   ''\<rparr>"

definition fat_sector :: "fat_bpb \<Rightarrow> u8 list" where
  "fat_sector b = [media_type b, 0xFF, 0xFF] @ replicate 509 0"

text \<open>The boot sector is written from a variable of 62 bytes: the rest comes from the stack behind it.\<close>

definition format_fat16 :: "(nat \<Rightarrow> u8) \<Rightarrow> u32 \<Rightarrow> u32 \<Rightarrow> ramdisk \<Rightarrow> bool \<times> ramdisk" where
  "format_fat16 stack partition_lba partition_sectors s =
     (let bpb = fat_bpb_for partition_sectors;
          (ok, s) = fake_disk_write_sector partition_lba (bpb_bytes bpb @ map stack [0..<450]) s in
      if \<not> ok then (False, s)
      else
        let fat_start = partition_lba + ucast (reserved_sectors bpb) in
        fold (\<lambda>i (ok, s). if ok then fake_disk_write_sector (fat_start + of_nat i) (fat_sector bpb) s else (ok, s))
          [0..<unat (num_fats bpb)] (True, s))"

section \<open>The wizard\<close>

definition wizard_step_detect :: "ramdisk \<Rightarrow> ramdisk" where
  "wizard_step_detect s = (if fake_disk_storage s \<noteq> 0 then s else snd (fake_disk_init s))"

definition wizard_step_partition :: "ramdisk \<Rightarrow> ramdisk" where
  "wizard_step_partition s = snd (write_mbr 1 (fake_disk_sectors - 1) s)"

definition wizard_step_format :: "(nat \<Rightarrow> u8) \<Rightarrow> ramdisk \<Rightarrow> ramdisk" where
  "wizard_step_format stack s = snd (format_fat16 stack 1 (fake_disk_sectors - 1) s)"

text \<open>
  The sector read back goes to a variable of 62 bytes. \<open>Overrun\<close> has the bytes stored behind it, over
  whatever the stack holds there: nothing can be said about what follows.
\<close>

datatype verify = Read_failed | Overrun u16 "u8 list"

definition wizard_step_verify :: "ramdisk \<Rightarrow> verify" where
  "wizard_step_verify s =
     (case fake_disk_read_sector 0 s of
        None \<Rightarrow> Read_failed
      | Some mbr \<Rightarrow>
          (case fake_disk_read_sector 1 s of
             None \<Rightarrow> Read_failed
           | Some sec \<Rightarrow> Overrun (push_bit 8 (ucast (mbr ! 510)) OR ucast (mbr ! 511)) (drop 62 sec)))"

definition setup_wizard_run :: "(nat \<Rightarrow> u8) \<Rightarrow> ramdisk \<Rightarrow> verify \<times> ramdisk" where
  "setup_wizard_run stack s =
     (let s = wizard_step_detect s; s = wizard_step_partition s; s = wizard_step_format stack s in (wizard_step_verify s, s))"

section \<open>What the wizard leaves behind\<close>

lemma page_put:
  assumes "unat a + 4096 \<le> 2 ^ 64" "k + length bs \<le> 4096"
  shows "bytes_at (store_bytes (a + of_nat k) bs m) a 4096 = take k (bytes_at m a 4096) @ bs @ drop (k + length bs) (bytes_at m a 4096)"
    "unat x < unat a \<or> unat a + 4096 \<le> unat x \<Longrightarrow> store_bytes (a + of_nat k) bs m x = m x"
proof -
  have u: "bs \<noteq> [] \<Longrightarrow> unat (a + of_nat k) = unat a + k" using bytes_at_nth[OF assms(1), of k] assms(2) by (cases bs) auto
  have v: "store_bytes (a + of_nat k) bs m x = (if unat a + k \<le> unat x \<and> unat x < unat a + k + length bs then bs ! (unat x - (unat a + k)) else m x)" for x
  proof (cases "bs = []")
    case False
    then show ?thesis using store_bytes_at[of "a + of_nat k" bs m x] u assms by simp
  qed (auto simp: store_bytes_def)
  show "unat x < unat a \<or> unat a + 4096 \<le> unat x \<Longrightarrow> store_bytes (a + of_nat k) bs m x = m x" using assms(2) by (auto simp: v)
  show "bytes_at (store_bytes (a + of_nat k) bs m) a 4096 = take k (bytes_at m a 4096) @ bs @ drop (k + length bs) (bytes_at m a 4096)"
  proof (rule nth_equalityI)
    fix i assume "i < length (bytes_at (store_bytes (a + of_nat k) bs m) a 4096)"
    then have i: "i < 4096" by simp
    show "bytes_at (store_bytes (a + of_nat k) bs m) a 4096 ! i = (take k (bytes_at m a 4096) @ bs @ drop (k + length bs) (bytes_at m a 4096)) ! i"
      using bytes_at_nth[OF assms(1) i] assms(2) i by (auto simp: v nth_append)
  qed (use assms(2) in simp)
qed

text \<open>The four sectors of a disk that the wizard has set up.\<close>

definition wizard_disk :: "(nat \<Rightarrow> u8) \<Rightarrow> u8 list" where
  "wizard_disk stack =
     mbr_bytes \<lparr>boot_flag = 0, partition_type = 0x0E, start_lba = 1, total_sectors = 2047\<rparr> @
     (bpb_bytes (fat_bpb_for 2047) @ map stack [0..<450]) @
     fat_sector (fat_bpb_for 2047) @ fat_sector (fat_bpb_for 2047) @ replicate 2048 0"

lemma sector_lengths: "length (mbr_bytes q) = 512" "length (bpb_bytes (fat_bpb_for n)) = 62" "length (fat_sector b) = 512"
  by (simp_all add: mbr_bytes_def partition_bytes_def bpb_bytes_def fat_bpb_for_def fat_sector_def)

lemma write_sector_page:
  assumes "fake_disk_storage s \<noteq> 0" "unat (fake_disk_storage s) + 4096 \<le> 2 ^ 64" "n < 8" "length bs = 512"
  shows "\<exists>t. fake_disk_write_sector (of_nat n) bs s = (True, t) \<and> fake_disk_storage t = fake_disk_storage s \<and> rd_pmm t = rd_pmm s \<and>
    bytes_at (rd_mem t) (fake_disk_storage s) 4096 =
      take (512 * n) (bytes_at (rd_mem s) (fake_disk_storage s) 4096) @ bs @ drop (512 * n + 512) (bytes_at (rd_mem s) (fake_disk_storage s) 4096) \<and>
    (\<forall>x. unat x < unat (fake_disk_storage s) \<or> unat (fake_disk_storage s) + 4096 \<le> unat x \<longrightarrow> rd_mem t x = rd_mem s x)"
proof -
  have n: "n \<in> {0, 1, 2, 3, 4, 5, 6, 7}" using assms(3) by auto
  then have a: "sector_addr s (of_nat n) = fake_disk_storage s + of_nat (512 * n)" by (auto simp: sector_addr_def SECTOR_SIZE_def)
  have "of_nat n < fake_disk_sectors" using n by (auto simp: fake_disk_sectors_def)
  then show ?thesis
    using assms page_put[where a = "fake_disk_storage s" and k = "512 * n" and bs = bs and m = "rd_mem s"] by (auto simp: fake_disk_write_sector_def a)
qed

lemma write_sector_split:
  assumes "fake_disk_storage s = a" "a \<noteq> 0" "unat a + 4096 \<le> 2 ^ 64" "length bs = 512"
    and "bytes_at (rd_mem s) a 4096 = xs @ ys @ zs" "length xs = 512 * n" "length ys = 512" "k = of_nat n" "n < 8"
  obtains t where "fake_disk_write_sector k bs s = (True, t)" "fake_disk_storage t = a" "rd_pmm t = rd_pmm s"
    "bytes_at (rd_mem t) a 4096 = xs @ bs @ zs" "\<forall>x. unat x < unat a \<or> unat a + 4096 \<le> unat x \<longrightarrow> rd_mem t x = rd_mem s x"
  using write_sector_page[of s n bs] assms by auto

lemma run_sectors:
  assumes s: "fake_disk_storage s = a" "a \<noteq> 0" "unat a + 4096 \<le> 2 ^ 64" "bytes_at (rd_mem s) a 4096 = replicate 4096 0"
  shows "\<exists>t. wizard_step_format stack (wizard_step_partition s) = t \<and> fake_disk_storage t = a \<and> rd_pmm t = rd_pmm s \<and>
    bytes_at (rd_mem t) a 4096 = wizard_disk stack \<and>
    (\<forall>x. unat x < unat a \<or> unat a + 4096 \<le> unat x \<longrightarrow> rd_mem t x = rd_mem s x)"
proof -
  let ?mbr = "mbr_bytes \<lparr>boot_flag = 0, partition_type = 0x0E, start_lba = 1, total_sectors = 2047\<rparr>"
  let ?bpb = "bpb_bytes (fat_bpb_for 2047) @ map stack [0..<450]" and ?fat = "fat_sector (fat_bpb_for 2047)"
  let ?z = "replicate 512 0 :: u8 list"
  have "replicate 4096 0 = ?z @ ?z @ ?z @ ?z @ replicate 2048 (0 :: u8)" unfolding replicate_add[symmetric] by simp
  then have z: "bytes_at (rd_mem s) a 4096 = [] @ ?z @ ?z @ ?z @ ?z @ replicate 2048 0" using s(4) by simp
  note L = sector_lengths length_append length_map length_upt length_replicate list.size
  obtain t1 where 1: "fake_disk_write_sector 0 ?mbr s = (True, t1)" "fake_disk_storage t1 = a" "rd_pmm t1 = rd_pmm s"
    "bytes_at (rd_mem t1) a 4096 = [] @ ?mbr @ ?z @ ?z @ ?z @ replicate 2048 0"
    "\<forall>x. unat x < unat a \<or> unat a + 4096 \<le> unat x \<longrightarrow> rd_mem t1 x = rd_mem s x"
    by (rule write_sector_split[OF s(1-3) _ z, of ?mbr 0 0]) (simp_all only: L, simp_all)
  have z1: "bytes_at (rd_mem t1) a 4096 = ?mbr @ ?z @ ?z @ ?z @ replicate 2048 0" using 1(4) by simp
  obtain t2 where 2: "fake_disk_write_sector 1 ?bpb t1 = (True, t2)" "fake_disk_storage t2 = a" "rd_pmm t2 = rd_pmm t1"
    "bytes_at (rd_mem t2) a 4096 = ?mbr @ ?bpb @ ?z @ ?z @ replicate 2048 0"
    "\<forall>x. unat x < unat a \<or> unat a + 4096 \<le> unat x \<longrightarrow> rd_mem t2 x = rd_mem t1 x"
    by (rule write_sector_split[OF 1(2) s(2,3) _ z1, of ?bpb 1 1]) (simp_all only: L, simp_all)
  have z2: "bytes_at (rd_mem t2) a 4096 = (?mbr @ ?bpb) @ ?z @ ?z @ replicate 2048 0" using 2(4) by simp
  obtain t3 where 3: "fake_disk_write_sector 2 ?fat t2 = (True, t3)" "fake_disk_storage t3 = a" "rd_pmm t3 = rd_pmm t2"
    "bytes_at (rd_mem t3) a 4096 = (?mbr @ ?bpb) @ ?fat @ ?z @ replicate 2048 0"
    "\<forall>x. unat x < unat a \<or> unat a + 4096 \<le> unat x \<longrightarrow> rd_mem t3 x = rd_mem t2 x"
    by (rule write_sector_split[OF 2(2) s(2,3) _ z2, of ?fat 2 2]) (simp_all only: L, simp_all)
  have z3: "bytes_at (rd_mem t3) a 4096 = (?mbr @ ?bpb @ ?fat) @ ?z @ replicate 2048 0" using 3(4) by simp
  obtain t4 where 4: "fake_disk_write_sector 3 ?fat t3 = (True, t4)" "fake_disk_storage t4 = a" "rd_pmm t4 = rd_pmm t3"
    "bytes_at (rd_mem t4) a 4096 = (?mbr @ ?bpb @ ?fat) @ ?fat @ replicate 2048 0"
    "\<forall>x. unat x < unat a \<or> unat a + 4096 \<le> unat x \<longrightarrow> rd_mem t4 x = rd_mem t3 x"
    by (rule write_sector_split[OF 3(2) s(2,3) _ z3, of ?fat 3 3]) (simp_all only: L, simp_all)
  have w: "bytes_at (rd_mem t4) a 4096 = wizard_disk stack" using 4(4) by (simp add: wizard_disk_def)
  have p: "wizard_step_partition s = t1" using 1(1) by (simp add: wizard_step_partition_def write_mbr_def fake_disk_sectors_def)
  have two: "[0..<unat (num_fats (fat_bpb_for n))] = [0, 1]" "reserved_sectors (fat_bpb_for n) = 1" for n
    by (simp_all add: fat_bpb_for_def upt_rec)
  have "wizard_step_format stack t1 = t4"
    using 2(1) 3(1) 4(1) by (simp add: wizard_step_format_def format_fat16_def fake_disk_sectors_def Let_def two)
  moreover have "rd_pmm t4 = rd_pmm s" using 1(3) 2(3) 3(3) 4(3) by simp
  moreover have "\<forall>x. unat x < unat a \<or> unat a + 4096 \<le> unat x \<longrightarrow> rd_mem t4 x = rd_mem s x" using 1(5) 2(5) 3(5) 4(5) by metis
  ultimately show ?thesis using p 4(2) w by blast
qed

lemma verify_overrun:
  assumes "fake_disk_storage t = a" "a \<noteq> 0" "unat a + 4096 \<le> 2 ^ 64" "bytes_at (rd_mem t) a 4096 = wizard_disk stack"
  shows "wizard_step_verify t = Overrun 0x55AA (map stack [0..<450])"
proof -
  have sec: "fake_disk_read_sector n t = Some (take 512 (drop (512 * unat n) (wizard_disk stack)))" if "n = 0 \<or> n = 1" for n
  proof -
    have ad: "sector_addr t n = a + of_nat (512 * unat n)" using that assms(1) by (auto simp: sector_addr_def SECTOR_SIZE_def)
    have "bytes_at (rd_mem t) (sector_addr t n) 512 = take 512 (drop (512 * unat n) (bytes_at (rd_mem t) a 4096))"
      unfolding ad using that by (intro nth_equalityI) (auto simp: bytes_at_def add.assoc)
    then show ?thesis using that assms by (auto simp: fake_disk_read_sector_def fake_disk_sectors_def word_le_nat_alt)
  qed
  have "fake_disk_read_sector 0 t = Some (mbr_bytes \<lparr>boot_flag = 0, partition_type = 0x0E, start_lba = 1, total_sectors = 2047\<rparr>)"
    "fake_disk_read_sector 1 t = Some (bpb_bytes (fat_bpb_for 2047) @ map stack [0..<450])"
    using sec[of 0] sec[of 1] sector_lengths by (simp_all add: wizard_disk_def)
  then show ?thesis using sector_lengths
    by (simp add: wizard_step_verify_def mbr_bytes_def partition_bytes_def nth_append)
qed

text \<open>
  With a page to be had the wizard formats its disk inside that page, and then always runs over the
  end of a local variable while it verifies the result: the 450 bytes it stores there are the ones
  the format step had copied to the disk from behind another variable.
\<close>

lemma setup_wizard_overruns:
  assumes wf: "pmm_wf (rd_pmm s)" and s: "fake_disk_storage s = 0" and av: "available (rd_pmm s) \<noteq> {}"
  shows "\<exists>a t. setup_wizard_run stack s = (Overrun 0x55AA (map stack [0..<450]), t) \<and> a \<in> available (rd_pmm s) \<and>
    fake_disk_storage t = a \<and> available (rd_pmm t) = available (rd_pmm s) - {a} \<and> bytes_at (rd_mem t) a 4096 = wizard_disk stack \<and>
    (\<forall>x. unat x < unat a \<or> unat a + 4096 \<le> unat x \<longrightarrow> rd_mem t x = rd_mem s x)"
proof -
  obtain a p where al: "PMM_AllocatePage (rd_pmm s) = (a, p)" by fastforce
  have a: "a \<in> available (rd_pmm s)" "available p = available (rd_pmm s) - {a}"
    using pmm.alloc_avail[OF wf av] pmm.avail_alloc[OF wf] al by auto
  have m: "a \<noteq> 0" "unat a mod 4096 = 0" using pmm.frames_aligned[OF wf] pmm.avail_frames[OF wf] a(1) by blast+
  have top: "unat a + 4096 \<le> 2 ^ 64"
  proof -
    obtain k where "unat a = 4096 * k" using m(2) by auto
    then show ?thesis using unat_lt_2p[of a] by simp
  qed
  define t0 where "t0 = snd (fake_disk_init s)"
  have t0: "fake_disk_storage t0 = a" "rd_pmm t0 = p" "rd_mem t0 = store_bytes a (replicate 4096 0) (rd_mem s)"
    using al s m(1) by (simp_all add: t0_def fake_disk_init_def)
  have z: "bytes_at (rd_mem t0) a 4096 = replicate 4096 0"
    "\<forall>x. unat x < unat a \<or> unat a + 4096 \<le> unat x \<longrightarrow> rd_mem t0 x = rd_mem s x"
    using page_put[OF top, where k = 0 and bs = "replicate 4096 0" and m = "rd_mem s"] t0(3) by auto
  obtain t where t: "wizard_step_format stack (wizard_step_partition t0) = t" "fake_disk_storage t = a" "rd_pmm t = p"
    "bytes_at (rd_mem t) a 4096 = wizard_disk stack" "\<forall>x. unat x < unat a \<or> unat a + 4096 \<le> unat x \<longrightarrow> rd_mem t x = rd_mem t0 x"
    using run_sectors[OF t0(1) m(1) top z(1)] t0(2) by auto
  have "setup_wizard_run stack s = (Overrun 0x55AA (map stack [0..<450]), t)"
    using verify_overrun[OF t(2) m(1) top t(4)] t(1) s by (simp add: setup_wizard_run_def wizard_step_detect_def t0_def[symmetric])
  then show ?thesis using a t z(2) by auto
qed

text \<open>Without a page every step fails and nothing is written.\<close>

lemma setup_wizard_no_page:
  assumes "pmm_wf (rd_pmm s)" "fake_disk_storage s = 0" "available (rd_pmm s) = {}"
  shows "fst (setup_wizard_run stack s) = Read_failed \<and> rd_mem (snd (setup_wizard_run stack s)) = rd_mem s"
  using assms pmm.alloc_empty
  by (simp add: setup_wizard_run_def wizard_step_detect_def fake_disk_init_def wizard_step_partition_def write_mbr_def
      wizard_step_format_def format_fat16_def fake_disk_write_sector_def wizard_step_verify_def fake_disk_read_sector_def Let_def)

text \<open>
  By its own boot sector the second FAT starts 671 sectors behind the first; the wizard writes it
  right behind the first sector of the first. Any sector from the eighth on is outside the page.
\<close>

lemma second_fat: "1 + unat (reserved_sectors (fat_bpb_for 2047)) + unat (fat_size_16 (fat_bpb_for 2047)) = 673"
  by (simp add: fat_bpb_for_def SECTOR_SIZE_def)

lemma sector_outside:
  assumes "unat (fake_disk_storage s) + 2 ^ 20 \<le> 2 ^ 64" "8 \<le> n" "n < 2048"
  shows "unat (sector_addr s (of_nat n)) \<ge> unat (fake_disk_storage s) + 4096"
proof -
  have "unat (of_nat n * 512 :: u32) = n * 512"
  proof -
    have "unat (of_nat n :: u32) = n" using assms(3) by (intro unat_of_nat_small) simp
    then show ?thesis using assms(3) by (subst unat_mult_small) simp_all
  qed
  then have "unat (ucast (of_nat n * 512 :: u32) :: u64) = n * 512"
    using assms(3) by (simp add: unsigned_ucast_eq take_bit_eq_mod)
  then show ?thesis using assms by (simp add: sector_addr_def SECTOR_SIZE_def unat_add_small)
qed

end
