(* ===== verification/Bootloader.thy ===== *)
theory Bootloader
  imports KernelMain
begin

text \<open>
  The UEFI boot loader, \<open>src/boot/main.c\<close>: it loads the segments of the kernel's ELF file and picks
  the memory region the kernel will manage. The firmware and its library are parameters: the file,
  the graphics mode and the memory map they deliver, \<open>SetMem\<close> and \<open>CopyMem\<close>, and the layout of the
  structures of \<open>elf.h\<close> and of the memory type. \<open>AllocatePages\<close> only reserves the pages of a
  segment, and its status is not looked at; it is left out, as is \<open>ExitBootServices\<close>.
\<close>

section \<open>The firmware\<close>

type_synonym bytes = "u64 \<Rightarrow> u8"

record elf_layout =
  o_entry :: u64
  o_phoff :: u64
  o_phnum :: u64
  sizeof_phdr :: u64
  o_type :: u64
  o_offset :: u64
  o_vaddr :: u64
  o_filesz :: u64
  o_memsz :: u64
  PT_LOAD :: u32

record memory_descriptor =
  md_Type :: u32
  PhysicalStart :: u64
  NumberOfPages :: u64

record gop_mode =
  FrameBufferBase :: u64
  HorizontalResolution :: u32
  VerticalResolution :: u32
  PixelsPerScanLine :: u32

record efi =
  elf :: elf_layout
  EfiConventionalMemory :: u32
  SetMem :: "u64 \<Rightarrow> u64 \<Rightarrow> u8 \<Rightarrow> bytes \<Rightarrow> bytes"
  CopyMem :: "u64 \<Rightarrow> u64 \<Rightarrow> u64 \<Rightarrow> bytes \<Rightarrow> bytes"

section \<open>The loader\<close>

definition mem16 :: "bytes \<Rightarrow> u64 \<Rightarrow> u16" where "mem16 m a = rd16 (bytes_at m a 2) 0"
definition mem32 :: "bytes \<Rightarrow> u64 \<Rightarrow> u32" where "mem32 m a = rd32 (bytes_at m a 4) 0"
definition mem64 :: "bytes \<Rightarrow> u64 \<Rightarrow> u64" where "mem64 m a = rd64 (bytes_at m a 8) 0"

definition load_segment :: "efi \<Rightarrow> u64 \<Rightarrow> u64 \<Rightarrow> bytes \<Rightarrow> bytes" where
  "load_segment e buffer phdr m =
     (let L = elf e in
      if mem32 m (phdr + o_type L) = PT_LOAD L then
        let seg = mem64 m (phdr + o_vaddr L);
            m = SetMem e seg (mem64 m (phdr + o_memsz L)) 0 m in
        CopyMem e seg (buffer + mem64 m (phdr + o_offset L)) (mem64 m (phdr + o_filesz L)) m
      else m)"

text \<open>The bound of the loop is read again in every round; it has 16 bits.\<close>

function load_segments :: "efi \<Rightarrow> u64 \<Rightarrow> u64 \<Rightarrow> nat \<Rightarrow> bytes \<Rightarrow> bytes" where
  "load_segments e buffer phdrs i m =
     (if i < unat (mem16 m (buffer + o_phnum (elf e)))
      then load_segments e buffer phdrs (i + 1) (load_segment e buffer (phdrs + of_nat i * sizeof_phdr (elf e)) m)
      else m)"
  by auto
termination
proof (relation "measure (\<lambda>(e, buffer, phdrs, i, m). 65536 - i)")
  fix e :: efi and buffer phdrs :: u64 and i :: nat and m :: bytes
  assume "i < unat (mem16 m (buffer + o_phnum (elf e)))"
  also have "\<dots> < 65536" using unat_lt_2p[of "mem16 m (buffer + o_phnum (elf e))"] by simp
  finally show "((e, buffer, phdrs, i + 1, load_segment e buffer (phdrs + of_nat i * sizeof_phdr (elf e)) m), e, buffer, phdrs, i, m)
      \<in> measure (\<lambda>(e, buffer, phdrs, i, m). 65536 - i)" by simp
qed simp

declare load_segments.simps [simp del]

definition largest_step :: "efi \<Rightarrow> memory_descriptor \<Rightarrow> u64 \<times> u64 \<Rightarrow> u64 \<times> u64" where
  "largest_step e d r =
     (if md_Type d = EfiConventionalMemory e then
        if NumberOfPages d * 4096 > snd r then (PhysicalStart d, NumberOfPages d * 4096) else r
      else r)"

definition largest_region :: "efi \<Rightarrow> memory_descriptor list \<Rightarrow> u64 \<times> u64" where
  "largest_region e memmap = fold (largest_step e) memmap (0, 0)"

datatype efi_result = Not_found | Load_error | Gop_error u64 | Enter u64 boot_info bytes

text \<open>\<open>buffer\<close> is the pool memory that the file has been read to, when there is one.\<close>

definition efi_main :: "efi \<Rightarrow> u64 option \<Rightarrow> u64 + gop_mode \<Rightarrow> memory_descriptor list \<Rightarrow> bytes \<Rightarrow> efi_result" where
  "efi_main e kernel_file gop memmap m =
     (case kernel_file of
        None \<Rightarrow> Not_found
      | Some buffer \<Rightarrow>
          if bytes_at m buffer 4 \<noteq> [0x7f, 0x45, 0x4c, 0x46] then Load_error
          else
            let m = load_segments e buffer (buffer + mem64 m (buffer + o_phoff (elf e))) 0 m in
            case gop of
              Inl status \<Rightarrow> Gop_error status
            | Inr g \<Rightarrow>
                let (base, sz) = largest_region e memmap in
                Enter (mem64 m (buffer + o_entry (elf e)))
                  \<lparr>bt_framebuffer = FrameBufferBase g,
                   bt_fb = \<lparr>fb_width = HorizontalResolution g, fb_height = VerticalResolution g, fb_pitch = PixelsPerScanLine g\<rparr>,
                   region_base = base, region_size = sz\<rparr> m)"

section \<open>The region\<close>

lemma largest_fold:
  "case fold (largest_step e) ds r of (b, n) \<Rightarrow>
     snd r \<le> n \<and> (\<forall>d \<in> set ds. md_Type d = EfiConventionalMemory e \<longrightarrow> NumberOfPages d * 4096 \<le> n) \<and>
     ((b, n) = r \<or> (\<exists>d \<in> set ds. md_Type d = EfiConventionalMemory e \<and> b = PhysicalStart d \<and> n = NumberOfPages d * 4096))"
proof (induction ds arbitrary: r)
  case (Cons d ds)
  show ?case using Cons.IH[of "largest_step e d r"] by (cases r) (auto simp: largest_step_def split: prod.splits if_splits)
qed auto

text \<open>
  The kernel gets a conventional region of the map that no other conventional region exceeds, or the
  empty region when the map has none.
\<close>

lemma largest_region_spec:
  assumes "largest_region e ds = (b, n)"
  shows "\<forall>d \<in> set ds. md_Type d = EfiConventionalMemory e \<longrightarrow> NumberOfPages d * 4096 \<le> n"
    "n \<noteq> 0 \<Longrightarrow> \<exists>d \<in> set ds. md_Type d = EfiConventionalMemory e \<and> b = PhysicalStart d \<and> n = NumberOfPages d * 4096"
  using largest_fold[where e = e and ds = ds and r = "(0, 0)"] assms by (auto simp: largest_region_def)

section \<open>The segments\<close>

text \<open>What the two library calls are documented to do, on ranges that do not meet.\<close>

definition efi_ok :: "efi \<Rightarrow> bool" where
  "efi_ok e \<longleftrightarrow>
     (\<forall>a n v m. unat a + unat n \<le> 2 ^ 64 \<longrightarrow> SetMem e a n v m = store_bytes a (replicate (unat n) v) m) \<and>
     (\<forall>a b n m. unat a + unat n \<le> 2 ^ 64 \<and> unat b + unat n \<le> 2 ^ 64 \<and> (unat a + unat n \<le> unat b \<or> unat b + unat n \<le> unat a) \<longrightarrow>
        CopyMem e a b n m = store_bytes a (bytes_at m b (unat n)) m)"

text \<open>\<open>inside B a n\<close>: the \<open>n\<close> bytes at \<open>a\<close> are in the file buffer \<open>B\<close>, given by its address and length.\<close>

definition inside :: "u64 \<times> nat \<Rightarrow> u64 \<Rightarrow> nat \<Rightarrow> bool" where
  "inside B a n \<longleftrightarrow> unat (fst B) \<le> unat a \<and> unat a + n \<le> unat (fst B) + snd B \<and> unat (fst B) + snd B \<le> 2 ^ 64"

definition same_on :: "u64 \<times> nat \<Rightarrow> bytes \<Rightarrow> bytes \<Rightarrow> bool" where
  "same_on B m m' \<longleftrightarrow> (\<forall>a. inside B a 1 \<longrightarrow> m' a = m a)"

lemma same_bytes: "same_on B m m' \<Longrightarrow> inside B a n \<Longrightarrow> bytes_at m' a n = bytes_at m a n"
proof (rule nth_equalityI)
  fix i assume b: "same_on B m m'" "inside B a n" and "i < length (bytes_at m' a n)"
  then have i: "i < n" by simp
  have "unat a + n \<le> 2 ^ 64" using b(2) by (simp add: inside_def)
  note N = bytes_at_nth[OF this i]
  then have "inside B (a + of_nat i) 1" using b(2) i by (auto simp: inside_def)
  then show "bytes_at m' a n ! i = bytes_at m a n ! i" using N b(1) by (simp add: same_on_def)
qed simp

lemma same_reads:
  assumes "same_on B m m'"
  shows "inside B a 2 \<Longrightarrow> mem16 m' a = mem16 m a" "inside B a 4 \<Longrightarrow> mem32 m' a = mem32 m a" "inside B a 8 \<Longrightarrow> mem64 m' a = mem64 m a"
  using same_bytes[OF assms] by (simp_all add: mem16_def mem32_def mem64_def)

text \<open>The program header, its segment's address and image, as the file has them.\<close>

definition loads :: "efi \<Rightarrow> u64 \<Rightarrow> bytes \<Rightarrow> bool" where
  "loads e phdr m \<longleftrightarrow> mem32 m (phdr + o_type (elf e)) = PT_LOAD (elf e)"

definition seg_addr :: "efi \<Rightarrow> u64 \<Rightarrow> bytes \<Rightarrow> u64" where
  "seg_addr e phdr m = mem64 m (phdr + o_vaddr (elf e))"

definition seg_image :: "efi \<Rightarrow> u64 \<Rightarrow> u64 \<Rightarrow> bytes \<Rightarrow> u8 list" where
  "seg_image e buffer phdr m =
     (let filesz = unat (mem64 m (phdr + o_filesz (elf e))); memsz = unat (mem64 m (phdr + o_memsz (elf e))) in
      bytes_at m (buffer + mem64 m (phdr + o_offset (elf e))) filesz @ replicate (memsz - filesz) 0)"

text \<open>A header that lies in the buffer and whose segment is loaded away from it.\<close>

definition phdr_ok :: "efi \<Rightarrow> u64 \<times> nat \<Rightarrow> u64 \<Rightarrow> bytes \<Rightarrow> bool" where
  "phdr_ok e B phdr m \<longleftrightarrow> (let L = elf e in
     inside B (phdr + o_type L) 4 \<and> inside B (phdr + o_vaddr L) 8 \<and> inside B (phdr + o_offset L) 8 \<and>
     inside B (phdr + o_filesz L) 8 \<and> inside B (phdr + o_memsz L) 8 \<and>
     (loads e phdr m \<longrightarrow>
        (let v = unat (seg_addr e phdr m); memsz = unat (mem64 m (phdr + o_memsz L)); filesz = unat (mem64 m (phdr + o_filesz L)) in
         filesz \<le> memsz \<and> v + memsz \<le> 2 ^ 64 \<and> (v + memsz \<le> unat (fst B) \<or> unat (fst B) + snd B \<le> v) \<and>
         inside B (fst B + mem64 m (phdr + o_offset L)) filesz)))"

definition place_segment :: "efi \<Rightarrow> u64 \<Rightarrow> bytes \<Rightarrow> u64 \<Rightarrow> bytes \<Rightarrow> bytes" where
  "place_segment e buffer m0 phdr m = (if loads e phdr m0 then store_bytes (seg_addr e phdr m0) (seg_image e buffer phdr m0) m else m)"

lemma length_seg_image: "phdr_ok e B phdr m \<Longrightarrow> loads e phdr m \<Longrightarrow> length (seg_image e (fst B) phdr m) = unat (mem64 m (phdr + o_memsz (elf e)))"
  by (simp add: phdr_ok_def seg_image_def Let_def)

lemma load_segment_places:
  assumes e: "efi_ok e" and ok: "phdr_ok e B phdr m0" and same: "same_on B m0 m"
  shows "load_segment e (fst B) phdr m = place_segment e (fst B) m0 phdr m" "same_on B m0 (place_segment e (fst B) m0 phdr m)"
proof -
  let ?L = "elf e"
  have ins: "inside B (phdr + o_type ?L) 4" "inside B (phdr + o_vaddr ?L) 8" "inside B (phdr + o_offset ?L) 8"
    "inside B (phdr + o_filesz ?L) 8" "inside B (phdr + o_memsz ?L) 8"
    using ok by (simp_all add: phdr_ok_def Let_def)
  note R = same_reads(2)[OF same ins(1)] same_reads(3)[OF same ins(2)] same_reads(3)[OF same ins(3)] same_reads(3)[OF same ins(4)] same_reads(3)[OF same ins(5)]
  have "load_segment e (fst B) phdr m = place_segment e (fst B) m0 phdr m \<and> same_on B m0 (place_segment e (fst B) m0 phdr m)"
  proof (cases "loads e phdr m0")
    case False
    then show ?thesis using R(1) same by (simp add: load_segment_def place_segment_def loads_def Let_def)
  next
    case True
    define v memsz filesz src where "v = seg_addr e phdr m0" and "memsz = mem64 m0 (phdr + o_memsz ?L)"
      and "filesz = mem64 m0 (phdr + o_filesz ?L)" and "src = fst B + mem64 m0 (phdr + o_offset ?L)"
    have b: "unat filesz \<le> unat memsz" "unat v + unat memsz \<le> 2 ^ 64" "unat v + unat memsz \<le> unat (fst B) \<or> unat (fst B) + snd B \<le> unat v"
      "inside B src (unat filesz)"
      using ok True by (simp_all add: phdr_ok_def Let_def v_def memsz_def filesz_def src_def)
    let ?m1 = "store_bytes v (replicate (unat memsz) 0) m"
    have s1: "SetMem e v memsz 0 m = ?m1" using e b(2) by (simp add: efi_ok_def)
    have same1: "same_on B m0 ?m1"
      using same b(2,3) by (auto simp: same_on_def store_bytes_at inside_def)
    note R1 = same_reads(3)[OF same1 ins(3)] same_reads(3)[OF same1 ins(4)]
    have f: "unat v + unat filesz \<le> 2 ^ 64" using b(1,2) by simp
    have "unat src + unat filesz \<le> 2 ^ 64" "unat v + unat filesz \<le> unat src \<or> unat src + unat filesz \<le> unat v"
      using b by (auto simp: inside_def)
    then have "CopyMem e v src filesz ?m1 = store_bytes v (bytes_at ?m1 src (unat filesz)) ?m1" using e f by (simp add: efi_ok_def)
    also have "bytes_at ?m1 src (unat filesz) = bytes_at m0 src (unat filesz)" by (rule same_bytes[OF same1 b(4)])
    also have "store_bytes v (bytes_at m0 src (unat filesz)) ?m1 = store_bytes v (seg_image e (fst B) phdr m0) m"
    proof
      fix x
      have "seg_image e (fst B) phdr m0 = bytes_at m0 src (unat filesz) @ replicate (unat memsz - unat filesz) 0"
        by (simp add: seg_image_def Let_def filesz_def memsz_def src_def)
      then show "store_bytes v (bytes_at m0 src (unat filesz)) ?m1 x = store_bytes v (seg_image e (fst B) phdr m0) m x"
        using b(1,2) f by (auto simp: store_bytes_at nth_append)
    qed
    finally have "load_segment e (fst B) phdr m = place_segment e (fst B) m0 phdr m"
      using True R R1 s1 by (simp add: load_segment_def place_segment_def loads_def seg_addr_def Let_def v_def memsz_def filesz_def src_def)
    moreover have "same_on B m0 (place_segment e (fst B) m0 phdr m)"
      using same b(2,3) True length_seg_image[OF ok True]
      by (auto simp: same_on_def place_segment_def store_bytes_at inside_def v_def memsz_def)
    ultimately show ?thesis by blast
  qed
  then show "load_segment e (fst B) phdr m = place_segment e (fst B) m0 phdr m" "same_on B m0 (place_segment e (fst B) m0 phdr m)" by blast+
qed

definition phdr_at :: "efi \<Rightarrow> u64 \<Rightarrow> nat \<Rightarrow> u64" where
  "phdr_at e phdrs i = phdrs + of_nat i * sizeof_phdr (elf e)"

text \<open>The loop places the segments of all headers one after the other, each as the file has it.\<close>

lemma load_segments_fold:
  assumes e: "efi_ok e" and h: "inside B (fst B + o_phnum (elf e)) 2" and N: "N = unat (mem16 m0 (fst B + o_phnum (elf e)))"
    and ok: "\<forall>j < N. phdr_ok e B (phdr_at e phdrs j) m0" and same: "same_on B m0 m" and i: "i \<le> N"
  shows "load_segments e (fst B) phdrs i m = fold (\<lambda>j. place_segment e (fst B) m0 (phdr_at e phdrs j)) [i..<N] m"
  using same i
proof (induction "N - i" arbitrary: i m)
  case 0
  then show ?case using same_reads(1)[OF 0(2) h] N by (subst load_segments.simps) simp
next
  case (Suc n)
  have iN: "i < N" using Suc.hyps(2) by simp
  note P = load_segment_places[OF e ok[rule_format, OF iN] Suc.prems(1)]
  have "load_segments e (fst B) phdrs i m = load_segments e (fst B) phdrs (i + 1) (place_segment e (fst B) m0 (phdr_at e phdrs i) m)"
    using same_reads(1)[OF Suc.prems(1) h] N iN P(1) by (subst load_segments.simps) (simp add: phdr_at_def)
  also have "\<dots> = fold (\<lambda>j. place_segment e (fst B) m0 (phdr_at e phdrs j)) [i + 1..<N] (place_segment e (fst B) m0 (phdr_at e phdrs i) m)"
    using Suc.hyps iN P(2) by (intro Suc.hyps(1)) simp_all
  finally show ?case using iN by (simp add: upt_conv_Cons)
qed

lemma bytes_stored:
  assumes "unat a + length bs \<le> 2 ^ 64"
  shows "bytes_at (store_bytes a bs m) a (length bs) = bs"
  using bytes_at_nth[OF assms] by (intro nth_equalityI) (auto simp: store_bytes_at[OF assms])

lemma bytes_stored_apart:
  assumes "unat b + length cs \<le> 2 ^ 64" "unat a + n \<le> 2 ^ 64" "unat a + n \<le> unat b \<or> unat b + length cs \<le> unat a"
  shows "bytes_at (store_bytes b cs m) a n = bytes_at m a n"
  using bytes_at_nth[OF assms(2)] assms(3) by (intro nth_equalityI) (auto simp: store_bytes_at[OF assms(1)])

text \<open>
  When the segments do not overlap, every one of them is in memory at the end: its bytes from the
  file, then zeros up to its size in memory.
\<close>

lemma segments_in_place:
  assumes e: "efi_ok e" and h: "inside B (fst B + o_phnum (elf e)) 2" and N: "N = unat (mem16 m (fst B + o_phnum (elf e)))"
    and ok: "\<forall>j < N. phdr_ok e B (phdr_at e phdrs j) m"
    and apart: "\<forall>j < N. \<forall>k < N. j \<noteq> k \<longrightarrow> loads e (phdr_at e phdrs j) m \<longrightarrow> loads e (phdr_at e phdrs k) m \<longrightarrow>
      unat (seg_addr e (phdr_at e phdrs j) m) + length (seg_image e (fst B) (phdr_at e phdrs j) m) \<le> unat (seg_addr e (phdr_at e phdrs k) m) \<or>
      unat (seg_addr e (phdr_at e phdrs k) m) + length (seg_image e (fst B) (phdr_at e phdrs k) m) \<le> unat (seg_addr e (phdr_at e phdrs j) m)"
    and j: "j < N" "loads e (phdr_at e phdrs j) m"
  shows "bytes_at (load_segments e (fst B) phdrs 0 m) (seg_addr e (phdr_at e phdrs j) m) (length (seg_image e (fst B) (phdr_at e phdrs j) m)) =
    seg_image e (fst B) (phdr_at e phdrs j) m"
proof -
  let ?a = "\<lambda>j. seg_addr e (phdr_at e phdrs j) m" and ?bs = "\<lambda>j. seg_image e (fst B) (phdr_at e phdrs j) m"
  have top: "unat (?a k) + length (?bs k) \<le> 2 ^ 64" if "k < N" "loads e (phdr_at e phdrs k) m" for k
    using ok that length_seg_image[OF ok[rule_format, OF that(1)] that(2)] by (auto simp: phdr_ok_def Let_def)
  let ?f = "\<lambda>k. place_segment e (fst B) m (phdr_at e phdrs k)"
  have "n \<le> N \<Longrightarrow> j < n \<Longrightarrow> bytes_at (fold ?f [0..<n] m) (?a j) (length (?bs j)) = ?bs j" for n
  proof (induction n)
    case (Suc n)
    show ?case
    proof (cases "j = n")
      case True
      then show ?thesis using j bytes_stored[OF top[OF j]] by (simp add: place_segment_def)
    next
      case False
      then have IH: "bytes_at (fold ?f [0..<n] m) (?a j) (length (?bs j)) = ?bs j" using Suc by simp
      show ?thesis
      proof (cases "loads e (phdr_at e phdrs n) m")
        case l: True
        then have "unat (?a j) + length (?bs j) \<le> unat (?a n) \<or> unat (?a n) + length (?bs n) \<le> unat (?a j)"
          using apart j False Suc.prems(1) by (meson Suc_le_lessD)
        then have "bytes_at (store_bytes (?a n) (?bs n) x) (?a j) (length (?bs j)) = bytes_at x (?a j) (length (?bs j))" for x
          using bytes_stored_apart[OF top[OF _ l] top[OF j]] Suc.prems(1) by simp
        moreover have "?f n x = store_bytes (?a n) (?bs n) x" for x using l by (simp add: place_segment_def)
        ultimately show ?thesis using IH by simp
      next
        case False
        then have "?f n x = x" for x by (simp add: place_segment_def)
        then show ?thesis using IH by simp
      qed
    qed
  qed simp
  moreover have "load_segments e (fst B) phdrs 0 m = fold ?f [0..<N] m"
    using load_segments_fold[OF e h N ok, of m 0] by (simp add: same_on_def)
  ultimately show ?thesis using j(1) by simp
qed

end
