(* ===== verification/Spec2Isabelle.thy ===== *)
theory Spec2Isabelle
  imports Pmm Heap Vmm Interrupts Tasks Input Ramfs Storage XhciSpec PngSpec HwProfile DesktopSpec KernelMainSpec
    UserModeSpec Exceptions Ahci Console SetupWizard Bootloader
begin

text \<open>
  VexOS, a small x86-64 kernel in C (\<open>src/kernel\<close>, headers in \<open>src/include\<close>). This development
  models the kernel from its boot to the frame loop of its desktop: the memory allocators, paging,
  interrupts and the scheduler, user mode and its system calls, input, the RAM store, the storage
  stack from the file system down to the ports of the disk controller, PCI, the USB host controller
  with mouse and keyboard, the PNG decoder, the drawing and the windows of the desktop, and the
  set-up of all this by \<open>kernel_main\<close>.

  Layout.
  \<^item> \<open>Prelude\<close>: the word types of the C code, lemmas on machine words, C strings
    (\<open>str_len32\<close>, \<open>str_eq\<close>, \<open>str_copy\<close>), little-endian encodings, first-match search.
  \<^item> \<open>Pmm\<close> (\<open>mem/pmm.c\<close>): the page bitmap. \<open>frame_allocator\<close> is what a client of a frame
    allocator relies on; the PMM is its interpretation, and \<open>Vmm\<close> uses it through that.
  \<^item> \<open>Heap\<close> (\<open>mem/heap.c\<close>): the header list in a store of addresses, refined to a list of
    blocks; \<open>byte_heap\<close> is the contract \<open>Ramfs\<close> uses.
  \<^item> \<open>Vmm\<close> (\<open>mem/vmm.c\<close>): page tables in physical memory, with the four-level walk as reference.
  \<^item> \<open>Io\<close>, \<open>Interrupts\<close> (\<open>cpu/interrupts.c\<close>) over two 8259 controllers with their initialisation words
    (\<open>pic_protocol\<close>), \<open>Tasks\<close> (\<open>tasking/task.c\<close>, \<open>irq0_handler\<close>).
  \<^item> \<open>Input\<close> (\<open>core/input.c\<close>): pointer state and the keyboard ring buffer, the latter an
    interpretation of \<open>fifo_queue\<close>.
  \<^item> \<open>Ramfs\<close> (\<open>core/ramfs.c\<close>) on the kernel heap and a byte memory.
  \<^item> \<open>BlockDevice\<close>: the driver calls \<open>simplefs.c\<close> makes, as a record of functions, and the
    contract \<open>block_device\<close>; \<open>Ata\<close> (\<open>drivers/ata_pio.c\<close>) is its interpretation, for any
    hardware that refines the reference ATA device written there. That device may report a failed write before
    the data, after it, or only at the flush; the driver does not look at the status after the last sector, so the
    contract tells three sets of sectors apart: those that can be read, those whose writes are reported as done
    (\<open>md_takes\<close>), and those that then hold the data (\<open>md_stores\<close>).
  \<^item> \<open>FsState\<close>, \<open>Fat32\<close>, \<open>SimpleFs\<close> (\<open>core/simplefs.c\<close>): the file system state, the read-only
    FAT32 part and the SFS part, each proved against \<open>block_device\<close>; \<open>Storage\<close> takes these
    lemmas through the interpretation, so that they speak of the port-level driver.

  \<^item> \<open>XhciState\<close>, \<open>XhciRing\<close>, \<open>XhciHid\<close>, \<open>XhciEvents\<close>, \<open>XhciEnum\<close> (\<open>drivers/usb/xhci\<close>): the USB
    driver over an arbitrary bus, a record of memory and register accesses. \<open>XhciRingSpec\<close> has the
    contract \<open>transfer_ring\<close> between a producer and the consumer of the xHCI specification, with the
    command, endpoint-0 and interrupt rings as interpretations, and the event ring as a queue;
    \<open>XhciSpec\<close> has reports, descriptors, configurations, the event loop and the port reset. In these runs the
    producer is at most 255 TRBs ahead of the consumer (\<open>ring_run\<close>): the code does not check this, it waits for
    each command, and has one interrupt transfer in flight.
    \<open>XhciVmm\<close> shows what the driver and the enumeration do to the page allocator and the page tables.

  \<^item> \<open>Png\<close>, \<open>PngSpec\<close> (\<open>core/png.c\<close>): the decoder over the kernel heap, against an encoder.
  \<^item> \<open>Pci\<close> (\<open>drivers/pci.c\<close>), \<open>HwProfile\<close> (\<open>core/hw_profile.c\<close>): configuration space through its two
    ports, the enumeration, the CPU and GPU profile.
  \<^item> \<open>Graphics\<close>, \<open>DeskState\<close>, \<open>DeskDraw\<close>, \<open>Shell\<close>, \<open>Desktop\<close> (\<open>core/desktop.c\<close>): drawing primitives,
    the state, the windows, the terminal's commands, and the tick with its handlers.
    \<open>GraphicsSpec\<close>, \<open>DeskDrawSpec\<close>, \<open>ShellSpec\<close>, \<open>DesktopSpec\<close> have their properties. A store into a text
    buffer is \<open>store_at\<close>, which makes the list longer when the index is behind the end; a tick that leaves
    the buffers of the PNG decoder has the outcome \<open>Fault\<close>, and only the command \<open>wall\<close> has it (\<open>tick_faults\<close>).

  \<^item> \<open>Wizard\<close>, \<open>WizardSpec\<close> (the first-boot wizard in \<open>core/desktop.c\<close>): a loop over polls of the
    pointer, which ends when the sixth step is confirmed.
  \<^item> \<open>KernelMain\<close>, \<open>KernelMainSpec\<close> (\<open>core/main.c\<close>): the memory set-up on the page allocator, the page
    tables and the heap, the order of the boot, in which the USB driver works on the same memory management,
    and the frame loop with its limiter.
  \<^item> \<open>Descriptors\<close> (\<open>cpu/gdt.c\<close>, \<open>cpu/idt.c\<close>): segments, task state and gates as the processor reads
    them. \<open>UserMode\<close>, \<open>UserModeSpec\<close> (\<open>core/usermode.c\<close>, \<open>core/syscall.c\<close>): the launch of the ring 3
    program against a page walk that requires the user bit at every level, and the system calls.
  \<^item> \<open>Exceptions\<close> (\<open>core/exception.c\<close>): the report can be read back. \<open>Console\<close> (\<open>drivers/console.c\<close>):
    the picture after scrolling, the cursor on the screen. \<open>Ahci\<close> (\<open>drivers/ahci.c\<close>): the chosen port.
    \<open>SetupWizard\<close> (\<open>core/setup_wizard.c\<close>): the disk image the wizard writes, and its overrun.
  \<^item> \<open>Bootloader\<close> (\<open>src/boot/main.c\<close>): the ELF segments end up in place when they overlap neither each
    other nor the file buffer, and the region handed to the kernel is the largest of the memory map.

  What the lemmas show. The allocators and the file system have a functional account of each
  operation over an abstract state (free frames, blocks, files); rings and queues are refinements
  of lists; paging, the desktop and the boot have invariants that every step keeps; drawing
  functions are closed under \<open>draws\<close>, which says that only visible pixels of the current target
  change. \<open>kernel_reaches_desktop\<close> composes the allocators, paging, heap, PCI enumeration, wizard and desktop.

  Bounds and fuel. \<open>png_decode_rgba\<close> takes fuel for its chunk loop, and the length of the file is
  enough unless a chunk length wraps. The wizard and the frame loop take the list of what the USB
  controller delivers, one poll for each round; \<open>wizard_finishes\<close> gives a list after which the
  wizard has returned. \<open>wait_until\<close> has fuel for one wait, which is enough when the clock ticks
  within that many reads (\<open>ticking\<close>). The fuel of a desktop tick is that of the decoder, which the
  command \<open>wall\<close> runs; its theorems hold for any fuel. A mapping loop whose counter wraps does not end,
  \<open>None\<close>.

  Conventions. File-scope variables are the fields of a record, functions take and return it;
  integers keep their width; out-parameters are results; loops that may not end (the heap walks)
  are \<^theory_text>\<open>partial_function (option)\<close>, polling loops and cluster chains keep the code's own budget.
  Serial traces are left out, but for what the system calls print.

  Not modelled. The firmware calls of \<open>src/boot\<close> are parameters or left out. \<open>arch/*.s\<close> is assembly: the stubs
  save the registers around \<open>irq0_handler\<close>, \<open>syscall_handler\<close> and \<open>exception_handler\<close>, and
  \<open>context_switch\<close> has no caller. Inline assembly that loads tables and registers is the state it
  leaves (\<open>vm_cr3\<close>, \<open>vm_invlpg\<close>, the stack of \<open>Ring3\<close>). Concurrency between the timer interrupt and
  the interrupted code is not modelled beyond the switch of stacks in \<open>Task_Schedule\<close>.
\<close>

end
